(* ===== verification/Prelude.thy ===== *)
theory Prelude
  imports Main "HOL-Library.Multiset" "HOL-Library.Monad_Syntax" "HOL-Library.Char_ord"
    "HOL-Library.List_Lexorder"
begin

section \<open>Shared vocabulary: C++ integers, vectors and strings\<close>

text \<open>
  What every component of the model uses. A C++ expression whose evaluation has no defined
  result (an element access out of range, an access through a deleted pointer, a failed
  \<open>assert\<close>) has the value \<^const>\<open>None\<close>; everything else is \<^const>\<open>Some\<close>. Code
  that returns is therefore a function into an option type, composed with the \<open>do\<close>
  notation of the option monad.

  The type \<open>uint32\<close> is a natural number with the wrap-around written out by \<open>u32\<close>;
  \<open>kInvalidIndex\<close> is the all-ones value the playlist code uses for ``no index''.
  \<open>std::vector\<close> is a list, with the range conditions of \<open>operator[]\<close>, \<open>erase\<close> and
  \<open>insert\<close> as the guards of \<open>vec_at\<close>, \<open>vec_erase\<close> and \<open>vec_insert\<close>.
\<close>

named_theorems vec_defs "definitions of the vector operations"

subsection \<open>Unsigned 32-bit arithmetic\<close>

definition u32 :: "nat \<Rightarrow> nat" where
  "u32 n = n mod 4294967296"

abbreviation kInvalidIndex :: nat where
  "kInvalidIndex \<equiv> 4294967295"

definition u32_sub :: "nat \<Rightarrow> nat \<Rightarrow> nat" where
  "u32_sub a b = u32 (a + (4294967296 - u32 b))"

lemma u32_id [simp]: "n \<le> kInvalidIndex \<Longrightarrow> u32 n = n"
  by (simp add: u32_def)

lemma u32_sub_id [simp]: "b \<le> a \<Longrightarrow> a \<le> kInvalidIndex \<Longrightarrow> u32_sub a b = a - b"
proof -
  assume "b \<le> a" and "a \<le> kInvalidIndex"
  then have "a + (4294967296 - u32 b) = (a - b) + 4294967296" by simp
  then have "u32_sub a b = ((a - b) + 4294967296) mod 4294967296"
    by (simp only: u32_sub_def u32_def)
  then show ?thesis using \<open>a \<le> kInvalidIndex\<close> by simp
qed

lemma u32_sub_0_1 [simp]: "u32_sub 0 (Suc 0) = kInvalidIndex"
  by (simp add: u32_sub_def u32_def)

lemma u32_sub_length_1 [simp]:
  "xs \<noteq> [] \<Longrightarrow> length xs \<le> kInvalidIndex \<Longrightarrow> u32_sub (length xs) (Suc 0) = length xs - 1"
  by (cases xs) simp_all

subsection \<open>Vectors\<close>

definition vec_at :: "'a list \<Rightarrow> nat \<Rightarrow> 'a option" where
  [vec_defs]: "vec_at xs i = (if i < length xs then Some (xs ! i) else None)"

definition vec_set :: "'a list \<Rightarrow> nat \<Rightarrow> 'a \<Rightarrow> 'a list option" where
  [vec_defs]: "vec_set xs i x = (if i < length xs then Some (xs[i := x]) else None)"

definition vec_erase :: "'a list \<Rightarrow> nat \<Rightarrow> 'a list option" where
  [vec_defs]: "vec_erase xs i = (if i < length xs then Some (take i xs @ drop (Suc i) xs) else None)"

definition vec_erase_range :: "'a list \<Rightarrow> nat \<Rightarrow> nat \<Rightarrow> 'a list option" where
  [vec_defs]: "vec_erase_range xs i j =
     (if i \<le> j \<and> j \<le> length xs then Some (take i xs @ drop j xs) else None)"

definition vec_insert :: "'a list \<Rightarrow> nat \<Rightarrow> 'a list \<Rightarrow> 'a list option" where
  [vec_defs]: "vec_insert xs i ys =
     (if i \<le> length xs then Some (take i xs @ ys @ drop i xs) else None)"

lemma vec_at_Some [simp]: "i < length xs \<Longrightarrow> vec_at xs i = Some (xs ! i)"
  by (simp add: vec_at_def)

lemma vec_erase_Some [simp]:
  "i < length xs \<Longrightarrow> vec_erase xs i = Some (take i xs @ drop (Suc i) xs)"
  by (simp add: vec_erase_def)

lemma vec_insert_Some [simp]:
  "i \<le> length xs \<Longrightarrow> vec_insert xs i ys = Some (take i xs @ ys @ drop i xs)"
  by (simp add: vec_insert_def)

lemma take_nth_drop: "i < length xs \<Longrightarrow> take i xs @ xs ! i # drop (Suc i) xs = xs"
  by (simp add: id_take_nth_drop [symmetric])

lemma mset_erase:
  "i < length xs \<Longrightarrow> mset (take i xs @ drop (Suc i) xs) = mset xs - {#xs ! i#}"
proof -
  assume i: "i < length xs"
  have "mset xs = mset (take i xs @ xs ! i # drop (Suc i) xs)"
    using i by (simp only: take_nth_drop)
  then show ?thesis by simp
qed

lemma mset_insert_at: "mset (take i xs @ ys @ drop i xs) = mset xs + mset ys"
proof -
  have "mset xs = mset (take i xs) + mset (drop i xs)"
    by (metis append_take_drop_id mset_append)
  then show ?thesis by (simp only: mset_append union_ac)
qed

lemma set_insert_at: "set (take i xs @ ys @ drop i xs) = set xs \<union> set ys"
proof -
  have "set_mset (mset (take i xs @ ys @ drop i xs)) = set_mset (mset xs + mset ys)"
    by (simp only: mset_insert_at)
  then show ?thesis by (simp only: set_mset_mset set_mset_union)
qed

lemma distinct_insert_at:
  "distinct (take i xs @ ys @ drop i xs) \<longleftrightarrow> distinct xs \<and> distinct ys \<and> set xs \<inter> set ys = {}"
proof -
  have "mset (take i xs @ ys @ drop i xs) = mset (xs @ ys)"
    by (metis mset_insert_at mset_append)
  then have "distinct (take i xs @ ys @ drop i xs) \<longleftrightarrow> distinct (xs @ ys)"
    by (rule mset_eq_imp_distinct_iff)
  then show ?thesis by simp
qed

lemma set_erase:
  assumes "distinct xs" and "i < length xs"
  shows "set (take i xs @ drop (Suc i) xs) = set xs - {xs ! i}"
proof -
  have "set (take i xs @ xs ! i # drop (Suc i) xs) = set xs"
    using assms(2) by (simp only: take_nth_drop)
  moreover have "distinct (take i xs @ xs ! i # drop (Suc i) xs)"
    using assms by (simp only: take_nth_drop)
  ultimately show ?thesis by auto
qed

lemma distinct_erase: "distinct xs \<Longrightarrow> distinct (take i xs @ drop (Suc i) xs)"
  by (auto dest: set_take_disj_set_drop_if_distinct [of xs i "Suc i"])

lemma length_erase: "i < length xs \<Longrightarrow> length (take i xs @ drop (Suc i) xs) = length xs - 1"
  by simp

subsection \<open>Position of a pointer in a vector\<close>

text \<open>
  The search loop of \<open>PlaylistManager::InternalIndexOf\<close>: the first position whose
  element equals the pointer, \<open>kInvalidIndex\<close> when there is none.
\<close>

fun index_loop :: "'a \<Rightarrow> 'a list \<Rightarrow> nat \<Rightarrow> nat" where
  "index_loop p [] k = kInvalidIndex"
| "index_loop p (x # xs) k = (if p = x then k else index_loop p xs (u32 (k + 1)))"

lemma index_loop_absent [simp]: "p \<notin> set xs \<Longrightarrow> index_loop p xs k = kInvalidIndex"
  by (induction xs arbitrary: k) auto

lemma index_loop_offset:
  "p \<in> set xs \<Longrightarrow> k + length xs \<le> kInvalidIndex \<Longrightarrow>
   \<exists>j. j < length xs \<and> index_loop p xs k = k + j \<and> xs ! j = p \<and> p \<notin> set (take j xs)"
proof (induction xs arbitrary: k)
  case Nil
  then show ?case by simp
next
  case (Cons x xs)
  show ?case
  proof (cases "p = x")
    case True
    then show ?thesis by (intro exI [of _ 0]) simp
  next
    case False
    with Cons.prems have "p \<in> set xs" and "u32 (k + 1) = Suc k" and "Suc k + length xs \<le> kInvalidIndex"
      by auto
    with Cons.IH [of "Suc k"] obtain j where
      "j < length xs" "index_loop p xs (Suc k) = Suc k + j" "xs ! j = p" "p \<notin> set (take j xs)"
      by auto
    with False \<open>u32 (k + 1) = Suc k\<close> show ?thesis
      by (intro exI [of _ "Suc j"]) auto
  qed
qed

lemma index_loop_mem:
  assumes "p \<in> set xs" and "length xs \<le> kInvalidIndex"
  shows "index_loop p xs 0 < length xs" and "xs ! index_loop p xs 0 = p"
  using index_loop_offset [of p xs 0] assms by auto

lemma index_loop_nth:
  assumes "distinct xs" and "i < length xs" and "length xs \<le> kInvalidIndex"
  shows "index_loop (xs ! i) xs 0 = i"
  using index_loop_mem [of "xs ! i" xs] assms by (simp add: nth_eq_iff_index_eq)

lemma index_loop_invalid_iff:
  "length xs \<le> kInvalidIndex \<Longrightarrow> index_loop p xs 0 = kInvalidIndex \<longleftrightarrow> p \<notin> set xs"
  using index_loop_mem(1) [of p xs] by (metis index_loop_absent not_le)

end
