(* ===== verification/ErrorCodes.thy ===== *)
theory ErrorCodes
  imports Prelude
begin

section \<open>Error codes and their messages\<close>

text \<open>
  The enumeration \<open>Error\<close> of \<open>base/include/errors.h\<close> and the table \<open>ErrorString\<close> of
  \<open>base/src/errors.cpp\<close>. The user interfaces print \<open>ErrorString[code]\<close>, an array access:
  \<open>error_string\<close> is that access, undefined where the code is past the end of the table.
\<close>

datatype (plugins only: size) error =
    kError_NoErr
  | kError_UnknownErr
  | kError_InvalidParam
  | kError_LoadLibFailed
  | kError_FindFuncFailed
  | kError_NoFiles
  | kError_NoPrefs
  | kError_BufferTooSmall
  | kError_OutOfMemory
  | kError_FileNoAccess
  | kError_FileExists
  | kError_FileInvalidArg
  | kError_FileNotFound
  | kError_FileNoHandles
  | kError_NoMoreLibDirs
  | kError_NullValueInvalid
  | kError_InvalidError
  | kError_PluginNotInitialized
  | kError_GotDefaultMethod
  | kError_InputUnsuccessful
  | kError_FileSeekNotSupported
  | kError_OutputUnsuccessful
  | kError_InitFailed
  | kError_InitFailedSafely
  | kError_NoDataAvail
  | kError_SeekFailed
  | kError_CreateThreadFailed
  | kError_BufferingUp
  | kError_Interrupt
  | kError_EventPending
  | kError_YouScrewedUp
  | kError_NoPrefValue
  | kError_SyntaxError
  | kError_EndOfStream
  | kError_ConnectFailed
  | kError_CantCreateSocket
  | kError_CannotSetSocketOpts
  | kError_CannotBind
  | kError_DbaseItemNotStored
  | kError_ParseError
  | kError_NotFound
  | kError_NoMoreFormats
  | kError_FormatNotSupported
  | kError_NoMoreDevices
  | kError_DeviceNotFound
  | kError_FeatureNotSupported
  | kError_UserCancel
  | kError_LoadBitmapFailed
  | kError_ProtocolNotSupported
  | kError_InvalidURL
  | kError_CantFindHost
  | kError_IOError
  | kError_UnknownServerError
  | kError_BadHTTPRequest
  | kError_AccessNotAuthorized
  | kError_AccessForbidden
  | kError_RangeNotExceptable
  | kError_WriteFile
  | kError_ReadFile
  | kError_InvalidVersion
  | kError_AlreadyUpdating
  | kError_UnlinkFailed
  | kError_CopyFailed
  | kError_NoItemsUpdated
  | kError_DatabaseNotWorking
  | kError_DuplicateItem
  | kError_ItemNotFound
  | kError_HTTPFileNotFound
  | kError_CDInitFailed
  | kError_InvalidTrack
  | kError_DownloadDenied
  | kError_NoDiscInDrive
  | kError_LastError

primrec error_code :: "error \<Rightarrow> nat" where
  "error_code kError_NoErr = 0"
| "error_code kError_UnknownErr = 1"
| "error_code kError_InvalidParam = 2"
| "error_code kError_LoadLibFailed = 3"
| "error_code kError_FindFuncFailed = 4"
| "error_code kError_NoFiles = 5"
| "error_code kError_NoPrefs = 6"
| "error_code kError_BufferTooSmall = 7"
| "error_code kError_OutOfMemory = 8"
| "error_code kError_FileNoAccess = 9"
| "error_code kError_FileExists = 10"
| "error_code kError_FileInvalidArg = 11"
| "error_code kError_FileNotFound = 12"
| "error_code kError_FileNoHandles = 13"
| "error_code kError_NoMoreLibDirs = 14"
| "error_code kError_NullValueInvalid = 15"
| "error_code kError_InvalidError = 16"
| "error_code kError_PluginNotInitialized = 17"
| "error_code kError_GotDefaultMethod = 18"
| "error_code kError_InputUnsuccessful = 19"
| "error_code kError_FileSeekNotSupported = 20"
| "error_code kError_OutputUnsuccessful = 21"
| "error_code kError_InitFailed = 22"
| "error_code kError_InitFailedSafely = 23"
| "error_code kError_NoDataAvail = 24"
| "error_code kError_SeekFailed = 25"
| "error_code kError_CreateThreadFailed = 26"
| "error_code kError_BufferingUp = 27"
| "error_code kError_Interrupt = 28"
| "error_code kError_EventPending = 29"
| "error_code kError_YouScrewedUp = 30"
| "error_code kError_NoPrefValue = 31"
| "error_code kError_SyntaxError = 32"
| "error_code kError_EndOfStream = 33"
| "error_code kError_ConnectFailed = 34"
| "error_code kError_CantCreateSocket = 35"
| "error_code kError_CannotSetSocketOpts = 36"
| "error_code kError_CannotBind = 37"
| "error_code kError_DbaseItemNotStored = 38"
| "error_code kError_ParseError = 39"
| "error_code kError_NotFound = 40"
| "error_code kError_NoMoreFormats = 41"
| "error_code kError_FormatNotSupported = 42"
| "error_code kError_NoMoreDevices = 43"
| "error_code kError_DeviceNotFound = 44"
| "error_code kError_FeatureNotSupported = 45"
| "error_code kError_UserCancel = 46"
| "error_code kError_LoadBitmapFailed = 47"
| "error_code kError_ProtocolNotSupported = 48"
| "error_code kError_InvalidURL = 49"
| "error_code kError_CantFindHost = 50"
| "error_code kError_IOError = 51"
| "error_code kError_UnknownServerError = 52"
| "error_code kError_BadHTTPRequest = 53"
| "error_code kError_AccessNotAuthorized = 54"
| "error_code kError_AccessForbidden = 55"
| "error_code kError_RangeNotExceptable = 56"
| "error_code kError_WriteFile = 57"
| "error_code kError_ReadFile = 58"
| "error_code kError_InvalidVersion = 59"
| "error_code kError_AlreadyUpdating = 60"
| "error_code kError_UnlinkFailed = 61"
| "error_code kError_CopyFailed = 62"
| "error_code kError_NoItemsUpdated = 63"
| "error_code kError_DatabaseNotWorking = 64"
| "error_code kError_DuplicateItem = 65"
| "error_code kError_ItemNotFound = 66"
| "error_code kError_HTTPFileNotFound = 67"
| "error_code kError_CDInitFailed = 68"
| "error_code kError_InvalidTrack = 69"
| "error_code kError_DownloadDenied = 70"
| "error_code kError_NoDiscInDrive = 71"
| "error_code kError_LastError = 9999"

text \<open>The constructors in the order of the enumeration.\<close>

definition error_list :: "error list" where
  "error_list = [kError_NoErr, kError_UnknownErr, kError_InvalidParam,
     kError_LoadLibFailed, kError_FindFuncFailed, kError_NoFiles,
     kError_NoPrefs, kError_BufferTooSmall, kError_OutOfMemory,
     kError_FileNoAccess, kError_FileExists, kError_FileInvalidArg,
     kError_FileNotFound, kError_FileNoHandles, kError_NoMoreLibDirs,
     kError_NullValueInvalid, kError_InvalidError, kError_PluginNotInitialized,
     kError_GotDefaultMethod, kError_InputUnsuccessful, kError_FileSeekNotSupported,
     kError_OutputUnsuccessful, kError_InitFailed, kError_InitFailedSafely,
     kError_NoDataAvail, kError_SeekFailed, kError_CreateThreadFailed,
     kError_BufferingUp, kError_Interrupt, kError_EventPending,
     kError_YouScrewedUp, kError_NoPrefValue, kError_SyntaxError,
     kError_EndOfStream, kError_ConnectFailed, kError_CantCreateSocket,
     kError_CannotSetSocketOpts, kError_CannotBind, kError_DbaseItemNotStored,
     kError_ParseError, kError_NotFound, kError_NoMoreFormats,
     kError_FormatNotSupported, kError_NoMoreDevices, kError_DeviceNotFound,
     kError_FeatureNotSupported, kError_UserCancel, kError_LoadBitmapFailed,
     kError_ProtocolNotSupported, kError_InvalidURL, kError_CantFindHost,
     kError_IOError, kError_UnknownServerError, kError_BadHTTPRequest,
     kError_AccessNotAuthorized, kError_AccessForbidden, kError_RangeNotExceptable,
     kError_WriteFile, kError_ReadFile, kError_InvalidVersion,
     kError_AlreadyUpdating, kError_UnlinkFailed, kError_CopyFailed,
     kError_NoItemsUpdated, kError_DatabaseNotWorking, kError_DuplicateItem,
     kError_ItemNotFound, kError_HTTPFileNotFound, kError_CDInitFailed,
     kError_InvalidTrack, kError_DownloadDenied, kError_NoDiscInDrive,
     kError_LastError]"

definition ErrorString :: "string list" where
  "ErrorString = [
     ''The operation was successful'',
     ''An unknown error occurred'',
     ''An invalid parameter was used'',
     ''There was an error loading the library'',
     ''Could not find the function'',
     ''No files were found'',
     ''Unable to locate preferences'',
     ''The buffer was too small to hold the data'',
     ''Memory allocation failed'',
     ''Access to the file is denied'',
     ''The file already exists'',
     ''An invalid argument was used'',
     ''The file was not found'',
     ''kError_FileNoHandles'',
     ''kError_NoMoreLibDirs'',
     ''A NULL value is invalid'',
     ''kError_InvalidError'',
     ''The plugin was not initialized'',
     ''kError_GotDefaultMethod'',
     ''Input was unsuccessful'',
     ''Seeking is not supported'',
     ''Output was unsuccessful'',
     ''Initialization failed'',
     ''Initialization failed safely'',
     ''No data is available'',
     ''The seek operation failed'',
     ''The thread was not created'',
     ''kError_BufferingUp'',
     ''kError_Interrupt'',
     ''kError_EventPending'',
     ''Hey, you screwed up'',
     ''No preference value was found'',
     ''There was an error in the syntax'',
     ''Reached the end of the stream'',
     ''Failed to connect to host'',
     ''Failed to create socket'',
     ''Unable to set socket options'',
     ''Cannot bind socket'',
     ''The database item was not stored'',
     ''There was an error parsing the file'',
     ''Error, not found'',
     ''There are no more formats left to iterate'',
     ''The requested format is not supported'',
     ''There are no more devices left to iterate'',
     ''The requested device was not found'',
     ''The requested feature is not supported'',
     ''The operation was cancelled by the user'',
     ''Unable to load bitmap image'',
     ''The requested protocol is not supported'',
     ''The URL is invalid'',
     ''Unable to locate host'',
     ''An I/O error occurred'',
     ''There was an unknown server error'',
     ''A bad HTTP request was made'',
     ''Access is not authorized'',
     ''Access is forbidden'',
     ''The requested range is not acceptable'',
     ''Could not write to the file'',
     ''Could not read from the file'',
     ''Invalid version'',
     ''An update is already being performed'',
     ''Failed to delete file'',
     ''Failed to copy file'',
     ''No items were updated'',
     ''The database is not working'',
     ''Duplicate database item'',
     ''The requested item was not found'',
     ''The requested file was not found'',
     ''Failed to initialize your CD-ROM'',
     ''Cannot play CD track'',
     ''Download denied'',
     ''No CD is in the CD-ROM drive'',
     ''kError_LastError'']"

definition error_string :: "error \<Rightarrow> string option" where
  "error_string e = vec_at ErrorString (error_code e)"

definition IsError :: "error \<Rightarrow> bool" where
  "IsError e \<longleftrightarrow> e \<noteq> kError_NoErr"

abbreviation IsntError :: "error \<Rightarrow> bool" where
  "IsntError e \<equiv> \<not> IsError e"

lemma IsError_simps [simp]:
  "\<not> IsError kError_NoErr" "IsError kError_InvalidParam" "IsError kError_FormatNotSupported"
  "IsError kError_BufferTooSmall" "IsError kError_FileNotFound" "IsError kError_NoPrefValue"
  "IsError kError_OutOfMemory" "IsError kError_FileNoAccess"
  by (simp_all add: IsError_def)

lemma map_error_code_list: "map error_code error_list = [0..<72] @ [9999]"
  by (simp add: error_list_def upt_rec_numeral upt_conv_Cons [of 0] upt_conv_Cons [of "Suc 0"] numeral_2_eq_2 [symmetric])

lemma error_list_complete: "e \<in> set error_list"
  by (cases e) (simp_all add: error_list_def)

lemma error_code_inj: "error_code e = error_code e' \<Longrightarrow> e = e'"
proof -
  have "distinct (map error_code error_list)"
    by (simp add: map_error_code_list)
  then have "inj_on error_code (set error_list)"
    by (simp only: distinct_map)
  then show "error_code e = error_code e' \<Longrightarrow> e = e'"
    using error_list_complete by (blast dest: inj_onD)
qed

text \<open>Equality of codes is equality of the integers, as in the code.\<close>

instantiation error :: equal
begin

definition equal_error :: "error \<Rightarrow> error \<Rightarrow> bool" where
  "equal_error e e' \<longleftrightarrow> error_code e = error_code e'"

instance
  by standard (auto simp: equal_error_def dest: error_code_inj)

end

lemma error_code_below: "e \<noteq> kError_LastError \<Longrightarrow> error_code e < 72"
  by (cases e) simp_all

lemma length_ErrorString: "length ErrorString = 73"
  by (simp add: ErrorString_def)

text \<open>
  Every error code but \<open>kError_LastError\<close> has a message, and \<open>kError_LastError\<close>,
  whose value is 9999, indexes past the end of the table although the table ends with an
  entry for it: looking its message up has no defined result.
\<close>

theorem error_string_defined_iff: "error_string e \<noteq> None \<longleftrightarrow> e \<noteq> kError_LastError"
proof (cases "e = kError_LastError")
  case True
  then show ?thesis by (simp add: error_string_def vec_at_def length_ErrorString)
next
  case False
  then have "error_code e < 72" by (rule error_code_below)
  with False show ?thesis by (simp add: error_string_def length_ErrorString)
qed

end
