(* ===== verification/PullBuffer.thy ===== *)
theory PullBuffer
  imports ErrorCodes "HOL-Library.Word"
begin

section \<open>The pull buffer: a ring buffer with an overflow region\<close>

text \<open>
  \<open>io/src/pullbuffer.cpp\<close>: the byte queue between an input (the producer thread) and a decoder
  (the consumer thread), and between a decoder and an audio output. The block of memory has
  \<open>m_iBufferSize\<close> bytes used as a ring and, behind them, \<open>m_iOverflowSize\<close> bytes that let a
  write or a read stay contiguous across the end of the ring: a write that ran into the
  overflow is moved to the front when it is committed, and a read that would wrap gets the
  front copied behind the ring. \<open>BeginWrite\<close>/\<open>EndWrite\<close> and \<open>BeginRead\<close>/\<open>EndRead\<close> reserve and
  commit; between them the caller owns the region it was given.

  Sizes are 32-bit (\<open>WrapPointer\<close> casts a pointer to \<open>unsigned int\<close>). A failed \<open>assert\<close>, or an
  access outside the block, is \<^const>\<open>None\<close>. Pointers into the block are offsets.
\<close>

type_synonym byte = "8 word"

record pull_buffer =
  pb_mem :: "byte list"
  m_iReadIndex :: nat
  m_iWriteIndex :: nat
  m_iBytesInBuffer :: nat
  m_iOverflowSize :: nat
  m_iBufferSize :: nat
  m_iBytesToRead :: nat
  m_iBytesToWrite :: nat
  m_bEOS :: bool
  m_bExit :: bool

definition int32_of :: "int \<Rightarrow> int" where
  "int32_of x = (x + 2147483648) mod 4294967296 - 2147483648"

text \<open>Copying \<open>n\<close> bytes inside the block (\<open>memcpy\<close>, \<open>memmove\<close>), and a caller's store.\<close>

definition mem_store :: "byte list \<Rightarrow> nat \<Rightarrow> byte list \<Rightarrow> byte list option" where
  "mem_store mem dst bytes =
     (if dst + length bytes \<le> length mem
      then Some (take dst mem @ bytes @ drop (dst + length bytes) mem) else None)"

definition mem_move :: "byte list \<Rightarrow> nat \<Rightarrow> nat \<Rightarrow> nat \<Rightarrow> byte list option" where
  "mem_move mem dst src n =
     (if src + n \<le> length mem then mem_store mem dst (take n (drop src mem)) else None)"

definition check :: "bool \<Rightarrow> unit option" where
  "check P = (if P then Some () else None)"

text \<open>The contents of the fresh block are whatever \<open>new\<close> returned: the argument \<open>garbage\<close>.\<close>

definition pb_new :: "nat \<Rightarrow> nat \<Rightarrow> byte list \<Rightarrow> pull_buffer" where
  "pb_new iBufferSize iOverflowSize garbage =
     \<lparr>pb_mem = garbage, m_iReadIndex = 0, m_iWriteIndex = 0, m_iBytesInBuffer = 0,
      m_iOverflowSize = iOverflowSize, m_iBufferSize = iBufferSize,
      m_iBytesToRead = 0, m_iBytesToWrite = 0, m_bEOS = False, m_bExit = False\<rparr>"

subsection \<open>Writing\<close>

definition pb_BeginWrite ::
  "pull_buffer \<Rightarrow> nat \<Rightarrow> (error \<times> nat option \<times> pull_buffer) option" where
  "pb_BeginWrite b iBytesNeeded = do {
     check (m_iReadIndex b < m_iBufferSize b);
     check (m_iWriteIndex b < m_iBufferSize b);
     check (m_iBytesToWrite b = 0);
     if m_bExit b then Some (kError_Interrupt, None, b)
     else do {
       let pBuffer = m_iWriteIndex b;
       let iAvail =
         (if m_iWriteIndex b > m_iReadIndex b
          then m_iBufferSize b - m_iWriteIndex b + min (m_iReadIndex b) (m_iOverflowSize b)
          else if m_iWriteIndex b = m_iReadIndex b
          then (if m_iBytesInBuffer b = 0 then iBytesNeeded else 0)
          else m_iReadIndex b - m_iWriteIndex b);
       if iBytesNeeded > iAvail then Some (kError_BufferTooSmall, Some pBuffer, b)
       else do {
         check (u32 (m_iWriteIndex b + iBytesNeeded) \<le> u32 (m_iBufferSize b + m_iOverflowSize b));
         check (u32 (m_iBytesInBuffer b + iBytesNeeded) \<le> m_iBufferSize b);
         Some (kError_NoErr, Some pBuffer, b\<lparr>m_iBytesToWrite := iBytesNeeded\<rparr>)
       }
     }
   }"

definition pb_EndWrite :: "pull_buffer \<Rightarrow> nat \<Rightarrow> (error \<times> pull_buffer) option" where
  "pb_EndWrite b iBytesWritten = do {
     check (iBytesWritten \<le> m_iBytesToWrite b);
     check (u32 (m_iBytesInBuffer b + iBytesWritten) \<le> m_iBufferSize b);
     let iWriteIndex = m_iWriteIndex b + iBytesWritten;
     mem \<leftarrow> (if iWriteIndex > m_iBufferSize b then do {
         check (m_iOverflowSize b > 0);
         check (m_iOverflowSize b \<ge> iWriteIndex - m_iBufferSize b);
         mem_move (pb_mem b) 0 (m_iBufferSize b) (iWriteIndex - m_iBufferSize b)
       } else Some (pb_mem b));
     check (m_iBufferSize b \<noteq> 0);
     Some (kError_NoErr, b\<lparr>pb_mem := mem, m_iWriteIndex := iWriteIndex mod m_iBufferSize b,
       m_iBytesInBuffer := u32 (m_iBytesInBuffer b + iBytesWritten), m_iBytesToWrite := 0\<rparr>)
   }"

subsection \<open>Reading\<close>

definition pb_BeginRead ::
  "pull_buffer \<Rightarrow> nat \<Rightarrow> (error \<times> nat option \<times> pull_buffer) option" where
  "pb_BeginRead b iBytesNeeded = do {
     check (m_iBytesToRead b = 0);
     if m_bExit b then Some (kError_Interrupt, None, b)
     else if m_bEOS b \<and> iBytesNeeded > m_iBytesInBuffer b then Some (kError_EndOfStream, None, b)
     else if iBytesNeeded > m_iBytesInBuffer b then Some (kError_NoDataAvail, None, b)
     else do {
       let iAvail =
         (if m_iReadIndex b > m_iWriteIndex b
          then (if m_iOverflowSize b = 0
                then (m_iBufferSize b - m_iReadIndex b) + m_iWriteIndex b
                else m_iBufferSize b - m_iReadIndex b + min (m_iWriteIndex b) (m_iOverflowSize b))
          else if m_iReadIndex b = m_iWriteIndex b
          then (if m_iBytesInBuffer b = 0 then 0 else iBytesNeeded)
          else m_iWriteIndex b - m_iReadIndex b);
       if iBytesNeeded > iAvail then Some (kError_NoDataAvail, None, b)
       else do {
         let iOverflow = int32_of (int (m_iReadIndex b) + int iBytesNeeded - int (m_iBufferSize b));
         if m_iOverflowSize b \<noteq> 0 \<and> iOverflow > int32_of (int (m_iOverflowSize b))
         then Some (kError_InvalidParam, None, b)
         else do {
           mem \<leftarrow> (if m_iOverflowSize b \<noteq> 0 \<and> iOverflow > 0 then do {
               check (m_iOverflowSize b \<ge> nat iOverflow);
               mem_move (pb_mem b) (m_iBufferSize b) 0 (nat iOverflow)
             } else Some (pb_mem b));
           Some (kError_NoErr, Some (m_iReadIndex b),
             b\<lparr>pb_mem := mem, m_iBytesToRead := iBytesNeeded\<rparr>)
         }
       }
     }
   }"

definition pb_EndRead :: "pull_buffer \<Rightarrow> nat \<Rightarrow> (error \<times> pull_buffer) option" where
  "pb_EndRead b iBytesUsed = do {
     check (iBytesUsed \<le> m_iBytesToRead b);
     check (iBytesUsed \<le> m_iBytesInBuffer b);
     check (m_iBufferSize b \<noteq> 0);
     let b' = b\<lparr>m_iReadIndex := (m_iReadIndex b + iBytesUsed) mod m_iBufferSize b,
       m_iBytesInBuffer := m_iBytesInBuffer b - iBytesUsed\<rparr>;
     check (m_iBytesInBuffer b' \<le> m_iBufferSize b');
     Some (kError_NoErr, b'\<lparr>m_iBytesToRead := 0\<rparr>)
   }"

subsection \<open>The operations that wait until nobody reads or writes\<close>

text \<open>
  \<open>Clear\<close>, \<open>GetReadIndex\<close>, \<open>GetWriteIndex\<close>, \<open>Resize\<close> and \<open>DiscardBytes\<close> loop: each round either
  gives up the lock because a region is still handed out (\<open>Retry\<close>, the state is unchanged and
  the round is repeated after a pause), or finishes.
\<close>

datatype 'a round = Retry | Finish 'a

definition pb_Clear :: "pull_buffer \<Rightarrow> (error \<times> pull_buffer) round" where
  "pb_Clear b =
     (if m_bExit b then Finish (kError_Interrupt, b)
      else if m_iBytesToRead b \<noteq> 0 \<or> m_iBytesToWrite b \<noteq> 0 then Retry
      else Finish (kError_NoErr, b\<lparr>m_bEOS := False, m_iReadIndex := 0, m_iWriteIndex := 0,
        m_iBytesInBuffer := 0\<rparr>))"

text \<open>On exit these two return the error code as an index.\<close>

definition pb_GetReadIndex :: "pull_buffer \<Rightarrow> nat round" where
  "pb_GetReadIndex b =
     (if m_bExit b then Finish (error_code kError_Interrupt)
      else if m_iBytesToRead b \<noteq> 0 then Retry else Finish (m_iReadIndex b))"

definition pb_GetWriteIndex :: "pull_buffer \<Rightarrow> nat round" where
  "pb_GetWriteIndex b =
     (if m_bExit b then Finish (error_code kError_Interrupt)
      else if m_iBytesToWrite b \<noteq> 0 then Retry else Finish (m_iWriteIndex b))"

definition pb_WrapPointer :: "pull_buffer \<Rightarrow> nat \<Rightarrow> nat" where
  "pb_WrapPointer b p = (if p \<ge> m_iBufferSize b then p - m_iBufferSize b else p)"

definition pb_Resize ::
  "pull_buffer \<Rightarrow> nat \<Rightarrow> nat \<Rightarrow> byte list \<Rightarrow> (error \<times> pull_buffer) option round" where
  "pb_Resize b iNewSize iNewOverflowSize garbage =
     (if iNewSize < m_iBytesInBuffer b then Finish (Some (kError_BufferTooSmall, b))
      else if m_iReadIndex b \<noteq> 0 then Finish (Some (kError_InvalidError, b))
      else if m_bExit b then Finish (Some (kError_Interrupt, b))
      else if m_iBytesToRead b \<noteq> 0 \<or> m_iBytesToWrite b \<noteq> 0 then Retry
      else Finish (do {
        check (m_iBytesInBuffer b \<le> length (pb_mem b));
        pNew \<leftarrow> mem_store garbage 0 (take (m_iBytesInBuffer b) (pb_mem b));
        Some (kError_NoErr, b\<lparr>pb_mem := pNew, m_iBufferSize := iNewSize,
          m_iOverflowSize := iNewOverflowSize, m_iWriteIndex := m_iBytesInBuffer b\<rparr>)
      }))"

definition pb_IsEndOfStream :: "pull_buffer \<Rightarrow> bool" where
  "pb_IsEndOfStream b = m_bEOS b"

definition pb_SetEndOfStream :: "pull_buffer \<Rightarrow> bool \<Rightarrow> pull_buffer" where
  "pb_SetEndOfStream b e = b\<lparr>m_bEOS := e\<rparr>"

definition pb_GetBufferPercentage :: "pull_buffer \<Rightarrow> nat option" where
  "pb_GetBufferPercentage b = do {
     check (m_iBufferSize b \<noteq> 0);
     Some (u32 (100 * m_iBytesInBuffer b) div m_iBufferSize b)
   }"

definition pb_DiscardBytes :: "pull_buffer \<Rightarrow> (error \<times> pull_buffer) option round" where
  "pb_DiscardBytes b =
     (if m_bExit b then Finish (Some (kError_Interrupt, b))
      else if m_iBytesToRead b \<noteq> 0 \<or> m_iBytesToWrite b \<noteq> 0 then Retry
      else Finish (
        let iBytesToDiscard = int32_of (int (m_iBytesInBuffer b) - int (m_iBufferSize b div 2))
        in if iBytesToDiscard > 0 then do {
             check (m_iBufferSize b \<noteq> 0);
             let b' = b\<lparr>m_iReadIndex := (m_iReadIndex b + nat iBytesToDiscard) mod m_iBufferSize b,
               m_iBytesInBuffer := m_iBytesInBuffer b - nat iBytesToDiscard\<rparr>;
             check (m_iBytesInBuffer b' \<le> m_iBufferSize b');
             Some (kError_NoErr, b')
           }
           else Some (kError_NoErr, b)))"

subsection \<open>Well-formed buffers and the abstract queue of bytes\<close>

definition pb_ok :: "pull_buffer \<Rightarrow> bool" where
  "pb_ok b \<longleftrightarrow> m_iReadIndex b < m_iBufferSize b \<and>
     m_iBufferSize b + m_iOverflowSize b < 2147483648 \<and>
     length (pb_mem b) = m_iBufferSize b + m_iOverflowSize b \<and>
     m_iBytesInBuffer b + m_iBytesToWrite b \<le> m_iBufferSize b \<and>
     m_iWriteIndex b = (m_iReadIndex b + m_iBytesInBuffer b) mod m_iBufferSize b \<and>
     m_iWriteIndex b + m_iBytesToWrite b \<le> m_iBufferSize b + m_iOverflowSize b \<and>
     m_iBytesToRead b \<le> m_iBytesInBuffer b"

text \<open>The committed bytes, oldest first.\<close>

definition pb_fifo :: "pull_buffer \<Rightarrow> byte list" where
  "pb_fifo b = map (\<lambda>k. pb_mem b ! ((m_iReadIndex b + k) mod m_iBufferSize b)) [0..<m_iBytesInBuffer b]"

text \<open>The bytes of the region that starts at offset \<open>off\<close>.\<close>

definition pb_region :: "pull_buffer \<Rightarrow> nat \<Rightarrow> nat \<Rightarrow> byte list" where
  "pb_region b off n = take n (drop off (pb_mem b))"

lemma check_simps [simp]:
  "check P = Some () \<longleftrightarrow> P" "check P = None \<longleftrightarrow> \<not> P" "check True = Some ()" "check False = None"
  by (simp_all add: check_def)

lemma check_bind [simp]: "Option.bind (check P) f = (if P then f () else None)"
  by (simp add: check_def)

lemma int32_of_id [simp]: "-2147483648 \<le> x \<Longrightarrow> x < 2147483648 \<Longrightarrow> int32_of x = x"
  by (simp add: int32_of_def)

lemma mod_once: "(i::nat) < 2 * n \<Longrightarrow> i mod n = (if i < n then i else i - n)"
  by (simp add: mod_if not_less)

lemma length_pb_fifo [simp]: "length (pb_fifo b) = m_iBytesInBuffer b"
  by (simp add: pb_fifo_def)

lemma nth_pb_fifo:
  "k < m_iBytesInBuffer b \<Longrightarrow> pb_fifo b ! k = pb_mem b ! ((m_iReadIndex b + k) mod m_iBufferSize b)"
  by (simp add: pb_fifo_def)

lemma pb_okD:
  assumes "pb_ok b"
  shows "m_iReadIndex b < m_iBufferSize b"
    and "m_iBufferSize b + m_iOverflowSize b < 2147483648"
    and "length (pb_mem b) = m_iBufferSize b + m_iOverflowSize b"
    and "m_iBytesInBuffer b + m_iBytesToWrite b \<le> m_iBufferSize b"
    and "m_iWriteIndex b = (m_iReadIndex b + m_iBytesInBuffer b) mod m_iBufferSize b"
    and "m_iWriteIndex b + m_iBytesToWrite b \<le> m_iBufferSize b + m_iOverflowSize b"
    and "m_iBytesToRead b \<le> m_iBytesInBuffer b"
  using assms unfolding pb_ok_def by blast+

lemma pb_ok_write_index:
  assumes ok: "pb_ok b"
  shows "m_iWriteIndex b =
     (if m_iReadIndex b + m_iBytesInBuffer b < m_iBufferSize b
      then m_iReadIndex b + m_iBytesInBuffer b
      else m_iReadIndex b + m_iBytesInBuffer b - m_iBufferSize b)"
proof -
  have "m_iReadIndex b + m_iBytesInBuffer b < 2 * m_iBufferSize b"
    using pb_okD(1,4) [OF ok] by linarith
  then show ?thesis using pb_okD(5) [OF ok] by (simp only: mod_once)
qed

lemma mem_store_Some: "mem_store mem dst bytes = Some mem' \<longleftrightarrow>
    dst + length bytes \<le> length mem \<and> mem' = take dst mem @ bytes @ drop (dst + length bytes) mem"
  by (auto simp: mem_store_def)

lemma mem_store_length: "mem_store mem dst bytes = Some mem' \<Longrightarrow> length mem' = length mem"
  by (auto simp: mem_store_Some)

lemma mem_store_nth:
  "mem_store mem dst bytes = Some mem' \<Longrightarrow> i < length mem \<Longrightarrow>
   mem' ! i = (if dst \<le> i \<and> i < dst + length bytes then bytes ! (i - dst) else mem ! i)"
proof -
  assume st: "mem_store mem dst bytes = Some mem'" and i: "i < length mem"
  then have d: "dst + length bytes \<le> length mem"
    and m: "mem' = take dst mem @ bytes @ drop (dst + length bytes) mem" by (auto simp: mem_store_Some)
  have t: "length (take dst mem) = dst" using d by simp
  consider "i < dst" | "dst \<le> i" "i < dst + length bytes" | "dst + length bytes \<le> i" by linarith
  then show ?thesis
  proof cases
    case 1
    then show ?thesis using i by (simp add: m nth_append)
  next
    case 2
    then have "mem' ! i = (bytes @ drop (dst + length bytes) mem) ! (i - dst)"
      using t by (simp add: m nth_append)
    moreover have "i - dst < length bytes" using 2 by arith
    ultimately show ?thesis using 2 by (simp add: nth_append)
  next
    case 3
    then have "mem' ! i = (bytes @ drop (dst + length bytes) mem) ! (i - dst)"
      using t by (simp add: m nth_append)
    also have "\<dots> = drop (dst + length bytes) mem ! (i - dst - length bytes)"
    proof -
      have "\<not> i - dst < length bytes" using 3 by arith
      then show ?thesis by (simp only: nth_append if_False)
    qed
    also have "\<dots> = mem ! i" using 3 d by simp
    finally show ?thesis using 3 by simp
  qed
qed

lemma mem_move_Some:
  "src + n \<le> length mem \<Longrightarrow> dst + n \<le> length mem \<Longrightarrow>
   \<exists>mem'. mem_move mem dst src n = Some mem' \<and> length mem' = length mem \<and>
     (\<forall>i < length mem. mem' ! i = (if dst \<le> i \<and> i < dst + n then mem ! (src + (i - dst)) else mem ! i))"
proof -
  assume le: "src + n \<le> length mem" "dst + n \<le> length mem"
  let ?bytes = "take n (drop src mem)"
  have len: "length ?bytes = n" using le by simp
  then obtain mem' where st: "mem_store mem dst ?bytes = Some mem'"
    using le by (auto simp: mem_store_def)
  then have "mem_move mem dst src n = Some mem'" using le by (simp add: mem_move_def)
  moreover have "mem' ! i = (if dst \<le> i \<and> i < dst + n then mem ! (src + (i - dst)) else mem ! i)"
    if "i < length mem" for i
  proof (cases "dst \<le> i \<and> i < dst + n")
    case True
    then have "mem' ! i = ?bytes ! (i - dst)" using mem_store_nth [OF st that] len by simp
    also have "\<dots> = mem ! (src + (i - dst))"
    proof -
      have "i - dst < n" using True by arith
      then show ?thesis using le(1) by simp
    qed
    finally show ?thesis using True by simp
  next
    case False
    then show ?thesis using mem_store_nth [OF st that] len by auto
  qed
  ultimately show ?thesis using mem_store_length [OF st] by auto
qed

subsection \<open>Writing appends to the queue\<close>

lemma pb_BeginWrite_cases:
  assumes "pb_BeginWrite b n = Some (kError_NoErr, p, b')"
  shows "p = Some (m_iWriteIndex b) \<and> b' = b\<lparr>m_iBytesToWrite := n\<rparr> \<and> m_iBytesToWrite b = 0
    \<and> \<not> m_bExit b
    \<and> u32 (m_iWriteIndex b + n) \<le> u32 (m_iBufferSize b + m_iOverflowSize b)
    \<and> u32 (m_iBytesInBuffer b + n) \<le> m_iBufferSize b
    \<and> n \<le> (if m_iWriteIndex b > m_iReadIndex b
          then m_iBufferSize b - m_iWriteIndex b + min (m_iReadIndex b) (m_iOverflowSize b)
          else if m_iWriteIndex b = m_iReadIndex b
          then (if m_iBytesInBuffer b = 0 then n else 0)
          else m_iReadIndex b - m_iWriteIndex b)"
  using assms unfolding pb_BeginWrite_def by (auto simp add: Let_def split: if_split_asm)

lemma pb_BeginWrite_NoErr:
  assumes ok: "pb_ok b" and run: "pb_BeginWrite b n = Some (kError_NoErr, p, b')"
    and n: "n < 4294967296"
  shows "p = Some (m_iWriteIndex b)" and "b' = b\<lparr>m_iBytesToWrite := n\<rparr>" and "pb_ok b'"
    and "m_iBytesToWrite b = 0"
proof -
  note bw = pb_BeginWrite_cases [OF run] and d = pb_okD [OF ok]
  show p: "p = Some (m_iWriteIndex b)" and b': "b' = b\<lparr>m_iBytesToWrite := n\<rparr>"
    and "m_iBytesToWrite b = 0" using bw by auto
  have w: "m_iWriteIndex b < m_iBufferSize b" using d(1) by (simp add: d(5))
  have cn: "m_iBytesInBuffer b + n \<le> m_iBufferSize b"
  proof (cases "m_iBytesInBuffer b = 0")
    case True
    then show ?thesis using bw n by (simp add: u32_def)
  next
    case False
    then have "n \<le> m_iBufferSize b + m_iOverflowSize b"
      using bw d(1) w by (auto split: if_splits)
    then have "m_iBytesInBuffer b + n \<le> kInvalidIndex" using d(2,4) by linarith
    then show ?thesis using bw by simp
  qed
  moreover have "m_iWriteIndex b + n \<le> m_iBufferSize b + m_iOverflowSize b"
  proof -
    have "m_iWriteIndex b + n \<le> kInvalidIndex" and "m_iBufferSize b + m_iOverflowSize b \<le> kInvalidIndex"
      using cn w d(2) by linarith+
    then show ?thesis using bw by simp
  qed
  ultimately show "pb_ok b'" using d by (simp add: b' pb_ok_def)
qed

text \<open>A store by the producer into its region leaves the committed bytes alone.\<close>

lemma pb_ring_index:
  assumes "pb_ok b" and "k < m_iBytesInBuffer b"
  shows "(m_iReadIndex b + k) mod m_iBufferSize b =
    (if m_iReadIndex b + k < m_iBufferSize b then m_iReadIndex b + k
     else m_iReadIndex b + k - m_iBufferSize b)"
proof -
  have "m_iReadIndex b + k < 2 * m_iBufferSize b" using pb_okD(1,4) [OF assms(1)] assms(2) by linarith
  then show ?thesis by (rule mod_once)
qed

lemma pb_ring_outside_region:
  assumes ok: "pb_ok b" and k: "k < m_iBytesInBuffer b"
  shows "(m_iReadIndex b + k) mod m_iBufferSize b < m_iBufferSize b"
    and "(m_iReadIndex b + k) mod m_iBufferSize b < m_iWriteIndex b \<or>
      m_iWriteIndex b + m_iBytesToWrite b \<le> (m_iReadIndex b + k) mod m_iBufferSize b"
  using pb_ring_index [OF ok k] pb_ok_write_index [OF ok] pb_okD(1,4) [OF ok] k
  by (auto split: if_splits)

lemma pb_store_ok:
  assumes ok: "pb_ok b" and st: "mem_store (pb_mem b) (m_iWriteIndex b) data = Some mem"
    and len: "length data = m_iBytesToWrite b"
  shows "pb_ok (b\<lparr>pb_mem := mem\<rparr>)" and "pb_fifo (b\<lparr>pb_mem := mem\<rparr>) = pb_fifo b"
proof -
  note d = pb_okD [OF ok]
  have lm: "length mem = length (pb_mem b)" by (rule mem_store_length [OF st])
  show "pb_ok (b\<lparr>pb_mem := mem\<rparr>)" using d lm by (simp add: pb_ok_def)
  have "mem ! ((m_iReadIndex b + k) mod m_iBufferSize b) =
      pb_mem b ! ((m_iReadIndex b + k) mod m_iBufferSize b)" if k: "k < m_iBytesInBuffer b" for k
    using pb_ring_outside_region [OF ok k] mem_store_nth [OF st] len d(3) by auto
  then show "pb_fifo (b\<lparr>pb_mem := mem\<rparr>) = pb_fifo b" by (simp add: pb_fifo_def)
qed

text \<open>Committing \<open>m\<close> of the reserved bytes appends them to the queue.\<close>

definition pb_same_shape :: "pull_buffer \<Rightarrow> pull_buffer \<Rightarrow> bool" where
  "pb_same_shape b b' \<longleftrightarrow> m_iBufferSize b' = m_iBufferSize b \<and> m_iOverflowSize b' = m_iOverflowSize b"

lemma pb_EndWrite_no_wrap:
  assumes ok: "pb_ok b" and m: "m \<le> m_iBytesToWrite b" and ov: "m_iWriteIndex b + m > m_iBufferSize b"
  shows "m_iReadIndex b + m_iBytesInBuffer b = m_iWriteIndex b"
    and "m_iWriteIndex b + m - m_iBufferSize b \<le> m_iReadIndex b"
    and "m_iWriteIndex b + m - m_iBufferSize b \<le> m_iOverflowSize b"
    and "m_iReadIndex b + m_iBytesInBuffer b < m_iBufferSize b"
proof -
  note d = pb_okD [OF ok] and w = pb_ok_write_index [OF ok]
  show nw: "m_iReadIndex b + m_iBytesInBuffer b < m_iBufferSize b"
    using w d(1,4) m ov by (auto split: if_splits)
  then show "m_iReadIndex b + m_iBytesInBuffer b = m_iWriteIndex b" using w by simp
  then show "m_iWriteIndex b + m - m_iBufferSize b \<le> m_iReadIndex b"
    and "m_iWriteIndex b + m - m_iBufferSize b \<le> m_iOverflowSize b"
    using d(4,6) m by linarith+
qed

lemma pb_EndWrite_mem:
  assumes ok: "pb_ok b" and m: "m \<le> m_iBytesToWrite b"
  shows "\<exists>mem. pb_EndWrite b m = Some (kError_NoErr, b\<lparr>pb_mem := mem,
      m_iWriteIndex := (m_iWriteIndex b + m) mod m_iBufferSize b,
      m_iBytesInBuffer := m_iBytesInBuffer b + m, m_iBytesToWrite := 0\<rparr>) \<and>
    length mem = length (pb_mem b) \<and>
    (\<forall>i < length (pb_mem b). mem ! i = (if i < m_iWriteIndex b + m - m_iBufferSize b
       then pb_mem b ! (m_iBufferSize b + i) else pb_mem b ! i))"
proof (cases "m_iWriteIndex b + m > m_iBufferSize b")
  case True
  note d = pb_okD [OF ok] and nw = pb_EndWrite_no_wrap [OF ok m True]
  let ?k = "m_iWriteIndex b + m - m_iBufferSize b"
  obtain mem where mem: "mem_move (pb_mem b) 0 (m_iBufferSize b) ?k = Some mem"
    "length mem = length (pb_mem b)"
    "\<forall>i < length (pb_mem b). mem ! i = (if i < ?k then pb_mem b ! (m_iBufferSize b + i) else pb_mem b ! i)"
    using mem_move_Some [of "m_iBufferSize b" ?k "pb_mem b" 0] nw(3) d(1,3) by fastforce
  moreover have "0 < m_iOverflowSize b" using nw(3) True by simp
  ultimately show ?thesis
    using True nw(3) d m by (intro exI [of _ mem]) (simp add: pb_EndWrite_def Let_def)
next
  case False
  note d = pb_okD [OF ok]
  then show ?thesis
    using False m by (intro exI [of _ "pb_mem b"]) (simp add: pb_EndWrite_def Let_def)
qed

lemma nth_pb_region:
  "off + n \<le> length (pb_mem b) \<Longrightarrow> j < n \<Longrightarrow> pb_region b off n ! j = pb_mem b ! (off + j)"
  by (simp add: pb_region_def)

lemma length_pb_region: "off + n \<le> length (pb_mem b) \<Longrightarrow> length (pb_region b off n) = n"
  by (simp add: pb_region_def)

lemma pb_EndWrite_ok:
  assumes ok: "pb_ok b" and m: "m \<le> m_iBytesToWrite b"
  shows "\<exists>b'. pb_EndWrite b m = Some (kError_NoErr, b') \<and> pb_ok b' \<and>
    pb_fifo b' = pb_fifo b @ pb_region b (m_iWriteIndex b) m \<and>
    m_iBytesToWrite b' = 0 \<and> m_iBytesToRead b' = m_iBytesToRead b \<and>
    m_iReadIndex b' = m_iReadIndex b \<and> pb_same_shape b b' \<and> m_bExit b' = m_bExit b \<and>
    (\<forall>i. m_iReadIndex b \<le> i \<longrightarrow> i < m_iReadIndex b + m_iBytesToRead b \<longrightarrow> i < length (pb_mem b) \<longrightarrow>
       pb_mem b' ! i = pb_mem b ! i)"
proof -
  note d = pb_okD [OF ok] and w = pb_ok_write_index [OF ok]
  obtain mem where run: "pb_EndWrite b m = Some (kError_NoErr, b\<lparr>pb_mem := mem,
      m_iWriteIndex := (m_iWriteIndex b + m) mod m_iBufferSize b,
      m_iBytesInBuffer := m_iBytesInBuffer b + m, m_iBytesToWrite := 0\<rparr>)"
    and len: "length mem = length (pb_mem b)"
    and mem: "\<And>i. i < length (pb_mem b) \<Longrightarrow> mem ! i = (if i < m_iWriteIndex b + m - m_iBufferSize b
       then pb_mem b ! (m_iBufferSize b + i) else pb_mem b ! i)"
    using pb_EndWrite_mem [OF ok m] by blast
  let ?b = "b\<lparr>pb_mem := mem, m_iWriteIndex := (m_iWriteIndex b + m) mod m_iBufferSize b,
      m_iBytesInBuffer := m_iBytesInBuffer b + m, m_iBytesToWrite := 0\<rparr>"
  have kept: "mem ! i = pb_mem b ! i" if "m_iReadIndex b \<le> i" "i < length (pb_mem b)" for i
  proof (cases "m_iWriteIndex b + m > m_iBufferSize b")
    case True
    then have "\<not> i < m_iWriteIndex b + m - m_iBufferSize b"
      using pb_EndWrite_no_wrap(2) [OF ok m] that(1) by simp
    then show ?thesis using mem [OF that(2)] by simp
  next
    case False
    then show ?thesis using mem [OF that(2)] by simp
  qed
  have ok': "pb_ok ?b"
  proof -
    have "(m_iWriteIndex b + m) mod m_iBufferSize b
        = (m_iReadIndex b + (m_iBytesInBuffer b + m)) mod m_iBufferSize b"
      using d(5) by (simp add: mod_add_left_eq add.assoc)
    moreover have "(m_iReadIndex b + (m_iBytesInBuffer b + m)) mod m_iBufferSize b
        \<le> m_iBufferSize b + m_iOverflowSize b"
    proof -
      have "(m_iReadIndex b + (m_iBytesInBuffer b + m)) mod m_iBufferSize b < m_iBufferSize b"
        using d(1) by simp
      then show ?thesis by linarith
    qed
    ultimately show ?thesis using d m len by (simp add: pb_ok_def)
  qed
  have "pb_fifo ?b = pb_fifo b @ pb_region b (m_iWriteIndex b) m"
  proof (rule nth_equalityI)
    have wm: "m_iWriteIndex b + m \<le> length (pb_mem b)" using d(3,6) m by linarith
    show "length (pb_fifo ?b) = length (pb_fifo b @ pb_region b (m_iWriteIndex b) m)"
      using wm by (simp add: length_pb_region)
    fix k
    assume "k < length (pb_fifo ?b)"
    then have k: "k < m_iBytesInBuffer b + m" by simp
    let ?i = "(m_iReadIndex b + k) mod m_iBufferSize b"
    have i: "?i = (if m_iReadIndex b + k < m_iBufferSize b then m_iReadIndex b + k
       else m_iReadIndex b + k - m_iBufferSize b)"
      using pb_ring_index [OF ok', of k] k by simp
    have il: "?i < length (pb_mem b)" using d(1,3) by (simp add: trans_less_add1)
    show "pb_fifo ?b ! k = (pb_fifo b @ pb_region b (m_iWriteIndex b) m) ! k"
    proof (cases "k < m_iBytesInBuffer b")
      case True
      have "\<not> ?i < m_iWriteIndex b + m - m_iBufferSize b"
        using pb_EndWrite_no_wrap [OF ok m] i True by (cases "m_iWriteIndex b + m > m_iBufferSize b") auto
      then show ?thesis using True mem [OF il] by (simp add: nth_append nth_pb_fifo)
    next
      case False
      define j where "j = k - m_iBytesInBuffer b"
      have j: "k = m_iBytesInBuffer b + j" "j < m" using False k by (auto simp: j_def)
      have "mem ! ?i = pb_mem b ! (m_iWriteIndex b + j)"
      proof (cases "m_iWriteIndex b + j < m_iBufferSize b")
        case True
        then have "?i = m_iWriteIndex b + j" using i w j d(1,4) m by (auto split: if_splits)
        then show ?thesis
          using mem [OF il] pb_EndWrite_no_wrap [OF ok m] d(4) m
          by (cases "m_iWriteIndex b + m > m_iBufferSize b") auto
      next
        case wr: False
        then have big: "m_iWriteIndex b + m > m_iBufferSize b" using j(2) by simp
        note nw = pb_EndWrite_no_wrap [OF ok m big]
        have "?i = m_iWriteIndex b + j - m_iBufferSize b" using i nw(1) j wr by (auto split: if_splits)
        moreover have "m_iWriteIndex b + j - m_iBufferSize b < m_iWriteIndex b + m - m_iBufferSize b"
          using wr j(2) by linarith
        ultimately show ?thesis using mem [OF il] wr by simp
      qed
      then show ?thesis
        using False j wm k by (simp add: nth_append nth_pb_fifo nth_pb_region)
    qed
  qed
  then show ?thesis
    using run ok' kept by (intro exI [of _ ?b]) (simp add: pb_same_shape_def)
qed

subsection \<open>Reading takes from the front of the queue\<close>

text \<open>The overflow a read needs, and what \<open>BeginRead\<close> does on each branch.\<close>

lemma pb_read_overflow:
  assumes ok: "pb_ok b" and n: "n \<le> m_iBytesInBuffer b"
  shows "int32_of (int (m_iReadIndex b) + int n - int (m_iBufferSize b))
    = int (m_iReadIndex b) + int n - int (m_iBufferSize b)"
  using pb_okD(1,2,4) [OF ok] n by (intro int32_of_id) linarith+

lemma pb_BeginRead_NoErr:
  assumes ok: "pb_ok b" and run: "pb_BeginRead b n = Some (kError_NoErr, p, b')"
    and over: "m_iOverflowSize b \<noteq> 0"
  shows "p = Some (m_iReadIndex b)" and "n \<le> m_iBytesInBuffer b" and "m_iBytesToRead b = 0"
    and "m_iReadIndex b + n \<le> m_iBufferSize b + m_iOverflowSize b"
    and "\<exists>mem. b' = b\<lparr>pb_mem := mem, m_iBytesToRead := n\<rparr> \<and> length mem = length (pb_mem b) \<and>
      (\<forall>i < length (pb_mem b). mem ! i =
        (if m_iBufferSize b \<le> i \<and> i < m_iReadIndex b + n then pb_mem b ! (i - m_iBufferSize b)
         else pb_mem b ! i))"
proof -
  note d = pb_okD [OF ok]
  let ?o = "int (m_iReadIndex b) + int n - int (m_iBufferSize b)"
  show p: "p = Some (m_iReadIndex b)" and n: "n \<le> m_iBytesInBuffer b" and r0: "m_iBytesToRead b = 0"
    using run unfolding pb_BeginRead_def
    by (auto simp: Let_def bind_eq_Some_conv split: if_split_asm)
  note o = pb_read_overflow [OF ok n]
  have o2: "int32_of (int (m_iOverflowSize b)) = int (m_iOverflowSize b)"
    using d(2) by (intro int32_of_id) linarith+
  have le: "?o \<le> int (m_iOverflowSize b)"
    and run': "do { mem \<leftarrow> (if 0 < ?o then do {
               check (m_iOverflowSize b \<ge> nat ?o);
               mem_move (pb_mem b) (m_iBufferSize b) 0 (nat ?o)
             } else Some (pb_mem b));
           Some (kError_NoErr, Some (m_iReadIndex b), b\<lparr>pb_mem := mem, m_iBytesToRead := n\<rparr>) }
        = Some (kError_NoErr, p, b')"
    using run over n unfolding pb_BeginRead_def Let_def o o2 by (auto split: if_split_asm)
  show "m_iReadIndex b + n \<le> m_iBufferSize b + m_iOverflowSize b" using le by linarith
  show "\<exists>mem. b' = b\<lparr>pb_mem := mem, m_iBytesToRead := n\<rparr> \<and> length mem = length (pb_mem b) \<and>
      (\<forall>i < length (pb_mem b). mem ! i =
        (if m_iBufferSize b \<le> i \<and> i < m_iReadIndex b + n then pb_mem b ! (i - m_iBufferSize b)
         else pb_mem b ! i))"
  proof (cases "0 < ?o")
    case True
    define k where "k = m_iReadIndex b + n - m_iBufferSize b"
    have k: "nat ?o = k" "m_iReadIndex b + n = m_iBufferSize b + k" using True by (auto simp: k_def)
    have kl: "0 + k \<le> length (pb_mem b)" "m_iBufferSize b + k \<le> length (pb_mem b)"
      using d(3) le k by linarith+
    obtain mem where mv: "mem_move (pb_mem b) (m_iBufferSize b) 0 k = Some mem"
      and mem: "length mem = length (pb_mem b)" "\<forall>i < length (pb_mem b). mem ! i =
        (if m_iBufferSize b \<le> i \<and> i < m_iBufferSize b + k then pb_mem b ! (0 + (i - m_iBufferSize b))
         else pb_mem b ! i)"
      using mem_move_Some [OF kl] by blast
    have "b' = b\<lparr>pb_mem := mem, m_iBytesToRead := n\<rparr>"
      using run' True mv by (simp add: k(1) split: if_split_asm)
    then show ?thesis using mem by (intro exI [of _ mem]) (simp add: k(2))
  next
    case False
    then have "b' = b\<lparr>pb_mem := pb_mem b, m_iBytesToRead := n\<rparr>" using run' by simp
    moreover have "\<not> (m_iBufferSize b \<le> i \<and> i < m_iReadIndex b + n)" for i
      using False by linarith
    ultimately show ?thesis by (intro exI [of _ "pb_mem b"]) auto
  qed
qed

text \<open>The reader's region holds the first bytes of the queue.\<close>

definition pb_reader_ok :: "pull_buffer \<Rightarrow> bool" where
  "pb_reader_ok b \<longleftrightarrow> m_iReadIndex b + m_iBytesToRead b \<le> m_iBufferSize b + m_iOverflowSize b \<and>
     pb_region b (m_iReadIndex b) (m_iBytesToRead b) = take (m_iBytesToRead b) (pb_fifo b)"

lemma pb_BeginRead_ok:
  assumes ok: "pb_ok b" and run: "pb_BeginRead b n = Some (kError_NoErr, p, b')"
    and over: "m_iOverflowSize b \<noteq> 0"
  shows "p = Some (m_iReadIndex b)" and "m_iBytesToRead b' = n" and "pb_ok b'" and "pb_fifo b' = pb_fifo b"
    and "pb_reader_ok b'" and "pb_same_shape b b'" and "m_iBytesToWrite b' = m_iBytesToWrite b"
    and "m_iWriteIndex b' = m_iWriteIndex b"
    and "\<forall>i. m_iWriteIndex b \<le> i \<longrightarrow> i < m_iWriteIndex b + m_iBytesToWrite b \<longrightarrow> pb_mem b' ! i = pb_mem b ! i"
proof -
  note d = pb_okD [OF ok] and br = pb_BeginRead_NoErr [OF ok run over]
  obtain mem where b': "b' = b\<lparr>pb_mem := mem, m_iBytesToRead := n\<rparr>" and len: "length mem = length (pb_mem b)"
    and mem: "\<And>i. i < length (pb_mem b) \<Longrightarrow> mem ! i =
        (if m_iBufferSize b \<le> i \<and> i < m_iReadIndex b + n then pb_mem b ! (i - m_iBufferSize b)
         else pb_mem b ! i)"
    using br(5) by blast
  show "p = Some (m_iReadIndex b)" by (rule br(1))
  show "m_iBytesToRead b' = n" "pb_same_shape b b'" "m_iBytesToWrite b' = m_iBytesToWrite b"
    "m_iWriteIndex b' = m_iWriteIndex b"
    by (simp_all add: b' pb_same_shape_def)
  show ok': "pb_ok b'" using d br(2) len by (simp add: b' pb_ok_def)
  have ring: "mem ! ((m_iReadIndex b + k) mod m_iBufferSize b)
      = pb_mem b ! ((m_iReadIndex b + k) mod m_iBufferSize b)" for k
  proof -
    have "(m_iReadIndex b + k) mod m_iBufferSize b < m_iBufferSize b" using d(1) by simp
    then show ?thesis using mem d(3) by simp
  qed
  then show fifo: "pb_fifo b' = pb_fifo b" by (simp add: pb_fifo_def b')
  show "pb_reader_ok b'"
    unfolding pb_reader_ok_def
  proof (intro conjI)
    show le: "m_iReadIndex b' + m_iBytesToRead b' \<le> m_iBufferSize b' + m_iOverflowSize b'"
      using br(4) by (simp add: b')
    have bound: "m_iReadIndex b + n \<le> length mem" using br(4) d(3) len by simp
    show "pb_region b' (m_iReadIndex b') (m_iBytesToRead b') = take (m_iBytesToRead b') (pb_fifo b')"
    proof (rule nth_equalityI)
      show "length (pb_region b' (m_iReadIndex b') (m_iBytesToRead b'))
          = length (take (m_iBytesToRead b') (pb_fifo b'))"
        using bound br(2) by (simp add: b' length_pb_region pb_region_def)
      fix j
      assume "j < length (pb_region b' (m_iReadIndex b') (m_iBytesToRead b'))"
      then have j: "j < n" using bound by (simp add: b' pb_region_def)
      have "mem ! (m_iReadIndex b + j) = pb_mem b ! ((m_iReadIndex b + j) mod m_iBufferSize b)"
      proof (cases "m_iReadIndex b + j < m_iBufferSize b")
        case True
        then show ?thesis using mem [of "m_iReadIndex b + j"] d(3) by simp
      next
        case False
        have jn: "j < m_iBytesInBuffer b" using j br(2) by simp
        have "m_iReadIndex b + j < length (pb_mem b)" using bound len j by simp
        then show ?thesis
          using mem [of "m_iReadIndex b + j"] False j pb_ring_index [OF ok jn] by simp
      qed
      moreover have "pb_fifo b ! j = pb_mem b ! ((m_iReadIndex b + j) mod m_iBufferSize b)"
        using j br(2) by (simp add: nth_pb_fifo)
      moreover have "pb_region b' (m_iReadIndex b') (m_iBytesToRead b') ! j = mem ! (m_iReadIndex b + j)"
        using j bound by (simp add: pb_region_def b')
      ultimately show "pb_region b' (m_iReadIndex b') (m_iBytesToRead b') ! j
          = take (m_iBytesToRead b') (pb_fifo b') ! j"
        using j fifo by (simp add: b')
    qed
  qed
  show "\<forall>i. m_iWriteIndex b \<le> i \<longrightarrow> i < m_iWriteIndex b + m_iBytesToWrite b \<longrightarrow> pb_mem b' ! i = pb_mem b ! i"
  proof (intro allI impI)
    fix i
    assume i: "m_iWriteIndex b \<le> i" "i < m_iWriteIndex b + m_iBytesToWrite b"
    then have "i < length (pb_mem b)" using d(3,6) by linarith
    moreover have "\<not> (m_iBufferSize b \<le> i \<and> i < m_iReadIndex b + n)"
      using i pb_ok_write_index [OF ok] d(1,4) br(2) by (auto split: if_splits)
    ultimately show "pb_mem b' ! i = pb_mem b ! i" using mem [of i] by (auto simp add: b')
  qed
qed

lemma pb_EndRead_ok:
  assumes ok: "pb_ok b" and m: "m \<le> m_iBytesToRead b"
  shows "\<exists>b'. pb_EndRead b m = Some (kError_NoErr, b') \<and> pb_ok b' \<and> pb_fifo b' = drop m (pb_fifo b) \<and>
    m_iBytesToRead b' = 0 \<and> m_iBytesToWrite b' = m_iBytesToWrite b \<and> m_iWriteIndex b' = m_iWriteIndex b \<and>
    pb_same_shape b b' \<and> pb_mem b' = pb_mem b"
proof -
  note d = pb_okD [OF ok]
  let ?b = "b\<lparr>m_iReadIndex := (m_iReadIndex b + m) mod m_iBufferSize b,
      m_iBytesInBuffer := m_iBytesInBuffer b - m, m_iBytesToRead := 0\<rparr>"
  have mc: "m \<le> m_iBytesInBuffer b" using m d(7) by simp
  have run: "pb_EndRead b m = Some (kError_NoErr, ?b)"
    using m mc d(1,4) by (simp add: pb_EndRead_def Let_def)
  have "((m_iReadIndex b + m) mod m_iBufferSize b + (m_iBytesInBuffer b - m)) mod m_iBufferSize b
      = m_iWriteIndex b"
  proof -
    have "m_iReadIndex b + m + (m_iBytesInBuffer b - m) = m_iReadIndex b + m_iBytesInBuffer b"
      using mc by simp
    then show ?thesis by (simp only: mod_add_left_eq d(5))
  qed
  then have "pb_ok ?b" using d mc by (simp add: pb_ok_def)
  moreover have "pb_fifo ?b = drop m (pb_fifo b)"
    using mc by (intro nth_equalityI) (simp_all add: nth_pb_fifo mod_add_left_eq add.assoc)
  ultimately show ?thesis using run by (intro exI [of _ ?b]) (simp add: pb_same_shape_def)
qed

subsection \<open>The producer and the consumer\<close>

text \<open>
  The two threads around one buffer, interleaved at the granularity of the calls (each holds
  the mutex) and of the accesses to the regions in between. The history records the bytes the
  producer committed and the bytes the consumer took.
\<close>

record pipe =
  pipe_buf :: pull_buffer
  pipe_written :: "byte list"
  pipe_taken :: "byte list"

inductive pipe_step :: "pipe \<Rightarrow> pipe \<Rightarrow> bool" where
  begin_write: "pb_BeginWrite (pipe_buf s) n = Some (e, p, b) \<Longrightarrow> n < 4294967296 \<Longrightarrow>
     pipe_step s (s\<lparr>pipe_buf := b\<rparr>)"
| store: "length data = m_iBytesToWrite (pipe_buf s) \<Longrightarrow>
     mem_store (pb_mem (pipe_buf s)) (m_iWriteIndex (pipe_buf s)) data = Some mem \<Longrightarrow>
     pipe_step s (s\<lparr>pipe_buf := (pipe_buf s)\<lparr>pb_mem := mem\<rparr>\<rparr>)"
| end_write: "m \<le> m_iBytesToWrite (pipe_buf s) \<Longrightarrow> pb_EndWrite (pipe_buf s) m = Some (e, b) \<Longrightarrow>
     pipe_step s (s\<lparr>pipe_buf := b,
       pipe_written := pipe_written s @ pb_region (pipe_buf s) (m_iWriteIndex (pipe_buf s)) m\<rparr>)"
| begin_read: "pb_BeginRead (pipe_buf s) n = Some (e, p, b) \<Longrightarrow> pipe_step s (s\<lparr>pipe_buf := b\<rparr>)"
| end_read: "m \<le> m_iBytesToRead (pipe_buf s) \<Longrightarrow> pb_EndRead (pipe_buf s) m = Some (e, b) \<Longrightarrow>
     pipe_step s (s\<lparr>pipe_buf := b,
       pipe_taken := pipe_taken s @ pb_region (pipe_buf s) (m_iReadIndex (pipe_buf s)) m\<rparr>)"
| set_eos: "pipe_step s (s\<lparr>pipe_buf := pb_SetEndOfStream (pipe_buf s) e\<rparr>)"

inductive_cases pipe_stepE: "pipe_step s t"

inductive pipe_reach :: "pipe \<Rightarrow> pipe \<Rightarrow> bool" where
  pipe_refl: "pipe_reach s s"
| pipe_trans: "pipe_reach s t \<Longrightarrow> pipe_step t u \<Longrightarrow> pipe_reach s u"

definition pipe_ok :: "pipe \<Rightarrow> bool" where
  "pipe_ok s \<longleftrightarrow> pb_ok (pipe_buf s) \<and> m_iOverflowSize (pipe_buf s) \<noteq> 0 \<and> pb_reader_ok (pipe_buf s) \<and>
     pipe_written s = pipe_taken s @ pb_fifo (pipe_buf s)"

definition pipe_new :: "nat \<Rightarrow> nat \<Rightarrow> byte list \<Rightarrow> pipe" where
  "pipe_new iBufferSize iOverflowSize garbage =
     \<lparr>pipe_buf = pb_new iBufferSize iOverflowSize garbage, pipe_written = [], pipe_taken = []\<rparr>"

lemma pb_Begin_error_same:
  "pb_BeginWrite b n = Some (e, p, b') \<Longrightarrow> e \<noteq> kError_NoErr \<Longrightarrow> b' = b"
  "pb_BeginRead b n = Some (e, p, b') \<Longrightarrow> e \<noteq> kError_NoErr \<Longrightarrow> b' = b"
  by (auto simp: pb_BeginWrite_def pb_BeginRead_def Let_def bind_eq_Some_conv split: if_split_asm)

lemma pb_regions_disjoint:
  assumes ok: "pb_ok b" and "m_iReadIndex b \<le> i" and "i < m_iReadIndex b + m_iBytesToRead b"
  shows "i < m_iWriteIndex b \<or> m_iWriteIndex b + m_iBytesToWrite b \<le> i"
  using pb_ok_write_index [OF ok] pb_okD(1,4,7) [OF ok] assms(2,3) by (auto split: if_splits)

lemma pb_reader_ok_cong:
  assumes r: "pb_reader_ok b" and ok: "pb_ok b"
    and same: "m_iReadIndex b' = m_iReadIndex b" "m_iBytesToRead b' = m_iBytesToRead b" "pb_same_shape b b'"
      "length (pb_mem b') = length (pb_mem b)"
    and mem: "\<And>i. m_iReadIndex b \<le> i \<Longrightarrow> i < m_iReadIndex b + m_iBytesToRead b \<Longrightarrow>
      i < length (pb_mem b) \<Longrightarrow> pb_mem b' ! i = pb_mem b ! i"
    and fifo: "take (m_iBytesToRead b) (pb_fifo b') = take (m_iBytesToRead b) (pb_fifo b)"
  shows "pb_reader_ok b'"
proof -
  have le: "m_iReadIndex b + m_iBytesToRead b \<le> length (pb_mem b)"
    using r pb_okD(3) [OF ok] by (simp add: pb_reader_ok_def)
  have "pb_region b' (m_iReadIndex b) (m_iBytesToRead b) = pb_region b (m_iReadIndex b) (m_iBytesToRead b)"
    using le same(4) mem by (intro nth_equalityI) (simp_all add: length_pb_region nth_pb_region)
  then show ?thesis using r same fifo by (simp add: pb_reader_ok_def pb_same_shape_def)
qed

lemma pb_reader_take:
  assumes r: "pb_reader_ok b" and m: "m \<le> m_iBytesToRead b"
  shows "pb_region b (m_iReadIndex b) m = take m (pb_fifo b)"
proof -
  have "pb_region b (m_iReadIndex b) m = take m (pb_region b (m_iReadIndex b) (m_iBytesToRead b))"
    using m by (simp add: pb_region_def min_def)
  then show ?thesis using r m by (simp add: pb_reader_ok_def min_def)
qed

lemma pipe_begin_write:
  assumes "pipe_ok s" and run: "pb_BeginWrite (pipe_buf s) n = Some (e, p, b)" and n: "n < 4294967296"
  shows "pipe_ok (s\<lparr>pipe_buf := b\<rparr>)"
proof (cases "e = kError_NoErr")
  case True
  from assms(1) have ok: "pb_ok (pipe_buf s)" by (simp add: pipe_ok_def)
  note bw = pb_BeginWrite_NoErr [OF ok run [unfolded True] n]
  have "pb_fifo b = pb_fifo (pipe_buf s)" by (simp add: bw(2) pb_fifo_def)
  moreover have "pb_reader_ok b"
    using assms(1) bw(2) by (simp add: pipe_ok_def pb_reader_ok_def pb_fifo_def pb_region_def)
  ultimately show ?thesis using assms(1) bw(2,3) by (simp add: pipe_ok_def)
next
  case False
  then show ?thesis using assms(1) pb_Begin_error_same(1) [OF run] by simp
qed

lemma pipe_store:
  assumes "pipe_ok s" and len: "length data = m_iBytesToWrite (pipe_buf s)"
    and st: "mem_store (pb_mem (pipe_buf s)) (m_iWriteIndex (pipe_buf s)) data = Some mem"
  shows "pipe_ok (s\<lparr>pipe_buf := (pipe_buf s)\<lparr>pb_mem := mem\<rparr>\<rparr>)"
proof -
  let ?b = "pipe_buf s"
  from assms(1) have ok: "pb_ok ?b" and r: "pb_reader_ok ?b" by (simp_all add: pipe_ok_def)
  note so = pb_store_ok [OF ok st len]
  have "pb_reader_ok (?b\<lparr>pb_mem := mem\<rparr>)"
  proof (rule pb_reader_ok_cong [OF r ok])
    fix i
    assume i: "m_iReadIndex ?b \<le> i" "i < m_iReadIndex ?b + m_iBytesToRead ?b" "i < length (pb_mem ?b)"
    then show "pb_mem (?b\<lparr>pb_mem := mem\<rparr>) ! i = pb_mem ?b ! i"
      using pb_regions_disjoint [OF ok i(1,2)] mem_store_nth [OF st i(3)] len by auto
  qed (simp_all add: so pb_same_shape_def mem_store_length [OF st])
  then show ?thesis using assms(1) so by (simp add: pipe_ok_def)
qed

lemma pipe_end_write:
  assumes "pipe_ok s" and m: "m \<le> m_iBytesToWrite (pipe_buf s)" and run: "pb_EndWrite (pipe_buf s) m = Some (e, b)"
  shows "pipe_ok (s\<lparr>pipe_buf := b,
     pipe_written := pipe_written s @ pb_region (pipe_buf s) (m_iWriteIndex (pipe_buf s)) m\<rparr>)"
proof -
  let ?b = "pipe_buf s"
  from assms(1) have ok: "pb_ok ?b" and r: "pb_reader_ok ?b" by (simp_all add: pipe_ok_def)
  from pb_EndWrite_ok [OF ok m] run have b: "pb_ok b" "pb_fifo b = pb_fifo ?b @ pb_region ?b (m_iWriteIndex ?b) m"
    "m_iBytesToRead b = m_iBytesToRead ?b" "m_iReadIndex b = m_iReadIndex ?b" "pb_same_shape ?b b"
    and mem: "\<And>i. m_iReadIndex ?b \<le> i \<Longrightarrow> i < m_iReadIndex ?b + m_iBytesToRead ?b \<Longrightarrow>
       i < length (pb_mem ?b) \<Longrightarrow> pb_mem b ! i = pb_mem ?b ! i"
    by auto
  have "length (pb_mem b) = length (pb_mem ?b)"
    using pb_okD(3) [OF ok] pb_okD(3) [OF b(1)] b(5) by (simp add: pb_same_shape_def)
  moreover have "take (m_iBytesToRead ?b) (pb_fifo b) = take (m_iBytesToRead ?b) (pb_fifo ?b)"
    using b(2) pb_okD(7) [OF ok] by simp
  ultimately have "pb_reader_ok b" using mem by (intro pb_reader_ok_cong [OF r ok b(4,3,5)])
  then show ?thesis using assms(1) b by (simp add: pipe_ok_def pb_same_shape_def)
qed

lemma pipe_begin_read:
  assumes "pipe_ok s" and run: "pb_BeginRead (pipe_buf s) n = Some (e, p, b)"
  shows "pipe_ok (s\<lparr>pipe_buf := b\<rparr>)"
proof (cases "e = kError_NoErr")
  case True
  from assms(1) have ok: "pb_ok (pipe_buf s)" and o: "m_iOverflowSize (pipe_buf s) \<noteq> 0"
    by (simp_all add: pipe_ok_def)
  show ?thesis
    using pb_BeginRead_ok [OF ok run [unfolded True] o] assms(1) by (simp add: pipe_ok_def pb_same_shape_def)
next
  case False
  then show ?thesis using assms(1) pb_Begin_error_same(2) [OF run] by simp
qed

lemma pipe_end_read:
  assumes "pipe_ok s" and m: "m \<le> m_iBytesToRead (pipe_buf s)" and run: "pb_EndRead (pipe_buf s) m = Some (e, b)"
  shows "pipe_ok (s\<lparr>pipe_buf := b,
     pipe_taken := pipe_taken s @ pb_region (pipe_buf s) (m_iReadIndex (pipe_buf s)) m\<rparr>)"
proof -
  let ?b = "pipe_buf s"
  from assms(1) have ok: "pb_ok ?b" and r: "pb_reader_ok ?b" by (simp_all add: pipe_ok_def)
  from pb_EndRead_ok [OF ok m] run have b: "pb_ok b" "pb_fifo b = drop m (pb_fifo ?b)"
    "m_iBytesToRead b = 0" "pb_same_shape ?b b" by auto
  have "pb_reader_ok b"
    using b(3) pb_okD(1) [OF b(1)] by (simp add: pb_reader_ok_def pb_region_def)
  then show ?thesis
    using assms(1) b pb_reader_take [OF r m] by (simp add: pipe_ok_def pb_same_shape_def)
qed

lemma pipe_step_ok: "pipe_step s t \<Longrightarrow> pipe_ok s \<Longrightarrow> pipe_ok t"
proof (induction rule: pipe_step.induct)
  case (set_eos s e)
  then show ?case
    by (simp add: pipe_ok_def pb_SetEndOfStream_def pb_ok_def pb_reader_ok_def pb_fifo_def pb_region_def)
qed (simp_all add: pipe_begin_write pipe_store pipe_end_write pipe_begin_read pipe_end_read)

lemma pipe_reach_ok: "pipe_reach s t \<Longrightarrow> pipe_ok s \<Longrightarrow> pipe_ok t"
  by (induction rule: pipe_reach.induct) (auto intro: pipe_step_ok)

lemma pipe_new_ok:
  assumes "0 < sz" and "0 < ov" and "sz + ov < 2147483648" and "length garbage = sz + ov"
  shows "pipe_ok (pipe_new sz ov garbage)"
  using assms
  by (simp add: pipe_ok_def pipe_new_def pb_new_def pb_ok_def pb_reader_ok_def pb_fifo_def pb_region_def)

text \<open>When the calls have a defined result.\<close>

lemma pb_BeginWrite_undefined:
  assumes ok: "pb_ok b" and n: "n < 4294967296"
  shows "pb_BeginWrite b n = None \<longleftrightarrow> m_iBytesToWrite b \<noteq> 0 \<or>
    \<not> m_bExit b \<and> m_iBytesInBuffer b = 0 \<and>
    (m_iBufferSize b < n \<or> m_iBufferSize b + m_iOverflowSize b < m_iWriteIndex b + n)"
proof (cases "m_iBytesToWrite b = 0 \<and> \<not> m_bExit b")
  case False
  have "m_iWriteIndex b < m_iBufferSize b" using pb_okD(1,5) [OF ok] by simp
  then show ?thesis using False pb_okD(1) [OF ok] by (auto simp: pb_BeginWrite_def)
next
  case True
  note d = pb_okD [OF ok] and w = pb_ok_write_index [OF ok]
  have w_lt: "m_iWriteIndex b < m_iBufferSize b" using d(1,5) by simp
  have so: "u32 (m_iBufferSize b + m_iOverflowSize b) = m_iBufferSize b + m_iOverflowSize b"
    using d(2) by simp
  show ?thesis
  proof (cases "m_iBytesInBuffer b = 0")
    case empty: True
    then have "m_iWriteIndex b = m_iReadIndex b" using w d(1) by simp
    moreover have "u32 n = n" using n by simp
    moreover have "u32 (m_iWriteIndex b + n) = m_iWriteIndex b + n" if "n \<le> m_iBufferSize b"
      using that w_lt d(2) by simp
    ultimately show ?thesis
      using True empty w_lt d(1) so by (auto simp: pb_BeginWrite_def Let_def)
  next
    case nonempty: False
    let ?avail = "if m_iWriteIndex b > m_iReadIndex b
          then m_iBufferSize b - m_iWriteIndex b + min (m_iReadIndex b) (m_iOverflowSize b)
          else if m_iWriteIndex b = m_iReadIndex b then 0
          else m_iReadIndex b - m_iWriteIndex b"
    have "m_iWriteIndex b + n \<le> m_iBufferSize b + m_iOverflowSize b
        \<and> m_iBytesInBuffer b + n \<le> m_iBufferSize b" if "n \<le> ?avail"
      using that w d(1,4) nonempty w_lt by (auto split: if_splits)
    moreover have "u32 (m_iWriteIndex b + n) = m_iWriteIndex b + n"
      "u32 (m_iBytesInBuffer b + n) = m_iBytesInBuffer b + n" if "n \<le> ?avail"
      using calculation [OF that] d(2) by simp_all
    ultimately have "pb_BeginWrite b n \<noteq> None"
      using True nonempty w_lt d(1) so unfolding pb_BeginWrite_def Let_def
      by (cases "n \<le> ?avail") auto
    then show ?thesis using True nonempty by simp
  qed
qed

lemma pb_BeginRead_defined:
  assumes ok: "pb_ok b" and r0: "m_iBytesToRead b = 0"
  shows "pb_BeginRead b n \<noteq> None"
proof (cases "n \<le> m_iBytesInBuffer b")
  case False
  then show ?thesis using r0 by (auto simp: pb_BeginRead_def)
next
  case True
  note d = pb_okD [OF ok] and o = pb_read_overflow [OF ok True]
  let ?o = "int (m_iReadIndex b) + int n - int (m_iBufferSize b)"
  have o2: "int32_of (int (m_iOverflowSize b)) = int (m_iOverflowSize b)"
    using d(2) by (intro int32_of_id) linarith+
  have mv: "mem_move (pb_mem b) (m_iBufferSize b) 0 (nat ?o) \<noteq> None"
    if "?o \<le> int (m_iOverflowSize b)"
    using mem_move_Some [of 0 "nat ?o" "pb_mem b" "m_iBufferSize b"] that d(3) by fastforce
  then obtain mem where "?o \<le> int (m_iOverflowSize b) \<Longrightarrow>
      mem_move (pb_mem b) (m_iBufferSize b) 0 (nat ?o) = Some mem" by blast
  then show ?thesis
    using r0 True unfolding pb_BeginRead_def Let_def o o2 by (auto simp: nat_le_iff)
qed

lemma pb_Resize_ok:
  assumes ok: "pb_ok b" and idle: "m_iBytesToRead b = 0" "m_iBytesToWrite b = 0" "\<not> m_bExit b"
    and start: "m_iReadIndex b = 0" and fits: "m_iBytesInBuffer b < iNewSize"
    and bound: "iNewSize + iNewOver < 2147483648" and fresh: "length garbage = iNewSize + iNewOver"
  shows "\<exists>b'. pb_Resize b iNewSize iNewOver garbage = Finish (Some (kError_NoErr, b')) \<and> pb_ok b' \<and>
    pb_fifo b' = pb_fifo b"
proof -
  note d = pb_okD [OF ok]
  let ?bytes = "take (m_iBytesInBuffer b) (pb_mem b)"
  have len: "length ?bytes = m_iBytesInBuffer b" using d(3,4) by simp
  then obtain mem where st: "mem_store garbage 0 ?bytes = Some mem"
    using fits fresh by (auto simp: mem_store_def)
  have lm: "length mem = length garbage" by (rule mem_store_length [OF st])
  let ?b = "b\<lparr>pb_mem := mem, m_iBufferSize := iNewSize, m_iOverflowSize := iNewOver,
    m_iWriteIndex := m_iBytesInBuffer b\<rparr>"
  have "pb_Resize b iNewSize iNewOver garbage = Finish (Some (kError_NoErr, ?b))"
    using idle start fits st d(3,4) by (simp add: pb_Resize_def)
  moreover have "pb_ok ?b"
    using ok idle start fits bound fresh lm by (simp add: pb_ok_def)
  moreover have "pb_fifo ?b = pb_fifo b"
  proof (rule nth_equalityI)
    fix k
    assume "k < length (pb_fifo ?b)"
    then have k: "k < m_iBytesInBuffer b" by simp
    then have "mem ! k = ?bytes ! k" using mem_store_nth [OF st, of k] fits fresh len by auto
    then show "pb_fifo ?b ! k = pb_fifo b ! k"
      using k fits start d(4) by (simp add: nth_pb_fifo)
  qed simp
  ultimately show ?thesis by blast
qed

subsection \<open>Properties\<close>

text \<open>
  C2. First in, first out, under every interleaving: in every state the producer and the
  consumer can reach together from a new buffer with an overflow region, the bytes the
  producer committed are the bytes the consumer took followed by the bytes still buffered, no
  byte lost, duplicated or reordered; and the region a pending read was given holds the next
  bytes of the queue, whatever the producer stored or committed in the meantime.
\<close>

theorem pipe_fifo:
  assumes "0 < sz" and "0 < ov" and "sz + ov < 2147483648" and "length garbage = sz + ov"
    and "pipe_reach (pipe_new sz ov garbage) s"
  shows "pipe_written s = pipe_taken s @ pb_fifo (pipe_buf s) \<and>
    pb_region (pipe_buf s) (m_iReadIndex (pipe_buf s)) (m_iBytesToRead (pipe_buf s))
      = take (m_iBytesToRead (pipe_buf s)) (pb_fifo (pipe_buf s))"
  using pipe_reach_ok [OF assms(5) pipe_new_ok [OF assms(1-4)]]
  by (simp add: pipe_ok_def pb_reader_ok_def)

abbreviation small_pipe :: pipe where
  "small_pipe \<equiv> pipe_new 4 2 [0, 0, 0, 0, 0, 0]"

lemma small_pipe_run:
  "pipe_reach small_pipe (small_pipe\<lparr>pipe_buf := (pipe_buf small_pipe)\<lparr>pb_mem := [1, 2, 3, 0, 0, 0],
     m_iWriteIndex := 3, m_iBytesInBuffer := 3\<rparr>, pipe_written := [1, 2, 3]\<rparr>)"
proof -
  let ?b1 = "(pipe_buf small_pipe)\<lparr>m_iBytesToWrite := 3\<rparr>"
  let ?s1 = "small_pipe\<lparr>pipe_buf := ?b1\<rparr>"
  let ?s2 = "?s1\<lparr>pipe_buf := ?b1\<lparr>pb_mem := [1, 2, 3, 0, 0, 0]\<rparr>\<rparr>"
  have 1: "pipe_step small_pipe ?s1"
    by (rule pipe_step.begin_write [where n = 3 and e = kError_NoErr and p = "Some 0"])
      (simp_all add: pb_BeginWrite_def pipe_new_def pb_new_def Let_def)
  have 2: "pipe_step ?s1 (?s1\<lparr>pipe_buf := (pipe_buf ?s1)\<lparr>pb_mem := [1, 2, 3, 0, 0, 0]\<rparr>\<rparr>)"
    by (rule pipe_step.store [where data = "[1, 2, 3]"])
      (simp_all add: mem_store_def pipe_new_def pb_new_def)
  let ?b3 = "(pipe_buf ?s2)\<lparr>m_iWriteIndex := 3, m_iBytesInBuffer := 3, m_iBytesToWrite := 0\<rparr>"
  have 3: "pipe_step ?s2 (?s2\<lparr>pipe_buf := ?b3,
      pipe_written := pipe_written ?s2 @ pb_region (pipe_buf ?s2) (m_iWriteIndex (pipe_buf ?s2)) 3\<rparr>)"
    by (rule pipe_step.end_write [where e = kError_NoErr])
      (simp_all add: pb_EndWrite_def pipe_new_def pb_new_def Let_def)
  have "pipe_reach small_pipe (?s2\<lparr>pipe_buf := ?b3,
      pipe_written := pipe_written ?s2 @ pb_region (pipe_buf ?s2) (m_iWriteIndex (pipe_buf ?s2)) 3\<rparr>)"
    using 1 2 3 by (intro pipe_reach.pipe_trans [OF pipe_reach.pipe_trans [OF
      pipe_reach.pipe_trans [OF pipe_reach.pipe_refl]]]) (auto simp: pipe_new_def)
  then show ?thesis by (simp add: pb_region_def pipe_new_def pb_new_def)
qed

theorem pipe_fifo_witness:
  "\<exists>s. pipe_reach small_pipe s \<and> pipe_written s = [1, 2, 3] \<and> pb_fifo (pipe_buf s) = [1, 2, 3]"
proof -
  let ?s = "small_pipe\<lparr>pipe_buf := (pipe_buf small_pipe)\<lparr>pb_mem := [1, 2, 3, 0, 0, 0],
     m_iWriteIndex := 3, m_iBytesInBuffer := 3\<rparr>, pipe_written := [1, 2, 3]\<rparr>"
  have "pipe_written ?s = pipe_taken ?s @ pb_fifo (pipe_buf ?s)"
    using pipe_fifo [OF _ _ _ _ small_pipe_run] by simp
  then have "pb_fifo (pipe_buf ?s) = [1, 2, 3]" by (simp add: pipe_new_def)
  moreover have "pipe_written ?s = [1, 2, 3]" by simp
  ultimately show ?thesis using small_pipe_run by blast
qed

text \<open>
  No operation on a well-formed buffer touches memory outside its block or fails an
  assertion, with one exception. \<open>BeginRead\<close> and the two commits always have a defined result
  when called in turn; \<open>BeginWrite\<close> fails an assertion exactly when the buffer is empty and
  the request does not fit behind the write index, where its comment promises
  \<open>kError_BufferTooSmall\<close>.
\<close>

theorem pb_calls_defined:
  assumes "pb_ok b"
  shows "(m_iBytesToRead b = 0 \<longrightarrow> pb_BeginRead b n \<noteq> None) \<and>
    (m \<le> m_iBytesToWrite b \<longrightarrow> pb_EndWrite b m \<noteq> None) \<and>
    (k \<le> m_iBytesToRead b \<longrightarrow> pb_EndRead b k \<noteq> None) \<and>
    (m_iBytesToWrite b = 0 \<and> \<not> m_bExit b \<and> n < 4294967296 \<longrightarrow>
      (pb_BeginWrite b n = None \<longleftrightarrow> m_iBytesInBuffer b = 0 \<and>
        (m_iBufferSize b < n \<or> m_iBufferSize b + m_iOverflowSize b < m_iWriteIndex b + n)))"
  using pb_BeginRead_defined [OF assms] pb_EndWrite_ok [OF assms] pb_EndRead_ok [OF assms]
    pb_BeginWrite_undefined [OF assms] by fastforce

theorem pb_calls_defined_witness:
  "pb_BeginWrite (pb_new 4 2 [0, 0, 0, 0, 0, 0]) 7 = None \<and>
   pb_BeginWrite (pb_new 4 2 [0, 0, 0, 0, 0, 0]) 4 \<noteq> None \<and>
   pb_BeginRead (pb_new 4 2 [0, 0, 0, 0, 0, 0]) 1 \<noteq> None"
proof -
  let ?b = "pb_new 4 2 [0, 0, 0, 0, 0, 0]"
  have ok: "pb_ok ?b" by (simp add: pb_ok_def pb_new_def)
  from pb_calls_defined [OF ok, where n = 7] pb_calls_defined [OF ok, where n = 4]
    pb_calls_defined [OF ok, where n = 1]
  show ?thesis by (simp add: pb_new_def)
qed

text \<open>
  \<open>DiscardBytes\<close> on an idle buffer that is more than half full drops the oldest bytes and
  keeps the newest half, in order; otherwise it keeps everything.
\<close>

theorem pb_DiscardBytes_keeps_newest:
  assumes ok: "pb_ok b" and idle: "m_iBytesToRead b = 0" "m_iBytesToWrite b = 0" "\<not> m_bExit b"
  shows "\<exists>b'. pb_DiscardBytes b = Finish (Some (kError_NoErr, b')) \<and> pb_ok b' \<and>
    pb_fifo b' = drop (m_iBytesInBuffer b - m_iBufferSize b div 2) (pb_fifo b)"
proof -
  note d = pb_okD [OF ok]
  let ?x = "int (m_iBytesInBuffer b) - int (m_iBufferSize b div 2)"
  let ?m = "m_iBytesInBuffer b - m_iBufferSize b div 2"
  have x: "int32_of ?x = ?x" using d(2,4) by (intro int32_of_id) linarith+
  show ?thesis
  proof (cases "0 < ?x")
    case True
    then have m: "nat ?x = ?m" by linarith
    let ?r = "b\<lparr>m_iBytesToRead := m_iBytesInBuffer b\<rparr>"
    have "pb_ok ?r" using ok by (simp add: pb_ok_def)
    from pb_EndRead_ok [OF this, of ?m] obtain b' where
      b': "pb_EndRead ?r ?m = Some (kError_NoErr, b')" "pb_ok b'" "pb_fifo b' = drop ?m (pb_fifo ?r)"
      by auto
    have "pb_DiscardBytes b = Finish (Some (kError_NoErr, b'))"
      using b'(1) True idle m d(1,4) by (auto simp: pb_DiscardBytes_def pb_EndRead_def Let_def x)
    moreover have "pb_fifo ?r = pb_fifo b" by (simp add: pb_fifo_def)
    ultimately show ?thesis using b' by auto
  next
    case False
    then have "?m = 0" by linarith
    then show ?thesis using False idle ok by (simp add: pb_DiscardBytes_def Let_def x)
  qed
qed

theorem pb_DiscardBytes_keeps_newest_witness:
  "\<exists>b'. pb_DiscardBytes \<lparr>pb_mem = [1, 2, 3, 4, 0], m_iReadIndex = 1, m_iWriteIndex = 0, m_iBytesInBuffer = 3,
      m_iOverflowSize = 1, m_iBufferSize = 4, m_iBytesToRead = 0, m_iBytesToWrite = 0, m_bEOS = False,
      m_bExit = False\<rparr> = Finish (Some (kError_NoErr, b')) \<and> pb_fifo b' = [3, 4]"
proof -
  let ?b = "\<lparr>pb_mem = [1, 2, 3, 4, 0], m_iReadIndex = 1, m_iWriteIndex = 0, m_iBytesInBuffer = 3,
      m_iOverflowSize = 1, m_iBufferSize = 4, m_iBytesToRead = 0, m_iBytesToWrite = 0, m_bEOS = False,
      m_bExit = False\<rparr> :: pull_buffer"
  have ok: "pb_ok ?b" by (simp add: pb_ok_def)
  have fifo: "pb_fifo ?b = [2, 3, 4]" by (simp add: pb_fifo_def upt_rec)
  obtain b' where "pb_DiscardBytes ?b = Finish (Some (kError_NoErr, b'))"
    "pb_fifo b' = drop (3 - 4 div 2) (pb_fifo ?b)"
    using pb_DiscardBytes_keeps_newest [OF ok] by auto
  moreover from this(2) have "pb_fifo b' = [3, 4]" unfolding fifo by simp
  ultimately show ?thesis by blast
qed

text \<open>
  \<open>Resize\<close> on an idle buffer that has not been read keeps the buffered bytes when the new
  ring is larger than what is buffered; but a new size of exactly the number of buffered bytes
  is accepted too and leaves the write index at the end of the ring, so that every later
  \<open>BeginWrite\<close> fails its assertion.
\<close>

theorem pb_Resize_exact_breaks_writes:
  assumes ok: "pb_ok b" and idle: "m_iBytesToRead b = 0" "m_iBytesToWrite b = 0" "\<not> m_bExit b"
    and start: "m_iReadIndex b = 0" and fresh: "length garbage = iNewSize + iNewOver"
    and bound: "iNewSize + iNewOver < 2147483648" and fits: "m_iBytesInBuffer b \<le> iNewSize"
  shows "\<exists>b'. pb_Resize b iNewSize iNewOver garbage = Finish (Some (kError_NoErr, b')) \<and>
    (if m_iBytesInBuffer b < iNewSize then pb_ok b' \<and> pb_fifo b' = pb_fifo b
     else \<forall>n. pb_BeginWrite b' n = None)"
proof (cases "m_iBytesInBuffer b < iNewSize")
  case True
  then show ?thesis using pb_Resize_ok [OF ok idle start True bound fresh] by simp
next
  case False
  then have eq: "m_iBytesInBuffer b = iNewSize" using fits by simp
  have "length (take (m_iBytesInBuffer b) (pb_mem b)) \<le> length garbage"
    using fresh eq by (simp add: min_def)
  then obtain mem where "mem_store garbage 0 (take (m_iBytesInBuffer b) (pb_mem b)) = Some mem"
    by (simp add: mem_store_def del: length_take)
  then show ?thesis
    using idle start eq pb_okD(3,4) [OF ok] by (simp add: pb_Resize_def pb_BeginWrite_def)
qed

theorem pb_Resize_exact_breaks_writes_witness:
  "\<exists>b'. pb_Resize \<lparr>pb_mem = [1, 2, 0, 0, 0], m_iReadIndex = 0, m_iWriteIndex = 2, m_iBytesInBuffer = 2,
      m_iOverflowSize = 1, m_iBufferSize = 4, m_iBytesToRead = 0, m_iBytesToWrite = 0, m_bEOS = False,
      m_bExit = False\<rparr> 2 1 [0, 0, 0] = Finish (Some (kError_NoErr, b')) \<and> pb_BeginWrite b' 1 = None"
proof -
  let ?b = "\<lparr>pb_mem = [1, 2, 0, 0, 0], m_iReadIndex = 0, m_iWriteIndex = 2, m_iBytesInBuffer = 2,
      m_iOverflowSize = 1, m_iBufferSize = 4, m_iBytesToRead = 0, m_iBytesToWrite = 0, m_bEOS = False,
      m_bExit = False\<rparr> :: pull_buffer"
  have ok: "pb_ok ?b" by (simp add: pb_ok_def)
  from pb_Resize_exact_breaks_writes [OF ok, of "[0, 0, 0]" 2 1] show ?thesis by auto
qed

end
