(* ===== verification/PointerQueue.thy ===== *)
theory PointerQueue
  imports Prelude
begin

section \<open>The linked queue template\<close>

text \<open>
  \<open>base/include/queue.h\<close>: \<open>Queue<T>\<close> for a pointer type \<open>T\<close>, a singly linked list of heap
  cells \<open>QueueMember\<close> with a head and a tail pointer. The heap of cells is the map \<open>q_cells\<close>
  from addresses to cells, \<open>new\<close> takes the next unused address and \<open>delete\<close> unmaps one; an
  access to an address that is not mapped has no defined result. A \<open>NULL\<close> result of \<open>Read\<close> and
  \<open>Peek\<close> is \<^const>\<open>None\<close>. Every operation holds the queue's lock, so each is one step.

  The contract is the locale \<open>fifo\<close>: the operations on the abstract list of members.
\<close>

record 'a queue_member =
  m_behindMe :: "nat option"
  m_myMember :: 'a

record 'a pqueue =
  q_cells :: "nat \<rightharpoonup> 'a queue_member"
  q_head :: "nat option"
  q_tail :: "nat option"
  q_deleteWhenDone :: bool
  q_next :: nat

definition q_new :: "bool \<Rightarrow> 'a pqueue" where
  "q_new dwd = \<lparr>q_cells = Map.empty, q_head = None, q_tail = None,
     q_deleteWhenDone = dwd, q_next = 0\<rparr>"

definition q_Read :: "'a pqueue \<Rightarrow> ('a option \<times> 'a pqueue) option" where
  "q_Read q = do {
     (rtnVal, q1) \<leftarrow> (case q_head q of
         None \<Rightarrow> Some (None, q)
       | Some tmp \<Rightarrow> do {
           c \<leftarrow> q_cells q tmp;
           Some (Some (m_myMember c),
             q\<lparr>q_head := m_behindMe c, q_cells := (q_cells q)(tmp := None)\<rparr>)
         });
     Some (rtnVal, if q_head q1 = None then q1\<lparr>q_tail := None\<rparr> else q1)
   }"

definition q_Peek :: "'a pqueue \<Rightarrow> 'a option option" where
  "q_Peek q = (case q_head q of
       None \<Rightarrow> Some None
     | Some p \<Rightarrow> do { c \<leftarrow> q_cells q p; Some (Some (m_myMember c)) })"

definition q_Write :: "'a pqueue \<Rightarrow> 'a \<Rightarrow> 'a pqueue option" where
  "q_Write q c =
     (let pQM = q_next q;
          cells = (q_cells q)(pQM \<mapsto> \<lparr>m_behindMe = None, m_myMember = c\<rparr>)
      in do {
        cells' \<leftarrow> (case q_tail q of
            None \<Rightarrow> Some cells
          | Some t \<Rightarrow> do {
              tc \<leftarrow> cells t;
              Some (cells(t \<mapsto> tc\<lparr>m_behindMe := Some pQM\<rparr>))
            });
        let q1 = q\<lparr>q_cells := cells', q_next := Suc pQM, q_tail := Some pQM\<rparr>;
        Some (if q_head q1 = None then q1\<lparr>q_head := Some pQM\<rparr> else q1)
      })"

text \<open>
  The loop of \<open>Clear\<close> and of the destructor: from \<open>pQM\<close> on, note the members that are
  deleted with their cells (all of them when \<open>m_deleteWhenDone\<close>), and delete the cells.
\<close>

partial_function (option) q_free ::
  "bool \<Rightarrow> (nat \<rightharpoonup> 'a queue_member) \<Rightarrow> nat option \<Rightarrow> 'a list \<Rightarrow>
   ((nat \<rightharpoonup> 'a queue_member) \<times> 'a list) option" where
  "q_free dwd cells pQM deleted = (case pQM of
       None \<Rightarrow> Some (cells, deleted)
     | Some p \<Rightarrow> do {
         c \<leftarrow> cells p;
         q_free dwd (cells(p := None)) (m_behindMe c)
           (if dwd then deleted @ [m_myMember c] else deleted)
       })"

definition q_Clear :: "'a pqueue \<Rightarrow> ('a list \<times> 'a pqueue) option" where
  "q_Clear q = do {
     let pQM = q_head q;
     let q1 = q\<lparr>q_head := None, q_tail := None\<rparr>;
     (cells, deleted) \<leftarrow> q_free (q_deleteWhenDone q) (q_cells q1) pQM [];
     Some (deleted, q1\<lparr>q_cells := cells\<rparr>)
   }"

definition q_IsEmpty :: "'a pqueue \<Rightarrow> bool" where
  "q_IsEmpty q \<longleftrightarrow> q_head q = None"

subsection \<open>The chain of cells and the abstract list\<close>

fun seg :: "(nat \<rightharpoonup> 'a queue_member) \<Rightarrow> nat option \<Rightarrow> nat list \<Rightarrow> bool" where
  "seg h None [] = True"
| "seg h (Some p) (q # ps) = (p = q \<and> (case h p of None \<Rightarrow> False | Some c \<Rightarrow> seg h (m_behindMe c) ps))"
| "seg h _ _ = False"

fun addrs :: "nat \<Rightarrow> (nat \<rightharpoonup> 'a queue_member) \<Rightarrow> nat option \<Rightarrow> nat list" where
  "addrs 0 h p = []"
| "addrs (Suc n) h None = []"
| "addrs (Suc n) h (Some p) = (case h p of None \<Rightarrow> [] | Some c \<Rightarrow> p # addrs n h (m_behindMe c))"

definition q_list :: "'a pqueue \<Rightarrow> 'a list" where
  "q_list q = map (\<lambda>p. m_myMember (the (q_cells q p))) (addrs (q_next q) (q_cells q) (q_head q))"

definition q_chain :: "'a pqueue \<Rightarrow> nat list \<Rightarrow> bool" where
  "q_chain q ps \<longleftrightarrow> seg (q_cells q) (q_head q) ps \<and> distinct ps \<and> (\<forall>p \<in> set ps. p < q_next q) \<and>
     dom (q_cells q) = set ps \<and> q_tail q = (if ps = [] then None else Some (last ps))"

text \<open>The representation invariant: the cells are exactly one chain from head to tail.\<close>

definition q_inv :: "'a pqueue \<Rightarrow> bool" where
  "q_inv q \<longleftrightarrow> (\<exists>ps. q_chain q ps)"

lemma addrs_seg: "seg h p ps \<Longrightarrow> length ps \<le> n \<Longrightarrow> addrs n h p = ps"
proof (induction n h p arbitrary: ps rule: addrs.induct)
  case (1 h p)
  then show ?case by simp
next
  case (2 n h)
  then show ?case by (cases ps) simp_all
next
  case (3 n h p)
  then show ?case by (cases ps) (auto split: option.splits)
qed

lemma q_chain_length: "q_chain q ps \<Longrightarrow> length ps \<le> q_next q"
proof -
  assume "q_chain q ps"
  then have "distinct ps" and "set ps \<subseteq> {..<q_next q}" by (auto simp: q_chain_def)
  then show ?thesis by (metis card_lessThan card_mono distinct_card finite_lessThan)
qed

lemma q_list_chain:
  "q_chain q ps \<Longrightarrow> q_list q = map (\<lambda>p. m_myMember (the (q_cells q p))) ps"
  using q_chain_length [of q ps] addrs_seg [of "q_cells q" "q_head q" ps "q_next q"]
  by (simp add: q_list_def q_chain_def)

lemma seg_Cons_iff:
  "seg h p (a # ps) \<longleftrightarrow> p = Some a \<and> (\<exists>c. h a = Some c \<and> seg h (m_behindMe c) ps)"
  by (cases p) (auto split: option.splits)

lemma seg_Nil_iff: "seg h p [] \<longleftrightarrow> p = None"
  by (cases p) simp_all

lemma seg_upd_other: "a \<notin> set ps \<Longrightarrow> seg (h(a := c)) p ps = seg h p ps"
  by (induction ps arbitrary: p) (auto simp: seg_Cons_iff seg_Nil_iff)

lemma seg_snoc:
  "seg h p (ps @ [l]) \<Longrightarrow> distinct (ps @ [l]) \<Longrightarrow> n \<notin> set (ps @ [l]) \<Longrightarrow> h l = Some c \<Longrightarrow>
   seg (h(n \<mapsto> \<lparr>m_behindMe = None, m_myMember = x\<rparr>, l \<mapsto> c\<lparr>m_behindMe := Some n\<rparr>)) p (ps @ [l, n])"
proof (induction ps arbitrary: p)
  case Nil
  then show ?case by (auto simp: seg_Cons_iff seg_Nil_iff)
next
  case (Cons a ps)
  then obtain c' where "p = Some a" "h a = Some c'" "seg h (m_behindMe c') (ps @ [l])"
    by (auto simp: seg_Cons_iff)
  moreover have "a \<noteq> l" "a \<noteq> n" using Cons.prems by auto
  ultimately show ?case using Cons by (auto simp: seg_Cons_iff)
qed

subsection \<open>The operations on the chain\<close>

lemma q_new_inv: "q_inv (q_new dwd)" "q_list (q_new dwd) = []"
proof -
  have "q_chain (q_new dwd) []" by (simp add: q_chain_def q_new_def)
  then show "q_inv (q_new dwd)" "q_list (q_new dwd) = []"
    by (auto simp: q_inv_def dest: q_list_chain)
qed

lemma q_Write_chain:
  assumes "q_chain q ps"
  shows "\<exists>q'. q_Write q x = Some q' \<and> q_chain q' (ps @ [q_next q]) \<and> q_list q' = q_list q @ [x]"
proof -
  let ?n = "q_next q"
  have fresh: "?n \<notin> set ps" and dom: "dom (q_cells q) = set ps" and dist: "distinct ps"
    and segq: "seg (q_cells q) (q_head q) ps"
    using assms by (auto simp: q_chain_def)
  show ?thesis
  proof (cases ps rule: rev_cases)
    case Nil
    let ?q = "q\<lparr>q_cells := [?n \<mapsto> \<lparr>m_behindMe = None, m_myMember = x\<rparr>], q_next := Suc ?n,
      q_tail := Some ?n, q_head := Some ?n\<rparr>"
    have "q_Write q x = Some ?q"
      using assms Nil by (simp add: q_Write_def Let_def q_chain_def seg_Nil_iff)
    moreover have chain: "q_chain ?q [?n]" by (simp add: q_chain_def)
    ultimately show ?thesis
      using q_list_chain [OF chain] q_list_chain [OF assms] Nil by auto
  next
    case (snoc ps' l)
    have "l \<in> dom (q_cells q)" using dom snoc by simp
    then obtain c where c: "q_cells q l = Some c" by blast
    let ?h = "(q_cells q)(?n \<mapsto> \<lparr>m_behindMe = None, m_myMember = x\<rparr>, l \<mapsto> c\<lparr>m_behindMe := Some ?n\<rparr>)"
    let ?q = "q\<lparr>q_cells := ?h, q_next := Suc ?n, q_tail := Some ?n\<rparr>"
    have ln: "l \<noteq> ?n" using fresh snoc by auto
    have "q_head q \<noteq> None" using segq snoc by (cases ps') (auto simp: seg_Cons_iff)
    moreover have "q_tail q = Some l" using assms snoc by (simp add: q_chain_def)
    ultimately have "q_Write q x = Some ?q" using c ln by (auto simp: q_Write_def Let_def)
    moreover have chain: "q_chain ?q (ps @ [?n])"
      using seg_snoc [of "q_cells q" "q_head q" ps' l ?n c x] assms snoc c fresh
      by (auto simp: q_chain_def)
    moreover have "q_list ?q = q_list q @ [x]"
      using q_list_chain [OF chain] q_list_chain [OF assms] ln fresh snoc c dist by auto
    ultimately show ?thesis by blast
  qed
qed

lemma q_Read_chain_Nil:
  "q_chain q [] \<Longrightarrow> q_Read q = Some (None, q\<lparr>q_tail := None\<rparr>) \<and> q_chain (q\<lparr>q_tail := None\<rparr>) []"
  by (simp add: q_Read_def q_chain_def seg_Nil_iff)

lemma q_chain_empty_list: "q_chain q [] \<Longrightarrow> q_list q = []"
  by (simp add: q_list_chain)

lemma q_Read_chain_Cons:
  assumes "q_chain q (p # ps)"
  shows "\<exists>q'. q_Read q = Some (Some (hd (q_list q)), q') \<and> q_chain q' ps \<and> q_list q' = tl (q_list q)"
proof -
  obtain c where c: "q_cells q p = Some c" and hd: "q_head q = Some p"
    and rest: "seg (q_cells q) (m_behindMe c) ps"
    using assms by (auto simp: q_chain_def seg_Cons_iff)
  have p: "p \<notin> set ps" using assms by (simp add: q_chain_def)
  have none: "m_behindMe c = None \<longleftrightarrow> ps = []"
    using rest by (cases ps) (auto simp: seg_Cons_iff seg_Nil_iff)
  let ?q1 = "q\<lparr>q_head := m_behindMe c, q_cells := (q_cells q)(p := None)\<rparr>"
  let ?q = "if m_behindMe c = None then ?q1\<lparr>q_tail := None\<rparr> else ?q1"
  have run: "q_Read q = Some (Some (m_myMember c), ?q)"
    using c hd by (simp add: q_Read_def)
  have seg: "seg ((q_cells q)(p := None)) (m_behindMe c) ps"
    using rest p by (simp add: seg_upd_other)
  have chain: "q_chain ?q ps"
    using assms seg none p by (auto simp: q_chain_def)
  have "q_cells ?q = (q_cells q)(p := None)" by simp
  then have "q_list ?q = map (\<lambda>a. m_myMember (the (q_cells q a))) ps"
    using p by (auto simp: q_list_chain [OF chain] intro!: map_cong)
  moreover have "q_list q = m_myMember c # map (\<lambda>a. m_myMember (the (q_cells q a))) ps"
    using c by (simp add: q_list_chain [OF assms])
  ultimately show ?thesis using run chain by auto
qed

lemma q_Peek_chain:
  "q_chain q ps \<Longrightarrow> q_Peek q = Some (case q_list q of [] \<Rightarrow> None | x # _ \<Rightarrow> Some x)"
  using q_list_chain [of q ps]
  by (cases ps) (auto simp: q_Peek_def q_chain_def seg_Cons_iff seg_Nil_iff)

lemma q_free_chain:
  "seg h p ps \<Longrightarrow> distinct ps \<Longrightarrow> dom h = set ps \<Longrightarrow>
   q_free dwd h p del = Some (Map.empty,
     del @ (if dwd then map (\<lambda>a. m_myMember (the (h a))) ps else []))"
proof (induction ps arbitrary: h p del)
  case Nil
  then show ?case by (simp add: q_free.simps seg_Nil_iff)
next
  case (Cons a ps)
  then obtain c where c: "p = Some a" "h a = Some c" "seg h (m_behindMe c) ps"
    by (auto simp: seg_Cons_iff)
  have "seg (h(a := None)) (m_behindMe c) ps"
    using c(3) Cons.prems(2) by (simp add: seg_upd_other)
  moreover have "distinct ps" and "dom (h(a := None)) = set ps" using Cons.prems by auto
  ultimately have ih: "q_free dwd (h(a := None)) (m_behindMe c) d = Some (Map.empty,
      d @ (if dwd then map (\<lambda>b. m_myMember (the ((h(a := None)) b))) ps else []))" for d
    by (rule Cons.IH)
  have same: "map (\<lambda>b. m_myMember (the ((h(a := None)) b))) ps = map (\<lambda>b. m_myMember (the (h b))) ps"
    using Cons.prems(2) by auto
  show ?case
    unfolding q_free.simps [of dwd h p del] using c by (simp add: ih [unfolded same])
qed

lemma q_Clear_chain:
  assumes "q_chain q ps"
  shows "\<exists>q'. q_Clear q = Some (if q_deleteWhenDone q then q_list q else [], q') \<and>
     q_chain q' [] \<and> q_cells q' = Map.empty"
proof -
  have "q_free (q_deleteWhenDone q) (q_cells q) (q_head q) [] =
    Some (Map.empty, if q_deleteWhenDone q then q_list q else [])"
    using assms q_free_chain [of "q_cells q" "q_head q" ps "q_deleteWhenDone q" "[]"]
    by (simp add: q_chain_def q_list_chain [OF assms])
  then show ?thesis by (simp add: q_Clear_def q_chain_def)
qed

subsection \<open>The contract\<close>

text \<open>Calls of the queue's clients, and what they return on the abstract list.\<close>

datatype 'a queue_call = CallWrite 'a | CallRead | CallPeek | CallClear

datatype 'a queue_result = Done | Got "'a option"

fun list_calls :: "'a list \<Rightarrow> 'a queue_call list \<Rightarrow> 'a queue_result list \<times> 'a list" where
  "list_calls xs [] = ([], xs)"
| "list_calls xs (CallWrite x # cs) = (let (rs, ys) = list_calls (xs @ [x]) cs in (Done # rs, ys))"
| "list_calls [] (CallRead # cs) = (let (rs, ys) = list_calls [] cs in (Got None # rs, ys))"
| "list_calls (x # xs) (CallRead # cs) = (let (rs, ys) = list_calls xs cs in (Got (Some x) # rs, ys))"
| "list_calls [] (CallPeek # cs) = (let (rs, ys) = list_calls [] cs in (Got None # rs, ys))"
| "list_calls (x # xs) (CallPeek # cs) =
     (let (rs, ys) = list_calls (x # xs) cs in (Got (Some x) # rs, ys))"
| "list_calls xs (CallClear # cs) = (let (rs, ys) = list_calls [] cs in (Done # rs, ys))"

fun run_calls ::
  "('q \<Rightarrow> 'a \<Rightarrow> 'q option) \<Rightarrow> ('q \<Rightarrow> ('a option \<times> 'q) option) \<Rightarrow> ('q \<Rightarrow> 'a option option) \<Rightarrow>
   ('q \<Rightarrow> ('a list \<times> 'q) option) \<Rightarrow> 'q \<Rightarrow> 'a queue_call list \<Rightarrow> ('a queue_result list \<times> 'q) option" where
  "run_calls wr rd pk cl q [] = Some ([], q)"
| "run_calls wr rd pk cl q (CallWrite x # cs) =
     do { q1 \<leftarrow> wr q x; (rs, q2) \<leftarrow> run_calls wr rd pk cl q1 cs; Some (Done # rs, q2) }"
| "run_calls wr rd pk cl q (CallRead # cs) =
     do { (v, q1) \<leftarrow> rd q; (rs, q2) \<leftarrow> run_calls wr rd pk cl q1 cs; Some (Got v # rs, q2) }"
| "run_calls wr rd pk cl q (CallPeek # cs) =
     do { v \<leftarrow> pk q; (rs, q2) \<leftarrow> run_calls wr rd pk cl q cs; Some (Got v # rs, q2) }"
| "run_calls wr rd pk cl q (CallClear # cs) =
     do { (d, q1) \<leftarrow> cl q; (rs, q2) \<leftarrow> run_calls wr rd pk cl q1 cs; Some (Done # rs, q2) }"

locale fifo =
  fixes wr :: "'q \<Rightarrow> 'a \<Rightarrow> 'q option"
    and rd :: "'q \<Rightarrow> ('a option \<times> 'q) option"
    and pk :: "'q \<Rightarrow> 'a option option"
    and cl :: "'q \<Rightarrow> ('a list \<times> 'q) option"
    and contents :: "'q \<Rightarrow> 'a list"
    and inv :: "'q \<Rightarrow> bool"
  assumes wr_ok: "inv q \<Longrightarrow> \<exists>q'. wr q x = Some q' \<and> inv q' \<and> contents q' = contents q @ [x]"
    and rd_Nil: "inv q \<Longrightarrow> contents q = [] \<Longrightarrow>
      \<exists>q'. rd q = Some (None, q') \<and> inv q' \<and> contents q' = []"
    and rd_Cons: "inv q \<Longrightarrow> contents q = x # xs \<Longrightarrow>
      \<exists>q'. rd q = Some (Some x, q') \<and> inv q' \<and> contents q' = xs"
    and pk_ok: "inv q \<Longrightarrow> pk q = Some (case contents q of [] \<Rightarrow> None | x # _ \<Rightarrow> Some x)"
    and cl_ok: "inv q \<Longrightarrow> \<exists>d q'. cl q = Some (d, q') \<and> inv q' \<and> contents q' = []"
begin

lemma run_calls_list:
  "inv q \<Longrightarrow> \<exists>q'. run_calls wr rd pk cl q cs = Some (fst (list_calls (contents q) cs), q') \<and>
     inv q' \<and> contents q' = snd (list_calls (contents q) cs)"
proof (induction "contents q" cs arbitrary: q rule: list_calls.induct)
  case 1
  then show ?case by auto
next
  case (2 x cs)
  from wr_ok [OF 2(2)] obtain q1 where q1: "wr q x = Some q1" "inv q1" "contents q1 = contents q @ [x]"
    by blast
  from 2(1) [OF q1(3) [symmetric] q1(2)] q1 show ?case by (auto simp: split_beta)
next
  case (3 cs)
  from rd_Nil [OF 3(3) 3(2) [symmetric]] obtain q1 where
    q1: "rd q = Some (None, q1)" "inv q1" "contents q1 = []" by blast
  from 3(1) [OF q1(3) [symmetric] q1(2)] q1 3(2) [symmetric] show ?case by (auto simp: split_beta)
next
  case (4 x xs cs)
  from rd_Cons [OF 4(3) 4(2) [symmetric]] obtain q1 where
    q1: "rd q = Some (Some x, q1)" "inv q1" "contents q1 = xs" by blast
  from 4(1) [OF q1(3) [symmetric] q1(2)] q1 4(2) [symmetric] show ?case by (auto simp: split_beta)
next
  case (5 cs)
  from 5(1) [OF 5(2) 5(3)] pk_ok [OF 5(3)] 5(2) [symmetric] show ?case by (auto simp: split_beta)
next
  case (6 x xs cs)
  from 6(1) [OF 6(2) 6(3)] pk_ok [OF 6(3)] 6(2) [symmetric] show ?case by (auto simp: split_beta)
next
  case (7 cs)
  from cl_ok [OF 7(2)] obtain d q1 where q1: "cl q = Some (d, q1)" "inv q1" "contents q1 = []"
    by blast
  from 7(1) [OF q1(3) [symmetric] q1(2)] q1 show ?case by (auto simp: split_beta)
qed

lemma rd_result: "inv q \<Longrightarrow> rd q = Some (v, q') \<Longrightarrow>
    inv q' \<and> v = (case contents q of [] \<Rightarrow> None | x # _ \<Rightarrow> Some x) \<and> contents q' = tl (contents q)"
  using rd_Nil [of q] rd_Cons [of q] by (cases "contents q") fastforce+

end

interpretation lq: fifo q_Write q_Read q_Peek q_Clear q_list q_inv
proof
  fix q :: "'a pqueue" and x :: 'a
  assume "q_inv q"
  then show "\<exists>q'. q_Write q x = Some q' \<and> q_inv q' \<and> q_list q' = q_list q @ [x]"
    using q_Write_chain [of q _ x] unfolding q_inv_def by blast
next
  fix q :: "'a pqueue"
  assume "q_inv q" and nil: "q_list q = []"
  then obtain ps where ps: "q_chain q ps" by (auto simp: q_inv_def)
  with nil have "ps = []" by (simp add: q_list_chain)
  with ps show "\<exists>q'. q_Read q = Some (None, q') \<and> q_inv q' \<and> q_list q' = []"
    using q_Read_chain_Nil [of q] q_chain_empty_list by (auto simp: q_inv_def)
next
  fix q :: "'a pqueue" and x xs
  assume "q_inv q" and cons: "q_list q = x # xs"
  then obtain ps where ps: "q_chain q ps" by (auto simp: q_inv_def)
  with cons obtain p ps' where "ps = p # ps'" by (cases ps) (auto simp: q_list_chain)
  with ps cons show "\<exists>q'. q_Read q = Some (Some x, q') \<and> q_inv q' \<and> q_list q' = xs"
    using q_Read_chain_Cons [of q p ps'] by (auto simp: q_inv_def)
next
  fix q :: "'a pqueue"
  assume "q_inv q"
  then show "q_Peek q = Some (case q_list q of [] \<Rightarrow> None | x # _ \<Rightarrow> Some x)"
    by (auto simp: q_inv_def dest: q_Peek_chain)
next
  fix q :: "'a pqueue"
  assume "q_inv q"
  then show "\<exists>d q'. q_Clear q = Some (d, q') \<and> q_inv q' \<and> q_list q' = []"
    using q_Clear_chain q_chain_empty_list by (fastforce simp: q_inv_def)
qed

subsection \<open>Properties\<close>

text \<open>
  C3. Refinement: any sequence of \<open>Write\<close>, \<open>Read\<close>, \<open>Peek\<close> and \<open>Clear\<close> calls on a new queue
  runs without an access to a freed cell and returns what the same calls return on a plain
  list: first in, first out, \<open>NULL\<close> exactly when the list is empty.
\<close>

theorem queue_refines_list:
  "\<exists>q. run_calls q_Write q_Read q_Peek q_Clear (q_new dwd) cs = Some (fst (list_calls [] cs), q) \<and>
     q_inv q \<and> q_list q = snd (list_calls [] cs)"
  using lq.run_calls_list [OF q_new_inv(1), of dwd cs] by (simp add: q_new_inv(2))

text \<open>
  \<open>Clear\<close> walks the whole chain and stops: it frees every cell of the queue, and, when the
  queue owns its members, deletes each member once, in queue order.
\<close>

theorem queue_clear_frees_all:
  assumes "q_inv q"
  shows "\<exists>q'. q_Clear q = Some (if q_deleteWhenDone q then q_list q else [], q') \<and>
     q_cells q' = Map.empty \<and> q_list q' = [] \<and> q_IsEmpty q'"
  using assms q_Clear_chain q_chain_empty_list
  by (fastforce simp: q_inv_def q_IsEmpty_def q_chain_def seg_Nil_iff)

theorem queue_clear_frees_all_witness:
  "\<exists>q. q_Write (q_new True) (7::nat) = Some q \<and>
     (\<exists>q'. q_Clear q = Some ([7], q') \<and> q_cells q' = Map.empty)"
proof -
  from lq.wr_ok [OF q_new_inv(1), of True 7] obtain q where
    q: "q_Write (q_new True) (7::nat) = Some q" "q_inv q" "q_list q = [7]"
    by (auto simp: q_new_inv(2))
  moreover have "q_deleteWhenDone q"
    using q(1) by (auto simp: q_Write_def q_new_def Let_def split: if_splits)
  ultimately show ?thesis using queue_clear_frees_all [OF q(2)] by auto
qed

end
