(* ===== verification/EventBuffer.thy ===== *)
theory EventBuffer
  imports PullBuffer PointerQueue
begin

section \<open>The event buffer: a pull buffer with events between its bytes\<close>

text \<open>
  \<open>io/src/eventbuffer.cpp\<close>: the buffer between a decoder and an audio output. Next to the bytes
  it keeps a \<open>Queue<BufferEvent *>\<close>; \<open>AcceptEvent\<close> stamps an event with the current write
  index, and \<open>BeginRead\<close> refuses a region that would reach the index of the next event. The
  theory rests on the queue contract (the facts \<open>lq\<close> of PointerQueue) and on the pull buffer.
\<close>

record 'e buffer_event =
  iIndex :: nat
  pEvent :: 'e

record 'e event_buffer =
  ev_pull :: pull_buffer
  m_pQueue :: "'e buffer_event pqueue"
  m_iBytesInUse :: nat

definition eb_new :: "nat \<Rightarrow> nat \<Rightarrow> byte list \<Rightarrow> 'e event_buffer" where
  "eb_new iBufferSize iOverFlowSize garbage =
     \<lparr>ev_pull = pb_new iBufferSize iOverFlowSize garbage, m_pQueue = q_new True, m_iBytesInUse = 0\<rparr>"

text \<open>
  The first half of \<open>BeginRead\<close>: peek at the next event and compare its index with the read
  index. \<open>Some e\<close> is an early return with \<open>e\<close>, \<open>None\<close> goes on to \<open>PullBuffer::BeginRead\<close>. The
  queue's lock and the buffer's lock are taken one after the other, so the two halves are two
  steps of the consumer.
\<close>

definition eb_decide :: "'e event_buffer \<Rightarrow> nat \<Rightarrow> error option option round" where
  "eb_decide eb iBytesWanted = (case q_Peek (m_pQueue eb) of
       None \<Rightarrow> Finish None
     | Some ev \<Rightarrow> map_round (\<lambda>iReadIndex. Some (case ev of
           None \<Rightarrow> None
         | Some e \<Rightarrow>
             if iIndex e = iReadIndex then Some kError_EventPending
             else let iMaxBytes = (if iIndex e > iReadIndex then iIndex e - iReadIndex
                                   else (m_iBufferSize (ev_pull eb) - iReadIndex) + iIndex e)
                  in if iBytesWanted \<ge> iMaxBytes then Some kError_EventPending else None))
         (pb_GetReadIndex (ev_pull eb)))"

definition eb_BeginRead ::
  "'e event_buffer \<Rightarrow> nat \<Rightarrow> (error \<times> nat option \<times> 'e event_buffer) option round" where
  "eb_BeginRead eb iBytesWanted = (case eb_decide eb iBytesWanted of
       Retry \<Rightarrow> Retry
     | Finish None \<Rightarrow> Finish None
     | Finish (Some (Some e)) \<Rightarrow> Finish (Some (e, None, eb))
     | Finish (Some None) \<Rightarrow> Finish (do {
         (e, p, b) \<leftarrow> pb_BeginRead (ev_pull eb) iBytesWanted;
         Some (e, p, eb\<lparr>ev_pull := b\<rparr>)
       }))"

definition eb_AcceptEvent :: "'e event_buffer \<Rightarrow> 'e \<Rightarrow> (error \<times> 'e event_buffer) option round" where
  "eb_AcceptEvent eb pPMOEvent = map_round (\<lambda>index. do {
       q \<leftarrow> q_Write (m_pQueue eb) \<lparr>iIndex = index, pEvent = pPMOEvent\<rparr>;
       Some (kError_NoErr, eb\<lparr>m_pQueue := q\<rparr>)
     }) (pb_GetWriteIndex (ev_pull eb))"

definition eb_GetEvent :: "'e event_buffer \<Rightarrow> ('e option \<times> 'e event_buffer) option" where
  "eb_GetEvent eb = do {
     (e, q) \<leftarrow> q_Read (m_pQueue eb);
     case e of None \<Rightarrow> Some (None, eb\<lparr>m_pQueue := q\<rparr>)
     | Some be \<Rightarrow> Some (Some (pEvent be), eb\<lparr>m_pQueue := q\<rparr>)
   }"

text \<open>\<open>PeekEvent\<close> follows the pointer \<open>Peek\<close> returns without a test.\<close>

definition eb_PeekEvent :: "'e event_buffer \<Rightarrow> 'e option" where
  "eb_PeekEvent eb = do {
     e \<leftarrow> q_Peek (m_pQueue eb);
     be \<leftarrow> e;
     Some (pEvent be)
   }"

text \<open>The loop of \<open>Clear\<close>: the events deleted so far are \<open>deleted\<close>.\<close>

partial_function (option) eb_drain ::
  "'e event_buffer \<Rightarrow> 'e list \<Rightarrow> ('e list \<times> 'e event_buffer) option" where
  "eb_drain eb deleted = do {
     (e, eb') \<leftarrow> eb_GetEvent eb;
     case e of None \<Rightarrow> Some (deleted, eb')
     | Some x \<Rightarrow> eb_drain eb' (deleted @ [x])
   }"

definition eb_Clear ::
  "'e event_buffer \<Rightarrow> ('e list \<times> 'e event_buffer \<times> (error \<times> 'e event_buffer) round) option" where
  "eb_Clear eb = do {
     (deleted, eb1) \<leftarrow> eb_drain eb [];
     (_, q) \<leftarrow> q_Clear (m_pQueue eb1);
     let eb2 = eb1\<lparr>m_pQueue := q\<rparr>;
     Some (deleted, eb2, map_round (\<lambda>(e, b). (e, eb2\<lparr>ev_pull := b\<rparr>)) (pb_Clear (ev_pull eb2)))
   }"

definition eb_SetBytesInUse :: "'e event_buffer \<Rightarrow> nat \<Rightarrow> 'e event_buffer" where
  "eb_SetBytesInUse eb n = eb\<lparr>m_iBytesInUse := n\<rparr>"

definition eb_GetBufferPercentage :: "'e event_buffer \<Rightarrow> nat option" where
  "eb_GetBufferPercentage eb = pb_GetBufferPercentage (ev_pull eb)"

subsection \<open>The queue of events\<close>

abbreviation eb_events :: "'e event_buffer \<Rightarrow> 'e buffer_event list" where
  "eb_events eb \<equiv> q_list (m_pQueue eb)"

text \<open>
  Each pending event is \<open>ds ! i\<close> bytes ahead of the read index, in stream order; the producer
  stamps the index modulo the ring size.
\<close>

definition eb_ok :: "'e event_buffer \<Rightarrow> nat list \<Rightarrow> bool" where
  "eb_ok eb ds \<longleftrightarrow> pb_ok (ev_pull eb) \<and> q_inv (m_pQueue eb) \<and> \<not> m_bExit (ev_pull eb) \<and>
     sorted ds \<and> (\<forall>d \<in> set ds. d \<le> m_iBytesInBuffer (ev_pull eb)) \<and>
     map iIndex (eb_events eb) =
       map (\<lambda>d. (m_iReadIndex (ev_pull eb) + d) mod m_iBufferSize (ev_pull eb)) ds"

lemma eb_new_ok:
  assumes "0 < sz" and "sz + ov < 2147483648" and "length garbage = sz + ov"
  shows "eb_ok (eb_new sz ov garbage) []"
  using assms by (simp add: eb_ok_def eb_new_def q_new_inv pb_ok_def pb_new_def)

lemma eb_GetEvent_Nil:
  "q_inv (m_pQueue eb) \<Longrightarrow> eb_events eb = [] \<Longrightarrow>
   \<exists>q. eb_GetEvent eb = Some (None, eb\<lparr>m_pQueue := q\<rparr>) \<and> q_inv q \<and> q_list q = []"
  using lq.rd_Nil [of "m_pQueue eb"] by (fastforce simp: eb_GetEvent_def)

lemma eb_GetEvent_Cons:
  "q_inv (m_pQueue eb) \<Longrightarrow> eb_events eb = e # es \<Longrightarrow>
   \<exists>q. eb_GetEvent eb = Some (Some (pEvent e), eb\<lparr>m_pQueue := q\<rparr>) \<and> q_inv q \<and> q_list q = es"
  using lq.rd_Cons [of "m_pQueue eb" e es] by (fastforce simp: eb_GetEvent_def)

lemma eb_drain_all:
  "q_inv (m_pQueue eb) \<Longrightarrow>
   \<exists>q. eb_drain eb del = Some (del @ map pEvent (eb_events eb), eb\<lparr>m_pQueue := q\<rparr>) \<and>
     q_inv q \<and> q_list q = []"
proof (induction "eb_events eb" arbitrary: eb del)
  case Nil
  then show ?case using eb_GetEvent_Nil [of eb] by (subst eb_drain.simps) auto
next
  case (Cons e es)
  then obtain q where q: "eb_GetEvent eb = Some (Some (pEvent e), eb\<lparr>m_pQueue := q\<rparr>)"
    "q_inv q" "q_list q = es"
    using eb_GetEvent_Cons [of eb e es] by auto
  with Cons.hyps(1) [of "eb\<lparr>m_pQueue := q\<rparr>" "del @ [pEvent e]"] Cons.hyps(2) [symmetric]
  show ?case by (subst eb_drain.simps) auto
qed

lemma eb_distance:
  assumes "pb_ok b" and "d \<le> m_iBytesInBuffer b"
    and "(m_iReadIndex b + d) mod m_iBufferSize b \<noteq> m_iReadIndex b"
  shows "(if (m_iReadIndex b + d) mod m_iBufferSize b > m_iReadIndex b
       then (m_iReadIndex b + d) mod m_iBufferSize b - m_iReadIndex b
       else m_iBufferSize b - m_iReadIndex b + (m_iReadIndex b + d) mod m_iBufferSize b) = d"
proof -
  note ok = pb_okD [OF assms(1)]
  have "m_iReadIndex b + d < 2 * m_iBufferSize b" using ok(1,4) assms(2) by linarith
  from mod_once [OF this] show ?thesis
    using ok(1,4) assms(2,3) by (auto split: if_splits)
qed

lemma eb_decide_stops:
  assumes ok: "eb_ok eb (d # ds)" and idle: "m_iBytesToRead (ev_pull eb) = 0"
    and run: "eb_decide eb n = Finish (Some None)"
  shows "n < d"
proof -
  let ?b = "ev_pull eb"
  have okb: "pb_ok ?b" and qi: "q_inv (m_pQueue eb)" and x: "\<not> m_bExit ?b"
    and d: "d \<le> m_iBytesInBuffer ?b"
    using ok by (auto simp: eb_ok_def)
  obtain e es where ev: "eb_events eb = e # es"
    and idx: "iIndex e = (m_iReadIndex ?b + d) mod m_iBufferSize ?b"
    using ok by (cases "eb_events eb") (auto simp: eb_ok_def)
  have "q_Peek (m_pQueue eb) = Some (Some e)" using lq.pk_ok [OF qi] ev by simp
  then have "iIndex e \<noteq> m_iReadIndex ?b \<and> n < (if iIndex e > m_iReadIndex ?b
       then iIndex e - m_iReadIndex ?b else m_iBufferSize ?b - m_iReadIndex ?b + iIndex e)"
    using run idle x by (auto simp: eb_decide_def pb_GetReadIndex_def Let_def split: if_splits)
  then show ?thesis using eb_distance [OF okb d] unfolding idx by simp
qed

lemma eb_decide_error: "eb_decide eb n = Finish (Some (Some e)) \<Longrightarrow> e = kError_EventPending"
  by (cases "pb_GetReadIndex (ev_pull eb)")
    (auto simp: eb_decide_def Let_def split: option.splits if_splits)

lemma eb_AcceptEvent_ok:
  assumes ok: "eb_ok eb ds" and idle: "m_iBytesToWrite (ev_pull eb) = 0"
  shows "\<exists>eb'. eb_AcceptEvent eb e = Finish (Some (kError_NoErr, eb')) \<and>
     eb_ok eb' (ds @ [m_iBytesInBuffer (ev_pull eb)]) \<and> ev_pull eb' = ev_pull eb \<and>
     map pEvent (eb_events eb') = map pEvent (eb_events eb) @ [e]"
proof -
  let ?x = "\<lparr>iIndex = m_iWriteIndex (ev_pull eb), pEvent = e\<rparr>"
  have qi: "q_inv (m_pQueue eb)" and okb: "pb_ok (ev_pull eb)" and x: "\<not> m_bExit (ev_pull eb)"
    using ok by (auto simp: eb_ok_def)
  from lq.wr_ok [OF qi, of ?x] obtain q where
    q: "q_Write (m_pQueue eb) ?x = Some q" "q_inv q" "q_list q = eb_events eb @ [?x]" by blast
  then have "eb_AcceptEvent eb e = Finish (Some (kError_NoErr, eb\<lparr>m_pQueue := q\<rparr>))"
    using idle x by (simp add: eb_AcceptEvent_def pb_GetWriteIndex_def)
  moreover have "eb_ok (eb\<lparr>m_pQueue := q\<rparr>) (ds @ [m_iBytesInBuffer (ev_pull eb)])"
    using ok q(2,3) pb_okD(5) [OF okb] by (auto simp: eb_ok_def sorted_append)
  ultimately show ?thesis using q(3) by auto
qed

lemma eb_end_read_ok:
  assumes ok: "eb_ok eb ds" and k: "k \<le> m_iBytesToRead (ev_pull eb)"
    and below: "ds = [] \<or> k \<le> hd ds"
  shows "\<exists>b. pb_EndRead (ev_pull eb) k = Some (kError_NoErr, b) \<and>
     eb_ok (eb\<lparr>ev_pull := b\<rparr>) (map (\<lambda>d. d - k) ds)"
proof -
  let ?b = "ev_pull eb"
  have okb: "pb_ok ?b" using ok by (simp add: eb_ok_def)
  obtain b where b: "pb_EndRead ?b k = Some (kError_NoErr, b)" "pb_ok b"
    using pb_EndRead_ok [OF okb k] by auto
  have eq: "b = ?b\<lparr>m_iReadIndex := (m_iReadIndex ?b + k) mod m_iBufferSize ?b,
       m_iBytesInBuffer := m_iBytesInBuffer ?b - k, m_iBytesToRead := 0\<rparr>"
    using b(1) by (auto simp: pb_EndRead_def Let_def split: if_splits)
  have ge: "k \<le> d" if "d \<in> set ds" for d
    using below that ok by (cases ds) (auto simp: eb_ok_def)
  then have idx: "map (\<lambda>d. (m_iReadIndex b + d) mod m_iBufferSize b) (map (\<lambda>d. d - k) ds) =
     map (\<lambda>d. (m_iReadIndex ?b + d) mod m_iBufferSize ?b) ds"
    by (auto simp: eq mod_simps)
  have "sorted (map (\<lambda>d. d - k) ds)"
    using ok by (auto simp: eb_ok_def sorted_map intro: sorted_wrt_mono_rel [of ds "(\<le>)"])
  moreover have "\<forall>d \<in> set (map (\<lambda>d. d - k) ds). d \<le> m_iBytesInBuffer b"
    using ok by (auto simp: eb_ok_def eq)
  ultimately have "eb_ok (eb\<lparr>ev_pull := b\<rparr>) (map (\<lambda>d. d - k) ds)"
    using ok b(2) idx by (auto simp: eb_ok_def eq)
  then show ?thesis using b(1) by blast
qed

subsection \<open>Properties\<close>


text \<open>A buffer of a ring of 4 bytes with three bytes in it and an event before the third.\<close>

abbreviation small_events :: "nat event_buffer" where
  "small_events \<equiv> \<lparr>ev_pull = \<lparr>pb_mem = [1, 2, 3, 0, 0, 0], m_iReadIndex = 0, m_iWriteIndex = 3,
       m_iBytesInBuffer = 3, m_iOverflowSize = 2, m_iBufferSize = 4, m_iBytesToRead = 0,
       m_iBytesToWrite = 0, m_bEOS = False, m_bExit = False\<rparr>,
     m_pQueue = \<lparr>q_cells = [0 \<mapsto> \<lparr>m_behindMe = None, m_myMember = \<lparr>iIndex = 2, pEvent = 9\<rparr>\<rparr>],
       q_head = Some 0, q_tail = Some 0, q_deleteWhenDone = True, q_next = Suc 0\<rparr>,
     m_iBytesInUse = 0\<rparr>"

lemma small_events_chain: "q_chain (m_pQueue small_events) [0]"
  by (simp add: q_chain_def)

lemmas small_events_list = q_list_chain [OF small_events_chain, simplified]

lemma small_events_ok: "eb_ok small_events [2]"
proof -
  have "q_inv (m_pQueue small_events)" using small_events_chain unfolding q_inv_def by blast
  then show ?thesis by (simp add: eb_ok_def pb_ok_def small_events_list)
qed


abbreviation race_buffer :: "nat event_buffer" where
  "race_buffer \<equiv> \<lparr>ev_pull = \<lparr>pb_mem = [1, 2, 0, 0, 0, 0], m_iReadIndex = 0, m_iWriteIndex = 2,
       m_iBytesInBuffer = 2, m_iOverflowSize = 2, m_iBufferSize = 4, m_iBytesToRead = 0,
       m_iBytesToWrite = 0, m_bEOS = False, m_bExit = False\<rparr>,
     m_pQueue = q_new True, m_iBytesInUse = 0\<rparr>"

text \<open>
  The two halves of \<open>BeginRead\<close> are not one step. When the queue is empty at the peek and
  the decoder then queues an event and writes more bytes, the reader's \<open>PullBuffer::BeginRead\<close>
  hands out a region that runs past the event: here event 9 was queued behind the bytes
  \<open>[1, 2]\<close>, and the region that is read contains the byte 3 written after it.
\<close>

theorem eb_event_race:
  "eb_decide race_buffer 3 = Finish (Some None) \<and>
   (\<exists>eb1. eb_AcceptEvent race_buffer 9 = Finish (Some (kError_NoErr, eb1)) \<and>
      map iIndex (eb_events eb1) = [2] \<and>
      (\<exists>b2 b3 b4. pb_BeginWrite (ev_pull eb1) 1 = Some (kError_NoErr, Some 2, b2) \<and>
         pb_EndWrite (b2\<lparr>pb_mem := [1, 2, 3, 0, 0, 0]\<rparr>) 1 = Some (kError_NoErr, b3) \<and>
         pb_BeginRead b3 3 = Some (kError_NoErr, Some 0, b4) \<and>
         pb_region b4 0 (m_iBytesToRead b4) = [1, 2, 3]))"
proof (intro conjI)
  show "eb_decide race_buffer 3 = Finish (Some None)"
    by (simp add: eb_decide_def q_Peek_def q_new_def pb_GetReadIndex_def)
next
  have ok: "eb_ok race_buffer []" by (simp add: eb_ok_def pb_ok_def q_new_inv)
  obtain eb1 where eb1: "eb_AcceptEvent race_buffer 9 = Finish (Some (kError_NoErr, eb1))"
    "eb_ok eb1 [2]" "ev_pull eb1 = ev_pull race_buffer"
    using eb_AcceptEvent_ok [OF ok, of 9] by auto
  then have "map iIndex (eb_events eb1) = [2]" by (simp add: eb_ok_def)
  moreover have "\<exists>b2 b3 b4. pb_BeginWrite (ev_pull race_buffer) 1 = Some (kError_NoErr, Some 2, b2) \<and>
         pb_EndWrite (b2\<lparr>pb_mem := [1, 2, 3, 0, 0, 0]\<rparr>) 1 = Some (kError_NoErr, b3) \<and>
         pb_BeginRead b3 3 = Some (kError_NoErr, Some 0, b4) \<and>
         pb_region b4 0 (m_iBytesToRead b4) = [1, 2, 3]"
    by (simp add: pb_BeginWrite_def pb_EndWrite_def pb_BeginRead_def Let_def pb_region_def)
  ultimately show "\<exists>eb1. eb_AcceptEvent race_buffer 9 = Finish (Some (kError_NoErr, eb1)) \<and>
      map iIndex (eb_events eb1) = [2] \<and>
      (\<exists>b2 b3 b4. pb_BeginWrite (ev_pull eb1) 1 = Some (kError_NoErr, Some 2, b2) \<and>
         pb_EndWrite (b2\<lparr>pb_mem := [1, 2, 3, 0, 0, 0]\<rparr>) 1 = Some (kError_NoErr, b3) \<and>
         pb_BeginRead b3 3 = Some (kError_NoErr, Some 0, b4) \<and>
         pb_region b4 0 (m_iBytesToRead b4) = [1, 2, 3])"
    using eb1 by metis
qed

text \<open>
  \<open>Clear\<close> terminates: it deletes every pending event once, in queue order, empties the
  queue, and on an idle buffer leaves no bytes.
\<close>

theorem eb_Clear_empties:
  assumes "eb_ok eb ds"
  shows "\<exists>eb'. eb_Clear eb = Some (map pEvent (eb_events eb), eb',
      map_round (\<lambda>(e, b). (e, eb'\<lparr>ev_pull := b\<rparr>)) (pb_Clear (ev_pull eb))) \<and>
     eb_events eb' = [] \<and> eb_ok eb' []"
proof -
  have qi: "q_inv (m_pQueue eb)" using assms by (simp add: eb_ok_def)
  from eb_drain_all [OF qi, of "[]"] obtain q where
    q: "eb_drain eb [] = Some (map pEvent (eb_events eb), eb\<lparr>m_pQueue := q\<rparr>)" "q_inv q"
    by auto
  from lq.cl_ok [OF q(2)] obtain d q' where
    q': "q_Clear q = Some (d, q')" "q_inv q'" "q_list q' = []" by blast
  have "eb_ok (eb\<lparr>m_pQueue := q'\<rparr>) []" using assms q' by (simp add: eb_ok_def)
  then show ?thesis using q(1) q' by (simp add: eb_Clear_def Let_def)
qed

theorem eb_Clear_empties_witness:
  "\<exists>eb'. eb_Clear small_events = Some ([9], eb', Finish (kError_NoErr, eb'\<lparr>ev_pull :=
      (ev_pull small_events)\<lparr>m_bEOS := False, m_iReadIndex := 0, m_iWriteIndex := 0,
        m_iBytesInBuffer := 0\<rparr>\<rparr>)) \<and> eb_events eb' = []"
  using eb_Clear_empties [OF small_events_ok]
  by (simp add: small_events_list pb_Clear_def) blast

text \<open>
  \<open>GetEvent\<close> on an empty queue returns \<open>NULL\<close> and otherwise the oldest event; \<open>PeekEvent\<close>
  returns the same event without removing it, but on an empty queue it follows a null pointer.
\<close>

theorem eb_PeekEvent_undefined_iff:
  assumes "q_inv (m_pQueue eb)"
  shows "(eb_PeekEvent eb = None \<longleftrightarrow> eb_events eb = []) \<and>
    (\<exists>eb'. eb_GetEvent eb = Some (eb_PeekEvent eb, eb') \<and> eb_events eb' = tl (eb_events eb))"
proof (cases "eb_events eb")
  case Nil
  then show ?thesis
    using eb_GetEvent_Nil [OF assms] lq.pk_ok [OF assms] by (auto simp: eb_PeekEvent_def)
next
  case (Cons e es)
  then show ?thesis
    using eb_GetEvent_Cons [OF assms] lq.pk_ok [OF assms] by (fastforce simp: eb_PeekEvent_def)
qed

theorem eb_PeekEvent_undefined_iff_witness:
  "eb_PeekEvent (eb_new 4 2 [0, 0, 0, 0, 0, 0] :: nat event_buffer) = None"
  using eb_PeekEvent_undefined_iff [of "eb_new 4 2 [0, 0, 0, 0, 0, 0] :: nat event_buffer"]
  by (simp add: eb_new_def q_new_inv)

end
