(* ===== verification/MetaData.thy ===== *)
theory MetaData
  imports ErrorCodes
begin

section \<open>Track metadata and playlist items\<close>

text \<open>
  The classes \<open>MetaData\<close> (\<open>base/include/metadata.h\<close>) and \<open>PlaylistItem\<close>
  (\<open>base/include/playlist.h\<close>): their fields, constructors, comparison operators, and the
  \<open>SetBuffer\<close> helper behind every \<open>Get...(char* buf, uint32* len)\<close> accessor. The other
  setters are plain record updates.
\<close>

subsection \<open>MetaData\<close>

record metadata =
  m_artist :: string
  m_album :: string
  m_title :: string
  m_genre :: string
  m_comment :: string
  m_extension :: string
  m_guid :: string
  m_year :: nat
  m_track :: nat
  m_time :: nat
  m_size :: nat
  m_playcount :: nat

definition new_metadata :: metadata where
  "new_metadata = \<lparr>m_artist = [], m_album = [], m_title = [], m_genre = [], m_comment = [],
     m_extension = [], m_guid = [], m_year = 0, m_track = 0, m_time = 0, m_size = 0,
     m_playcount = 0\<rparr>"

definition AddPlayCount :: "metadata \<Rightarrow> metadata" where
  "AddPlayCount d = d\<lparr>m_playcount := u32 (m_playcount d + 1)\<rparr>"

definition metadata_eq :: "metadata \<Rightarrow> metadata \<Rightarrow> bool" where
  "metadata_eq a b \<longleftrightarrow>
     m_artist a = m_artist b \<and> m_album a = m_album b \<and> m_title a = m_title b \<and>
     m_genre a = m_genre b \<and> m_comment a = m_comment b \<and> m_year a = m_year b \<and>
     m_track a = m_track b \<and> m_time a = m_time b \<and> m_size a = m_size b \<and>
     m_extension a = m_extension b"

text \<open>
  \<open>SetBuffer(dest, src, len)\<close>: the result code, what \<open>dest\<close> holds afterwards, and the
  size written back through \<open>len\<close>, which is the size needed, terminator included, whether
  or not the copy was made.
\<close>

definition SetBuffer :: "string \<Rightarrow> string \<Rightarrow> nat \<Rightarrow> error \<times> string \<times> nat" where
  "SetBuffer dest src len =
     (let srclen = u32 (length src + 1)
      in if srclen \<le> len then (kError_NoErr, src, srclen)
         else (kError_BufferTooSmall, dest, srclen))"

subsection \<open>PlaylistItem\<close>

datatype item_state =
    kPlaylistItemState_Normal
  | kPlaylistItemState_RetrievingMetaData
  | kPlaylistItemState_Delete

record item =
  it_metadata :: metadata
  it_url :: string
  it_webUrl :: string
  it_state :: item_state

definition new_item :: "string \<Rightarrow> metadata option \<Rightarrow> item" where
  "new_item url md =
     \<lparr>it_metadata = (case md of None \<Rightarrow> new_metadata | Some d \<Rightarrow> d),
      it_url = url, it_webUrl = [], it_state = kPlaylistItemState_Normal\<rparr>"

definition item_eq :: "item \<Rightarrow> item \<Rightarrow> bool" where
  "item_eq a b \<longleftrightarrow> metadata_eq (it_metadata a) (it_metadata b) \<and> it_url a = it_url b"

subsection \<open>The order of the metadata plugins\<close>

text \<open>
  \<open>MetaDataOrder\<close> with its integer values, and the comparison \<open>MetaDataSort\<close> by which
  the playlist manager sorts its metadata plugins. The order is linear, so the sort of the
  plugins is the library's \<^const>\<open>sort_key\<close>.
\<close>

datatype MetaDataOrder =
    MetaDataOrder_First
  | MetaDataOrder_Low
  | MetaDataOrder_Medium
  | MetaDataOrder_High
  | MetaDataOrder_Last

primrec order_value :: "MetaDataOrder \<Rightarrow> int" where
  "order_value MetaDataOrder_First = 0"
| "order_value MetaDataOrder_Low = 25"
| "order_value MetaDataOrder_Medium = 50"
| "order_value MetaDataOrder_High = 75"
| "order_value MetaDataOrder_Last = 100"

lemma order_value_inj: "order_value a = order_value b \<Longrightarrow> a = b"
  by (cases a; cases b) simp_all

instantiation MetaDataOrder :: linorder
begin

definition less_eq_MetaDataOrder :: "MetaDataOrder \<Rightarrow> MetaDataOrder \<Rightarrow> bool" where
  "a \<le> b \<longleftrightarrow> order_value a \<le> order_value b"

definition less_MetaDataOrder :: "MetaDataOrder \<Rightarrow> MetaDataOrder \<Rightarrow> bool" where
  "a < b \<longleftrightarrow> order_value a < order_value b"

instance
  by standard (auto simp: less_eq_MetaDataOrder_def less_MetaDataOrder_def dest: order_value_inj)

end

definition MetaDataSort :: "MetaDataOrder \<Rightarrow> MetaDataOrder \<Rightarrow> bool" where
  "MetaDataSort a b \<longleftrightarrow> a < b"

subsection \<open>Properties\<close>

lemma metadata_eq_refl [simp]: "metadata_eq a a"
  by (simp add: metadata_eq_def)

text \<open>
  \<open>operator==\<close> on metadata ignores exactly the GUID and the play count: two values
  compare equal precisely when overwriting these two fields with common values makes them
  the same record.
\<close>

theorem metadata_eq_iff:
  "metadata_eq a b \<longleftrightarrow>
     a\<lparr>m_guid := g, m_playcount := n\<rparr> = b\<lparr>m_guid := g, m_playcount := n\<rparr>"
  by (cases a; cases b) (auto simp: metadata_eq_def)

end
