(* ===== verification/UndoManager.thy ===== *)
theory UndoManager
  imports Prelude
begin

section \<open>The undo manager\<close>

text \<open>
  \<open>base/src/undomanager.cpp\<close>: a vector of undo items with a cursor \<open>m_current\<close>, the index
  of the item the next \<open>Undo\<close> runs (\<open>kRootIndex\<close>, all ones, before the first), and the flag
  \<open>m_doing\<close> that makes \<open>AddItem\<close> ignore what an item records while it is being run. The
  virtual functions \<open>UndoItem::Undo\<close> and \<open>UndoItem::Redo\<close> are the arguments \<open>undo\<close> and
  \<open>redo\<close>: state transformers that may have no defined result. The contract is a pair of
  stacks, \<open>um_abs\<close>.
\<close>

abbreviation kRootIndex :: nat where
  "kRootIndex \<equiv> 4294967295"

record 'i undo_manager =
  um_items :: "'i list"
  um_current :: nat
  um_doing :: bool

definition um_new :: "'i undo_manager" where
  "um_new = \<lparr>um_items = [], um_current = kRootIndex, um_doing = False\<rparr>"

definition um_CanUndo :: "'i undo_manager \<Rightarrow> bool" where
  "um_CanUndo m \<longleftrightarrow> u32 (length (um_items m)) \<noteq> 0 \<and> um_current m \<noteq> kRootIndex"

definition um_CanRedo :: "'i undo_manager \<Rightarrow> bool" where
  "um_CanRedo m \<longleftrightarrow>
     (let size = u32 (length (um_items m)) in size \<noteq> 0 \<and> um_current m \<noteq> u32_sub size 1)"

definition um_Undo ::
  "('i \<Rightarrow> 's \<Rightarrow> 's option) \<Rightarrow> 'i undo_manager \<Rightarrow> 's \<Rightarrow> ('i undo_manager \<times> 's) option" where
  "um_Undo undo m s =
     (if um_CanUndo m then do {
        let m1 = m\<lparr>um_doing := True\<rparr>;
        i \<leftarrow> vec_at (um_items m1) (um_current m1);
        let m2 = m1\<lparr>um_current := u32_sub (um_current m1) 1\<rparr>;
        s' \<leftarrow> undo i s;
        Some (m2\<lparr>um_doing := False\<rparr>, s')
      }
      else Some (m, s))"

definition um_Redo ::
  "('i \<Rightarrow> 's \<Rightarrow> 's option) \<Rightarrow> 'i undo_manager \<Rightarrow> 's \<Rightarrow> ('i undo_manager \<times> 's) option" where
  "um_Redo redo m s =
     (if um_CanRedo m then do {
        let m1 = m\<lparr>um_doing := True\<rparr>;
        let m2 = m1\<lparr>um_current := u32 (um_current m1 + 1)\<rparr>;
        i \<leftarrow> vec_at (um_items m2) (um_current m2);
        s' \<leftarrow> redo i s;
        Some (m2\<lparr>um_doing := False\<rparr>, s')
      }
      else Some (m, s))"

definition um_AddItem :: "'i undo_manager \<Rightarrow> 'i \<Rightarrow> 'i undo_manager option" where
  "um_AddItem m i =
     (if um_doing m then Some m
      else do {
        let size = u32 (length (um_items m));
        kept \<leftarrow> (if size \<noteq> 0 \<and> um_current m \<noteq> u32_sub size 1
                 then vec_erase_range (um_items m) (u32 (um_current m + 1)) (length (um_items m))
                 else Some (um_items m));
        let its = kept @ [i];
        Some (m\<lparr>um_items := its, um_current := u32_sub (u32 (length its)) 1\<rparr>)
      })"

definition um_Clear :: "'i undo_manager \<Rightarrow> 'i undo_manager" where
  "um_Clear m = m\<lparr>um_items := [], um_current := kRootIndex\<rparr>"

text \<open>
  \<open>UndoMultiItem\<close>: \<open>Undo\<close> runs its items from the last to the first, \<open>Redo\<close> from the
  first to the last.
\<close>

fun multi_Redo :: "('i \<Rightarrow> 's \<Rightarrow> 's option) \<Rightarrow> 'i list \<Rightarrow> 's \<Rightarrow> 's option" where
  "multi_Redo redo [] s = Some s"
| "multi_Redo redo (i # is) s = do { s' \<leftarrow> redo i s; multi_Redo redo is s' }"

definition multi_Undo :: "('i \<Rightarrow> 's \<Rightarrow> 's option) \<Rightarrow> 'i list \<Rightarrow> 's \<Rightarrow> 's option" where
  "multi_Undo undo is s = multi_Redo undo (rev is) s"

definition multi_AddItem :: "'i list \<Rightarrow> 'i \<Rightarrow> 'i list" where
  "multi_AddItem is i = is @ [i]"

subsection \<open>The contract: two stacks\<close>

definition um_pos :: "'i undo_manager \<Rightarrow> nat" where
  "um_pos m = (if um_current m = kRootIndex then 0 else Suc (um_current m))"

definition um_abs :: "'i undo_manager \<Rightarrow> 'i list \<times> 'i list" where
  "um_abs m = (rev (take (um_pos m) (um_items m)), drop (um_pos m) (um_items m))"

text \<open>The cursor is in range, no item is running, and the vector is below the 32-bit limit.\<close>

definition um_ok :: "'i undo_manager \<Rightarrow> bool" where
  "um_ok m \<longleftrightarrow> \<not> um_doing m \<and> length (um_items m) < kRootIndex \<and>
     (um_current m = kRootIndex \<or> um_current m < length (um_items m))"

lemmas um_defs = um_ok_def um_pos_def um_abs_def

lemma um_ok_pos: "um_ok m \<Longrightarrow> um_pos m \<le> length (um_items m)"
  by (auto simp: um_defs)

lemma um_CanUndo_iff: "um_ok m \<Longrightarrow> um_CanUndo m \<longleftrightarrow> um_pos m \<noteq> 0"
  by (auto simp: um_CanUndo_def um_defs)

lemma um_CanRedo_iff: "um_ok m \<Longrightarrow> um_CanRedo m \<longleftrightarrow> um_pos m \<noteq> length (um_items m)"
  by (auto simp: um_CanRedo_def um_defs Let_def)

lemma um_Undo_step:
  assumes "um_ok m" and "um_pos m \<noteq> 0"
  shows "um_Undo undo m s = do {
      s' \<leftarrow> undo (um_items m ! (um_pos m - 1)) s;
      Some (m\<lparr>um_current := u32_sub (um_current m) 1\<rparr>, s') }"
  using assms by (cases m) (auto simp: um_Undo_def um_CanUndo_iff um_defs split: if_splits)

lemma um_Redo_step:
  assumes "um_ok m" and "um_pos m \<noteq> length (um_items m)"
  shows "um_Redo redo m s = do {
      s' \<leftarrow> redo (um_items m ! um_pos m) s;
      Some (m\<lparr>um_current := um_pos m\<rparr>, s') }"
proof -
  have "u32 (um_current m + 1) = um_pos m"
    using assms by (auto simp: um_defs u32_def)
  moreover have "um_pos m < length (um_items m)"
    using assms um_ok_pos [OF assms(1)] by simp
  ultimately show ?thesis
    using assms by (cases m) (auto simp: um_Redo_def um_CanRedo_iff um_ok_def)
qed

lemma um_pos_pred:
  assumes "um_ok m" and "um_pos m \<noteq> 0"
  shows "um_pos (m\<lparr>um_current := u32_sub (um_current m) 1\<rparr>) = um_pos m - 1"
    and "um_ok (m\<lparr>um_current := u32_sub (um_current m) 1\<rparr>)"
proof -
  have c: "um_current m < length (um_items m)" "um_pos m = Suc (um_current m)"
    "length (um_items m) < kRootIndex"
    using assms by (auto simp: um_defs split: if_splits)
  show "um_pos (m\<lparr>um_current := u32_sub (um_current m) 1\<rparr>) = um_pos m - 1"
    using c by (cases "um_current m = 0") (simp_all add: um_pos_def)
  show "um_ok (m\<lparr>um_current := u32_sub (um_current m) 1\<rparr>)"
    using c assms(1) by (cases "um_current m = 0") (simp_all add: um_ok_def less_imp_diff_less)
qed

lemma um_pos_set: "p < kRootIndex \<Longrightarrow> um_pos (m\<lparr>um_current := p\<rparr>) = Suc p"
  by (simp add: um_pos_def)

lemma um_abs_back:
  assumes "um_pos m \<noteq> 0" and "um_ok m" and "um_items m' = um_items m" and "um_pos m' = um_pos m - 1"
  shows "um_abs m = (um_items m ! (um_pos m - 1) # fst (um_abs m'), tl (snd (um_abs m')))"
    and "um_abs m' = (tl (fst (um_abs m)), um_items m ! (um_pos m - 1) # snd (um_abs m))"
proof -
  obtain k where k: "um_pos m = Suc k" using assms(1) by (cases "um_pos m") auto
  have "k < length (um_items m)" using um_ok_pos [OF assms(2)] k by simp
  note klen = this
  show "um_abs m = (um_items m ! (um_pos m - 1) # fst (um_abs m'), tl (snd (um_abs m')))"
    using assms k klen by (simp add: um_abs_def take_Suc_conv_app_nth drop_Suc tl_drop)
  show "um_abs m' = (tl (fst (um_abs m)), um_items m ! (um_pos m - 1) # snd (um_abs m))"
    using assms k klen by (simp add: um_abs_def take_Suc_conv_app_nth Cons_nth_drop_Suc)
qed

lemma um_AddItem_abs:
  assumes "um_ok m" and "length (um_items m) < kRootIndex - 1"
  shows "\<exists>m'. um_AddItem m i = Some m' \<and> um_ok m' \<and> um_abs m' = (i # fst (um_abs m), [])"
proof -
  let ?k = "take (um_pos m) (um_items m)"
  let ?m = "m\<lparr>um_items := ?k @ [i], um_current := length ?k\<rparr>"
  have pos: "um_pos m \<le> length (um_items m)" by (rule um_ok_pos [OF assms(1)])
  have len: "length ?k < kRootIndex - 1" using assms(2) by simp
  have kept: "(if u32 (length (um_items m)) \<noteq> 0 \<and> um_current m \<noteq> u32_sub (u32 (length (um_items m))) 1
     then vec_erase_range (um_items m) (u32 (um_current m + 1)) (length (um_items m))
     else Some (um_items m)) = Some ?k"
    using assms(1) pos
    by (cases "um_items m = []")
      (auto simp: um_ok_def um_pos_def vec_erase_range_def u32_def split: if_splits)
  have "um_AddItem m i = Some (m\<lparr>um_items := ?k @ [i], um_current := u32_sub (u32 (length (?k @ [i]))) 1\<rparr>)"
    using assms(1) by (simp only: um_AddItem_def Let_def kept um_ok_def if_False bind.bind_lunit)
  moreover have "u32_sub (u32 (length (?k @ [i]))) 1 = length ?k" using len by simp
  ultimately have "um_AddItem m i = Some ?m" by simp
  moreover have "um_ok ?m" using assms(1) len by (simp add: um_ok_def)
  moreover have "um_abs ?m = (i # fst (um_abs m), [])"
  proof -
    have "um_pos ?m = Suc (length ?k)" using len by (simp add: um_pos_set)
    then show ?thesis using pos by (simp add: um_abs_def min_def)
  qed
  ultimately show ?thesis by blast
qed

lemma um_Undo_abs:
  assumes ok: "um_ok m"
  shows "case fst (um_abs m) of
      [] \<Rightarrow> um_Undo undo m s = Some (m, s)
    | u # us \<Rightarrow> \<exists>m'. um_ok m' \<and> um_abs m' = (us, u # snd (um_abs m)) \<and>
        um_Undo undo m s = map_option (\<lambda>s'. (m', s')) (undo u s)"
proof (cases "um_pos m = 0")
  case True
  then have "\<not> um_CanUndo m" using um_CanUndo_iff [OF ok] by simp
  with True show ?thesis by (simp add: um_abs_def um_Undo_def)
next
  case False
  let ?m = "m\<lparr>um_current := u32_sub (um_current m) 1\<rparr>"
  have pred: "um_pos ?m = um_pos m - 1" "um_ok ?m" using um_pos_pred [OF ok False] by auto
  have moved: "um_abs m = (um_items m ! (um_pos m - 1) # fst (um_abs ?m), tl (snd (um_abs ?m)))"
    "um_abs ?m = (tl (fst (um_abs m)), um_items m ! (um_pos m - 1) # snd (um_abs m))"
    using um_abs_back [OF False ok _ pred(1)] by simp_all
  have "um_Undo undo m s = map_option (\<lambda>s'. (?m, s')) (undo (um_items m ! (um_pos m - 1)) s)"
    unfolding um_Undo_step [OF ok False] by (cases "undo (um_items m ! (um_pos m - 1)) s") simp_all
  with moved pred show ?thesis by (auto split: list.split)
qed

lemma um_Redo_abs:
  assumes ok: "um_ok m"
  shows "case snd (um_abs m) of
      [] \<Rightarrow> um_Redo redo m s = Some (m, s)
    | r # rs \<Rightarrow> \<exists>m'. um_ok m' \<and> um_abs m' = (r # fst (um_abs m), rs) \<and>
        um_Redo redo m s = map_option (\<lambda>s'. (m', s')) (redo r s)"
proof (cases "um_pos m = length (um_items m)")
  case True
  then have "\<not> um_CanRedo m" using um_CanRedo_iff [OF ok] by simp
  with True show ?thesis by (simp add: um_abs_def um_Redo_def)
next
  case False
  let ?m = "m\<lparr>um_current := um_pos m\<rparr>"
  have lt: "um_pos m < length (um_items m)" using False um_ok_pos [OF ok] by simp
  then have ok': "um_ok ?m" using ok by (simp add: um_ok_def)
  have pos': "um_pos ?m = Suc (um_pos m)" using lt ok by (intro um_pos_set) (simp add: um_ok_def)
  have "um_Redo redo m s = map_option (\<lambda>s'. (?m, s')) (redo (um_items m ! um_pos m) s)"
    unfolding um_Redo_step [OF ok False] by (cases "redo (um_items m ! um_pos m) s") simp_all
  moreover have "um_abs ?m = (um_items m ! um_pos m # fst (um_abs m), tl (snd (um_abs m)))"
    using lt pos' by (simp add: um_abs_def take_Suc_conv_app_nth drop_Suc tl_drop)
  moreover have "snd (um_abs m) = um_items m ! um_pos m # tl (snd (um_abs m))"
    using lt by (simp add: um_abs_def Cons_nth_drop_Suc tl_drop drop_Suc [symmetric])
  ultimately show ?thesis using ok' by (auto split: list.split)
qed

subsection \<open>Properties\<close>


lemma um_new_ok: "um_ok um_new"
  by (simp add: um_ok_def um_new_def)


lemma multi_Redo_append:
  "multi_Redo redo (is @ js) s = do { s' \<leftarrow> multi_Redo redo is s; multi_Redo redo js s' }"
  by (induction "is" arbitrary: s) (simp_all add: bind_eq_Some_conv split: bind_splits)

lemma multi_Redo_after_multi_Undo:
  assumes inv: "\<And>i s s'. undo i s = Some s' \<Longrightarrow> redo i s' = Some s"
  shows "multi_Undo undo is s = Some s' \<Longrightarrow> multi_Redo redo is s' = Some s"
proof (induction "is" arbitrary: s')
  case Nil
  then show ?case by (simp add: multi_Undo_def)
next
  case (Cons i "is")
  then obtain t where "multi_Undo undo is s = Some t" and "undo i t = Some s'"
    by (auto simp: multi_Undo_def multi_Redo_append bind_eq_Some_conv)
  with Cons.IH inv show ?case by simp
qed

text \<open>
  Round trip: when the \<open>Redo\<close> of each recorded action takes back its \<open>Undo\<close>, undoing the
  last recorded group of actions (an \<open>UndoMultiItem\<close>) and redoing it restores both the state
  and the undo manager.
\<close>

theorem um_undo_redo_roundtrip:
  assumes inv: "\<And>i s s'. undo i s = Some s' \<Longrightarrow> redo i s' = Some s"
    and ok: "um_ok m" and can: "um_CanUndo m"
    and run: "um_Undo (multi_Undo undo) m s = Some (m', s')"
  shows "um_Redo (multi_Redo redo) m' s' = Some (m, s)"
proof -
  have pos: "um_pos m \<noteq> 0" using can um_CanUndo_iff [OF ok] by simp
  let ?m = "m\<lparr>um_current := u32_sub (um_current m) 1\<rparr>"
  let ?i = "um_items m ! (um_pos m - 1)"
  have m': "m' = ?m" and u: "multi_Undo undo ?i s = Some s'"
    using run unfolding um_Undo_step [OF ok pos] by (auto simp: bind_eq_Some_conv)
  have pred: "um_pos ?m = um_pos m - 1" "um_ok ?m" using um_pos_pred [OF ok pos] by auto
  have "um_pos ?m \<noteq> length (um_items ?m)" using pred(1) pos um_ok_pos [OF ok] by simp
  from um_Redo_step [OF pred(2) this, of "multi_Redo redo" s']
  have "um_Redo (multi_Redo redo) ?m s' = Some (?m\<lparr>um_current := um_pos m - 1\<rparr>, s)"
    using pred(1) multi_Redo_after_multi_Undo [of undo redo, OF inv u] by simp
  moreover have "?m\<lparr>um_current := um_pos m - 1\<rparr> = m"
    using pos by (cases m) (auto simp: um_pos_def split: if_splits)
  ultimately show ?thesis by (simp add: m')
qed

theorem um_undo_redo_roundtrip_witness:
  "um_Redo (multi_Redo (\<lambda>i s. Some (s + i))) \<lparr>um_items = [[3::int]], um_current = kRootIndex, um_doing = False\<rparr> 2
     = Some (\<lparr>um_items = [[3]], um_current = 0, um_doing = False\<rparr>, 5)"
proof (rule um_undo_redo_roundtrip [where undo = "\<lambda>i s. Some (s - i)"])
  show "um_Undo (multi_Undo (\<lambda>i s. Some (s - i))) \<lparr>um_items = [[3::int]], um_current = 0, um_doing = False\<rparr> 5
      = Some (\<lparr>um_items = [[3]], um_current = kRootIndex, um_doing = False\<rparr>, 2)"
    by (simp add: um_Undo_def um_CanUndo_def multi_Undo_def)
qed (simp_all add: um_ok_def um_CanUndo_def)

end
