(* ===== verification/PlmState.thy ===== *)
theory PlmState
  imports MetaData UndoManager
begin

section \<open>The state of the playlist manager\<close>

text \<open>
  \<open>class PlaylistManager\<close> of \<open>base/include/playlist.h\<close>: the three lists of item pointers, the
  pointer to the active one, the shuffled copy of the master list, the current position and the
  modes. Items live on the heap \<open>plm_heap\<close>: \<open>new\<close> takes the next unused address, \<open>delete\<close>
  unmaps one, and an access through an unmapped address has no defined result. Address 0 is
  \<open>NULL\<close>. The events the manager sends to its target are logged in \<open>plm_events\<close>; the metadata
  threads it has started are in \<open>plm_threads\<close>, each with the items it still has to visit, the
  ones it has updated (\<open>pl_items\<close>) and the metadata it has read for the item it works on;
  \<open>plm_rand\<close> holds the values the next calls of \<open>rand()\<close> return.

  The lock is recursive and every operation that takes it is one step.
\<close>

type_synonym ptr = nat

abbreviation (input) NULL :: ptr where
  "NULL \<equiv> 0"

datatype list_id = MasterList | ExternalList | PortableList

datatype playlist_key =
    kPlaylistKey_MasterPlaylist
  | kPlaylistKey_ExternalPlaylist
  | kPlaylistKey_PortablePlaylist
  | kPlaylistKey_LastKey

datatype repeat_mode = kPlaylistMode_RepeatNone | kPlaylistMode_RepeatOne | kPlaylistMode_RepeatAll

datatype sort_key_id =
    kPlaylistSortKey_Artist
  | kPlaylistSortKey_Album
  | kPlaylistSortKey_Title
  | kPlaylistSortKey_Year
  | kPlaylistSortKey_Track
  | kPlaylistSortKey_Genre
  | kPlaylistSortKey_Time
  | kPlaylistSortKey_Location
  | kPlaylistSortKey_FileName
  | kPlaylistSortKey_Comment
  | kPlaylistSortKey_LastKey
  | kPlaylistSortKey_Random

datatype sort_type = kPlaylistSortType_Ascending | kPlaylistSortType_Descending

text \<open>The events of \<open>base/include/eventdata.h\<close> the manager sends, with the data they copy.\<close>

datatype plm_event =
    PlaylistCurrentItemInfoEvent ptr
  | PlaylistShuffleEvent bool
  | PlaylistRepeatEvent repeat_mode
  | PlaylistItemAddedEvent ptr
  | PlaylistItemsAddedEvent "ptr list"
  | PlaylistItemRemovedEvent "ptr list" "nat list"
  | PlaylistItemMovedEvent nat nat ptr
  | PlaylistItemsUpdatedEvent "ptr list"
  | PlaylistSortedEvent sort_key_id

text \<open>The undo items of \<open>playlist.cpp\<close>, with their members.\<close>

datatype plm_undo =
    UndoAdd string nat
  | UndoAddMulti "string list" nat
  | UndoRemove string nat
  | UndoMove nat nat

record md_thread =
  th_list :: "ptr list"
  th_items :: "ptr list"
  th_fetched :: "metadata option"

record plm =
  plm_heap :: "ptr \<rightharpoonup> item"
  plm_next :: ptr
  m_masterList :: "ptr list"
  m_externalList :: "ptr list"
  m_portableList :: "ptr list"
  m_activeList :: list_id
  m_shuffleList :: "ptr list"
  m_current :: nat
  m_shuffle :: bool
  m_repeatMode :: repeat_mode
  m_playlistKey :: playlist_key
  m_sortKey :: sort_key_id
  m_sortType :: sort_type
  m_externalPlaylist :: string
  m_portableDevice :: "nat option"
  m_metadataFormats :: "(MetaDataOrder \<times> nat) list"
  m_playlistFormats :: "(string \<times> nat) list"
  m_portablePlayers :: "nat list"
  m_undo :: "plm_undo undo_manager"
  plm_events :: "plm_event list"
  plm_threads :: "md_thread list"
  plm_rand :: "nat list"

text \<open>
  The constructor: the two preferences, the metadata plugins (sorted by their order), the
  playlist formats and the portable players the plugins offer are its arguments.
\<close>

definition plm_new ::
  "bool \<Rightarrow> repeat_mode \<Rightarrow> (MetaDataOrder \<times> nat) list \<Rightarrow> (string \<times> nat) list \<Rightarrow> nat list \<Rightarrow> nat list \<Rightarrow> plm" where
  "plm_new shuffle rm mdfs plfs devs rands =
     \<lparr>plm_heap = Map.empty, plm_next = 1, m_masterList = [], m_externalList = [],
      m_portableList = [], m_activeList = MasterList, m_shuffleList = [],
      m_current = kInvalidIndex, m_shuffle = shuffle, m_repeatMode = rm,
      m_playlistKey = kPlaylistKey_MasterPlaylist, m_sortKey = kPlaylistSortKey_Random,
      m_sortType = kPlaylistSortType_Ascending, m_externalPlaylist = [],
      m_portableDevice = None, m_metadataFormats = sort_key fst mdfs,
      m_playlistFormats = plfs, m_portablePlayers = devs, m_undo = um_new,
      plm_events = [], plm_threads = [], plm_rand = rands\<rparr>"

subsection \<open>Events, items and the active list\<close>

definition plm_emit :: "plm_event \<Rightarrow> plm \<Rightarrow> plm" where
  "plm_emit e s = s\<lparr>plm_events := plm_events s @ [e]\<rparr>"

definition plm_alloc :: "item \<Rightarrow> plm \<Rightarrow> ptr \<times> plm" where
  "plm_alloc it s = (plm_next s,
     s\<lparr>plm_heap := (plm_heap s)(plm_next s \<mapsto> it), plm_next := Suc (plm_next s)\<rparr>)"

definition plm_active :: "plm \<Rightarrow> ptr list" where
  "plm_active s = (case m_activeList s of
       MasterList \<Rightarrow> m_masterList s | ExternalList \<Rightarrow> m_externalList s | PortableList \<Rightarrow> m_portableList s)"

definition plm_set_active :: "ptr list \<Rightarrow> plm \<Rightarrow> plm" where
  "plm_set_active xs s = (case m_activeList s of
       MasterList \<Rightarrow> s\<lparr>m_masterList := xs\<rparr>
     | ExternalList \<Rightarrow> s\<lparr>m_externalList := xs\<rparr>
     | PortableList \<Rightarrow> s\<lparr>m_portableList := xs\<rparr>)"

text \<open>
  The block every removal repeats: an item a metadata thread still works on is marked and
  left to the thread, any other is deleted.
\<close>

definition dispose_heap :: "(ptr \<rightharpoonup> item) \<Rightarrow> ptr \<Rightarrow> (ptr \<rightharpoonup> item) option" where
  "dispose_heap h p = do {
     it \<leftarrow> h p;
     Some (if it_state it = kPlaylistItemState_RetrievingMetaData
       then h(p \<mapsto> it\<lparr>it_state := kPlaylistItemState_Delete\<rparr>) else h(p := None))
   }"

definition plm_dispose :: "ptr \<Rightarrow> plm \<Rightarrow> plm option" where
  "plm_dispose p s = map_option (\<lambda>h. s\<lparr>plm_heap := h\<rparr>) (dispose_heap (plm_heap s) p)"

text \<open>\<open>InternalIndexOf\<close> asserts a non-null item.\<close>

definition plm_InternalIndexOf :: "ptr list \<Rightarrow> ptr \<Rightarrow> nat option" where
  "plm_InternalIndexOf xs p = (if p = NULL then None else Some (index_loop p xs 0))"

definition plm_IndexOf :: "plm \<Rightarrow> ptr \<Rightarrow> nat option" where
  "plm_IndexOf s p = plm_InternalIndexOf (plm_active s) p"

definition plm_HasItem :: "plm \<Rightarrow> ptr \<Rightarrow> bool option" where
  "plm_HasItem s p = do { i \<leftarrow> plm_IndexOf s p; Some (i \<noteq> kInvalidIndex) }"

definition plm_CountItems :: "plm \<Rightarrow> nat" where
  "plm_CountItems s = u32 (length (plm_active s))"

definition plm_IsEmpty :: "plm \<Rightarrow> bool" where
  "plm_IsEmpty s \<longleftrightarrow> plm_active s = []"

definition plm_CheckIndex :: "plm \<Rightarrow> nat \<Rightarrow> nat" where
  "plm_CheckIndex s index = (if index \<ge> plm_CountItems s then kInvalidIndex else index)"

definition plm_ItemAt :: "plm \<Rightarrow> nat \<Rightarrow> ptr option" where
  "plm_ItemAt s index =
     (let index = plm_CheckIndex s index
      in if index \<noteq> kInvalidIndex then vec_at (plm_active s) index else Some NULL)"

fun time_loop :: "(ptr \<rightharpoonup> item) \<Rightarrow> ptr list \<Rightarrow> nat \<Rightarrow> nat option" where
  "time_loop h [] t = Some t"
| "time_loop h (p # ps) t = do {
     it \<leftarrow> h p;
     time_loop h ps (u32 (t + m_time (it_metadata it)))
   }"

definition plm_Time :: "plm \<Rightarrow> nat option" where
  "plm_Time s = time_loop (plm_heap s) (plm_active s) 0"

subsection \<open>Field lemmas\<close>

named_theorems plm_simps "how the helpers act on the fields of the state"

lemma plm_emit_fields [plm_simps]:
  "plm_heap (plm_emit e s) = plm_heap s" "plm_next (plm_emit e s) = plm_next s"
  "m_masterList (plm_emit e s) = m_masterList s" "m_externalList (plm_emit e s) = m_externalList s"
  "m_portableList (plm_emit e s) = m_portableList s" "m_activeList (plm_emit e s) = m_activeList s"
  "m_shuffleList (plm_emit e s) = m_shuffleList s" "m_current (plm_emit e s) = m_current s"
  "m_shuffle (plm_emit e s) = m_shuffle s" "m_repeatMode (plm_emit e s) = m_repeatMode s"
  "m_playlistKey (plm_emit e s) = m_playlistKey s" "plm_threads (plm_emit e s) = plm_threads s"
  "plm_rand (plm_emit e s) = plm_rand s" "m_undo (plm_emit e s) = m_undo s"
  "plm_active (plm_emit e s) = plm_active s"
  "plm_events (plm_emit e s) = plm_events s @ [e]"
  by (simp_all add: plm_emit_def plm_active_def split: list_id.splits)

lemma plm_set_active_fields [plm_simps]:
  "plm_heap (plm_set_active xs s) = plm_heap s" "plm_next (plm_set_active xs s) = plm_next s"
  "m_activeList (plm_set_active xs s) = m_activeList s"
  "m_shuffleList (plm_set_active xs s) = m_shuffleList s"
  "m_current (plm_set_active xs s) = m_current s" "m_shuffle (plm_set_active xs s) = m_shuffle s"
  "m_repeatMode (plm_set_active xs s) = m_repeatMode s"
  "m_playlistKey (plm_set_active xs s) = m_playlistKey s"
  "plm_threads (plm_set_active xs s) = plm_threads s" "plm_rand (plm_set_active xs s) = plm_rand s"
  "m_undo (plm_set_active xs s) = m_undo s" "plm_events (plm_set_active xs s) = plm_events s"
  "plm_active (plm_set_active xs s) = xs"
  "m_masterList (plm_set_active xs s) = (if m_activeList s = MasterList then xs else m_masterList s)"
  "m_externalList (plm_set_active xs s) =
     (if m_activeList s = ExternalList then xs else m_externalList s)"
  "m_portableList (plm_set_active xs s) =
     (if m_activeList s = PortableList then xs else m_portableList s)"
  by (simp_all add: plm_set_active_def plm_active_def split: list_id.splits)

lemma plm_InternalIndexOf_NULL [simp]: "plm_InternalIndexOf xs NULL = None"
  by (simp add: plm_InternalIndexOf_def)

lemma plm_InternalIndexOf_nonnull [simp]:
  "p \<noteq> NULL \<Longrightarrow> plm_InternalIndexOf xs p = Some (index_loop p xs 0)"
  by (simp add: plm_InternalIndexOf_def)

lemma plm_IndexOf_nonnull [simp]:
  "p \<noteq> NULL \<Longrightarrow> plm_IndexOf s p = Some (index_loop p (plm_active s) 0)"
  by (simp add: plm_IndexOf_def)

lemma plm_CheckIndex_simps:
  "length (plm_active s) < kInvalidIndex \<Longrightarrow>
   plm_CheckIndex s i = (if i < length (plm_active s) then i else kInvalidIndex)"
  by (auto simp: plm_CheckIndex_def plm_CountItems_def)

lemma plm_ItemAt_simps:
  "length (plm_active s) < kInvalidIndex \<Longrightarrow>
   plm_ItemAt s i = Some (if i < length (plm_active s) then plm_active s ! i else NULL)"
  by (auto simp: plm_ItemAt_def plm_CheckIndex_simps Let_def)

end
