(* ===== verification/PlmShuffle.thy ===== *)
theory PlmShuffle
  imports PlmState
begin

section \<open>The shuffle\<close>

text \<open>
  \<open>PlaylistManager::ShuffleIt\<close>: draws positions at random until one is free and, as long as
  more than 50 items are left, at least 10 positions away from the last one, and appends the
  item there. The values of \<open>rand()\<close> are a finite supply: a supply that ends before the
  shuffle does gives \<^const>\<open>None\<close>, and the theorems say when a supply is enough. The index
  expression is computed exactly (the product of a 31-bit draw and a list length is exact in a
  \<open>double\<close> up to \<open>2 ^ 22\<close> items).
\<close>

definition shuffle_index :: "nat \<Rightarrow> nat \<Rightarrow> nat" where
  "shuffle_index r mx = (r * mx) div 2147483648"

text \<open>Whether the inner loop keeps the drawn \<open>index\<close>, when \<open>left\<close> items are left.\<close>

definition shuffle_accepts :: "bool list \<Rightarrow> nat \<Rightarrow> nat \<Rightarrow> nat \<Rightarrow> bool option" where
  "shuffle_accepts usedList lastindex left index = do {
     u \<leftarrow> vec_at usedList index;
     Some (\<not> u \<and> \<not> (left > 50 \<and> \<bar>int index - int lastindex\<bar> < 10))
   }"

fun shuffle_pick :: "bool list \<Rightarrow> nat \<Rightarrow> nat \<Rightarrow> nat \<Rightarrow> nat list \<Rightarrow> (nat \<times> nat list) option" where
  "shuffle_pick usedList lastindex left mx [] = None"
| "shuffle_pick usedList lastindex left mx (r # rs) = do {
     let index = shuffle_index r mx;
     ok \<leftarrow> shuffle_accepts usedList lastindex left index;
     if ok then Some (index, rs) else shuffle_pick usedList lastindex left mx rs
   }"

text \<open>The outer loop with \<open>left = max - i\<close> items to go.\<close>

fun shuffle_loop ::
  "nat \<Rightarrow> 'a list \<Rightarrow> bool list \<Rightarrow> nat \<Rightarrow> nat list \<Rightarrow> ('a list \<times> nat list) option" where
  "shuffle_loop 0 xs usedList lastindex rs = Some ([], rs)"
| "shuffle_loop (Suc k) xs usedList lastindex rs = do {
     (index, rs1) \<leftarrow> shuffle_pick usedList lastindex (Suc k) (length xs) rs;
     usedList' \<leftarrow> vec_set usedList index True;
     dupe \<leftarrow> vec_at xs index;
     (tempShuffled, rs2) \<leftarrow> shuffle_loop k xs usedList' index rs1;
     Some (dupe # tempShuffled, rs2)
   }"

definition ShuffleIt :: "'a list \<Rightarrow> nat list \<Rightarrow> ('a list \<times> nat list) option" where
  "ShuffleIt toBeShuffled rs =
     shuffle_loop (length toBeShuffled) toBeShuffled (replicate (length toBeShuffled) False) 0 rs"

subsection \<open>The draws\<close>

lemma shuffle_index_less: "r < 2147483648 \<Longrightarrow> 0 < mx \<Longrightarrow> shuffle_index r mx < mx"
  by (simp add: shuffle_index_def less_mult_imp_div_less mult.commute)

text \<open>Every position of a list of less than \<open>2 ^ 31\<close> items is hit by some draw.\<close>

lemma shuffle_index_hits:
  assumes i: "i < mx" and mx: "mx \<le> 2147483648"
  shows "\<exists>r < 2147483648. shuffle_index r mx = i"
proof -
  let ?r = "(i * 2147483648 + (mx - 1)) div mx"
  have lo: "i * 2147483648 \<le> ?r * mx"
  proof -
    have "i * 2147483648 + (mx - 1) < ?r * mx + mx"
      using i by (metis add.commute add_less_cancel_left div_mult_mod_eq mod_less_divisor gr_zeroI not_less_zero)
    then show ?thesis by linarith
  qed
  have "?r * mx \<le> i * 2147483648 + (mx - 1)" by simp
  also have "\<dots> < i * 2147483648 + 2147483648" using mx i by simp
  finally have hi: "?r * mx < 2147483648 * Suc i" by (simp add: algebra_simps)
  have "shuffle_index ?r mx = i"
    unfolding shuffle_index_def
  proof (rule div_nat_eqI)
    show "2147483648 * i \<le> ?r * mx" using lo by (simp add: mult.commute)
    show "?r * mx < 2147483648 * Suc i" by (rule hi)
  qed
  moreover have "?r < 2147483648"
  proof -
    have "?r * mx < 2147483648 * mx"
      by (rule less_le_trans [OF hi mult_le_mono2 [OF Suc_leI [OF i]]])
    then show ?thesis by (simp only: mult_less_cancel2)
  qed
  ultimately show ?thesis by blast
qed

lemma shuffle_pick_Some:
  "shuffle_pick us l k m rs = Some (i, rs') \<Longrightarrow>
   i < length us \<and> \<not> us ! i \<and> \<not> (k > 50 \<and> \<bar>int i - int l\<bar> < 10)"
  by (induction rs) (auto simp: shuffle_accepts_def vec_defs Let_def split: if_splits)

lemma shuffle_pick_append:
  "shuffle_pick us l k m rs = Some (i, rs') \<Longrightarrow> shuffle_pick us l k m (rs @ qs) = Some (i, rs' @ qs)"
proof (induction rs)
  case (Cons r rs)
  then show ?case
    by (cases "shuffle_accepts us l k (shuffle_index r m)") (auto simp: Let_def split: if_splits)
qed simp

lemma shuffle_loop_SucE:
  assumes "shuffle_loop (Suc n) xs us l rs = Some (ys, rs')"
  obtains i rs1 zs where "shuffle_pick us l (Suc n) (length xs) rs = Some (i, rs1)"
    and "i < length us" and "i < length xs"
    and "shuffle_loop n xs (us[i := True]) i rs1 = Some (zs, rs')" and "ys = xs ! i # zs"
  using assms by (auto simp: vec_defs split: if_splits Option.bind_splits)

lemma shuffle_loop_append:
  "shuffle_loop n xs us l rs = Some (ys, rs') \<Longrightarrow>
   shuffle_loop n xs us l (rs @ qs) = Some (ys, rs' @ qs)"
proof (induction n arbitrary: us l rs ys)
  case (Suc n)
  from Suc.prems show ?case
  proof (rule shuffle_loop_SucE)
    fix i rs1 zs
    assume "shuffle_pick us l (Suc n) (length xs) rs = Some (i, rs1)"
      and "i < length us" and "i < length xs"
      and "shuffle_loop n xs (us[i := True]) i rs1 = Some (zs, rs')" and "ys = xs ! i # zs"
    then show ?thesis using Suc.IH by (simp add: shuffle_pick_append vec_defs)
  qed
qed simp

lemma ShuffleIt_append:
  "ShuffleIt xs rs = Some (ys, rs') \<Longrightarrow> ShuffleIt xs (rs @ qs) = Some (ys, rs' @ qs)"
  by (simp add: ShuffleIt_def shuffle_loop_append)

subsection \<open>The result is a permutation\<close>

text \<open>The items at the free positions.\<close>

definition unused :: "'a list \<Rightarrow> bool list \<Rightarrow> 'a multiset" where
  "unused xs us = mset (map fst (filter (\<lambda>(x, u). \<not> u) (zip xs us)))"

lemma unused_replicate [simp]: "unused xs (replicate (length xs) False) = mset xs"
  by (induction xs) (simp_all add: unused_def)

lemma unused_update:
  "length us = length xs \<Longrightarrow> i < length xs \<Longrightarrow> \<not> us ! i \<Longrightarrow>
   unused xs us = add_mset (xs ! i) (unused xs (us[i := True]))"
proof (induction xs arbitrary: us i)
  case Nil
  then show ?case by simp
next
  case (Cons x xs)
  then obtain u us' where us: "us = u # us'" by (cases us) auto
  show ?case
  proof (cases i)
    case 0
    then show ?thesis using Cons us by (simp add: unused_def)
  next
    case (Suc j)
    have "unused xs us' = add_mset (xs ! j) (unused xs (us'[j := True]))"
      using Cons us Suc by simp
    then show ?thesis using us Suc by (auto simp: unused_def)
  qed
qed

lemma shuffle_loop_mset:
  "shuffle_loop n xs us l rs = Some (ys, rs') \<Longrightarrow> length us = length xs \<Longrightarrow>
   size (unused xs us) = n \<Longrightarrow> mset ys = unused xs us"
proof (induction n arbitrary: us l rs ys)
  case 0
  then show ?case by simp
next
  case (Suc n)
  from Suc.prems(1) obtain i rs1 zs where
    pick: "shuffle_pick us l (Suc n) (length xs) rs = Some (i, rs1)"
    and rest: "shuffle_loop n xs (us[i := True]) i rs1 = Some (zs, rs')"
    and ys: "ys = xs ! i # zs" and i: "i < length xs"
    by (rule shuffle_loop_SucE)
  have "\<not> us ! i" using shuffle_pick_Some [OF pick] by simp
  then have un: "unused xs us = add_mset (xs ! i) (unused xs (us[i := True]))"
    using unused_update Suc.prems(2) i by blast
  then have "mset zs = unused xs (us[i := True])"
    using Suc.IH [OF rest] Suc.prems(2,3) by simp
  then show ?case using ys un by simp
qed

lemma ShuffleIt_mset: "ShuffleIt xs rs = Some (ys, rs') \<Longrightarrow> mset ys = mset xs"
  using shuffle_loop_mset [of "length xs" xs "replicate (length xs) False" 0 rs ys rs']
  by (simp add: ShuffleIt_def)

lemma ShuffleIt_set:
  assumes "ShuffleIt xs rs = Some (ys, rs')"
  shows "set ys = set xs" and "length ys = length xs" and "distinct ys \<longleftrightarrow> distinct xs"
  using ShuffleIt_mset [OF assms] by (auto dest: mset_eq_setD mset_eq_length mset_eq_imp_distinct_iff)

subsection \<open>The loops end under a fair source\<close>

lemma unused_size: "length us = length xs \<Longrightarrow> size (unused xs us) = length (filter Not us)"
proof -
  assume len: "length us = length xs"
  have "size (unused xs us) = length (filter (\<lambda>(x, u). \<not> u) (zip xs us))"
    unfolding unused_def size_mset by (rule length_map)
  also have "\<dots> = length (filter Not us)"
    using len by (induction us xs rule: list_induct2) simp_all
  finally show ?thesis .
qed

lemma near_positions: "card {i. \<bar>int i - int l\<bar> < 10} \<le> 19"
proof -
  have "{i. \<bar>int i - int l\<bar> < 10} \<subseteq> {l - 9..<l + 10}" by auto
  then have "card {i. \<bar>int i - int l\<bar> < 10} \<le> card {l - 9..<l + 10}" by (intro card_mono) auto
  also have "\<dots> \<le> 19" by simp
  finally show ?thesis .
qed

text \<open>As long as an item is left, some position is accepted: 51 free ones cannot all be near.\<close>

lemma shuffle_accepts_some:
  assumes free: "length (filter Not us) = k" and k: "0 < k"
  shows "\<exists>i < length us. shuffle_accepts us l k i = Some True"
proof -
  let ?F = "{i. i < length us \<and> \<not> us ! i}"
  let ?N = "{i. \<bar>int i - int l\<bar> < 10}"
  have card: "card ?F = k" using free by (simp add: length_filter_conv_card)
  have "\<exists>i \<in> ?F. k > 50 \<longrightarrow> i \<notin> ?N"
  proof (cases "k > 50")
    case True
    have "finite ?N" by (rule finite_subset [of _ "{..<l + 10}"]) auto
    then have "card (?F - ?N) \<ge> card ?F - card ?N" by (rule diff_card_le_card_Diff)
    then have "card (?F - ?N) > 0" using True card near_positions [of l] by linarith
    then have "?F - ?N \<noteq> {}" by (metis card.empty less_irrefl)
    then show ?thesis by blast
  next
    case False
    have "?F \<noteq> {}" using card k by (metis card.empty less_irrefl)
    then show ?thesis using False by blast
  qed
  then show ?thesis by (auto simp: shuffle_accepts_def)
qed

lemma shuffle_accepts_defined: "i < length us \<Longrightarrow> shuffle_accepts us l k i \<noteq> None"
  by (simp add: shuffle_accepts_def)

definition fair_draws :: "(nat \<Rightarrow> nat) \<Rightarrow> nat \<Rightarrow> bool" where
  "fair_draws f N \<longleftrightarrow> (\<forall>n. f n < 2147483648) \<and>
     (\<forall>i < N. \<forall>m. \<exists>n \<ge> m. shuffle_index (f n) N = i)"

lemma shuffle_pick_ends:
  assumes ok: "shuffle_accepts us l k (shuffle_index (f (m + d)) N) = Some True"
    and len: "length us = N" and N: "0 < N" and small: "\<forall>n. f n < 2147483648"
  shows "\<exists>n \<ge> m. \<exists>i. shuffle_pick us l k N (map f [m..<n]) = Some (i, [])"
  using ok
proof (induction d arbitrary: m)
  case 0
  then have "shuffle_pick us l k N (map f [m..<Suc m]) = Some (shuffle_index (f m) N, [])"
    by (simp add: Let_def)
  then show ?case by (metis lessI less_imp_le_nat)
next
  case (Suc d)
  have "shuffle_index (f m) N < length us" using small N len by (simp add: shuffle_index_less)
  then obtain b where b: "shuffle_accepts us l k (shuffle_index (f m) N) = Some b"
    using shuffle_accepts_defined by blast
  show ?case
  proof (cases b)
    case True
    then have "shuffle_pick us l k N (map f [m..<Suc m]) = Some (shuffle_index (f m) N, [])"
      using b by (simp add: Let_def)
    then show ?thesis by (metis lessI less_imp_le_nat)
  next
    case False
    from Suc.IH [of "Suc m"] Suc.prems obtain n i where
      "Suc m \<le> n" "shuffle_pick us l k N (map f [Suc m..<n]) = Some (i, [])" by auto
    then have "m \<le> n" and "shuffle_pick us l k N (map f [m..<n]) = Some (i, [])"
      using b False by (simp_all add: upt_conv_Cons Let_def)
    then show ?thesis by blast
  qed
qed

lemma shuffle_loop_ends:
  assumes fair: "fair_draws f (length xs)"
  shows "length us = length xs \<Longrightarrow> length (filter Not us) = k \<Longrightarrow>
    \<exists>n \<ge> m. \<exists>ys. shuffle_loop k xs us l (map f [m..<n]) = Some (ys, [])"
proof (induction k arbitrary: us l m)
  case 0
  then show ?case by (auto intro: exI [of _ m])
next
  case (Suc k)
  from shuffle_accepts_some [OF Suc.prems(2), of l] obtain i where
    "i < length us" and ok: "shuffle_accepts us l (Suc k) i = Some True" by auto
  then obtain d where "shuffle_index (f (m + d)) (length xs) = i"
    using fair Suc.prems(1) unfolding fair_draws_def by (metis le_iff_add)
  with ok have ok': "shuffle_accepts us l (Suc k) (shuffle_index (f (m + d)) (length xs)) = Some True"
    by simp
  have N: "0 < length xs" and small: "\<forall>n. f n < 2147483648"
    using \<open>i < length us\<close> Suc.prems(1) fair by (auto simp: fair_draws_def)
  from shuffle_pick_ends [where f = f, OF ok' Suc.prems(1) N small] obtain n1 j where
    n1: "m \<le> n1" and pick: "shuffle_pick us l (Suc k) (length xs) (map f [m..<n1]) = Some (j, [])" by blast
  have j: "j < length us" "\<not> us ! j" using shuffle_pick_Some [OF pick] by auto
  then have "length (filter Not (us[j := True])) = k"
    using Suc.prems unused_size [of us xs] unused_size [of "us[j := True]" xs]
      unused_update [of us xs j] by simp
  then obtain n2 zs where n2: "n1 \<le> n2"
    and rest: "shuffle_loop k xs (us[j := True]) j (map f [n1..<n2]) = Some (zs, [])"
    using Suc.IH [of "us[j := True]" n1 j] Suc.prems(1) by auto
  have "map f [m..<n2] = map f [m..<n1] @ map f [n1..<n2]"
    using n1 n2 by (metis le_iff_add map_append upt_add_eq_append)
  then have "shuffle_loop (Suc k) xs us l (map f [m..<n2]) = Some (xs ! j # zs, [])"
    using shuffle_pick_append [OF pick, of "map f [n1..<n2]"] rest j Suc.prems(1)
    by (simp add: vec_defs)
  then show ?case using n1 n2 by (metis le_trans)
qed

subsection \<open>Properties\<close>

text \<open>
  C37. The shuffle ends and permutes: when \<open>rand()\<close> keeps hitting every position, finitely many
  draws are enough, and the result holds every item of the list exactly as often as before.
  The distance rule cannot starve the loop.
\<close>

theorem ShuffleIt_terminates_permuting:
  assumes "fair_draws f (length xs)"
  shows "\<exists>n ys. (\<forall>qs. ShuffleIt xs (map f [0..<n] @ qs) = Some (ys, qs)) \<and> mset ys = mset xs"
proof -
  from shuffle_loop_ends [OF assms, of "replicate (length xs) False" "length xs" 0 0]
  obtain n ys where "ShuffleIt xs (map f [0..<n]) = Some (ys, [])"
    by (auto simp: ShuffleIt_def)
  then show ?thesis
    using ShuffleIt_append [of xs "map f [0..<n]" ys "[]"] ShuffleIt_mset by fastforce
qed

theorem ShuffleIt_terminates_permuting_witness:
  "\<exists>n ys. ShuffleIt [7, 8::nat] (map (\<lambda>n. if even n then 0 else 1073741824) [0..<n]) = Some (ys, []) \<and>
     mset ys = {#7, 8#}"
proof -
  let ?f = "\<lambda>n::nat. if even n then 0 else (1073741824::nat)"
  have "\<exists>n \<ge> m. shuffle_index (?f n) 2 = i" if "i < 2" for i m
  proof -
    from that have "i = 0 \<or> i = 1" by auto
    then show ?thesis
      by (intro exI [of _ "2 * m + i"]) (auto simp: shuffle_index_def)
  qed
  then have "fair_draws ?f 2" by (simp add: fair_draws_def)
  then have "fair_draws ?f (length [7, 8::nat])" by (simp only: list.size) (simp add: numeral_2_eq_2)
  from ShuffleIt_terminates_permuting [OF this] obtain n ys where
    "\<forall>qs. ShuffleIt [7, 8::nat] (map ?f [0..<n] @ qs) = Some (ys, qs)" "mset ys = mset [7, 8::nat]"
    by blast
  then show ?thesis by (metis append.right_neutral mset.simps add_mset_add_single)
qed

end
