(* ===== verification/PlmCurrent.thy ===== *)
theory PlmCurrent
  imports PlmShuffle
begin

section \<open>The current item, next and previous, shuffle and repeat modes\<close>

text \<open>
  The position operations of \<open>playlist.cpp\<close>. \<open>m_current\<close> is a position of the master list, or,
  in shuffle mode, of the shuffled copy; \<open>SetCurrentIndex\<close> and \<open>IndexOf\<close> take positions of the
  active list. \<open>plm_lists_ok\<close> is the invariant of the lists and the position.
\<close>

definition plm_GetCurrentItem :: "plm \<Rightarrow> ptr option" where
  "plm_GetCurrentItem s =
     (if length (m_masterList s) \<noteq> 0
      then (if m_shuffle s then vec_at (m_shuffleList s) (m_current s)
            else vec_at (m_masterList s) (m_current s))
      else Some NULL)"

definition plm_InternalSetCurrentIndex :: "nat \<Rightarrow> plm \<Rightarrow> plm option" where
  "plm_InternalSetCurrentIndex index s =
     (let s1 = s\<lparr>m_current := index\<rparr>
      in if index \<noteq> kInvalidIndex
         then do { p \<leftarrow> plm_GetCurrentItem s1; Some (plm_emit (PlaylistCurrentItemInfoEvent p) s1) }
         else Some s1)"

definition plm_SetCurrentIndex :: "nat \<Rightarrow> plm \<Rightarrow> (error \<times> plm) option" where
  "plm_SetCurrentIndex index s = do {
     let index = plm_CheckIndex s index;
     index \<leftarrow> (if m_shuffle s
       then do { p \<leftarrow> plm_ItemAt s index; plm_InternalIndexOf (m_shuffleList s) p }
       else Some index);
     s1 \<leftarrow> plm_InternalSetCurrentIndex index s;
     Some (kError_NoErr, s1)
   }"

definition plm_SetCurrentItem :: "ptr \<Rightarrow> plm \<Rightarrow> (error \<times> plm) option" where
  "plm_SetCurrentItem p s = do { i \<leftarrow> plm_IndexOf s p; plm_SetCurrentIndex i s }"

definition plm_GetCurrentIndex :: "plm \<Rightarrow> nat option" where
  "plm_GetCurrentIndex s =
     (if length (m_masterList s) \<noteq> 0
      then (if m_shuffle s then do { p \<leftarrow> vec_at (m_shuffleList s) (m_current s); plm_IndexOf s p }
            else Some (m_current s))
      else Some kInvalidIndex)"

text \<open>\<open>ShuffleIt()\<close> without an argument shuffles \<open>m_shuffleList\<close>.\<close>

definition plm_ShuffleIt :: "plm \<Rightarrow> plm option" where
  "plm_ShuffleIt s = do {
     (ys, rs) \<leftarrow> ShuffleIt (m_shuffleList s) (plm_rand s);
     Some (s\<lparr>m_shuffleList := ys, plm_rand := rs\<rparr>)
   }"

definition plm_GotoNextItem :: "bool \<Rightarrow> plm \<Rightarrow> (error \<times> plm) option" where
  "plm_GotoNextItem userAction s =
     (let count = u32 (length (m_masterList s)); index = m_current s
      in if count \<noteq> 0 then do {
           (index, s1) \<leftarrow>
             (if m_repeatMode s \<noteq> kPlaylistMode_RepeatOne \<or> userAction
              then let index = u32 (index + 1)
                   in if index \<ge> count \<and> (m_repeatMode s = kPlaylistMode_RepeatAll \<or> userAction)
                      then (if m_shuffle s then do { s1 \<leftarrow> plm_ShuffleIt s; Some (0, s1) } else Some (0, s))
                      else if index \<ge> count then Some (m_current s, s)
                      else Some (index, s)
              else Some (index, s));
           s2 \<leftarrow> plm_InternalSetCurrentIndex index s1;
           Some (kError_NoErr, s2)
         }
         else Some (kError_NoErr, s\<lparr>m_current := kInvalidIndex\<rparr>))"

definition plm_GotoPreviousItem :: "bool \<Rightarrow> plm \<Rightarrow> (error \<times> plm) option" where
  "plm_GotoPreviousItem userAction s =
     (let count = u32 (length (m_masterList s)); index = m_current s
      in if count \<noteq> 0 then do {
           (index, s1) \<leftarrow>
             (if m_repeatMode s \<noteq> kPlaylistMode_RepeatOne \<or> userAction
              then if index = 0 \<and> (m_repeatMode s = kPlaylistMode_RepeatAll \<or> userAction)
                   then (if m_shuffle s then do { s1 \<leftarrow> plm_ShuffleIt s; Some (count - 1, s1) }
                         else Some (count - 1, s))
                   else if index \<noteq> 0 then Some (index - 1, s)
                   else Some (index, s)
              else Some (index, s));
           s2 \<leftarrow> plm_InternalSetCurrentIndex index s1;
           Some (kError_NoErr, s2)
         }
         else Some (kError_NoErr, s\<lparr>m_current := kInvalidIndex\<rparr>))"

text \<open>
  \<open>m_current < m_masterList.size() - 1\<close> is computed in the width of \<open>size_t\<close>, whose number of
  values \<open>w\<close> is the argument: \<open>2 ^ 32\<close> or \<open>2 ^ 64\<close>.
\<close>

definition plm_HasAnotherItem :: "nat \<Rightarrow> plm \<Rightarrow> bool" where
  "plm_HasAnotherItem w s \<longleftrightarrow>
     m_repeatMode s = kPlaylistMode_RepeatOne \<or> m_repeatMode s = kPlaylistMode_RepeatAll \<or>
     m_current s < (length (m_masterList s) + (w - 1)) mod w"

definition plm_SetShuffleMode :: "bool \<Rightarrow> plm \<Rightarrow> (error \<times> plm) option" where
  "plm_SetShuffleMode shuffle s = do {
     currentItem \<leftarrow> plm_GetCurrentItem s;
     let s1 = s\<lparr>m_shuffle := shuffle\<rparr>;
     s2 \<leftarrow> (if shuffle
       then do {
         s2 \<leftarrow> plm_ShuffleIt s1;
         if currentItem \<noteq> NULL
         then do { i \<leftarrow> plm_InternalIndexOf (m_shuffleList s2) currentItem; Some (s2\<lparr>m_current := i\<rparr>) }
         else Some s2
       }
       else if currentItem \<noteq> NULL
       then do { i \<leftarrow> plm_IndexOf s1 currentItem; Some (s1\<lparr>m_current := i\<rparr>) }
       else Some s1);
     Some (kError_NoErr, plm_emit (PlaylistShuffleEvent (m_shuffle s2)) s2)
   }"

definition plm_SetRepeatMode :: "repeat_mode \<Rightarrow> plm \<Rightarrow> error \<times> plm" where
  "plm_SetRepeatMode mode s =
     (let s1 = s\<lparr>m_repeatMode := mode\<rparr> in (kError_NoErr, plm_emit (PlaylistRepeatEvent mode) s1))"

definition plm_ToggleRepeatMode :: "plm \<Rightarrow> error \<times> plm" where
  "plm_ToggleRepeatMode s = (case m_repeatMode s of
       kPlaylistMode_RepeatNone \<Rightarrow> plm_SetRepeatMode kPlaylistMode_RepeatOne s
     | kPlaylistMode_RepeatOne \<Rightarrow> plm_SetRepeatMode kPlaylistMode_RepeatAll s
     | kPlaylistMode_RepeatAll \<Rightarrow> plm_SetRepeatMode kPlaylistMode_RepeatNone s)"

definition plm_ToggleShuffleMode :: "plm \<Rightarrow> (error \<times> plm) option" where
  "plm_ToggleShuffleMode s = plm_SetShuffleMode (\<not> m_shuffle s) s"

subsection \<open>The invariant of the lists\<close>

text \<open>The code keeps list lengths and positions in \<open>int\<close> variables at places.\<close>

abbreviation kMaxItems :: nat where
  "kMaxItems \<equiv> 2147483648"

definition plm_lists_ok :: "plm \<Rightarrow> bool" where
  "plm_lists_ok s \<longleftrightarrow>
     distinct (m_masterList s) \<and> distinct (m_externalList s) \<and>
     set (m_masterList s) \<inter> set (m_externalList s) = {} \<and>
     NULL \<notin> set (m_masterList s) \<and> NULL \<notin> set (m_externalList s) \<and>
     length (m_masterList s) < kMaxItems \<and> length (m_externalList s) < kMaxItems \<and>
     mset (m_shuffleList s) = mset (m_masterList s) \<and>
     m_activeList s \<noteq> PortableList \<and>
     (m_activeList s = MasterList \<longleftrightarrow> m_playlistKey s = kPlaylistKey_MasterPlaylist) \<and>
     (if m_masterList s = [] then m_current s = kInvalidIndex
      else m_current s < length (m_masterList s))"

text \<open>The list \<open>m_current\<close> is a position of.\<close>

definition plm_play_list :: "plm \<Rightarrow> ptr list" where
  "plm_play_list s = (if m_shuffle s then m_shuffleList s else m_masterList s)"

lemma plm_lists_okD:
  assumes "plm_lists_ok s"
  shows "distinct (m_masterList s)" and "distinct (m_externalList s)"
    and "set (m_masterList s) \<inter> set (m_externalList s) = {}"
    and "NULL \<notin> set (m_masterList s)" and "NULL \<notin> set (m_externalList s)"
    and "length (m_masterList s) < kMaxItems" and "length (m_externalList s) < kMaxItems"
    and "mset (m_shuffleList s) = mset (m_masterList s)"
    and "m_activeList s \<noteq> PortableList"
    and "m_activeList s = MasterList \<longleftrightarrow> m_playlistKey s = kPlaylistKey_MasterPlaylist"
    and "m_masterList s = [] \<Longrightarrow> m_current s = kInvalidIndex"
    and "m_masterList s \<noteq> [] \<Longrightarrow> m_current s < length (m_masterList s)"
  using assms by (simp_all add: plm_lists_ok_def)

lemma plm_shuffle_list:
  assumes "plm_lists_ok s"
  shows "set (m_shuffleList s) = set (m_masterList s)"
    and "length (m_shuffleList s) = length (m_masterList s)" and "distinct (m_shuffleList s)"
  using plm_lists_okD(1,8) [OF assms] mset_eq_setD mset_eq_length mset_eq_imp_distinct_iff
  by blast+

lemma plm_play_list:
  assumes "plm_lists_ok s"
  shows "set (plm_play_list s) = set (m_masterList s)"
    and "length (plm_play_list s) = length (m_masterList s)" and "distinct (plm_play_list s)"
    and "NULL \<notin> set (plm_play_list s)"
  using plm_shuffle_list [OF assms] plm_lists_okD(1,4) [OF assms] by (simp_all add: plm_play_list_def)

lemma plm_active_master: "m_activeList s = MasterList \<Longrightarrow> plm_active s = m_masterList s"
  and plm_active_external: "m_activeList s = ExternalList \<Longrightarrow> plm_active s = m_externalList s"
  by (simp_all add: plm_active_def)

lemma plm_active_ok:
  assumes "plm_lists_ok s"
  shows "distinct (plm_active s)" and "NULL \<notin> set (plm_active s)"
    and "length (plm_active s) < kMaxItems"
  using plm_lists_okD [OF assms] by (cases "m_activeList s"; simp add: plm_active_def)+

lemma plm_GetCurrentItem_play:
  "m_masterList s \<noteq> [] \<Longrightarrow> plm_GetCurrentItem s = vec_at (plm_play_list s) (m_current s)"
  by (simp add: plm_GetCurrentItem_def plm_play_list_def)

lemma plm_GetCurrentItem_Nil [simp]: "m_masterList s = [] \<Longrightarrow> plm_GetCurrentItem s = Some NULL"
  by (simp add: plm_GetCurrentItem_def)

text \<open>On a well-formed state the current item is defined, and null exactly on an empty list.\<close>

lemma plm_GetCurrentItem_ok:
  assumes ok: "plm_lists_ok s"
  shows "\<exists>p. plm_GetCurrentItem s = Some p \<and> (if m_masterList s = [] then p = NULL
     else p \<noteq> NULL \<and> p \<in> set (m_masterList s) \<and> p = plm_play_list s ! m_current s)"
proof (cases "m_masterList s = []")
  case False
  then have c: "m_current s < length (plm_play_list s)"
    using plm_lists_okD(12) [OF ok] plm_play_list(2) [OF ok] by simp
  then have mem: "plm_play_list s ! m_current s \<in> set (plm_play_list s)" by simp
  then have "plm_play_list s ! m_current s \<noteq> NULL" using plm_play_list(4) [OF ok] by metis
  then show ?thesis
    using mem plm_play_list(1) [OF ok] False c by (simp add: plm_GetCurrentItem_play)
qed simp

text \<open>Operations that change the position, the modes and the log only.\<close>

lemma plm_HasAnotherItem_iff:
  assumes ok: "plm_lists_ok s" and ne: "m_masterList s \<noteq> []" and w: "kInvalidIndex < w"
  shows "plm_HasAnotherItem w s \<longleftrightarrow> m_repeatMode s \<noteq> kPlaylistMode_RepeatNone \<or>
     Suc (m_current s) < length (m_masterList s)"
proof -
  let ?n = "length (m_masterList s)"
  have n: "0 < ?n" using ne by simp
  then have sum: "?n + (w - 1) = (?n - 1) + w" and lt: "?n - 1 < w"
    using w plm_lists_okD(6) [OF ok] by linarith+
  have md: "(?n + (w - 1)) mod w = ?n - 1" unfolding sum using lt by simp
  have "m_current s < ?n - 1 \<longleftrightarrow> Suc (m_current s) < ?n" using n by linarith
  then show ?thesis unfolding plm_HasAnotherItem_def md by (cases "m_repeatMode s") auto
qed

lemma plm_lists_ok_emit [simp]: "plm_lists_ok (plm_emit e s) = plm_lists_ok s"
  by (simp add: plm_lists_ok_def plm_emit_def)

lemma plm_lists_ok_current:
  "plm_lists_ok s \<Longrightarrow> i < length (m_masterList s) \<Longrightarrow> plm_lists_ok (s\<lparr>m_current := i\<rparr>)"
  by (auto simp: plm_lists_ok_def)

lemma plm_GetCurrentItem_emit [simp]: "plm_GetCurrentItem (plm_emit e s) = plm_GetCurrentItem s"
  by (simp add: plm_GetCurrentItem_def plm_emit_def)

lemma plm_InternalSetCurrentIndex_ok:
  assumes ok: "plm_lists_ok s" and i: "i < length (m_masterList s)"
  shows "plm_InternalSetCurrentIndex i s = Some (plm_emit
      (PlaylistCurrentItemInfoEvent (plm_play_list s ! i)) (s\<lparr>m_current := i\<rparr>))"
proof -
  have "i < length (plm_play_list s)" using i plm_play_list(2) [OF ok] by simp
  moreover have "m_masterList s \<noteq> []" using i by auto
  moreover have "i \<noteq> kInvalidIndex" using i plm_lists_okD(6) [OF ok] by simp
  moreover have "plm_play_list (s\<lparr>m_current := i\<rparr>) = plm_play_list s" by (simp add: plm_play_list_def)
  ultimately show ?thesis
    by (simp add: plm_InternalSetCurrentIndex_def plm_GetCurrentItem_play Let_def)
qed

lemma plm_InternalSetCurrentIndex_invalid [simp]:
  "plm_InternalSetCurrentIndex kInvalidIndex s = Some (s\<lparr>m_current := kInvalidIndex\<rparr>)"
  by (simp add: plm_InternalSetCurrentIndex_def)

text \<open>The position of the item with master index \<open>i\<close> in the list that is played.\<close>

definition plm_play_index :: "plm \<Rightarrow> nat \<Rightarrow> nat" where
  "plm_play_index s i = (if m_shuffle s then index_loop (m_masterList s ! i) (m_shuffleList s) 0 else i)"

lemma plm_play_index:
  assumes ok: "plm_lists_ok s" and i: "i < length (m_masterList s)"
  shows "plm_play_index s i < length (m_masterList s)"
    and "plm_play_list s ! plm_play_index s i = m_masterList s ! i"
proof -
  have "m_masterList s ! i \<in> set (m_shuffleList s)" using i plm_shuffle_list(1) [OF ok] by simp
  moreover have "length (m_shuffleList s) \<le> kInvalidIndex"
    using plm_shuffle_list(2) [OF ok] plm_lists_okD(6) [OF ok] by simp
  ultimately show "plm_play_index s i < length (m_masterList s)"
    and "plm_play_list s ! plm_play_index s i = m_masterList s ! i"
    using i index_loop_mem [of "m_masterList s ! i" "m_shuffleList s"] plm_shuffle_list(2) [OF ok]
    by (simp_all add: plm_play_index_def plm_play_list_def)
qed

lemma plm_SetCurrentIndex_ok:
  assumes ok: "plm_lists_ok s" and m: "m_activeList s = MasterList" and i: "i < length (m_masterList s)"
  shows "plm_SetCurrentIndex i s = Some (kError_NoErr, plm_emit
      (PlaylistCurrentItemInfoEvent (m_masterList s ! i)) (s\<lparr>m_current := plm_play_index s i\<rparr>))"
proof -
  have len: "length (plm_active s) < kMaxItems" and a: "plm_active s = m_masterList s"
    using plm_active_ok(3) [OF ok] plm_active_master [OF m] by simp_all
  have nn: "m_masterList s ! i \<noteq> NULL" using plm_lists_okD(4) [OF ok] i by (metis nth_mem)
  have "(if m_shuffle s
       then do { p \<leftarrow> plm_ItemAt s i; plm_InternalIndexOf (m_shuffleList s) p }
       else Some i) = Some (plm_play_index s i)"
    using i len nn by (simp add: a plm_ItemAt_simps plm_play_index_def)
  moreover have "plm_CheckIndex s i = i" using i len by (simp add: a plm_CheckIndex_simps)
  moreover note plm_InternalSetCurrentIndex_ok [OF ok plm_play_index(1) [OF ok i]]
    plm_play_index(2) [OF ok i]
  ultimately show ?thesis by (simp add: plm_SetCurrentIndex_def Let_def)
qed

lemma plm_SetCurrentIndex_keeps:
  assumes "plm_lists_ok s" and "m_activeList s = MasterList" and "i < length (m_masterList s)"
  shows "plm_lists_ok (plm_emit e (s\<lparr>m_current := plm_play_index s i\<rparr>))"
  using plm_lists_ok_current [OF assms(1) plm_play_index(1) [OF assms(1,3)]] by simp

lemma plm_ShuffleIt_ok:
  assumes ok: "plm_lists_ok s" and run: "plm_ShuffleIt s = Some t"
  shows "\<exists>ys rs. t = s\<lparr>m_shuffleList := ys, plm_rand := rs\<rparr> \<and> mset ys = mset (m_shuffleList s)
    \<and> plm_lists_ok t"
proof -
  from run obtain ys rs where t: "t = s\<lparr>m_shuffleList := ys, plm_rand := rs\<rparr>"
    and sh: "ShuffleIt (m_shuffleList s) (plm_rand s) = Some (ys, rs)"
    by (auto simp: plm_ShuffleIt_def split: Option.bind_splits)
  have "mset ys = mset (m_shuffleList s)" by (rule ShuffleIt_mset [OF sh])
  moreover from this have "plm_lists_ok t" using ok t by (simp add: plm_lists_ok_def)
  ultimately show ?thesis using t by blast
qed

subsection \<open>Next and previous\<close>

text \<open>The position \<open>GotoNextItem\<close> and \<open>GotoPreviousItem\<close> move to, of \<open>n\<close> items.\<close>

definition next_index :: "bool \<Rightarrow> repeat_mode \<Rightarrow> nat \<Rightarrow> nat \<Rightarrow> nat" where
  "next_index userAction mode n i =
     (if mode = kPlaylistMode_RepeatOne \<and> \<not> userAction then i
      else if Suc i < n then Suc i
      else if mode = kPlaylistMode_RepeatAll \<or> userAction then 0 else i)"

definition previous_index :: "bool \<Rightarrow> repeat_mode \<Rightarrow> nat \<Rightarrow> nat \<Rightarrow> nat" where
  "previous_index userAction mode n i =
     (if mode = kPlaylistMode_RepeatOne \<and> \<not> userAction then i
      else if i \<noteq> 0 then i - 1
      else if mode = kPlaylistMode_RepeatAll \<or> userAction then n - 1 else i)"

lemma plm_count: "plm_lists_ok s \<Longrightarrow> u32 (length (m_masterList s)) = length (m_masterList s)"
  by (simp add: plm_lists_ok_def)

text \<open>No reshuffle: the list is not in shuffle mode, or the step does not wrap around.\<close>

lemma plm_GotoNextItem_ok:
  fixes userAction :: bool
  assumes ok: "plm_lists_ok s" and ne: "m_masterList s \<noteq> []"
    and nosh: "m_shuffle s \<Longrightarrow> Suc (m_current s) < length (m_masterList s)"
  defines "i \<equiv> next_index userAction (m_repeatMode s) (length (m_masterList s)) (m_current s)"
  shows "plm_GotoNextItem userAction s = Some (kError_NoErr, plm_emit
      (PlaylistCurrentItemInfoEvent (plm_play_list s ! i)) (s\<lparr>m_current := i\<rparr>))"
    and "i < length (m_masterList s)"
proof -
  have c: "m_current s < length (m_masterList s)" using plm_lists_okD(12) [OF ok ne] .
  then have u: "u32 (m_current s + 1) = Suc (m_current s)" using plm_lists_okD(6) [OF ok] by simp
  show i: "i < length (m_masterList s)" using c by (auto simp: i_def next_index_def)
  have "(if m_repeatMode s \<noteq> kPlaylistMode_RepeatOne \<or> userAction
      then let index = u32 (m_current s + 1)
           in if index \<ge> length (m_masterList s) \<and> (m_repeatMode s = kPlaylistMode_RepeatAll \<or> userAction)
              then (if m_shuffle s then do { s1 \<leftarrow> plm_ShuffleIt s; Some (0, s1) } else Some (0, s))
              else if index \<ge> length (m_masterList s) then Some (m_current s, s)
              else Some (index, s)
      else Some (m_current s, s)) = Some (i, s)"
    using nosh u by (auto simp: i_def next_index_def Let_def)
  then show "plm_GotoNextItem userAction s = Some (kError_NoErr, plm_emit
      (PlaylistCurrentItemInfoEvent (plm_play_list s ! i)) (s\<lparr>m_current := i\<rparr>))"
    using plm_InternalSetCurrentIndex_ok [OF ok i] ne
    by (simp only: plm_GotoNextItem_def plm_count [OF ok]) simp
qed

lemma plm_GotoPreviousItem_ok:
  fixes userAction :: bool
  assumes ok: "plm_lists_ok s" and ne: "m_masterList s \<noteq> []"
    and nosh: "m_shuffle s \<Longrightarrow> 0 < m_current s"
  defines "i \<equiv> previous_index userAction (m_repeatMode s) (length (m_masterList s)) (m_current s)"
  shows "plm_GotoPreviousItem userAction s = Some (kError_NoErr, plm_emit
      (PlaylistCurrentItemInfoEvent (plm_play_list s ! i)) (s\<lparr>m_current := i\<rparr>))"
    and "i < length (m_masterList s)"
proof -
  have c: "m_current s < length (m_masterList s)" using plm_lists_okD(12) [OF ok ne] .
  show i: "i < length (m_masterList s)" using c by (auto simp: i_def previous_index_def)
  have "(if m_repeatMode s \<noteq> kPlaylistMode_RepeatOne \<or> userAction
       then if m_current s = 0 \<and> (m_repeatMode s = kPlaylistMode_RepeatAll \<or> userAction)
            then (if m_shuffle s
                  then do { s1 \<leftarrow> plm_ShuffleIt s; Some (length (m_masterList s) - 1, s1) }
                  else Some (length (m_masterList s) - 1, s))
            else if m_current s \<noteq> 0 then Some (m_current s - 1, s)
            else Some (m_current s, s)
       else Some (m_current s, s)) = Some (i, s)"
    using nosh by (auto simp: i_def previous_index_def)
  then show "plm_GotoPreviousItem userAction s = Some (kError_NoErr, plm_emit
      (PlaylistCurrentItemInfoEvent (plm_play_list s ! i)) (s\<lparr>m_current := i\<rparr>))"
    using plm_InternalSetCurrentIndex_ok [OF ok i] ne
    by (simp only: plm_GotoPreviousItem_def plm_count [OF ok] Let_def) simp
qed

text \<open>With a reshuffle, the invariant is kept as well.\<close>

lemma plm_Goto_reshuffle:
  assumes ok: "plm_lists_ok s" and sh: "plm_ShuffleIt s = Some t" and i: "i < length (m_masterList s)"
  shows "\<exists>u. plm_InternalSetCurrentIndex i t = Some u \<and> plm_lists_ok u"
proof -
  from plm_ShuffleIt_ok [OF ok sh] have t: "plm_lists_ok t" "m_masterList t = m_masterList s" by auto
  then show ?thesis
    using plm_InternalSetCurrentIndex_ok [OF t(1)] plm_lists_ok_current [OF t(1)] i by simp
qed

lemma plm_GotoNextItem_keeps:
  assumes ok: "plm_lists_ok s" and run: "plm_GotoNextItem userAction s = Some (e, t)"
  shows "plm_lists_ok t"
proof (cases "m_masterList s = [] \<or> (m_shuffle s \<longrightarrow> Suc (m_current s) < length (m_masterList s))")
  case True
  then consider "m_masterList s = []" | "m_masterList s \<noteq> []"
      "m_shuffle s \<longrightarrow> Suc (m_current s) < length (m_masterList s)" by blast
  then show ?thesis
  proof cases
    case 1
    then show ?thesis using ok run by (auto simp: plm_GotoNextItem_def plm_lists_ok_def)
  next
    case 2
    then show ?thesis
      using plm_GotoNextItem_ok [OF ok, of userAction] run plm_lists_ok_current [OF ok] by auto
  qed
next
  case False
  have i: "0 < length (m_masterList s)" "m_current s < length (m_masterList s)"
    using False plm_lists_okD(12) [OF ok] by auto
  show ?thesis
    using run False plm_Goto_reshuffle [OF ok _ i(1)] plm_InternalSetCurrentIndex_ok [OF ok i(2)]
      plm_lists_ok_current [OF ok i(2)] i plm_lists_okD(6) [OF ok]
    by (fastforce simp: plm_GotoNextItem_def Let_def split: if_splits Option.bind_splits)
qed

lemma plm_GotoPreviousItem_keeps:
  assumes ok: "plm_lists_ok s" and run: "plm_GotoPreviousItem userAction s = Some (e, t)"
  shows "plm_lists_ok t"
proof (cases "m_masterList s = [] \<or> (m_shuffle s \<longrightarrow> 0 < m_current s)")
  case True
  then consider "m_masterList s = []" | "m_masterList s \<noteq> []" "m_shuffle s \<longrightarrow> 0 < m_current s"
    by blast
  then show ?thesis
  proof cases
    case 1
    then show ?thesis using ok run by (auto simp: plm_GotoPreviousItem_def plm_lists_ok_def)
  next
    case 2
    then show ?thesis
      using plm_GotoPreviousItem_ok [OF ok, of userAction] run plm_lists_ok_current [OF ok] by auto
  qed
next
  case False
  have i: "length (m_masterList s) - 1 < length (m_masterList s)" "m_current s < length (m_masterList s)"
    using False plm_lists_okD(12) [OF ok] by auto
  show ?thesis
    using run False plm_Goto_reshuffle [OF ok _ i(1)] plm_InternalSetCurrentIndex_ok [OF ok i(2)]
      plm_lists_ok_current [OF ok i(2)] plm_count [OF ok]
    by (fastforce simp: plm_GotoPreviousItem_def Let_def split: if_splits Option.bind_splits)
qed

text \<open>Pressing next \<open>n\<close> times, noting the current item before each.\<close>

fun plm_walk :: "nat \<Rightarrow> plm \<Rightarrow> (ptr list \<times> plm) option" where
  "plm_walk 0 s = Some ([], s)"
| "plm_walk (Suc 0) s = do { p \<leftarrow> plm_GetCurrentItem s; Some ([p], s) }"
| "plm_walk (Suc (Suc k)) s = do {
     p \<leftarrow> plm_GetCurrentItem s;
     (_, t) \<leftarrow> plm_GotoNextItem True s;
     (ps, u) \<leftarrow> plm_walk (Suc k) t;
     Some (p # ps, u)
   }"

lemma plm_walk_play_list:
  "plm_lists_ok s \<Longrightarrow> m_current s + Suc k \<le> length (m_masterList s) \<Longrightarrow>
   \<exists>t. plm_walk (Suc k) s = Some (take (Suc k) (drop (m_current s) (plm_play_list s)), t)"
proof (induction k arbitrary: s)
  case 0
  then have "m_current s < length (plm_play_list s)" "m_masterList s \<noteq> []"
    using plm_play_list(2) by fastforce+
  then show ?case by (simp add: plm_GetCurrentItem_play take_Suc_conv_app_nth)
next
  case (Suc k)
  have ne: "m_masterList s \<noteq> []" and lt: "Suc (m_current s) < length (m_masterList s)"
    using Suc.prems(2) by auto
  let ?i = "Suc (m_current s)"
  let ?t = "plm_emit (PlaylistCurrentItemInfoEvent (plm_play_list s ! ?i)) (s\<lparr>m_current := ?i\<rparr>)"
  have "next_index True (m_repeatMode s) (length (m_masterList s)) (m_current s) = ?i"
    using lt by (simp add: next_index_def)
  then have step: "plm_GotoNextItem True s = Some (kError_NoErr, ?t)"
    using plm_GotoNextItem_ok(1) [OF Suc.prems(1) ne, of True] lt by simp
  have t: "plm_lists_ok ?t" "m_current ?t = ?i" "plm_play_list ?t = plm_play_list s"
    "m_masterList ?t = m_masterList s"
    using plm_lists_ok_current [OF Suc.prems(1) lt] by (simp_all add: plm_simps plm_play_list_def)
  from Suc.IH [OF t(1)] t Suc.prems(2) obtain u where
    u: "plm_walk (Suc k) ?t = Some (take (Suc k) (drop ?i (plm_play_list s)), u)" by auto
  have c: "m_current s < length (plm_play_list s)" using lt plm_play_list(2) [OF Suc.prems(1)] by simp
  then have "take (Suc (Suc k)) (drop (m_current s) (plm_play_list s)) =
      plm_play_list s ! m_current s # take (Suc k) (drop ?i (plm_play_list s))"
    by (metis Cons_nth_drop_Suc take_Suc_Cons)
  then show ?case using step u c ne by (simp add: plm_GetCurrentItem_play)
qed

subsection \<open>Shuffle mode\<close>

lemma plm_SetShuffleMode_master:
  assumes ok: "plm_lists_ok s" and m: "m_activeList s = MasterList"
    and run: "plm_SetShuffleMode b s = Some (e, t)"
  shows "plm_lists_ok t" and "m_shuffle t = b" and "plm_GetCurrentItem t = plm_GetCurrentItem s"
    and "m_masterList t = m_masterList s" and "e = kError_NoErr"
proof -
  obtain p where p: "plm_GetCurrentItem s = Some p"
    and cases: "if m_masterList s = [] then p = NULL
     else p \<noteq> NULL \<and> p \<in> set (m_masterList s) \<and> p = plm_play_list s ! m_current s"
    using plm_GetCurrentItem_ok [OF ok] by blast
  let ?s1 = "s\<lparr>m_shuffle := b\<rparr>"
  have ok1: "plm_lists_ok ?s1" using ok by (simp add: plm_lists_ok_def)
  have len: "length (m_masterList s) \<le> kInvalidIndex" using plm_lists_okD(6) [OF ok] by simp
  show e: "e = kError_NoErr" using run by (auto simp: plm_SetShuffleMode_def Let_def split: Option.bind_splits)
  have "\<exists>s2 i. t = plm_emit (PlaylistShuffleEvent b) (s2\<lparr>m_current := i\<rparr>) \<and> plm_lists_ok s2 \<and>
      m_shuffle s2 = b \<and> m_masterList s2 = m_masterList s \<and>
      (if m_masterList s = [] then i = m_current s
       else i < length (m_masterList s) \<and> plm_play_list s2 ! i = p)"
  proof (cases b)
    case True
    with run p obtain s2 where sh: "plm_ShuffleIt ?s1 = Some s2"
      by (auto simp: plm_SetShuffleMode_def Let_def split: Option.bind_splits)
    obtain ys rs where s2: "s2 = ?s1\<lparr>m_shuffleList := ys, plm_rand := rs\<rparr>" and ok2: "plm_lists_ok s2"
      using plm_ShuffleIt_ok [OF ok1 sh] by blast
    show ?thesis
    proof (cases "m_masterList s = []")
      case empty: True
      then have "t = plm_emit (PlaylistShuffleEvent b) (s2\<lparr>m_current := m_current s\<rparr>)"
        using run p cases sh True s2 by (simp add: plm_SetShuffleMode_def Let_def)
      then show ?thesis using ok2 empty True s2 by (intro exI [of _ s2]) auto
    next
      case False
      then have pm: "p \<noteq> NULL" "p \<in> set (m_shuffleList s2)"
        using cases plm_shuffle_list(1) [OF ok2] s2 by auto
      let ?i = "index_loop p (m_shuffleList s2) 0"
      have l2: "length (m_shuffleList s2) = length (m_masterList s)"
        using plm_shuffle_list(2) [OF ok2] s2 by simp
      have "t = plm_emit (PlaylistShuffleEvent b) (s2\<lparr>m_current := ?i\<rparr>)"
        using run p pm(1) sh True s2 by (simp add: plm_SetShuffleMode_def Let_def)
      moreover have "?i < length (m_masterList s)" "m_shuffleList s2 ! ?i = p"
        using index_loop_mem [OF pm(2)] l2 len by simp_all
      ultimately show ?thesis
        using ok2 False True s2 by (intro exI [of _ s2] exI [of _ ?i]) (simp add: plm_play_list_def)
    qed
  next
    case False
    show ?thesis
    proof (cases "m_masterList s = []")
      case empty: True
      then have "t = plm_emit (PlaylistShuffleEvent b) (?s1\<lparr>m_current := m_current s\<rparr>)"
        using run p cases False by (simp add: plm_SetShuffleMode_def Let_def)
      then show ?thesis using ok1 empty False by (intro exI [of _ ?s1]) auto
    next
      case nonempty: False
      let ?i = "index_loop p (m_masterList s) 0"
      have a: "plm_active ?s1 = m_masterList s" using m by (simp add: plm_active_def)
      have pm: "p \<noteq> NULL" "p \<in> set (m_masterList s)" using cases nonempty by auto
      have "t = plm_emit (PlaylistShuffleEvent b) (?s1\<lparr>m_current := ?i\<rparr>)"
        using run p pm(1) False a by (simp add: plm_SetShuffleMode_def Let_def)
      then show ?thesis
        using ok1 nonempty False index_loop_mem [OF pm(2) len]
        by (intro exI [of _ ?s1] exI [of _ ?i]) (simp add: plm_play_list_def)
    qed
  qed
  then obtain s2 i where t: "t = plm_emit (PlaylistShuffleEvent b) (s2\<lparr>m_current := i\<rparr>)"
    and s2: "plm_lists_ok s2" "m_shuffle s2 = b" "m_masterList s2 = m_masterList s"
    and i: "if m_masterList s = [] then i = m_current s
       else i < length (m_masterList s) \<and> plm_play_list s2 ! i = p" by blast
  show "m_shuffle t = b" "m_masterList t = m_masterList s" using t s2 by (simp_all add: plm_simps)
  show "plm_lists_ok t"
  proof (cases "m_masterList s = []")
    case True
    then show ?thesis using t s2 i plm_lists_okD(11) [OF s2(1)] plm_lists_okD(11) [OF ok]
      by (simp add: plm_lists_ok_def plm_simps)
  next
    case False
    then show ?thesis using t s2 i plm_lists_ok_current [OF s2(1)] by simp
  qed
  show "plm_GetCurrentItem t = plm_GetCurrentItem s"
  proof (cases "m_masterList s = []")
    case True
    then show ?thesis using t s2 by (simp add: plm_GetCurrentItem_def plm_simps)
  next
    case False
    then have "plm_play_list (s2\<lparr>m_current := i\<rparr>) = plm_play_list s2" by (simp add: plm_play_list_def)
    then show ?thesis
      using False t s2 i p plm_play_list(2) [OF s2(1)] by (simp add: plm_GetCurrentItem_play)
  qed
qed

subsection \<open>Properties\<close>

text \<open>
  \<open>SetCurrentIndex\<close> with a valid index makes the item at that index current, in shuffle
  mode as well: \<open>GetCurrentItem\<close> returns it, \<open>GetCurrentIndex\<close> the index, and the invariant
  is kept. With an index past the end of a non-empty list the code asserts in shuffle mode,
  and otherwise reports success and leaves a position \<open>GetCurrentItem\<close> reads out of bounds.
\<close>

theorem plm_SetCurrentIndex_current:
  assumes ok: "plm_lists_ok s" and m: "m_activeList s = MasterList" and ne: "m_masterList s \<noteq> []"
  shows "if i < length (m_masterList s)
    then \<exists>t. plm_SetCurrentIndex i s = Some (kError_NoErr, t) \<and> plm_lists_ok t \<and>
      plm_GetCurrentItem t = Some (m_masterList s ! i) \<and> plm_GetCurrentIndex t = Some i
    else if m_shuffle s then plm_SetCurrentIndex i s = None
    else \<exists>t. plm_SetCurrentIndex i s = Some (kError_NoErr, t) \<and> plm_GetCurrentItem t = None"
proof (cases "i < length (m_masterList s)")
  case True
  let ?t = "plm_emit (PlaylistCurrentItemInfoEvent (m_masterList s ! i))
    (s\<lparr>m_current := plm_play_index s i\<rparr>)"
  have t: "plm_lists_ok ?t" by (rule plm_SetCurrentIndex_keeps [OF ok m True])
  have play: "plm_play_list ?t = plm_play_list s" by (simp add: plm_play_list_def plm_simps)
  note pi = plm_play_index [OF ok True]
  have cur: "plm_GetCurrentItem ?t = Some (m_masterList s ! i)"
    using pi plm_play_list(2) [OF ok] ne
    by (subst plm_GetCurrentItem_play) (simp_all add: play plm_simps)
  have "index_loop (m_masterList s ! i) (m_masterList s) 0 = i"
    using plm_lists_okD(1,6) [OF ok] True by (simp add: index_loop_nth)
  moreover have "m_masterList s ! i \<noteq> NULL" using plm_lists_okD(4) [OF ok] True by (metis nth_mem)
  moreover have "plm_active ?t = m_masterList s" using m by (simp add: plm_active_def plm_emit_def)
  ultimately have "plm_GetCurrentIndex ?t = Some i"
    using ne cur pi plm_shuffle_list(2) [OF ok]
    by (auto simp: plm_GetCurrentIndex_def plm_GetCurrentItem_def plm_play_index_def plm_simps)
  then show ?thesis using plm_SetCurrentIndex_ok [OF ok m True] t cur True by simp
next
  case False
  then have ci: "plm_CheckIndex s i = kInvalidIndex"
    using plm_active_ok(3) [OF ok] plm_active_master [OF m] by (simp add: plm_CheckIndex_simps)
  have at: "plm_ItemAt s kInvalidIndex = Some NULL"
    using plm_active_ok(3) [OF ok] by (simp add: plm_ItemAt_simps)
  show ?thesis
  proof (cases "m_shuffle s")
    case True
    then show ?thesis using False ci at by (simp add: plm_SetCurrentIndex_def Let_def)
  next
    case nosh: False
    then show ?thesis
      using False ci ne plm_lists_okD(6) [OF ok]
      by (simp add: plm_SetCurrentIndex_def plm_GetCurrentItem_def Let_def vec_at_def)
  qed
qed

text \<open>A playlist of three items, the second one current, and the same list in shuffle mode.\<close>

definition three_items :: plm where
  "three_items = (plm_new False kPlaylistMode_RepeatNone [] [] [] [])\<lparr>
     plm_heap := [1 \<mapsto> new_item ''a'' None, 2 \<mapsto> new_item ''b'' None, 3 \<mapsto> new_item ''c'' None],
     plm_next := 4, m_masterList := [1, 2, 3], m_shuffleList := [3, 1, 2], m_current := 1\<rparr>"

lemma three_items_ok: "plm_lists_ok three_items"
  by (auto simp: plm_lists_ok_def three_items_def plm_new_def)

lemma three_items_fields [simp]:
  "m_masterList three_items = [1, 2, 3]" "m_shuffleList three_items = [3, 1, 2]"
  "m_current three_items = 1" "m_shuffle three_items = False" "m_activeList three_items = MasterList"
  "m_externalList three_items = []" "m_repeatMode three_items = kPlaylistMode_RepeatNone"
  by (simp_all add: three_items_def plm_new_def)

theorem plm_SetCurrentIndex_current_witness:
  "(\<exists>t. plm_SetCurrentIndex 2 three_items = Some (kError_NoErr, t) \<and> plm_GetCurrentItem t = Some 3) \<and>
   (\<exists>t. plm_SetCurrentIndex 3 three_items = Some (kError_NoErr, t) \<and> plm_GetCurrentItem t = None)"
  using plm_SetCurrentIndex_current [OF three_items_ok, of 2]
    plm_SetCurrentIndex_current [OF three_items_ok, of 3] by auto

text \<open>
  C23. Pressing next walks through the list that is played: from the first position, the
  current items before \<open>n\<close> presses are the \<open>n\<close> items of the master list, each once; in
  shuffle mode in the shuffled order.
\<close>

theorem plm_walk_visits_all:
  assumes ok: "plm_lists_ok s" and ne: "m_masterList s \<noteq> []" and start: "m_current s = 0"
  shows "\<exists>ps t. plm_walk (length (m_masterList s)) s = Some (ps, t) \<and>
    ps = (if m_shuffle s then m_shuffleList s else m_masterList s) \<and> mset ps = mset (m_masterList s)"
proof -
  obtain k where k: "length (m_masterList s) = Suc k" using ne by (cases "m_masterList s") auto
  then obtain t where "plm_walk (Suc k) s = Some (take (Suc k) (plm_play_list s), t)"
    using plm_walk_play_list [OF ok, of k] start by auto
  moreover have "take (Suc k) (plm_play_list s) = plm_play_list s"
    using plm_play_list(2) [OF ok] k by simp
  ultimately show ?thesis using k plm_lists_okD(8) [OF ok] by (simp add: plm_play_list_def)
qed

theorem plm_walk_visits_all_witness:
  "\<exists>t. plm_walk 3 (three_items\<lparr>m_current := 0, m_shuffle := True\<rparr>) = Some ([3, 1, 2], t)"
proof -
  let ?s = "three_items\<lparr>m_current := 0, m_shuffle := True\<rparr>"
  have "plm_lists_ok ?s" using three_items_ok by (simp add: plm_lists_ok_def)
  from plm_walk_visits_all [OF this] show ?thesis by (simp add: numeral_3_eq_3)
qed

text \<open>
  Next and previous by the user are inverse to each other in the unshuffled order, at
  the ends too, and \<open>HasAnotherItem\<close> is true exactly when the player's own next moves on or a
  repeat mode is set.
\<close>

theorem plm_next_previous_inverse:
  assumes ok: "plm_lists_ok s" and ne: "m_masterList s \<noteq> []" and nosh: "\<not> m_shuffle s"
    and w: "kInvalidIndex < w"
  shows "(\<exists>t u. plm_GotoNextItem True s = Some (kError_NoErr, t) \<and>
      plm_GotoPreviousItem True t = Some (kError_NoErr, u) \<and> m_current u = m_current s) \<and>
    (\<exists>t. plm_GotoNextItem False s = Some (kError_NoErr, t) \<and>
      (plm_HasAnotherItem w s \<longleftrightarrow>
         m_repeatMode s \<noteq> kPlaylistMode_RepeatNone \<or> m_current t = Suc (m_current s)))"
proof -
  let ?n = "length (m_masterList s)"
  have c: "m_current s < ?n" by (rule plm_lists_okD(12) [OF ok ne])
  let ?i = "next_index True (m_repeatMode s) ?n (m_current s)"
  let ?t = "plm_emit (PlaylistCurrentItemInfoEvent (plm_play_list s ! ?i)) (s\<lparr>m_current := ?i\<rparr>)"
  have t: "plm_GotoNextItem True s = Some (kError_NoErr, ?t)" and i: "?i < ?n"
    using plm_GotoNextItem_ok [OF ok ne, of True] nosh by simp_all
  have "plm_lists_ok ?t" using plm_lists_ok_current [OF ok i] by simp
  then have "\<exists>u. plm_GotoPreviousItem True ?t = Some (kError_NoErr, u) \<and>
      m_current u = previous_index True (m_repeatMode s) ?n ?i"
    using plm_GotoPreviousItem_ok(1) [of ?t True] ne nosh by (simp add: plm_simps)
  moreover have "previous_index True (m_repeatMode s) ?n ?i = m_current s"
    using c by (auto simp: next_index_def previous_index_def)
  moreover have "\<exists>t. plm_GotoNextItem False s = Some (kError_NoErr, t) \<and>
      m_current t = next_index False (m_repeatMode s) ?n (m_current s)"
    using plm_GotoNextItem_ok(1) [OF ok ne, of False] nosh by (simp add: plm_simps)
  ultimately show ?thesis
    using t c unfolding plm_HasAnotherItem_iff [OF ok ne w]
    by (cases "m_repeatMode s") (auto simp: next_index_def)
qed

theorem plm_next_previous_inverse_witness:
  "plm_HasAnotherItem 18446744073709551616 three_items \<and>
   (\<exists>t. plm_GotoNextItem False three_items = Some (kError_NoErr, t) \<and> m_current t = 2)"
  using plm_next_previous_inverse [OF three_items_ok, of 18446744073709551616]
  by (auto simp: plm_HasAnotherItem_def)

text \<open>
  Switching the shuffle mode while the master list is active keeps the item that is
  playing and the invariant; the switch only waits for the shuffle. While another list is
  active, switching it off looks the current item up in that list: the position becomes
  \<open>kInvalidIndex\<close>, and the next \<open>GetCurrentItem\<close> reads out of bounds.
\<close>

theorem plm_SetShuffleMode_keeps_current:
  assumes ok: "plm_lists_ok s" and run: "plm_SetShuffleMode b s = Some (e, t)"
  shows "(m_activeList s = MasterList \<longrightarrow>
      plm_lists_ok t \<and> m_shuffle t = b \<and> plm_GetCurrentItem t = plm_GetCurrentItem s) \<and>
    (m_activeList s \<noteq> MasterList \<and> \<not> b \<and> m_masterList s \<noteq> [] \<longrightarrow>
      m_current t = kInvalidIndex \<and> plm_GetCurrentItem t = None)"
proof (intro conjI impI)
  assume m: "m_activeList s = MasterList"
  show "plm_lists_ok t" "m_shuffle t = b" "plm_GetCurrentItem t = plm_GetCurrentItem s"
    using plm_SetShuffleMode_master [OF ok m run] by simp_all
next
  assume "m_activeList s \<noteq> MasterList \<and> \<not> b \<and> m_masterList s \<noteq> []"
  then have ext: "m_activeList s = ExternalList" and b: "\<not> b" and ne: "m_masterList s \<noteq> []"
    using plm_lists_okD(9) [OF ok] by (cases "m_activeList s"; simp)+
  obtain p where p: "plm_GetCurrentItem s = Some p" "p \<noteq> NULL" "p \<in> set (m_masterList s)"
    using plm_GetCurrentItem_ok [OF ok] ne by auto
  have "plm_active (s\<lparr>m_shuffle := b\<rparr>) = m_externalList s" using ext by (simp add: plm_active_def)
  moreover have "p \<notin> set (m_externalList s)" using p plm_lists_okD(3) [OF ok] by auto
  ultimately have t: "t = plm_emit (PlaylistShuffleEvent b)
      (s\<lparr>m_shuffle := b, m_current := kInvalidIndex\<rparr>)"
    using run p b by (simp add: plm_SetShuffleMode_def Let_def)
  show "m_current t = kInvalidIndex" by (simp add: t plm_simps)
  show "plm_GetCurrentItem t = None"
    using ne b plm_lists_okD(6) [OF ok] by (simp add: t plm_GetCurrentItem_def plm_simps vec_at_def)
qed

theorem plm_SetShuffleMode_keeps_current_witness:
  "\<exists>t. plm_SetShuffleMode False (three_items\<lparr>m_activeList := ExternalList,
       m_playlistKey := kPlaylistKey_ExternalPlaylist\<rparr>) = Some (kError_NoErr, t) \<and>
     plm_GetCurrentItem t = None"
proof -
  let ?s = "three_items\<lparr>m_activeList := ExternalList, m_playlistKey := kPlaylistKey_ExternalPlaylist\<rparr>"
  have ok: "plm_lists_ok ?s" using three_items_ok by (simp add: plm_lists_ok_def)
  have "\<exists>t. plm_SetShuffleMode False ?s = Some (kError_NoErr, t)"
    by (simp add: plm_SetShuffleMode_def plm_GetCurrentItem_def Let_def)
  then obtain t where run: "plm_SetShuffleMode False ?s = Some (kError_NoErr, t)" by blast
  from plm_SetShuffleMode_keeps_current [OF ok run] run show ?thesis by auto
qed

end
