(* ===== verification/PlmAdd.thy ===== *)
theory PlmAdd
  imports PlmCurrent
begin

section \<open>Adding items\<close>

text \<open>
  \<open>AddItem\<close>, \<open>AddItems\<close>, \<open>RetrieveMetaData\<close> and the upkeep of the shuffled list.
  \<open>AddItemsToShuffleList\<close> shuffles the caller's vector before it appends it, so \<open>AddItems\<close>
  also returns what it leaves in that vector. \<open>plm_mem_ok\<close> is the invariant of the heap: the
  items of the lists are live, and an item some metadata thread still has to visit is live,
  marked as not normal, and waited for by one thread only.
\<close>

text \<open>The body of \<open>RetrieveMetaData\<close>'s loop: only a normal item changes its state.\<close>

definition retrieve_item :: "item \<Rightarrow> item" where
  "retrieve_item it = (if it_state it = kPlaylistItemState_Normal
     then it\<lparr>it_state := kPlaylistItemState_RetrievingMetaData\<rparr> else it)"

fun mark_retrieving :: "(ptr \<rightharpoonup> item) \<Rightarrow> ptr list \<Rightarrow> (ptr \<rightharpoonup> item) option" where
  "mark_retrieving h [] = Some h"
| "mark_retrieving h (p # ps) =
     (if p = NULL then mark_retrieving h ps
      else do {
        it \<leftarrow> h p;
        mark_retrieving (h(p \<mapsto> retrieve_item it)) ps
      })"

definition plm_RetrieveMetaData :: "ptr list \<Rightarrow> plm \<Rightarrow> plm option" where
  "plm_RetrieveMetaData items s = do {
     h \<leftarrow> mark_retrieving (plm_heap s) items;
     Some (s\<lparr>plm_heap := h, plm_threads := plm_threads s @ [\<lparr>th_list = items, th_items = [], th_fetched = None\<rparr>]\<rparr>)
   }"

definition plm_RetrieveMetaData_item :: "ptr \<Rightarrow> plm \<Rightarrow> plm option" where
  "plm_RetrieveMetaData_item p s = (if p = NULL then None else plm_RetrieveMetaData [p] s)"

definition plm_AddItemToShuffleList :: "ptr \<Rightarrow> plm \<Rightarrow> plm" where
  "plm_AddItemToShuffleList p s = s\<lparr>m_shuffleList := m_shuffleList s @ [p]\<rparr>"

definition plm_AddItemsToShuffleList :: "ptr list \<Rightarrow> plm \<Rightarrow> (ptr list \<times> plm) option" where
  "plm_AddItemsToShuffleList xs s = do {
     (ys, rs) \<leftarrow> ShuffleIt xs (plm_rand s);
     Some (ys, s\<lparr>m_shuffleList := m_shuffleList s @ ys, plm_rand := rs\<rparr>)
   }"

definition plm_AddItem :: "ptr \<Rightarrow> bool \<Rightarrow> plm \<Rightarrow> (error \<times> plm) option" where
  "plm_AddItem p queryForMetaData s =
     (if p = NULL then None
      else do {
        let s1 = plm_set_active (plm_active s @ [p]) s;
        s2 \<leftarrow> (if m_playlistKey s1 = kPlaylistKey_MasterPlaylist
          then let s2 = plm_AddItemToShuffleList p s1
               in if m_current s2 = kInvalidIndex \<and> length (plm_active s2) \<noteq> 0
                  then plm_InternalSetCurrentIndex 0 s2 else Some s2
          else Some s1);
        s3 \<leftarrow> (if queryForMetaData then plm_RetrieveMetaData_item p s2 else Some s2);
        Some (kError_NoErr, plm_emit (PlaylistItemAddedEvent p) s3)
      })"

text \<open>
  The middle of both insertions at an index: the position follows the item that was current
  before (\<open>currentItem\<close>), or goes to the front when there was none.
\<close>

definition plm_fix_current :: "nat \<Rightarrow> ptr \<Rightarrow> plm \<Rightarrow> plm option" where
  "plm_fix_current index currentItem s =
     (if m_current s = kInvalidIndex \<and> length (plm_active s) \<noteq> 0
      then plm_InternalSetCurrentIndex 0 s
      else if index \<le> m_current s
      then do { i \<leftarrow> plm_IndexOf s currentItem; (_, s1) \<leftarrow> plm_SetCurrentIndex i s; Some s1 }
      else Some s)"

definition plm_AddItem_at :: "ptr \<Rightarrow> nat \<Rightarrow> bool \<Rightarrow> plm \<Rightarrow> (error \<times> plm) option" where
  "plm_AddItem_at p index queryForMetaData s =
     (if p = NULL then None
      else let index = (if index > length (plm_active s) then u32 (length (plm_active s)) else index)
      in if index \<noteq> kInvalidIndex then do {
        currentItem \<leftarrow> plm_GetCurrentItem s;
        xs \<leftarrow> vec_insert (plm_active s) index [p];
        let s1 = plm_set_active xs s;
        s2 \<leftarrow> (if m_playlistKey s1 = kPlaylistKey_MasterPlaylist
          then plm_fix_current index currentItem (plm_AddItemToShuffleList p s1)
          else Some s1);
        s3 \<leftarrow> (if queryForMetaData then plm_RetrieveMetaData_item p s2 else Some s2);
        Some (kError_NoErr, plm_emit (PlaylistItemAddedEvent p) s3)
      }
      else Some (kError_InvalidParam, s))"

definition plm_AddItems :: "ptr list \<Rightarrow> bool \<Rightarrow> plm \<Rightarrow> (error \<times> ptr list \<times> plm) option" where
  "plm_AddItems items queryForMetaData s = do {
     let s1 = plm_set_active (plm_active s @ items) s;
     (items', s2) \<leftarrow> (if m_playlistKey s1 = kPlaylistKey_MasterPlaylist
       then do {
         (items', s2) \<leftarrow> plm_AddItemsToShuffleList items s1;
         s3 \<leftarrow> (if m_current s2 = kInvalidIndex \<and> length (plm_active s2) \<noteq> 0
           then plm_InternalSetCurrentIndex 0 s2 else Some s2);
         Some (items', s3)
       }
       else Some (items, s1));
     s3 \<leftarrow> (if queryForMetaData then plm_RetrieveMetaData items' s2 else Some s2);
     Some (kError_NoErr, items', plm_emit (PlaylistItemsAddedEvent items') s3)
   }"

definition plm_AddItems_at :: "ptr list \<Rightarrow> nat \<Rightarrow> bool \<Rightarrow> plm \<Rightarrow> (error \<times> ptr list \<times> plm) option" where
  "plm_AddItems_at items index queryForMetaData s =
     (let index = (if index > length (plm_active s) then u32 (length (plm_active s)) else index)
      in if index \<noteq> kInvalidIndex then do {
        currentItem \<leftarrow> plm_GetCurrentItem s;
        xs \<leftarrow> vec_insert (plm_active s) index items;
        let s1 = plm_set_active xs s;
        (items', s2) \<leftarrow> (if m_playlistKey s1 = kPlaylistKey_MasterPlaylist
          then do {
            (items', s2) \<leftarrow> plm_AddItemsToShuffleList items s1;
            s3 \<leftarrow> plm_fix_current index currentItem s2;
            Some (items', s3)
          }
          else Some (items, s1));
        s3 \<leftarrow> (if queryForMetaData then plm_RetrieveMetaData items' s2 else Some s2);
        Some (kError_NoErr, items', plm_emit (PlaylistItemsAddedEvent items') s3)
      }
      else Some (kError_InvalidParam, items, s))"

subsection \<open>The heap invariant\<close>

definition plm_pending :: "plm \<Rightarrow> ptr list" where
  "plm_pending s = concat (map th_list (plm_threads s))"

definition plm_mem_ok :: "plm \<Rightarrow> bool" where
  "plm_mem_ok s \<longleftrightarrow>
     0 < plm_next s \<and> (\<forall>p \<in> dom (plm_heap s). 0 < p \<and> p < plm_next s) \<and>
     (\<forall>p \<in> set (m_masterList s) \<union> set (m_externalList s).
        \<exists>it. plm_heap s p = Some it \<and> it_state it \<noteq> kPlaylistItemState_Delete) \<and>
     distinct (plm_pending s) \<and>
     (\<forall>p \<in> set (plm_pending s).
        \<exists>it. plm_heap s p = Some it \<and> it_state it \<noteq> kPlaylistItemState_Normal)"

text \<open>Items of the client that can be added: live, not in a list and not with a thread.\<close>

definition plm_fresh :: "plm \<Rightarrow> ptr list \<Rightarrow> bool" where
  "plm_fresh s xs \<longleftrightarrow> distinct xs \<and>
     (\<forall>p \<in> set xs. (\<exists>it. plm_heap s p = Some it \<and> it_state it = kPlaylistItemState_Normal) \<and>
        p \<notin> set (m_masterList s) \<and> p \<notin> set (m_externalList s))"

lemma plm_mem_okD:
  assumes "plm_mem_ok s"
  shows "0 < plm_next s" and "\<And>p it. plm_heap s p = Some it \<Longrightarrow> 0 < p \<and> p < plm_next s"
    and "\<And>p. p \<in> set (m_masterList s) \<Longrightarrow>
      \<exists>it. plm_heap s p = Some it \<and> it_state it \<noteq> kPlaylistItemState_Delete"
    and "\<And>p. p \<in> set (m_externalList s) \<Longrightarrow>
      \<exists>it. plm_heap s p = Some it \<and> it_state it \<noteq> kPlaylistItemState_Delete"
    and "distinct (plm_pending s)"
    and "\<And>p. p \<in> set (plm_pending s) \<Longrightarrow>
      \<exists>it. plm_heap s p = Some it \<and> it_state it \<noteq> kPlaylistItemState_Normal"
  using assms by (auto simp: plm_mem_ok_def)

lemma plm_mem_okI_same:
  assumes "plm_mem_ok s" and "plm_heap t = plm_heap s" and "plm_next t = plm_next s"
    and "set (m_masterList t) \<subseteq> set (m_masterList s)"
    and "set (m_externalList t) \<subseteq> set (m_externalList s)" and "plm_threads t = plm_threads s"
  shows "plm_mem_ok t"
  using assms unfolding plm_mem_ok_def plm_pending_def by auto

lemma plm_fresh_nonnull: "plm_mem_ok s \<Longrightarrow> plm_fresh s xs \<Longrightarrow> NULL \<notin> set xs"
  by (auto simp: plm_fresh_def dest: plm_mem_okD(2))

lemma retrieve_item_state:
  "it_state (retrieve_item it) \<noteq> kPlaylistItemState_Normal"
  "it_state (retrieve_item it) = kPlaylistItemState_Delete \<longleftrightarrow> it_state it = kPlaylistItemState_Delete"
  by (cases "it_state it"; simp add: retrieve_item_def)+

lemma mark_retrieving_ok:
  "NULL \<notin> set xs \<Longrightarrow> set xs \<subseteq> dom h \<Longrightarrow> distinct xs \<Longrightarrow>
   mark_retrieving h xs = Some (\<lambda>p. if p \<in> set xs then map_option retrieve_item (h p) else h p)"
proof (induction xs arbitrary: h)
  case Nil
  then show ?case by simp
next
  case (Cons x xs)
  then obtain it where it: "h x = Some it" by auto
  have "mark_retrieving (h(x \<mapsto> retrieve_item it)) xs = Some (\<lambda>p. if p \<in> set xs
      then map_option retrieve_item ((h(x \<mapsto> retrieve_item it)) p) else (h(x \<mapsto> retrieve_item it)) p)"
    by (rule Cons.IH) (use Cons.prems in auto)
  moreover have "(\<lambda>p. if p \<in> set xs
      then map_option retrieve_item ((h(x \<mapsto> retrieve_item it)) p) else (h(x \<mapsto> retrieve_item it)) p) =
    (\<lambda>p. if p \<in> set (x # xs) then map_option retrieve_item (h p) else h p)"
    using Cons.prems(3) it by (auto simp: fun_eq_iff)
  ultimately show ?case using it Cons.prems(1) by simp
qed

lemma plm_RetrieveMetaData_ok:
  assumes mem: "plm_mem_ok s" and live: "set xs \<subseteq> dom (plm_heap s)" and d: "distinct xs"
    and idle: "set xs \<inter> set (plm_pending s) = {}"
  shows "\<exists>h ths. plm_RetrieveMetaData xs s = Some (s\<lparr>plm_heap := h, plm_threads := ths\<rparr>) \<and>
     plm_mem_ok (s\<lparr>plm_heap := h, plm_threads := ths\<rparr>)"
proof -
  have nn: "NULL \<notin> set xs" using live plm_mem_okD(2) [OF mem] by auto
  let ?h = "\<lambda>p. if p \<in> set xs then map_option retrieve_item (plm_heap s p) else plm_heap s p"
  let ?t = "s\<lparr>plm_heap := ?h, plm_threads := plm_threads s @ [\<lparr>th_list = xs, th_items = [], th_fetched = None\<rparr>]\<rparr>"
  have pend: "plm_pending ?t = plm_pending s @ xs" by (simp add: plm_pending_def)
  have dom: "dom ?h = dom (plm_heap s)" by (auto simp: dom_def)
  have keep: "\<exists>it. ?h p = Some it \<and> it_state it \<noteq> st"
    if "\<exists>it. plm_heap s p = Some it \<and> it_state it \<noteq> st"
      "st = kPlaylistItemState_Normal \<or> st = kPlaylistItemState_Delete" for p st
    using that retrieve_item_state by auto
  have new: "\<exists>it. ?h p = Some it \<and> it_state it \<noteq> kPlaylistItemState_Normal" if "p \<in> set xs" for p
    using that live retrieve_item_state(1) by auto
  have "plm_mem_ok ?t"
    unfolding plm_mem_ok_def pend
  proof (intro conjI ballI)
    fix p
    show "0 < p" "p < plm_next ?t" if "p \<in> dom (plm_heap ?t)"
      using plm_mem_okD(2) [OF mem, of p] that dom by auto
    show "\<exists>it. plm_heap ?t p = Some it \<and> it_state it \<noteq> kPlaylistItemState_Delete"
      if "p \<in> set (m_masterList ?t) \<union> set (m_externalList ?t)"
      using keep [of p kPlaylistItemState_Delete] plm_mem_okD(3,4) [OF mem, of p] that by auto
    show "\<exists>it. plm_heap ?t p = Some it \<and> it_state it \<noteq> kPlaylistItemState_Normal"
      if "p \<in> set (plm_pending s @ xs)"
      using keep [of p kPlaylistItemState_Normal] plm_mem_okD(6) [OF mem, of p] new [of p] that by auto
  qed (use plm_mem_okD(1,5) [OF mem] d idle in auto)
  then show ?thesis
    using mark_retrieving_ok [OF nn live d] by (simp add: plm_RetrieveMetaData_def) blast
qed

lemma plm_fresh_idle:
  assumes "plm_mem_ok s" and "plm_fresh s xs"
  shows "set xs \<inter> set (plm_pending s) = {}" and "set xs \<subseteq> dom (plm_heap s)" and "distinct xs"
  using assms(2) plm_mem_okD(6) [OF assms(1)] by (fastforce simp: plm_fresh_def)+

subsection \<open>What insertion does to the lists and the current item\<close>

lemma plm_InternalSetCurrentIndex_upd [simp]:
  "plm_InternalSetCurrentIndex i (s\<lparr>m_current := j\<rparr>) = plm_InternalSetCurrentIndex i s"
  by (simp add: plm_InternalSetCurrentIndex_def)

text \<open>The state of an insertion into the master list before the position is fixed.\<close>

definition plm_inserted :: "nat \<Rightarrow> ptr list \<Rightarrow> ptr list \<Rightarrow> plm \<Rightarrow> plm" where
  "plm_inserted i xs ys s = s\<lparr>m_masterList := take i (m_masterList s) @ xs @ drop i (m_masterList s),
     m_shuffleList := m_shuffleList s @ ys\<rparr>"

lemma plm_inserted_lists_ok:
  assumes ok: "plm_lists_ok s"
    and new: "distinct xs" "NULL \<notin> set xs" "set xs \<inter> set (m_masterList s) = {}"
      "set xs \<inter> set (m_externalList s) = {}"
    and len: "length (m_masterList s) + length xs < kMaxItems"
    and ys: "mset ys = mset xs"
    and c: "m_masterList s = [] \<and> xs = [] \<and> c = kInvalidIndex \<or>
      c < length (m_masterList s) + length xs"
  shows "plm_lists_ok ((plm_inserted i xs ys s)\<lparr>m_current := c\<rparr>)"
proof -
  let ?m = "take i (m_masterList s) @ xs @ drop i (m_masterList s)"
  have m: "distinct ?m" "set ?m = set (m_masterList s) \<union> set xs"
    "mset ?m = mset (m_masterList s) + mset xs"
    using plm_lists_okD(1) [OF ok] new(1,3)
    by (auto simp only: distinct_insert_at set_insert_at mset_insert_at)
  have l: "length ?m = length (m_masterList s) + length xs" using m(3) by (metis size_mset size_union)
  have e: "?m = [] \<longleftrightarrow> m_masterList s = [] \<and> xs = []" using l by auto
  show ?thesis
    unfolding plm_lists_ok_def plm_inserted_def
    using plm_lists_okD [OF ok] new(2,4) len ys c m l e by auto
qed

text \<open>The two ways \<open>plm_fix_current\<close> goes.\<close>

lemma plm_fix_current_nonempty:
  assumes ok: "plm_lists_ok s" and act: "m_activeList s = MasterList" and ne: "m_masterList s \<noteq> []"
    and new: "distinct xs" "NULL \<notin> set xs" "set xs \<inter> set (m_masterList s) = {}"
      "set xs \<inter> set (m_externalList s) = {}"
    and len: "length (m_masterList s) + length xs < kMaxItems"
    and ys: "mset ys = mset xs" and cur: "plm_GetCurrentItem s = Some p"
    and i: "i \<le> length (m_masterList s)"
  shows "\<exists>c ev. plm_fix_current i p (plm_inserted i xs ys s) =
      Some ((plm_inserted i xs ys s)\<lparr>m_current := c, plm_events := ev\<rparr>) \<and>
    plm_lists_ok ((plm_inserted i xs ys s)\<lparr>m_current := c, plm_events := ev\<rparr>) \<and>
    plm_GetCurrentItem ((plm_inserted i xs ys s)\<lparr>m_current := c, plm_events := ev\<rparr>) = Some p"
proof -
  let ?s = "plm_inserted i xs ys s"
  have c: "m_current s < length (m_masterList s)" by (rule plm_lists_okD(12) [OF ok ne])
  have s: "?s\<lparr>m_current := m_current s\<rparr> = ?s" by (simp add: plm_inserted_def)
  have ok1: "plm_lists_ok ?s"
    using plm_inserted_lists_ok [OF ok new len ys, where c = "m_current s" and i = i] c
    unfolding s by simp
  have act1: "m_activeList ?s = MasterList" and cur1: "m_current ?s = m_current s"
    and sh1: "m_shuffle ?s = m_shuffle s" using act by (simp_all add: plm_inserted_def)
  have m1: "m_masterList ?s = take i (m_masterList s) @ xs @ drop i (m_masterList s)"
    by (simp add: plm_inserted_def)
  have set1: "set (m_masterList s) \<subseteq> set (m_masterList ?s)"
    unfolding m1 set_insert_at by blast
  have ne1: "m_masterList ?s \<noteq> []" using set1 ne by auto
  have p: "p \<in> set (m_masterList s)" "p \<noteq> NULL" "p = plm_play_list s ! m_current s"
    using plm_GetCurrentItem_ok [OF ok] cur ne by auto
  have notinv: "m_current ?s \<noteq> kInvalidIndex" using c plm_lists_okD(6) [OF ok] cur1 by simp
  show ?thesis
  proof (cases "i \<le> m_current s")
    case True
    let ?j = "index_loop p (m_masterList ?s) 0"
    have j: "?j < length (m_masterList ?s)" "m_masterList ?s ! ?j = p"
      using index_loop_mem [of p "m_masterList ?s"] p(1) set1 plm_lists_okD(6) [OF ok1] by auto
    let ?t = "plm_emit (PlaylistCurrentItemInfoEvent p) (?s\<lparr>m_current := plm_play_index ?s ?j\<rparr>)"
    have "plm_fix_current i p ?s = Some ?t"
      using True notinv p(2) plm_SetCurrentIndex_ok [OF ok1 act1 j(1)] j(2) cur1
      by (simp add: plm_fix_current_def plm_active_master [OF act1])
    moreover have "plm_lists_ok ?t" by (rule plm_SetCurrentIndex_keeps [OF ok1 act1 j(1)])
    moreover have "plm_GetCurrentItem ?t = Some p"
    proof -
      note pi = plm_play_index [OF ok1 j(1)]
      have "plm_play_list (?s\<lparr>m_current := plm_play_index ?s ?j\<rparr>) = plm_play_list ?s"
        by (simp add: plm_play_list_def)
      then show ?thesis
        using pi plm_play_list(2) [OF ok1] ne1 j(2) by (simp add: plm_GetCurrentItem_play)
    qed
    ultimately show ?thesis by (auto simp: plm_emit_def)
  next
    case False
    have "plm_fix_current i p ?s = Some ?s" using False notinv cur1 by (simp add: plm_fix_current_def)
    moreover have "plm_GetCurrentItem ?s = Some p"
    proof -
      have "plm_play_list ?s ! m_current s = plm_play_list s ! m_current s"
        using False c plm_shuffle_list(2) [OF ok]
        by (simp add: plm_play_list_def sh1 plm_inserted_def nth_append)
      moreover have "m_current s < length (plm_play_list ?s)"
        using plm_lists_okD(12) [OF ok1 ne1] plm_play_list(2) [OF ok1] cur1 by simp
      ultimately show ?thesis using ne1 p(3) cur1 by (simp add: plm_GetCurrentItem_play)
    qed
    moreover have "?s\<lparr>m_current := m_current s, plm_events := plm_events s\<rparr> = ?s"
      by (simp add: plm_inserted_def)
    ultimately show ?thesis using ok1 by metis
  qed
qed

lemma plm_fix_current_empty:
  assumes ok: "plm_lists_ok s" and act: "m_activeList s = MasterList" and e: "m_masterList s = []"
    and new: "distinct xs" "NULL \<notin> set xs" "set xs \<inter> set (m_externalList s) = {}"
    and ne: "xs \<noteq> []" and len: "length xs < kMaxItems" and ys: "mset ys = mset xs"
  shows "\<exists>c ev. plm_fix_current i p (plm_inserted i xs ys s) =
      Some ((plm_inserted i xs ys s)\<lparr>m_current := c, plm_events := ev\<rparr>) \<and>
    plm_lists_ok ((plm_inserted i xs ys s)\<lparr>m_current := c, plm_events := ev\<rparr>) \<and>
    plm_GetCurrentItem ((plm_inserted i xs ys s)\<lparr>m_current := c, plm_events := ev\<rparr>) =
      Some (if m_shuffle s then hd ys else hd xs) \<and>
    plm_InternalSetCurrentIndex 0 (plm_inserted i xs ys s) =
      Some ((plm_inserted i xs ys s)\<lparr>m_current := c, plm_events := ev\<rparr>)"
proof -
  let ?s = "plm_inserted i xs ys s"
  have ok1: "plm_lists_ok (?s\<lparr>m_current := 0\<rparr>)"
    using plm_inserted_lists_ok [OF ok new(1,2) _ new(3) _ ys, of 0] e ne len by simp
  have m1: "m_masterList ?s = xs" "m_current ?s = kInvalidIndex" "plm_active ?s = xs"
    "m_shuffleList ?s = ys" "m_shuffle ?s = m_shuffle s"
    using e plm_lists_okD(11) [OF ok e] plm_lists_okD(8) [OF ok] act
    by (simp_all add: plm_inserted_def plm_active_def)
  let ?t = "plm_emit (PlaylistCurrentItemInfoEvent (plm_play_list ?s ! 0)) (?s\<lparr>m_current := 0\<rparr>)"
  have "plm_InternalSetCurrentIndex 0 (?s\<lparr>m_current := 0\<rparr>) = Some ?t"
    using plm_InternalSetCurrentIndex_ok [OF ok1, of 0] ne m1(1) by (simp add: plm_play_list_def)
  then have int: "plm_InternalSetCurrentIndex 0 ?s = Some ?t" by simp
  then have "plm_fix_current i p ?s = Some ?t" using m1 ne by (simp add: plm_fix_current_def)
  moreover have "plm_lists_ok ?t" using ok1 by simp
  moreover have "plm_GetCurrentItem ?t = Some (if m_shuffle s then hd ys else hd xs)"
  proof -
    have "ys \<noteq> []" using ne ys by auto
    then show ?thesis
      unfolding plm_GetCurrentItem_emit using m1 ne by (simp add: plm_GetCurrentItem_def hd_conv_nth)
  qed
  moreover have "?t = ?s\<lparr>m_current := 0, plm_events := plm_events ?t\<rparr>" by (simp add: plm_emit_def)
  ultimately show ?thesis using int by metis
qed

subsection \<open>The operations\<close>

text \<open>The last step of the four operations: query for metadata, and tell the target.\<close>

lemma plm_query_ok:
  assumes ok: "plm_lists_ok s" and mem: "plm_mem_ok s" and live: "set xs \<subseteq> dom (plm_heap s)"
    and d: "distinct xs" and idle: "set xs \<inter> set (plm_pending s) = {}"
  shows "\<exists>h ths. (if q then plm_RetrieveMetaData xs s else Some s) =
      Some (s\<lparr>plm_heap := h, plm_threads := ths\<rparr>) \<and>
    plm_lists_ok (s\<lparr>plm_heap := h, plm_threads := ths\<rparr>) \<and>
    plm_mem_ok (s\<lparr>plm_heap := h, plm_threads := ths\<rparr>)"
proof (cases q)
  case True
  obtain h ths where "plm_RetrieveMetaData xs s = Some (s\<lparr>plm_heap := h, plm_threads := ths\<rparr>)"
    "plm_mem_ok (s\<lparr>plm_heap := h, plm_threads := ths\<rparr>)"
    using plm_RetrieveMetaData_ok [OF mem live d idle] by blast
  moreover have "plm_lists_ok (s\<lparr>plm_heap := h, plm_threads := ths\<rparr>)"
    using ok by (simp add: plm_lists_ok_def)
  ultimately show ?thesis using True by auto
next
  case False
  have "s\<lparr>plm_heap := plm_heap s, plm_threads := plm_threads s\<rparr> = s" by simp
  then show ?thesis using False ok mem by metis
qed

text \<open>Insertion in the middle of the heap invariant: only lists, position and log change.\<close>

lemma plm_inserted_mem_ok:
  assumes mem: "plm_mem_ok s" and fresh: "plm_fresh s xs"
  shows "plm_mem_ok ((plm_inserted i xs ys s)\<lparr>m_current := c, plm_events := ev\<rparr>)"
proof -
  have "set (take i (m_masterList s) @ xs @ drop i (m_masterList s)) = set (m_masterList s) \<union> set xs"
    by (rule set_insert_at)
  moreover have "\<exists>it. plm_heap s p = Some it \<and> it_state it \<noteq> kPlaylistItemState_Delete" if "p \<in> set xs" for p
    using fresh that by (auto simp: plm_fresh_def)
  ultimately show ?thesis
    using mem unfolding plm_mem_ok_def plm_inserted_def plm_pending_def by auto
qed

lemma plm_external_inserted:
  fixes i :: nat
  assumes ok: "plm_lists_ok s" and mem: "plm_mem_ok s" and fresh: "plm_fresh s xs"
    and act: "m_activeList s = ExternalList"
    and len: "length (m_externalList s) + length xs < kMaxItems"
  defines "t \<equiv> s\<lparr>m_externalList := take i (m_externalList s) @ xs @ drop i (m_externalList s)\<rparr>"
  shows "plm_lists_ok t" and "plm_mem_ok t" and "plm_GetCurrentItem t = plm_GetCurrentItem s"
proof -
  let ?m = "take i (m_externalList s) @ xs @ drop i (m_externalList s)"
  have nn: "NULL \<notin> set xs" by (rule plm_fresh_nonnull [OF mem fresh])
  have m: "distinct ?m" "set ?m = set (m_externalList s) \<union> set xs"
    "mset ?m = mset (m_externalList s) + mset xs"
    using plm_lists_okD(2) [OF ok] fresh
    by (auto simp only: distinct_insert_at set_insert_at mset_insert_at plm_fresh_def)
  have l: "length ?m = length (m_externalList s) + length xs" using m(3) by (metis size_mset size_union)
  show "plm_lists_ok t"
    unfolding plm_lists_ok_def t_def
    using plm_lists_okD [OF ok] m l nn len fresh by (auto simp: plm_fresh_def)
  have "\<exists>it. plm_heap s p = Some it \<and> it_state it \<noteq> kPlaylistItemState_Delete" if "p \<in> set xs" for p
    using fresh that by (auto simp: plm_fresh_def)
  then show "plm_mem_ok t"
    using mem m(2) unfolding plm_mem_ok_def t_def plm_pending_def by auto
  show "plm_GetCurrentItem t = plm_GetCurrentItem s" by (simp add: t_def plm_GetCurrentItem_def)
qed

text \<open>
  What the two insertions share once the new order \<open>ys\<close> of the items for the shuffled list is
  known: the lists, the position, the query for metadata.
\<close>

definition plm_insert :: "nat \<Rightarrow> ptr list \<Rightarrow> ptr list \<Rightarrow> bool \<Rightarrow> plm \<Rightarrow> plm option" where
  "plm_insert i xs ys q s = do {
     currentItem \<leftarrow> plm_GetCurrentItem s;
     s2 \<leftarrow> (if m_playlistKey s = kPlaylistKey_MasterPlaylist
       then plm_fix_current i currentItem (plm_inserted i xs ys s)
       else Some (s\<lparr>m_externalList := take i (m_externalList s) @ xs @ drop i (m_externalList s)\<rparr>));
     if q then plm_RetrieveMetaData ys s2 else Some s2
   }"

lemma plm_insert_ok:
  assumes ok: "plm_lists_ok s" and mem: "plm_mem_ok s" and fresh: "plm_fresh s xs"
    and len: "length (plm_active s) + length xs < kMaxItems"
    and i: "i \<le> length (plm_active s)" and ys: "mset ys = mset xs"
    and ne: "m_activeList s = MasterList \<Longrightarrow> m_masterList s \<noteq> [] \<or> xs \<noteq> []"
  shows "\<exists>t. plm_insert i xs ys q s = Some t \<and> plm_lists_ok t \<and> plm_mem_ok t \<and>
    plm_active t = take i (plm_active s) @ xs @ drop i (plm_active s) \<and>
    (m_masterList s \<noteq> [] \<or> m_activeList s = ExternalList \<longrightarrow>
       plm_GetCurrentItem t = plm_GetCurrentItem s)"
proof -
  have nn: "NULL \<notin> set xs" by (rule plm_fresh_nonnull [OF mem fresh])
  note idle = plm_fresh_idle [OF mem fresh]
  have ys': "set ys = set xs" "distinct ys"
    using ys idle(3) mset_eq_setD mset_eq_imp_distinct_iff by blast+
  obtain p where p: "plm_GetCurrentItem s = Some p" using plm_GetCurrentItem_ok [OF ok] by blast
  consider (m) "m_activeList s = MasterList" | (e) "m_activeList s = ExternalList"
    using plm_lists_okD(9) [OF ok] by (cases "m_activeList s") auto
  then show ?thesis
  proof cases
    case m
    note a = plm_active_master [OF m]
    have key: "m_playlistKey s = kPlaylistKey_MasterPlaylist" using plm_lists_okD(10) [OF ok] m by simp
    have new: "distinct xs" "set xs \<inter> set (m_masterList s) = {}" "set xs \<inter> set (m_externalList s) = {}"
      using fresh by (auto simp: plm_fresh_def)
    obtain c ev where fx: "plm_fix_current i p (plm_inserted i xs ys s) =
        Some ((plm_inserted i xs ys s)\<lparr>m_current := c, plm_events := ev\<rparr>)"
      "plm_lists_ok ((plm_inserted i xs ys s)\<lparr>m_current := c, plm_events := ev\<rparr>)"
      "m_masterList s \<noteq> [] \<longrightarrow>
        plm_GetCurrentItem ((plm_inserted i xs ys s)\<lparr>m_current := c, plm_events := ev\<rparr>) = Some p"
    proof (cases "m_masterList s = []")
      case True
      then show thesis
        using plm_fix_current_empty [OF ok m _ new(1) nn _ _ _ ys, of i p] True new(3) ne [OF m] len a
          that by auto
    next
      case False
      from plm_fix_current_nonempty [OF ok m _ new(1) nn _ _ _ ys p, of i] False new len a i
      obtain c ev where "plm_fix_current i p (plm_inserted i xs ys s) =
          Some ((plm_inserted i xs ys s)\<lparr>m_current := c, plm_events := ev\<rparr>)"
        "plm_lists_ok ((plm_inserted i xs ys s)\<lparr>m_current := c, plm_events := ev\<rparr>)"
        "plm_GetCurrentItem ((plm_inserted i xs ys s)\<lparr>m_current := c, plm_events := ev\<rparr>) = Some p"
        by auto
      then show thesis using that by blast
    qed
    let ?t = "(plm_inserted i xs ys s)\<lparr>m_current := c, plm_events := ev\<rparr>"
    have tm: "plm_mem_ok ?t" by (rule plm_inserted_mem_ok [OF mem fresh])
    have "plm_heap ?t = plm_heap s" "plm_pending ?t = plm_pending s"
      by (simp_all add: plm_inserted_def plm_pending_def)
    then obtain h ths where qu: "(if q then plm_RetrieveMetaData ys ?t else Some ?t) =
        Some (?t\<lparr>plm_heap := h, plm_threads := ths\<rparr>)"
      "plm_lists_ok (?t\<lparr>plm_heap := h, plm_threads := ths\<rparr>)"
      "plm_mem_ok (?t\<lparr>plm_heap := h, plm_threads := ths\<rparr>)"
      using plm_query_ok [OF fx(2) tm, of ys q] idle ys' by auto
    let ?u = "?t\<lparr>plm_heap := h, plm_threads := ths\<rparr>"
    have "plm_insert i xs ys q s = Some ?u"
      using p key fx(1) qu(1) by (simp add: plm_insert_def)
    moreover have "plm_active ?u = take i (plm_active s) @ xs @ drop i (plm_active s)"
      using m a by (simp add: plm_active_def plm_inserted_def)
    moreover have "plm_GetCurrentItem ?u = plm_GetCurrentItem ?t"
      by (simp add: plm_GetCurrentItem_def)
    ultimately show ?thesis using fx(3) p m qu(2,3) by auto
  next
    case e
    note a = plm_active_external [OF e]
    have key: "m_playlistKey s \<noteq> kPlaylistKey_MasterPlaylist" using plm_lists_okD(10) [OF ok] e by simp
    let ?t = "s\<lparr>m_externalList := take i (m_externalList s) @ xs @ drop i (m_externalList s)\<rparr>"
    have len': "length (m_externalList s) + length xs < kMaxItems" using len a by simp
    note t = plm_external_inserted [OF ok mem fresh e len', of i]
    obtain h ths where qu: "(if q then plm_RetrieveMetaData ys ?t else Some ?t) =
        Some (?t\<lparr>plm_heap := h, plm_threads := ths\<rparr>)"
      "plm_lists_ok (?t\<lparr>plm_heap := h, plm_threads := ths\<rparr>)"
      "plm_mem_ok (?t\<lparr>plm_heap := h, plm_threads := ths\<rparr>)"
      using plm_query_ok [OF t(1,2), of ys q] idle ys' by (auto simp: plm_pending_def)
    let ?u = "?t\<lparr>plm_heap := h, plm_threads := ths\<rparr>"
    have "plm_insert i xs ys q s = Some ?u"
      using p key qu(1) by (simp add: plm_insert_def)
    moreover have "plm_active ?u = take i (plm_active s) @ xs @ drop i (plm_active s)"
      using e a by (simp add: plm_active_def)
    moreover have "plm_GetCurrentItem ?u = plm_GetCurrentItem ?t"
      by (simp add: plm_GetCurrentItem_def)
    ultimately show ?thesis using t(3) qu(2,3) by auto
  qed
qed

text \<open>The code's functions are this step between a lookup and an event.\<close>

lemma plm_external_key:
  assumes "plm_lists_ok s"
  shows "m_playlistKey s = kPlaylistKey_MasterPlaylist \<Longrightarrow> m_activeList s = MasterList"
    and "m_playlistKey s \<noteq> kPlaylistKey_MasterPlaylist \<Longrightarrow> m_activeList s = ExternalList"
  using plm_lists_okD(9,10) [OF assms] by (cases "m_activeList s"; simp)+

lemma plm_AddItem_at_insert:
  assumes ok: "plm_lists_ok s" and p: "p \<noteq> NULL" and i: "i \<le> length (plm_active s)"
  shows "plm_AddItem_at p i q s = do { t \<leftarrow> plm_insert i [p] [p] q s;
     Some (kError_NoErr, plm_emit (PlaylistItemAddedEvent p) t) }"
proof -
  have iv: "i \<noteq> kInvalidIndex" "\<not> i > length (plm_active s)" using i plm_active_ok(3) [OF ok] by auto
  let ?s1 = "plm_set_active (take i (plm_active s) @ p # drop i (plm_active s)) s"
  have key1: "m_playlistKey ?s1 = m_playlistKey s" by (simp add: plm_simps)
  have ins: "vec_insert (plm_active s) i [p] = Some (take i (plm_active s) @ p # drop i (plm_active s))"
    using i by simp
  have rm: "plm_RetrieveMetaData_item p = plm_RetrieveMetaData [p]"
    using p by (simp add: fun_eq_iff plm_RetrieveMetaData_item_def)
  show ?thesis
  proof (cases "m_playlistKey s = kPlaylistKey_MasterPlaylist")
    case True
    then have "m_activeList s = MasterList" by (rule plm_external_key(1) [OF ok])
    then have "plm_AddItemToShuffleList p ?s1 = plm_inserted i [p] [p] s"
      by (simp add: plm_AddItemToShuffleList_def plm_set_active_def plm_inserted_def plm_active_def)
    then show ?thesis
      using True p iv unfolding plm_AddItem_at_def plm_insert_def ins rm
      by (simp add: key1 Let_def)
  next
    case False
    then have "m_activeList s = ExternalList" by (rule plm_external_key(2) [OF ok])
    then have "?s1 = s\<lparr>m_externalList := take i (m_externalList s) @ p # drop i (m_externalList s)\<rparr>"
      by (simp add: plm_set_active_def plm_active_def)
    then show ?thesis
      using False p iv unfolding plm_AddItem_at_def plm_insert_def ins rm
      by (simp add: key1 Let_def)
  qed
qed

lemma plm_AddItems_at_insert:
  assumes ok: "plm_lists_ok s" and i: "i \<le> length (plm_active s)"
    and draws: "m_activeList s = MasterList \<Longrightarrow> ShuffleIt xs (plm_rand s) = Some (ys, rs)"
    and ext: "m_activeList s = ExternalList \<Longrightarrow> ys = xs \<and> rs = plm_rand s"
  shows "plm_AddItems_at xs i q s = do { t \<leftarrow> plm_insert i xs ys q (s\<lparr>plm_rand := rs\<rparr>);
     Some (kError_NoErr, ys, plm_emit (PlaylistItemsAddedEvent ys) t) }"
proof -
  have iv: "i \<noteq> kInvalidIndex" "\<not> i > length (plm_active s)" using i plm_active_ok(3) [OF ok] by auto
  let ?s1 = "plm_set_active (take i (plm_active s) @ xs @ drop i (plm_active s)) s"
  have key1: "m_playlistKey ?s1 = m_playlistKey s" by (simp add: plm_simps)
  have ins: "vec_insert (plm_active s) i xs = Some (take i (plm_active s) @ xs @ drop i (plm_active s))"
    using i by simp
  have cur: "plm_GetCurrentItem (s\<lparr>plm_rand := rs\<rparr>) = plm_GetCurrentItem s"
    by (simp add: plm_GetCurrentItem_def)
  show ?thesis
  proof (cases "m_playlistKey s = kPlaylistKey_MasterPlaylist")
    case True
    then have m: "m_activeList s = MasterList" by (rule plm_external_key(1) [OF ok])
    then have "plm_AddItemsToShuffleList xs ?s1 = Some (ys, plm_inserted i xs ys (s\<lparr>plm_rand := rs\<rparr>))"
      using draws [OF m]
      by (simp add: plm_AddItemsToShuffleList_def plm_set_active_def plm_inserted_def plm_active_def)
    then show ?thesis
      using True iv unfolding plm_AddItems_at_def plm_insert_def ins cur
      by (cases "plm_GetCurrentItem s"; simp add: key1 Let_def)
  next
    case False
    then have e: "m_activeList s = ExternalList" by (rule plm_external_key(2) [OF ok])
    then have "?s1 = s\<lparr>m_externalList := take i (m_externalList s) @ xs @ drop i (m_externalList s)\<rparr>"
      by (simp add: plm_set_active_def plm_active_def)
    moreover have "s\<lparr>plm_rand := rs\<rparr> = s" using ext [OF e] by simp
    ultimately show ?thesis
      using False iv ext [OF e] unfolding plm_AddItems_at_def plm_insert_def ins cur
      by (simp add: key1 Let_def)
  qed
qed

lemma plm_rand_upd [simp]:
  "plm_lists_ok (s\<lparr>plm_rand := r\<rparr>) = plm_lists_ok s" "plm_mem_ok (s\<lparr>plm_rand := r\<rparr>) = plm_mem_ok s"
  "plm_fresh (s\<lparr>plm_rand := r\<rparr>) xs = plm_fresh s xs"
  "plm_active (s\<lparr>plm_rand := r\<rparr>) = plm_active s"
  "plm_GetCurrentItem (s\<lparr>plm_rand := r\<rparr>) = plm_GetCurrentItem s"
  by (simp_all add: plm_lists_ok_def plm_mem_ok_def plm_pending_def plm_fresh_def plm_GetCurrentItem_def
    plm_active_def split: list_id.splits)

lemma plm_emit_mem_ok [simp]: "plm_mem_ok (plm_emit e s) = plm_mem_ok s"
  by (simp add: plm_mem_ok_def plm_pending_def plm_emit_def)

lemma plm_AddItem_at_ok:
  assumes ok: "plm_lists_ok s" and mem: "plm_mem_ok s" and fresh: "plm_fresh s [p]"
    and len: "length (plm_active s) + 1 < kMaxItems" and i: "i \<le> length (plm_active s)"
  shows "\<exists>t. plm_AddItem_at p i q s = Some (kError_NoErr, t) \<and> plm_lists_ok t \<and> plm_mem_ok t \<and>
    plm_active t = take i (plm_active s) @ [p] @ drop i (plm_active s) \<and>
    (m_masterList s \<noteq> [] \<or> m_activeList s = ExternalList \<longrightarrow>
       plm_GetCurrentItem t = plm_GetCurrentItem s)"
proof -
  have p: "p \<noteq> NULL" using plm_fresh_nonnull [OF mem fresh] by simp
  obtain t where "plm_insert i [p] [p] q s = Some t" "plm_lists_ok t" "plm_mem_ok t"
    "plm_active t = take i (plm_active s) @ [p] @ drop i (plm_active s)"
    "m_masterList s \<noteq> [] \<or> m_activeList s = ExternalList \<longrightarrow>
       plm_GetCurrentItem t = plm_GetCurrentItem s"
    using plm_insert_ok [OF ok mem fresh _ i, of "[p]" q] len by auto
  then show ?thesis using plm_AddItem_at_insert [OF ok p i, of q] by (simp add: plm_simps)
qed

lemma plm_AddItems_at_ok:
  assumes ok: "plm_lists_ok s" and mem: "plm_mem_ok s" and fresh: "plm_fresh s xs"
    and len: "length (plm_active s) + length xs < kMaxItems" and i: "i \<le> length (plm_active s)"
    and draws: "m_activeList s = MasterList \<Longrightarrow> ShuffleIt xs (plm_rand s) \<noteq> None"
    and ne: "m_activeList s = MasterList \<Longrightarrow> m_masterList s \<noteq> [] \<or> xs \<noteq> []"
  shows "\<exists>ys t. plm_AddItems_at xs i q s = Some (kError_NoErr, ys, t) \<and> mset ys = mset xs \<and>
    plm_lists_ok t \<and> plm_mem_ok t \<and>
    plm_active t = take i (plm_active s) @ xs @ drop i (plm_active s) \<and>
    (m_masterList s \<noteq> [] \<or> m_activeList s = ExternalList \<longrightarrow>
       plm_GetCurrentItem t = plm_GetCurrentItem s)"
proof -
  obtain ys rs where yr: "m_activeList s = MasterList \<Longrightarrow> ShuffleIt xs (plm_rand s) = Some (ys, rs)"
    "m_activeList s = ExternalList \<Longrightarrow> ys = xs \<and> rs = plm_rand s"
    using draws by (cases "m_activeList s = MasterList") auto
  have ys: "mset ys = mset xs"
    using yr ShuffleIt_mset plm_lists_okD(9) [OF ok] by (cases "m_activeList s") auto
  let ?s = "s\<lparr>plm_rand := rs\<rparr>"
  have same: "plm_lists_ok ?s" "plm_mem_ok ?s" "plm_fresh ?s xs" "plm_active ?s = plm_active s"
    "plm_GetCurrentItem ?s = plm_GetCurrentItem s"
    using ok mem fresh by simp_all
  obtain t where "plm_insert i xs ys q ?s = Some t" "plm_lists_ok t" "plm_mem_ok t"
    "plm_active t = take i (plm_active s) @ xs @ drop i (plm_active s)"
    "m_masterList s \<noteq> [] \<or> m_activeList s = ExternalList \<longrightarrow>
       plm_GetCurrentItem t = plm_GetCurrentItem s"
    using plm_insert_ok [OF same(1-3), of i ys q] same(4,5) len i ys ne by auto
  then show ?thesis
    using plm_AddItems_at_insert [OF ok i yr, where q = q] ys by (simp add: plm_simps)
qed

text \<open>Appending is inserting at the end.\<close>

lemma plm_fix_current_end:
  assumes ok: "plm_lists_ok s" and act: "m_activeList s = MasterList"
    and ne: "m_masterList s \<noteq> [] \<or> xs \<noteq> []"
  shows "plm_fix_current (length (m_masterList s)) p (plm_inserted (length (m_masterList s)) xs ys s) =
    (let t = plm_inserted (length (m_masterList s)) xs ys s
     in if m_current t = kInvalidIndex \<and> length (plm_active t) \<noteq> 0
        then plm_InternalSetCurrentIndex 0 t else Some t)"
proof (cases "m_masterList s = []")
  case True
  then show ?thesis
    using plm_lists_okD(11) [OF ok True] ne act
    by (simp add: plm_fix_current_def plm_inserted_def plm_active_def)
next
  case False
  then have "m_current s < length (m_masterList s)" using plm_lists_okD(12) [OF ok] by simp
  then show ?thesis
    using plm_lists_okD(6) [OF ok] by (simp add: plm_fix_current_def plm_inserted_def)
qed

lemma plm_AddItem_append:
  assumes ok: "plm_lists_ok s" and p: "p \<noteq> NULL"
  shows "plm_AddItem p q s = plm_AddItem_at p (length (plm_active s)) q s"
proof -
  let ?s1 = "plm_set_active (plm_active s @ [p]) s"
  have key1: "m_playlistKey ?s1 = m_playlistKey s" by (simp add: plm_simps)
  obtain c where c: "plm_GetCurrentItem s = Some c" using plm_GetCurrentItem_ok [OF ok] by blast
  have iv: "length (plm_active s) \<noteq> kInvalidIndex" using plm_active_ok(3) [OF ok] by simp
  show ?thesis
  proof (cases "m_playlistKey s = kPlaylistKey_MasterPlaylist")
    case True
    then have m: "m_activeList s = MasterList" by (rule plm_external_key(1) [OF ok])
    note a = plm_active_master [OF m]
    have "plm_AddItemToShuffleList p ?s1 = plm_inserted (length (m_masterList s)) [p] [p] s"
      using m by (simp add: plm_AddItemToShuffleList_def plm_set_active_def plm_inserted_def a)
    then show ?thesis
      using True p iv c plm_fix_current_end [OF ok m, of "[p]" c "[p]"]
      unfolding plm_AddItem_at_def plm_AddItem_def by (simp add: key1 a Let_def)
  next
    case False
    then show ?thesis
      using p iv c unfolding plm_AddItem_at_def plm_AddItem_def by (simp add: key1 Let_def)
  qed
qed

lemma plm_AddItems_append:
  assumes ok: "plm_lists_ok s" and ne: "m_activeList s = MasterList \<Longrightarrow> m_masterList s \<noteq> [] \<or> xs \<noteq> []"
  shows "plm_AddItems xs q s = plm_AddItems_at xs (length (plm_active s)) q s"
proof -
  let ?s1 = "plm_set_active (plm_active s @ xs) s"
  have key1: "m_playlistKey ?s1 = m_playlistKey s" by (simp add: plm_simps)
  obtain c where c: "plm_GetCurrentItem s = Some c" using plm_GetCurrentItem_ok [OF ok] by blast
  have iv: "length (plm_active s) \<noteq> kInvalidIndex" using plm_active_ok(3) [OF ok] by simp
  show ?thesis
  proof (cases "m_playlistKey s = kPlaylistKey_MasterPlaylist")
    case True
    then have m: "m_activeList s = MasterList" by (rule plm_external_key(1) [OF ok])
    note a = plm_active_master [OF m]
    show ?thesis
    proof (cases "ShuffleIt xs (plm_rand s)")
      case None
      then have "plm_AddItemsToShuffleList xs ?s1 = None"
        by (simp add: plm_AddItemsToShuffleList_def plm_simps)
      then show ?thesis
        using True iv c unfolding plm_AddItems_at_def plm_AddItems_def by (simp add: key1 a Let_def)
    next
      case (Some yr)
      then obtain ys rs where yr: "ShuffleIt xs (plm_rand s) = Some (ys, rs)" by (cases yr) auto
      let ?t = "plm_inserted (length (m_masterList s)) xs ys (s\<lparr>plm_rand := rs\<rparr>)"
      have "plm_AddItemsToShuffleList xs ?s1 = Some (ys, ?t)"
        using m yr by (simp add: plm_AddItemsToShuffleList_def plm_set_active_def plm_inserted_def a)
      moreover have "plm_fix_current (length (m_masterList s)) c ?t =
          (if m_current ?t = kInvalidIndex \<and> length (plm_active ?t) \<noteq> 0
           then plm_InternalSetCurrentIndex 0 ?t else Some ?t)"
        using plm_fix_current_end [of "s\<lparr>plm_rand := rs\<rparr>" xs c ys] ok m ne by (simp add: Let_def)
      ultimately show ?thesis
        using True iv c unfolding plm_AddItems_at_def plm_AddItems_def by (simp add: key1 a Let_def)
    qed
  next
    case False
    then show ?thesis
      using iv c unfolding plm_AddItems_at_def plm_AddItems_def by (simp add: key1 Let_def)
  qed
qed

subsection \<open>Properties\<close>

text \<open>
  C17. \<open>AddItem\<close> and \<open>AddItems\<close> insert: for fresh items and any index up to the length of the
  active list the call succeeds, the active list gets the items in order at that index, the
  song that was current stays current (whatever the shuffle mode), and the invariants of the
  lists and of the heap are kept, with or without a metadata query. The caller's vector comes
  back permuted. Appending is inserting at the end.
\<close>

theorem plm_AddItems_insert:
  assumes ok: "plm_lists_ok s" and mem: "plm_mem_ok s" and fresh: "plm_fresh s xs"
    and len: "length (plm_active s) + length xs < kMaxItems" and i: "i \<le> length (plm_active s)"
    and draws: "ShuffleIt xs (plm_rand s) \<noteq> None" and ne: "xs \<noteq> []"
  shows "(\<exists>ys t. plm_AddItems_at xs i q s = Some (kError_NoErr, ys, t) \<and> mset ys = mset xs \<and>
      plm_lists_ok t \<and> plm_mem_ok t \<and>
      plm_active t = take i (plm_active s) @ xs @ drop i (plm_active s) \<and>
      (m_masterList s \<noteq> [] \<longrightarrow> plm_GetCurrentItem t = plm_GetCurrentItem s)) \<and>
    (\<forall>p. xs = [p] \<longrightarrow> (\<exists>t. plm_AddItem_at p i q s = Some (kError_NoErr, t) \<and>
      plm_lists_ok t \<and> plm_mem_ok t \<and>
      plm_active t = take i (plm_active s) @ [p] @ drop i (plm_active s) \<and>
      (m_masterList s \<noteq> [] \<longrightarrow> plm_GetCurrentItem t = plm_GetCurrentItem s)) \<and>
      plm_AddItem p q s = plm_AddItem_at p (length (plm_active s)) q s) \<and>
    plm_AddItems xs q s = plm_AddItems_at xs (length (plm_active s)) q s"
proof (intro conjI allI impI)
  show "\<exists>ys t. plm_AddItems_at xs i q s = Some (kError_NoErr, ys, t) \<and> mset ys = mset xs \<and>
      plm_lists_ok t \<and> plm_mem_ok t \<and>
      plm_active t = take i (plm_active s) @ xs @ drop i (plm_active s) \<and>
      (m_masterList s \<noteq> [] \<longrightarrow> plm_GetCurrentItem t = plm_GetCurrentItem s)"
    using plm_AddItems_at_ok [OF ok mem fresh len i draws, of q] ne by blast
  show "plm_AddItems xs q s = plm_AddItems_at xs (length (plm_active s)) q s"
    using plm_AddItems_append [OF ok, of xs q] ne by blast
  fix p
  assume xs: "xs = [p]"
  then have "plm_fresh s [p]" "length (plm_active s) + 1 < kMaxItems" using fresh len by simp_all
  from plm_AddItem_at_ok [OF ok mem this i, of q]
  show "\<exists>t. plm_AddItem_at p i q s = Some (kError_NoErr, t) \<and>
      plm_lists_ok t \<and> plm_mem_ok t \<and>
      plm_active t = take i (plm_active s) @ [p] @ drop i (plm_active s) \<and>
      (m_masterList s \<noteq> [] \<longrightarrow> plm_GetCurrentItem t = plm_GetCurrentItem s)" by blast
  have "p \<noteq> NULL" using plm_fresh_nonnull [OF mem fresh] xs by simp
  then show "plm_AddItem p q s = plm_AddItem_at p (length (plm_active s)) q s"
    by (rule plm_AddItem_append [OF ok])
qed

text \<open>The playlist of three items, and a fourth item that is not in it yet.\<close>

definition spare_item :: plm where
  "spare_item = three_items\<lparr>plm_heap := (plm_heap three_items)(4 \<mapsto> new_item ''d'' None),
     plm_next := 5, plm_rand := [0]\<rparr>"

lemma spare_item_ok: "plm_lists_ok spare_item" "plm_mem_ok spare_item" "plm_fresh spare_item [4]"
  "plm_active spare_item = [1, 2, 3]"
  using three_items_ok
  by (auto simp: spare_item_def plm_lists_ok_def plm_mem_ok_def plm_pending_def plm_fresh_def
    three_items_def plm_new_def new_item_def plm_active_def)

theorem plm_AddItems_insert_witness:
  "\<exists>t. plm_AddItem_at 4 1 True spare_item = Some (kError_NoErr, t) \<and> plm_active t = [1, 4, 2, 3] \<and>
     plm_GetCurrentItem t = Some 2"
proof -
  have cur: "plm_GetCurrentItem spare_item = Some 2" and ne: "m_masterList spare_item \<noteq> []"
    by (simp_all add: spare_item_def plm_GetCurrentItem_def)
  have "ShuffleIt [4 :: ptr] (plm_rand spare_item) \<noteq> None"
    by (simp add: spare_item_def ShuffleIt_def shuffle_index_def shuffle_accepts_def vec_defs)
  from plm_AddItems_insert [OF spare_item_ok(1-3), of 1 True] this cur ne
  have "\<exists>t. plm_AddItem_at 4 1 True spare_item = Some (kError_NoErr, t) \<and>
      plm_active t = take 1 [1, 2, 3] @ [4] @ drop 1 [1, 2, 3] \<and> plm_GetCurrentItem t = Some 2"
    unfolding spare_item_ok(4) by auto
  then show ?thesis by simp
qed

text \<open>
  \<open>AddItems\<close> of an empty vector at an index fails an assertion when the master list is
  active and empty: no item is current, and \<open>IndexOf\<close> is asked for the null item. Appending the
  empty vector is harmless.
\<close>

theorem plm_AddItems_at_empty_aborts:
  assumes ok: "plm_lists_ok s" and m: "m_activeList s = MasterList" and e: "m_masterList s = []"
  shows "plm_AddItems_at [] i q s = None \<and> plm_AddItems [] False s =
    Some (kError_NoErr, [], plm_emit (PlaylistItemsAddedEvent []) s)"
proof
  have key: "m_playlistKey s = kPlaylistKey_MasterPlaylist" using plm_lists_okD(10) [OF ok] m by simp
  have cur: "m_current s = kInvalidIndex" by (rule plm_lists_okD(11) [OF ok e])
  have a: "plm_active s = []" using m e by (simp add: plm_active_def)
  have set: "plm_set_active [] s = s" using m e by (simp add: plm_set_active_def)
  show "plm_AddItems_at [] i q s = None"
    using key cur e by (simp add: plm_AddItems_at_def a set plm_AddItemsToShuffleList_def ShuffleIt_def
      plm_fix_current_def plm_active_def m plm_IndexOf_def Let_def)
  show "plm_AddItems [] False s = Some (kError_NoErr, [], plm_emit (PlaylistItemsAddedEvent []) s)"
    using key by (simp add: plm_AddItems_def a set plm_AddItemsToShuffleList_def ShuffleIt_def
      plm_active_def m e)
qed

theorem plm_AddItems_at_empty_aborts_witness:
  "plm_AddItems_at [] 0 True (plm_new False kPlaylistMode_RepeatNone [] [] [] []) = None"
proof -
  have "plm_lists_ok (plm_new False kPlaylistMode_RepeatNone [] [] [] [])"
    by (simp add: plm_lists_ok_def plm_new_def)
  from plm_AddItems_at_empty_aborts [OF this] show ?thesis by (simp add: plm_new_def)
qed

end
