(* ===== verification/PlmRemove.thy ===== *)
theory PlmRemove
  imports PlmAdd
begin

section \<open>Removing items\<close>

text \<open>
  The three \<open>RemoveItem(s)\<close> and \<open>RemoveAll\<close> of \<open>playlist.cpp\<close>. Each removal takes the item out
  of the active list and the shuffled list, disposes of it, and then repairs the position by
  the block \<open>plm_after_remove\<close> that the code repeats three times.
\<close>

text \<open>
  The erasure from the shuffled list: the index goes through an \<open>int32\<close>, so that
  \<open>kInvalidIndex\<close> is the position before the first.
\<close>

definition plm_erase_shuffle :: "ptr \<Rightarrow> plm \<Rightarrow> plm option" where
  "plm_erase_shuffle p s = do {
     shuffleIndex \<leftarrow> plm_InternalIndexOf (m_shuffleList s) p;
     if shuffleIndex < 2147483648
     then do { ys \<leftarrow> vec_erase (m_shuffleList s) shuffleIndex; Some (s\<lparr>m_shuffleList := ys\<rparr>) }
     else None
   }"

definition plm_after_remove :: "ptr \<Rightarrow> plm \<Rightarrow> plm option" where
  "plm_after_remove currentItem s =
     (if m_playlistKey s = kPlaylistKey_MasterPlaylist
      then do {
        newIndex \<leftarrow> plm_IndexOf s currentItem;
        (_, s1) \<leftarrow> (if newIndex \<noteq> kInvalidIndex then plm_SetCurrentIndex newIndex s
          else if m_current s \<noteq> kInvalidIndex \<and> m_current s \<ge> length (plm_active s)
          then plm_SetCurrentIndex (u32_sub (length (plm_active s)) 1) s
          else plm_SetCurrentIndex (m_current s) s);
        Some s1
      }
      else Some s)"

definition plm_RemoveItem :: "nat \<Rightarrow> plm \<Rightarrow> (error \<times> plm) option" where
  "plm_RemoveItem index s =
     (let index = plm_CheckIndex s index
      in if index \<noteq> kInvalidIndex then do {
        currentItem \<leftarrow> plm_GetCurrentItem s;
        p \<leftarrow> vec_at (plm_active s) index;
        xs \<leftarrow> vec_erase (plm_active s) index;
        let s1 = plm_set_active xs s;
        s2 \<leftarrow> (if m_playlistKey s1 = kPlaylistKey_MasterPlaylist
          then do {
            s2 \<leftarrow> plm_erase_shuffle p s1;
            Some (if length (plm_active s2) = 0 then s2\<lparr>m_current := kInvalidIndex\<rparr> else s2)
          }
          else Some s1);
        s3 \<leftarrow> plm_dispose p s2;
        s4 \<leftarrow> plm_after_remove currentItem s3;
        Some (kError_NoErr, plm_emit (PlaylistItemRemovedEvent [p] [index]) s4)
      }
      else Some (kError_InvalidParam, s))"

definition plm_RemoveItem_item :: "ptr \<Rightarrow> plm \<Rightarrow> (error \<times> plm) option" where
  "plm_RemoveItem_item p s =
     (if p = NULL then None else do { i \<leftarrow> plm_IndexOf s p; plm_RemoveItem i s })"

text \<open>
  The loop of \<open>RemoveItems(index, count)\<close>, at its round \<open>i\<close> of \<open>i + k\<close>: the items are
  disposed of while they are still in the list.
\<close>

fun remove_range_loop :: "nat \<Rightarrow> nat \<Rightarrow> nat \<Rightarrow> plm \<Rightarrow> (ptr list \<times> nat list \<times> plm) option" where
  "remove_range_loop index i 0 s = Some ([], [], s)"
| "remove_range_loop index i (Suc k) s = do {
     p \<leftarrow> vec_at (plm_active s) (u32 (index + i));
     s1 \<leftarrow> (if m_playlistKey s = kPlaylistKey_MasterPlaylist
       then do {
         s1 \<leftarrow> plm_erase_shuffle p s;
         Some (if length (plm_active s1) = 0 then s1\<lparr>m_current := kInvalidIndex\<rparr> else s1)
       }
       else Some s);
     s2 \<leftarrow> plm_dispose p s1;
     (itemList, indexList, s3) \<leftarrow> remove_range_loop index (i + 1) k s2;
     Some (p # itemList, u32 (index + i) # indexList, s3)
   }"

definition plm_RemoveItems_range :: "nat \<Rightarrow> nat \<Rightarrow> plm \<Rightarrow> (error \<times> plm) option" where
  "plm_RemoveItems_range index cnt s =
     (let index = plm_CheckIndex s index
      in if index \<noteq> kInvalidIndex then do {
        currentItem \<leftarrow> plm_GetCurrentItem s;
        (itemList, indexList, s1) \<leftarrow> remove_range_loop index 0 cnt s;
        let s2 = plm_emit (PlaylistItemRemovedEvent itemList indexList) s1;
        xs \<leftarrow> vec_erase_range (plm_active s2) index (index + cnt);
        s3 \<leftarrow> plm_after_remove currentItem (plm_set_active xs s2);
        Some (kError_NoErr, s3)
      }
      else Some (kError_InvalidParam, s))"

text \<open>The loop of \<open>RemoveItems(items)\<close>; \<open>result\<close> is what the loop leaves in that variable.\<close>

fun remove_items_loop ::
  "ptr list \<Rightarrow> error \<Rightarrow> plm \<Rightarrow> (error \<times> ptr list \<times> nat list \<times> plm) option" where
  "remove_items_loop [] result s = Some (result, [], [], s)"
| "remove_items_loop (p # ps) result s =
     (if p = NULL then remove_items_loop ps result s
      else do {
        oldIndex \<leftarrow> plm_IndexOf s p;
        xs \<leftarrow> vec_erase (plm_active s) oldIndex;
        let s1 = plm_set_active xs s;
        s2 \<leftarrow> (if m_playlistKey s1 = kPlaylistKey_MasterPlaylist then plm_erase_shuffle p s1 else Some s1);
        s3 \<leftarrow> plm_dispose p s2;
        (e, itemList, indexList, s4) \<leftarrow> remove_items_loop ps kError_NoErr s3;
        Some (e, p # itemList, oldIndex # indexList, s4)
      })"

definition plm_RemoveItems :: "ptr list \<Rightarrow> plm \<Rightarrow> (error \<times> plm) option" where
  "plm_RemoveItems items s = do {
     currentItem \<leftarrow> plm_GetCurrentItem s;
     (result, itemList, indexList, s1) \<leftarrow> remove_items_loop items kError_InvalidParam s;
     s2 \<leftarrow> plm_after_remove currentItem (plm_emit (PlaylistItemRemovedEvent itemList indexList) s1);
     Some (result, s2)
   }"

text \<open>The loop of \<open>RemoveAll\<close> runs backwards over the list.\<close>

fun remove_all_loop :: "ptr list \<Rightarrow> nat \<Rightarrow> plm \<Rightarrow> (ptr list \<times> nat list \<times> plm) option" where
  "remove_all_loop [] index s = Some ([], [], s)"
| "remove_all_loop (p # ps) index s =
     (if p = NULL then remove_all_loop ps (u32_sub index 1) s
      else do {
        s1 \<leftarrow> plm_dispose p s;
        (itemList, indexList, s2) \<leftarrow> remove_all_loop ps (u32_sub index 1) s1;
        Some (p # itemList, index # indexList, s2)
      })"

definition plm_RemoveAll :: "plm \<Rightarrow> (error \<times> plm) option" where
  "plm_RemoveAll s = do {
     (itemList, indexList, s1) \<leftarrow>
       remove_all_loop (rev (plm_active s)) (u32_sub (length (plm_active s)) 1) s;
     let s2 = plm_set_active [] (plm_emit (PlaylistItemRemovedEvent itemList indexList) s1);
     Some (kError_NoErr,
       if m_playlistKey s2 = kPlaylistKey_MasterPlaylist
       then s2\<lparr>m_shuffleList := [], m_current := kInvalidIndex\<rparr> else s2)
   }"

subsection \<open>Taking items out of the lists\<close>

definition plm_drop :: "ptr set \<Rightarrow> plm \<Rightarrow> plm" where
  "plm_drop A s = s\<lparr>m_masterList := filter (\<lambda>p. p \<notin> A) (m_masterList s),
     m_externalList := filter (\<lambda>p. p \<notin> A) (m_externalList s),
     m_shuffleList := filter (\<lambda>p. p \<notin> A) (m_shuffleList s)\<rparr>"

text \<open>The list invariant but for the position.\<close>

definition plm_lists_nc :: "plm \<Rightarrow> bool" where
  "plm_lists_nc s \<longleftrightarrow> (\<exists>c. plm_lists_ok (s\<lparr>m_current := c\<rparr>))"

lemma plm_lists_ok_nc: "plm_lists_ok s \<Longrightarrow> plm_lists_nc s"
  unfolding plm_lists_nc_def by (rule exI [of _ "m_current s"]) simp

lemma plm_lists_ncI:
  assumes "plm_lists_nc s" and "m_masterList s \<noteq> []" and "i < length (m_masterList s)"
  shows "plm_lists_ok (s\<lparr>m_current := i\<rparr>)"
proof -
  from assms(1) obtain c where "plm_lists_ok (s\<lparr>m_current := c\<rparr>)" by (auto simp: plm_lists_nc_def)
  from plm_lists_ok_current [OF this, of i] show ?thesis using assms(3) by simp
qed

lemma plm_lists_nc_Nil:
  assumes "plm_lists_nc s" and "m_masterList s = []"
  shows "plm_lists_ok (s\<lparr>m_current := kInvalidIndex\<rparr>)"
  using assms by (auto simp: plm_lists_nc_def plm_lists_ok_def)

lemma plm_lists_ncD:
  assumes "plm_lists_nc s"
  shows "distinct (m_masterList s)" "distinct (m_externalList s)" "distinct (m_shuffleList s)"
    "set (m_masterList s) \<inter> set (m_externalList s) = {}" "set (m_shuffleList s) = set (m_masterList s)"
    "NULL \<notin> set (m_masterList s)" "NULL \<notin> set (m_externalList s)"
    "length (m_masterList s) < kMaxItems" "length (m_externalList s) < kMaxItems"
    "length (m_shuffleList s) = length (m_masterList s)"
    "m_activeList s = MasterList \<longleftrightarrow> m_playlistKey s = kPlaylistKey_MasterPlaylist"
    "m_activeList s \<noteq> PortableList"
proof -
  from assms obtain c where ok: "plm_lists_ok (s\<lparr>m_current := c\<rparr>)" by (auto simp: plm_lists_nc_def)
  show "distinct (m_masterList s)" "distinct (m_externalList s)" "distinct (m_shuffleList s)"
    "set (m_masterList s) \<inter> set (m_externalList s) = {}" "set (m_shuffleList s) = set (m_masterList s)"
    "NULL \<notin> set (m_masterList s)" "NULL \<notin> set (m_externalList s)"
    "length (m_masterList s) < kMaxItems" "length (m_externalList s) < kMaxItems"
    "length (m_shuffleList s) = length (m_masterList s)"
    "m_activeList s = MasterList \<longleftrightarrow> m_playlistKey s = kPlaylistKey_MasterPlaylist"
    "m_activeList s \<noteq> PortableList"
    using plm_lists_okD [OF ok] plm_shuffle_list [OF ok] by simp_all
qed

lemma plm_drop_nc:
  assumes "plm_lists_nc s"
  shows "plm_lists_nc (plm_drop A s)"
proof -
  from assms obtain c where ok: "plm_lists_ok (s\<lparr>m_current := c\<rparr>)" by (auto simp: plm_lists_nc_def)
  let ?m = "filter (\<lambda>p. p \<notin> A) (m_masterList s)"
  have len: "length ?m < kMaxItems" "length (filter (\<lambda>p. p \<notin> A) (m_externalList s)) < kMaxItems"
    using plm_lists_okD(6,7) [OF ok] by (simp_all add: le_less_trans [OF length_filter_le])
  have "mset (m_shuffleList s) = mset (m_masterList s)" using plm_lists_okD(8) [OF ok] by simp
  then have ms: "mset (filter (\<lambda>p. p \<notin> A) (m_shuffleList s)) = mset ?m"
    by (simp only: mset_filter)
  have "plm_lists_ok ((plm_drop A s)\<lparr>m_current := if ?m = [] then kInvalidIndex else 0\<rparr>)"
    unfolding plm_lists_ok_def plm_drop_def using plm_lists_okD [OF ok] len ms by auto
  then show ?thesis unfolding plm_lists_nc_def by blast
qed

lemma plm_drop_fields [simp]:
  "m_activeList (plm_drop A s) = m_activeList s" "m_playlistKey (plm_drop A s) = m_playlistKey s"
  "m_shuffle (plm_drop A s) = m_shuffle s" "m_current (plm_drop A s) = m_current s"
  "plm_heap (plm_drop A s) = plm_heap s" "plm_threads (plm_drop A s) = plm_threads s"
  "plm_next (plm_drop A s) = plm_next s" "plm_events (plm_drop A s) = plm_events s"
  "m_masterList (plm_drop A s) = filter (\<lambda>p. p \<notin> A) (m_masterList s)"
  "m_shuffleList (plm_drop A s) = filter (\<lambda>p. p \<notin> A) (m_shuffleList s)"
  "m_externalList (plm_drop A s) = filter (\<lambda>p. p \<notin> A) (m_externalList s)"
  by (simp_all add: plm_drop_def)

lemma plm_drop_active:
  "plm_lists_nc s \<Longrightarrow> plm_active (plm_drop A s) = filter (\<lambda>p. p \<notin> A) (plm_active s)"
  using plm_lists_ncD(12) [of s] by (cases "m_activeList s") (simp_all add: plm_active_def)

lemma plm_drop_drop: "plm_drop A (plm_drop B s) = plm_drop (A \<union> B) s"
proof -
  have "filter (\<lambda>p. p \<notin> A) (filter (\<lambda>p. p \<notin> B) xs) = filter (\<lambda>p. p \<notin> A \<union> B) xs" for xs :: "ptr list"
    by (simp add: conj_commute)
  then show ?thesis by (simp only: plm_drop_def) simp
qed

lemma plm_drop_mem_ok: "plm_mem_ok s \<Longrightarrow> plm_mem_ok (plm_drop A s)"
  by (rule plm_mem_okI_same [of s]) auto

lemma erase_filter:
  "distinct xs \<Longrightarrow> i < length xs \<Longrightarrow>
   take i xs @ drop (Suc i) xs = filter (\<lambda>p. p \<notin> {xs ! i}) xs"
proof (induction xs arbitrary: i)
  case Nil
  then show ?case by simp
next
  case (Cons x xs)
  show ?case
  proof (cases i)
    case 0
    then have "x \<notin> set xs" using Cons.prems(1) by simp
    then have "filter (\<lambda>p. p \<noteq> x) xs = xs" by (auto simp: filter_id_conv)
    then show ?thesis using 0 by simp
  next
    case (Suc j)
    then show ?thesis using Cons by auto
  qed
qed

lemma filter_absent: "p \<notin> set xs \<Longrightarrow> filter (\<lambda>q. q \<notin> {p}) xs = xs"
  by (auto simp: filter_id_conv)

text \<open>What one round of a removal does to the lists.\<close>

lemma plm_erase_step:
  assumes nc: "plm_lists_nc s" and p: "p \<in> set (plm_active s)"
  shows "(if m_playlistKey s = kPlaylistKey_MasterPlaylist
      then plm_erase_shuffle p (plm_set_active (filter (\<lambda>q. q \<notin> {p}) (plm_active s)) s)
      else Some (plm_set_active (filter (\<lambda>q. q \<notin> {p}) (plm_active s)) s)) = Some (plm_drop {p} s)"
proof (cases "m_playlistKey s = kPlaylistKey_MasterPlaylist")
  case True
  then have m: "m_activeList s = MasterList" using plm_lists_ncD(11) [OF nc] by simp
  then have pm: "p \<in> set (m_masterList s)" "p \<in> set (m_shuffleList s)" "p \<notin> set (m_externalList s)"
    using p plm_lists_ncD(4,5) [OF nc] by (auto simp: plm_active_def)
  have nn: "p \<noteq> NULL" using pm(1) plm_lists_ncD(6) [OF nc] by metis
  let ?i = "index_loop p (m_shuffleList s) 0"
  have i: "?i < length (m_shuffleList s)" "m_shuffleList s ! ?i = p"
    using index_loop_mem [OF pm(2)] plm_lists_ncD(8,10) [OF nc] by simp_all
  then have "vec_erase (m_shuffleList s) ?i = Some (filter (\<lambda>q. q \<notin> {p}) (m_shuffleList s))"
    using erase_filter [OF plm_lists_ncD(3) [OF nc] i(1)] by simp
  moreover have "?i < 2147483648" using i(1) plm_lists_ncD(8,10) [OF nc] by simp
  ultimately have "plm_erase_shuffle p (plm_set_active (filter (\<lambda>q. q \<notin> {p}) (plm_active s)) s) =
      Some (s\<lparr>m_masterList := filter (\<lambda>q. q \<notin> {p}) (m_masterList s),
        m_shuffleList := filter (\<lambda>q. q \<notin> {p}) (m_shuffleList s)\<rparr>)"
    using m nn by (simp add: plm_erase_shuffle_def plm_set_active_def plm_active_def)
  then show ?thesis using True filter_absent [OF pm(3)] by (simp add: plm_drop_def)
next
  case False
  then have e: "m_activeList s = ExternalList"
    using plm_lists_ncD(11,12) [OF nc] by (cases "m_activeList s") auto
  then have pe: "p \<in> set (m_externalList s)" "p \<notin> set (m_masterList s)" "p \<notin> set (m_shuffleList s)"
    using p plm_lists_ncD(4,5) [OF nc] by (auto simp: plm_active_def)
  then have "plm_drop {p} s = s\<lparr>m_externalList := filter (\<lambda>q. q \<notin> {p}) (m_externalList s)\<rparr>"
    unfolding plm_drop_def filter_absent [OF pe(2)] filter_absent [OF pe(3)] by simp
  then show ?thesis using False e by (simp add: plm_set_active_def plm_active_def)
qed

lemma plm_dispose_ok:
  assumes mem: "plm_mem_ok (plm_drop {p} s)"
    and it: "plm_heap s p = Some it" "it_state it \<noteq> kPlaylistItemState_Delete"
  shows "\<exists>h. dispose_heap (plm_heap s) p = Some h \<and> plm_mem_ok ((plm_drop {p} s)\<lparr>plm_heap := h\<rparr>) \<and>
    (\<forall>q. q \<noteq> p \<longrightarrow> h q = plm_heap s q) \<and>
    h p = (if it_state it = kPlaylistItemState_RetrievingMetaData
      then Some (it\<lparr>it_state := kPlaylistItemState_Delete\<rparr>) else None)"
proof -
  let ?t = "plm_drop {p} s"
  have pend: "plm_pending (?t\<lparr>plm_heap := h\<rparr>) = plm_pending ?t" for h by (simp add: plm_pending_def)
  have notin: "p \<notin> set (m_masterList ?t)" "p \<notin> set (m_externalList ?t)" by simp_all
  show ?thesis
  proof (cases "it_state it = kPlaylistItemState_RetrievingMetaData")
    case True
    let ?h = "(plm_heap s)(p \<mapsto> it\<lparr>it_state := kPlaylistItemState_Delete\<rparr>)"
    have "plm_mem_ok (?t\<lparr>plm_heap := ?h\<rparr>)"
      unfolding plm_mem_ok_def pend
      using plm_mem_okD [OF mem] it notin by (auto simp: dom_def)
    then show ?thesis using True it by (intro exI [of _ ?h]) (simp add: dispose_heap_def)
  next
    case False
    then have "it_state it = kPlaylistItemState_Normal" using it(2) by (cases "it_state it") auto
    then have "p \<notin> set (plm_pending ?t)" using plm_mem_okD(6) [OF mem, of p] it(1) by auto
    let ?h = "(plm_heap s)(p := None)"
    have "plm_mem_ok (?t\<lparr>plm_heap := ?h\<rparr>)"
      unfolding plm_mem_ok_def pend
    proof (intro conjI ballI)
      fix q
      show "0 < q" "q < plm_next (?t\<lparr>plm_heap := ?h\<rparr>)" if "q \<in> dom (plm_heap (?t\<lparr>plm_heap := ?h\<rparr>))"
        using that plm_mem_okD(2) [OF mem, of q] by (auto split: if_splits)
      show "\<exists>it. plm_heap (?t\<lparr>plm_heap := ?h\<rparr>) q = Some it \<and> it_state it \<noteq> kPlaylistItemState_Delete"
        if "q \<in> set (m_masterList (?t\<lparr>plm_heap := ?h\<rparr>)) \<union> set (m_externalList (?t\<lparr>plm_heap := ?h\<rparr>))"
        using that notin plm_mem_okD(3,4) [OF mem, of q] by auto
      show "\<exists>it. plm_heap (?t\<lparr>plm_heap := ?h\<rparr>) q = Some it \<and> it_state it \<noteq> kPlaylistItemState_Normal"
        if "q \<in> set (plm_pending ?t)"
        using that \<open>p \<notin> set (plm_pending ?t)\<close> plm_mem_okD(6) [OF mem, of q] by auto
    qed (use plm_mem_okD(1,5) [OF mem] in simp_all)
    then show ?thesis using False it by (intro exI [of _ ?h]) (simp add: dispose_heap_def)
  qed
qed

subsection \<open>Repairing the position\<close>

lemma plm_SetCurrentIndex_upd [simp]:
  "plm_SetCurrentIndex i (s\<lparr>m_current := j\<rparr>) = plm_SetCurrentIndex i s"
  by (simp add: plm_SetCurrentIndex_def plm_CheckIndex_def plm_CountItems_def plm_ItemAt_def
    plm_active_def Let_def cong: list_id.case_cong)

lemma plm_SetCurrentIndex_nc:
  assumes nc: "plm_lists_nc s" and m: "m_activeList s = MasterList" and i: "i < length (m_masterList s)"
  shows "\<exists>c ev. plm_SetCurrentIndex i s = Some (kError_NoErr, s\<lparr>m_current := c, plm_events := ev\<rparr>) \<and>
    plm_lists_ok (s\<lparr>m_current := c, plm_events := ev\<rparr>) \<and>
    plm_GetCurrentItem (s\<lparr>m_current := c, plm_events := ev\<rparr>) = Some (m_masterList s ! i)"
proof -
  have ne: "m_masterList s \<noteq> []" using i by auto
  let ?s = "s\<lparr>m_current := i\<rparr>"
  have ok: "plm_lists_ok ?s" by (rule plm_lists_ncI [OF nc ne i])
  have m': "m_activeList ?s = MasterList" and i': "i < length (m_masterList ?s)"
    and ne': "m_masterList ?s \<noteq> []" using m i ne by simp_all
  let ?t = "plm_emit (PlaylistCurrentItemInfoEvent (m_masterList s ! i)) (s\<lparr>m_current := plm_play_index s i\<rparr>)"
  have pi: "plm_play_index ?s i = plm_play_index s i" by (simp add: plm_play_index_def)
  have "plm_SetCurrentIndex i s = Some (kError_NoErr, ?t)"
    using plm_SetCurrentIndex_ok [OF ok m' i'] pi by simp
  moreover have "plm_lists_ok ?t" using plm_SetCurrentIndex_keeps [OF ok m' i'] pi by simp
  moreover have "plm_GetCurrentItem ?t = Some (m_masterList s ! i)"
  proof -
    have "plm_play_list (s\<lparr>m_current := plm_play_index s i\<rparr>) = plm_play_list ?s"
      by (simp add: plm_play_list_def)
    then show ?thesis
      using plm_play_index [OF ok i'] plm_play_list(2) [OF ok] ne pi
      by (simp add: plm_GetCurrentItem_play)
  qed
  ultimately show ?thesis by (auto simp: plm_emit_def)
qed

lemma plm_after_remove_nonempty:
  assumes nc: "plm_lists_nc s" and m: "m_activeList s = MasterList" and ne: "m_masterList s \<noteq> []"
    and cur: "p \<noteq> NULL" and c: "m_current s \<noteq> kInvalidIndex"
  shows "\<exists>c ev. plm_after_remove p s = Some (s\<lparr>m_current := c, plm_events := ev\<rparr>) \<and>
    plm_lists_ok (s\<lparr>m_current := c, plm_events := ev\<rparr>) \<and>
    (p \<in> set (m_masterList s) \<longrightarrow>
      plm_GetCurrentItem (s\<lparr>m_current := c, plm_events := ev\<rparr>) = Some p)"
proof -
  have key: "m_playlistKey s = kPlaylistKey_MasterPlaylist" using plm_lists_ncD(11) [OF nc] m by simp
  have a: "plm_active s = m_masterList s" by (rule plm_active_master [OF m])
  have len: "length (m_masterList s) \<le> kInvalidIndex" using plm_lists_ncD(8) [OF nc] by simp
  let ?j = "index_loop p (m_masterList s) 0"
  define k where "k = (if ?j \<noteq> kInvalidIndex then ?j
    else if m_current s \<ge> length (m_masterList s) then length (m_masterList s) - 1 else m_current s)"
  have k: "k < length (m_masterList s)"
    using index_loop_mem(1) [OF _ len] index_loop_invalid_iff [OF len] ne
    by (auto simp: k_def not_le)
  have "u32_sub (length (m_masterList s)) 1 = length (m_masterList s) - 1"
    using u32_sub_length_1 [OF ne len] by simp
  then have run: "plm_after_remove p s = do { (_, s1) \<leftarrow> plm_SetCurrentIndex k s; Some s1 }"
    using key cur c by (auto simp: plm_after_remove_def a k_def)
  moreover have "m_masterList s ! k = p" if "p \<in> set (m_masterList s)"
    using that index_loop_mem [OF that len] index_loop_invalid_iff [OF len, of p] by (simp add: k_def)
  moreover obtain c' ev where "plm_SetCurrentIndex k s =
      Some (kError_NoErr, s\<lparr>m_current := c', plm_events := ev\<rparr>)"
    "plm_lists_ok (s\<lparr>m_current := c', plm_events := ev\<rparr>)"
    "plm_GetCurrentItem (s\<lparr>m_current := c', plm_events := ev\<rparr>) = Some (m_masterList s ! k)"
    using plm_SetCurrentIndex_nc [OF nc m k] by blast
  ultimately show ?thesis by (intro exI [of _ c'] exI [of _ ev]) simp
qed

lemma plm_after_remove_empty:
  assumes nc: "plm_lists_nc s" and m: "m_activeList s = MasterList" and e: "m_masterList s = []"
    and p: "p \<noteq> NULL"
  shows "plm_after_remove p s = (if m_shuffle s then None else Some (s\<lparr>m_current := kInvalidIndex\<rparr>))"
proof -
  have key: "m_playlistKey s = kPlaylistKey_MasterPlaylist" using plm_lists_ncD(11) [OF nc] m by simp
  have a: "plm_active s = []" using m e by (simp add: plm_active_def)
  have ci: "plm_CheckIndex s i = kInvalidIndex" for i
    by (simp add: plm_CheckIndex_def plm_CountItems_def a)
  have at: "plm_ItemAt s i = Some NULL" for i by (simp add: plm_ItemAt_def ci Let_def)
  have "plm_SetCurrentIndex i s =
      (if m_shuffle s then None else Some (kError_NoErr, s\<lparr>m_current := kInvalidIndex\<rparr>))" for i
    by (simp add: plm_SetCurrentIndex_def ci at Let_def)
  then show ?thesis using key p by (simp add: plm_after_remove_def a)
qed

lemma plm_after_remove_external:
  "m_playlistKey s \<noteq> kPlaylistKey_MasterPlaylist \<Longrightarrow> plm_after_remove p s = Some s"
  by (simp add: plm_after_remove_def)

subsection \<open>The operations\<close>

lemma plm_lists_ok_same_current [simp]:
  "m_current s = c \<Longrightarrow> plm_lists_ok (s\<lparr>m_current := c\<rparr>) = plm_lists_ok s"
  by auto

lemma plm_mem_ok_current [simp]: "plm_mem_ok (s\<lparr>m_current := i\<rparr>) = plm_mem_ok s"
  by (simp add: plm_mem_ok_def plm_pending_def)

lemma plm_after_remove_ok:
  assumes nc: "plm_lists_nc t" and mem: "plm_mem_ok t"
    and m: "m_activeList t = MasterList \<Longrightarrow> p \<noteq> NULL \<and>
      (if m_masterList t = [] then \<not> m_shuffle t else m_current t \<noteq> kInvalidIndex)"
    and e: "m_activeList t = ExternalList \<Longrightarrow> plm_lists_ok t"
  shows "\<exists>c ev. plm_after_remove p t = Some (t\<lparr>m_current := c, plm_events := ev\<rparr>) \<and>
    plm_lists_ok (t\<lparr>m_current := c, plm_events := ev\<rparr>) \<and>
    plm_mem_ok (t\<lparr>m_current := c, plm_events := ev\<rparr>) \<and>
    (m_activeList t = MasterList \<and> p \<in> set (m_masterList t) \<longrightarrow>
      plm_GetCurrentItem (t\<lparr>m_current := c, plm_events := ev\<rparr>) = Some p) \<and>
    (m_activeList t = ExternalList \<longrightarrow>
      plm_GetCurrentItem (t\<lparr>m_current := c, plm_events := ev\<rparr>) = plm_GetCurrentItem t)"
proof -
  have mem': "plm_mem_ok (t\<lparr>m_current := c, plm_events := ev\<rparr>)" for c ev
    by (rule plm_mem_okI_same [OF mem]) simp_all
  consider (m) "m_activeList t = MasterList" "m_masterList t \<noteq> []"
    | (n) "m_activeList t = MasterList" "m_masterList t = []"
    | (x) "m_activeList t = ExternalList"
    using plm_lists_ncD(12) [OF nc] by (cases "m_activeList t") auto
  then show ?thesis
  proof cases
    case m
    then show ?thesis
      using plm_after_remove_nonempty [OF nc m(1,2), of p] assms(3) mem' by auto
  next
    case n
    have "plm_after_remove p t = Some (t\<lparr>m_current := kInvalidIndex, plm_events := plm_events t\<rparr>)"
      using plm_after_remove_empty [OF nc n(1,2), of p] n assms(3) by auto
    moreover have "plm_lists_ok (t\<lparr>m_current := kInvalidIndex, plm_events := plm_events t\<rparr>)"
      using plm_lists_nc_Nil [OF nc n(2)] by simp
    ultimately show ?thesis
      using n mem by (intro exI [of _ kInvalidIndex] exI [of _ "plm_events t"]) auto
  next
    case x
    have "m_playlistKey t \<noteq> kPlaylistKey_MasterPlaylist" using plm_lists_ncD(11) [OF nc] x by simp
    then have "plm_after_remove p t = Some (t\<lparr>m_current := m_current t, plm_events := plm_events t\<rparr>)"
      by (simp add: plm_after_remove_external)
    then show ?thesis
      using x e [OF x] mem by (intro exI [of _ "m_current t"] exI [of _ "plm_events t"]) auto
  qed
qed

lemma plm_active_live:
  assumes "plm_lists_nc s" and "plm_mem_ok s" and "p \<in> set (plm_active s)"
  shows "\<exists>it. plm_heap s p = Some it \<and> it_state it \<noteq> kPlaylistItemState_Delete"
  using assms(3) plm_mem_okD(3,4) [OF assms(2), of p] plm_lists_ncD(12) [OF assms(1)]
  by (cases "m_activeList s") (auto simp: plm_active_def)

text \<open>What becomes of a removed item.\<close>

definition disposed :: "plm \<Rightarrow> plm \<Rightarrow> ptr \<Rightarrow> bool" where
  "disposed s t p \<longleftrightarrow> (case plm_heap s p of None \<Rightarrow> False | Some it \<Rightarrow>
     plm_heap t p = (if it_state it = kPlaylistItemState_RetrievingMetaData
       then Some (it\<lparr>it_state := kPlaylistItemState_Delete\<rparr>) else None))"

lemma plm_drop_heap [simp]: "plm_drop A (s\<lparr>plm_heap := h\<rparr>) = (plm_drop A s)\<lparr>plm_heap := h\<rparr>"
  by (simp add: plm_drop_def)

lemma plm_lists_nc_upd [simp]:
  "plm_lists_nc (s\<lparr>plm_heap := h\<rparr>) = plm_lists_nc s" "plm_lists_nc (plm_emit e s) = plm_lists_nc s"
  "plm_lists_nc (s\<lparr>m_current := i\<rparr>) = plm_lists_nc s" "plm_lists_nc (s\<lparr>plm_events := ev\<rparr>) = plm_lists_nc s"
  by (simp_all add: plm_lists_nc_def plm_lists_ok_def plm_emit_def)

lemma plm_GetCurrentItem_heap [simp]: "plm_GetCurrentItem (s\<lparr>plm_heap := h\<rparr>) = plm_GetCurrentItem s"
  by (simp add: plm_GetCurrentItem_def)

lemma plm_events_upd [simp]:
  "plm_lists_ok (s\<lparr>plm_events := ev\<rparr>) = plm_lists_ok s"
  "plm_GetCurrentItem (s\<lparr>plm_events := ev\<rparr>) = plm_GetCurrentItem s"
  by (simp_all add: plm_lists_ok_def plm_GetCurrentItem_def)

lemma plm_lists_ok_heap [simp]: "plm_lists_ok (s\<lparr>plm_heap := h\<rparr>) = plm_lists_ok s"
  by (simp add: plm_lists_ok_def)

text \<open>In the external list the position does not care.\<close>

lemma plm_drop_external:
  assumes ok: "plm_lists_ok s" and e: "m_activeList s = ExternalList" and A: "A \<subseteq> set (m_externalList s)"
  shows "plm_lists_ok (plm_drop A s)" and "plm_GetCurrentItem (plm_drop A s) = plm_GetCurrentItem s"
proof -
  have "p \<notin> A" if "p \<in> set (m_masterList s)" for p using that A plm_lists_okD(3) [OF ok] by auto
  then have d: "plm_drop A s = s\<lparr>m_externalList := filter (\<lambda>p. p \<notin> A) (m_externalList s)\<rparr>"
    using plm_shuffle_list(1) [OF ok] by (simp add: plm_drop_def filter_id_conv)
  have "length (filter (\<lambda>p. p \<notin> A) (m_externalList s)) < kMaxItems"
    using plm_lists_okD(7) [OF ok] by (simp add: le_less_trans [OF length_filter_le])
  then show "plm_lists_ok (plm_drop A s)"
    unfolding d plm_lists_ok_def using plm_lists_okD [OF ok] by auto
  show "plm_GetCurrentItem (plm_drop A s) = plm_GetCurrentItem s"
    unfolding d by (simp add: plm_GetCurrentItem_def)
qed

lemma plm_RemoveItem_ok:
  assumes ok: "plm_lists_ok s" and mem: "plm_mem_ok s" and i: "i < length (plm_active s)"
    and last: "m_activeList s = MasterList \<Longrightarrow> m_shuffle s \<Longrightarrow> 1 < length (m_masterList s)"
    and cur: "plm_GetCurrentItem s = Some cur"
  shows "\<exists>t. plm_RemoveItem i s = Some (kError_NoErr, t) \<and> plm_lists_ok t \<and> plm_mem_ok t \<and>
    plm_active t = take i (plm_active s) @ drop (Suc i) (plm_active s) \<and>
    disposed s t (plm_active s ! i) \<and>
    (m_activeList s = ExternalList \<or> cur \<noteq> plm_active s ! i \<longrightarrow> plm_GetCurrentItem t = Some cur)"
proof -
  let ?p = "plm_active s ! i"
  note nc = plm_lists_ok_nc [OF ok]
  have ip: "?p \<in> set (plm_active s)" using i by simp
  have iv: "plm_CheckIndex s i = i" "i \<noteq> kInvalidIndex"
    using i plm_active_ok(3) [OF ok] by (simp_all add: plm_CheckIndex_simps)
  have er: "take i (plm_active s) @ drop (Suc i) (plm_active s) =
      filter (\<lambda>q. q \<notin> {?p}) (plm_active s)"
    by (rule erase_filter [OF plm_active_ok(1) [OF ok] i])
  obtain it where it: "plm_heap s ?p = Some it" "it_state it \<noteq> kPlaylistItemState_Delete"
    using plm_active_live [OF nc mem ip] by blast
  let ?d = "plm_drop {?p} s"
  obtain h where h: "dispose_heap (plm_heap s) ?p = Some h" "plm_mem_ok (?d\<lparr>plm_heap := h\<rparr>)"
    "h ?p = (if it_state it = kPlaylistItemState_RetrievingMetaData
      then Some (it\<lparr>it_state := kPlaylistItemState_Delete\<rparr>) else None)"
    using plm_dispose_ok [OF plm_drop_mem_ok [OF mem] it] by blast
  have ad: "plm_active ?d = filter (\<lambda>q. q \<notin> {?p}) (plm_active s)" by (rule plm_drop_active [OF nc])
  let ?c = "if m_playlistKey s = kPlaylistKey_MasterPlaylist \<and> plm_active ?d = []
    then kInvalidIndex else m_current s"
  let ?t = "?d\<lparr>m_current := ?c, plm_heap := h\<rparr>"
  have disp: "plm_dispose ?p (?d\<lparr>m_current := ?c\<rparr>) = Some ?t"
    using h(1) by (simp add: plm_dispose_def)
  have nt: "plm_lists_nc ?t" using plm_drop_nc [OF nc, of "{?p}"] by simp
  have mt: "plm_mem_ok ?t" using h(2) by (rule plm_mem_okI_same) simp_all
  have "\<exists>c ev. plm_after_remove cur ?t = Some (?t\<lparr>m_current := c, plm_events := ev\<rparr>) \<and>
    plm_lists_ok (?t\<lparr>m_current := c, plm_events := ev\<rparr>) \<and>
    plm_mem_ok (?t\<lparr>m_current := c, plm_events := ev\<rparr>) \<and>
    (m_activeList ?t = MasterList \<and> cur \<in> set (m_masterList ?t) \<longrightarrow>
      plm_GetCurrentItem (?t\<lparr>m_current := c, plm_events := ev\<rparr>) = Some cur) \<and>
    (m_activeList ?t = ExternalList \<longrightarrow>
      plm_GetCurrentItem (?t\<lparr>m_current := c, plm_events := ev\<rparr>) = plm_GetCurrentItem ?t)"
  proof (rule plm_after_remove_ok [OF nt mt])
    assume "m_activeList ?t = MasterList"
    then have m: "m_activeList s = MasterList" by simp
    then have ne: "m_masterList s \<noteq> []" and am: "plm_active s = m_masterList s"
      using i by (auto simp: plm_active_def)
    have len: "length (m_masterList ?t) = length (m_masterList s) - 1"
      using er i by (simp add: am) (metis length_erase One_nat_def am)
    have "m_current s \<noteq> kInvalidIndex" using plm_lists_okD(12) [OF ok ne] plm_lists_okD(6) [OF ok] by simp
    moreover have "plm_active ?d = m_masterList ?t" using m by (simp add: plm_active_def)
    ultimately show "cur \<noteq> NULL \<and>
      (if m_masterList ?t = [] then \<not> m_shuffle ?t else m_current ?t \<noteq> kInvalidIndex)"
      using plm_GetCurrentItem_ok [OF ok] cur ne last m len by (auto simp del: plm_drop_fields(9))
  next
    assume "m_activeList ?t = ExternalList"
    then have e: "m_activeList s = ExternalList" by simp
    then have "{?p} \<subseteq> set (m_externalList s)" using ip by (simp add: plm_active_def)
    then have "plm_lists_ok ?d" by (rule plm_drop_external(1) [OF ok e])
    then show "plm_lists_ok ?t" using e plm_lists_okD(10) [OF ok] by simp
  qed
  then obtain c ev where ar: "plm_after_remove cur ?t = Some (?t\<lparr>m_current := c, plm_events := ev\<rparr>)"
    "plm_lists_ok (?t\<lparr>m_current := c, plm_events := ev\<rparr>)"
    "plm_mem_ok (?t\<lparr>m_current := c, plm_events := ev\<rparr>)"
    "m_activeList s = MasterList \<and> cur \<in> set (m_masterList ?t) \<longrightarrow>
      plm_GetCurrentItem (?t\<lparr>m_current := c, plm_events := ev\<rparr>) = Some cur"
    "m_activeList s = ExternalList \<longrightarrow>
      plm_GetCurrentItem (?t\<lparr>m_current := c, plm_events := ev\<rparr>) = plm_GetCurrentItem ?t" by auto
  let ?u = "plm_emit (PlaylistItemRemovedEvent [?p] [i]) (?t\<lparr>m_current := c, plm_events := ev\<rparr>)"
  have same: "?d\<lparr>m_current := m_current s\<rparr> = ?d" by (simp add: plm_drop_def)
  have "plm_RemoveItem i s = Some (kError_NoErr, ?u)"
  proof -
    have "plm_active (?d\<lparr>m_current := c\<rparr>) = plm_active ?d" for c
      by (simp add: plm_active_def split: list_id.splits)
    moreover have "vec_erase (plm_active s) i = Some (filter (\<lambda>q. q \<notin> {?p}) (plm_active s))"
      using i er by simp
    moreover have "vec_at (plm_active s) i = Some ?p" using i by simp
    moreover have "m_playlistKey (plm_set_active xs s) = m_playlistKey s" for xs by (simp add: plm_simps)
    ultimately show ?thesis
      using plm_erase_step [OF nc ip] disp ar(1) cur iv
      unfolding plm_RemoveItem_def by (simp add: same split: if_splits)
  qed
  moreover have "plm_lists_ok ?u" "plm_mem_ok ?u" using ar(2,3) by simp_all
  moreover have "plm_active ?u = take i (plm_active s) @ drop (Suc i) (plm_active s)"
  proof -
    have "plm_active ?u = plm_active ?d" by (simp add: plm_active_def plm_emit_def split: list_id.splits)
    then show ?thesis using ad er by simp
  qed
  moreover have "disposed s ?u ?p" using it(1) h(3) by (simp add: disposed_def plm_simps)
  moreover have "plm_GetCurrentItem ?u = Some cur" if "m_activeList s = ExternalList \<or> cur \<noteq> ?p"
  proof (cases "m_activeList s = ExternalList")
    case True
    then have "{?p} \<subseteq> set (m_externalList s)" using ip by (simp add: plm_active_def)
    from plm_drop_external(2) [OF ok True this]
    have "plm_GetCurrentItem ?t = Some cur"
      using cur True plm_lists_okD(10) [OF ok] by (simp add: same)
    then show ?thesis using ar(5) True by simp
  next
    case False
    then have m: "m_activeList s = MasterList" using plm_lists_okD(9) [OF ok] by (cases "m_activeList s") auto
    then have "m_masterList s \<noteq> []" using i by (auto simp: plm_active_def)
    then have "cur \<in> set (m_masterList ?t)" using plm_GetCurrentItem_ok [OF ok] cur that False by auto
    then show ?thesis using ar(4) m by simp
  qed
  ultimately show ?thesis by blast
qed

text \<open>The loops take out and dispose of all their items.\<close>

lemma plm_drop_empty [simp]: "plm_drop {} s = s"
  by (simp add: plm_drop_def)

lemma remove_items_loop_ok:
  "plm_lists_nc s \<Longrightarrow> plm_mem_ok s \<Longrightarrow> distinct ps \<Longrightarrow> set ps \<subseteq> set (plm_active s) \<Longrightarrow>
   \<exists>h ixs. remove_items_loop ps e s = Some (if ps = [] then e else kError_NoErr, ps, ixs,
        (plm_drop (set ps) s)\<lparr>plm_heap := h\<rparr>) \<and>
     plm_mem_ok ((plm_drop (set ps) s)\<lparr>plm_heap := h\<rparr>)"
proof (induction ps arbitrary: s e)
  case Nil
  then show ?case by (auto intro: exI [of _ "plm_heap s"])
next
  case (Cons p ps)
  note nc = Cons.prems(1) and mem = Cons.prems(2)
  have pa: "p \<in> set (plm_active s)" using Cons.prems(4) by simp
  have act: "distinct (plm_active s)" "NULL \<notin> set (plm_active s)" "length (plm_active s) < kMaxItems"
    using plm_lists_ncD [OF nc] by (cases "m_activeList s"; simp add: plm_active_def)+
  have nn: "p \<noteq> NULL" using pa act(2) by metis
  let ?i = "index_loop p (plm_active s) 0"
  have i: "?i < length (plm_active s)" "plm_active s ! ?i = p"
    using index_loop_mem [OF pa] act(3) by simp_all
  have er: "vec_erase (plm_active s) ?i = Some (filter (\<lambda>q. q \<notin> {p}) (plm_active s))"
    using erase_filter [OF act(1) i(1)] i by simp
  obtain it where it: "plm_heap s p = Some it" "it_state it \<noteq> kPlaylistItemState_Delete"
    using plm_active_live [OF nc mem pa] by blast
  obtain h where h: "dispose_heap (plm_heap s) p = Some h" "plm_mem_ok ((plm_drop {p} s)\<lparr>plm_heap := h\<rparr>)"
    using plm_dispose_ok [OF plm_drop_mem_ok [OF mem] it] by blast
  let ?t = "(plm_drop {p} s)\<lparr>plm_heap := h\<rparr>"
  have disp: "plm_dispose p (plm_drop {p} s) = Some ?t" using h(1) by (simp add: plm_dispose_def)
  have nt: "plm_lists_nc ?t" using plm_drop_nc [OF nc] by simp
  have "plm_active ?t = plm_active (plm_drop {p} s)"
    by (simp add: plm_active_def split: list_id.splits)
  then have "set ps \<subseteq> set (plm_active ?t)"
    using Cons.prems(3,4) plm_drop_active [OF nc, of "{p}"] by auto
  from Cons.IH [OF nt h(2) _ this, of kError_NoErr] Cons.prems(3) obtain h' ixs where
    rec: "remove_items_loop ps kError_NoErr ?t = Some (kError_NoErr, ps, ixs,
        (plm_drop (set ps) ?t)\<lparr>plm_heap := h'\<rparr>)"
      "plm_mem_ok ((plm_drop (set ps) ?t)\<lparr>plm_heap := h'\<rparr>)" by auto
  have all: "(plm_drop (set ps) ?t)\<lparr>plm_heap := h'\<rparr> = (plm_drop (set (p # ps)) s)\<lparr>plm_heap := h'\<rparr>"
    by (simp add: plm_drop_drop)
  have key: "m_playlistKey (plm_set_active xs s) = m_playlistKey s" for xs by (simp add: plm_simps)
  have "remove_items_loop (p # ps) e s = Some (kError_NoErr, p # ps, ?i # ixs,
      (plm_drop (set ps) ?t)\<lparr>plm_heap := h'\<rparr>)"
    using plm_erase_step [OF nc pa] nn er rec(1) disp by (simp add: key split: if_splits)
  then show ?case using rec(2) unfolding all by auto
qed

lemma nth_take_drop: "i < length xs \<Longrightarrow> take (Suc k) (drop i xs) = xs ! i # take k (drop (Suc i) xs)"
  by (simp add: Cons_nth_drop_Suc [symmetric])

lemma remove_range_loop_ok:
  "index + i + k \<le> length (plm_active s) \<Longrightarrow> length (plm_active s) < kMaxItems \<Longrightarrow>
   distinct (plm_active s) \<Longrightarrow> NULL \<notin> set (plm_active s) \<Longrightarrow>
   (m_playlistKey s = kPlaylistKey_MasterPlaylist \<Longrightarrow> distinct (m_shuffleList s) \<and>
      length (m_shuffleList s) < kMaxItems \<and>
      set (take k (drop (index + i) (plm_active s))) \<subseteq> set (m_shuffleList s)) \<Longrightarrow>
   (m_playlistKey s \<noteq> kPlaylistKey_MasterPlaylist \<Longrightarrow>
      set (plm_active s) \<inter> set (m_shuffleList s) = {}) \<Longrightarrow>
   plm_mem_ok (plm_drop (set (take i (drop index (plm_active s)))) s) \<Longrightarrow>
   \<forall>p \<in> set (take k (drop (index + i) (plm_active s))).
     \<exists>it. plm_heap s p = Some it \<and> it_state it \<noteq> kPlaylistItemState_Delete \<Longrightarrow>
   \<exists>h ixs. remove_range_loop index i k s = Some (take k (drop (index + i) (plm_active s)), ixs,
        s\<lparr>m_shuffleList := filter (\<lambda>p. p \<notin> set (take k (drop (index + i) (plm_active s)))) (m_shuffleList s),
          plm_heap := h\<rparr>) \<and>
     plm_mem_ok ((plm_drop (set (take (i + k) (drop index (plm_active s)))) s)\<lparr>plm_heap := h\<rparr>)"
proof (induction k arbitrary: i s)
  case 0
  then show ?case
    by (intro exI [of _ "plm_heap s"] exI [of _ "[]"]) (simp add: plm_drop_def)
next
  case (Suc k)
  let ?j = "index + i"
  let ?p = "plm_active s ! ?j"
  have j: "?j < length (plm_active s)" using Suc.prems(1) by simp
  then have u: "u32 ?j = ?j" "vec_at (plm_active s) ?j = Some ?p" using Suc.prems(2) by simp_all
  have split: "take (Suc k) (drop ?j (plm_active s)) = ?p # take k (drop (Suc ?j) (plm_active s))"
    by (rule nth_take_drop [OF j])
  have pa: "?p \<in> set (plm_active s)" using j by simp
  have nn: "?p \<noteq> NULL" using pa Suc.prems(4) by metis
  let ?sh = "filter (\<lambda>q. q \<notin> {?p}) (m_shuffleList s)"
  let ?s1 = "s\<lparr>m_shuffleList := ?sh\<rparr>"
  have step: "(if m_playlistKey s = kPlaylistKey_MasterPlaylist
       then do {
         s1 \<leftarrow> plm_erase_shuffle ?p s;
         Some (if length (plm_active s1) = 0 then s1\<lparr>m_current := kInvalidIndex\<rparr> else s1)
       }
       else Some s) = Some ?s1"
  proof (cases "m_playlistKey s = kPlaylistKey_MasterPlaylist")
    case True
    let ?i = "index_loop ?p (m_shuffleList s) 0"
    have "?p \<in> set (m_shuffleList s)" using Suc.prems(5) [OF True] unfolding split by simp
    then have i: "?i < length (m_shuffleList s)" "m_shuffleList s ! ?i = ?p"
      using index_loop_mem [of ?p "m_shuffleList s"] Suc.prems(5) [OF True] by simp_all
    then have "vec_erase (m_shuffleList s) ?i = Some ?sh"
      using erase_filter [of "m_shuffleList s" ?i] Suc.prems(5) [OF True] by simp
    then have "plm_erase_shuffle ?p s = Some ?s1"
      using i(1) nn Suc.prems(5) [OF True] by (simp add: plm_erase_shuffle_def)
    moreover have "plm_active ?s1 = plm_active s" by (simp add: plm_active_def split: list_id.splits)
    ultimately show ?thesis using True j by auto
  next
    case False
    then have "?p \<notin> set (m_shuffleList s)" using Suc.prems(6) pa by auto
    then have "?sh = m_shuffleList s" by (rule filter_absent)
    then show ?thesis using False by simp
  qed
  obtain it where it: "plm_heap s ?p = Some it" "it_state it \<noteq> kPlaylistItemState_Delete"
    using Suc.prems(8) unfolding split by auto
  let ?B = "set (take i (drop index (plm_active s)))"
  have B: "insert ?p ?B = set (take (Suc i) (drop index (plm_active s)))"
    using j by (simp add: take_Suc_conv_app_nth add.commute)
  obtain h where h: "dispose_heap (plm_heap s) ?p = Some h"
    "plm_mem_ok ((plm_drop ({?p} \<union> ?B) s)\<lparr>plm_heap := h\<rparr>)" "\<forall>q. q \<noteq> ?p \<longrightarrow> h q = plm_heap s q"
    using plm_dispose_ok [of ?p "plm_drop ?B s" it] plm_drop_mem_ok [OF Suc.prems(7), of "{?p}"] it
    by (auto simp: plm_drop_drop)
  let ?s2 = "?s1\<lparr>plm_heap := h\<rparr>"
  have disp: "plm_dispose ?p ?s1 = Some ?s2" using h(1) by (simp add: plm_dispose_def)
  have a2: "plm_active ?s2 = plm_active s" by (simp add: plm_active_def split: list_id.splits)
  have pnot: "?p \<notin> set (take k (drop (Suc ?j) (plm_active s)))"
    using Suc.prems(3) split by (metis distinct.simps(2) distinct_drop distinct_take)
  have "\<exists>h' ixs. remove_range_loop index (Suc i) k ?s2 = Some (take k (drop (index + Suc i) (plm_active ?s2)), ixs,
        ?s2\<lparr>m_shuffleList := filter (\<lambda>p. p \<notin> set (take k (drop (index + Suc i) (plm_active ?s2)))) (m_shuffleList ?s2),
          plm_heap := h'\<rparr>) \<and>
     plm_mem_ok ((plm_drop (set (take (Suc i + k) (drop index (plm_active ?s2)))) ?s2)\<lparr>plm_heap := h'\<rparr>)"
  proof (rule Suc.IH; (unfold a2)?)
    show "index + Suc i + k \<le> length (plm_active s)" using Suc.prems(1) by simp
    show "length (plm_active s) < kMaxItems" "distinct (plm_active s)" "0 \<notin> set (plm_active s)"
      by (fact Suc.prems)+
    show "distinct (m_shuffleList ?s2) \<and> length (m_shuffleList ?s2) < kMaxItems \<and>
      set (take k (drop (index + Suc i) (plm_active s))) \<subseteq> set (m_shuffleList ?s2)"
      if "m_playlistKey ?s2 = kPlaylistKey_MasterPlaylist"
      using that Suc.prems(5) pnot unfolding split by (auto simp: le_less_trans [OF length_filter_le])
    show "set (plm_active s) \<inter> set (m_shuffleList ?s2) = {}"
      if "m_playlistKey ?s2 \<noteq> kPlaylistKey_MasterPlaylist"
      using that Suc.prems(6) by auto
    have "plm_drop (insert ?p ?B) ?s2 = (plm_drop ({?p} \<union> ?B) s)\<lparr>plm_heap := h\<rparr>"
      by (auto simp: plm_drop_def intro!: arg_cong [of _ _ "\<lambda>f. filter f _"])
    then show "plm_mem_ok (plm_drop (set (take (Suc i) (drop index (plm_active s)))) ?s2)"
      unfolding B [symmetric] using h(2) by simp
    show "\<forall>p \<in> set (take k (drop (index + Suc i) (plm_active s))).
        \<exists>it. plm_heap ?s2 p = Some it \<and> it_state it \<noteq> kPlaylistItemState_Delete"
    proof
      fix p
      assume p: "p \<in> set (take k (drop (index + Suc i) (plm_active s)))"
      then have "p \<noteq> ?p" using pnot by auto
      then have "plm_heap ?s2 p = plm_heap s p" using h(3) by simp
      then show "\<exists>it. plm_heap ?s2 p = Some it \<and> it_state it \<noteq> kPlaylistItemState_Delete"
        using Suc.prems(8) p unfolding split by simp
    qed
  qed
  then obtain h' ixs where rec: "remove_range_loop index (Suc i) k ?s2 =
      Some (take k (drop (Suc ?j) (plm_active s)), ixs,
        ?s2\<lparr>m_shuffleList := filter (\<lambda>p. p \<notin> set (take k (drop (Suc ?j) (plm_active s)))) ?sh,
          plm_heap := h'\<rparr>)"
    "plm_mem_ok ((plm_drop (set (take (Suc i + k) (drop index (plm_active s)))) ?s2)\<lparr>plm_heap := h'\<rparr>)"
    unfolding a2 by auto
  have "?p \<in> set (take (Suc i + k) (drop index (plm_active s)))"
    using B by (metis in_set_takeD insertI1 le_add1 set_take_subset_set_take subsetD)
  then have "filter (\<lambda>x. x \<noteq> ?p \<and> x \<notin> set (take (Suc i + k) (drop index (plm_active s)))) xs =
      filter (\<lambda>x. x \<notin> set (take (Suc i + k) (drop index (plm_active s)))) xs" for xs
    by (intro filter_cong) auto
  then have "(plm_drop (set (take (Suc i + k) (drop index (plm_active s)))) ?s2)\<lparr>plm_heap := h'\<rparr> =
      (plm_drop (set (take (Suc i + k) (drop index (plm_active s)))) s)\<lparr>plm_heap := h'\<rparr>"
    by (simp add: plm_drop_def)
  moreover have "?s2\<lparr>m_shuffleList := filter (\<lambda>p. p \<notin> set (take k (drop (Suc ?j) (plm_active s)))) ?sh,
          plm_heap := h'\<rparr> = s\<lparr>m_shuffleList := filter (\<lambda>p. p \<notin> set (take (Suc k) (drop ?j (plm_active s))))
            (m_shuffleList s), plm_heap := h'\<rparr>"
    unfolding split by (simp add: conj_commute)
  ultimately show ?case
    using rec step disp u unfolding split by (intro exI [of _ h'] exI [of _ "?j # ixs"]) (simp del: split)
qed

text \<open>The end of both operations: the position after the items \<open>A\<close> are gone.\<close>

lemma plm_dropped_after:
  assumes ok: "plm_lists_ok s" and A: "A \<subseteq> set (plm_active s)"
    and last: "m_activeList s = MasterList \<Longrightarrow> m_masterList s \<noteq> [] \<and>
      (m_shuffle s \<longrightarrow> \<not> set (m_masterList s) \<subseteq> A)"
    and cur: "plm_GetCurrentItem s = Some cur"
    and mem: "plm_mem_ok ((plm_drop A s)\<lparr>plm_heap := h\<rparr>)"
  shows "\<exists>c ev'. plm_after_remove cur ((plm_drop A s)\<lparr>plm_heap := h, plm_events := ev\<rparr>) =
      Some ((plm_drop A s)\<lparr>plm_heap := h, m_current := c, plm_events := ev'\<rparr>) \<and>
    plm_lists_ok ((plm_drop A s)\<lparr>plm_heap := h, m_current := c, plm_events := ev'\<rparr>) \<and>
    plm_mem_ok ((plm_drop A s)\<lparr>plm_heap := h, m_current := c, plm_events := ev'\<rparr>) \<and>
    plm_active ((plm_drop A s)\<lparr>plm_heap := h, m_current := c, plm_events := ev'\<rparr>) =
      filter (\<lambda>p. p \<notin> A) (plm_active s) \<and>
    (m_activeList s = ExternalList \<or> cur \<notin> A \<longrightarrow>
      plm_GetCurrentItem ((plm_drop A s)\<lparr>plm_heap := h, m_current := c, plm_events := ev'\<rparr>) = Some cur)"
proof -
  note nc = plm_lists_ok_nc [OF ok]
  let ?t = "(plm_drop A s)\<lparr>plm_heap := h, plm_events := ev\<rparr>"
  have nt: "plm_lists_nc ?t"
    using plm_drop_nc [OF nc, of A] by simp
  have mt: "plm_mem_ok ?t" by (rule plm_mem_okI_same [OF mem]) simp_all
  have x: "plm_lists_ok ?t \<and> plm_GetCurrentItem ?t = Some cur" if e: "m_activeList s = ExternalList"
  proof -
    have "A \<subseteq> set (m_externalList s)" using A e by (simp add: plm_active_def)
    from plm_drop_external [OF ok e this] cur show ?thesis by simp
  qed
  have m: "cur \<noteq> NULL \<and> (if m_masterList ?t = [] then \<not> m_shuffle ?t else m_current ?t \<noteq> kInvalidIndex)"
    if "m_activeList s = MasterList"
  proof -
    have ne: "m_masterList s \<noteq> []" using last that by simp
    then have "m_current s \<noteq> kInvalidIndex" using plm_lists_okD(6,12) [OF ok] by simp
    moreover have "cur \<noteq> NULL" using plm_GetCurrentItem_ok [OF ok] cur ne by auto
    moreover have "\<not> m_shuffle s" if "m_masterList ?t = []"
      using that last \<open>m_activeList s = MasterList\<close> by (auto simp: filter_empty_conv)
    ultimately show ?thesis by (simp del: plm_drop_fields(9) add: plm_drop_fields(3))
  qed
  obtain c ev' where ar: "plm_after_remove cur ?t = Some (?t\<lparr>m_current := c, plm_events := ev'\<rparr>)"
    "plm_lists_ok (?t\<lparr>m_current := c, plm_events := ev'\<rparr>)"
    "plm_mem_ok (?t\<lparr>m_current := c, plm_events := ev'\<rparr>)"
    "m_activeList s = MasterList \<and> cur \<in> set (m_masterList ?t) \<longrightarrow>
      plm_GetCurrentItem (?t\<lparr>m_current := c, plm_events := ev'\<rparr>) = Some cur"
    "m_activeList s = ExternalList \<longrightarrow>
      plm_GetCurrentItem (?t\<lparr>m_current := c, plm_events := ev'\<rparr>) = plm_GetCurrentItem ?t"
    using plm_after_remove_ok [OF nt mt, of cur] m x by auto
  let ?u = "(plm_drop A s)\<lparr>plm_heap := h, m_current := c, plm_events := ev'\<rparr>"
  have u: "?t\<lparr>m_current := c, plm_events := ev'\<rparr> = ?u" by simp
  have a: "plm_active ?u = filter (\<lambda>p. p \<notin> A) (plm_active s)"
    using plm_drop_active [OF nc, of A] by (simp add: plm_active_def split: list_id.splits)
  have "plm_GetCurrentItem ?u = Some cur" if "m_activeList s = ExternalList \<or> cur \<notin> A"
  proof (cases "m_activeList s = ExternalList")
    case True
    then show ?thesis using ar(5) x by simp
  next
    case False
    then have mm: "m_activeList s = MasterList"
      using plm_lists_okD(9) [OF ok] by (cases "m_activeList s") auto
    then have "cur \<in> set (m_masterList ?t)"
      using plm_GetCurrentItem_ok [OF ok] cur last that by auto
    then show ?thesis using ar(4) mm by simp
  qed
  then show ?thesis using ar(1-3) a unfolding u by blast
qed

lemma plm_RemoveItems_ok:
  assumes ok: "plm_lists_ok s" and mem: "plm_mem_ok s" and ps: "distinct ps" "set ps \<subseteq> set (plm_active s)"
    and last: "m_activeList s = MasterList \<Longrightarrow> m_masterList s \<noteq> [] \<and>
      (m_shuffle s \<longrightarrow> \<not> set (m_masterList s) \<subseteq> set ps)"
    and cur: "plm_GetCurrentItem s = Some cur"
  shows "\<exists>t. plm_RemoveItems ps s = Some (if ps = [] then kError_InvalidParam else kError_NoErr, t) \<and>
    plm_lists_ok t \<and> plm_mem_ok t \<and>
    plm_active t = filter (\<lambda>p. p \<notin> set ps) (plm_active s) \<and>
    (m_activeList s = ExternalList \<or> cur \<notin> set ps \<longrightarrow> plm_GetCurrentItem t = Some cur)"
proof -
  obtain h ixs where loop: "remove_items_loop ps kError_InvalidParam s =
      Some (if ps = [] then kError_InvalidParam else kError_NoErr, ps, ixs, (plm_drop (set ps) s)\<lparr>plm_heap := h\<rparr>)"
    and mt: "plm_mem_ok ((plm_drop (set ps) s)\<lparr>plm_heap := h\<rparr>)"
    using remove_items_loop_ok [OF plm_lists_ok_nc [OF ok] mem ps] by blast
  obtain ev where em: "plm_emit (PlaylistItemRemovedEvent ps ixs) ((plm_drop (set ps) s)\<lparr>plm_heap := h\<rparr>) =
      (plm_drop (set ps) s)\<lparr>plm_heap := h, plm_events := ev\<rparr>"
    by (simp add: plm_emit_def)
  from plm_dropped_after [OF ok ps(2) last cur mt, of ev] show ?thesis
    using loop cur em by (auto simp: plm_RemoveItems_def)
qed

lemma erase_range_filter:
  "distinct xs \<Longrightarrow> i + n \<le> length xs \<Longrightarrow>
   take i xs @ drop (i + n) xs = filter (\<lambda>p. p \<notin> set (take n (drop i xs))) xs"
proof -
  assume d: "distinct xs" and n: "i + n \<le> length xs"
  have xs: "xs = take i xs @ take n (drop i xs) @ drop (i + n) xs"
    by (metis add.commute append_take_drop_id drop_drop)
  let ?a = "take i xs" and ?b = "take n (drop i xs)" and ?c = "drop (i + n) xs"
  have "set ?a \<inter> set ?b = {}" "set ?b \<inter> set ?c = {}"
    using d by (subst (asm) xs, auto)+
  then have "filter (\<lambda>p. p \<notin> set ?b) ?a = ?a" "filter (\<lambda>p. p \<notin> set ?b) ?c = ?c"
    by (auto simp only: filter_id_conv)
  moreover have "filter (\<lambda>p. p \<notin> set ?b) ?b = []" by (simp add: filter_empty_conv)
  ultimately have "filter (\<lambda>p. p \<notin> set ?b) (?a @ ?b @ ?c) = ?a @ ?c" by (simp only: filter_append append_Nil)
  then show ?thesis using xs by metis
qed

lemma plm_RemoveItems_range_ok:
  assumes ok: "plm_lists_ok s" and mem: "plm_mem_ok s" and i: "i < length (plm_active s)"
    and n: "i + n \<le> length (plm_active s)"
    and last: "m_activeList s = MasterList \<Longrightarrow> m_shuffle s \<Longrightarrow> n < length (m_masterList s)"
    and cur: "plm_GetCurrentItem s = Some cur"
  defines "ps \<equiv> take n (drop i (plm_active s))"
  shows "\<exists>t. plm_RemoveItems_range i n s = Some (kError_NoErr, t) \<and> plm_lists_ok t \<and> plm_mem_ok t \<and>
    plm_active t = filter (\<lambda>p. p \<notin> set ps) (plm_active s) \<and>
    (m_activeList s = ExternalList \<or> cur \<notin> set ps \<longrightarrow> plm_GetCurrentItem t = Some cur)"
proof -
  note nc = plm_lists_ok_nc [OF ok] and a = plm_active_ok [OF ok]
  have sub: "set ps \<subseteq> set (plm_active s)" unfolding ps_def by (meson in_set_dropD in_set_takeD subsetI)
  have live: "\<exists>it. plm_heap s p = Some it \<and> it_state it \<noteq> kPlaylistItemState_Delete" if "p \<in> set ps" for p
    using plm_active_live [OF nc mem] that sub by blast
  have iv: "plm_CheckIndex s i = i" "i \<noteq> kInvalidIndex"
    using i a(3) by (simp_all add: plm_CheckIndex_simps)
  have shuf: "m_playlistKey s = kPlaylistKey_MasterPlaylist \<Longrightarrow> set ps \<subseteq> set (m_shuffleList s)"
    "m_playlistKey s \<noteq> kPlaylistKey_MasterPlaylist \<Longrightarrow> set (plm_active s) \<inter> set (m_shuffleList s) = {}"
    using sub plm_external_key [OF ok] plm_shuffle_list(1) [OF ok] plm_lists_okD(3) [OF ok]
    by (auto simp: plm_active_def)
  have "\<exists>h ixs. remove_range_loop i 0 n s = Some (take n (drop (i + 0) (plm_active s)), ixs,
        s\<lparr>m_shuffleList := filter (\<lambda>p. p \<notin> set (take n (drop (i + 0) (plm_active s)))) (m_shuffleList s),
          plm_heap := h\<rparr>) \<and>
     plm_mem_ok ((plm_drop (set (take (0 + n) (drop i (plm_active s)))) s)\<lparr>plm_heap := h\<rparr>)"
    by (rule remove_range_loop_ok)
      (use n a shuf live mem plm_shuffle_list(2,3) [OF ok] plm_lists_okD(6) [OF ok] in \<open>auto simp: ps_def\<close>)
  then obtain h ixs where loop: "remove_range_loop i 0 n s = Some (ps, ixs,
        s\<lparr>m_shuffleList := filter (\<lambda>p. p \<notin> set ps) (m_shuffleList s), plm_heap := h\<rparr>)"
    and mt: "plm_mem_ok ((plm_drop (set ps) s)\<lparr>plm_heap := h\<rparr>)" by (auto simp: ps_def)
  let ?s2 = "plm_emit (PlaylistItemRemovedEvent ps ixs)
     (s\<lparr>m_shuffleList := filter (\<lambda>p. p \<notin> set ps) (m_shuffleList s), plm_heap := h\<rparr>)"
  have a2: "plm_active ?s2 = plm_active s" by (simp add: plm_active_def plm_emit_def split: list_id.splits)
  have er: "vec_erase_range (plm_active ?s2) i (i + n) = Some (filter (\<lambda>p. p \<notin> set ps) (plm_active s))"
    using erase_range_filter [OF a(1) n] n unfolding a2 by (simp add: vec_erase_range_def ps_def)
  have set: "plm_set_active (filter (\<lambda>p. p \<notin> set ps) (plm_active s)) ?s2 =
      (plm_drop (set ps) s)\<lparr>plm_heap := h, plm_events := plm_events ?s2\<rparr>"
  proof (cases "m_activeList s")
    case MasterList
    then have "set ps \<inter> set (m_externalList s) = {}"
      using sub plm_lists_okD(3) [OF ok] by (auto simp: plm_active_def)
    then have "filter (\<lambda>p. p \<notin> set ps) (m_externalList s) = m_externalList s" by (auto simp: filter_id_conv)
    then show ?thesis using MasterList by (simp add: plm_drop_def plm_emit_def plm_set_active_def plm_active_def)
  next
    case ExternalList
    then have "set ps \<inter> set (m_masterList s) = {}"
      using sub plm_lists_okD(3) [OF ok] by (auto simp: plm_active_def)
    then have "filter (\<lambda>p. p \<notin> set ps) (m_masterList s) = m_masterList s" by (auto simp: filter_id_conv)
    then show ?thesis using ExternalList by (simp add: plm_drop_def plm_emit_def plm_set_active_def plm_active_def)
  next
    case PortableList
    then show ?thesis using plm_lists_okD(9) [OF ok] by simp
  qed
  have "m_masterList s \<noteq> [] \<and> (m_shuffle s \<longrightarrow> \<not> set (m_masterList s) \<subseteq> set ps)"
    if m: "m_activeList s = MasterList"
  proof
    have am: "plm_active s = m_masterList s" by (rule plm_active_master [OF m])
    show "m_masterList s \<noteq> []" using i am by auto
    have "card (set ps) = n" using a(1) n by (simp add: ps_def distinct_card)
    moreover have "card (set (m_masterList s)) = length (m_masterList s)"
      using plm_lists_okD(1) [OF ok] by (rule distinct_card)
    ultimately show "m_shuffle s \<longrightarrow> \<not> set (m_masterList s) \<subseteq> set ps"
      using last [OF m] card_mono [of "set ps" "set (m_masterList s)"] by fastforce
  qed
  from plm_dropped_after [OF ok sub this cur mt, of "plm_events ?s2"] show ?thesis
    using loop iv cur er set by (auto simp: plm_RemoveItems_range_def Let_def)
qed

lemma remove_all_loop_ok:
  "plm_mem_ok (plm_drop A s) \<Longrightarrow> set ps \<subseteq> A \<Longrightarrow> distinct ps \<Longrightarrow> NULL \<notin> set ps \<Longrightarrow>
   \<forall>p \<in> set ps. \<exists>it. plm_heap s p = Some it \<and> it_state it \<noteq> kPlaylistItemState_Delete \<Longrightarrow>
   \<exists>h ixs. remove_all_loop ps i s = Some (ps, ixs, s\<lparr>plm_heap := h\<rparr>) \<and>
     plm_mem_ok ((plm_drop A s)\<lparr>plm_heap := h\<rparr>) \<and> (\<forall>p \<in> set ps. disposed s (s\<lparr>plm_heap := h\<rparr>) p) \<and>
     (\<forall>q. q \<notin> set ps \<longrightarrow> h q = plm_heap s q)"
proof (induction ps arbitrary: s i)
  case Nil
  then show ?case
    by (intro exI [of _ "plm_heap s"] exI [of _ "[]"]) (simp add: plm_drop_def)
next
  case (Cons p ps)
  then obtain it where it: "plm_heap s p = Some it" "it_state it \<noteq> kPlaylistItemState_Delete" by auto
  have "plm_drop {p} (plm_drop A s) = plm_drop A s"
    using Cons.prems(2) by (simp add: plm_drop_drop insert_absorb)
  then obtain h where h: "dispose_heap (plm_heap s) p = Some h" "plm_mem_ok ((plm_drop A s)\<lparr>plm_heap := h\<rparr>)"
    "\<forall>q. q \<noteq> p \<longrightarrow> h q = plm_heap s q"
    "h p = (if it_state it = kPlaylistItemState_RetrievingMetaData
      then Some (it\<lparr>it_state := kPlaylistItemState_Delete\<rparr>) else None)"
    using plm_dispose_ok [of p "plm_drop A s" it] Cons.prems(1) it by auto
  have mh: "plm_mem_ok (plm_drop A (s\<lparr>plm_heap := h\<rparr>))" using h(2) by simp
  obtain h' ixs where rec: "remove_all_loop ps (u32_sub i 1) (s\<lparr>plm_heap := h\<rparr>) =
      Some (ps, ixs, s\<lparr>plm_heap := h'\<rparr>)" "plm_mem_ok ((plm_drop A s)\<lparr>plm_heap := h'\<rparr>)"
    "\<forall>q \<in> set ps. disposed (s\<lparr>plm_heap := h\<rparr>) (s\<lparr>plm_heap := h'\<rparr>) q"
    "\<forall>q. q \<notin> set ps \<longrightarrow> h' q = h q"
    using Cons.IH [OF mh, of "u32_sub i 1"] Cons.prems(2-5) h(3) by fastforce
  have "plm_dispose p s = Some (s\<lparr>plm_heap := h\<rparr>)" using h(1) by (simp add: plm_dispose_def)
  then have "remove_all_loop (p # ps) i s = Some (p # ps, i # ixs, s\<lparr>plm_heap := h'\<rparr>)"
    using rec(1) Cons.prems(4) by simp
  moreover have "disposed s (s\<lparr>plm_heap := h'\<rparr>) q" if "q \<in> set (p # ps)" for q
  proof (cases "q = p")
    case True
    then show ?thesis using it(1) h(4) rec(4) Cons.prems(3) by (simp add: disposed_def)
  next
    case False
    then have "q \<in> set ps" "h q = plm_heap s q" using that h(3) by simp_all
    then show ?thesis
      using bspec [OF rec(3), of q] by (cases "plm_heap s q") (simp_all add: disposed_def)
  qed
  ultimately show ?case using rec(2,4) h(3) by (intro exI [of _ h'] exI [of _ "i # ixs"]) auto
qed

lemma plm_RemoveAll_ok:
  assumes ok: "plm_lists_ok s" and mem: "plm_mem_ok s"
  shows "\<exists>t. plm_RemoveAll s = Some (kError_NoErr, t) \<and> plm_lists_ok t \<and> plm_mem_ok t \<and>
    plm_active t = [] \<and> (\<forall>p \<in> set (plm_active s). disposed s t p) \<and>
    (\<forall>p. p \<notin> set (plm_active s) \<longrightarrow> plm_heap t p = plm_heap s p) \<and>
    (m_activeList s = ExternalList \<longrightarrow> plm_GetCurrentItem t = plm_GetCurrentItem s)"
proof -
  let ?A = "set (plm_active s)"
  note nc = plm_lists_ok_nc [OF ok] and a = plm_active_ok [OF ok]
  have live: "\<forall>p \<in> set (rev (plm_active s)).
      \<exists>it. plm_heap s p = Some it \<and> it_state it \<noteq> kPlaylistItemState_Delete"
    using plm_active_live [OF nc mem] by simp
  obtain h ixs where loop: "remove_all_loop (rev (plm_active s)) (u32_sub (length (plm_active s)) 1) s =
      Some (rev (plm_active s), ixs, s\<lparr>plm_heap := h\<rparr>)"
    and mt: "plm_mem_ok ((plm_drop ?A s)\<lparr>plm_heap := h\<rparr>)"
    and d: "\<forall>p \<in> ?A. disposed s (s\<lparr>plm_heap := h\<rparr>) p" "\<forall>q. q \<notin> ?A \<longrightarrow> h q = plm_heap s q"
    using remove_all_loop_ok [where i = "u32_sub (length (plm_active s)) 1",
      OF plm_drop_mem_ok [OF mem, of ?A] _ _ _ live] a by auto
  let ?e = "PlaylistItemRemovedEvent (rev (plm_active s)) ixs"
  have heap: "disposed s t p" if "plm_heap t = h" "p \<in> ?A" for t p
    using d(1) that by (cases "plm_heap s p") (auto simp: disposed_def)
  show ?thesis
  proof (cases "m_activeList s = MasterList")
    case True
    let ?t = "plm_emit ?e (s\<lparr>plm_heap := h, m_masterList := [], m_shuffleList := [], m_current := kInvalidIndex\<rparr>)"
    have key: "m_playlistKey s = kPlaylistKey_MasterPlaylist" using True plm_lists_okD(10) [OF ok] by simp
    have "plm_RemoveAll s = Some (kError_NoErr, ?t)"
      using loop True key by (simp add: plm_RemoveAll_def plm_emit_def plm_set_active_def)
    moreover have "plm_lists_ok ?t"
      using plm_lists_okD [OF ok] by (simp add: plm_lists_ok_def plm_simps)
    moreover have "plm_mem_ok ?t"
      by (rule plm_mem_okI_same [OF mt])
        (use plm_lists_okD(3) [OF ok] True in \<open>auto simp: plm_simps plm_active_def\<close>)
    moreover have "plm_active ?t = []" using True by (simp add: plm_active_def plm_emit_def)
    moreover have "plm_heap ?t = h" by (simp add: plm_simps)
    ultimately show ?thesis using heap d(2) True by (intro exI [of _ ?t]) auto
  next
    case False
    then have e: "m_activeList s = ExternalList"
      using plm_lists_okD(9) [OF ok] by (cases "m_activeList s") auto
    let ?t = "plm_emit ?e (s\<lparr>plm_heap := h, m_externalList := []\<rparr>)"
    have key: "m_playlistKey s \<noteq> kPlaylistKey_MasterPlaylist" using False plm_lists_okD(10) [OF ok] by simp
    have "plm_RemoveAll s = Some (kError_NoErr, ?t)"
      using loop e key by (simp add: plm_RemoveAll_def plm_emit_def plm_set_active_def)
    moreover have "plm_lists_ok ?t"
      unfolding plm_lists_ok_emit using plm_lists_okD [OF ok] by (simp add: plm_lists_ok_def)
    moreover have "plm_mem_ok ?t"
      by (rule plm_mem_okI_same [OF mt])
        (use plm_lists_okD(3) [OF ok] e in \<open>auto simp: plm_simps plm_active_def\<close>)
    moreover have "plm_active ?t = []" using e by (simp add: plm_active_def plm_emit_def)
    moreover have "plm_heap ?t = h" by (simp add: plm_simps)
    moreover have "plm_GetCurrentItem ?t = plm_GetCurrentItem s"
      unfolding plm_GetCurrentItem_emit by (simp add: plm_GetCurrentItem_def)
    ultimately show ?thesis using heap d(2) by (intro exI [of _ ?t]) auto
  qed
qed

text \<open>The last item of the master list in shuffle mode.\<close>

lemma plm_RemoveItem_last_shuffled:
  assumes ok: "plm_lists_ok s" and m: "m_activeList s = MasterList" and sh: "m_shuffle s"
    and one: "m_masterList s = [p]"
  shows "plm_RemoveItem 0 s = None"
proof -
  note nc = plm_lists_ok_nc [OF ok]
  have key: "m_playlistKey s = kPlaylistKey_MasterPlaylist" using m plm_lists_okD(10) [OF ok] by simp
  have a: "plm_active s = [p]" using m one by (simp add: plm_active_def)
  have cur: "plm_GetCurrentItem s = Some p" and nn: "p \<noteq> NULL"
    using plm_GetCurrentItem_ok [OF ok] one by auto
  have st: "plm_erase_shuffle p (plm_set_active [] s) = Some (plm_drop {p} s)"
    using plm_erase_step [OF nc, of p] key a by simp
  have none: "plm_after_remove p ((plm_drop {p} s)\<lparr>m_current := c, plm_heap := h\<rparr>) = None" for c h
    using plm_after_remove_empty [of "(plm_drop {p} s)\<lparr>m_current := c, plm_heap := h\<rparr>" p]
      plm_drop_nc [OF nc, of "{p}"] m one sh nn by simp
  have ad: "plm_active (plm_drop {p} s) = []" using m one by (simp add: plm_active_def)
  have "plm_dispose p t \<bind> (\<lambda>s3. plm_after_remove p s3 \<bind> f) = None"
    if "t = (plm_drop {p} s)\<lparr>m_current := kInvalidIndex\<rparr>" for t and f :: "plm \<Rightarrow> (error \<times> plm) option"
    using that none by (cases "dispose_heap (plm_heap s) p") (simp_all add: plm_dispose_def)
  then show ?thesis
    using cur st key
    by (simp add: plm_RemoveItem_def plm_CheckIndex_def plm_CountItems_def a Let_def vec_defs ad plm_simps)
qed

subsection \<open>Properties\<close>

text \<open>
  C18. \<open>RemoveItem\<close> with a valid index succeeds, takes exactly that item out of the active
  list, disposes of it (deletes it, or marks it for the metadata thread that still holds it),
  keeps every invariant, and keeps the song that is current unless it is the one removed. The
  one exception: removing the last item of the master list in shuffle mode fails an assertion.
\<close>

theorem plm_RemoveItem_removes:
  assumes ok: "plm_lists_ok s" and mem: "plm_mem_ok s" and i: "i < length (plm_active s)"
  shows "if m_activeList s = MasterList \<and> m_shuffle s \<and> length (m_masterList s) = 1
    then plm_RemoveItem i s = None
    else \<exists>t. plm_RemoveItem i s = Some (kError_NoErr, t) \<and> plm_lists_ok t \<and> plm_mem_ok t \<and>
      plm_active t = take i (plm_active s) @ drop (Suc i) (plm_active s) \<and>
      disposed s t (plm_active s ! i) \<and>
      (plm_GetCurrentItem s \<noteq> Some (plm_active s ! i) \<longrightarrow> plm_GetCurrentItem t = plm_GetCurrentItem s)"
proof (cases "m_activeList s = MasterList \<and> m_shuffle s \<and> length (m_masterList s) = 1")
  case True
  then obtain p where p: "m_masterList s = [p]" by (auto simp: length_Suc_conv)
  then have "i = 0" using True i by (simp add: plm_active_def)
  then show ?thesis using plm_RemoveItem_last_shuffled [OF ok _ _ p] True by simp
next
  case False
  obtain cur where cur: "plm_GetCurrentItem s = Some cur" using plm_GetCurrentItem_ok [OF ok] by blast
  have "1 < length (m_masterList s)" if "m_activeList s = MasterList" "m_shuffle s"
    using that False i by (cases "length (m_masterList s)") (auto simp: plm_active_def)
  from plm_RemoveItem_ok [OF ok mem i this cur] False cur show ?thesis by auto
qed

lemma spare_item_fields [simp]:
  "m_activeList spare_item = MasterList" "m_masterList spare_item = [1, 2, 3]"
  "m_shuffle spare_item = False" "plm_GetCurrentItem spare_item = Some 2"
  "plm_heap spare_item = [1 \<mapsto> new_item ''a'' None, 2 \<mapsto> new_item ''b'' None,
     3 \<mapsto> new_item ''c'' None, 4 \<mapsto> new_item ''d'' None]"
  by (simp_all add: spare_item_def plm_GetCurrentItem_def three_items_def plm_new_def)

theorem plm_RemoveItem_removes_witness:
  "\<exists>t. plm_RemoveItem 0 spare_item = Some (kError_NoErr, t) \<and> plm_active t = [2, 3] \<and>
     plm_GetCurrentItem t = Some 2 \<and> plm_heap t 1 = None"
proof -
  obtain t where t: "plm_RemoveItem 0 spare_item = Some (kError_NoErr, t)" "plm_active t = [2, 3]"
    "disposed spare_item t 1" "plm_GetCurrentItem t = Some 2"
    using plm_RemoveItem_removes [OF spare_item_ok(1,2), of 0] by (auto simp: spare_item_ok(4))
  then have "plm_heap t 1 = None" by (simp add: disposed_def new_item_def)
  then show ?thesis using t by blast
qed

text \<open>
  Removing a range and removing the vector of its items agree: both succeed, leave the
  active list without these items in the old order, keep the invariants, and keep the current
  song if it is not among them. Either way, emptying the master list in shuffle mode is excluded.
\<close>

theorem plm_RemoveItems_agree:
  assumes ok: "plm_lists_ok s" and mem: "plm_mem_ok s" and i: "i < length (plm_active s)"
    and n: "0 < n" "i + n \<le> length (plm_active s)"
    and last: "m_activeList s = MasterList \<and> m_shuffle s \<longrightarrow> n < length (m_masterList s)"
  shows "\<exists>t u. plm_RemoveItems_range i n s = Some (kError_NoErr, t) \<and>
    plm_RemoveItems (take n (drop i (plm_active s))) s = Some (kError_NoErr, u) \<and>
    plm_active t = plm_active u \<and>
    plm_active t = take i (plm_active s) @ drop (i + n) (plm_active s) \<and>
    plm_lists_ok t \<and> plm_lists_ok u \<and> plm_mem_ok t \<and> plm_mem_ok u \<and>
    (plm_GetCurrentItem s \<notin> Some ` set (take n (drop i (plm_active s))) \<longrightarrow>
       plm_GetCurrentItem t = plm_GetCurrentItem s \<and> plm_GetCurrentItem u = plm_GetCurrentItem s)"
proof -
  let ?ps = "take n (drop i (plm_active s))"
  note a = plm_active_ok [OF ok]
  obtain cur where cur: "plm_GetCurrentItem s = Some cur" using plm_GetCurrentItem_ok [OF ok] by blast
  have len: "length ?ps = n" using n(2) by simp
  have ps: "distinct ?ps" "set ?ps \<subseteq> set (plm_active s)" "?ps \<noteq> []"
    using a(1) len n(1) by (auto dest: in_set_takeD in_set_dropD)
  have "m_masterList s \<noteq> [] \<and> (m_shuffle s \<longrightarrow> \<not> set (m_masterList s) \<subseteq> set ?ps)"
    if m: "m_activeList s = MasterList"
  proof
    show "m_masterList s \<noteq> []" using i m by (auto simp: plm_active_def)
    have "card (set ?ps) = n" using distinct_card [OF ps(1)] len by simp
    moreover have "card (set (m_masterList s)) = length (m_masterList s)"
      using plm_lists_okD(1) [OF ok] by (rule distinct_card)
    ultimately show "m_shuffle s \<longrightarrow> \<not> set (m_masterList s) \<subseteq> set ?ps"
      using last m card_mono [of "set ?ps" "set (m_masterList s)"] by fastforce
  qed
  from plm_RemoveItems_ok [OF ok mem ps(1,2) this cur] ps(3) obtain u where
    u: "plm_RemoveItems ?ps s = Some (kError_NoErr, u)" "plm_lists_ok u" "plm_mem_ok u"
      "plm_active u = filter (\<lambda>p. p \<notin> set ?ps) (plm_active s)"
      "cur \<notin> set ?ps \<longrightarrow> plm_GetCurrentItem u = Some cur" by auto
  obtain t where
    t: "plm_RemoveItems_range i n s = Some (kError_NoErr, t)" "plm_lists_ok t" "plm_mem_ok t"
      "plm_active t = filter (\<lambda>p. p \<notin> set ?ps) (plm_active s)"
      "cur \<notin> set ?ps \<longrightarrow> plm_GetCurrentItem t = Some cur"
    using plm_RemoveItems_range_ok [OF ok mem i n(2) _ cur] last by blast
  show ?thesis
    using t u cur erase_range_filter [OF a(1) n(2)] by (intro exI [of _ t] exI [of _ u]) auto
qed

theorem plm_RemoveItems_agree_witness:
  "\<exists>t u. plm_RemoveItems_range 0 1 spare_item = Some (kError_NoErr, t) \<and>
     plm_RemoveItems [1] spare_item = Some (kError_NoErr, u) \<and>
     plm_active t = [2, 3] \<and> plm_active u = [2, 3]"
  using plm_RemoveItems_agree [OF spare_item_ok(1,2), of 0 1] by (auto simp: spare_item_ok(4))

text \<open>
  \<open>RemoveAll\<close> always succeeds: it empties the active list, disposes of each of its items
  and touches no other item, and keeps the invariants; the other list and what is playing from
  the master list are untouched when the external list is emptied.
\<close>

theorem plm_RemoveAll_empties:
  assumes "plm_lists_ok s" and "plm_mem_ok s"
  shows "\<exists>t. plm_RemoveAll s = Some (kError_NoErr, t) \<and> plm_lists_ok t \<and> plm_mem_ok t \<and>
    plm_active t = [] \<and> (\<forall>p \<in> set (plm_active s). disposed s t p) \<and>
    (\<forall>p. p \<notin> set (plm_active s) \<longrightarrow> plm_heap t p = plm_heap s p) \<and>
    (m_activeList s = ExternalList \<longrightarrow> plm_GetCurrentItem t = plm_GetCurrentItem s)"
  by (rule plm_RemoveAll_ok [OF assms])

theorem plm_RemoveAll_empties_witness:
  "\<exists>t. plm_RemoveAll spare_item = Some (kError_NoErr, t) \<and> plm_active t = [] \<and> plm_heap t 2 = None \<and>
     plm_heap t 4 = Some (new_item ''d'' None)"
proof -
  obtain t where t: "plm_RemoveAll spare_item = Some (kError_NoErr, t)" "plm_active t = []"
    "\<forall>p \<in> set (plm_active spare_item). disposed spare_item t p"
    "\<forall>p. p \<notin> set (plm_active spare_item) \<longrightarrow> plm_heap t p = plm_heap spare_item p"
    using plm_RemoveAll_empties [OF spare_item_ok(1,2)] by blast
  have "disposed spare_item t 2" using t(3) by (simp add: spare_item_ok(4))
  then have "plm_heap t 2 = None" by (simp add: disposed_def new_item_def)
  moreover have "plm_heap t 4 = Some (new_item ''d'' None)" using t(4) by (simp add: spare_item_ok(4))
  ultimately show ?thesis using t by blast
qed

end
