(* ===== verification/PlmMove.thy ===== *)
theory PlmMove
  imports PlmRemove
begin

section \<open>Moving items\<close>

text \<open>
  \<open>SwapItems\<close>, \<open>MoveItem\<close> and \<open>MoveItems\<close> of \<open>playlist.cpp\<close>. The first two compare positions of
  the active list with \<open>m_current\<close>, which in shuffle mode is a position of another list.
\<close>

definition plm_SwapItems :: "nat \<Rightarrow> nat \<Rightarrow> plm \<Rightarrow> (error \<times> plm) option" where
  "plm_SwapItems index1 index2 s =
     (let index1 = plm_CheckIndex s index1; index2 = plm_CheckIndex s index2
      in if index1 \<noteq> kInvalidIndex \<and> index2 \<noteq> kInvalidIndex then do {
        temp \<leftarrow> vec_at (plm_active s) index1;
        other \<leftarrow> vec_at (plm_active s) index2;
        xs1 \<leftarrow> vec_set (plm_active s) index1 other;
        xs2 \<leftarrow> vec_set xs1 index2 temp;
        let s1 = plm_set_active xs2 s;
        p2 \<leftarrow> vec_at xs2 index2;
        let s2 = plm_emit (PlaylistItemMovedEvent index1 index2 p2) s1;
        p1 \<leftarrow> vec_at xs2 index1;
        let s3 = plm_emit (PlaylistItemMovedEvent (u32 (index2 + 1)) index1 p1) s2;
        s4 \<leftarrow> (if m_playlistKey s3 = kPlaylistKey_MasterPlaylist
          then if m_current s3 = index1 then plm_InternalSetCurrentIndex index2 s3
               else if m_current s3 = index2 then plm_InternalSetCurrentIndex index1 s3
               else Some s3
          else Some s3);
        Some (kError_NoErr, s4)
      }
      else Some (kError_InvalidParam, s))"

definition plm_SwapItems_items :: "ptr \<Rightarrow> ptr \<Rightarrow> plm \<Rightarrow> (error \<times> plm) option" where
  "plm_SwapItems_items p1 p2 s = do {
     i1 \<leftarrow> plm_IndexOf s p1;
     i2 \<leftarrow> plm_IndexOf s p2;
     plm_SwapItems i1 i2 s
   }"

definition plm_MoveItem :: "nat \<Rightarrow> nat \<Rightarrow> plm \<Rightarrow> (error \<times> plm) option" where
  "plm_MoveItem oldIndex newIndex s =
     (let oldIndex = plm_CheckIndex s oldIndex; newIndex = plm_CheckIndex s newIndex
      in if oldIndex \<noteq> kInvalidIndex \<and> newIndex \<noteq> kInvalidIndex then do {
        p \<leftarrow> vec_at (plm_active s) oldIndex;
        xs \<leftarrow> vec_erase (plm_active s) oldIndex;
        let newIndex = (if newIndex > length xs then u32 (length xs) else newIndex);
        ys \<leftarrow> vec_insert xs newIndex [p];
        let s1 = plm_set_active ys s;
        s2 \<leftarrow> (if m_playlistKey s1 = kPlaylistKey_MasterPlaylist
          then if oldIndex = m_current s1 then plm_InternalSetCurrentIndex newIndex s1
               else if newIndex = m_current s1
               then (if oldIndex > m_current s1
                     then plm_InternalSetCurrentIndex (u32 (m_current s1 + 1)) s1
                     else plm_InternalSetCurrentIndex (u32_sub (m_current s1) 1) s1)
               else Some s1
          else Some s1);
        Some (kError_NoErr, plm_emit (PlaylistItemMovedEvent oldIndex newIndex p) s2)
      }
      else Some (kError_InvalidParam, s))"

definition plm_MoveItem_item :: "ptr \<Rightarrow> nat \<Rightarrow> plm \<Rightarrow> (error \<times> plm) option" where
  "plm_MoveItem_item p index s = do { i \<leftarrow> plm_IndexOf s p; plm_MoveItem i index s }"

text \<open>
  The three loops of \<open>MoveItems(items, index)\<close>: note the old positions and count the index
  down, take the items out, and send the events (with \<open>oldIndices[i]\<close> read at the position in
  \<open>items\<close>, though null items have left no entry).
\<close>

fun move_index_loop :: "plm \<Rightarrow> ptr list \<Rightarrow> nat \<Rightarrow> (nat \<times> nat list) option" where
  "move_index_loop s [] index = Some (index, [])"
| "move_index_loop s (p # ps) index =
     (if p = NULL then move_index_loop s ps index
      else do {
        oldIndex \<leftarrow> plm_IndexOf s p;
        (index', oldIndices) \<leftarrow> move_index_loop s ps (if oldIndex < index then u32_sub index 1 else index);
        Some (index', oldIndex # oldIndices)
      })"

fun move_erase_loop :: "ptr list \<Rightarrow> plm \<Rightarrow> plm option" where
  "move_erase_loop [] s = Some s"
| "move_erase_loop (p # ps) s =
     (if p = NULL then move_erase_loop ps s
      else do {
        i \<leftarrow> plm_IndexOf s p;
        xs \<leftarrow> vec_erase (plm_active s) i;
        move_erase_loop ps (plm_set_active xs s)
      })"

fun move_event_loop :: "nat list \<Rightarrow> nat \<Rightarrow> nat \<Rightarrow> ptr list \<Rightarrow> plm \<Rightarrow> plm option" where
  "move_event_loop oldIndices index i [] s = Some s"
| "move_event_loop oldIndices index i (p # ps) s =
     (if p = NULL then move_event_loop oldIndices index (u32 (i + 1)) ps s
      else do {
        old \<leftarrow> vec_at oldIndices i;
        move_event_loop oldIndices index (u32 (i + 1)) ps
          (plm_emit (PlaylistItemMovedEvent old (u32 (index + i)) p) s)
      })"

definition plm_MoveItems :: "ptr list \<Rightarrow> nat \<Rightarrow> plm \<Rightarrow> (error \<times> plm) option" where
  "plm_MoveItems items index s = do {
     let index = plm_CheckIndex s index;
     currentItem \<leftarrow> plm_GetCurrentItem s;
     (index, oldIndices) \<leftarrow> move_index_loop s items index;
     s1 \<leftarrow> move_erase_loop items s;
     let index = (if index \<ge> length (plm_active s1) then u32 (length (plm_active s1)) else index);
     xs \<leftarrow> vec_insert (plm_active s1) index items;
     let s2 = plm_set_active xs s1;
     s3 \<leftarrow> (if m_playlistKey s2 = kPlaylistKey_MasterPlaylist
       then do { i \<leftarrow> plm_IndexOf s2 currentItem; (_, s3) \<leftarrow> plm_SetCurrentIndex i s2; Some s3 }
       else Some s2);
     s4 \<leftarrow> move_event_loop oldIndices index 0 items s3;
     Some (kError_NoErr, s4)
   }"

fun items_at :: "plm \<Rightarrow> nat list \<Rightarrow> ptr list option" where
  "items_at s [] = Some []"
| "items_at s (i # is) = do { p \<leftarrow> plm_ItemAt s i; ps \<leftarrow> items_at s is; Some (p # ps) }"

definition plm_MoveItems_indices :: "nat list \<Rightarrow> nat \<Rightarrow> plm \<Rightarrow> (error \<times> plm) option" where
  "plm_MoveItems_indices is index s = do {
     pl_items \<leftarrow> items_at s is;
     plm_MoveItems pl_items index s
   }"

subsection \<open>Rearranging a list keeps the invariants\<close>

lemma plm_set_active_perm:
  assumes ok: "plm_lists_ok s" and xs: "mset xs = mset (plm_active s)"
  shows "plm_lists_ok (plm_set_active xs s)" and "plm_mem_ok s \<Longrightarrow> plm_mem_ok (plm_set_active xs s)"
proof -
  have p: "set xs = set (plm_active s)" "length xs = length (plm_active s)"
    "distinct xs \<longleftrightarrow> distinct (plm_active s)"
    using xs mset_eq_setD mset_eq_length mset_eq_imp_distinct_iff by blast+
  note d = plm_lists_okD [OF ok]
  consider (m) "m_activeList s = MasterList" | (e) "m_activeList s = ExternalList"
    using d(9) by (cases "m_activeList s") auto
  then show "plm_lists_ok (plm_set_active xs s)"
  proof cases
    case m
    then have xm: "mset xs = mset (m_masterList s)" "set xs = set (m_masterList s)"
      "length xs = length (m_masterList s)" "distinct xs"
      using xs p d(1) by (simp_all add: plm_active_def)
    have "xs = [] \<longleftrightarrow> m_masterList s = []" using xm(3) by auto
    then show ?thesis unfolding plm_lists_ok_def using d m xm by (simp add: plm_simps plm_set_active_def)
  next
    case e
    then have xe: "set xs = set (m_externalList s)" "length xs = length (m_externalList s)" "distinct xs"
      using p d(2) by (simp_all add: plm_active_def)
    then show ?thesis unfolding plm_lists_ok_def using d e by (simp add: plm_simps plm_set_active_def)
  qed
  show "plm_mem_ok (plm_set_active xs s)" if "plm_mem_ok s"
    by (rule plm_mem_okI_same [OF that]) (use p in \<open>auto simp: plm_simps plm_active_def\<close>)
qed

lemma plm_InternalSetCurrentIndex_keeps:
  assumes ok: "plm_lists_ok s" and mem: "plm_mem_ok s" and i: "i < length (m_masterList s)"
  shows "\<exists>ev. plm_InternalSetCurrentIndex i s = Some (s\<lparr>m_current := i, plm_events := ev\<rparr>) \<and>
    plm_lists_ok (s\<lparr>m_current := i, plm_events := ev\<rparr>) \<and>
    plm_mem_ok (s\<lparr>m_current := i, plm_events := ev\<rparr>)"
proof -
  have "plm_InternalSetCurrentIndex i s = Some (s\<lparr>m_current := i,
      plm_events := plm_events s @ [PlaylistCurrentItemInfoEvent (plm_play_list s ! i)]\<rparr>)"
    using plm_InternalSetCurrentIndex_ok [OF ok i] by (simp add: plm_emit_def)
  moreover have "plm_mem_ok (s\<lparr>m_current := i, plm_events := ev\<rparr>)" for ev
    by (rule plm_mem_okI_same [OF mem]) simp_all
  ultimately show ?thesis using plm_lists_ok_current [OF ok i] by auto
qed

lemma plm_GetCurrentItem_nth:
  "plm_lists_ok s \<Longrightarrow> m_masterList s \<noteq> [] \<Longrightarrow>
   plm_GetCurrentItem s = Some (plm_play_list s ! m_current s)"
  using plm_lists_okD(12) plm_play_list(2) by (simp add: plm_GetCurrentItem_play)

lemma plm_GetCurrentItem_external:
  "m_activeList s = ExternalList \<Longrightarrow> plm_GetCurrentItem (plm_set_active xs s) = plm_GetCurrentItem s"
  by (simp add: plm_GetCurrentItem_def plm_set_active_def)

text \<open>Looking the current item up again after the master list was rearranged.\<close>

lemma plm_refind_current:
  assumes ok: "plm_lists_ok s" and mem: "plm_mem_ok s" and m: "m_activeList s = MasterList"
    and ms: "mset xs = mset (m_masterList s)" and ne: "m_masterList s \<noteq> []"
    and cur: "plm_GetCurrentItem s = Some cur"
  shows "\<exists>i u. plm_IndexOf (plm_set_active xs s) cur = Some i \<and>
    plm_SetCurrentIndex i (plm_set_active xs s) = Some (kError_NoErr, u) \<and>
    plm_lists_ok u \<and> plm_mem_ok u \<and> plm_active u = xs \<and> plm_GetCurrentItem u = Some cur"
proof -
  let ?s = "plm_set_active xs s"
  have am: "plm_active s = m_masterList s" by (rule plm_active_master [OF m])
  have ok1: "plm_lists_ok ?s" and mem1: "plm_mem_ok ?s"
    using plm_set_active_perm [OF ok, of xs] ms mem am by simp_all
  have mm: "m_activeList ?s = MasterList" "m_masterList ?s = xs" using m by (simp_all add: plm_simps)
  have cx: "cur \<noteq> NULL" "cur \<in> set xs"
    using plm_GetCurrentItem_ok [OF ok] cur ne mset_eq_setD [OF ms] by auto
  have lx: "length xs \<le> kInvalidIndex"
    using mset_eq_length [OF ms] plm_lists_okD(6) [OF ok] by linarith
  let ?i = "index_loop cur xs 0"
  have i: "?i < length (m_masterList ?s)" "m_masterList ?s ! ?i = cur"
    unfolding mm by (rule index_loop_mem [OF cx(2) lx])+
  obtain c ev where u: "plm_SetCurrentIndex ?i ?s = Some (kError_NoErr, ?s\<lparr>m_current := c, plm_events := ev\<rparr>)"
    "plm_lists_ok (?s\<lparr>m_current := c, plm_events := ev\<rparr>)"
    "plm_GetCurrentItem (?s\<lparr>m_current := c, plm_events := ev\<rparr>) = Some cur"
    using plm_SetCurrentIndex_nc [OF plm_lists_ok_nc [OF ok1] mm(1) i(1)] i(2) by auto
  have "plm_IndexOf ?s cur = Some ?i" using cx(1) by (simp add: plm_simps)
  moreover have "plm_mem_ok (?s\<lparr>m_current := c, plm_events := ev\<rparr>)"
    by (rule plm_mem_okI_same [OF mem1]) simp_all
  moreover have "plm_active (?s\<lparr>m_current := c, plm_events := ev\<rparr>) = xs"
    using m by (simp add: plm_active_def plm_simps)
  ultimately show ?thesis using u by blast
qed

subsection \<open>\<open>MoveItem\<close>\<close>

definition moved :: "nat \<Rightarrow> nat \<Rightarrow> 'a list \<Rightarrow> 'a list" where
  "moved old new xs = (let ys = take old xs @ drop (Suc old) xs in take new ys @ [xs ! old] @ drop new ys)"

lemma mset_moved: "old < length xs \<Longrightarrow> mset (moved old new xs) = mset xs"
  using mset_erase [of old xs] mset_insert_at [of new "take old xs @ drop (Suc old) xs" "[xs ! old]"]
  by (simp add: moved_def Let_def)

lemma length_moved: "old < length xs \<Longrightarrow> length (moved old new xs) = length xs"
  using mset_moved [of old xs new] by (metis size_mset)

lemma nth_erase:
  "old < length xs \<Longrightarrow> k < length xs - 1 \<Longrightarrow>
   (take old xs @ drop (Suc old) xs) ! k = (if k < old then xs ! k else xs ! Suc k)"
  by (auto simp: nth_append min_def)

lemma nth_insert:
  assumes "new \<le> length ys" and "k \<le> length ys"
  shows "(take new ys @ [x] @ drop new ys) ! k =
    (if k < new then ys ! k else if k = new then x else ys ! (k - 1))"
proof (cases "new < k")
  case True
  then obtain j where "k = new + Suc j" by (metis less_imp_Suc_add add_Suc_right)
  then show ?thesis using assms by (simp add: nth_append)
next
  case False
  then show ?thesis using assms by (auto simp: nth_append)
qed

lemma erase_insert:
  assumes "n \<le> length ys"
  shows "take n (take n ys @ [x] @ drop n ys) @ drop (Suc n) (take n ys @ [x] @ drop n ys) = ys"
proof -
  have "length (take n ys) = n" using assms by simp
  then show ?thesis by (simp del: length_take)
qed

lemma nth_moved:
  assumes "old < length xs" and "new < length xs" and "k < length xs"
  shows "moved old new xs ! k =
    (if k = new then xs ! old
     else if old \<le> k \<and> k < new then xs ! Suc k
     else if new < k \<and> k \<le> old then xs ! (k - 1)
     else xs ! k)"
proof -
  let ?ys = "take old xs @ drop (Suc old) xs"
  have len: "length ?ys = length xs - 1" using assms(1) by (rule length_erase)
  have "moved old new xs ! k =
      (if k < new then ?ys ! k else if k = new then xs ! old else ?ys ! (k - 1))"
    unfolding moved_def Let_def by (rule nth_insert) (use len assms in linarith)+
  moreover have "?ys ! k = (if k < old then xs ! k else xs ! Suc k)" if "k < new"
    by (rule nth_erase [OF assms(1)]) (use that assms in linarith)
  moreover have "?ys ! (k - 1) = (if k - 1 < old then xs ! (k - 1) else xs ! k)" if "new < k"
    using nth_erase [OF assms(1), of "k - 1"] that assms by simp
  ultimately show ?thesis by auto
qed

definition moved_current :: "nat \<Rightarrow> nat \<Rightarrow> nat \<Rightarrow> nat" where
  "moved_current old new c = (if old = c then new
     else if new = c then (if old > c then c + 1 else c - 1) else c)"

lemma plm_MoveItem_ok:
  assumes ok: "plm_lists_ok s" and mem: "plm_mem_ok s"
    and o: "old < length (plm_active s)" and n: "new < length (plm_active s)"
  shows "\<exists>t. plm_MoveItem old new s = Some (kError_NoErr, t) \<and> plm_lists_ok t \<and> plm_mem_ok t \<and>
    plm_active t = moved old new (plm_active s) \<and>
    plm_GetCurrentItem t = (if m_activeList s = ExternalList then plm_GetCurrentItem s
      else Some ((if m_shuffle s then m_shuffleList s else moved old new (m_masterList s)) !
        moved_current old new (m_current s)))"
proof -
  let ?p = "plm_active s ! old" and ?xs = "take old (plm_active s) @ drop (Suc old) (plm_active s)"
  let ?ys = "moved old new (plm_active s)"
  let ?s = "plm_set_active ?ys s"
  have iv: "plm_CheckIndex s old = old" "plm_CheckIndex s new = new" "old \<noteq> kInvalidIndex" "new \<noteq> kInvalidIndex"
    using o n plm_active_ok(3) [OF ok] by (simp_all add: plm_CheckIndex_simps)
  have lx: "length ?xs = length (plm_active s) - 1" using o by (rule length_erase)
  have nl: "\<not> new > length ?xs" "new \<le> length ?xs" using n lx by linarith+
  have ins: "vec_insert ?xs new [?p] = Some ?ys"
    using nl(2) by (simp only: vec_insert_Some moved_def Let_def)
  note perm = plm_set_active_perm [OF ok mset_moved [OF o, of new]]
  have ok1: "plm_lists_ok ?s" and mem1: "plm_mem_ok ?s" using perm mem by simp_all
  have run: "plm_MoveItem old new s = do {
       s2 \<leftarrow> (if m_playlistKey s = kPlaylistKey_MasterPlaylist
          then if old = m_current s then plm_InternalSetCurrentIndex new ?s
               else if new = m_current s
               then (if old > m_current s
                     then plm_InternalSetCurrentIndex (u32 (m_current s + 1)) ?s
                     else plm_InternalSetCurrentIndex (u32_sub (m_current s) 1) ?s)
               else Some ?s
          else Some ?s);
       Some (kError_NoErr, plm_emit (PlaylistItemMovedEvent old new ?p) s2) }"
  proof -
    have "vec_at (plm_active s) old = Some ?p" using o by simp
    moreover have "vec_erase (plm_active s) old = Some ?xs" using o by simp
    ultimately show ?thesis
      using iv nl(1) ins unfolding plm_MoveItem_def
      by (simp add: plm_simps del: vec_insert_Some vec_erase_Some length_append append_Cons)
  qed
  consider (m) "m_activeList s = MasterList" "m_playlistKey s = kPlaylistKey_MasterPlaylist"
    | (e) "m_activeList s = ExternalList" "m_playlistKey s \<noteq> kPlaylistKey_MasterPlaylist"
    using plm_lists_okD(9,10) [OF ok] by (cases "m_activeList s") auto
  then show ?thesis
  proof cases
    case m
    have am: "plm_active s = m_masterList s" by (rule plm_active_master [OF m(1)])
    have ne: "m_masterList s \<noteq> []" using o am by auto
    have c: "m_current s < length (m_masterList s)" by (rule plm_lists_okD(12) [OF ok ne])
    have ms: "m_masterList ?s = ?ys" "m_current ?s = m_current s" "m_shuffle ?s = m_shuffle s"
      "m_shuffleList ?s = m_shuffleList s"
      using m(1) by (simp_all add: plm_simps)
    let ?c = "moved_current old new (m_current s)"
    have lm: "length (m_masterList ?s) = length (m_masterList s)"
      using length_moved [OF o, of new] ms(1) am by simp
    have cl: "?c < length (m_masterList ?s)"
      using o n c am unfolding lm by (auto simp: moved_current_def)
    obtain ev where int: "plm_InternalSetCurrentIndex ?c ?s = Some (?s\<lparr>m_current := ?c, plm_events := ev\<rparr>)"
      "plm_lists_ok (?s\<lparr>m_current := ?c, plm_events := ev\<rparr>)"
      "plm_mem_ok (?s\<lparr>m_current := ?c, plm_events := ev\<rparr>)"
      using plm_InternalSetCurrentIndex_keeps [OF ok1 mem1 cl] by blast
    have len: "length (m_masterList s) < kMaxItems" by (rule plm_lists_okD(6) [OF ok])
    have "\<exists>ev. plm_MoveItem old new s = Some (kError_NoErr,
        plm_emit (PlaylistItemMovedEvent old new ?p) (?s\<lparr>m_current := ?c, plm_events := ev\<rparr>))"
    proof (cases "old = m_current s \<or> new = m_current s")
      case True
      have "u32 (m_current s + 1) = m_current s + 1"
        using c len by simp
      moreover have "u32_sub (m_current s) 1 = m_current s - 1" if "old < m_current s"
        using u32_sub_id [of 1 "m_current s"] that c len by simp
      ultimately show ?thesis
        using run m(2) int(1) True by (auto simp: moved_current_def split: if_splits)
    next
      case False
      then have "?c = m_current ?s" by (simp add: moved_current_def ms)
      then have "?s\<lparr>m_current := ?c, plm_events := plm_events ?s\<rparr> = ?s" by simp
      then show ?thesis using run m(2) False by (intro exI [of _ "plm_events ?s"]) auto
    qed
    then obtain ev' where t: "plm_MoveItem old new s = Some (kError_NoErr,
        plm_emit (PlaylistItemMovedEvent old new ?p) (?s\<lparr>m_current := ?c, plm_events := ev'\<rparr>))" by blast
    let ?t = "plm_emit (PlaylistItemMovedEvent old new ?p) (?s\<lparr>m_current := ?c, plm_events := ev'\<rparr>)"
    have okt: "plm_lists_ok ?t" using plm_lists_ok_current [OF ok1 cl] by simp
    moreover have "plm_mem_ok ?t" by (rule plm_mem_okI_same [OF mem1]) (simp_all add: plm_simps)
    moreover have "plm_active ?t = ?ys" using m(1) by (simp add: plm_active_def plm_emit_def plm_simps)
    moreover have "plm_GetCurrentItem ?t = Some ((if m_shuffle s then m_shuffleList s
        else moved old new (m_masterList s)) ! ?c)"
    proof -
      have "m_masterList ?t \<noteq> []" using cl by (auto simp: plm_simps)
      from plm_GetCurrentItem_nth [OF okt this] show ?thesis
        using ms am by (simp add: plm_play_list_def plm_simps)
    qed
    ultimately show ?thesis using t m(1) by auto
  next
    case e
    let ?t = "plm_emit (PlaylistItemMovedEvent old new ?p) ?s"
    have "plm_MoveItem old new s = Some (kError_NoErr, ?t)" using run e(2) by simp
    moreover have "plm_GetCurrentItem ?t = plm_GetCurrentItem s"
      unfolding plm_GetCurrentItem_emit using e(1) by (simp add: plm_GetCurrentItem_def plm_simps)
    ultimately show ?thesis using ok1 mem1 e(1) by (simp add: plm_simps)
  qed
qed

text \<open>Where the song that was current ends up.\<close>

lemma moved_current_nth:
  assumes d: "distinct xs" and l: "old < length xs" "new < length xs" "c < length xs"
  shows "moved old new xs ! moved_current old new c = xs ! c \<longleftrightarrow>
    \<not> (old < c \<and> c < new \<or> new < c \<and> c < old)"
proof -
  have c': "moved_current old new c < length xs" using l by (auto simp: moved_current_def)
  show ?thesis
  proof (cases "old = c \<or> new = c")
    case True
    then show ?thesis
      using l nth_moved [OF l(1,2) c'] by (auto simp: moved_current_def split: if_splits)
  next
    case False
    then have mc: "moved_current old new c = c" by (simp add: moved_current_def)
    have "xs ! Suc c \<noteq> xs ! c" if "Suc c < length xs"
      using d that l(3) by (simp add: nth_eq_iff_index_eq)
    moreover have "xs ! (c - 1) \<noteq> xs ! c" if "0 < c"
      using d that l(3) by (simp add: nth_eq_iff_index_eq)
    ultimately show ?thesis
      using False l nth_moved [OF l(1-3)] unfolding mc by auto
  qed
qed

subsection \<open>\<open>MoveItems\<close>\<close>

text \<open>The position the loop counts down to: it depends on the order of the items.\<close>

fun move_target :: "ptr list \<Rightarrow> ptr list \<Rightarrow> nat \<Rightarrow> nat" where
  "move_target xs [] ix = ix"
| "move_target xs (p # ps) ix =
     move_target xs ps (if index_loop p xs 0 < ix then ix - 1 else ix)"

lemma move_target_bounds:
  "move_target xs ps ix \<le> ix" "ix \<le> move_target xs ps ix + length ps"
proof (induction ps arbitrary: ix)
  case (Cons p ps)
  {
    case 1
    show ?case using Cons(1) [of "ix - 1"] Cons(1) [of ix] by (auto intro: order_trans)
  next
    case 2
    show ?case using Cons(2) [of "ix - 1"] Cons(2) [of ix] by auto
  }
qed simp_all

lemma move_index_loop_ok:
  "NULL \<notin> set ps \<Longrightarrow> ix \<le> kInvalidIndex \<Longrightarrow> move_index_loop s ps ix =
     Some (move_target (plm_active s) ps ix, map (\<lambda>p. index_loop p (plm_active s) 0) ps)"
proof (induction ps arbitrary: ix)
  case (Cons p ps)
  have "p \<noteq> NULL" and "NULL \<notin> set ps" using Cons.prems(1) by auto
  moreover have "u32_sub ix 1 = ix - 1" if "index_loop p (plm_active s) 0 < ix"
    by (rule u32_sub_id) (use that Cons.prems(2) in linarith)+
  moreover have "ix - 1 \<le> kInvalidIndex" using Cons.prems(2) by linarith
  ultimately show ?case
    using Cons.IH [of ix] Cons.IH [of "ix - 1"] Cons.prems(2) by auto
qed simp

lemma plm_set_active_twice [simp]:
  "plm_set_active xs (plm_set_active ys s) = plm_set_active xs s"
  "plm_set_active (plm_active s) s = s"
  by (simp_all add: plm_set_active_def plm_active_def split: list_id.splits)

lemma move_erase_loop_ok:
  "distinct ps \<Longrightarrow> NULL \<notin> set ps \<Longrightarrow> set ps \<subseteq> set (plm_active s) \<Longrightarrow> distinct (plm_active s) \<Longrightarrow>
   length (plm_active s) \<le> kInvalidIndex \<Longrightarrow>
   move_erase_loop ps s = Some (plm_set_active (filter (\<lambda>q. q \<notin> set ps) (plm_active s)) s)"
proof (induction ps arbitrary: s)
  case (Cons p ps)
  let ?xs = "filter (\<lambda>q. q \<notin> {p}) (plm_active s)"
  have p: "p \<noteq> NULL" "p \<in> set (plm_active s)" using Cons.prems by auto
  have i: "index_loop p (plm_active s) 0 < length (plm_active s)"
    "plm_active s ! index_loop p (plm_active s) 0 = p"
    by (rule index_loop_mem [OF p(2) Cons.prems(5)])+
  have "vec_erase (plm_active s) (index_loop p (plm_active s) 0) = Some ?xs"
    using erase_filter [OF Cons.prems(4) i(1)] i by simp
  moreover have "length ?xs \<le> kInvalidIndex"
    using Cons.prems(5) length_filter_le [of "\<lambda>q. q \<notin> {p}" "plm_active s"] by linarith
  moreover have "filter (\<lambda>q. q \<notin> set ps) ?xs = filter (\<lambda>q. q \<notin> set (p # ps)) (plm_active s)"
    by (simp add: conj_commute)
  ultimately show ?case
    using Cons.IH [of "plm_set_active ?xs s"] Cons.prems p by (auto simp: plm_simps)
qed simp

lemma move_event_loop_ok:
  "NULL \<notin> set ps \<Longrightarrow> i + length ps \<le> length olds \<Longrightarrow> length olds \<le> kInvalidIndex \<Longrightarrow>
   \<exists>ev. move_event_loop olds ix i ps s = Some (s\<lparr>plm_events := ev\<rparr>)"
proof (induction ps arbitrary: i s)
  case Nil
  show ?case by (rule exI [of _ "plm_events s"]) simp
next
  case (Cons p ps)
  have "i < length olds" and u: "u32 (i + 1) = Suc i" using Cons.prems(2,3) by simp_all
  moreover obtain ev where "move_event_loop olds ix (Suc i) ps
      (plm_emit (PlaylistItemMovedEvent (olds ! i) (u32 (ix + i)) p) s) =
      Some ((plm_emit (PlaylistItemMovedEvent (olds ! i) (u32 (ix + i)) p) s)\<lparr>plm_events := ev\<rparr>)"
    using Cons.IH [of "Suc i"] Cons.prems by auto
  ultimately show ?case using Cons.prems(1) by (auto simp: plm_emit_def)
qed

lemma mset_pick:
  assumes "distinct xs" and "distinct ps" and "set ps \<subseteq> set xs"
  shows "mset (take k (filter (\<lambda>q. q \<notin> set ps) xs) @ ps @ drop k (filter (\<lambda>q. q \<notin> set ps) xs)) = mset xs"
proof -
  let ?r = "filter (\<lambda>q. q \<notin> set ps) xs"
  have "mset (filter (\<lambda>q. q \<in> set ps) xs) = mset ps"
    using assms by (intro iffD1 [OF set_eq_iff_mset_eq_distinct]) auto
  moreover have "mset (filter (\<lambda>q. q \<in> set ps) xs) + mset ?r = mset xs"
    by (simp only: mset_filter) (rule multiset_partition [symmetric])
  ultimately show ?thesis unfolding mset_insert_at by (metis union_commute)
qed


lemma plm_MoveItems_ok:
  fixes s :: plm and items :: "ptr list" and index :: nat
  assumes ok: "plm_lists_ok s" and mem: "plm_mem_ok s" and d: "distinct items"
    and sub: "set items \<subseteq> set (plm_active s)" and ne: "plm_active s \<noteq> []"
  defines "rest \<equiv> filter (\<lambda>q. q \<notin> set items) (plm_active s)"
  defines "k \<equiv> min (move_target (plm_active s) items (plm_CheckIndex s index)) (length rest)"
  shows "\<exists>t. plm_MoveItems items index s = Some (kError_NoErr, t) \<and> plm_lists_ok t \<and> plm_mem_ok t \<and>
    plm_active t = take k rest @ items @ drop k rest \<and> plm_GetCurrentItem t = plm_GetCurrentItem s"
proof -
  let ?xs = "take k rest @ items @ drop k rest"
  let ?s = "plm_set_active ?xs s"
  let ?olds = "map (\<lambda>p. index_loop p (plm_active s) 0) items"
  have len: "length (plm_active s) < kMaxItems" by (rule plm_active_ok(3) [OF ok])
  have nn: "NULL \<notin> set items" using sub plm_active_ok(2) [OF ok] by blast
  have ms: "mset ?xs = mset (plm_active s)"
    unfolding rest_def by (rule mset_pick [OF plm_active_ok(1) [OF ok] d sub])
  have ok1: "plm_lists_ok ?s" and mem1: "plm_mem_ok ?s"
    using plm_set_active_perm [OF ok ms] mem by simp_all
  obtain cur where cur: "plm_GetCurrentItem s = Some cur"
    and cur': "m_masterList s \<noteq> [] \<Longrightarrow> cur \<noteq> NULL \<and> cur \<in> set (m_masterList s)"
    using plm_GetCurrentItem_ok [OF ok] by (elim exE conjE) (simp split: if_splits)
  have "plm_CheckIndex s index \<le> kInvalidIndex" using len by (auto simp: plm_CheckIndex_simps)
  note ixl = move_index_loop_ok [OF nn this, of s]
  have er: "move_erase_loop items s = Some (plm_set_active rest s)"
    unfolding rest_def by (rule move_erase_loop_ok [OF d nn sub plm_active_ok(1) [OF ok]]) (use len in linarith)
  have lr: "length rest \<le> length (plm_active s)" unfolding rest_def by (rule length_filter_le)
  have lo: "length ?olds \<le> length (plm_active s)"
    using ms by (metis length_map length_append le_add1 le_add2 order_trans size_mset)
  have ul: "u32 (length rest) = length rest" using lr len by (intro u32_id) linarith
  have kk: "(if move_target (plm_active s) items (plm_CheckIndex s index) \<ge> length rest
      then u32 (length rest) else move_target (plm_active s) items (plm_CheckIndex s index)) = k"
    unfolding ul k_def by simp
  have ins: "vec_insert rest k items = Some ?xs" unfolding k_def by simp
  have ev: "\<exists>ev. move_event_loop ?olds k 0 items u = Some (u\<lparr>plm_events := ev\<rparr>)" for u
    by (rule move_event_loop_ok [OF nn]) (use lo len in simp_all)
  have run: "plm_MoveItems items index s = do {
     s3 \<leftarrow> (if m_playlistKey s = kPlaylistKey_MasterPlaylist
       then do { i \<leftarrow> plm_IndexOf ?s cur; (_, s3) \<leftarrow> plm_SetCurrentIndex i ?s; Some s3 }
       else Some ?s);
     s4 \<leftarrow> move_event_loop ?olds k 0 items s3;
     Some (kError_NoErr, s4) }"
    using cur ixl er ins kk unfolding plm_MoveItems_def
    by (simp add: plm_simps Let_def cong: if_cong del: vec_insert_Some split del: if_split)
  have tail: ?thesis
    if "(if m_playlistKey s = kPlaylistKey_MasterPlaylist
       then do { i \<leftarrow> plm_IndexOf ?s cur; (_, s3) \<leftarrow> plm_SetCurrentIndex i ?s; Some s3 }
       else Some ?s) = Some u" "plm_lists_ok u" "plm_mem_ok u" "plm_active u = ?xs"
      "plm_GetCurrentItem u = Some cur" for u
  proof -
    obtain ev where "move_event_loop ?olds k 0 items u = Some (u\<lparr>plm_events := ev\<rparr>)" using ev by blast
    then have "plm_MoveItems items index s = Some (kError_NoErr, u\<lparr>plm_events := ev\<rparr>)"
      unfolding run that(1) by simp
    moreover have "plm_mem_ok (u\<lparr>plm_events := ev\<rparr>)" by (rule plm_mem_okI_same [OF that(3)]) simp_all
    moreover have "plm_active (u\<lparr>plm_events := ev\<rparr>) = ?xs" using that(4) by (simp add: plm_active_def cong: list_id.case_cong)
    ultimately show ?thesis using that(2,5) cur by simp
  qed
  consider (m) "m_activeList s = MasterList" "m_playlistKey s = kPlaylistKey_MasterPlaylist"
    | (e) "m_activeList s = ExternalList" "m_playlistKey s \<noteq> kPlaylistKey_MasterPlaylist"
    using plm_lists_okD(9,10) [OF ok] by (cases "m_activeList s") auto
  then show ?thesis
  proof cases
    case m
    have am: "plm_active s = m_masterList s" by (rule plm_active_master [OF m(1)])
    have "mset ?xs = mset (m_masterList s)" "m_masterList s \<noteq> []" using ms ne am by simp_all
    from plm_refind_current [OF ok mem m(1) this cur] obtain i u where
      "plm_IndexOf ?s cur = Some i" "plm_SetCurrentIndex i ?s = Some (kError_NoErr, u)"
      "plm_lists_ok u" "plm_mem_ok u" "plm_active u = ?xs" "plm_GetCurrentItem u = Some cur" by blast
    then show ?thesis using tail [of u] m(2) by simp
  next
    case e
    have "plm_GetCurrentItem ?s = Some cur" using cur by (simp only: plm_GetCurrentItem_external [OF e(1)])
    then show ?thesis using tail [OF _ ok1 mem1] e(2) by (simp add: plm_simps)
  qed
qed


subsection \<open>\<open>SwapItems\<close>\<close>

definition swapped :: "nat \<Rightarrow> nat \<Rightarrow> 'a list \<Rightarrow> 'a list" where
  "swapped i j xs = xs[i := xs ! j, j := xs ! i]"

lemma plm_SwapItems_ok:
  assumes ok: "plm_lists_ok s" and mem: "plm_mem_ok s"
    and i: "i < length (plm_active s)" and j: "j < length (plm_active s)"
  shows "\<exists>t. plm_SwapItems i j s = Some (kError_NoErr, t) \<and> plm_lists_ok t \<and> plm_mem_ok t \<and>
    plm_active t = swapped i j (plm_active s) \<and>
    (m_activeList s = ExternalList \<or> \<not> m_shuffle s \<longrightarrow> plm_GetCurrentItem t = plm_GetCurrentItem s)"
proof -
  let ?ys = "swapped i j (plm_active s)"
  let ?s = "plm_set_active ?ys s"
  have ms: "mset ?ys = mset (plm_active s)" unfolding swapped_def by (rule mset_swap [OF j i])
  have ok1: "plm_lists_ok ?s" and mem1: "plm_mem_ok ?s"
    using plm_set_active_perm [OF ok ms] mem by simp_all
  have ci: "plm_CheckIndex s i = i" "plm_CheckIndex s j = j" "i \<noteq> kInvalidIndex" "j \<noteq> kInvalidIndex"
    using i j plm_active_ok(3) [OF ok] by (simp_all add: plm_CheckIndex_simps)
  have ly: "length ?ys = length (plm_active s)" by (simp add: swapped_def)
  define ev where "ev = plm_events s @ [PlaylistItemMovedEvent i j (?ys ! j),
    PlaylistItemMovedEvent (u32 (Suc j)) i (?ys ! i)]"
  let ?t = "?s\<lparr>plm_events := ev\<rparr>"
  have okt: "plm_lists_ok ?t" and memt: "plm_mem_ok ?t"
    using ok1 plm_mem_okI_same [OF mem1, of ?t] by simp_all
  have run: "plm_SwapItems i j s = do {
      s4 \<leftarrow> (if m_playlistKey s = kPlaylistKey_MasterPlaylist
          then if m_current s = i then plm_InternalSetCurrentIndex j ?t
               else if m_current s = j then plm_InternalSetCurrentIndex i ?t
               else Some ?t
          else Some ?t);
      Some (kError_NoErr, s4) }"
  proof -
    have t: "plm_emit (PlaylistItemMovedEvent (u32 (Suc j)) i (?ys ! i))
        (plm_emit (PlaylistItemMovedEvent i j (?ys ! j)) ?s) = ?t"
      by (simp add: plm_emit_def ev_def plm_simps)
    have v: "vec_set (plm_active s) i (plm_active s ! j) = Some ((plm_active s)[i := plm_active s ! j])"
      "vec_set ((plm_active s)[i := plm_active s ! j]) j (plm_active s ! i) = Some ?ys"
      "vec_at ?ys i = Some (?ys ! i)" "vec_at ?ys j = Some (?ys ! j)"
      using i j ly by (simp_all add: vec_set_def swapped_def)
    have f: "m_playlistKey ?t = m_playlistKey s" "m_current ?t = m_current s" by (simp_all add: plm_simps)
    show ?thesis
      unfolding plm_SwapItems_def using ci i j by (simp add: v t f Let_def split del: if_split cong: if_cong)
  qed
  consider (m) "m_activeList s = MasterList" "m_playlistKey s = kPlaylistKey_MasterPlaylist"
    | (e) "m_activeList s = ExternalList" "m_playlistKey s \<noteq> kPlaylistKey_MasterPlaylist"
    using plm_lists_okD(9,10) [OF ok] by (cases "m_activeList s") auto
  then show ?thesis
  proof cases
    case e
    have "plm_active ?t = ?ys" using e(1) by (simp add: plm_active_def plm_simps)
    moreover have "plm_GetCurrentItem ?t = plm_GetCurrentItem s"
      by (simp add: plm_GetCurrentItem_external [OF e(1)])
    ultimately show ?thesis using run e okt memt by simp
  next
    case m
    have am: "plm_active s = m_masterList s" by (rule plm_active_master [OF m(1)])
    have ne: "m_masterList s \<noteq> []" using i am by auto
    have mt: "m_masterList ?t = ?ys" "m_shuffle ?t = m_shuffle s" "m_activeList ?t = MasterList"
      using m(1) by (simp_all add: plm_simps)
    have lm: "length (m_masterList ?t) = length (m_masterList s)" by (metis am ly mt(1))
    define c where "c = (if m_current s = i then j else if m_current s = j then i else m_current s)"
    have "c < length (m_masterList s)"
      using i j plm_lists_okD(12) [OF ok ne] unfolding am by (auto simp: c_def)
    then have c: "c < length (m_masterList ?t)" "c < length (m_masterList s)" unfolding lm by simp_all
    obtain ev' where int: "plm_InternalSetCurrentIndex c ?t = Some (?t\<lparr>m_current := c, plm_events := ev'\<rparr>)"
      using plm_InternalSetCurrentIndex_keeps [OF okt memt c(1)] by blast
    have "\<exists>ev. plm_SwapItems i j s = Some (kError_NoErr, ?t\<lparr>m_current := c, plm_events := ev\<rparr>)"
    proof (cases "m_current s = i \<or> m_current s = j")
      case True
      then show ?thesis using run m(2) int by (auto simp: c_def)
    next
      case False
      then have id: "?t\<lparr>m_current := c, plm_events := ev\<rparr> = ?t" by (simp add: c_def plm_set_active_def m(1))
      have "plm_SwapItems i j s = Some (kError_NoErr, ?t)" using run m(2) False by simp
      then show ?thesis by (intro exI [of _ ev]) (simp only: id)
    qed
    then obtain ev2 where t: "plm_SwapItems i j s = Some (kError_NoErr, ?t\<lparr>m_current := c, plm_events := ev2\<rparr>)"
      by blast
    let ?u = "?t\<lparr>m_current := c, plm_events := ev2\<rparr>"
    have "plm_lists_ok ?u" using plm_lists_ok_current [OF ok1, of c] c(1) by simp
    moreover have "plm_mem_ok ?u" by (rule plm_mem_okI_same [OF memt]) simp_all
    moreover have "plm_active ?u = ?ys" using m(1) by (simp add: plm_active_def plm_simps)
    moreover have "plm_GetCurrentItem ?u = plm_GetCurrentItem s" if ns: "\<not> m_shuffle s"
    proof -
      have "?ys ! c = m_masterList s ! m_current s"
        using i j am plm_lists_okD(12) [OF ok ne] by (auto simp: swapped_def c_def nth_list_update)
      then show ?thesis
        using ns c ne mt(1) plm_lists_okD(12) [OF ok ne] m(1)
        by (auto simp: plm_GetCurrentItem_def plm_simps)
    qed
    ultimately show ?thesis using t m(1) by auto
  qed
qed


subsection \<open>Properties\<close>

text \<open>
  C19. \<open>MoveItem\<close> between two valid positions succeeds, puts the item at the new position with
  the order of the others kept, and keeps the invariants. The song that is playing from the
  unshuffled master list is followed only if it is not strictly between the two positions;
  in the external list it does not matter.
\<close>

theorem plm_MoveItem_moves:
  assumes ok: "plm_lists_ok s" and mem: "plm_mem_ok s"
    and o: "old < length (plm_active s)" and n: "new < length (plm_active s)"
  shows "\<exists>t. plm_MoveItem old new s = Some (kError_NoErr, t) \<and> plm_lists_ok t \<and> plm_mem_ok t \<and>
    plm_active t ! new = plm_active s ! old \<and>
    take new (plm_active t) @ drop (Suc new) (plm_active t) =
      take old (plm_active s) @ drop (Suc old) (plm_active s) \<and>
    (m_activeList s = ExternalList \<longrightarrow> plm_GetCurrentItem t = plm_GetCurrentItem s) \<and>
    (m_activeList s = MasterList \<and> \<not> m_shuffle s \<longrightarrow>
      (plm_GetCurrentItem t = plm_GetCurrentItem s \<longleftrightarrow>
       \<not> (old < m_current s \<and> m_current s < new \<or> new < m_current s \<and> m_current s < old)))"
proof -
  let ?xs = "take old (plm_active s) @ drop (Suc old) (plm_active s)"
  obtain t where t: "plm_MoveItem old new s = Some (kError_NoErr, t)" "plm_lists_ok t" "plm_mem_ok t"
    "plm_active t = moved old new (plm_active s)"
    "plm_GetCurrentItem t = (if m_activeList s = ExternalList then plm_GetCurrentItem s
      else Some ((if m_shuffle s then m_shuffleList s else moved old new (m_masterList s)) !
        moved_current old new (m_current s)))"
    using plm_MoveItem_ok [OF assms] by blast
  have nx: "new \<le> length ?xs" unfolding length_erase [OF o] using n by linarith
  have "moved old new (plm_active s) ! new = plm_active s ! old" using nth_moved [OF o n n] by simp
  moreover have "take new (moved old new (plm_active s)) @ drop (Suc new) (moved old new (plm_active s)) = ?xs"
    unfolding moved_def Let_def by (rule erase_insert [OF nx])
  moreover have "plm_GetCurrentItem t = plm_GetCurrentItem s \<longleftrightarrow>
       \<not> (old < m_current s \<and> m_current s < new \<or> new < m_current s \<and> m_current s < old)"
    if m: "m_activeList s = MasterList" "\<not> m_shuffle s"
  proof -
    have am: "plm_active s = m_masterList s" by (rule plm_active_master [OF m(1)])
    have ne: "m_masterList s \<noteq> []" using o am by auto
    show ?thesis
      using t(5) m plm_GetCurrentItem_nth [OF ok ne] o n
        moved_current_nth [OF plm_lists_okD(1) [OF ok] _ _ plm_lists_okD(12) [OF ok ne], of old new]
      by (simp add: plm_play_list_def am)
  qed
  ultimately show ?thesis using t by auto
qed

lemma spare_item_current [simp]: "m_current spare_item = 1"
  by (simp add: spare_item_def)

theorem plm_MoveItem_moves_witness:
  "\<exists>t. plm_MoveItem 0 2 spare_item = Some (kError_NoErr, t) \<and> plm_active t ! 2 = 1 \<and>
     plm_GetCurrentItem t \<noteq> Some 2"
  using plm_MoveItem_moves [OF spare_item_ok(1,2), of 0 2]
  by (auto simp: spare_item_ok(4))

text \<open>
  \<open>MoveItems\<close> of distinct items of the active list, in any order, succeeds: they end up
  next to each other in the given order, the others keep theirs, the invariants hold and the
  song that is current stays current, in shuffle mode as well.
\<close>

theorem plm_MoveItems_keeps_current:
  assumes "plm_lists_ok s" and "plm_mem_ok s" and "distinct items"
    and "set items \<subseteq> set (plm_active s)" and "plm_active s \<noteq> []"
  shows "\<exists>t xs ys. plm_MoveItems items index s = Some (kError_NoErr, t) \<and> plm_lists_ok t \<and>
    plm_mem_ok t \<and> plm_active t = xs @ items @ ys \<and>
    xs @ ys = filter (\<lambda>q. q \<notin> set items) (plm_active s) \<and>
    length xs \<le> index \<and> (ys = [] \<or> index \<le> length xs + length items) \<and>
    plm_GetCurrentItem t = plm_GetCurrentItem s"
proof -
  define rest where "rest = filter (\<lambda>q. q \<notin> set items) (plm_active s)"
  define m where "m = move_target (plm_active s) items (plm_CheckIndex s index)"
  define k where "k = min m (length rest)"
  have len: "length (plm_active s) < kMaxItems" by (rule plm_active_ok(3) [OF assms(1)])
  have lr: "length rest \<le> length (plm_active s)" unfolding rest_def by (rule length_filter_le)
  have li: "length items \<le> length (plm_active s)"
    using assms(3,4) by (metis card_length card_mono distinct_card List.finite_set order_trans)
  have m: "m \<le> plm_CheckIndex s index" "plm_CheckIndex s index \<le> m + length items"
    unfolding m_def by (rule move_target_bounds)+
  have lk: "length (take k rest) = k" by (simp add: k_def)
  have "k \<le> index \<and> (drop k rest = [] \<or> index \<le> k + length items)"
  proof (cases "index < length (plm_active s)")
    case True
    then have "plm_CheckIndex s index = index" using len by (simp add: plm_CheckIndex_simps)
    then show ?thesis using m by (auto simp: k_def)
  next
    case False
    then have "plm_CheckIndex s index = kInvalidIndex" using len by (simp add: plm_CheckIndex_simps)
    then have "length rest \<le> m" using m li lr len by linarith
    then show ?thesis using False lr by (simp add: k_def)
  qed
  moreover obtain t where "plm_MoveItems items index s = Some (kError_NoErr, t)" "plm_lists_ok t"
    "plm_mem_ok t" "plm_active t = take k rest @ items @ drop k rest"
    "plm_GetCurrentItem t = plm_GetCurrentItem s"
    using plm_MoveItems_ok [OF assms, of index] unfolding k_def m_def rest_def by blast
  moreover have "take k rest @ drop k rest = filter (\<lambda>q. q \<notin> set items) (plm_active s)"
    by (simp add: rest_def)
  ultimately show ?thesis using lk by (intro exI [of _ t] exI [of _ "take k rest"] exI [of _ "drop k rest"]) simp
qed

theorem plm_MoveItems_keeps_current_witness:
  "\<exists>t. plm_MoveItems [3, 1] 0 spare_item = Some (kError_NoErr, t) \<and> plm_active t = [3, 1, 2] \<and>
     plm_GetCurrentItem t = Some 2"
  using plm_MoveItems_keeps_current [OF spare_item_ok(1,2), of "[3, 1]" 0]
  by (auto simp: spare_item_ok(4))

subsection \<open>Two consequences of the loops of \<open>MoveItems\<close>\<close>

text \<open>
  The index is counted down in the order of the vector and compared with the value already
  counted down: the same two items moved to the same index end up in two places.
\<close>

lemma move_target_order:
  "move_target [1, 2, 3, 4] [1, 2] 2 = 1 \<and> move_target [1, 2, 3, 4] [2, 1] 2 = 0"
  by simp

text \<open>
  \<open>MoveItems(indices)\<close> with an index past the end puts a null pointer into the vector; the
  loops skip it, but the final \<open>insert\<close> takes the whole vector, and \<open>Time()\<close> dereferences it.
\<close>

lemma plm_MoveItems_indices_inserts_null:
  "\<exists>t. plm_MoveItems_indices [7] 0 spare_item = Some (kError_NoErr, t) \<and>
     plm_active t = [NULL, 1, 2, 3] \<and> plm_Time t = None"
proof -
  let ?s = "plm_set_active [NULL, Suc 0, 2, 3] spare_item"
  let ?t = "plm_emit (PlaylistCurrentItemInfoEvent 2) (?s\<lparr>m_current := 2\<rparr>)"
  have f: "plm_active ?s = [NULL, Suc 0, 2, 3]" "m_shuffle ?s = False" "m_masterList ?s = [NULL, Suc 0, 2, 3]"
    "m_playlistKey spare_item = kPlaylistKey_MasterPlaylist" "plm_heap ?s NULL = None"
    by (simp_all add: plm_simps) (simp add: spare_item_def three_items_def plm_new_def)
  have "items_at spare_item [7] = Some [NULL]" by (simp add: plm_ItemAt_simps spare_item_ok(4))
  moreover have "plm_CheckIndex spare_item 0 = 0"
    by (simp add: plm_CheckIndex_simps spare_item_ok(4))
  moreover have "plm_IndexOf ?s 2 = Some 2" by (simp add: plm_simps)
  moreover have "plm_SetCurrentIndex 2 ?s = Some (kError_NoErr, ?t)"
    by (simp add: plm_SetCurrentIndex_def plm_CheckIndex_def plm_CountItems_def f Let_def
      plm_InternalSetCurrentIndex_def plm_GetCurrentItem_def)
  ultimately have "plm_MoveItems_indices [7] 0 spare_item = Some (kError_NoErr, ?t)"
    by (simp add: plm_MoveItems_indices_def plm_MoveItems_def spare_item_ok(4) f plm_simps Let_def
      numeral_2_eq_2 [symmetric])
  moreover have "plm_active ?t = [NULL, Suc 0, 2, 3]" by (simp add: plm_active_def plm_simps)
  moreover have "plm_Time ?t = None"
    unfolding plm_Time_def calculation(2) using f(5) by (simp add: plm_simps)
  ultimately show ?thesis by auto
qed

end
