(* ===== verification/CStrings.thy ===== *)
theory CStrings
  imports Prelude "HOL-Library.List_Lexorder"
begin

section \<open>C strings\<close>

text \<open>
  The functions of the C library and of \<open>std::string\<close> that the program uses on text, over lists
  of characters. \<open>c_str\<close> is the part before the first NUL; comparisons are of unsigned bytes,
  and \<open>strcasecmp\<close> folds the ASCII letters.
\<close>

definition c_str :: "string \<Rightarrow> string" where
  "c_str s = takeWhile (\<lambda>c. c \<noteq> CHR 0x00) s"

definition byte_of :: "char \<Rightarrow> nat" where
  "byte_of c = of_char c"

definition lower_byte :: "char \<Rightarrow> nat" where
  "lower_byte c = (if 65 \<le> byte_of c \<and> byte_of c \<le> 90 then byte_of c + 32 else byte_of c)"

fun strcasecmp :: "string \<Rightarrow> string \<Rightarrow> int" where
  "strcasecmp [] [] = 0"
| "strcasecmp [] (d # ds) = - int (lower_byte d)"
| "strcasecmp (c # cs) [] = int (lower_byte c)"
| "strcasecmp (c # cs) (d # ds) =
     (if lower_byte c = lower_byte d then strcasecmp cs ds else int (lower_byte c) - int (lower_byte d))"

text \<open>\<open>operator <\<close> of \<open>std::string\<close>.\<close>

fun string_less :: "string \<Rightarrow> string \<Rightarrow> bool" where
  "string_less cs [] = False"
| "string_less [] (d # ds) = True"
| "string_less (c # cs) (d # ds) =
     (if byte_of c = byte_of d then string_less cs ds else byte_of c < byte_of d)"

text \<open>\<open>substr(find_last_of('/') + 1)\<close>: the whole string when there is no slash.\<close>

definition file_part :: "string \<Rightarrow> string" where
  "file_part url = rev (takeWhile (\<lambda>c. c \<noteq> CHR ''/'') (rev url))"

lemma byte_of_inject [simp]: "byte_of c = byte_of d \<longleftrightarrow> c = d"
  by (simp add: byte_of_def)

lemma byte_of_0_iff: "byte_of c = 0 \<longleftrightarrow> c = CHR 0x00"
proof -
  have "byte_of (CHR 0x00) = 0" by (simp add: byte_of_def)
  then show ?thesis by (metis byte_of_inject)
qed

lemma lower_byte_0_iff: "lower_byte c = 0 \<longleftrightarrow> c = CHR 0x00"
  using byte_of_0_iff [of c] by (auto simp: lower_byte_def)

lemma c_str_no_nul: "CHR 0x00 \<notin> set (c_str s)"
  by (auto simp: c_str_def dest: set_takeWhileD)

lemma c_str_id: "CHR 0x00 \<notin> set s \<Longrightarrow> c_str s = s"
  by (auto simp: c_str_def takeWhile_eq_all_conv)

text \<open>Both comparisons are the lexicographic order of the (folded) bytes.\<close>

lemma strcasecmp_eq_less:
  assumes "CHR 0x00 \<notin> set a" and "CHR 0x00 \<notin> set b"
  shows "(strcasecmp a b < 0 \<longleftrightarrow> map lower_byte a < map lower_byte b) \<and>
    (strcasecmp a b = 0 \<longleftrightarrow> map lower_byte a = map lower_byte b)"
  using assms
proof (induction a b rule: strcasecmp.induct)
  case (2 d ds)
  then have "lower_byte d \<noteq> 0" by (auto simp: lower_byte_0_iff)
  then show ?case by simp
next
  case (3 c cs)
  then have "lower_byte c \<noteq> 0" by (auto simp: lower_byte_0_iff)
  then show ?case by simp
qed auto

lemma string_less_iff: "string_less a b \<longleftrightarrow> map byte_of a < map byte_of b"
  by (induction a b rule: string_less.induct) auto

subsection \<open>Character classes and numbers\<close>

text \<open>
  \<open>isspace\<close>, \<open>isgraph\<close> and \<open>isdigit\<close> of the C locale, on the byte of the character.
  \<open>strtol(s, &end, 10)\<close> is the number and what \<open>end\<close> points to; \<open>long\<close> has 64 bits, and the value is
  clipped to its range. \<open>atoi\<close> is that number converted to \<open>int\<close>.
\<close>

definition c_isspace :: "char \<Rightarrow> bool" where
  "c_isspace c \<longleftrightarrow> (9 \<le> byte_of c \<and> byte_of c \<le> 13) \<or> byte_of c = 32"

definition c_isgraph :: "char \<Rightarrow> bool" where
  "c_isgraph c \<longleftrightarrow> 33 \<le> byte_of c \<and> byte_of c \<le> 126"

definition c_isdigit :: "char \<Rightarrow> bool" where
  "c_isdigit c \<longleftrightarrow> 48 \<le> byte_of c \<and> byte_of c \<le> 57"

definition digit_char :: "nat \<Rightarrow> char" where
  "digit_char n = char_of (48 + n)"

definition digits_value :: "string \<Rightarrow> nat" where
  "digits_value s = foldl (\<lambda>n c. n * 10 + (byte_of c - 48)) 0 s"

definition clip_long :: "int \<Rightarrow> int" where
  "clip_long n = max (- (2 ^ 63)) (min n (2 ^ 63 - 1))"

definition strtol10 :: "string \<Rightarrow> int \<times> string" where
  "strtol10 s =
     (let t = dropWhile c_isspace (c_str s);
          neg = (t \<noteq> [] \<and> hd t = CHR ''-'');
          u = (if t \<noteq> [] \<and> hd t \<in> {CHR ''-'', CHR ''+''} then tl t else t);
          ds = takeWhile c_isdigit u
      in if ds = [] then (0, c_str s)
         else (clip_long (if neg then - int (digits_value ds) else int (digits_value ds)),
               dropWhile c_isdigit u))"

text \<open>Conversion of a \<open>long\<close> to a 32-bit \<open>int\<close>, which wraps around.\<close>

definition int32 :: "int \<Rightarrow> int" where
  "int32 n = (n + 2147483648) mod 4294967296 - 2147483648"

definition atoi :: "string \<Rightarrow> int" where
  "atoi s = int32 (fst (strtol10 s))"

text \<open>The decimal digits of a number, as \<open>printf\<close> writes them for \<open>%d\<close> and \<open>%lu\<close>.\<close>

fun decimal :: "nat \<Rightarrow> string" where
  "decimal n = (if n < 10 then [digit_char n] else decimal (n div 10) @ [digit_char (n mod 10)])"

declare decimal.simps [simp del]

lemma byte_of_consts [simp]:
  "byte_of (CHR 0x00) = 0" "byte_of (CHR 0x09) = 9" "byte_of (CHR 0x0A) = 10" "byte_of (CHR 0x0D) = 13"
  "byte_of (CHR '' '') = 32" "byte_of (CHR 0x22) = 34" "byte_of (CHR ''#'') = 35" "byte_of (CHR ''%'') = 37"
  "byte_of (CHR ''+'') = 43" "byte_of (CHR ''-'') = 45" "byte_of (CHR ''.'') = 46" "byte_of (CHR ''/'') = 47"
  "byte_of (CHR '':'') = 58" "byte_of (CHR 0x5C) = 92" "byte_of (CHR ''n'') = 110" "byte_of (CHR ''t'') = 116"
  by (simp_all add: byte_of_def)

lemma isspace_consts [simp]:
  "c_isspace (CHR 0x09)" "c_isspace (CHR 0x0A)" "c_isspace (CHR 0x0D)" "c_isspace (CHR '' '')"
  "\<not> c_isspace (CHR 0x22)" "\<not> c_isspace (CHR ''#'')" "\<not> c_isspace (CHR '':'')" "\<not> c_isspace (CHR 0x5C)"
  "\<not> c_isspace (CHR ''-'')" "\<not> c_isspace (CHR ''/'')" "\<not> c_isspace (CHR 0x00)"
  by (simp_all add: c_isspace_def)

lemma byte_of_neq: "byte_of c \<noteq> byte_of d \<Longrightarrow> c \<noteq> d"
  by auto

lemma byte_of_less: "byte_of c < 256"
proof -
  have "byte_of c \<in> range (of_char :: char \<Rightarrow> nat)" by (simp add: byte_of_def)
  then show ?thesis by (simp add: range_nat_of_char)
qed

lemma char_of_byte_of [simp]: "char_of (byte_of c) = c"
  by (simp add: byte_of_def)

lemma byte_of_char_of: "n < 256 \<Longrightarrow> byte_of (char_of n) = n"
  by (simp add: byte_of_def)

lemma byte_of_digit [simp]: "n < 10 \<Longrightarrow> byte_of (digit_char n) = 48 + n"
  by (simp add: digit_char_def byte_of_char_of)

lemma isdigit_digit [simp]: "n < 10 \<Longrightarrow> c_isdigit (digit_char n)"
  by (simp add: c_isdigit_def)

lemma decimal_nonempty [simp]: "decimal n \<noteq> []"
  by (subst decimal.simps) simp

lemma decimal_digits: "\<forall>c \<in> set (decimal n). c_isdigit c"
proof (induction n rule: decimal.induct)
  case (1 n)
  then show ?case by (subst decimal.simps) auto
qed

lemma digits_value_snoc: "digits_value (s @ [c]) = digits_value s * 10 + (byte_of c - 48)"
  by (simp add: digits_value_def)

lemma digits_value_decimal [simp]: "digits_value (decimal n) = n"
proof (induction n rule: decimal.induct)
  case (1 n)
  then show ?case by (subst decimal.simps) (simp add: digits_value_snoc digits_value_def)
qed

lemma length_decimal: "n < 10 ^ k \<Longrightarrow> 0 < k \<Longrightarrow> length (decimal n) \<le> k"
proof (induction n arbitrary: k rule: decimal.induct)
  case (1 n)
  show ?case
  proof (cases "n < 10")
    case True
    then show ?thesis using 1(3) by (subst decimal.simps) simp
  next
    case False
    then obtain j where j: "k = Suc j" "0 < j" using 1(2,3) by (cases k; cases "k - 1") auto
    then have "n div 10 < 10 ^ j" using 1(2) by (simp add: less_mult_imp_div_less mult.commute)
    then have "length (decimal (n div 10)) \<le> j" using 1(1) False j by blast
    then show ?thesis using False j by (subst decimal.simps) simp
  qed
qed

lemma isdigit_no_nul: "c_isdigit c \<Longrightarrow> c \<noteq> CHR 0x00"
  by (auto simp: c_isdigit_def byte_of_def)

lemma isdigit_no_space: "c_isdigit c \<Longrightarrow> \<not> c_isspace c"
  by (simp add: c_isdigit_def c_isspace_def)

lemma isdigit_no_sign: "c_isdigit c \<Longrightarrow> c \<noteq> CHR ''-'' \<and> c \<noteq> CHR ''+''"
  by (auto simp: c_isdigit_def byte_of_def)

lemma decimal_no_nul: "CHR 0x00 \<notin> set (decimal n)"
  using decimal_digits [of n] isdigit_no_nul by blast

lemma decimal_hd: "hd (decimal n) \<in> set (decimal n)" by simp

lemma strtol10_decimal_rest:
  assumes "rest = [] \<or> \<not> c_isdigit (hd rest)" and "CHR 0x00 \<notin> set rest"
  shows "strtol10 (decimal n @ rest) = (clip_long (int n), rest)"
proof -
  obtain d ds where d: "decimal n = d # ds" by (cases "decimal n") simp_all
  then have dg: "c_isdigit d" "\<forall>c \<in> set (d # ds). c_isdigit c" using decimal_digits [of n] by auto
  have c: "c_str (decimal n @ rest) = decimal n @ rest"
    using decimal_no_nul [of n] assms(2) by (intro c_str_id) simp
  have tw: "takeWhile c_isdigit (decimal n @ rest) = decimal n"
    "dropWhile c_isdigit (decimal n @ rest) = rest"
    using assms(1) decimal_digits [of n] by (cases rest; simp)+
  have "dropWhile c_isspace (decimal n @ rest) = decimal n @ rest" and "hd (decimal n @ rest) = d"
    using isdigit_no_space [OF dg(1)] by (simp_all add: d)
  moreover have "decimal n @ rest \<noteq> []" by simp
  ultimately show ?thesis
    using isdigit_no_sign [OF dg(1)] tw by (simp add: strtol10_def c Let_def del: append_is_Nil_conv)
qed

lemma strtol10_neg_decimal: "strtol10 (CHR ''-'' # decimal n) = (clip_long (- int n), [])"
proof -
  have c: "c_str (CHR ''-'' # decimal n) = CHR ''-'' # decimal n"
    using decimal_no_nul [of n] by (intro c_str_id) simp
  have tw: "takeWhile c_isdigit (decimal n) = decimal n" "dropWhile c_isdigit (decimal n) = []"
    using decimal_digits [of n] by (simp_all add: takeWhile_eq_all_conv)
  then show ?thesis by (simp add: strtol10_def c Let_def tw)
qed

lemma int32_id: "- 2147483648 \<le> n \<Longrightarrow> n < 2147483648 \<Longrightarrow> int32 n = n"
  by (simp add: int32_def)

lemma clip_long_id: "- 2147483648 \<le> n \<Longrightarrow> n < 4294967296 \<Longrightarrow> clip_long n = n"
  by (simp add: clip_long_def)

lemma atoi_decimal: "n < 2147483648 \<Longrightarrow> atoi (decimal n) = int n"
  using strtol10_decimal_rest [of "[]" n] by (simp add: atoi_def clip_long_id int32_id)

end
