(* ===== verification/PlmSort.thy ===== *)
theory PlmSort
  imports PlmMove CStrings
begin

section \<open>Sorting\<close>

text \<open>
  \<open>PlaylistItemSort\<close> and \<open>PlaylistManager::Sort\<close> of \<open>playlist.cpp\<close>. \<open>std::stable_sort\<close> is a
  stable insertion sort by the comparison it is given; it has no defined result when the
  comparison holds both ways between two of the elements, as \<open>not2(PlaylistItemSort(key))\<close> does
  for two items with the same key.
\<close>

subsection \<open>\<open>PlaylistItemSort\<close>\<close>

definition lstrcmpi_less :: "string \<Rightarrow> string \<Rightarrow> bool" where
  "lstrcmpi_less a b \<longleftrightarrow> strcasecmp (c_str a) (c_str b) < 0"

fun item_less :: "sort_key_id \<Rightarrow> item \<Rightarrow> item \<Rightarrow> bool" where
  "item_less kPlaylistSortKey_Artist a b = lstrcmpi_less (m_artist (it_metadata a)) (m_artist (it_metadata b))"
| "item_less kPlaylistSortKey_Album a b = lstrcmpi_less (m_album (it_metadata a)) (m_album (it_metadata b))"
| "item_less kPlaylistSortKey_Title a b = lstrcmpi_less (m_title (it_metadata a)) (m_title (it_metadata b))"
| "item_less kPlaylistSortKey_Comment a b = lstrcmpi_less (m_comment (it_metadata a)) (m_comment (it_metadata b))"
| "item_less kPlaylistSortKey_Year a b = (m_year (it_metadata a) < m_year (it_metadata b))"
| "item_less kPlaylistSortKey_Track a b = (m_track (it_metadata a) < m_track (it_metadata b))"
| "item_less kPlaylistSortKey_Genre a b = lstrcmpi_less (m_genre (it_metadata a)) (m_genre (it_metadata b))"
| "item_less kPlaylistSortKey_Time a b = (m_time (it_metadata a) < m_time (it_metadata b))"
| "item_less kPlaylistSortKey_Location a b = string_less (it_url a) (it_url b)"
| "item_less kPlaylistSortKey_FileName a b = lstrcmpi_less (file_part (it_url a)) (file_part (it_url b))"
| "item_less kPlaylistSortKey_LastKey a b = True"
| "item_less kPlaylistSortKey_Random a b = True"

subsection \<open>\<open>stable_sort\<close>\<close>

fun stable_insert :: "('a \<Rightarrow> 'a \<Rightarrow> bool) \<Rightarrow> 'a \<Rightarrow> 'a list \<Rightarrow> 'a list" where
  "stable_insert lt x [] = [x]"
| "stable_insert lt x (y # ys) = (if lt y x then y # stable_insert lt x ys else x # y # ys)"

definition stable_sort :: "('a \<Rightarrow> 'a \<Rightarrow> bool) \<Rightarrow> 'a list \<Rightarrow> 'a list option" where
  "stable_sort lt xs =
     (if sorted_wrt (\<lambda>x y. \<not> (lt x y \<and> lt y x)) xs then Some (foldr (stable_insert lt) xs []) else None)"

text \<open>The comparison dereferences its items: each must be live once there are two to compare.\<close>

fun load_items :: "(ptr \<rightharpoonup> item) \<Rightarrow> ptr list \<Rightarrow> (item \<times> ptr) list option" where
  "load_items h [] = Some []"
| "load_items h (p # ps) = do { it \<leftarrow> h p; its \<leftarrow> load_items h ps; Some ((it, p) # its) }"

definition sort_pointers ::
  "(item \<Rightarrow> item \<Rightarrow> bool) \<Rightarrow> (ptr \<rightharpoonup> item) \<Rightarrow> ptr list \<Rightarrow> ptr list option" where
  "sort_pointers lt h xs =
     (if length xs \<le> 1 then Some xs
      else do {
        its \<leftarrow> load_items h xs;
        ys \<leftarrow> stable_sort (\<lambda>a b. lt (fst a) (fst b)) its;
        Some (map snd ys)
      })"

definition plm_Sort :: "sort_key_id \<Rightarrow> sort_type \<Rightarrow> plm \<Rightarrow> (error \<times> plm) option" where
  "plm_Sort key type s = do {
     currentItem \<leftarrow> plm_GetCurrentItem s;
     (result, s1) \<leftarrow>
       (if key \<noteq> kPlaylistSortKey_LastKey \<and> key \<noteq> kPlaylistSortKey_Random then do {
          ys \<leftarrow> (if type = kPlaylistSortType_Ascending
            then sort_pointers (item_less key) (plm_heap s) (plm_active s)
            else sort_pointers (\<lambda>a b. \<not> item_less key a b) (plm_heap s) (plm_active s));
          Some (kError_NoErr, (plm_set_active ys s)\<lparr>m_sortKey := key, m_sortType := type\<rparr>)
        }
        else if key = kPlaylistSortKey_Random then do {
          (ys, rs) \<leftarrow> ShuffleIt (plm_active s) (plm_rand s);
          Some (kError_NoErr, (plm_set_active ys s)\<lparr>plm_rand := rs, m_sortKey := key, m_sortType := type\<rparr>)
        }
        else Some (kError_InvalidParam, s));
     if IsntError result then do {
       s2 \<leftarrow> (if m_playlistKey s1 = kPlaylistKey_MasterPlaylist \<and> currentItem \<noteq> NULL
         then do { i \<leftarrow> plm_IndexOf s1 currentItem; (_, s2) \<leftarrow> plm_SetCurrentIndex i s1; Some s2 }
         else Some s1);
       Some (result, plm_emit (PlaylistSortedEvent key) s2)
     }
     else Some (result, s1)
   }"

subsection \<open>The order of the items\<close>

text \<open>The key as a list of numbers: a number alone, a string as its bytes, folded or not.\<close>

fun sort_value :: "sort_key_id \<Rightarrow> item \<Rightarrow> nat list" where
  "sort_value kPlaylistSortKey_Artist a = map lower_byte (c_str (m_artist (it_metadata a)))"
| "sort_value kPlaylistSortKey_Album a = map lower_byte (c_str (m_album (it_metadata a)))"
| "sort_value kPlaylistSortKey_Title a = map lower_byte (c_str (m_title (it_metadata a)))"
| "sort_value kPlaylistSortKey_Comment a = map lower_byte (c_str (m_comment (it_metadata a)))"
| "sort_value kPlaylistSortKey_Genre a = map lower_byte (c_str (m_genre (it_metadata a)))"
| "sort_value kPlaylistSortKey_Year a = [m_year (it_metadata a)]"
| "sort_value kPlaylistSortKey_Track a = [m_track (it_metadata a)]"
| "sort_value kPlaylistSortKey_Time a = [m_time (it_metadata a)]"
| "sort_value kPlaylistSortKey_Location a = map byte_of (it_url a)"
| "sort_value kPlaylistSortKey_FileName a = map lower_byte (c_str (file_part (it_url a)))"
| "sort_value _ a = []"

abbreviation sort_key_ok :: "sort_key_id \<Rightarrow> bool" where
  "sort_key_ok key \<equiv> key \<noteq> kPlaylistSortKey_LastKey \<and> key \<noteq> kPlaylistSortKey_Random"

lemma lstrcmpi_less_iff: "lstrcmpi_less a b \<longleftrightarrow> map lower_byte (c_str a) < map lower_byte (c_str b)"
  unfolding lstrcmpi_less_def using strcasecmp_eq_less [OF c_str_no_nul c_str_no_nul] by blast

lemma item_less_iff: "sort_key_ok key \<Longrightarrow> item_less key a b \<longleftrightarrow> sort_value key a < sort_value key b"
  by (cases key) (auto simp: lstrcmpi_less_iff string_less_iff)

subsection \<open>The sort\<close>

lemma stable_insert_insort:
  "stable_insert (\<lambda>a b. f a < f b) x ys = insort_key f x ys" for f :: "'a \<Rightarrow> 'b :: linorder"
  by (induction ys) (auto simp: not_le)

lemma stable_sort_ascending:
  "stable_sort (\<lambda>a b. f a < f b) xs = Some (sort_key f xs)" for f :: "'a \<Rightarrow> 'b :: linorder"
proof -
  have "foldr (stable_insert (\<lambda>a b. f a < f b)) xs [] = sort_key f xs"
    by (induction xs) (simp_all add: stable_insert_insort)
  then show ?thesis by (auto simp: stable_sort_def sorted_wrt_iff_nth_less)
qed

lemma set_stable_insert [simp]: "set (stable_insert lt x ys) = insert x (set ys)"
  by (induction ys) auto

lemma mset_stable_sort: "mset (foldr (stable_insert lt) xs []) = mset xs"
proof -
  have "mset (stable_insert lt x ys) = add_mset x (mset ys)" for x and ys :: "'a list"
    by (induction ys) auto
  then show ?thesis by (induction xs) auto
qed

lemma descending_insert:
  fixes f :: "'a \<Rightarrow> 'b :: linorder"
  assumes "sorted_wrt (\<lambda>a b. f b < f a) ys" and "f x \<notin> f ` set ys"
  shows "sorted_wrt (\<lambda>a b. f b < f a) (stable_insert (\<lambda>a b. \<not> f a < f b) x ys)"
  using assms by (induction ys) (auto simp: not_less)

lemma stable_sort_descending:
  fixes f :: "'a \<Rightarrow> 'b :: linorder"
  shows "stable_sort (\<lambda>a b. \<not> f a < f b) xs = (if distinct (map f xs) then
      Some (foldr (stable_insert (\<lambda>a b. \<not> f a < f b)) xs []) else None)"
    and "distinct (map f xs) \<Longrightarrow>
      sorted_wrt (\<lambda>a b. f b < f a) (foldr (stable_insert (\<lambda>a b. \<not> f a < f b)) xs [])"
proof -
  have "(\<lambda>x y. \<not> (\<not> f x < f y \<and> \<not> f y < f x)) = (\<lambda>x y. f x \<noteq> f y)" by (auto simp: fun_eq_iff)
  moreover have "sorted_wrt (\<lambda>x y. f x \<noteq> f y) xs \<longleftrightarrow> distinct (map f xs)"
    by (induction xs) auto
  ultimately show "stable_sort (\<lambda>a b. \<not> f a < f b) xs = (if distinct (map f xs) then
      Some (foldr (stable_insert (\<lambda>a b. \<not> f a < f b)) xs []) else None)"
    by (simp add: stable_sort_def)
  show "sorted_wrt (\<lambda>a b. f b < f a) (foldr (stable_insert (\<lambda>a b. \<not> f a < f b)) xs [])"
    if "distinct (map f xs)"
    using that
  proof (induction xs)
    case (Cons x xs)
    have "set (foldr (stable_insert (\<lambda>a b. \<not> f a < f b)) xs []) = set xs"
      using mset_stable_sort by (metis set_mset_mset)
    then show ?case using Cons by (simp add: descending_insert)
  qed simp
qed

lemma load_items_ok:
  "(\<And>p. p \<in> set ps \<Longrightarrow> h p \<noteq> None) \<Longrightarrow> load_items h ps = Some (map (\<lambda>p. (the (h p), p)) ps)"
proof (induction ps)
  case (Cons p ps)
  obtain it where "h p = Some it" using Cons.prems [of p] by auto
  then show ?case using Cons by simp
qed simp

text \<open>The sort of live pointers by a key.\<close>

definition item_at :: "(ptr \<rightharpoonup> item) \<Rightarrow> ptr \<Rightarrow> item" where
  "item_at h p = the (h p)"

lemma sort_pointers_ascending:
  assumes "\<And>p. p \<in> set xs \<Longrightarrow> h p \<noteq> None" and "sort_key_ok key"
  shows "sort_pointers (item_less key) h xs = Some (sort_key (\<lambda>p. sort_value key (item_at h p)) xs)"
proof (cases "length xs \<le> 1")
  case True
  then show ?thesis by (cases xs) (auto simp: sort_pointers_def)
next
  case False
  let ?g = "\<lambda>p. (item_at h p, p)"
  have ld: "load_items h xs = Some (map ?g xs)"
    unfolding item_at_def by (rule load_items_ok) (rule assms(1))
  have ins: "map snd (insort_key (\<lambda>a. sort_value key (fst a)) (?g p) (map ?g ps)) =
      insort_key (\<lambda>p. sort_value key (item_at h p)) p ps \<and>
      insort_key (\<lambda>a. sort_value key (fst a)) (?g p) (map ?g ps) =
      map ?g (insort_key (\<lambda>p. sort_value key (item_at h p)) p ps)" for p ps
    by (induction ps) (auto simp: comp_def)
  have "sort_key (\<lambda>a. sort_value key (fst a)) (map ?g ps) =
      map ?g (sort_key (\<lambda>p. sort_value key (item_at h p)) ps)" for ps
    by (induction ps) (simp_all add: ins)
  then show ?thesis
    using False ld assms(2)
    by (simp add: sort_pointers_def item_less_iff stable_sort_ascending comp_def)
qed

lemma sort_pointers_descending:
  assumes "\<And>p. p \<in> set xs \<Longrightarrow> h p \<noteq> None" and "sort_key_ok key"
  shows "if distinct (map (\<lambda>p. sort_value key (item_at h p)) xs)
    then \<exists>ys. sort_pointers (\<lambda>a b. \<not> item_less key a b) h xs = Some ys \<and> mset ys = mset xs \<and>
      sorted_wrt (\<lambda>p q. sort_value key (item_at h q) < sort_value key (item_at h p)) ys
    else sort_pointers (\<lambda>a b. \<not> item_less key a b) h xs = None"
proof (cases "length xs \<le> 1")
  case True
  then show ?thesis by (cases xs) (auto simp: sort_pointers_def)
next
  case False
  let ?g = "\<lambda>p. (item_at h p, p)" and ?f = "\<lambda>a :: item \<times> ptr. sort_value key (fst a)"
  let ?ys = "foldr (stable_insert (\<lambda>a b. \<not> ?f a < ?f b)) (map ?g xs) []"
  have ld: "load_items h xs = Some (map ?g xs)"
    unfolding item_at_def by (rule load_items_ok) (rule assms(1))
  have d: "distinct (map ?f (map ?g xs)) \<longleftrightarrow> distinct (map (\<lambda>p. sort_value key (item_at h p)) xs)"
    by (simp add: comp_def)
  have run: "sort_pointers (\<lambda>a b. \<not> item_less key a b) h xs =
      (if distinct (map (\<lambda>p. sort_value key (item_at h p)) xs) then Some (map snd ?ys) else None)"
    using False ld assms(2) stable_sort_descending(1) [of ?f "map ?g xs"] unfolding d
    by (simp add: sort_pointers_def item_less_iff)
  show ?thesis
  proof (cases "distinct (map (\<lambda>p. sort_value key (item_at h p)) xs)")
    case True
    define ys where "ys = ?ys"
    have ms: "mset ys = mset (map ?g xs)" unfolding ys_def by (rule mset_stable_sort)
    have "mset (map snd ys) = image_mset snd (mset (map ?g xs))" by (simp only: mset_map ms)
    also have "\<dots> = mset xs" by (simp add: image_mset.compositionality comp_def)
    finally have "mset (map snd ys) = mset xs" .
    moreover have g: "fst a = item_at h (snd a)" if "a \<in> set ys" for a
      using that mset_eq_setD [OF ms] by auto
    have "sorted_wrt (\<lambda>a b. ?f b < ?f a) ys"
      unfolding ys_def by (rule stable_sort_descending(2)) (use True d in simp)
    then have "sorted_wrt (\<lambda>a b. sort_value key (item_at h (snd b)) < sort_value key (item_at h (snd a))) ys"
      by (rule sorted_wrt_mono_rel [rotated]) (simp add: g)
    then have "sorted_wrt (\<lambda>p q. sort_value key (item_at h q) < sort_value key (item_at h p)) (map snd ys)"
      by (simp only: sorted_wrt_map)
    moreover have "sort_pointers (\<lambda>a b. \<not> item_less key a b) h xs = Some (map snd ys)"
      unfolding ys_def using run True by (simp only: if_True)
    ultimately show ?thesis using True by (simp only: if_True) blast
  next
    case False
    then show ?thesis using run by (simp only: if_False)
  qed
qed

subsection \<open>\<open>Sort\<close>\<close>

lemma plm_set_active_sort_fields:
  "(plm_set_active xs s)\<lparr>m_sortKey := k, m_sortType := y\<rparr> =
     plm_set_active xs (s\<lparr>m_sortKey := k, m_sortType := y\<rparr>)"
  "(plm_set_active xs s)\<lparr>plm_rand := rs, m_sortKey := k, m_sortType := y\<rparr> =
     plm_set_active xs (s\<lparr>plm_rand := rs, m_sortKey := k, m_sortType := y\<rparr>)"
  by (simp_all add: plm_set_active_def split: list_id.splits)

lemma plm_sort_fields_ok [simp]:
  "plm_lists_ok (s\<lparr>m_sortKey := k, m_sortType := y\<rparr>) = plm_lists_ok s"
  "plm_lists_ok (s\<lparr>plm_rand := rs, m_sortKey := k, m_sortType := y\<rparr>) = plm_lists_ok s"
  "plm_mem_ok (s\<lparr>m_sortKey := k, m_sortType := y\<rparr>) = plm_mem_ok s"
  "plm_mem_ok (s\<lparr>plm_rand := rs, m_sortKey := k, m_sortType := y\<rparr>) = plm_mem_ok s"
  "plm_GetCurrentItem (s\<lparr>m_sortKey := k, m_sortType := y\<rparr>) = plm_GetCurrentItem s"
  "plm_GetCurrentItem (s\<lparr>plm_rand := rs, m_sortKey := k, m_sortType := y\<rparr>) = plm_GetCurrentItem s"
  by (simp_all add: plm_lists_ok_def plm_mem_ok_def plm_pending_def plm_GetCurrentItem_def)

lemma plm_sort_tail:
  assumes ok: "plm_lists_ok s" and mem: "plm_mem_ok s" and ms: "mset xs = mset (plm_active s)"
    and cur: "plm_GetCurrentItem s = Some cur"
  shows "\<exists>u. (if m_playlistKey (plm_set_active xs s) = kPlaylistKey_MasterPlaylist \<and> cur \<noteq> NULL
      then do { i \<leftarrow> plm_IndexOf (plm_set_active xs s) cur;
        (_, u) \<leftarrow> plm_SetCurrentIndex i (plm_set_active xs s); Some u }
      else Some (plm_set_active xs s)) = Some u \<and> plm_lists_ok u \<and> plm_mem_ok u \<and>
    plm_active u = xs \<and> plm_GetCurrentItem u = Some cur"
proof (cases "m_playlistKey s = kPlaylistKey_MasterPlaylist \<and> cur \<noteq> NULL")
  case True
  then have m: "m_activeList s = MasterList" using plm_lists_okD(10) [OF ok] by simp
  have ne: "m_masterList s \<noteq> []" using True cur by auto
  have "mset xs = mset (m_masterList s)" using ms plm_active_master [OF m] by simp
  from plm_refind_current [OF ok mem m this ne cur] True show ?thesis by (auto simp: plm_simps)
next
  case False
  have "plm_GetCurrentItem (plm_set_active xs s) = Some cur"
  proof (cases "m_activeList s = MasterList")
    case m: True
    then have "m_masterList s = []"
      using False plm_lists_okD(10) [OF ok] plm_GetCurrentItem_ok [OF ok] cur
      by (auto split: if_splits)
    then have "xs = []" "m_masterList s = []" using ms plm_active_master [OF m] by simp_all
    then show ?thesis using cur m by (simp add: plm_simps)
  next
    case e: False
    then have "m_activeList s = ExternalList"
      using plm_lists_okD(9) [OF ok] by (cases "m_activeList s") auto
    then show ?thesis using cur by (simp add: plm_GetCurrentItem_external)
  qed
  then show ?thesis using False plm_set_active_perm [OF ok ms] mem by (auto simp: plm_simps)
qed

lemma plm_Sort_result:
  fixes s :: plm
  assumes ok: "plm_lists_ok s" and mem: "plm_mem_ok s" and ms: "mset xs = mset (plm_active s)"
    and cur: "plm_GetCurrentItem s = Some cur"
    and s1: "s1 = (plm_set_active xs s)\<lparr>m_sortKey := k, m_sortType := y\<rparr> \<or>
      s1 = (plm_set_active xs s)\<lparr>plm_rand := rs, m_sortKey := k, m_sortType := y\<rparr>"
  shows "\<exists>u. (if m_playlistKey s1 = kPlaylistKey_MasterPlaylist \<and> cur \<noteq> NULL
      then do { i \<leftarrow> plm_IndexOf s1 cur; (_, u) \<leftarrow> plm_SetCurrentIndex i s1; Some u }
      else Some s1) = Some u \<and> plm_lists_ok u \<and> plm_mem_ok u \<and>
    plm_active u = xs \<and> plm_GetCurrentItem u = Some cur"
proof -
  have a: "mset xs = mset (plm_active (s\<lparr>m_sortKey := k, m_sortType := y\<rparr>))"
    "mset xs = mset (plm_active (s\<lparr>plm_rand := rs, m_sortKey := k, m_sortType := y\<rparr>))"
    using ms by (simp_all add: plm_active_def cong: list_id.case_cong)
  from s1 show ?thesis
  proof
    assume e: "s1 = (plm_set_active xs s)\<lparr>m_sortKey := k, m_sortType := y\<rparr>"
    show ?thesis unfolding e plm_set_active_sort_fields
      by (rule plm_sort_tail [OF _ _ a(1)]) (use ok mem cur in simp_all)
  next
    assume e: "s1 = (plm_set_active xs s)\<lparr>plm_rand := rs, m_sortKey := k, m_sortType := y\<rparr>"
    show ?thesis unfolding e plm_set_active_sort_fields
      by (rule plm_sort_tail [OF _ _ a(2)]) (use ok mem cur in simp_all)
  qed
qed

lemma plm_Sort_key_ok:
  assumes ok: "plm_lists_ok s" and mem: "plm_mem_ok s" and key: "sort_key_ok key"
    and srt: "(if type = kPlaylistSortType_Ascending
      then sort_pointers (item_less key) (plm_heap s) (plm_active s)
      else sort_pointers (\<lambda>a b. \<not> item_less key a b) (plm_heap s) (plm_active s)) = Some ys"
    and ms: "mset ys = mset (plm_active s)"
  shows "\<exists>t. plm_Sort key type s = Some (kError_NoErr, t) \<and> plm_lists_ok t \<and> plm_mem_ok t \<and>
    plm_active t = ys \<and> plm_GetCurrentItem t = plm_GetCurrentItem s"
proof -
  obtain cur where cur: "plm_GetCurrentItem s = Some cur" using plm_GetCurrentItem_ok [OF ok] by blast
  let ?s1 = "(plm_set_active ys s)\<lparr>m_sortKey := key, m_sortType := type\<rparr>"
  obtain u where u: "(if m_playlistKey ?s1 = kPlaylistKey_MasterPlaylist \<and> cur \<noteq> NULL
      then do { i \<leftarrow> plm_IndexOf ?s1 cur; (_, u) \<leftarrow> plm_SetCurrentIndex i ?s1; Some u }
      else Some ?s1) = Some u" "plm_lists_ok u" "plm_mem_ok u" "plm_active u = ys"
    "plm_GetCurrentItem u = Some cur"
    using plm_Sort_result [OF ok mem ms cur, of ?s1] by blast
  have "plm_Sort key type s = Some (kError_NoErr, plm_emit (PlaylistSortedEvent key) u)"
    unfolding plm_Sort_def using key cur srt u(1) by simp
  then show ?thesis using u cur by (simp add: plm_simps)
qed

lemma plm_Sort_Random_ok:
  assumes ok: "plm_lists_ok s" and mem: "plm_mem_ok s"
    and sh: "ShuffleIt (plm_active s) (plm_rand s) = Some (ys, rs)"
  shows "\<exists>t. plm_Sort kPlaylistSortKey_Random type s = Some (kError_NoErr, t) \<and> plm_lists_ok t \<and>
    plm_mem_ok t \<and> plm_active t = ys \<and> plm_GetCurrentItem t = plm_GetCurrentItem s"
proof -
  obtain cur where cur: "plm_GetCurrentItem s = Some cur" using plm_GetCurrentItem_ok [OF ok] by blast
  let ?s1 = "(plm_set_active ys s)\<lparr>plm_rand := rs, m_sortKey := kPlaylistSortKey_Random, m_sortType := type\<rparr>"
  obtain u where u: "(if m_playlistKey ?s1 = kPlaylistKey_MasterPlaylist \<and> cur \<noteq> NULL
      then do { i \<leftarrow> plm_IndexOf ?s1 cur; (_, u) \<leftarrow> plm_SetCurrentIndex i ?s1; Some u }
      else Some ?s1) = Some u" "plm_lists_ok u" "plm_mem_ok u" "plm_active u = ys"
    "plm_GetCurrentItem u = Some cur"
    using plm_Sort_result [OF ok mem ShuffleIt_mset [OF sh] cur, of ?s1] by blast
  have "plm_Sort kPlaylistSortKey_Random type s =
      Some (kError_NoErr, plm_emit (PlaylistSortedEvent kPlaylistSortKey_Random) u)"
    unfolding plm_Sort_def using cur sh u(1) by simp
  then show ?thesis using u cur by (simp add: plm_simps)
qed

lemma plm_Sort_invalid_key:
  "plm_lists_ok s \<Longrightarrow> plm_Sort kPlaylistSortKey_LastKey type s = Some (kError_InvalidParam, s)"
  using plm_GetCurrentItem_ok [of s] by (auto simp: plm_Sort_def)

subsection \<open>Properties\<close>

lemma plm_active_heap:
  assumes "plm_lists_ok s" and "plm_mem_ok s" and "p \<in> set (plm_active s)"
  shows "plm_heap s p \<noteq> None"
  using plm_active_live [OF plm_lists_ok_nc [OF assms(1)] assms(2,3)] by auto

text \<open>
  C20. Sorting by a key in ascending order gives exactly the stable sort of the active list by
  the key's value, strings compared byte by byte without case; it keeps the invariants and the
  song that is current. In descending order the result is the strictly descending list when
  the keys are pairwise different; with two equal keys the comparison handed to
  \<open>stable_sort\<close>, \<open>not2\<close> of a strict order, is no strict order and the result is undefined.
\<close>

theorem plm_Sort_sorts:
  assumes ok: "plm_lists_ok s" and mem: "plm_mem_ok s" and key: "sort_key_ok key"
  defines "f \<equiv> \<lambda>p. sort_value key (item_at (plm_heap s) p)"
  shows "(\<exists>t. plm_Sort key kPlaylistSortType_Ascending s = Some (kError_NoErr, t) \<and>
      plm_lists_ok t \<and> plm_mem_ok t \<and> plm_active t = sort_key f (plm_active s) \<and>
      plm_GetCurrentItem t = plm_GetCurrentItem s) \<and>
    (if distinct (map f (plm_active s))
     then \<exists>t. plm_Sort key kPlaylistSortType_Descending s = Some (kError_NoErr, t) \<and>
      plm_lists_ok t \<and> plm_mem_ok t \<and> mset (plm_active t) = mset (plm_active s) \<and>
      sorted_wrt (\<lambda>p q. f q < f p) (plm_active t) \<and> plm_GetCurrentItem t = plm_GetCurrentItem s
     else plm_Sort key kPlaylistSortType_Descending s = None)"
proof -
  note h = plm_active_heap [OF ok mem]
  have "sort_pointers (item_less key) (plm_heap s) (plm_active s) = Some (sort_key f (plm_active s))"
    unfolding f_def by (rule sort_pointers_ascending [OF _ key]) (rule h)
  then have asc: "\<exists>t. plm_Sort key kPlaylistSortType_Ascending s = Some (kError_NoErr, t) \<and>
      plm_lists_ok t \<and> plm_mem_ok t \<and> plm_active t = sort_key f (plm_active s) \<and>
      plm_GetCurrentItem t = plm_GetCurrentItem s"
    by (intro plm_Sort_key_ok [OF ok mem key]) simp_all
  have desc: "if distinct (map f (plm_active s))
    then \<exists>ys. sort_pointers (\<lambda>a b. \<not> item_less key a b) (plm_heap s) (plm_active s) = Some ys \<and>
      mset ys = mset (plm_active s) \<and> sorted_wrt (\<lambda>p q. f q < f p) ys
    else sort_pointers (\<lambda>a b. \<not> item_less key a b) (plm_heap s) (plm_active s) = None"
    unfolding f_def by (rule sort_pointers_descending [OF _ key]) (rule h)
  show ?thesis
  proof (cases "distinct (map f (plm_active s))")
    case True
    with desc obtain ys where ys: "sort_pointers (\<lambda>a b. \<not> item_less key a b) (plm_heap s) (plm_active s) = Some ys"
      "mset ys = mset (plm_active s)" "sorted_wrt (\<lambda>p q. f q < f p) ys" by auto
    from plm_Sort_key_ok [OF ok mem key _ ys(2), of kPlaylistSortType_Descending] ys(1,3)
    show ?thesis using asc True ys(2) by auto
  next
    case False
    obtain cur where "plm_GetCurrentItem s = Some cur" using plm_GetCurrentItem_ok [OF ok] by blast
    then have "plm_Sort key kPlaylistSortType_Descending s = None"
      using desc False key by (simp add: plm_Sort_def)
    then show ?thesis using asc False by simp
  qed
qed

theorem plm_Sort_sorts_witness:
  "(\<exists>t. plm_Sort kPlaylistSortKey_Location kPlaylistSortType_Descending spare_item = Some (kError_NoErr, t) \<and>
     mset (plm_active t) = {#1, 2, 3#} \<and> plm_GetCurrentItem t = Some 2) \<and>
   plm_Sort kPlaylistSortKey_Year kPlaylistSortType_Descending spare_item = None"
  using plm_Sort_sorts [OF spare_item_ok(1,2), of kPlaylistSortKey_Location]
    plm_Sort_sorts [OF spare_item_ok(1,2), of kPlaylistSortKey_Year]
  unfolding spare_item_ok(4) by (auto simp: item_at_def new_item_def byte_of_def)

end
