(* ===== verification/PlmMetaThread.thy ===== *)
theory PlmMetaThread
  imports PlmSort
begin

section \<open>The metadata threads\<close>

text \<open>
  \<open>MetaDataThreadFunction\<close>, \<open>RetrieveMetaDataNow\<close> and \<open>UpdateTrackMetaData\<close> of
  \<open>playlist.cpp\<close>. A thread works through its list of items without the lock, and takes the lock
  for the block that stores what it has read; it is modelled as three kinds of steps: reading
  the metadata of the next item, storing it, and, at the end of the list, sending the event.
  The music catalog and the metadata plugins are the parameters \<open>db\<close> (the record stored
  for a URL) and \<open>rd\<close> (what plugin \<open>f\<close> makes of the metadata so far).
\<close>

fun read_formats ::
  "(nat \<Rightarrow> string \<Rightarrow> metadata \<Rightarrow> metadata) \<Rightarrow> (MetaDataOrder \<times> nat) list \<Rightarrow> string \<Rightarrow> metadata \<Rightarrow> metadata" where
  "read_formats rd [] url md = md"
| "read_formats rd ((_, f) # fs) url md = read_formats rd fs url (rd f url md)"

definition fetch_metadata ::
  "(string \<Rightarrow> metadata option) \<Rightarrow> (nat \<Rightarrow> string \<Rightarrow> metadata \<Rightarrow> metadata) \<Rightarrow>
   (MetaDataOrder \<times> nat) list \<Rightarrow> item \<Rightarrow> metadata" where
  "fetch_metadata db rd fs it = (case db (c_str (it_url it)) of
       Some dbData \<Rightarrow> dbData
     | None \<Rightarrow> read_formats rd fs (c_str (it_url it)) (it_metadata it))"

definition plm_set_thread :: "nat \<Rightarrow> md_thread \<Rightarrow> plm \<Rightarrow> plm" where
  "plm_set_thread k th s = s\<lparr>plm_threads := (plm_threads s)[k := th]\<rparr>"

definition plm_thread_fetch ::
  "(string \<Rightarrow> metadata option) \<Rightarrow> (nat \<Rightarrow> string \<Rightarrow> metadata \<Rightarrow> metadata) \<Rightarrow> nat \<Rightarrow> md_thread \<Rightarrow>
   ptr \<Rightarrow> plm \<Rightarrow> plm option" where
  "plm_thread_fetch db rd k th p s = do {
     it \<leftarrow> plm_heap s p;
     Some (plm_set_thread k (th\<lparr>th_fetched := Some (fetch_metadata db rd (m_metadataFormats s) it)\<rparr>) s)
   }"

definition plm_thread_store ::
  "nat \<Rightarrow> md_thread \<Rightarrow> ptr \<Rightarrow> ptr list \<Rightarrow> metadata \<Rightarrow> plm \<Rightarrow> plm option" where
  "plm_thread_store k th p ps metadata s = do {
     it \<leftarrow> plm_heap s p;
     if it_state it = kPlaylistItemState_Delete
     then Some (plm_set_thread k (th\<lparr>th_list := ps, th_fetched := None\<rparr>)
       (s\<lparr>plm_heap := (plm_heap s)(p := None)\<rparr>))
     else do {
       let s1 = s\<lparr>plm_heap := (plm_heap s)(p \<mapsto>
         it\<lparr>it_metadata := metadata, it_state := kPlaylistItemState_Normal\<rparr>)\<rparr>;
       cur \<leftarrow> plm_GetCurrentItem s1;
       let pl_items = (if p = cur then p # th_items th else th_items th @ [p]);
       Some (plm_set_thread k (th\<lparr>th_list := ps, th_items := pl_items, th_fetched := None\<rparr>) s1)
     }
   }"

definition plm_thread_finish :: "nat \<Rightarrow> md_thread \<Rightarrow> plm \<Rightarrow> plm" where
  "plm_thread_finish k th s =
     (let s1 = (if length (th_items th) \<noteq> 0
        then plm_emit (PlaylistItemsUpdatedEvent (th_items th)) s else s)
      in s1\<lparr>plm_threads := take k (plm_threads s1) @ drop (Suc k) (plm_threads s1)\<rparr>)"

text \<open>One step of the \<open>k\<close>th thread.\<close>

definition plm_thread_step ::
  "(string \<Rightarrow> metadata option) \<Rightarrow> (nat \<Rightarrow> string \<Rightarrow> metadata \<Rightarrow> metadata) \<Rightarrow> nat \<Rightarrow> plm \<Rightarrow> plm option" where
  "plm_thread_step db rd k s = do {
     th \<leftarrow> vec_at (plm_threads s) k;
     case th_list th of
       [] \<Rightarrow> Some (plm_thread_finish k th s)
     | p # ps \<Rightarrow>
         if p = NULL then Some (plm_set_thread k (th\<lparr>th_list := ps\<rparr>) s)
         else (case th_fetched th of
             None \<Rightarrow> plm_thread_fetch db rd k th p s
           | Some md \<Rightarrow> plm_thread_store k th p ps md s)
   }"

text \<open>\<open>RetrieveMetaDataNow\<close>, in the caller's thread and without the lock.\<close>

definition plm_RetrieveMetaDataNow ::
  "(nat \<Rightarrow> string \<Rightarrow> metadata \<Rightarrow> metadata) \<Rightarrow> ptr \<Rightarrow> plm \<Rightarrow> plm option" where
  "plm_RetrieveMetaDataNow rd p s =
     (if p = NULL then None
      else do {
        it \<leftarrow> plm_heap s p;
        let metadata = read_formats rd (m_metadataFormats s) (c_str (it_url it)) (it_metadata it);
        Some (s\<lparr>plm_heap := (plm_heap s)(p \<mapsto>
          it\<lparr>it_metadata := metadata, it_state := kPlaylistItemState_Normal\<rparr>)\<rparr>)
      })"

text \<open>
  \<open>UpdateTrackMetaData\<close>: the loop over the active list; the writes of \<open>write_to_disk\<close> are the
  calls \<open>(plugin, url, metadata)\<close> in the plugins' order.
\<close>

fun update_loop ::
  "item \<Rightarrow> ptr list \<Rightarrow> (ptr \<rightharpoonup> item) \<Rightarrow> ((ptr \<rightharpoonup> item) \<times> ptr list) option" where
  "update_loop track [] h = Some (h, [])"
| "update_loop track (p # ps) h = do {
     it \<leftarrow> h p;
     if it_url it = it_url track then do {
       (h', pl_items) \<leftarrow> update_loop track ps (h(p \<mapsto> it\<lparr>it_metadata := it_metadata track\<rparr>));
       Some (h', p # pl_items)
     }
     else update_loop track ps h
   }"

definition write_to_disk :: "(MetaDataOrder \<times> nat) list \<Rightarrow> item \<Rightarrow> (nat \<times> string \<times> metadata) list" where
  "write_to_disk fs it = map (\<lambda>(_, f). (f, c_str (it_url it), it_metadata it)) fs"

definition plm_UpdateTrackMetaData ::
  "item \<Rightarrow> bool \<Rightarrow> plm \<Rightarrow> (error \<times> (nat \<times> string \<times> metadata) list \<times> plm) option" where
  "plm_UpdateTrackMetaData updatedTrack writeToDisk s = do {
     (h, pl_items) \<leftarrow> update_loop updatedTrack (plm_active s) (plm_heap s);
     let s1 = s\<lparr>plm_heap := h\<rparr>;
     let s2 = (if length pl_items \<noteq> 0 then plm_emit (PlaylistItemsUpdatedEvent pl_items) s1 else s1);
     let writes = (if writeToDisk then write_to_disk (m_metadataFormats s) updatedTrack else []);
     Some (kError_InvalidParam, writes, s2)
   }"

subsection \<open>The steps keep the heap invariant\<close>

lemma plm_set_thread_fields [simp]:
  "plm_heap (plm_set_thread k th s) = plm_heap s" "plm_next (plm_set_thread k th s) = plm_next s"
  "m_masterList (plm_set_thread k th s) = m_masterList s"
  "m_externalList (plm_set_thread k th s) = m_externalList s"
  "plm_threads (plm_set_thread k th s) = (plm_threads s)[k := th]"
  "m_metadataFormats (plm_set_thread k th s) = m_metadataFormats s"
  "plm_events (plm_set_thread k th s) = plm_events s"
  "plm_lists_ok (plm_set_thread k th s) = plm_lists_ok s"
  "plm_GetCurrentItem (plm_set_thread k th s) = plm_GetCurrentItem s"
  by (simp_all add: plm_set_thread_def plm_lists_ok_def plm_GetCurrentItem_def)

text \<open>What thread \<open>k\<close> has still to do, and what the others have.\<close>

lemma plm_pending_thread:
  assumes "k < length (plm_threads s)"
  shows "mset (plm_pending (plm_set_thread k th s)) + mset (th_list (plm_threads s ! k)) =
    mset (plm_pending s) + mset (th_list th)"
proof -
  let ?ths = "plm_threads s"
  have a: "mset (concat (map th_list (?ths[k := th]))) =
      mset (concat (map th_list (take k ?ths))) + mset (th_list th) + mset (concat (map th_list (drop (Suc k) ?ths)))"
    using assms by (simp add: upd_conv_take_nth_drop)
  have "plm_pending s = concat (map th_list (take k ?ths @ ?ths ! k # drop (Suc k) ?ths))"
    unfolding plm_pending_def by (simp only: take_nth_drop [OF assms])
  then have b: "mset (plm_pending s) =
      mset (concat (map th_list (take k ?ths))) + mset (th_list (?ths ! k)) + mset (concat (map th_list (drop (Suc k) ?ths)))"
    by simp
  show ?thesis using a b by (simp add: plm_pending_def)
qed

lemma plm_pending_pop:
  assumes "k < length (plm_threads s)" and "th_list (plm_threads s ! k) = p # ps" and "th_list th = ps"
  shows "mset (plm_pending s) = add_mset p (mset (plm_pending (plm_set_thread k th s)))"
  using plm_pending_thread [OF assms(1), of th] assms(2,3) by simp

lemma plm_pending_same:
  assumes "k < length (plm_threads s)" and "th_list th = th_list (plm_threads s ! k)"
  shows "mset (plm_pending (plm_set_thread k th s)) = mset (plm_pending s)"
  using plm_pending_thread [OF assms(1), of th] assms(2) by simp

lemma plm_pending_mem:
  assumes "k < length (plm_threads s)" and "p \<in> set (th_list (plm_threads s ! k))"
  shows "p \<in> set (plm_pending s)"
  unfolding plm_pending_def using assms nth_mem [OF assms(1)] by auto

lemma distinct_submset:
  assumes "distinct xs" and "mset ys \<subseteq># mset xs"
  shows "distinct ys"
proof -
  obtain zs where "mset zs = mset xs - mset ys" using ex_mset by blast
  then have "mset xs = mset (ys @ zs)" using assms(2) by simp
  then have "distinct (ys @ zs)" using assms(1) mset_eq_imp_distinct_iff by blast
  then show ?thesis by simp
qed

lemma plm_mem_ok_pending_mono:
  assumes "plm_mem_ok s" and "plm_heap t = plm_heap s" "plm_next t = plm_next s"
    "m_masterList t = m_masterList s" "m_externalList t = m_externalList s"
    and "mset (plm_pending t) \<subseteq># mset (plm_pending s)"
  shows "plm_mem_ok t"
proof -
  have "set (plm_pending t) \<subseteq> set (plm_pending s)" using set_mset_mono [OF assms(6)] by simp
  moreover have "distinct (plm_pending t)"
    by (rule distinct_submset [OF plm_mem_okD(5) [OF assms(1)] assms(6)])
  ultimately show ?thesis using assms(1-5) unfolding plm_mem_ok_def by auto
qed

text \<open>The state after a store.\<close>

definition stored_item :: "metadata \<Rightarrow> item \<Rightarrow> item option" where
  "stored_item md it = (if it_state it = kPlaylistItemState_Delete then None
     else Some (it\<lparr>it_metadata := md, it_state := kPlaylistItemState_Normal\<rparr>))"

lemma stored_item_None [simp]: "stored_item md it = None \<longleftrightarrow> it_state it = kPlaylistItemState_Delete"
  by (simp add: stored_item_def)

lemma plm_mem_ok_store:
  assumes mem: "plm_mem_ok s" and k: "k < length (plm_threads s)"
    and l: "th_list (plm_threads s ! k) = p # ps" and th: "th_list th = ps" and it: "plm_heap s p = Some it"
  shows "plm_mem_ok (plm_set_thread k th (s\<lparr>plm_heap := (plm_heap s)(p := stored_item md it)\<rparr>))"
    (is "plm_mem_ok ?t")
proof -
  have pend: "mset (plm_pending s) = add_mset p (mset (plm_pending ?t))"
    using plm_pending_pop [OF k l th] by (simp add: plm_pending_def)
  then have eq: "mset (plm_pending s) = mset (p # plm_pending ?t)" by simp
  have "distinct (p # plm_pending ?t)"
    using plm_mem_okD(5) [OF mem] mset_eq_imp_distinct_iff [OF eq] by blast
  then have np: "p \<notin> set (plm_pending ?t)" "distinct (plm_pending ?t)" by simp_all
  have sub: "set (plm_pending ?t) \<subseteq> set (plm_pending s)" using mset_eq_setD [OF eq] by auto
  have pn: "it_state it \<noteq> kPlaylistItemState_Normal"
    using plm_mem_okD(6) [OF mem plm_pending_mem [OF k]] l it by fastforce
  show ?thesis
    unfolding plm_mem_ok_def
  proof (intro conjI ballI)
    fix q
    show "0 < q" "q < plm_next ?t" if "q \<in> dom (plm_heap ?t)"
      using that plm_mem_okD(2) [OF mem, of q] it by (auto split: if_splits)
    show "\<exists>it. plm_heap ?t q = Some it \<and> it_state it \<noteq> kPlaylistItemState_Delete"
      if "q \<in> set (m_masterList ?t) \<union> set (m_externalList ?t)"
      using that plm_mem_okD(3,4) [OF mem, of q] it by (auto simp: stored_item_def)
    show "\<exists>it. plm_heap ?t q = Some it \<and> it_state it \<noteq> kPlaylistItemState_Normal"
      if "q \<in> set (plm_pending ?t)"
      using that np(1) sub plm_mem_okD(6) [OF mem, of q] by auto
  qed (use plm_mem_okD(1) [OF mem] np(2) in simp_all)
qed

lemma plm_thread_store_eq:
  assumes it: "plm_heap s p = Some it" and cur: "plm_GetCurrentItem s = Some cur"
    and us: "th_items th = us"
  shows "plm_thread_store k th p ps md s = Some (plm_set_thread k
    (th\<lparr>th_list := ps, th_items := (if it_state it = kPlaylistItemState_Delete then us
        else if p = cur then p # us else us @ [p]), th_fetched := None\<rparr>)
    (s\<lparr>plm_heap := (plm_heap s)(p := stored_item md it)\<rparr>))"
  using it cur unfolding us [symmetric]
  by (simp add: plm_thread_store_def stored_item_def Let_def)

lemma plm_thread_step_ok:
  assumes ok: "plm_lists_ok s" and mem: "plm_mem_ok s" and k: "k < length (plm_threads s)"
  shows "\<exists>t. plm_thread_step db rd k s = Some t \<and> plm_lists_ok t \<and> plm_mem_ok t"
proof (cases "th_list (plm_threads s ! k)")
  case Nil
  let ?t = "plm_thread_finish k (plm_threads s ! k) s"
  have f: "plm_heap ?t = plm_heap s" "plm_next ?t = plm_next s" "m_masterList ?t = m_masterList s"
    "m_externalList ?t = m_externalList s"
    "plm_threads ?t = take k (plm_threads s) @ drop (Suc k) (plm_threads s)"
    by (simp_all add: plm_thread_finish_def Let_def plm_simps)
  have "plm_pending s = concat (map th_list (take k (plm_threads s) @ plm_threads s ! k # drop (Suc k) (plm_threads s)))"
    unfolding plm_pending_def by (simp only: take_nth_drop [OF k])
  then have "plm_pending ?t = plm_pending s" using Nil by (simp add: plm_pending_def f)
  then have "plm_mem_ok ?t" by (intro plm_mem_ok_pending_mono [OF mem]) (simp_all add: f)
  moreover have "plm_lists_ok ?t"
  proof -
    have "plm_lists_ok (u\<lparr>plm_threads := ths\<rparr>) = plm_lists_ok u" for u ths by (simp add: plm_lists_ok_def)
    then show ?thesis using ok by (simp add: plm_thread_finish_def Let_def)
  qed
  moreover have "plm_thread_step db rd k s = Some ?t" using Nil k by (simp add: plm_thread_step_def)
  ultimately show ?thesis by blast
next
  case (Cons p ps)
  let ?th = "plm_threads s ! k"
  have pp: "p \<in> set (plm_pending s)" using plm_pending_mem [OF k] Cons by simp
  obtain it where it: "plm_heap s p = Some it" using plm_mem_okD(6) [OF mem pp] by auto
  have nn: "p \<noteq> NULL" using plm_mem_okD(2) [OF mem it] by simp
  obtain cur where cur: "plm_GetCurrentItem s = Some cur" using plm_GetCurrentItem_ok [OF ok] by blast
  show ?thesis
  proof (cases "th_fetched ?th")
    case None
    let ?th' = "?th\<lparr>th_fetched := Some (fetch_metadata db rd (m_metadataFormats s) it)\<rparr>"
    have "plm_thread_step db rd k s = Some (plm_set_thread k ?th' s)"
      using None Cons k nn it by (simp add: plm_thread_step_def plm_thread_fetch_def)
    moreover have "plm_mem_ok (plm_set_thread k ?th' s)"
      by (rule plm_mem_ok_pending_mono [OF mem]) (use plm_pending_same [OF k, of ?th'] in simp_all)
    ultimately show ?thesis using ok by simp
  next
    case (Some md)
    let ?th' = "?th\<lparr>th_list := ps, th_items := (if it_state it = kPlaylistItemState_Delete then th_items ?th
        else if p = cur then p # th_items ?th else th_items ?th @ [p]), th_fetched := None\<rparr>"
    have "plm_thread_step db rd k s =
        Some (plm_set_thread k ?th' (s\<lparr>plm_heap := (plm_heap s)(p := stored_item md it)\<rparr>))"
      using Some Cons k nn plm_thread_store_eq [OF it cur refl] by (simp add: plm_thread_step_def)
    moreover have "plm_mem_ok (plm_set_thread k ?th' (s\<lparr>plm_heap := (plm_heap s)(p := stored_item md it)\<rparr>))"
      by (rule plm_mem_ok_store [OF mem k Cons _ it]) simp
    ultimately show ?thesis using ok by simp
  qed
qed

subsection \<open>A thread that runs to its end\<close>

fun plm_thread_run ::
  "(string \<Rightarrow> metadata option) \<Rightarrow> (nat \<Rightarrow> string \<Rightarrow> metadata \<Rightarrow> metadata) \<Rightarrow> nat \<Rightarrow> nat \<Rightarrow> plm \<Rightarrow> plm option" where
  "plm_thread_run db rd 0 k s = Some s"
| "plm_thread_run db rd (Suc n) k s = do { t \<leftarrow> plm_thread_step db rd k s; plm_thread_run db rd n k t }"

definition deleted_in :: "(ptr \<rightharpoonup> item) \<Rightarrow> ptr \<Rightarrow> bool" where
  "deleted_in h p \<longleftrightarrow> (\<exists>it. h p = Some it \<and> it_state it = kPlaylistItemState_Delete)"

fun updated_items :: "(ptr \<rightharpoonup> item) \<Rightarrow> ptr \<Rightarrow> ptr list \<Rightarrow> ptr list \<Rightarrow> ptr list" where
  "updated_items h cur us [] = us"
| "updated_items h cur us (p # ps) = updated_items h cur
     (if deleted_in h p then us else if p = cur then p # us else us @ [p]) ps"

lemma mset_updated_items:
  "mset (updated_items h cur us ps) = mset us + mset (filter (\<lambda>p. \<not> deleted_in h p) ps)"
  by (induction ps arbitrary: us) auto

lemma hd_updated_items:
  "distinct (us @ ps) \<Longrightarrow> (cur \<in> set us \<longrightarrow> hd us = cur) \<Longrightarrow> cur \<in> set (updated_items h cur us ps) \<Longrightarrow>
   hd (updated_items h cur us ps) = cur"
proof (induction ps arbitrary: us)
  case (Cons p ps)
  show ?case
    using Cons.IH [of us] Cons.IH [of "p # us"] Cons.IH [of "us @ [p]"] Cons.prems
    by (cases us) auto
qed simp

text \<open>The heap after the items \<open>ps\<close> have been stored.\<close>

definition stored_heap ::
  "(string \<Rightarrow> metadata option) \<Rightarrow> (nat \<Rightarrow> string \<Rightarrow> metadata \<Rightarrow> metadata) \<Rightarrow>
   (MetaDataOrder \<times> nat) list \<Rightarrow> ptr list \<Rightarrow> (ptr \<rightharpoonup> item) \<Rightarrow> (ptr \<rightharpoonup> item)" where
  "stored_heap db rd fs ps h = (\<lambda>p. if p \<in> set ps
     then Option.bind (h p) (\<lambda>it. stored_item (fetch_metadata db rd fs it) it) else h p)"

lemma stored_heap_Cons:
  assumes "p \<notin> set ps" and "h p = Some it"
  shows "stored_heap db rd fs ps (h(p := stored_item (fetch_metadata db rd fs it) it)) =
    stored_heap db rd fs (p # ps) h"
  using assms by (auto simp: stored_heap_def fun_eq_iff)

lemma updated_items_cong:
  "(\<And>p. p \<in> set ps \<Longrightarrow> h p = h' p) \<Longrightarrow> updated_items h cur us ps = updated_items h' cur us ps"
  by (induction ps arbitrary: us) (simp_all add: deleted_in_def)

lemma plm_thread_run_ok:
  assumes "plm_lists_ok s" and "plm_mem_ok s" and "k < length (plm_threads s)"
    and "th_list (plm_threads s ! k) = ps" and "th_fetched (plm_threads s ! k) = None"
    and "plm_GetCurrentItem s = Some cur"
  shows "\<exists>t. plm_thread_run db rd (Suc (2 * length ps)) k s = Some t \<and> plm_lists_ok t \<and> plm_mem_ok t \<and>
    m_masterList t = m_masterList s \<and> m_externalList t = m_externalList s \<and>
    plm_threads t = take k (plm_threads s) @ drop (Suc k) (plm_threads s) \<and>
    plm_heap t = stored_heap db rd (m_metadataFormats s) ps (plm_heap s) \<and>
    (let us = updated_items (plm_heap s) cur (th_items (plm_threads s ! k)) ps
     in plm_events t = plm_events s @ (if us = [] then [] else [PlaylistItemsUpdatedEvent us]))"
  using assms
proof (induction ps arbitrary: s)
  case Nil
  let ?t = "plm_thread_finish k (plm_threads s ! k) s"
  have step: "plm_thread_step db rd k s = Some ?t" using Nil by (simp add: plm_thread_step_def)
  obtain t where "plm_thread_step db rd k s = Some t" "plm_lists_ok t" "plm_mem_ok t"
    using plm_thread_step_ok [OF Nil(1-3)] by blast
  then have "plm_lists_ok ?t" "plm_mem_ok ?t" using step by simp_all
  then show ?case using step
    by (simp add: plm_thread_finish_def Let_def plm_simps stored_heap_def)
next
  case (Cons p ps)
  let ?th = "plm_threads s ! k"
  have pp: "p \<in> set (plm_pending s)" using plm_pending_mem [OF Cons.prems(3)] Cons.prems(4) by simp
  obtain it where it: "plm_heap s p = Some it" using plm_mem_okD(6) [OF Cons.prems(2) pp] by auto
  have nn: "p \<noteq> NULL" using plm_mem_okD(2) [OF Cons.prems(2) it] by simp
  let ?md = "fetch_metadata db rd (m_metadataFormats s) it"
  let ?th1 = "?th\<lparr>th_fetched := Some ?md\<rparr>"
  let ?s1 = "plm_set_thread k ?th1 s"
  let ?us = "if it_state it = kPlaylistItemState_Delete then th_items ?th
        else if p = cur then p # th_items ?th else th_items ?th @ [p]"
  let ?th2 = "?th\<lparr>th_list := ps, th_items := ?us, th_fetched := None\<rparr>"
  let ?h = "(plm_heap s)(p := stored_item ?md it)"
  let ?s2 = "plm_set_thread k ?th2 (s\<lparr>plm_heap := ?h\<rparr>)"
  have d: "p \<notin> set ps"
  proof -
    have "distinct (th_list ?th)"
      using plm_mem_okD(5) [OF Cons.prems(2)] Cons.prems(3) by (simp add: plm_pending_def distinct_concat_iff)
    then show ?thesis using Cons.prems(4) by simp
  qed
  have step1: "plm_thread_step db rd k s = Some ?s1"
    using Cons.prems(3-5) nn it by (simp add: plm_thread_step_def plm_thread_fetch_def)
  have same: "plm_set_thread k ?th2 (?s1\<lparr>plm_heap := ?h\<rparr>) = ?s2" by (simp add: plm_set_thread_def)
  have "plm_thread_store k ?th1 p ps ?md ?s1 = Some ?s2"
    using plm_thread_store_eq [of ?s1 p it cur ?th1 "th_items ?th" k ps ?md] it Cons.prems(6)
    by (simp add: same)
  then have step2: "plm_thread_step db rd k ?s1 = Some ?s2"
    using Cons.prems(3,4) nn by (simp add: plm_thread_step_def)
  have ok2: "plm_lists_ok ?s2" using Cons.prems(1) by simp
  have mem2: "plm_mem_ok ?s2"
    by (rule plm_mem_ok_store [OF Cons.prems(2,3,4) _ it]) simp
  have t2: "plm_threads ?s2 ! k = ?th2" "k < length (plm_threads ?s2)" "plm_heap ?s2 = ?h"
    using Cons.prems(3) by simp_all
  have c2: "plm_GetCurrentItem ?s2 = Some cur" using Cons.prems(6) by simp
  have th2: "th_list (plm_threads ?s2 ! k) = ps" "th_fetched (plm_threads ?s2 ! k) = None"
    "th_items (plm_threads ?s2 ! k) = ?us" using Cons.prems(3) by simp_all
  have f2: "m_masterList ?s2 = m_masterList s" "m_externalList ?s2 = m_externalList s"
    "m_metadataFormats ?s2 = m_metadataFormats s" "plm_events ?s2 = plm_events s" by simp_all
  obtain t where
    t: "plm_thread_run db rd (Suc (2 * length ps)) k ?s2 = Some t" "plm_lists_ok t" "plm_mem_ok t"
      "m_masterList t = m_masterList s" "m_externalList t = m_externalList s"
      "plm_threads t = take k (plm_threads ?s2) @ drop (Suc k) (plm_threads ?s2)"
      "plm_heap t = stored_heap db rd (m_metadataFormats s) ps ?h"
      "let us = updated_items ?h cur ?us ps
       in plm_events t = plm_events s @ (if us = [] then [] else [PlaylistItemsUpdatedEvent us])"
    using Cons.IH [OF ok2 mem2 t2(2) th2(1,2) c2] unfolding f2 t2(3) th2(3) by blast
  have "plm_thread_run db rd (Suc (2 * length (p # ps))) k s = Some t"
    using step1 step2 t(1) by simp
  moreover have "updated_items ?h cur ?us ps = updated_items (plm_heap s) cur ?us ps"
    by (rule updated_items_cong) (use d in auto)
  moreover have "updated_items (plm_heap s) cur ?us ps = updated_items (plm_heap s) cur (th_items ?th) (p # ps)"
    using it by (simp add: deleted_in_def)
  moreover have "plm_threads t = take k (plm_threads s) @ drop (Suc k) (plm_threads s)" using t(6) by simp
  moreover have "plm_heap t = stored_heap db rd (m_metadataFormats s) (p # ps) (plm_heap s)"
    unfolding t(7) by (rule stored_heap_Cons [where h = "plm_heap s", OF d it])
  ultimately show ?case using t(2-5,8) by simp
qed

subsection \<open>\<open>UpdateTrackMetaData\<close>\<close>

lemma update_loop_ok:
  "(\<And>p. p \<in> set ps \<Longrightarrow> h p \<noteq> None) \<Longrightarrow> update_loop track ps h = Some
     (\<lambda>p. if p \<in> set ps \<and> map_option it_url (h p) = Some (it_url track)
        then map_option (\<lambda>it. it\<lparr>it_metadata := it_metadata track\<rparr>) (h p) else h p,
      filter (\<lambda>p. map_option it_url (h p) = Some (it_url track)) ps)"
proof (induction ps arbitrary: h)
  case (Cons p ps)
  obtain it where it: "h p = Some it" using Cons.prems [of p] by auto
  let ?h = "h(p \<mapsto> it\<lparr>it_metadata := it_metadata track\<rparr>)"
  have ih1: "update_loop track ps ?h = Some
     (\<lambda>q. if q \<in> set ps \<and> map_option it_url (?h q) = Some (it_url track)
        then map_option (\<lambda>it. it\<lparr>it_metadata := it_metadata track\<rparr>) (?h q) else ?h q,
      filter (\<lambda>p. map_option it_url (?h p) = Some (it_url track)) ps)"
    by (rule Cons.IH) (use Cons.prems in simp)
  have ih2: "update_loop track ps h = Some
     (\<lambda>p. if p \<in> set ps \<and> map_option it_url (h p) = Some (it_url track)
        then map_option (\<lambda>it. it\<lparr>it_metadata := it_metadata track\<rparr>) (h p) else h p,
      filter (\<lambda>p. map_option it_url (h p) = Some (it_url track)) ps)"
    by (rule Cons.IH) (use Cons.prems in simp)
  have u: "map_option it_url (?h q) = map_option it_url (h q)" for q using it by simp
  show ?case
  proof (cases "it_url it = it_url track")
    case True
    have "(\<lambda>q. if q \<in> set ps \<and> map_option it_url (h q) = Some (it_url track)
        then map_option (\<lambda>it. it\<lparr>it_metadata := it_metadata track\<rparr>) (?h q) else ?h q) =
      (\<lambda>q. if q \<in> set (p # ps) \<and> map_option it_url (h q) = Some (it_url track)
        then map_option (\<lambda>it. it\<lparr>it_metadata := it_metadata track\<rparr>) (h q) else h q)"
      using it True by (auto simp: fun_eq_iff)
    then show ?thesis using it True ih1 unfolding u by simp
  next
    case False
    have "(\<lambda>q. if q \<in> set ps \<and> map_option it_url (h q) = Some (it_url track)
        then map_option (\<lambda>it. it\<lparr>it_metadata := it_metadata track\<rparr>) (h q) else h q) =
      (\<lambda>q. if q \<in> set (p # ps) \<and> map_option it_url (h q) = Some (it_url track)
        then map_option (\<lambda>it. it\<lparr>it_metadata := it_metadata track\<rparr>) (h q) else h q)"
      using it False by (auto simp: fun_eq_iff)
    then show ?thesis using it False ih2 by simp
  qed
qed simp

text \<open>A heap that differs in metadata only.\<close>

lemma plm_mem_ok_states:
  assumes mem: "plm_mem_ok s"
    and h: "\<And>p. map_option it_state (h p) = map_option it_state (plm_heap s p)"
  shows "plm_mem_ok (s\<lparr>plm_heap := h\<rparr>)"
proof -
  have st: "\<exists>it. h p = Some it \<and> it_state it \<noteq> st"
    if "\<exists>it. plm_heap s p = Some it \<and> it_state it \<noteq> st" for p st
    using that h [of p] by (cases "h p") auto
  have dm: "p \<in> dom (plm_heap s)" if "p \<in> dom h" for p using that h [of p] by (cases "plm_heap s p") auto
  show ?thesis
    unfolding plm_mem_ok_def
  proof (intro conjI ballI)
    fix p
    show "0 < p" "p < plm_next (s\<lparr>plm_heap := h\<rparr>)" if "p \<in> dom (plm_heap (s\<lparr>plm_heap := h\<rparr>))"
      using that dm [of p] plm_mem_okD(2) [OF mem, of p] by auto
    show "\<exists>it. plm_heap (s\<lparr>plm_heap := h\<rparr>) p = Some it \<and> it_state it \<noteq> kPlaylistItemState_Delete"
      if "p \<in> set (m_masterList (s\<lparr>plm_heap := h\<rparr>)) \<union> set (m_externalList (s\<lparr>plm_heap := h\<rparr>))"
      using that st [of p] plm_mem_okD(3,4) [OF mem, of p] by auto
    show "\<exists>it. plm_heap (s\<lparr>plm_heap := h\<rparr>) p = Some it \<and> it_state it \<noteq> kPlaylistItemState_Normal"
      if "p \<in> set (plm_pending (s\<lparr>plm_heap := h\<rparr>))"
      using that st [of p] plm_mem_okD(6) [OF mem, of p] by (auto simp: plm_pending_def)
  qed (use plm_mem_okD(1,5) [OF mem] in \<open>simp_all add: plm_pending_def\<close>)
qed

lemma plm_UpdateTrackMetaData_ok:
  assumes ok: "plm_lists_ok s" and mem: "plm_mem_ok s"
  shows "\<exists>t. plm_UpdateTrackMetaData track w s = Some (kError_InvalidParam,
      if w then write_to_disk (m_metadataFormats s) track else [], t) \<and>
    plm_lists_ok t \<and> plm_mem_ok t \<and> plm_active t = plm_active s \<and>
    (\<forall>p it. plm_heap s p = Some it \<longrightarrow> plm_heap t p =
      Some (if p \<in> set (plm_active s) \<and> it_url it = it_url track
        then it\<lparr>it_metadata := it_metadata track\<rparr> else it))"
proof -
  let ?h = "\<lambda>p. if p \<in> set (plm_active s) \<and> map_option it_url (plm_heap s p) = Some (it_url track)
        then map_option (\<lambda>it. it\<lparr>it_metadata := it_metadata track\<rparr>) (plm_heap s p) else plm_heap s p"
  let ?us = "filter (\<lambda>p. map_option it_url (plm_heap s p) = Some (it_url track)) (plm_active s)"
  let ?s = "s\<lparr>plm_heap := ?h\<rparr>"
  let ?t = "if length ?us \<noteq> 0 then plm_emit (PlaylistItemsUpdatedEvent ?us) ?s else ?s"
  have "update_loop track (plm_active s) (plm_heap s) = Some (?h, ?us)"
    by (rule update_loop_ok) (rule plm_active_heap [OF ok mem])
  then have "plm_UpdateTrackMetaData track w s = Some (kError_InvalidParam,
      if w then write_to_disk (m_metadataFormats s) track else [], ?t)"
    by (simp add: plm_UpdateTrackMetaData_def Let_def)
  moreover have "plm_mem_ok ?s" by (rule plm_mem_ok_states [OF mem]) (auto simp: option.map_comp comp_def)
  moreover have "plm_lists_ok ?s" using ok by simp
  moreover have "plm_active ?s = plm_active s" by (simp add: plm_active_def cong: list_id.case_cong)
  ultimately show ?thesis
    by (intro exI [of _ ?t]) (auto simp: plm_simps)
qed

subsection \<open>Properties\<close>

text \<open>
  C22. A metadata thread that runs to its end touches live items only and ends after two steps
  per item and one more: every item of its list has the metadata of the catalog or, failing
  that, of the plugins, and is in the normal state again, unless it was marked for deletion, in
  which case it is freed; no other item changes, the thread is gone, and one event lists the
  updated items, the current one first.
\<close>

theorem plm_thread_completes:
  assumes ok: "plm_lists_ok s" and mem: "plm_mem_ok s" and k: "k < length (plm_threads s)"
    and th: "plm_threads s ! k = \<lparr>th_list = ps, th_items = [], th_fetched = None\<rparr>"
  shows "\<exists>t us. plm_thread_run db rd (Suc (2 * length ps)) k s = Some t \<and> plm_lists_ok t \<and>
    plm_mem_ok t \<and> plm_threads t = take k (plm_threads s) @ drop (Suc k) (plm_threads s) \<and>
    (\<forall>p \<in> set ps. \<exists>it. plm_heap s p = Some it \<and> plm_heap t p =
       (if it_state it = kPlaylistItemState_Delete then None
        else Some (it\<lparr>it_metadata := fetch_metadata db rd (m_metadataFormats s) it,
          it_state := kPlaylistItemState_Normal\<rparr>))) \<and>
    (\<forall>p. p \<notin> set ps \<longrightarrow> plm_heap t p = plm_heap s p) \<and>
    plm_events t = plm_events s @ (if us = [] then [] else [PlaylistItemsUpdatedEvent us]) \<and>
    mset us = mset (filter (\<lambda>p. \<not> deleted_in (plm_heap s) p) ps) \<and>
    (\<forall>cur. plm_GetCurrentItem s = Some cur \<and> cur \<in> set us \<longrightarrow> hd us = cur)"
proof -
  obtain cur where cur: "plm_GetCurrentItem s = Some cur" using plm_GetCurrentItem_ok [OF ok] by blast
  define us where "us = updated_items (plm_heap s) cur [] ps"
  have "th_list (plm_threads s ! k) = ps" "th_fetched (plm_threads s ! k) = None"
    "th_items (plm_threads s ! k) = []" using th by simp_all
  with plm_thread_run_ok [OF ok mem k _ _ cur, of ps db rd] obtain t where
    t: "plm_thread_run db rd (Suc (2 * length ps)) k s = Some t" "plm_lists_ok t" "plm_mem_ok t"
      "plm_threads t = take k (plm_threads s) @ drop (Suc k) (plm_threads s)"
      "plm_heap t = stored_heap db rd (m_metadataFormats s) ps (plm_heap s)"
      "plm_events t = plm_events s @ (if us = [] then [] else [PlaylistItemsUpdatedEvent us])"
    unfolding us_def Let_def by auto
  have live: "\<exists>it. plm_heap s p = Some it" if "p \<in> set ps" for p
    using plm_mem_okD(6) [OF mem plm_pending_mem [OF k]] that th by auto
  have d: "distinct ps"
  proof -
    have "distinct (th_list (plm_threads s ! k))"
      using plm_mem_okD(5) [OF mem] k by (simp add: plm_pending_def distinct_concat_iff)
    then show ?thesis using th by simp
  qed
  have "\<exists>it. plm_heap s p = Some it \<and> plm_heap t p =
       (if it_state it = kPlaylistItemState_Delete then None
        else Some (it\<lparr>it_metadata := fetch_metadata db rd (m_metadataFormats s) it,
          it_state := kPlaylistItemState_Normal\<rparr>))" if "p \<in> set ps" for p
    using live [OF that] that unfolding t(5) by (auto simp: stored_heap_def stored_item_def)
  moreover have "plm_heap t p = plm_heap s p" if "p \<notin> set ps" for p
    using that unfolding t(5) by (simp add: stored_heap_def)
  moreover have "mset us = mset (filter (\<lambda>p. \<not> deleted_in (plm_heap s) p) ps)"
    unfolding us_def by (simp add: mset_updated_items)
  moreover have "hd us = cur" if "cur \<in> set us"
    using hd_updated_items [of "[]" ps cur "plm_heap s"] that d unfolding us_def by simp
  ultimately show ?thesis using t(1-4,6) cur by (intro exI [of _ t] exI [of _ us]) simp
qed

text \<open>A playlist whose first item is with a metadata thread.\<close>

definition busy_item :: plm where
  "busy_item = spare_item\<lparr>plm_heap := (plm_heap spare_item)(1 \<mapsto>
      (new_item ''a'' None)\<lparr>it_state := kPlaylistItemState_RetrievingMetaData\<rparr>),
     plm_threads := [\<lparr>th_list = [1], th_items = [], th_fetched = None\<rparr>]\<rparr>"

lemma busy_item_ok: "plm_lists_ok busy_item" "plm_mem_ok busy_item"
  using spare_item_ok(1,2)
  by (auto simp: busy_item_def plm_lists_ok_def plm_mem_ok_def plm_pending_def spare_item_def three_items_def
    plm_new_def new_item_def)

theorem plm_thread_completes_witness:
  "\<exists>t. plm_thread_run (\<lambda>_. Some (new_metadata\<lparr>m_year := 1999\<rparr>)) (\<lambda>_ _ md. md) 3 0 busy_item = Some t \<and>
     plm_threads t = [] \<and> map_option (\<lambda>it. m_year (it_metadata it)) (plm_heap t 1) = Some 1999"
proof -
  have b: "plm_threads busy_item = [\<lparr>th_list = [1], th_items = [], th_fetched = None\<rparr>]"
    "plm_heap busy_item (Suc 0) = Some ((new_item ''a'' None)\<lparr>it_state := kPlaylistItemState_RetrievingMetaData\<rparr>)"
    by (simp_all add: busy_item_def)
  then have th: "plm_threads busy_item ! 0 = \<lparr>th_list = [1], th_items = [], th_fetched = None\<rparr>"
    and k: "0 < length (plm_threads busy_item)" by simp_all
  from plm_thread_completes [OF busy_item_ok k th, of "\<lambda>_. Some (new_metadata\<lparr>m_year := 1999\<rparr>)" "\<lambda>_ _ md. md"]
  show ?thesis by (auto simp: b fetch_metadata_def new_item_def numeral_3_eq_3 simp del: plm_thread_run.simps)
qed

subsection \<open>Two races\<close>

text \<open>
  The event at the end of the thread is sent without the lock: an item that was updated and
  then removed is deleted by then, and the event hands its address to the listeners.
\<close>

lemma plm_updated_event_dangles:
  "\<exists>t. do { s1 \<leftarrow> plm_thread_run (\<lambda>_. None) (\<lambda>_ _ md. md) 2 0 busy_item;
       (e, s2) \<leftarrow> plm_RemoveItem 0 s1;
       plm_thread_step (\<lambda>_. None) (\<lambda>_ _ md. md) 0 s2 } = Some t \<and>
     PlaylistItemsUpdatedEvent [1] \<in> set (plm_events t) \<and> plm_heap t 1 = None"
  by (simp add: numeral_2_eq_2 plm_thread_step_def plm_thread_fetch_def plm_thread_store_def plm_thread_finish_def
    busy_item_def spare_item_def three_items_def plm_new_def new_item_def plm_set_thread_def
    plm_RemoveItem_def plm_CheckIndex_def plm_CountItems_def plm_active_def plm_set_active_def
    plm_GetCurrentItem_def plm_erase_shuffle_def plm_dispose_def dispose_heap_def plm_after_remove_def
    plm_SetCurrentIndex_def plm_InternalSetCurrentIndex_def plm_emit_def fetch_metadata_def Let_def)

text \<open>
  \<open>RetrieveMetaDataNow\<close> puts an item back into the normal state although a thread still has it:
  a removal then deletes it, and the thread goes on with a freed item.
\<close>

lemma plm_RetrieveMetaDataNow_unsafe:
  "\<exists>s2. do { s1 \<leftarrow> plm_RetrieveMetaDataNow (\<lambda>_ _ md. md) 1 busy_item; plm_RemoveItem 0 s1 } = Some (kError_NoErr, s2) \<and>
     plm_thread_step (\<lambda>_. None) (\<lambda>_ _ md. md) 0 s2 = None"
  by (simp add: plm_thread_step_def plm_thread_fetch_def plm_RetrieveMetaDataNow_def
    busy_item_def spare_item_def three_items_def plm_new_def new_item_def
    plm_RemoveItem_def plm_CheckIndex_def plm_CountItems_def plm_active_def plm_set_active_def
    plm_GetCurrentItem_def plm_erase_shuffle_def plm_dispose_def dispose_heap_def plm_after_remove_def
    plm_SetCurrentIndex_def plm_InternalSetCurrentIndex_def plm_emit_def Let_def)

end
