(* ===== verification/PlmLists.thy ===== *)
theory PlmLists
  imports PlmMetaThread
begin

section \<open>Playlist files, the external playlist and portable players\<close>

text \<open>
  The operations of \<open>playlist.cpp\<close> that read and write whole playlists. The playlist-format and
  portable-player plugins are parameters: \<open>rp f url\<close> is the result of format \<open>f\<close>'s
  \<open>ReadPlaylist\<close>, with the URLs and metadata it constructs its items from; \<open>wp f url items\<close> is
  the result of its \<open>WritePlaylist\<close>; \<open>dr dev\<close>, \<open>dw dev items\<close> are the same for a device. The
  plugins are called with the addresses of live items, so their items are loaded first.
\<close>

subsection \<open>Formats\<close>

text \<open>\<open>strrchr(url, '.') + 1\<close>.\<close>

definition extension_of :: "string \<Rightarrow> string option" where
  "extension_of url = (if CHR ''.'' \<in> set (c_str url)
     then Some (rev (takeWhile (\<lambda>c. c \<noteq> CHR ''.'') (rev (c_str url)))) else None)"

fun find_format :: "(string \<times> nat) list \<Rightarrow> string \<Rightarrow> nat option" where
  "find_format [] ext = None"
| "find_format ((e, f) # fs) ext =
     (if strcasecmp ext (c_str e) = 0 then Some f else find_format fs ext)"

definition plm_IsSupportedPlaylistFormat :: "string option \<Rightarrow> plm \<Rightarrow> bool" where
  "plm_IsSupportedPlaylistFormat ext s = (case ext of None \<Rightarrow> False
     | Some e \<Rightarrow> find_format (m_playlistFormats s) (c_str e) \<noteq> None)"

definition plm_GetSupportedPlaylistFormats :: "nat \<Rightarrow> plm \<Rightarrow> error \<times> (string \<times> nat) option" where
  "plm_GetSupportedPlaylistFormats index s =
     (if index < u32 (length (m_playlistFormats s)) then (kError_NoErr, Some (m_playlistFormats s ! index))
      else (kError_NoMoreFormats, None))"

definition plm_GetSupportedPortables :: "nat \<Rightarrow> plm \<Rightarrow> error \<times> nat option" where
  "plm_GetSupportedPortables index s =
     (if index < u32 (length (m_portablePlayers s)) then (kError_NoErr, Some (m_portablePlayers s ! index))
      else (kError_NoMoreDevices, None))"

subsection \<open>Reading and writing\<close>

type_synonym read_plugin = "nat \<Rightarrow> string \<Rightarrow> error \<times> (string \<times> metadata option) list"

fun alloc_items :: "(string \<times> metadata option) list \<Rightarrow> plm \<Rightarrow> ptr list \<times> plm" where
  "alloc_items [] s = ([], s)"
| "alloc_items ((url, md) # its) s =
     (let (p, s1) = plm_alloc (new_item url md) s; (ps, s2) = alloc_items its s1 in (p # ps, s2))"

text \<open>With a vector of the caller: the items appended to it are the second result.\<close>

definition plm_ReadPlaylist_into :: "read_plugin \<Rightarrow> string \<Rightarrow> plm \<Rightarrow> error \<times> ptr list \<times> plm" where
  "plm_ReadPlaylist_into rp url s = (case extension_of url of
       None \<Rightarrow> (kError_FormatNotSupported, [], s)
     | Some extension \<Rightarrow> (case find_format (m_playlistFormats s) extension of
         None \<Rightarrow> (kError_FormatNotSupported, [], s)
       | Some f \<Rightarrow>
           (let (result, its) = rp f (c_str url); (ps, s1) = alloc_items its s in (result, ps, s1))))"

text \<open>Without one, what was read goes to the active list.\<close>

definition plm_ReadPlaylist :: "read_plugin \<Rightarrow> string \<Rightarrow> plm \<Rightarrow> (error \<times> plm) option" where
  "plm_ReadPlaylist rp url s = (case extension_of url of
       None \<Rightarrow> Some (kError_FormatNotSupported, s)
     | Some extension \<Rightarrow> (case find_format (m_playlistFormats s) extension of
         None \<Rightarrow> Some (kError_FormatNotSupported, s)
       | Some f \<Rightarrow> do {
           let (result, ps, s1) = plm_ReadPlaylist_into rp url s;
           (_, _, s2) \<leftarrow> plm_AddItems ps True s1;
           Some (result, s2)
         }))"

definition plm_WritePlaylist ::
  "(nat \<Rightarrow> string \<Rightarrow> item list \<Rightarrow> error) \<Rightarrow> string \<Rightarrow> ptr list option \<Rightarrow> plm \<Rightarrow> error option" where
  "plm_WritePlaylist wp url items s = (case extension_of url of
       None \<Rightarrow> Some kError_FormatNotSupported
     | Some extension \<Rightarrow> (case find_format (m_playlistFormats s) extension of
         None \<Rightarrow> Some kError_FormatNotSupported
       | Some f \<Rightarrow> do {
           its \<leftarrow> load_items (plm_heap s) (case items of None \<Rightarrow> plm_active s | Some ps \<Rightarrow> ps);
           Some (wp f (c_str url) (map fst its))
         }))"

definition plm_WritePlaylist_format ::
  "(nat \<Rightarrow> string \<Rightarrow> item list \<Rightarrow> error) \<Rightarrow> string \<Rightarrow> nat \<Rightarrow> ptr list option \<Rightarrow> plm \<Rightarrow> error option" where
  "plm_WritePlaylist_format wp url f items s = do {
     its \<leftarrow> load_items (plm_heap s) (case items of None \<Rightarrow> plm_active s | Some ps \<Rightarrow> ps);
     Some (wp f (c_str url) (map fst its))
   }"

subsection \<open>Adding by URL\<close>

definition plm_AddItem_url :: "read_plugin \<Rightarrow> string \<Rightarrow> plm \<Rightarrow> (error \<times> plm) option" where
  "plm_AddItem_url rp url s = do {
     (result, s1) \<leftarrow> plm_ReadPlaylist rp url s;
     if IsError result
     then let (p, s2) = plm_alloc (new_item (c_str url) None) s1 in plm_AddItem p True s2
     else Some (result, s1)
   }"

definition plm_AddItem_url_at :: "read_plugin \<Rightarrow> string \<Rightarrow> nat \<Rightarrow> plm \<Rightarrow> (error \<times> plm) option" where
  "plm_AddItem_url_at rp url index s = do {
     (result, s1) \<leftarrow> plm_ReadPlaylist rp url s;
     if IsError result
     then let (p, s2) = plm_alloc (new_item (c_str url) None) s1 in plm_AddItem_at p index True s2
     else Some (result, s1)
   }"

fun read_urls_loop :: "read_plugin \<Rightarrow> string list \<Rightarrow> plm \<Rightarrow> (ptr list \<times> plm) option" where
  "read_urls_loop rp [] s = Some ([], s)"
| "read_urls_loop rp (url # urls) s = do {
     (result, s1) \<leftarrow> plm_ReadPlaylist rp url s;
     if IsError result
     then do {
       let (p, s2) = plm_alloc (new_item (c_str url) None) s1;
       (ps, s3) \<leftarrow> read_urls_loop rp urls s2;
       Some (p # ps, s3)
     }
     else read_urls_loop rp urls s1
   }"

definition plm_AddItems_urls :: "read_plugin \<Rightarrow> string list \<Rightarrow> plm \<Rightarrow> (error \<times> plm) option" where
  "plm_AddItems_urls rp urls s = do {
     (ps, s1) \<leftarrow> read_urls_loop rp urls s;
     (result, _, s2) \<leftarrow> plm_AddItems ps True s1;
     Some (result, s2)
   }"

definition plm_AddItems_urls_at :: "read_plugin \<Rightarrow> string list \<Rightarrow> nat \<Rightarrow> plm \<Rightarrow> (error \<times> plm) option" where
  "plm_AddItems_urls_at rp urls index s = do {
     (ps, s1) \<leftarrow> read_urls_loop rp urls s;
     (result, _, s2) \<leftarrow> plm_AddItems_at ps index True s1;
     Some (result, s2)
   }"

subsection \<open>The list that is edited\<close>

definition plm_SetActivePlaylist :: "playlist_key \<Rightarrow> plm \<Rightarrow> error \<times> plm" where
  "plm_SetActivePlaylist key s = (case key of
       kPlaylistKey_MasterPlaylist \<Rightarrow> (kError_NoErr, s\<lparr>m_playlistKey := key, m_activeList := MasterList\<rparr>)
     | kPlaylistKey_ExternalPlaylist \<Rightarrow> (kError_NoErr, s\<lparr>m_playlistKey := key, m_activeList := ExternalList\<rparr>)
     | kPlaylistKey_PortablePlaylist \<Rightarrow> (kError_NoErr, s\<lparr>m_playlistKey := key, m_activeList := ExternalList\<rparr>)
     | kPlaylistKey_LastKey \<Rightarrow> (kError_InvalidParam, s))"

text \<open>The loop that disposes of a whole list, in its order.\<close>

fun dispose_all :: "ptr list \<Rightarrow> plm \<Rightarrow> plm option" where
  "dispose_all [] s = Some s"
| "dispose_all (p # ps) s =
     (if p = NULL then dispose_all ps s else do { s1 \<leftarrow> plm_dispose p s; dispose_all ps s1 })"

definition plm_SetExternalPlaylist :: "read_plugin \<Rightarrow> string \<Rightarrow> plm \<Rightarrow> (error \<times> plm) option" where
  "plm_SetExternalPlaylist rp url s = do {
     s1 \<leftarrow> dispose_all (m_externalList s) s;
     let s2 = s1\<lparr>m_externalList := []\<rparr>;
     let (result, ps, s3) = plm_ReadPlaylist_into rp url s2;
     let s4 = s3\<lparr>m_externalList := ps\<rparr>;
     s5 \<leftarrow> plm_RetrieveMetaData (m_externalList s4) s4;
     Some (result, s5\<lparr>m_externalPlaylist := c_str url\<rparr>)
   }"

text \<open>The result, the buffer and the length written back.\<close>

definition plm_GetExternalPlaylist :: "string \<Rightarrow> nat \<Rightarrow> plm \<Rightarrow> error \<times> string \<times> nat" where
  "plm_GetExternalPlaylist url len s =
     (if len \<ge> length (m_externalPlaylist s) + 1
      then (kError_NoErr, c_str (m_externalPlaylist s), u32 (length (m_externalPlaylist s) + 1))
      else (kError_BufferTooSmall, url, u32 (length (m_externalPlaylist s) + 1)))"

text \<open>Without a vector: the external items are disposed of, but stay in their list.\<close>

definition plm_ReadPortablePlaylist ::
  "(nat \<Rightarrow> error \<times> (string \<times> metadata option) list) \<Rightarrow> nat \<Rightarrow> plm \<Rightarrow> (error \<times> plm) option" where
  "plm_ReadPortablePlaylist dr dev s = do {
     s1 \<leftarrow> dispose_all (m_externalList s) s;
     let (result, its) = dr dev;
     let (ps, s2) = alloc_items its s1;
     (_, _, s3) \<leftarrow> plm_AddItems ps True s2;
     Some (result, s3)
   }"

definition plm_ReadPortablePlaylist_into ::
  "(nat \<Rightarrow> error \<times> (string \<times> metadata option) list) \<Rightarrow> nat \<Rightarrow> plm \<Rightarrow> error \<times> ptr list \<times> plm" where
  "plm_ReadPortablePlaylist_into dr dev s =
     (let (result, its) = dr dev; (ps, s1) = alloc_items its s in (result, ps, s1))"

definition plm_SetPortablePlaylist ::
  "(nat \<Rightarrow> error \<times> (string \<times> metadata option) list) \<Rightarrow> nat \<Rightarrow> plm \<Rightarrow> (error \<times> plm) option" where
  "plm_SetPortablePlaylist dr dev s = do {
     (result, s1) \<leftarrow> plm_ReadPortablePlaylist dr dev s;
     Some (result, s1\<lparr>m_portableDevice := Some dev\<rparr>)
   }"

definition plm_GetPortablePlaylist :: "plm \<Rightarrow> error \<times> nat option" where
  "plm_GetPortablePlaylist s = (kError_NoErr, m_portableDevice s)"

definition plm_SyncPortablePlaylist ::
  "(nat \<Rightarrow> item list \<Rightarrow> error) \<Rightarrow> nat \<Rightarrow> plm \<Rightarrow> error option" where
  "plm_SyncPortablePlaylist dw dev s = do {
     its \<leftarrow> load_items (plm_heap s) (m_externalList s);
     Some (dw dev (map fst its))
   }"

text \<open>
  The destructor: all three lists are disposed of and the two modes saved; the result is the
  heap that is left and the saved preferences.
\<close>

definition plm_destroy :: "plm \<Rightarrow> ((ptr \<rightharpoonup> item) \<times> bool \<times> repeat_mode) option" where
  "plm_destroy s = do {
     s1 \<leftarrow> dispose_all (m_masterList s) s;
     s2 \<leftarrow> dispose_all (m_externalList s) s1;
     s3 \<leftarrow> dispose_all (m_portableList s) s2;
     Some (plm_heap s3, m_shuffle s3, m_repeatMode s3)
   }"

subsection \<open>New items\<close>

lemma plm_mem_ok_alloc:
  assumes mem: "plm_mem_ok s"
  shows "plm_mem_ok (snd (plm_alloc it s))" and "plm_heap s (plm_next s) = None"
proof -
  show n: "plm_heap s (plm_next s) = None" using plm_mem_okD(2) [OF mem, of "plm_next s"] by force
  let ?t = "s\<lparr>plm_heap := (plm_heap s)(plm_next s \<mapsto> it), plm_next := Suc (plm_next s)\<rparr>"
  have old: "plm_heap ?t p = plm_heap s p" if "plm_heap s p \<noteq> None" for p using that n by auto
  have "plm_mem_ok ?t"
    unfolding plm_mem_ok_def
  proof (intro conjI ballI)
    fix p
    show "0 < p" "p < plm_next ?t" if "p \<in> dom (plm_heap ?t)"
      using that plm_mem_okD(1) [OF mem] plm_mem_okD(2) [OF mem, of p] by (auto split: if_splits)
    show "\<exists>it. plm_heap ?t p = Some it \<and> it_state it \<noteq> kPlaylistItemState_Delete"
      if "p \<in> set (m_masterList ?t) \<union> set (m_externalList ?t)"
      using that plm_mem_okD(3,4) [OF mem, of p] old [of p] by auto
    show "\<exists>it. plm_heap ?t p = Some it \<and> it_state it \<noteq> kPlaylistItemState_Normal"
      if "p \<in> set (plm_pending ?t)"
      using that plm_mem_okD(6) [OF mem, of p] old [of p] by (auto simp: plm_pending_def)
  qed (use plm_mem_okD(5) [OF mem] in \<open>simp_all add: plm_pending_def\<close>)
  then show "plm_mem_ok (snd (plm_alloc it s))" by (simp add: plm_alloc_def)
qed

lemma plm_lists_ok_next [simp]: "plm_lists_ok (s\<lparr>plm_heap := h, plm_next := n\<rparr>) = plm_lists_ok s"
  by (simp add: plm_lists_ok_def)

lemma alloc_items_ok:
  "plm_mem_ok s \<Longrightarrow> \<exists>ps h n. alloc_items its s = (ps, s\<lparr>plm_heap := h, plm_next := n\<rparr>) \<and>
     plm_mem_ok (s\<lparr>plm_heap := h, plm_next := n\<rparr>) \<and> length ps = length its \<and> distinct ps \<and>
     (\<forall>p \<in> set ps. plm_heap s p = None \<and> NULL < p \<and> plm_next s \<le> p) \<and> (\<forall>p. p \<notin> set ps \<longrightarrow> h p = plm_heap s p) \<and>
     (\<forall>i < length its. h (ps ! i) = Some (new_item (fst (its ! i)) (snd (its ! i))))"
proof (induction its arbitrary: s)
  case Nil
  then show ?case
    by (intro exI [of _ "[]"] exI [of _ "plm_heap s"] exI [of _ "plm_next s"]) simp
next
  case (Cons x its)
  obtain url md where x: "x = (url, md)" by fastforce
  let ?p = "plm_next s" and ?s1 = "snd (plm_alloc (new_item url md) s)"
  note a = plm_mem_ok_alloc [OF Cons.prems]
  have s1: "?s1 = s\<lparr>plm_heap := (plm_heap s)(?p \<mapsto> new_item url md), plm_next := Suc ?p\<rparr>"
    by (simp add: plm_alloc_def)
  from Cons.IH [OF a(1)] obtain ps h n where
    r: "alloc_items its ?s1 = (ps, ?s1\<lparr>plm_heap := h, plm_next := n\<rparr>)"
      "plm_mem_ok (?s1\<lparr>plm_heap := h, plm_next := n\<rparr>)" "length ps = length its" "distinct ps"
      "\<forall>p \<in> set ps. plm_heap ?s1 p = None \<and> NULL < p \<and> plm_next ?s1 \<le> p" "\<forall>p. p \<notin> set ps \<longrightarrow> h p = plm_heap ?s1 p"
      "\<forall>i < length its. h (ps ! i) = Some (new_item (fst (its ! i)) (snd (its ! i)))" by blast
  have np: "?p \<notin> set ps" using r(5) s1 by auto
  have "alloc_items (x # its) s = (?p # ps, s\<lparr>plm_heap := h, plm_next := n\<rparr>)"
    using r(1) by (simp add: x plm_alloc_def)
  moreover have "plm_mem_ok (s\<lparr>plm_heap := h, plm_next := n\<rparr>)" using r(2) by (simp add: s1)
  moreover have "\<forall>p \<in> set (?p # ps). plm_heap s p = None \<and> NULL < p \<and> plm_next s \<le> p"
    using r(5) a(2) plm_mem_okD(1) [OF Cons.prems] by (auto simp: s1 split: if_splits)
  moreover have "\<forall>p. p \<notin> set (?p # ps) \<longrightarrow> h p = plm_heap s p" using r(6) by (simp add: s1)
  moreover have "h ((?p # ps) ! i) = Some (new_item (fst ((x # its) ! i)) (snd ((x # its) ! i)))"
    if "i < length (x # its)" for i
    using that r(6,7) np by (cases i) (auto simp: x s1)
  ultimately show ?case using r(3,4) np
    by (intro exI [of _ "?p # ps"] exI [of _ h] exI [of _ n]) simp
qed

lemma alloc_items_external:
  "alloc_items its (s\<lparr>m_externalList := xs\<rparr>) = (ps, t) \<Longrightarrow>
   alloc_items its s = (ps, t\<lparr>m_externalList := m_externalList s\<rparr>)"
proof (induction its arbitrary: s ps t)
  case (Cons x its)
  obtain url md where x: "x = (url, md)" by fastforce
  let ?u = "s\<lparr>plm_heap := (plm_heap s)(plm_next s \<mapsto> new_item url md), plm_next := Suc (plm_next s)\<rparr>"
  obtain qs t' where rest: "alloc_items its (?u\<lparr>m_externalList := xs\<rparr>) = (qs, t')" by fastforce
  have eq: "?u\<lparr>m_externalList := xs\<rparr> = s\<lparr>m_externalList := xs,
      plm_heap := (plm_heap s)(plm_next s \<mapsto> new_item url md), plm_next := Suc (plm_next s)\<rparr>" by simp
  have "ps = plm_next s # qs" "t = t'" using Cons.prems rest unfolding eq by (simp_all add: x plm_alloc_def)
  then show ?case using Cons.IH [OF rest] by (simp add: x plm_alloc_def)
qed auto

subsection \<open>Disposing of a list\<close>

lemma dispose_all_remove_all:
  "dispose_all ps s = map_option (\<lambda>(_, _, t). t) (remove_all_loop ps i s)"
proof (induction ps arbitrary: s i)
  case (Cons p ps)
  show ?case
  proof (cases "p = NULL")
    case True
    then show ?thesis using Cons [of s "u32_sub i 1"] by simp
  next
    case False
    have "dispose_all ps s1 = map_option (\<lambda>(_, _, t). t) (remove_all_loop ps (u32_sub i 1) s1)" for s1
      by (rule Cons)
    then show ?thesis using False
      by (cases "plm_dispose p s") (auto simp: map_option_case split: option.splits Option.bind_splits)
  qed
qed simp

lemma dispose_external_ok:
  assumes ok: "plm_lists_ok s" and mem: "plm_mem_ok s"
  shows "\<exists>h. dispose_all (m_externalList s) s = Some (s\<lparr>plm_heap := h\<rparr>) \<and>
    plm_lists_ok (s\<lparr>plm_heap := h, m_externalList := []\<rparr>) \<and>
    plm_mem_ok (s\<lparr>plm_heap := h, m_externalList := []\<rparr>) \<and>
    (\<forall>p \<in> set (m_externalList s). disposed s (s\<lparr>plm_heap := h\<rparr>) p) \<and>
    (\<forall>p. p \<notin> set (m_externalList s) \<longrightarrow> h p = plm_heap s p)"
proof -
  let ?A = "set (m_externalList s)"
  have live: "\<forall>p \<in> ?A. \<exists>it. plm_heap s p = Some it \<and> it_state it \<noteq> kPlaylistItemState_Delete"
    using plm_mem_okD(4) [OF mem] by blast
  have "?A \<subseteq> ?A" by simp
  from remove_all_loop_ok [where i = 0, OF plm_drop_mem_ok [OF mem, of ?A] this plm_lists_okD(2,5) [OF ok] live]
  obtain h ixs where h: "remove_all_loop (m_externalList s) 0 s = Some (m_externalList s, ixs, s\<lparr>plm_heap := h\<rparr>)"
    "plm_mem_ok ((plm_drop ?A s)\<lparr>plm_heap := h\<rparr>)"
    "\<forall>p \<in> ?A. disposed s (s\<lparr>plm_heap := h\<rparr>) p" "\<forall>q. q \<notin> ?A \<longrightarrow> h q = plm_heap s q" by blast
  have "dispose_all (m_externalList s) s = Some (s\<lparr>plm_heap := h\<rparr>)"
    using h(1) by (simp add: dispose_all_remove_all [where i = 0])
  moreover have "plm_lists_ok (s\<lparr>plm_heap := h, m_externalList := []\<rparr>)"
    using plm_lists_okD [OF ok] by (simp add: plm_lists_ok_def)
  moreover have "plm_mem_ok (s\<lparr>plm_heap := h, m_externalList := []\<rparr>)"
    by (rule plm_mem_okI_same [OF h(2)]) (use plm_lists_okD(3) [OF ok] in auto)
  ultimately show ?thesis using h(3,4) by blast
qed

subsection \<open>\<open>SetExternalPlaylist\<close>\<close>

text \<open>What a file is read as: the result and the items of the plugin for its extension.\<close>

definition format_result ::
  "read_plugin \<Rightarrow> plm \<Rightarrow> string \<Rightarrow> error \<times> (string \<times> metadata option) list" where
  "format_result rp s url =
     (case Option.bind (extension_of url) (find_format (m_playlistFormats s)) of
        None \<Rightarrow> (kError_FormatNotSupported, [])
      | Some f \<Rightarrow> rp f (c_str url))"

lemma plm_ReadPlaylist_into_eq:
  "plm_ReadPlaylist_into rp url s = (fst (format_result rp s url),
     alloc_items (snd (format_result rp s url)) s)"
  by (auto simp: plm_ReadPlaylist_into_def format_result_def split: option.splits prod.splits)

lemma format_result_upd [simp]:
  "format_result rp (s\<lparr>plm_heap := h\<rparr>) url = format_result rp s url"
  "format_result rp (s\<lparr>m_externalList := xs\<rparr>) url = format_result rp s url"
  by (simp_all add: format_result_def)

lemma plm_lists_ok_external:
  assumes ok: "plm_lists_ok s" and "distinct ps" and "length ps < kMaxItems"
    and "NULL \<notin> set ps" and "set ps \<inter> set (m_masterList s) = {}"
  shows "plm_lists_ok (s\<lparr>m_externalList := ps\<rparr>)"
  using assms plm_lists_okD [OF ok] by (auto simp: plm_lists_ok_def)

lemma plm_SetExternalPlaylist_ok:
  assumes ok: "plm_lists_ok s" and mem: "plm_mem_ok s"
    and len: "length (snd (format_result rp s url)) < kMaxItems"
  shows "\<exists>t. plm_SetExternalPlaylist rp url s = Some (fst (format_result rp s url), t) \<and>
    plm_lists_ok t \<and> plm_mem_ok t \<and>
    map (\<lambda>p. map_option (\<lambda>it. (it_url it, it_state it)) (plm_heap t p)) (m_externalList t) =
      map (\<lambda>x. Some (fst x, kPlaylistItemState_RetrievingMetaData)) (snd (format_result rp s url)) \<and>
    (\<forall>p \<in> set (m_externalList s). disposed s t p) \<and>
    (\<forall>p. p \<notin> set (m_externalList s) \<and> p \<notin> set (m_externalList t) \<longrightarrow> plm_heap t p = plm_heap s p) \<and>
    m_masterList t = m_masterList s \<and> plm_GetCurrentItem t = plm_GetCurrentItem s"
proof -
  let ?its = "snd (format_result rp s url)"
  obtain h where h: "dispose_all (m_externalList s) s = Some (s\<lparr>plm_heap := h\<rparr>)"
    "plm_lists_ok (s\<lparr>plm_heap := h, m_externalList := []\<rparr>)"
    "plm_mem_ok (s\<lparr>plm_heap := h, m_externalList := []\<rparr>)"
    "\<forall>p \<in> set (m_externalList s). disposed s (s\<lparr>plm_heap := h\<rparr>) p"
    "\<forall>p. p \<notin> set (m_externalList s) \<longrightarrow> h p = plm_heap s p"
    using dispose_external_ok [OF ok mem] by blast
  let ?s2 = "s\<lparr>plm_heap := h, m_externalList := []\<rparr>"
  from alloc_items_ok [OF h(3), of ?its] obtain ps h3 n where
    a: "alloc_items ?its ?s2 = (ps, ?s2\<lparr>plm_heap := h3, plm_next := n\<rparr>)"
      "plm_mem_ok (?s2\<lparr>plm_heap := h3, plm_next := n\<rparr>)" "length ps = length ?its" "distinct ps"
      "\<forall>p \<in> set ps. h p = None \<and> NULL < p \<and> plm_next s \<le> p" "\<forall>p. p \<notin> set ps \<longrightarrow> h3 p = h p"
      "\<forall>i < length ?its. h3 (ps ! i) = Some (new_item (fst (?its ! i)) (snd (?its ! i)))" by auto
  let ?s3 = "?s2\<lparr>plm_heap := h3, plm_next := n\<rparr>"
  have fr: "format_result rp ?s2 url = format_result rp s url" by simp
  have nn: "NULL \<notin> set ps" using a(5) by auto
  have live: "\<exists>it. h3 p = Some it \<and> it_state it = kPlaylistItemState_Normal" if "p \<in> set ps" for p
    using that a(3,7) by (auto simp: in_set_conv_nth new_item_def)
  let ?s4 = "?s3\<lparr>m_externalList := ps\<rparr>"
  have ok3: "plm_lists_ok ?s3" using h(2) by (simp add: plm_lists_ok_def cong: if_cong)
  have disj: "set ps \<inter> set (m_masterList s) = {}"
    using a(5) plm_mem_okD(3) [OF h(3)] by fastforce
  have ok4: "plm_lists_ok ?s4"
    by (rule plm_lists_ok_external [OF ok3 a(4) _ nn]) (use len a(3) disj in simp_all)
  have pend4: "plm_pending ?s4 = plm_pending ?s3" by (simp add: plm_pending_def)
  have mem4: "plm_mem_ok ?s4"
    unfolding plm_mem_ok_def pend4
    using plm_mem_okD [OF a(2)] live by (auto simp del: plm_lists_ok_next) (metis item_state.distinct(3))
  have fresh: "set ps \<inter> set (plm_pending ?s4) = {}" "set ps \<subseteq> dom (plm_heap ?s4)"
    using plm_mem_okD(6) [OF mem4] live by fastforce+
  let ?h5 = "\<lambda>p. if p \<in> set ps then map_option retrieve_item (h3 p) else h3 p"
  have mark: "mark_retrieving (plm_heap ?s4) ps = Some ?h5"
    using mark_retrieving_ok [OF nn fresh(2) a(4)] by (simp cong: if_cong)
  define ths where "ths = plm_threads ?s4 @ [\<lparr>th_list = ps, th_items = [], th_fetched = None\<rparr>]"
  have ret: "plm_RetrieveMetaData ps ?s4 = Some (?s4\<lparr>plm_heap := ?h5, plm_threads := ths\<rparr>)"
    unfolding plm_RetrieveMetaData_def mark ths_def by simp
  moreover obtain u where "plm_RetrieveMetaData ps ?s4 = Some u" "plm_mem_ok u"
    using plm_RetrieveMetaData_ok [OF mem4 fresh(2) a(4) fresh(1)] by blast
  ultimately have mem5: "plm_mem_ok (?s4\<lparr>plm_heap := ?h5, plm_threads := ths\<rparr>)" by simp
  let ?t = "?s4\<lparr>plm_heap := ?h5, plm_threads := ths, m_externalPlaylist := c_str url\<rparr>"
  have "plm_SetExternalPlaylist rp url s = Some (fst (format_result rp s url), ?t)"
  proof -
    have "plm_ReadPlaylist_into rp url ?s2 = (fst (format_result rp s url), ps, ?s3)"
      unfolding plm_ReadPlaylist_into_eq fr a(1) by simp
    then show ?thesis using h(1) ret by (simp add: plm_SetExternalPlaylist_def Let_def)
  qed
  moreover have "plm_lists_ok ?t" using ok4 by (simp add: plm_lists_ok_def cong: if_cong)
  moreover have "plm_mem_ok ?t" by (rule plm_mem_okI_same [OF mem5]) simp_all
  moreover have "map (\<lambda>p. map_option (\<lambda>it. (it_url it, it_state it)) (?h5 p)) ps =
      map (\<lambda>x. Some (fst x, kPlaylistItemState_RetrievingMetaData)) ?its"
    using a(3,7) by (intro nth_equalityI) (auto simp: retrieve_item_def new_item_def)
  moreover have "disposed s ?t p" if "p \<in> set (m_externalList s)" for p
  proof -
    have "p \<notin> set ps" using that a(5) plm_mem_okD(2,4) [OF mem, of p] by fastforce
    then have "plm_heap ?t p = h p" using a(6) by simp
    then show ?thesis using bspec [OF h(4) that] by (cases "plm_heap s p") (simp_all add: disposed_def)
  qed
  moreover have "?h5 p = plm_heap s p" if "p \<notin> set (m_externalList s)" "p \<notin> set ps" for p
    using that h(5) a(6) by simp
  moreover have "plm_GetCurrentItem ?t = plm_GetCurrentItem s" by (simp add: plm_GetCurrentItem_def)
  ultimately show ?thesis by (intro exI [of _ ?t]) simp
qed

text \<open>
  C40. \<open>SetExternalPlaylist\<close> replaces the external list by the items the format's plugin
  reads from the file, in its order and all queued for their metadata, or by nothing when no
  format takes the file; it disposes of every item of the old list and of no other, passes on
  the plugin's result, keeps the invariants, and leaves the master list and what is playing alone.
\<close>

theorem plm_SetExternalPlaylist_replaces:
  assumes "plm_lists_ok s" and "plm_mem_ok s"
    and "length (snd (format_result rp s url)) < kMaxItems"
  shows "\<exists>t. plm_SetExternalPlaylist rp url s = Some (fst (format_result rp s url), t) \<and>
    plm_lists_ok t \<and> plm_mem_ok t \<and>
    map (\<lambda>p. map_option (\<lambda>it. (it_url it, it_state it)) (plm_heap t p)) (m_externalList t) =
      map (\<lambda>x. Some (fst x, kPlaylistItemState_RetrievingMetaData)) (snd (format_result rp s url)) \<and>
    (\<forall>p \<in> set (m_externalList s). disposed s t p) \<and>
    (\<forall>p. p \<notin> set (m_externalList s) \<and> p \<notin> set (m_externalList t) \<longrightarrow> plm_heap t p = plm_heap s p) \<and>
    m_masterList t = m_masterList s \<and> plm_GetCurrentItem t = plm_GetCurrentItem s"
  by (rule plm_SetExternalPlaylist_ok [OF assms])

text \<open>The playlist of three items, and one file format that reads two items.\<close>

definition format_item :: plm where
  "format_item = spare_item\<lparr>m_playlistFormats := [(''m3u'', 7)], m_externalList := [4]\<rparr>"

definition two_songs :: read_plugin where
  "two_songs f url = (kError_NoErr, [(''x'', None), (''y'', None)])"

lemma format_item_ok: "plm_lists_ok format_item" "plm_mem_ok format_item"
  using spare_item_ok(1,2)
  by (auto simp: format_item_def plm_lists_ok_def plm_mem_ok_def plm_pending_def spare_item_def
    three_items_def plm_new_def new_item_def)

lemma format_item_result:
  "format_result two_songs format_item ''a.M3U'' = (kError_NoErr, [(''x'', None), (''y'', None)])"
  by (simp add: format_result_def extension_of_def c_str_def format_item_def lower_byte_def byte_of_def
    two_songs_def)

theorem plm_SetExternalPlaylist_replaces_witness:
  "\<exists>t. plm_SetExternalPlaylist two_songs ''a.M3U'' format_item = Some (kError_NoErr, t) \<and>
     length (m_externalList t) = 2 \<and> plm_heap t 4 = None \<and> plm_GetCurrentItem t = Some 2"
proof -
  have f: "m_externalList format_item = [4]" "plm_heap format_item 4 = Some (new_item ''d'' None)"
    "plm_GetCurrentItem format_item = Some 2"
    by (simp_all add: format_item_def spare_item_def three_items_def plm_GetCurrentItem_def plm_new_def)
  have "length (snd (format_result two_songs format_item ''a.M3U'')) < kMaxItems"
    by (simp add: format_item_result)
  from plm_SetExternalPlaylist_replaces [OF format_item_ok this] obtain t where
    t: "plm_SetExternalPlaylist two_songs ''a.M3U'' format_item = Some (kError_NoErr, t)"
      "map (\<lambda>p. map_option (\<lambda>it. (it_url it, it_state it)) (plm_heap t p)) (m_externalList t) =
        map (\<lambda>x. Some (fst x, kPlaylistItemState_RetrievingMetaData)) [(''x'', None), (''y'', None :: metadata option)]"
      "disposed format_item t 4" "plm_GetCurrentItem t = Some 2"
    unfolding format_item_result f by (auto simp: f)
  moreover have "length (m_externalList t) = 2"
    using arg_cong [OF t(2), of length] by simp
  moreover have "plm_heap t 4 = None" using t(3) f by (simp add: disposed_def new_item_def)
  ultimately show ?thesis by blast
qed

subsection \<open>\<open>ReadPortablePlaylist\<close>\<close>

lemma mark_retrieving_None: "mark_retrieving h ps = Some h' \<Longrightarrow> h p = None \<Longrightarrow> h' p = None"
proof (induction ps arbitrary: h)
  case (Cons q ps)
  show ?case
  proof (cases "q = NULL")
    case False
    then obtain it where it: "h q = Some it" and m: "mark_retrieving (h(q \<mapsto> retrieve_item it)) ps = Some h'"
      using Cons.prems(1) by (auto split: Option.bind_splits)
    have "(h(q \<mapsto> retrieve_item it)) p = None" using it Cons.prems(2) by auto
    then show ?thesis by (rule Cons.IH [OF m])
  qed (use Cons in simp)
qed simp

lemma plm_InternalSetCurrentIndex_fields:
  assumes "plm_InternalSetCurrentIndex i s = Some t"
  shows "plm_heap t = plm_heap s" "m_externalList t = m_externalList s" "m_activeList t = m_activeList s"
  using assms by (auto simp: plm_InternalSetCurrentIndex_def plm_simps Let_def split: if_splits Option.bind_splits)

lemma plm_AddItems_external:
  assumes "plm_AddItems xs q s = Some (e, ys, t)"
  shows "m_externalList t = (if m_activeList s = ExternalList then m_externalList s @ xs else m_externalList s)"
    and "m_activeList t = m_activeList s" and "plm_heap s p = None \<Longrightarrow> plm_heap t p = None"
proof -
  let ?s1 = "plm_set_active (plm_active s @ xs) s"
  have f1: "m_externalList ?s1 = (if m_activeList s = ExternalList then m_externalList s @ xs else m_externalList s)"
    "m_activeList ?s1 = m_activeList s" "plm_heap ?s1 = plm_heap s"
    by (simp_all add: plm_simps plm_active_def)
  obtain zs s2 where pre: "(if m_playlistKey ?s1 = kPlaylistKey_MasterPlaylist
       then do {
         (items', s2) \<leftarrow> plm_AddItemsToShuffleList xs ?s1;
         s3 \<leftarrow> (if m_current s2 = kInvalidIndex \<and> length (plm_active s2) \<noteq> 0
           then plm_InternalSetCurrentIndex 0 s2 else Some s2);
         Some (items', s3)
       }
       else Some (xs, ?s1)) = Some (zs, s2)"
    using assms by (cases "(if m_playlistKey ?s1 = kPlaylistKey_MasterPlaylist
       then do {
         (items', s2) \<leftarrow> plm_AddItemsToShuffleList xs ?s1;
         s3 \<leftarrow> (if m_current s2 = kInvalidIndex \<and> length (plm_active s2) \<noteq> 0
           then plm_InternalSetCurrentIndex 0 s2 else Some s2);
         Some (items', s3)
       }
       else Some (xs, ?s1))") (auto simp: plm_AddItems_def Let_def)
  then obtain s3 where s3: "(if q then plm_RetrieveMetaData zs s2 else Some s2) = Some s3"
    and t: "t = plm_emit (PlaylistItemsAddedEvent zs) s3"
    using assms unfolding plm_AddItems_def Let_def pre by (auto split: Option.bind_splits)
  have s2: "m_externalList s2 = m_externalList ?s1" "m_activeList s2 = m_activeList ?s1" "plm_heap s2 = plm_heap ?s1"
  proof -
    have "m_externalList s2 = m_externalList ?s1 \<and> m_activeList s2 = m_activeList ?s1 \<and> plm_heap s2 = plm_heap ?s1"
    proof (cases "m_playlistKey ?s1 = kPlaylistKey_MasterPlaylist")
      case True
      with pre obtain u where u: "plm_AddItemsToShuffleList xs ?s1 = Some (zs, u)"
        and i: "(if m_current u = kInvalidIndex \<and> length (plm_active u) \<noteq> 0
           then plm_InternalSetCurrentIndex 0 u else Some u) = Some s2"
        by (auto split: Option.bind_splits)
      have "m_externalList u = m_externalList ?s1" "m_activeList u = m_activeList ?s1" "plm_heap u = plm_heap ?s1"
        using u by (auto simp: plm_AddItemsToShuffleList_def split: Option.bind_splits)
      then show ?thesis using i plm_InternalSetCurrentIndex_fields [of 0 u s2] by (auto split: if_splits)
    qed (use pre in auto)
    then show "m_externalList s2 = m_externalList ?s1" "m_activeList s2 = m_activeList ?s1"
      "plm_heap s2 = plm_heap ?s1" by simp_all
  qed
  have "m_externalList s3 = m_externalList s2" "m_activeList s3 = m_activeList s2"
    "plm_heap s2 p = None \<Longrightarrow> plm_heap s3 p = None"
    using s3 by (auto simp: plm_RetrieveMetaData_def dest: mark_retrieving_None split: if_splits Option.bind_splits)
  then show "m_externalList t = (if m_activeList s = ExternalList then m_externalList s @ xs else m_externalList s)"
    "m_activeList t = m_activeList s" "plm_heap s p = None \<Longrightarrow> plm_heap t p = None"
    using s2 f1 t by (simp_all add: plm_simps)
qed

lemma time_loop_dangling: "p \<in> set ps \<Longrightarrow> h p = None \<Longrightarrow> time_loop h ps n = None"
  by (induction ps arbitrary: n) (auto split: Option.bind_splits)

text \<open>
  \<open>ReadPortablePlaylist\<close> into the manager deletes the external list's items but leaves
  their addresses in the list: after every successful call each item that was not with a
  metadata thread dangles there, and with a secondary list active \<open>Time()\<close> reads freed memory.
\<close>

theorem plm_ReadPortablePlaylist_dangles:
  assumes ok: "plm_lists_ok s" and mem: "plm_mem_ok s"
    and p: "p \<in> set (m_externalList s)" "plm_heap s p = Some it" "it_state it = kPlaylistItemState_Normal"
    and run: "plm_ReadPortablePlaylist dr dev s = Some (e, t)"
  shows "p \<in> set (m_externalList t) \<and> plm_heap t p = None \<and>
    (m_activeList s = ExternalList \<longrightarrow> plm_Time t = None)"
proof -
  obtain h where h: "dispose_all (m_externalList s) s = Some (s\<lparr>plm_heap := h\<rparr>)"
    "plm_mem_ok (s\<lparr>plm_heap := h, m_externalList := []\<rparr>)"
    "\<forall>p \<in> set (m_externalList s). disposed s (s\<lparr>plm_heap := h\<rparr>) p"
    using dispose_external_ok [OF ok mem] by blast
  have hp: "h p = None" using h(3) p by (auto simp: disposed_def)
  obtain result its where dr: "dr dev = (result, its)" by fastforce
  from alloc_items_ok [OF h(2), of its] obtain ps h2 n where
    a: "alloc_items its (s\<lparr>plm_heap := h, m_externalList := []\<rparr>) =
        (ps, (s\<lparr>plm_heap := h, m_externalList := []\<rparr>)\<lparr>plm_heap := h2, plm_next := n\<rparr>)"
      "\<forall>p \<in> set ps. plm_next s \<le> p" "\<forall>p. p \<notin> set ps \<longrightarrow> h2 p = h p" by auto
  have a2: "alloc_items its (s\<lparr>plm_heap := h\<rparr>) = (ps, s\<lparr>plm_heap := h2, plm_next := n\<rparr>)"
    using alloc_items_external [OF a(1)] by simp
  have "p \<notin> set ps" using a(2) plm_mem_okD(2) [OF mem p(2)] by auto
  then have h2p: "h2 p = None" using a(3) hp by simp
  from run obtain e' ys where add: "plm_AddItems ps True (s\<lparr>plm_heap := h2, plm_next := n\<rparr>) = Some (e', ys, t)"
    using h(1) dr a2 by (auto simp: plm_ReadPortablePlaylist_def split: Option.bind_splits)
  note ae = plm_AddItems_external [OF add]
  have pt: "p \<in> set (m_externalList t)" "plm_heap t p = None" using ae(1,3) p(1) h2p by auto
  moreover have "plm_Time t = None" if "m_activeList s = ExternalList"
    using pt that ae(2) by (simp add: plm_Time_def plm_active_def time_loop_dangling)
  ultimately show ?thesis by blast
qed

theorem plm_ReadPortablePlaylist_dangles_witness:
  "\<exists>e t. plm_ReadPortablePlaylist (\<lambda>_. (kError_NoErr, [])) 0 (snd (plm_SetActivePlaylist
      kPlaylistKey_PortablePlaylist format_item)) = Some (e, t) \<and> plm_Time t = None"
proof -
  let ?s = "snd (plm_SetActivePlaylist kPlaylistKey_PortablePlaylist format_item)"
  have s: "?s = format_item\<lparr>m_playlistKey := kPlaylistKey_PortablePlaylist, m_activeList := ExternalList\<rparr>"
    by (simp add: plm_SetActivePlaylist_def)
  have ok: "plm_lists_ok ?s" "plm_mem_ok ?s"
    using format_item_ok unfolding s by (simp_all add: plm_lists_ok_def plm_mem_ok_def plm_pending_def cong: if_cong)
  have p: "4 \<in> set (m_externalList ?s)" "plm_heap ?s 4 = Some (new_item ''d'' None)"
    "it_state (new_item ''d'' None) = kPlaylistItemState_Normal" "m_activeList ?s = ExternalList"
    unfolding s by (simp_all add: format_item_def new_item_def)
  have "\<exists>t. plm_ReadPortablePlaylist (\<lambda>_. (kError_NoErr, [])) 0 ?s = Some (kError_NoErr, t)"
    unfolding s by (simp add: plm_ReadPortablePlaylist_def format_item_def plm_dispose_def dispose_heap_def
      plm_AddItems_def plm_set_active_def plm_active_def plm_RetrieveMetaData_def)
  then obtain t where run: "plm_ReadPortablePlaylist (\<lambda>_. (kError_NoErr, [])) 0 ?s = Some (kError_NoErr, t)" by blast
  from plm_ReadPortablePlaylist_dangles [OF ok p(1-3) run] p(4) run show ?thesis by blast
qed

end
