(* ===== verification/PlmUndo.thy ===== *)
theory PlmUndo
  imports PlmLists
begin

section \<open>The undo items of the playlist\<close>

text \<open>
  The \<open>Undo\<close> and \<open>Redo\<close> of \<open>UndoAdd\<close>, \<open>UndoAddMulti\<close>, \<open>UndoRemove\<close> and \<open>UndoMove\<close>, and the
  manager's \<open>CanUndo\<close>, \<open>CanRedo\<close>, \<open>Undo\<close> and \<open>Redo\<close>, which run them through the undo manager.
  The items are complete, but every call that would record one is commented out in the source,
  so that the manager's \<open>m_undo\<close> stays empty.
\<close>

fun exec_undo :: "read_plugin \<Rightarrow> plm_undo \<Rightarrow> plm \<Rightarrow> plm option" where
  "exec_undo rp (UndoAdd url index) s = map_option snd (plm_RemoveItem index s)"
| "exec_undo rp (UndoAddMulti urls index) s =
     map_option snd (plm_RemoveItems_range index (u32 (length urls)) s)"
| "exec_undo rp (UndoRemove url index) s = map_option snd (plm_AddItem_url_at rp url index s)"
| "exec_undo rp (UndoMove newIndex oldIndex) s = map_option snd (plm_MoveItem newIndex oldIndex s)"

fun exec_redo :: "read_plugin \<Rightarrow> plm_undo \<Rightarrow> plm \<Rightarrow> plm option" where
  "exec_redo rp (UndoAdd url index) s = map_option snd (plm_AddItem_url_at rp url index s)"
| "exec_redo rp (UndoAddMulti urls index) s = map_option snd (plm_AddItems_urls_at rp urls index s)"
| "exec_redo rp (UndoRemove url index) s = map_option snd (plm_RemoveItem index s)"
| "exec_redo rp (UndoMove newIndex oldIndex) s = map_option snd (plm_MoveItem oldIndex newIndex s)"

definition plm_CanUndo :: "plm \<Rightarrow> bool" where
  "plm_CanUndo s = um_CanUndo (m_undo s)"

definition plm_CanRedo :: "plm \<Rightarrow> bool" where
  "plm_CanRedo s = um_CanRedo (m_undo s)"

definition plm_Undo :: "read_plugin \<Rightarrow> plm \<Rightarrow> plm option" where
  "plm_Undo rp s = do { (m, t) \<leftarrow> um_Undo (exec_undo rp) (m_undo s) s; Some (t\<lparr>m_undo := m\<rparr>) }"

definition plm_Redo :: "read_plugin \<Rightarrow> plm \<Rightarrow> plm option" where
  "plm_Redo rp s = do { (m, t) \<leftarrow> um_Redo (exec_redo rp) (m_undo s) s; Some (t\<lparr>m_undo := m\<rparr>) }"

subsection \<open>What no operation touches\<close>

text \<open>The registries of the plugins and the undo manager.\<close>

definition plm_cfg ::
  "plm \<Rightarrow> (string \<times> nat) list \<times> (MetaDataOrder \<times> nat) list \<times> nat list \<times> plm_undo undo_manager" where
  "plm_cfg s = (m_playlistFormats s, m_metadataFormats s, m_portablePlayers s, m_undo s)"

named_theorems cfg "the helpers keep the registries and the undo manager"

lemma plm_cfg_upd [simp]:
  "plm_cfg (s\<lparr>m_current := i\<rparr>) = plm_cfg s" "plm_cfg (s\<lparr>plm_heap := h\<rparr>) = plm_cfg s"
  "plm_cfg (s\<lparr>m_shuffleList := xs\<rparr>) = plm_cfg s" "plm_cfg (s\<lparr>plm_rand := rs\<rparr>) = plm_cfg s"
  "plm_cfg (s\<lparr>m_masterList := xs\<rparr>) = plm_cfg s" "plm_cfg (s\<lparr>m_externalList := xs\<rparr>) = plm_cfg s"
  "plm_cfg (s\<lparr>plm_threads := ths\<rparr>) = plm_cfg s" "plm_cfg (s\<lparr>plm_next := n\<rparr>) = plm_cfg s"
  "plm_cfg (s\<lparr>m_shuffle := b\<rparr>) = plm_cfg s" "plm_cfg (s\<lparr>m_repeatMode := r\<rparr>) = plm_cfg s"
  "plm_cfg (s\<lparr>m_sortKey := k\<rparr>) = plm_cfg s" "plm_cfg (s\<lparr>m_sortType := y\<rparr>) = plm_cfg s"
  "plm_cfg (s\<lparr>m_activeList := a\<rparr>) = plm_cfg s" "plm_cfg (s\<lparr>m_playlistKey := key\<rparr>) = plm_cfg s"
  "plm_cfg (s\<lparr>m_externalPlaylist := url\<rparr>) = plm_cfg s" "plm_cfg (s\<lparr>m_portableDevice := d\<rparr>) = plm_cfg s"
  "plm_cfg (plm_emit e s) = plm_cfg s" "plm_cfg (plm_set_active xs s) = plm_cfg s"
  "plm_cfg (plm_AddItemToShuffleList p s) = plm_cfg s" "plm_cfg (plm_set_thread j th s) = plm_cfg s"
  by (simp_all add: plm_cfg_def plm_emit_def plm_set_active_def plm_AddItemToShuffleList_def
    plm_set_thread_def split: list_id.splits)

lemma cfg_InternalSetCurrentIndex [cfg]: "plm_InternalSetCurrentIndex i s = Some t \<Longrightarrow> plm_cfg t = plm_cfg s"
  by (auto simp: plm_InternalSetCurrentIndex_def Let_def split: if_splits Option.bind_splits)

lemma cfg_SetCurrentIndex [cfg]: "plm_SetCurrentIndex i s = Some (e, t) \<Longrightarrow> plm_cfg t = plm_cfg s"
  by (auto simp: plm_SetCurrentIndex_def Let_def dest: cfg split: if_splits Option.bind_splits)

lemma cfg_after_remove [cfg]: "plm_after_remove p s = Some t \<Longrightarrow> plm_cfg t = plm_cfg s"
  by (auto simp: plm_after_remove_def Let_def dest: cfg split: if_splits Option.bind_splits)

lemma cfg_erase_shuffle [cfg]: "plm_erase_shuffle p s = Some t \<Longrightarrow> plm_cfg t = plm_cfg s"
  by (auto simp: plm_erase_shuffle_def dest: cfg split: if_splits Option.bind_splits)

lemma cfg_dispose [cfg]: "plm_dispose p s = Some t \<Longrightarrow> plm_cfg t = plm_cfg s"
  by (auto simp: plm_dispose_def)

lemma cfg_fix_current [cfg]: "plm_fix_current i p s = Some t \<Longrightarrow> plm_cfg t = plm_cfg s"
  by (auto simp: plm_fix_current_def dest: cfg split: if_splits Option.bind_splits)

lemma cfg_RetrieveMetaData [cfg]:
  "plm_RetrieveMetaData ps s = Some t \<Longrightarrow> plm_cfg t = plm_cfg s"
  "plm_RetrieveMetaData_item p s = Some t \<Longrightarrow> plm_cfg t = plm_cfg s"
  by (auto simp: plm_RetrieveMetaData_def plm_RetrieveMetaData_item_def split: if_splits Option.bind_splits)

lemma cfg_AddItemsToShuffleList [cfg]:
  "plm_AddItemsToShuffleList xs s = Some (ys, t) \<Longrightarrow> plm_cfg t = plm_cfg s"
  by (auto simp: plm_AddItemsToShuffleList_def split: Option.bind_splits)

lemma cfg_AddItem:
  "plm_AddItem p q s = Some (e, t) \<Longrightarrow> plm_cfg t = plm_cfg s"
  "plm_AddItem_at p i q s = Some (e, t) \<Longrightarrow> plm_cfg t = plm_cfg s"
  by (auto simp: plm_AddItem_def plm_AddItem_at_def Let_def dest!: cfg split: if_splits Option.bind_splits)

lemma cfg_RemoveItem: "plm_RemoveItem i s = Some (e, t) \<Longrightarrow> plm_cfg t = plm_cfg s"
  by (auto simp: plm_RemoveItem_def Let_def dest!: cfg split: if_splits Option.bind_splits)

lemma cfg_MoveItem: "plm_MoveItem i j s = Some (e, t) \<Longrightarrow> plm_cfg t = plm_cfg s"
  by (auto simp: plm_MoveItem_def Let_def dest!: cfg split: if_splits Option.bind_splits)

subsection \<open>Moves\<close>

lemma moved_moved:
  assumes "old < length xs" and "new < length xs"
  shows "moved new old (moved old new xs) = xs"
proof (rule nth_equalityI)
  let ?ys = "moved old new xs"
  have l: "length ?ys = length xs" by (rule length_moved [OF assms(1)])
  show "length (moved new old ?ys) = length xs" using length_moved [of new ?ys old] l assms by simp
  fix k
  assume "k < length (moved new old ?ys)"
  then have k: "k < length xs" using length_moved [of new ?ys old] l assms by simp
  have "moved new old ?ys ! k =
    (if k = old then ?ys ! new
     else if new \<le> k \<and> k < old then ?ys ! Suc k
     else if old < k \<and> k \<le> new then ?ys ! (k - 1)
     else ?ys ! k)"
    using nth_moved [of new ?ys old k] l assms k by simp
  moreover have "?ys ! new = xs ! old" using nth_moved [OF assms assms(2)] by simp
  moreover have "?ys ! Suc k = xs ! k" if "new \<le> k" "k < old"
    using nth_moved [OF assms, of "Suc k"] that assms by simp
  moreover have "?ys ! (k - 1) = xs ! k" if "old < k" "k \<le> new"
  proof -
    have "k - 1 < length xs" "k - 1 \<noteq> new" "old \<le> k - 1" "k - 1 < new" "Suc (k - 1) = k" using that k by linarith+
    then show ?thesis using nth_moved [OF assms, of "k - 1"] by simp
  qed
  moreover have "?ys ! k = xs ! k" if "k \<noteq> old" "\<not> (new \<le> k \<and> k < old)" "\<not> (old < k \<and> k \<le> new)"
    using nth_moved [OF assms k] that by auto
  ultimately show "moved new old ?ys ! k = xs ! k" by auto
qed

subsection \<open>Re-adding an item by its URL\<close>

lemma plm_ReadPlaylist_unsupported:
  assumes "fst (format_result rp s url) = kError_FormatNotSupported" and
    "Option.bind (extension_of url) (find_format (m_playlistFormats s)) = None"
  shows "plm_ReadPlaylist rp url s = Some (kError_FormatNotSupported, s)"
  using assms(2) by (auto simp: plm_ReadPlaylist_def split: option.splits)

lemma plm_fresh_alloc:
  assumes mem: "plm_mem_ok s"
  shows "plm_fresh (snd (plm_alloc (new_item url md) s)) [plm_next s]"
  using plm_mem_ok_alloc(2) [OF mem] plm_mem_okD(3,4) [OF mem, of "plm_next s"]
  by (auto simp: plm_fresh_def plm_alloc_def new_item_def)

lemma plm_alloc_fields:
  "fst (plm_alloc it s) = plm_next s" "plm_lists_ok (snd (plm_alloc it s)) = plm_lists_ok s"
  "plm_active (snd (plm_alloc it s)) = plm_active s"
  "m_masterList (snd (plm_alloc it s)) = m_masterList s"
  "plm_GetCurrentItem (snd (plm_alloc it s)) = plm_GetCurrentItem s"
  by (simp_all add: plm_alloc_def plm_active_def plm_GetCurrentItem_def cong: list_id.case_cong)

lemma plm_AddItem_url_at_ok:
  assumes ok: "plm_lists_ok s" and mem: "plm_mem_ok s"
    and fmt: "Option.bind (extension_of url) (find_format (m_playlistFormats s)) = None"
    and len: "length (plm_active s) + 1 < kMaxItems" and i: "i \<le> length (plm_active s)"
  shows "\<exists>t. plm_AddItem_url_at rp url i s = Some (kError_NoErr, t) \<and> plm_lists_ok t \<and> plm_mem_ok t \<and>
    plm_active t = take i (plm_active s) @ [plm_next s] @ drop i (plm_active s) \<and>
    (m_masterList s \<noteq> [] \<longrightarrow> plm_GetCurrentItem t = plm_GetCurrentItem s)"
proof -
  let ?s = "snd (plm_alloc (new_item (c_str url) None) s)"
  have "plm_ReadPlaylist rp url s = Some (kError_FormatNotSupported, s)"
    using fmt by (auto simp: plm_ReadPlaylist_def split: option.splits)
  then have run: "plm_AddItem_url_at rp url i s = plm_AddItem_at (plm_next s) i True ?s"
    by (simp add: plm_AddItem_url_at_def plm_alloc_def)
  have "plm_lists_ok ?s" "length (plm_active ?s) + 1 < kMaxItems" "i \<le> length (plm_active ?s)"
    using ok len i by (simp_all add: plm_alloc_fields)
  from plm_AddItem_at_ok [OF this(1) plm_mem_ok_alloc(1) [OF mem] plm_fresh_alloc [OF mem] this(2,3), of True]
  obtain t where "plm_AddItem_at (plm_next s) i True ?s = Some (kError_NoErr, t)" "plm_lists_ok t" "plm_mem_ok t"
    "plm_active t = take i (plm_active ?s) @ [plm_next s] @ drop i (plm_active ?s)"
    "m_masterList ?s \<noteq> [] \<longrightarrow> plm_GetCurrentItem t = plm_GetCurrentItem ?s" by blast
  then show ?thesis unfolding run plm_alloc_fields by blast
qed

lemma erase_insert_update:
  assumes "i < length xs"
  shows "take i (take i xs @ drop (Suc i) xs) @ [p] @ drop i (take i xs @ drop (Suc i) xs) = xs[i := p]"
proof -
  have "length (take i xs) = i" using assms by simp
  then have "take i (take i xs @ drop (Suc i) xs) = take i xs"
    "drop i (take i xs @ drop (Suc i) xs) = drop (Suc i) xs" by simp_all
  then show ?thesis using assms by (simp only: upd_conv_take_nth_drop append_Cons append_Nil)
qed

text \<open>
  The undo items do what they are for. Undoing a move by its item restores the active
  list exactly, and redoing it restores the moved list; undoing a removal by its item puts a
  new item for the removed URL back at its index, all other items where they were, when no
  playlist format claims the URL's extension. Both keep the invariants.
\<close>

theorem plm_undo_items_restore:
  assumes ok: "plm_lists_ok s" and mem: "plm_mem_ok s"
    and o: "old < length (plm_active s)" and n: "new < length (plm_active s)"
    and last: "m_activeList s = MasterList \<and> m_shuffle s \<longrightarrow> 1 < length (m_masterList s)"
    and fmt: "Option.bind (extension_of url) (find_format (m_playlistFormats s)) = None"
  shows "(\<exists>t u v. plm_MoveItem old new s = Some (kError_NoErr, t) \<and>
      exec_undo rp (UndoMove new old) t = Some u \<and> plm_active u = plm_active s \<and>
      exec_redo rp (UndoMove new old) u = Some v \<and> plm_active v = plm_active t \<and>
      plm_lists_ok v \<and> plm_mem_ok v) \<and>
    (\<exists>t u p. plm_RemoveItem old s = Some (kError_NoErr, t) \<and>
      exec_undo rp (UndoRemove url old) t = Some u \<and> plm_active u = (plm_active s)[old := p] \<and>
      p \<notin> set (plm_active t) \<and> plm_lists_ok u \<and> plm_mem_ok u)"
proof
  have l: "length (moved old new (plm_active s)) = length (plm_active s)" by (rule length_moved [OF o])
  obtain t where t: "plm_MoveItem old new s = Some (kError_NoErr, t)" "plm_lists_ok t" "plm_mem_ok t"
    "plm_active t = moved old new (plm_active s)" using plm_MoveItem_ok [OF ok mem o n] by blast
  obtain u where u: "plm_MoveItem new old t = Some (kError_NoErr, u)" "plm_lists_ok u" "plm_mem_ok u"
    "plm_active u = moved new old (plm_active t)"
    using plm_MoveItem_ok [OF t(2,3), of new old] o n l t(4) by auto
  have us: "plm_active u = plm_active s" unfolding u(4) t(4) by (rule moved_moved [OF o n])
  obtain v where "plm_MoveItem old new u = Some (kError_NoErr, v)" "plm_lists_ok v" "plm_mem_ok v"
    "plm_active v = moved old new (plm_active u)"
    using plm_MoveItem_ok [OF u(2,3), of old new] o n us by auto
  then show "\<exists>t u v. plm_MoveItem old new s = Some (kError_NoErr, t) \<and>
      exec_undo rp (UndoMove new old) t = Some u \<and> plm_active u = plm_active s \<and>
      exec_redo rp (UndoMove new old) u = Some v \<and> plm_active v = plm_active t \<and>
      plm_lists_ok v \<and> plm_mem_ok v"
    using t(1,4) u(1) us by (intro exI [of _ t] exI [of _ u] exI [of _ v]) simp
next
  obtain cur where cur: "plm_GetCurrentItem s = Some cur" using plm_GetCurrentItem_ok [OF ok] by blast
  obtain t where t: "plm_RemoveItem old s = Some (kError_NoErr, t)" "plm_lists_ok t" "plm_mem_ok t"
    "plm_active t = take old (plm_active s) @ drop (Suc old) (plm_active s)"
    using plm_RemoveItem_ok [OF ok mem o _ cur] last by blast
  have lt: "length (plm_active t) = length (plm_active s) - 1" unfolding t(4) by (rule length_erase [OF o])
  have f: "m_playlistFormats t = m_playlistFormats s"
    using cfg_RemoveItem [OF t(1)] by (simp add: plm_cfg_def)
  have len: "length (plm_active t) + 1 < kMaxItems" "old \<le> length (plm_active t)"
    using lt o plm_active_ok(3) [OF ok] by linarith+
  have "Option.bind (extension_of url) (find_format (m_playlistFormats t)) = None" unfolding f by (rule fmt)
  from plm_AddItem_url_at_ok [OF t(2,3) this len] obtain u where
    u: "plm_AddItem_url_at rp url old t = Some (kError_NoErr, u)" "plm_lists_ok u" "plm_mem_ok u"
      "plm_active u = take old (plm_active t) @ [plm_next t] @ drop old (plm_active t)" by blast
  have "plm_active u = (plm_active s)[old := plm_next t]"
    unfolding u(4) t(4) by (rule erase_insert_update [OF o])
  moreover have "plm_next t \<notin> set (plm_active t)"
    using plm_active_heap [OF t(2,3)] plm_mem_ok_alloc(2) [OF t(3)] by blast
  ultimately show "\<exists>t u p. plm_RemoveItem old s = Some (kError_NoErr, t) \<and>
      exec_undo rp (UndoRemove url old) t = Some u \<and> plm_active u = (plm_active s)[old := p] \<and>
      p \<notin> set (plm_active t) \<and> plm_lists_ok u \<and> plm_mem_ok u"
    using t(1) u(1-3) by (intro exI [of _ t] exI [of _ u] exI [of _ "plm_next t"]) simp
qed

theorem plm_undo_items_restore_witness:
  "\<exists>t u. plm_MoveItem 0 2 spare_item = Some (kError_NoErr, t) \<and>
     exec_undo two_songs (UndoMove 2 0) t = Some u \<and> plm_active u = [1, 2, 3]"
proof -
  have "Option.bind (extension_of ''a'') (find_format (m_playlistFormats spare_item)) = None"
    by (simp add: extension_of_def c_str_def)
  from plm_undo_items_restore [OF spare_item_ok(1,2) _ _ _ this, of 0 2 two_songs]
  show ?thesis by (auto simp: spare_item_ok(4))
qed

end
