(* ===== verification/PlmSafety.thy ===== *)
theory PlmSafety
  imports PlmUndo
begin

section \<open>The playlist manager as a whole\<close>

text \<open>
  The operations of the manager and the steps of its metadata threads as one transition system.
  \<open>plm_can\<close> states what the caller of an operation has to see to (items that are live and not
  in a list yet, positions that are in range, and the calls found to be undefined), and how
  many values of \<open>rand()\<close> a shuffle may take. The invariants hold in every reachable state, and no
  permitted operation or thread step meets a failing assertion or a freed item.
\<close>

record plm_env =
  env_db :: "string \<Rightarrow> metadata option"
  env_rd :: "nat \<Rightarrow> string \<Rightarrow> metadata \<Rightarrow> metadata"
  env_rp :: read_plugin

datatype plm_op =
    OpNewItem string "metadata option"
  | OpAddItem ptr bool
  | OpAddItemAt ptr nat bool
  | OpAddItems "ptr list" bool
  | OpAddItemsAt "ptr list" nat bool
  | OpRemoveItem nat
  | OpRemoveRange nat nat
  | OpRemoveItems "ptr list"
  | OpRemoveAll
  | OpMoveItem nat nat
  | OpMoveItems "ptr list" nat
  | OpSwapItems nat nat
  | OpSort sort_key_id sort_type
  | OpSetCurrentIndex nat
  | OpGotoNext bool
  | OpGotoPrevious bool
  | OpSetShuffle bool
  | OpSetRepeat repeat_mode
  | OpSetActive playlist_key
  | OpSetExternal string
  | OpUpdateTrack item bool
  | OpThread nat

fun plm_exec :: "plm_env \<Rightarrow> plm_op \<Rightarrow> plm \<Rightarrow> plm option" where
  "plm_exec env (OpNewItem url md) s = Some (snd (plm_alloc (new_item url md) s))"
| "plm_exec env (OpAddItem p q) s = map_option snd (plm_AddItem p q s)"
| "plm_exec env (OpAddItemAt p i q) s = map_option snd (plm_AddItem_at p i q s)"
| "plm_exec env (OpAddItems ps q) s = map_option (snd \<circ> snd) (plm_AddItems ps q s)"
| "plm_exec env (OpAddItemsAt ps i q) s = map_option (snd \<circ> snd) (plm_AddItems_at ps i q s)"
| "plm_exec env (OpRemoveItem i) s = map_option snd (plm_RemoveItem i s)"
| "plm_exec env (OpRemoveRange i n) s = map_option snd (plm_RemoveItems_range i n s)"
| "plm_exec env (OpRemoveItems ps) s = map_option snd (plm_RemoveItems ps s)"
| "plm_exec env OpRemoveAll s = map_option snd (plm_RemoveAll s)"
| "plm_exec env (OpMoveItem i j) s = map_option snd (plm_MoveItem i j s)"
| "plm_exec env (OpMoveItems ps i) s = map_option snd (plm_MoveItems ps i s)"
| "plm_exec env (OpSwapItems i j) s = map_option snd (plm_SwapItems i j s)"
| "plm_exec env (OpSort key type) s = map_option snd (plm_Sort key type s)"
| "plm_exec env (OpSetCurrentIndex i) s = map_option snd (plm_SetCurrentIndex i s)"
| "plm_exec env (OpGotoNext b) s = map_option snd (plm_GotoNextItem b s)"
| "plm_exec env (OpGotoPrevious b) s = map_option snd (plm_GotoPreviousItem b s)"
| "plm_exec env (OpSetShuffle b) s = map_option snd (plm_SetShuffleMode b s)"
| "plm_exec env (OpSetRepeat m) s = Some (snd (plm_SetRepeatMode m s))"
| "plm_exec env (OpSetActive key) s = Some (snd (plm_SetActivePlaylist key s))"
| "plm_exec env (OpSetExternal url) s = map_option snd (plm_SetExternalPlaylist (env_rp env) url s)"
| "plm_exec env (OpUpdateTrack it w) s = map_option (snd \<circ> snd) (plm_UpdateTrackMetaData it w s)"
| "plm_exec env (OpThread k) s = plm_thread_step (env_db env) (env_rd env) k s"

fun plm_can :: "plm_env \<Rightarrow> plm \<Rightarrow> plm_op \<Rightarrow> bool" where
  "plm_can env s (OpNewItem url md) = True"
| "plm_can env s (OpAddItem p q) = (plm_fresh s [p] \<and> length (plm_active s) + 1 < kMaxItems)"
| "plm_can env s (OpAddItemAt p i q) =
     (plm_fresh s [p] \<and> length (plm_active s) + 1 < kMaxItems \<and> i \<le> length (plm_active s))"
| "plm_can env s (OpAddItems ps q) = (plm_fresh s ps \<and> ps \<noteq> [] \<and>
     length (plm_active s) + length ps < kMaxItems \<and> ShuffleIt ps (plm_rand s) \<noteq> None)"
| "plm_can env s (OpAddItemsAt ps i q) = (plm_fresh s ps \<and> ps \<noteq> [] \<and>
     length (plm_active s) + length ps < kMaxItems \<and> ShuffleIt ps (plm_rand s) \<noteq> None \<and>
     i \<le> length (plm_active s))"
| "plm_can env s (OpRemoveItem i) = (i < length (plm_active s) \<and>
     (m_activeList s = MasterList \<and> m_shuffle s \<longrightarrow> 1 < length (m_masterList s)))"
| "plm_can env s (OpRemoveRange i n) = (i < length (plm_active s) \<and> i + n \<le> length (plm_active s) \<and>
     (m_activeList s = MasterList \<and> m_shuffle s \<longrightarrow> n < length (m_masterList s)))"
| "plm_can env s (OpRemoveItems ps) = (distinct ps \<and> set ps \<subseteq> set (plm_active s) \<and> plm_active s \<noteq> [] \<and>
     (m_activeList s = MasterList \<and> m_shuffle s \<longrightarrow> \<not> set (m_masterList s) \<subseteq> set ps))"
| "plm_can env s OpRemoveAll = True"
| "plm_can env s (OpMoveItem i j) = (i < length (plm_active s) \<and> j < length (plm_active s))"
| "plm_can env s (OpMoveItems ps i) = (distinct ps \<and> set ps \<subseteq> set (plm_active s) \<and> plm_active s \<noteq> [])"
| "plm_can env s (OpSwapItems i j) = (i < length (plm_active s) \<and> j < length (plm_active s))"
| "plm_can env s (OpSort key type) =
     (if key = kPlaylistSortKey_Random then ShuffleIt (plm_active s) (plm_rand s) \<noteq> None
      else type = kPlaylistSortType_Ascending \<or>
        distinct (map (\<lambda>p. sort_value key (item_at (plm_heap s) p)) (plm_active s)))"
| "plm_can env s (OpSetCurrentIndex i) = (m_activeList s = MasterList \<and> i < length (m_masterList s))"
| "plm_can env s (OpGotoNext b) = (m_shuffle s \<longrightarrow> plm_ShuffleIt s \<noteq> None)"
| "plm_can env s (OpGotoPrevious b) = (m_shuffle s \<longrightarrow> plm_ShuffleIt s \<noteq> None)"
| "plm_can env s (OpSetShuffle b) = (m_activeList s = MasterList \<and> (b \<longrightarrow> plm_ShuffleIt s \<noteq> None))"
| "plm_can env s (OpSetRepeat m) = True"
| "plm_can env s (OpSetActive key) = True"
| "plm_can env s (OpSetExternal url) = (length (snd (format_result (env_rp env) s url)) < kMaxItems)"
| "plm_can env s (OpUpdateTrack it w) = True"
| "plm_can env s (OpThread k) = (k < length (plm_threads s))"

inductive plm_step :: "plm_env \<Rightarrow> plm \<Rightarrow> plm_op \<Rightarrow> plm \<Rightarrow> bool" for env where
  step: "plm_can env s op \<Longrightarrow> plm_exec env op s = Some t \<Longrightarrow> plm_step env s op t"

inductive plm_reach :: "plm_env \<Rightarrow> plm \<Rightarrow> plm \<Rightarrow> bool" for env s where
  init: "plm_reach env s s"
| next_step: "plm_reach env s t \<Longrightarrow> plm_step env t op u \<Longrightarrow> plm_reach env s u"

inductive_cases plm_stepE: "plm_step env s op t"

definition plm_inv :: "plm \<Rightarrow> bool" where
  "plm_inv s \<longleftrightarrow> plm_lists_ok s \<and> plm_mem_ok s"

lemma plm_invI: "plm_lists_ok s \<Longrightarrow> plm_mem_ok s \<Longrightarrow> plm_inv s"
  by (simp add: plm_inv_def)

subsection \<open>The operations that change positions and modes\<close>

lemma plm_ShuffleIt_fields:
  assumes "plm_ShuffleIt s = Some t"
  shows "plm_heap t = plm_heap s" "plm_next t = plm_next s" "m_masterList t = m_masterList s"
    "m_externalList t = m_externalList s" "plm_threads t = plm_threads s"
  using assms by (auto simp: plm_ShuffleIt_def split: Option.bind_splits)

lemma plm_InternalSetCurrentIndex_mem:
  assumes "plm_InternalSetCurrentIndex i s = Some t"
  shows "plm_mem_ok t = plm_mem_ok s"
  using assms by (auto simp: plm_InternalSetCurrentIndex_def Let_def split: if_splits Option.bind_splits)

lemma plm_ShuffleIt_mem:
  assumes "plm_ShuffleIt s = Some t"
  shows "plm_mem_ok t = plm_mem_ok s"
proof
  note f = plm_ShuffleIt_fields [OF assms]
  show "plm_mem_ok t \<Longrightarrow> plm_mem_ok s" by (erule plm_mem_okI_same) (simp_all add: f)
  show "plm_mem_ok s \<Longrightarrow> plm_mem_ok t" by (erule plm_mem_okI_same) (simp_all add: f)
qed

lemma plm_Internal_total:
  "plm_lists_ok s \<Longrightarrow> i < length (m_masterList s) \<Longrightarrow> \<exists>t. plm_InternalSetCurrentIndex i s = Some t"
  by (simp add: plm_InternalSetCurrentIndex_ok)

lemma plm_GotoNextItem_total:
  assumes ok: "plm_lists_ok s" and mem: "plm_mem_ok s" and draws: "m_shuffle s \<longrightarrow> plm_ShuffleIt s \<noteq> None"
  shows "\<exists>e t. plm_GotoNextItem b s = Some (e, t) \<and> plm_mem_ok t"
proof (cases "m_masterList s = []")
  case True
  then show ?thesis using mem by (simp add: plm_GotoNextItem_def)
next
  case False
  let ?n = "length (m_masterList s)"
  have i: "0 < ?n" "m_current s < ?n" using False plm_lists_okD(12) [OF ok] by simp_all
  have u: "u32 (m_current s + 1) = Suc (m_current s)" using i plm_lists_okD(6) [OF ok] by simp
  let ?r = "if m_repeatMode s \<noteq> kPlaylistMode_RepeatOne \<or> b
      then if Suc (m_current s) \<ge> ?n \<and> (m_repeatMode s = kPlaylistMode_RepeatAll \<or> b)
           then (if m_shuffle s then do { s1 \<leftarrow> plm_ShuffleIt s; Some (0, s1) } else Some (0, s))
           else if Suc (m_current s) \<ge> ?n then Some (m_current s, s)
           else Some (Suc (m_current s), s)
      else Some (m_current s, s)"
  have run: "plm_GotoNextItem b s = do { (index, s1) \<leftarrow> ?r;
      s2 \<leftarrow> plm_InternalSetCurrentIndex index s1; Some (kError_NoErr, s2) }"
    unfolding plm_GotoNextItem_def Let_def plm_count [OF ok] u using i(1) by simp
  have "\<exists>j s1. ?r = Some (j, s1) \<and> j < length (m_masterList s1) \<and> plm_lists_ok s1 \<and> plm_mem_ok s1"
  proof (cases "m_shuffle s")
    case True
    then obtain s1 where "plm_ShuffleIt s = Some s1" using draws by auto
    then show ?thesis
      using ok mem i plm_ShuffleIt_ok [OF ok] plm_ShuffleIt_mem [of s s1] plm_ShuffleIt_fields [of s s1] by auto
  qed (use ok mem i in auto)
  then obtain j s1 where r: "?r = Some (j, s1)" "j < length (m_masterList s1)" "plm_lists_ok s1" "plm_mem_ok s1"
    by blast
  obtain t where "plm_InternalSetCurrentIndex j s1 = Some t" using plm_Internal_total [OF r(3,2)] by blast
  then show ?thesis unfolding run r(1) using r(4) plm_InternalSetCurrentIndex_mem by auto
qed

lemma plm_GotoPreviousItem_total:
  assumes ok: "plm_lists_ok s" and mem: "plm_mem_ok s" and draws: "m_shuffle s \<longrightarrow> plm_ShuffleIt s \<noteq> None"
  shows "\<exists>e t. plm_GotoPreviousItem b s = Some (e, t) \<and> plm_mem_ok t"
proof (cases "m_masterList s = []")
  case True
  then show ?thesis using mem by (simp add: plm_GotoPreviousItem_def)
next
  case False
  let ?n = "length (m_masterList s)"
  have i: "0 < ?n" "m_current s < ?n" "m_current s - 1 < ?n" "?n - 1 < ?n"
    using False plm_lists_okD(12) [OF ok] by auto
  let ?r = "if m_repeatMode s \<noteq> kPlaylistMode_RepeatOne \<or> b
       then if m_current s = 0 \<and> (m_repeatMode s = kPlaylistMode_RepeatAll \<or> b)
            then (if m_shuffle s then do { s1 \<leftarrow> plm_ShuffleIt s; Some (?n - 1, s1) } else Some (?n - 1, s))
            else if m_current s \<noteq> 0 then Some (m_current s - 1, s)
            else Some (m_current s, s)
       else Some (m_current s, s)"
  have run: "plm_GotoPreviousItem b s = do { (index, s1) \<leftarrow> ?r;
      s2 \<leftarrow> plm_InternalSetCurrentIndex index s1; Some (kError_NoErr, s2) }"
    unfolding plm_GotoPreviousItem_def Let_def plm_count [OF ok] using i(1) by simp
  have "\<exists>j s1. ?r = Some (j, s1) \<and> j < length (m_masterList s1) \<and> plm_lists_ok s1 \<and> plm_mem_ok s1"
  proof (cases "m_shuffle s")
    case True
    then obtain s1 where "plm_ShuffleIt s = Some s1" using draws by auto
    then show ?thesis
      using ok mem i plm_ShuffleIt_ok [OF ok] plm_ShuffleIt_mem [of s s1] plm_ShuffleIt_fields [of s s1] by auto
  qed (use ok mem i in auto)
  then obtain j s1 where r: "?r = Some (j, s1)" "j < length (m_masterList s1)" "plm_lists_ok s1" "plm_mem_ok s1"
    by blast
  obtain t where "plm_InternalSetCurrentIndex j s1 = Some t" using plm_Internal_total [OF r(3,2)] by blast
  then show ?thesis unfolding run r(1) using r(4) plm_InternalSetCurrentIndex_mem by auto
qed

lemma plm_SetShuffleMode_total:
  assumes ok: "plm_lists_ok s" and mem: "plm_mem_ok s" and draws: "b \<longrightarrow> plm_ShuffleIt s \<noteq> None"
  shows "\<exists>e t. plm_SetShuffleMode b s = Some (e, t) \<and> plm_mem_ok t"
proof -
  obtain cur where cur: "plm_GetCurrentItem s = Some cur" using plm_GetCurrentItem_ok [OF ok] by blast
  have sh: "plm_ShuffleIt (s\<lparr>m_shuffle := b\<rparr>) = map_option (\<lambda>t. t\<lparr>m_shuffle := b\<rparr>) (plm_ShuffleIt s)"
    by (cases "ShuffleIt (m_shuffleList s) (plm_rand s)") (auto simp: plm_ShuffleIt_def)
  have m: "plm_mem_ok (t\<lparr>m_shuffle := b\<rparr>) = plm_mem_ok t" for t :: plm
    by (simp add: plm_mem_ok_def plm_pending_def)
  show ?thesis
  proof (cases b)
    case True
    then obtain t where t: "plm_ShuffleIt s = Some t" using draws by auto
    have "plm_mem_ok (t\<lparr>m_shuffle := b\<rparr>)" using mem plm_ShuffleIt_mem [OF t] m by simp
    then show ?thesis using True cur t sh by (cases "cur = NULL") (simp_all add: plm_SetShuffleMode_def Let_def)
  next
    case False
    then show ?thesis using cur mem m by (cases "cur = NULL") (simp_all add: plm_SetShuffleMode_def Let_def)
  qed
qed

subsection \<open>Every permitted operation is defined and keeps the invariant\<close>

lemma plm_SetActivePlaylist_inv:
  assumes "plm_inv s"
  shows "plm_inv (snd (plm_SetActivePlaylist key s))"
proof -
  have "plm_mem_ok (s\<lparr>m_playlistKey := k, m_activeList := a\<rparr>)" for k a
    using assms by (simp add: plm_inv_def plm_mem_ok_def plm_pending_def)
  then show ?thesis
    using assms by (cases key) (auto simp: plm_SetActivePlaylist_def plm_inv_def plm_lists_ok_def)
qed

lemma plm_SetRepeatMode_inv: "plm_inv s \<Longrightarrow> plm_inv (snd (plm_SetRepeatMode m s))"
  by (simp add: plm_SetRepeatMode_def plm_inv_def plm_lists_ok_def plm_mem_ok_def plm_pending_def plm_simps Let_def
    cong: if_cong)

lemma plm_SetCurrentIndex_inv:
  assumes "plm_inv s" and "m_activeList s = MasterList" and "i < length (m_masterList s)"
  shows "\<exists>t. plm_SetCurrentIndex i s = Some (kError_NoErr, t) \<and> plm_inv t"
  using plm_SetCurrentIndex_ok [of s i] plm_SetCurrentIndex_keeps [of s i] assms by (auto simp: plm_inv_def)

lemma plm_Sort_inv:
  assumes inv: "plm_inv s" and can: "plm_can env s (OpSort key type)"
  shows "\<exists>e t. plm_Sort key type s = Some (e, t) \<and> plm_inv t"
proof -
  have ok: "plm_lists_ok s" and mem: "plm_mem_ok s" using inv by (simp_all add: plm_inv_def)
  note h = plm_active_heap [OF ok mem]
  consider (r) "key = kPlaylistSortKey_Random" | (l) "key = kPlaylistSortKey_LastKey"
    | (a) "sort_key_ok key" "type = kPlaylistSortType_Ascending"
    | (d) "sort_key_ok key" "type \<noteq> kPlaylistSortType_Ascending" by blast
  then show ?thesis
  proof cases
    case r
    then obtain ys rs where "ShuffleIt (plm_active s) (plm_rand s) = Some (ys, rs)" using can by auto
    from plm_Sort_Random_ok [OF ok mem this, of type] show ?thesis by (auto simp: r plm_inv_def)
  next
    case l
    then show ?thesis using plm_Sort_invalid_key [OF ok] inv by auto
  next
    case a
    have "sort_pointers (item_less key) (plm_heap s) (plm_active s) =
        Some (sort_key (\<lambda>p. sort_value key (item_at (plm_heap s) p)) (plm_active s))"
      by (rule sort_pointers_ascending [OF _ a(1)]) (rule h)
    then have "\<exists>t. plm_Sort key type s = Some (kError_NoErr, t) \<and> plm_lists_ok t \<and> plm_mem_ok t \<and>
        plm_active t = sort_key (\<lambda>p. sort_value key (item_at (plm_heap s) p)) (plm_active s) \<and>
        plm_GetCurrentItem t = plm_GetCurrentItem s"
      using a(2) by (intro plm_Sort_key_ok [OF ok mem a(1)]) simp_all
    then show ?thesis by (auto simp: plm_inv_def)
  next
    case d
    have "if distinct (map (\<lambda>p. sort_value key (item_at (plm_heap s) p)) (plm_active s))
      then \<exists>ys. sort_pointers (\<lambda>a b. \<not> item_less key a b) (plm_heap s) (plm_active s) = Some ys \<and>
        mset ys = mset (plm_active s) \<and>
        sorted_wrt (\<lambda>p q. sort_value key (item_at (plm_heap s) q) < sort_value key (item_at (plm_heap s) p)) ys
      else sort_pointers (\<lambda>a b. \<not> item_less key a b) (plm_heap s) (plm_active s) = None"
      by (rule sort_pointers_descending [OF _ d(1)]) (rule h)
    moreover have "distinct (map (\<lambda>p. sort_value key (item_at (plm_heap s) p)) (plm_active s))"
      using can d by auto
    ultimately obtain ys where ys: "sort_pointers (\<lambda>a b. \<not> item_less key a b) (plm_heap s) (plm_active s) = Some ys"
      "mset ys = mset (plm_active s)" by (simp only: if_True) blast
    from plm_Sort_key_ok [OF ok mem d(1) _ ys(2), of type] ys(1) d(2) show ?thesis by (auto simp: plm_inv_def)
  qed
qed

lemma plm_add_inv:
  assumes inv: "plm_inv s"
  shows "plm_can env s (OpAddItemAt p i q) \<Longrightarrow> \<exists>e t. plm_AddItem_at p i q s = Some (e, t) \<and> plm_inv t"
    and "plm_can env s (OpAddItem p q) \<Longrightarrow> \<exists>e t. plm_AddItem p q s = Some (e, t) \<and> plm_inv t"
    and "plm_can env s (OpAddItemsAt ps i q) \<Longrightarrow> \<exists>e ys t. plm_AddItems_at ps i q s = Some (e, ys, t) \<and> plm_inv t"
    and "plm_can env s (OpAddItems ps q) \<Longrightarrow> \<exists>e ys t. plm_AddItems ps q s = Some (e, ys, t) \<and> plm_inv t"
proof -
  have ok: "plm_lists_ok s" and mem: "plm_mem_ok s" using inv by (simp_all add: plm_inv_def)
  have one: "\<exists>e t. plm_AddItem_at p i q s = Some (e, t) \<and> plm_inv t"
    if "plm_can env s (OpAddItemAt p i q)" for p i q
    using plm_AddItem_at_ok [OF ok mem, of p i q] that by (auto simp: plm_inv_def)
  have many: "\<exists>e ys t. plm_AddItems_at ps i q s = Some (e, ys, t) \<and> plm_inv t"
    if "plm_can env s (OpAddItemsAt ps i q)" for ps i q
    using plm_AddItems_at_ok [OF ok mem, of ps i q] that by (auto simp: plm_inv_def)
  show "plm_can env s (OpAddItemAt p i q) \<Longrightarrow> \<exists>e t. plm_AddItem_at p i q s = Some (e, t) \<and> plm_inv t" by (rule one)
  show "plm_can env s (OpAddItemsAt ps i q) \<Longrightarrow> \<exists>e ys t. plm_AddItems_at ps i q s = Some (e, ys, t) \<and> plm_inv t"
    by (rule many)
  show "\<exists>e t. plm_AddItem p q s = Some (e, t) \<and> plm_inv t" if "plm_can env s (OpAddItem p q)"
  proof -
    have "p \<noteq> NULL" using that plm_fresh_nonnull [OF mem, of "[p]"] by auto
    then show ?thesis using one [of p "length (plm_active s)" q] that
      by (simp add: plm_AddItem_append [OF ok])
  qed
  show "\<exists>e ys t. plm_AddItems ps q s = Some (e, ys, t) \<and> plm_inv t" if "plm_can env s (OpAddItems ps q)"
  proof -
    have "ps \<noteq> []" using that by simp
    then show ?thesis using many [of ps "length (plm_active s)" q] that
      by (simp add: plm_AddItems_append [OF ok])
  qed
qed

lemma plm_remove_inv:
  assumes inv: "plm_inv s"
  shows "plm_can env s (OpRemoveItem i) \<Longrightarrow> \<exists>e t. plm_RemoveItem i s = Some (e, t) \<and> plm_inv t"
    and "plm_can env s (OpRemoveRange i n) \<Longrightarrow> \<exists>e t. plm_RemoveItems_range i n s = Some (e, t) \<and> plm_inv t"
    and "plm_can env s (OpRemoveItems ps) \<Longrightarrow> \<exists>e t. plm_RemoveItems ps s = Some (e, t) \<and> plm_inv t"
    and "\<exists>e t. plm_RemoveAll s = Some (e, t) \<and> plm_inv t"
proof -
  have ok: "plm_lists_ok s" and mem: "plm_mem_ok s" using inv by (simp_all add: plm_inv_def)
  obtain cur where cur: "plm_GetCurrentItem s = Some cur" using plm_GetCurrentItem_ok [OF ok] by blast
  show "plm_can env s (OpRemoveItem i) \<Longrightarrow> \<exists>e t. plm_RemoveItem i s = Some (e, t) \<and> plm_inv t"
    using plm_RemoveItem_ok [OF ok mem _ _ cur, of i] by (auto simp: plm_inv_def)
  show "plm_can env s (OpRemoveRange i n) \<Longrightarrow> \<exists>e t. plm_RemoveItems_range i n s = Some (e, t) \<and> plm_inv t"
    using plm_RemoveItems_range_ok [OF ok mem _ _ _ cur, of i n] by (auto simp: plm_inv_def)
  show "\<exists>e t. plm_RemoveItems ps s = Some (e, t) \<and> plm_inv t" if "plm_can env s (OpRemoveItems ps)"
  proof -
    have "m_masterList s \<noteq> [] \<and> (m_shuffle s \<longrightarrow> \<not> set (m_masterList s) \<subseteq> set ps)" if "m_activeList s = MasterList"
      using \<open>plm_can env s (OpRemoveItems ps)\<close> that plm_active_master [OF that] by auto
    from plm_RemoveItems_ok [OF ok mem _ _ this cur] that show ?thesis unfolding plm_inv_def by force
  qed
  show "\<exists>e t. plm_RemoveAll s = Some (e, t) \<and> plm_inv t"
    using plm_RemoveAll_ok [OF ok mem] by (auto simp: plm_inv_def)
qed

lemma plm_exec_ok:
  assumes inv: "plm_inv s" and can: "plm_can env s op"
  shows "\<exists>t. plm_exec env op s = Some t \<and> plm_inv t"
proof -
  have ok: "plm_lists_ok s" and mem: "plm_mem_ok s" using inv by (simp_all add: plm_inv_def)
  show ?thesis
  proof (cases op)
    case (OpNewItem url md)
    then show ?thesis using plm_mem_ok_alloc(1) [OF mem] ok by (simp add: plm_inv_def plm_alloc_fields)
  next
    case (OpAddItem p q)
    then show ?thesis using plm_add_inv(2) [OF inv, of env p q] can by force
  next
    case (OpAddItemAt p i q)
    then show ?thesis using plm_add_inv(1) [OF inv, of env p i q] can by force
  next
    case (OpAddItems ps q)
    then show ?thesis using plm_add_inv(4) [OF inv, of env ps q] can by force
  next
    case (OpAddItemsAt ps i q)
    then show ?thesis using plm_add_inv(3) [OF inv, of env ps i q] can by force
  next
    case (OpRemoveItem i)
    then show ?thesis using plm_remove_inv(1) [OF inv, of env i] can by force
  next
    case (OpRemoveRange i n)
    then show ?thesis using plm_remove_inv(2) [OF inv, of env i n] can by force
  next
    case (OpRemoveItems ps)
    then show ?thesis using plm_remove_inv(3) [OF inv, of env ps] can by force
  next
    case OpRemoveAll
    then show ?thesis using plm_remove_inv(4) [OF inv] by force
  next
    case (OpMoveItem i j)
    then show ?thesis using plm_MoveItem_ok [OF ok mem, of i j] can by (force simp: plm_inv_def)
  next
    case (OpMoveItems ps i)
    then show ?thesis using plm_MoveItems_ok [OF ok mem, of ps i] can by (force simp: plm_inv_def)
  next
    case (OpSwapItems i j)
    then show ?thesis using plm_SwapItems_ok [OF ok mem, of i j] can by (force simp: plm_inv_def)
  next
    case (OpSort key type)
    then show ?thesis using plm_Sort_inv [OF inv, of env key type] can by force
  next
    case (OpSetCurrentIndex i)
    then show ?thesis using plm_SetCurrentIndex_inv [OF inv, of i] can by force
  next
    case (OpGotoNext b)
    then obtain e t where "plm_GotoNextItem b s = Some (e, t)" "plm_mem_ok t"
      using plm_GotoNextItem_total [OF ok mem, of b] can by auto
    then show ?thesis using plm_GotoNextItem_keeps [OF ok, of b e t] OpGotoNext by (simp add: plm_inv_def)
  next
    case (OpGotoPrevious b)
    then obtain e t where "plm_GotoPreviousItem b s = Some (e, t)" "plm_mem_ok t"
      using plm_GotoPreviousItem_total [OF ok mem, of b] can by auto
    then show ?thesis using plm_GotoPreviousItem_keeps [OF ok, of b e t] OpGotoPrevious by (simp add: plm_inv_def)
  next
    case (OpSetShuffle b)
    then have m: "m_activeList s = MasterList" using can by simp
    obtain e t where "plm_SetShuffleMode b s = Some (e, t)" "plm_mem_ok t"
      using plm_SetShuffleMode_total [OF ok mem, of b] can OpSetShuffle by auto
    then show ?thesis using plm_SetShuffleMode_master(1) [OF ok m, of b e t] OpSetShuffle by (simp add: plm_inv_def)
  next
    case (OpSetRepeat m)
    then show ?thesis using plm_SetRepeatMode_inv [OF inv] by simp
  next
    case (OpSetActive key)
    then show ?thesis using plm_SetActivePlaylist_inv [OF inv] by simp
  next
    case (OpSetExternal url)
    then show ?thesis using plm_SetExternalPlaylist_ok [OF ok mem, of "env_rp env" url] can
      by (force simp: plm_inv_def)
  next
    case (OpUpdateTrack it w)
    then show ?thesis using plm_UpdateTrackMetaData_ok [OF ok mem, of it w] by (force simp: plm_inv_def)
  next
    case (OpThread k)
    then show ?thesis using plm_thread_step_ok [OF ok mem, of k] can by (force simp: plm_inv_def)
  qed
qed

subsection \<open>Property\<close>

lemma plm_new_inv: "plm_inv (plm_new shuffle rm mdfs plfs devs rands)"
  by (simp add: plm_inv_def plm_lists_ok_def plm_mem_ok_def plm_pending_def plm_new_def)

lemma plm_reach_inv: "plm_reach env s t \<Longrightarrow> plm_inv s \<Longrightarrow> plm_inv t"
proof (induction rule: plm_reach.induct)
  case (next_step t op u)
  from next_step.hyps(2) have "plm_can env t op" "plm_exec env op t = Some u" by (auto elim: plm_stepE)
  then show ?case using plm_exec_ok [of t env op] next_step by auto
qed

text \<open>
  C1. The safety of the whole manager. From its construction on, under every interleaving of
  calls permitted by their preconditions with steps of the metadata threads: the lists hold
  distinct live items, the shuffled list is a permutation of the master list, the position is
  in range, items a thread works on are never freed, and every permitted next call or thread
  step is defined, that is, it meets no failed assertion, no access out of bounds and no freed item.
\<close>

theorem plm_reachable_safe:
  assumes "plm_reach env (plm_new shuffle rm mdfs plfs devs rands) s"
  shows "plm_inv s \<and> (\<forall>op. plm_can env s op \<longrightarrow> (\<exists>t. plm_step env s op t \<and> plm_inv t)) \<and>
    (\<forall>k < length (plm_threads s). \<exists>t. plm_thread_step (env_db env) (env_rd env) k s = Some t)"
proof -
  have inv: "plm_inv s" by (rule plm_reach_inv [OF assms plm_new_inv])
  have step: "\<exists>t. plm_step env s op t \<and> plm_inv t" if "plm_can env s op" for op
    using plm_exec_ok [OF inv that] that by (auto intro: plm_step.step)
  have "\<exists>t. plm_thread_step (env_db env) (env_rd env) k s = Some t" if "k < length (plm_threads s)" for k
    using plm_exec_ok [OF inv, of env "OpThread k"] that by auto
  then show ?thesis using inv step by blast
qed

definition empty_env :: plm_env where
  "empty_env = \<lparr>env_db = (\<lambda>_. None), env_rd = (\<lambda>_ _ md. md), env_rp = (\<lambda>_ _. (kError_NoErr, []))\<rparr>"

theorem plm_reachable_safe_witness:
  "\<exists>s. plm_reach empty_env (plm_new False kPlaylistMode_RepeatNone [] [] [] []) s \<and>
     plm_active s = [1] \<and> length (plm_threads s) = 1 \<and> plm_inv s \<and>
     (\<exists>t. plm_step empty_env s (OpRemoveItem 0) t)"
proof -
  let ?s0 = "plm_new False kPlaylistMode_RepeatNone [] [] [] []"
  let ?s1 = "snd (plm_alloc (new_item ''a'' None) ?s0)"
  have s1: "plm_reach empty_env ?s0 ?s1"
    by (rule plm_reach.next_step [OF plm_reach.init plm_step.step [where op = "OpNewItem ''a'' None"]]) simp_all
  have f: "plm_active ?s1 = []" "m_masterList ?s1 = []" "plm_heap ?s1 1 = Some (new_item ''a'' None)"
    "m_externalList ?s1 = []" "m_shuffle ?s1 = False" "m_activeList ?s1 = MasterList"
    by (simp_all add: plm_alloc_def plm_new_def plm_active_def)
  have can: "plm_can empty_env ?s1 (OpAddItem 1 True)"
    by (simp add: plm_fresh_def f plm_alloc_def plm_new_def new_item_def plm_active_def)
  have "\<exists>t. plm_AddItem 1 True ?s1 = Some (kError_NoErr, t) \<and> plm_active t = [1] \<and>
      length (plm_threads t) = 1 \<and> m_shuffle t = False"
    by (simp add: plm_AddItem_def plm_alloc_def plm_new_def plm_set_active_def plm_AddItemToShuffleList_def
      plm_active_def plm_InternalSetCurrentIndex_def plm_GetCurrentItem_def plm_RetrieveMetaData_item_def
      plm_RetrieveMetaData_def plm_emit_def Let_def)
  then obtain t where t: "plm_AddItem 1 True ?s1 = Some (kError_NoErr, t)" "plm_active t = [1]"
    "length (plm_threads t) = 1" "m_shuffle t = False" by blast
  have r: "plm_reach empty_env ?s0 t"
    by (rule plm_reach.next_step [OF s1 plm_step.step [OF can]]) (use t(1) in simp)
  have "plm_can empty_env t (OpRemoveItem 0)" using t by simp
  then show ?thesis using plm_reachable_safe [OF r] r t by blast
qed

end
