(* ===== verification/Preferences.thy ===== *)
theory Preferences
  imports CStrings ErrorCodes
begin

section \<open>Typed preferences and their defaults\<close>

text \<open>
  \<open>class Preferences\<close> of \<open>base/include/preferences.h\<close> and \<open>base/src/preferences.cpp\<close>. The two pure
  virtual functions \<open>GetPrefString\<close> and \<open>SetPrefString\<close> are arguments of the functions built on
  them: \<open>getp s pref len\<close> is the error, the text left in the buffer and the length written back,
  \<open>setp s pref buf\<close> the error and the new state. Both may have no defined result.

  The contract the base class relies on is the locale \<open>pref_store\<close>; \<open>UnixPrefs\<close> and
  \<open>PrefixPrefs\<close> provide it. The values of the platform-dependent defaults are those of the Unix
  build.
\<close>

type_synonym 's get_string = "'s \<Rightarrow> string \<Rightarrow> nat \<Rightarrow> (error \<times> string \<times> nat) option"
type_synonym 's set_string = "'s \<Rightarrow> string \<Rightarrow> string \<Rightarrow> (error \<times> 's) option"

definition GetPrefBoolean :: "'s get_string \<Rightarrow> 's \<Rightarrow> string \<Rightarrow> (error \<times> bool) option" where
  "GetPrefBoolean getp s pref = do {
     (e, temp, _) \<leftarrow> getp s pref 32;
     Some (if IsntError e
       then if strcasecmp (c_str temp) ''true'' = 0 then (e, True)
            else if strcasecmp (c_str temp) ''false'' \<noteq> 0 then (kError_NoPrefValue, False)
            else (e, False)
       else (e, False))
   }"

definition SetPrefBoolean :: "'s set_string \<Rightarrow> 's \<Rightarrow> string \<Rightarrow> bool \<Rightarrow> (error \<times> 's) option" where
  "SetPrefBoolean setp s pref value = setp s pref (if value then ''true'' else ''false'')"

definition GetPrefInt32 :: "'s get_string \<Rightarrow> 's \<Rightarrow> string \<Rightarrow> (error \<times> int) option" where
  "GetPrefInt32 getp s pref = do {
     (e, temp, _) \<leftarrow> getp s pref 32;
     Some (if IsntError e
       then let (n, endp) = strtol10 temp
            in (if endp \<noteq> [] then kError_NoPrefValue else e, int32 n)
       else (e, -1))
   }"

text \<open>
  The digit loop of \<open>SetPrefInt32\<close> writes backwards into \<open>temp[32]\<close>: \<open>room\<close> is the number of
  free characters in front of \<open>p\<close>.
\<close>

function digit_loop :: "nat \<Rightarrow> nat \<Rightarrow> string \<Rightarrow> (nat \<times> string) option" where
  "digit_loop room value p =
     (if room = 0 then None
      else let p' = digit_char (value mod 10) # p; value' = value div 10
           in if value' > 0 then digit_loop (room - 1) value' p' else Some (room - 1, p'))"
  by pat_completeness auto
termination by (relation "measure (\<lambda>(room, value, p). room)") auto

declare digit_loop.simps [simp del]

definition int32_text :: "int \<Rightarrow> string option" where
  "int32_text value = do {
     v \<leftarrow> (if value < 0 then (if value = -2147483648 then None else Some (- value)) else Some value);
     (room, p) \<leftarrow> digit_loop 31 (nat v) [];
     if value < 0 then (if room = 0 then None else Some (CHR ''-'' # p)) else Some p
   }"

definition SetPrefInt32 :: "'s set_string \<Rightarrow> 's \<Rightarrow> string \<Rightarrow> int \<Rightarrow> (error \<times> 's) option" where
  "SetPrefInt32 setp s pref value = do {
     p \<leftarrow> int32_text value;
     setp s pref p
   }"

definition GetFirstLibDir :: "'s get_string \<Rightarrow> 's \<Rightarrow> nat \<Rightarrow> (bool \<times> string \<times> nat) option" where
  "GetFirstLibDir getp s len = do {
     (e, path, len') \<leftarrow> getp s ''InstallDirectory'' len;
     Some (\<not> IsError e, path, len')
   }"

subsection \<open>The default values\<close>

datatype pref_default = DefInt string int | DefBool string bool | DefString string string

fun default_key :: "pref_default \<Rightarrow> string" where
  "default_key (DefInt k _) = k"
| "default_key (DefBool k _) = k"
| "default_key (DefString k _) = k"

text \<open>One \<open>if (GetPref...(...) == kError_NoPrefValue) SetPref...(...)\<close>; strings are read into
  a buffer of \<open>len\<close> characters.\<close>

fun set_default :: "'s get_string \<Rightarrow> 's set_string \<Rightarrow> nat \<Rightarrow> pref_default \<Rightarrow> 's \<Rightarrow> 's option" where
  "set_default getp setp len (DefInt k v) s = do {
     (e, _) \<leftarrow> GetPrefInt32 getp s k;
     if e = kError_NoPrefValue then do { (_, s') \<leftarrow> SetPrefInt32 setp s k v; Some s' } else Some s
   }"
| "set_default getp setp len (DefBool k v) s = do {
     (e, _) \<leftarrow> GetPrefBoolean getp s k;
     if e = kError_NoPrefValue then do { (_, s') \<leftarrow> SetPrefBoolean setp s k v; Some s' } else Some s
   }"
| "set_default getp setp len (DefString k v) s = do {
     (e, _) \<leftarrow> getp s k len;
     if e = kError_NoPrefValue then do { (_, s') \<leftarrow> setp s k v; Some s' } else Some s
   }"

fun set_defaults :: "'s get_string \<Rightarrow> 's set_string \<Rightarrow> nat \<Rightarrow> pref_default list \<Rightarrow> 's \<Rightarrow> 's option" where
  "set_defaults getp setp len [] s = Some s"
| "set_defaults getp setp len (d # ds) s = do {
     s' \<leftarrow> set_default getp setp len d s;
     set_defaults getp setp len ds s'
   }"

definition player_defaults :: "pref_default list" where
  "player_defaults = [
     DefInt ''InputBufferSize'' 64, DefInt ''OutputBufferSize'' 512,
     DefInt ''StreamBufferInterval'' 3, DefInt ''DecoderThreadPriority'' 5,
     DefBool ''UseDebugLog'' False, DefBool ''LogMain'' False, DefBool ''LogDecode'' False,
     DefBool ''LogInput'' False, DefBool ''LogOutput'' False, DefBool ''LogPerformance'' False,
     DefBool ''SaveStreams'' False, DefString ''SaveStreamsDirectory'' ''.'',
     DefInt ''PreBuffer'' 0, DefBool ''UseProxy'' False,
     DefString ''ProxyHost'' ''http://proxy.yourdomain.com:8080'',
     DefString ''MBServer'' ''http://www.musicbrainz.org:80'',
     DefBool ''UseAlternateNIC'' False, DefString ''AlternateNICAddress'' ''192.168.1.1'',
     DefBool ''UseTitleStreaming'' True, DefString ''ThemePath'' [],
     DefString ''MainWindowPos'' ''-1,-1'', DefString ''WindowMode'' ''MainWindow'',
     DefString ''ThemeDefaultFont'' ''Helvetica'',
     DefString ''MusicBrowserUI'' ''musicbrowser.ui'',
     DefString ''DownloadManagerUI'' ''download.ui'', DefString ''ToolbarUI'' ''toolbar.ui'',
     DefString ''SecondaryUI'' []]"

definition browser_defaults :: "pref_default list" where
  "browser_defaults = [
     DefBool ''CheckForUpdates'' False, DefInt ''PlaylistRepeat'' 0,
     DefBool ''PlaylistShuffle'' False, DefInt ''TimeDisplay'' 0, DefInt ''Volume'' 85,
     DefString ''UserName'' [], DefString ''CDDevice'' ''/dev/cdrom'',
     DefBool ''ReclaimFiletypes'' True, DefBool ''AskToReclaimFiletypes'' True,
     DefString ''UsersPortablePlayers'' [], DefBool ''ShowToolbarTextLabels'' True,
     DefBool ''ShowToolbarImages'' True, DefBool ''SaveCurrentPlaylistOnExit'' False,
     DefBool ''ViewMusicBrowser'' True, DefBool ''Welcome'' True,
     DefBool ''PlayImmediately'' True, DefBool ''SetLastResume'' True,
     DefInt ''NumberOfURLsToRemember'' 10, DefBool ''ConvertUnderscoresToSpaces'' True,
     DefBool ''AllowMultipleInstances'' False, DefInt ''AudioCDLength'' 4440,
     DefInt ''WatchThisDirectoryTimeout'' 600000, DefBool ''WriteID3v1Tags'' True,
     DefBool ''WriteID3v2Tags'' True, DefBool ''CloseDLMOnComplete'' False,
     DefString ''EqualizerSettings'' ''0,50,50,50,50,50,50,50,50,50,50'',
     DefInt ''SavedPlaylistPosition'' 0, DefString ''MusicBrowserPosition'' ''-1,-1,-1,-1,-1'',
     DefString ''MusicBrowserHeaderWidths'' ''-1,-1,-1.-1'', DefBool ''PerformDBCheck'' True,
     DefBool ''AutoUpdateCD'' False,
     DefString ''PlaylistHeaderColumns'' ''Title|Artist|Album|Time|Genre'',
     DefBool ''UseAdvancedRelatableFeatures'' False, DefInt ''DisplayMetadata'' 1,
     DefBool ''ContributeMB'' False, DefBool ''ContributeBitzi'' False,
     DefString ''LastFreeAmpVersion'' ''0.0.0'']"

definition SetDefaults :: "'s get_string \<Rightarrow> 's set_string \<Rightarrow> 's \<Rightarrow> (error \<times> 's) option" where
  "SetDefaults getp setp s = do {
     s' \<leftarrow> set_defaults getp setp 255 (player_defaults @ browser_defaults) s;
     Some (kError_NoErr, s')
   }"

subsection \<open>The decimal text of a number\<close>

lemma digit_loop_decimal:
  "n < 10 ^ room \<Longrightarrow> 0 < room \<Longrightarrow>
   digit_loop room n p = Some (room - length (decimal n), decimal n @ p)"
proof (induction room n p rule: digit_loop.induct)
  case (1 room n p)
  show ?case
  proof (cases "n div 10 > 0")
    case False
    then show ?thesis using 1(3)
      by (subst digit_loop.simps, subst (2) decimal.simps, subst decimal.simps) (simp add: Let_def div_eq_0_iff)
  next
    case True
    then have n: "\<not> n < 10" by simp
    obtain r where r: "room = Suc r" "0 < r" using 1(2,3) n by (cases room; cases "room - 1") auto
    then have "n div 10 < 10 ^ r" using 1(2) by (simp add: less_mult_imp_div_less mult.commute)
    with 1(1) r True have "digit_loop r (n div 10) (digit_char (n mod 10) # p) =
      Some (r - length (decimal (n div 10)), decimal (n div 10) @ digit_char (n mod 10) # p)"
      by (simp add: Let_def)
    moreover have "decimal n = decimal (n div 10) @ [digit_char (n mod 10)]"
      using n by (subst decimal.simps) simp
    ultimately show ?thesis using r True by (subst digit_loop.simps) (simp add: Let_def)
  qed
qed

definition int_text :: "int \<Rightarrow> string" where
  "int_text v = (if v < 0 then CHR ''-'' # decimal (nat (- v)) else decimal (nat v))"

lemma length_decimal_int32: "n < 2147483649 \<Longrightarrow> length (decimal n) \<le> 10"
  by (rule length_decimal) simp_all

lemma digit_loop_int32:
  "n < 2147483649 \<Longrightarrow> digit_loop 31 n [] = Some (31 - length (decimal n), decimal n)"
  using digit_loop_decimal [of n 31 "[]"] by simp

lemma int32_text_ok:
  assumes "- 2147483648 < v" and "v < 2147483648"
  shows "int32_text v = Some (int_text v)"
proof -
  have "nat \<bar>v\<bar> < 2147483649" using assms by simp
  then have "digit_loop 31 (nat \<bar>v\<bar>) [] = Some (31 - length (decimal (nat \<bar>v\<bar>)), decimal (nat \<bar>v\<bar>))"
    and "length (decimal (nat \<bar>v\<bar>)) \<le> 10"
    by (rule digit_loop_int32, rule length_decimal_int32)
  then show ?thesis using assms by (simp add: int32_text_def int_text_def abs_if split: if_splits)
qed

lemma int32_text_min: "int32_text (- 2147483648) = None"
  by (simp add: int32_text_def)

lemma int_text_short:
  assumes "- 2147483648 \<le> v" and "v < 2147483648"
  shows "length (int_text v) < 32"
proof -
  have "length (decimal (nat \<bar>v\<bar>)) \<le> 10" using assms by (intro length_decimal_int32) simp
  then show ?thesis by (simp add: int_text_def abs_if split: if_splits)
qed

lemma strtol10_int_text:
  assumes "- 2147483648 \<le> v" and "v < 2147483648"
  shows "strtol10 (int_text v) = (v, [])"
  using assms strtol10_decimal_rest [of "[]" "nat v"] strtol10_neg_decimal [of "nat (- v)"]
  by (simp add: int_text_def clip_long_id)

lemma int_text_no_nul: "c_str (int_text v) = int_text v"
  using decimal_no_nul by (intro c_str_id) (simp add: int_text_def)

subsection \<open>The contract of a preference store\<close>

locale pref_store =
  fixes getp :: "'s get_string" and setp :: "'s set_string"
    and contents :: "'s \<Rightarrow> string \<rightharpoonup> string" and inv :: "'s \<Rightarrow> bool"
  assumes get_none: "inv s \<Longrightarrow> contents s (c_str k) = None \<Longrightarrow> getp s k len = Some (kError_NoPrefValue, [], 0)"
    and get_some: "inv s \<Longrightarrow> contents s (c_str k) = Some v \<Longrightarrow> length v < len \<Longrightarrow>
      getp s k len = Some (kError_NoErr, v, length v + 1)"
    and get_small: "inv s \<Longrightarrow> contents s (c_str k) = Some v \<Longrightarrow> len \<le> length v \<Longrightarrow>
      getp s k len = Some (kError_BufferTooSmall, [], length v + 1)"
    and get_c: "inv s \<Longrightarrow> contents s k = Some v \<Longrightarrow> c_str v = v"
    and set_ok: "inv s \<Longrightarrow> \<exists>s'. setp s k v = Some (kError_NoErr, s') \<and> inv s' \<and>
      contents s' = (contents s)(c_str k \<mapsto> c_str v)"
begin

lemma get_Boolean:
  assumes "inv s"
  shows "GetPrefBoolean getp s k = Some (case contents s (c_str k) of
      None \<Rightarrow> (kError_NoPrefValue, False)
    | Some v \<Rightarrow> if length v \<ge> 32 then (kError_BufferTooSmall, False)
        else if strcasecmp v ''true'' = 0 then (kError_NoErr, True)
        else if strcasecmp v ''false'' = 0 then (kError_NoErr, False) else (kError_NoPrefValue, False))"
proof (cases "contents s (c_str k)")
  case None
  then show ?thesis using get_none [OF assms] by (simp add: GetPrefBoolean_def IsError_def)
next
  case (Some v)
  then show ?thesis
    using get_some [OF assms Some, of 32] get_small [OF assms Some, of 32] get_c [OF assms Some]
    by (cases "length v < 32") (simp_all add: GetPrefBoolean_def IsError_def)
qed

lemma get_Int32:
  assumes "inv s"
  shows "GetPrefInt32 getp s k = Some (case contents s (c_str k) of
      None \<Rightarrow> (kError_NoPrefValue, -1)
    | Some v \<Rightarrow> if length v \<ge> 32 then (kError_BufferTooSmall, -1)
        else (if snd (strtol10 v) \<noteq> [] then kError_NoPrefValue else kError_NoErr, int32 (fst (strtol10 v))))"
proof (cases "contents s (c_str k)")
  case None
  then show ?thesis using get_none [OF assms] by (simp add: GetPrefInt32_def IsError_def)
next
  case (Some v)
  then show ?thesis
    using get_some [OF assms Some, of 32] get_small [OF assms Some, of 32]
    by (cases "length v < 32") (simp_all add: GetPrefInt32_def IsError_def split: prod.splits)
qed

lemma Boolean_roundtrip:
  assumes "inv s"
  shows "\<exists>s'. SetPrefBoolean setp s k b = Some (kError_NoErr, s') \<and> inv s' \<and>
    GetPrefBoolean getp s' k = Some (kError_NoErr, b) \<and>
    (\<forall>k'. c_str k' \<noteq> c_str k \<longrightarrow> contents s' (c_str k') = contents s (c_str k'))"
proof -
  obtain s' where s': "setp s k (if b then ''true'' else ''false'') = Some (kError_NoErr, s')" "inv s'"
    "contents s' = (contents s)(c_str k \<mapsto> c_str (if b then ''true'' else ''false''))"
    using set_ok [OF assms] by blast
  have "c_str (if b then ''true'' else ''false'') = (if b then ''true'' else ''false'')"
    by (simp add: c_str_id)
  then have "GetPrefBoolean getp s' k = Some (kError_NoErr, b)"
    using s'(3) by (simp add: get_Boolean [OF s'(2)] lower_byte_def byte_of_def)
  then show ?thesis using s' by (auto simp: SetPrefBoolean_def)
qed

lemma Int32_roundtrip:
  assumes "inv s" and "- 2147483648 < v" and "v < 2147483648"
  shows "\<exists>s'. SetPrefInt32 setp s k v = Some (kError_NoErr, s') \<and> inv s' \<and>
    GetPrefInt32 getp s' k = Some (kError_NoErr, v) \<and>
    (\<forall>k'. c_str k' \<noteq> c_str k \<longrightarrow> contents s' (c_str k') = contents s (c_str k'))"
proof -
  obtain s' where s': "setp s k (int_text v) = Some (kError_NoErr, s')" "inv s'"
    "contents s' = (contents s)(c_str k \<mapsto> int_text v)"
    using set_ok [OF assms(1), of k "int_text v"] by (auto simp: int_text_no_nul)
  have "GetPrefInt32 getp s' k = Some (kError_NoErr, v)"
    using s'(3) assms(2,3) int_text_short [of v] strtol10_int_text [of v]
    by (simp add: get_Int32 [OF s'(2)] int32_id)
  then show ?thesis using s' int32_text_ok [OF assms(2,3)] by (auto simp: SetPrefInt32_def)
qed

end

subsection \<open>What \<open>SetDefaults\<close> does to the stored values\<close>

fun needs_default :: "pref_default \<Rightarrow> string option \<Rightarrow> bool" where
  "needs_default d None = True"
| "needs_default (DefInt k x) (Some v) = (length v < 32 \<and> snd (strtol10 v) \<noteq> [])"
| "needs_default (DefBool k x) (Some v) =
     (length v < 32 \<and> strcasecmp v ''true'' \<noteq> 0 \<and> strcasecmp v ''false'' \<noteq> 0)"
| "needs_default (DefString k x) (Some v) = False"

fun default_text :: "pref_default \<Rightarrow> string" where
  "default_text (DefInt k x) = int_text x"
| "default_text (DefBool k x) = (if x then ''true'' else ''false'')"
| "default_text (DefString k x) = x"

fun valid_default :: "pref_default \<Rightarrow> bool" where
  "valid_default (DefInt k x) \<longleftrightarrow> c_str k = k \<and> - 2147483648 < x \<and> x < 2147483648"
| "valid_default (DefBool k x) \<longleftrightarrow> c_str k = k"
| "valid_default (DefString k x) \<longleftrightarrow> c_str k = k \<and> c_str x = x"

definition apply_default :: "pref_default \<Rightarrow> (string \<rightharpoonup> string) \<Rightarrow> (string \<rightharpoonup> string)" where
  "apply_default d m =
     (if needs_default d (m (default_key d)) then m(default_key d \<mapsto> default_text d) else m)"

lemma c_str_default: "valid_default d \<Longrightarrow> c_str (default_text d) = default_text d"
  by (cases d) (simp_all add: int_text_no_nul c_str_id)

lemma c_str_key: "valid_default d \<Longrightarrow> c_str (default_key d) = default_key d"
  by (cases d) simp_all

context pref_store begin

lemma set_default_ok:
  assumes s: "inv s" and d: "valid_default d"
  shows "\<exists>s'. set_default getp setp len d s = Some s' \<and> inv s' \<and>
    contents s' = apply_default d (contents s)"
proof -
  obtain s' where set: "setp s (default_key d) (default_text d) = Some (kError_NoErr, s')" "inv s'"
    "contents s' = (contents s)(default_key d \<mapsto> default_text d)"
    using set_ok [OF s, of "default_key d" "default_text d"] c_str_default [OF d] c_str_key [OF d] by auto
  show ?thesis
  proof (cases d)
    case (DefInt k x)
    then have "SetPrefInt32 setp s k x = Some (kError_NoErr, s')"
      using set d by (simp add: SetPrefInt32_def int32_text_ok)
    then show ?thesis using DefInt set s d
      by (cases "contents s k") (auto simp: get_Int32 apply_default_def)
  next
    case (DefBool k x)
    then have "SetPrefBoolean setp s k x = Some (kError_NoErr, s')"
      using set d by (simp add: SetPrefBoolean_def)
    then show ?thesis using DefBool set s d
      by (cases "contents s k") (auto simp: get_Boolean apply_default_def)
  next
    case (DefString k x)
    show ?thesis
    proof (cases "contents s k")
      case None
      then show ?thesis using DefString set s d get_none [OF s, of k] by (auto simp: apply_default_def)
    next
      case (Some v)
      then have "\<exists>e t n. getp s k len = Some (e, t, n) \<and> e \<noteq> kError_NoPrefValue"
        using DefString d get_some [OF s, of k v len] get_small [OF s, of k v len]
        by (cases "length v < len") simp_all
      then show ?thesis using DefString Some s by (auto simp: apply_default_def)
    qed
  qed
qed

lemma set_defaults_ok:
  "inv s \<Longrightarrow> \<forall>d \<in> set ds. valid_default d \<Longrightarrow>
   \<exists>s'. set_defaults getp setp len ds s = Some s' \<and> inv s' \<and> contents s' = fold apply_default ds (contents s)"
proof (induction ds arbitrary: s)
  case Nil
  then show ?case by simp
next
  case (Cons d ds)
  from set_default_ok [OF Cons.prems(1), of d len] Cons.prems(2) obtain s1 where
    "set_default getp setp len d s = Some s1" "inv s1" "contents s1 = apply_default d (contents s)" by auto
  with Cons.IH [of s1] Cons.prems(2) show ?case by auto
qed

end

text \<open>With distinct keys the fold is the pointwise update.\<close>

definition default_for :: "pref_default list \<Rightarrow> string \<rightharpoonup> pref_default" where
  "default_for ds = map_of (map (\<lambda>d. (default_key d, d)) ds)"

definition with_defaults :: "pref_default list \<Rightarrow> (string \<rightharpoonup> string) \<Rightarrow> (string \<rightharpoonup> string)" where
  "with_defaults ds m = (\<lambda>k. case default_for ds k of None \<Rightarrow> m k
     | Some d \<Rightarrow> if needs_default d (m k) then Some (default_text d) else m k)"

lemma default_for_key: "default_for ds k = Some d \<Longrightarrow> default_key d = k \<and> d \<in> set ds"
  by (auto simp: default_for_def dest!: map_of_SomeD)

lemma default_for_None: "default_for ds k = None \<longleftrightarrow> k \<notin> default_key ` set ds"
  by (auto simp: default_for_def map_of_eq_None_iff image_image)

lemma fold_apply_default:
  "distinct (map default_key ds) \<Longrightarrow> fold apply_default ds m = with_defaults ds m"
proof (induction ds arbitrary: m)
  case Nil
  show ?case by (simp add: with_defaults_def default_for_def)
next
  case (Cons d ds)
  then have "default_for ds (default_key d) = None" by (simp add: default_for_None)
  with Cons show ?case
    by (auto simp: with_defaults_def default_for_def apply_default_def fun_eq_iff split: option.splits)
qed

lemma needs_default_text: "valid_default d \<Longrightarrow> \<not> needs_default d (Some (default_text d))"
  using strtol10_int_text by (cases d) (auto simp: lower_byte_def byte_of_def)

lemma with_defaults_idem:
  "\<forall>d \<in> set ds. valid_default d \<Longrightarrow> with_defaults ds (with_defaults ds m) = with_defaults ds m"
  using default_for_key [of ds] needs_default_text
  by (fastforce simp: with_defaults_def split: option.splits)

abbreviation base_defaults :: "pref_default list" where
  "base_defaults \<equiv> player_defaults @ browser_defaults"

lemma base_defaults_valid: "\<forall>d \<in> set base_defaults. valid_default d"
  by (simp add: player_defaults_def browser_defaults_def c_str_def)

lemma base_defaults_distinct: "distinct (map default_key base_defaults)"
  by (simp add: player_defaults_def browser_defaults_def)

context pref_store begin

lemma SetDefaults_ok:
  assumes "inv s"
  shows "\<exists>s'. SetDefaults getp setp s = Some (kError_NoErr, s') \<and> inv s' \<and>
    contents s' = with_defaults base_defaults (contents s)"
proof -
  obtain s' where "set_defaults getp setp 255 base_defaults s = Some s'" "inv s'"
    "contents s' = fold apply_default base_defaults (contents s)"
    using set_defaults_ok [OF assms base_defaults_valid, of 255] by blast
  then show ?thesis by (simp add: SetDefaults_def fold_apply_default [OF base_defaults_distinct] del: fold_append)
qed

end

end
