(* ===== verification/Utility.thy ===== *)
theory Utility
  imports Preferences
begin

section \<open>Paths, URLs and text\<close>

text \<open>
  \<open>base/src/utility.cpp\<close>, Unix build: the conversions between paths and \<open>file://\<close> URLs with their
  buffer protocol, \<open>ResolvePath\<close>, and the small text functions. A buffer is the list of its
  characters; the cursor of \<open>ResolvePath\<close> splits it into the characters before and from the cursor on.
  The overlapping \<open>strcpy\<close> calls of that function move the text to the left, as a copy from the
  front does. \<open>_MAX_PATH\<close> is 4096 (\<open>config/config.h.in\<close>).
\<close>

abbreviation MAX_PATH :: nat where
  "MAX_PATH \<equiv> 4096"

abbreviation DIR_MARKER :: char where
  "DIR_MARKER \<equiv> CHR ''/''"

abbreviation protocol :: string where
  "protocol \<equiv> ''file://''"

subsection \<open>Paths and URLs\<close>

text \<open>The error, the URL when it was written, and \<open>*length\<close> afterwards.\<close>

definition FilePathToURL :: "string \<Rightarrow> nat \<Rightarrow> error \<times> string option \<times> nat" where
  "FilePathToURL path len =
     (let needed = length (c_str path) + length protocol + 1
      in if len \<ge> needed then (kError_NoErr, Some (protocol @ c_str path), needed)
         else (kError_BufferTooSmall, None, needed))"

text \<open>\<open>strncasecmp(s, prefix, strlen(prefix)) == 0\<close> and \<open>strncmp(s, prefix, strlen(prefix)) == 0\<close>.\<close>

definition has_prefix_ci :: "string \<Rightarrow> string \<Rightarrow> bool" where
  "has_prefix_ci prefix s \<longleftrightarrow> map lower_byte (take (length prefix) s) = map lower_byte prefix"

definition has_prefix :: "string \<Rightarrow> string \<Rightarrow> bool" where
  "has_prefix prefix s \<longleftrightarrow> take (length prefix) s = prefix"

lemma has_prefix_append: "has_prefix p u \<Longrightarrow> has_prefix p (u @ v)"
proof -
  assume p: "has_prefix p u"
  then have "length (take (length p) u) = length p" by (simp only: has_prefix_def)
  then have "length p \<le> length u" by simp
  then show ?thesis using p by (simp add: has_prefix_def)
qed

definition URLToFilePath :: "string \<Rightarrow> nat \<Rightarrow> error \<times> string option \<times> nat" where
  "URLToFilePath url len =
     (if has_prefix_ci protocol (c_str url) then
        let needed = length (c_str url) - length protocol + 1
        in if len \<ge> needed then (kError_NoErr, Some (drop (length protocol) (c_str url)), needed)
           else (kError_BufferTooSmall, None, needed)
      else (kError_InvalidParam, None, len))"

text \<open>The directories \<open>CreateDirectoryPath\<close> asks for, in order: every prefix that ends before a
  separator, and the whole path.\<close>

fun directory_prefixes :: "string \<Rightarrow> string \<Rightarrow> string list" where
  "directory_prefixes done [] = [done]"
| "directory_prefixes done (c # cs) =
     (if c = DIR_MARKER then done # directory_prefixes (done @ [c]) cs else directory_prefixes (done @ [c]) cs)"

definition CreateDirectoryPath :: "string \<Rightarrow> string list" where
  "CreateDirectoryPath path = directory_prefixes [] (c_str path)"

definition IsRelative :: "string \<Rightarrow> bool" where
  "IsRelative path \<longleftrightarrow> \<not> (c_str path \<noteq> [] \<and> hd (c_str path) = DIR_MARKER)"

subsection \<open>Resolving a path\<close>

text \<open>
  The search for the directory in front of \<open>../\<close>: \<open>lastDir\<close> runs back from the offset \<open>n\<close> to the
  last separator before it (the offset after that one is the result) or to the start of the buffer.
\<close>

fun last_dir :: "string \<Rightarrow> nat \<Rightarrow> bool \<times> nat" where
  "last_dir buf 0 = (False, 0)"
| "last_dir buf (Suc n) = (if buf ! Suc n = DIR_MARKER then (True, Suc (Suc n)) else last_dir buf n)"

partial_function (option) resolve_loop :: "bool \<Rightarrow> string \<Rightarrow> string \<Rightarrow> string option" where
  "resolve_loop separator before rest = (case rest of
       [] \<Rightarrow> Some before
     | c # cs \<Rightarrow>
         if c = DIR_MARKER then
           (if separator then
              (case before of [] \<Rightarrow> None
               | _ # _ \<Rightarrow> resolve_loop separator (butlast before @ [c]) cs)
            else resolve_loop True (before @ [c]) cs)
         else if has_prefix ''./'' rest then resolve_loop False before (drop 2 rest)
         else if has_prefix ''../'' rest \<and> before \<noteq> [] then
           (if length before \<ge> 2 then
              let (found, lastDir) = last_dir before (length before - 2)
              in resolve_loop False (take lastDir before) (drop 3 rest)
            else resolve_loop False before rest)
         else resolve_loop False (before @ [c]) cs)"

text \<open>What is done to the end of the text: stray dots, then a trailing separator.\<close>

definition resolve_dots :: "string \<Rightarrow> string option" where
  "resolve_dots s =
     (if s = [] then None
      else Some (if last s = CHR ''.''
        then (if length s \<ge> 3 \<and> s ! (length s - 2) = CHR ''.'' then take (length s - 2) s
              else if length s \<ge> 2 \<and> s ! (length s - 2) \<noteq> CHR ''.'' then butlast s else s)
        else s))"

definition resolve_separator :: "string \<Rightarrow> string" where
  "resolve_separator s = (if last s = DIR_MARKER \<and> length s \<ge> 2 then butlast s else s)"

definition ResolvePath :: "string \<Rightarrow> string \<Rightarrow> string option" where
  "ResolvePath cwd path = do {
     let fullPath = (if IsRelative path then c_str cwd @ [DIR_MARKER] @ c_str path else c_str path);
     s1 \<leftarrow> resolve_loop False [] fullPath;
     s2 \<leftarrow> resolve_dots s1;
     Some (resolve_separator s2)
   }"

subsection \<open>Text\<close>

text \<open>\<open>strstr\<close>: the offset of the first occurrence.\<close>

fun strstr :: "string \<Rightarrow> string \<Rightarrow> nat option" where
  "strstr pat [] = (if pat = [] then Some 0 else None)"
| "strstr pat (c # cs) = (if has_prefix pat (c # cs) then Some 0 else map_option Suc (strstr pat cs))"

definition toupper :: "char \<Rightarrow> char" where
  "toupper c = (if 97 \<le> byte_of c \<and> byte_of c \<le> 122 then char_of (byte_of c - 32) else c)"

definition tolower :: "char \<Rightarrow> char" where
  "tolower c = char_of (lower_byte c)"

definition ToUpper :: "string \<Rightarrow> string" where
  "ToUpper s = map toupper (c_str s)"

definition ToLower :: "string \<Rightarrow> string" where
  "ToLower s = map tolower (c_str s)"

definition hex_digit :: "nat \<Rightarrow> char" where
  "hex_digit n = (if n < 10 then digit_char n else char_of (55 + n))"

fun ReplaceSpaces :: "string \<Rightarrow> string" where
  "ReplaceSpaces [] = []"
| "ReplaceSpaces (c # cs) =
     (if c = CHR '' '' then ''%20''
      else if byte_of c > 127 then [CHR ''%'', hex_digit (byte_of c div 16), hex_digit (byte_of c mod 16)]
      else [c]) @ ReplaceSpaces cs"

record tm =
  tm_sec :: nat
  tm_min :: nat
  tm_hour :: nat
  tm_mday :: nat
  tm_mon :: nat
  tm_year :: nat
  tm_wday :: nat

definition two_digits :: "nat \<Rightarrow> string" where
  "two_digits n = (if n < 10 then CHR ''0'' # decimal n else decimal n)"

definition four_wide :: "nat \<Rightarrow> string" where
  "four_wide n = replicate (4 - length (decimal n)) (CHR '' '') @ decimal n"

text \<open>The text goes into a buffer of 32 characters.\<close>

definition RFC822GMTTimeString :: "tm \<Rightarrow> string option" where
  "RFC822GMTTimeString t = do {
     day \<leftarrow> vec_at [''Sun'', ''Mon'', ''Tue'', ''Wed'', ''Thu'', ''Fri'', ''Sat''] (tm_wday t);
     month \<leftarrow> vec_at [''Jan'', ''Feb'', ''Mar'', ''Apr'', ''May'', ''Jun'', ''Jul'', ''Aug'', ''Sep'', ''Oct'', ''Nov'', ''Dec'']
       (tm_mon t);
     let s = day @ '', '' @ two_digits (tm_mday t) @ '' '' @ month @ '' '' @ four_wide (tm_year t + 1900) @ '' '' @
       two_digits (tm_hour t) @ '':'' @ two_digits (tm_min t) @ '':'' @ two_digits (tm_sec t) @ '' GMT'';
     if length s + 1 \<le> 32 then Some s else None
   }"

subsection \<open>Proxy settings\<close>

text \<open>
  \<open>sscanf(s, "http://%[^:/]:%hu", hostname, &port)\<close>: the number of conversions made and their
  values. \<open>%[^:/]\<close> takes at least one character; \<open>%hu\<close> skips white space, takes an optional sign
  and digits, and the value wraps to 16 bits. A host name of \<open>room\<close> characters or more overruns
  its buffer.
\<close>

definition scan_host_port :: "nat \<Rightarrow> string \<Rightarrow> (string \<times> nat option) option option" where
  "scan_host_port room s =
     (if \<not> has_prefix ''http://'' s then Some None
      else let r = drop 7 s; host = takeWhile (\<lambda>c. c \<noteq> CHR '':'' \<and> c \<noteq> CHR ''/'') r; after = drop (length host) r
      in if host = [] then Some None
         else if length host \<ge> room then None
         else Some (Some (host,
           if after \<noteq> [] \<and> hd after = CHR '':'' then
             let (n, endp) = strtol10 (tl after)
             in if endp = tl after then None else Some (nat (n mod 65536))
           else None)))"

text \<open>The server and the port, when a proxy is to be used.\<close>

definition GetProxySettings :: "'s get_string \<Rightarrow> 's \<Rightarrow> (string \<times> nat) option option" where
  "GetProxySettings getp s = do {
     (_, useProxy) \<leftarrow> GetPrefBoolean getp s ''UseProxy'';
     (e, proxyname, _) \<leftarrow> getp s ''ProxyHost'' 256;
     if useProxy then do {
       r \<leftarrow> scan_host_port 256 (c_str proxyname);
       Some (case r of None \<Rightarrow> None
         | Some (host, None) \<Rightarrow> Some (host, 80)
         | Some (host, Some port) \<Rightarrow> Some (host, port))
     } else Some None
   }"

lemma digit_no: "c_isdigit c \<Longrightarrow> c \<noteq> CHR ''='' \<and> c \<noteq> CHR 0x00 \<and> c \<noteq> CHR 0x0A \<and> c \<noteq> CHR 0x0D"
  by (auto simp: c_isdigit_def byte_of_def)

lemma decimal_no: "CHR ''='' \<notin> set (decimal i)" "CHR 0x00 \<notin> set (decimal i)" "CHR 0x0A \<notin> set (decimal i)" "CHR 0x0D \<notin> set (decimal i)"
  using decimal_digits [of i] digit_no by blast+

subsection \<open>The URL of a path\<close>

lemma has_prefix_ci_append: "has_prefix_ci p (p @ s)"
  by (simp add: has_prefix_ci_def)

lemma c_str_Cons [simp]: "c_str (c # s) = (if c = CHR 0x00 then [] else c # c_str s)"
  by (simp add: c_str_def)

lemma c_str_Nil [simp]: "c_str [] = []"
  by (simp add: c_str_def)

lemma c_str_c_str [simp]: "c_str (c_str s) = c_str s"
  by (rule c_str_id [OF c_str_no_nul])

lemma atoi_decimal_rest:
  assumes "n < 2147483648" and "rest = [] \<or> \<not> c_isdigit (hd rest)"
  shows "atoi (decimal n @ rest) = int n"
proof -
  have "atoi (decimal n @ rest) = atoi (c_str (decimal n @ rest))"
    by (simp add: atoi_def strtol10_def Let_def)
  also have "c_str (decimal n @ rest) = decimal n @ c_str rest"
    using decimal_no_nul [of n] by (simp add: c_str_def takeWhile_append)
  also have "atoi \<dots> = int n"
  proof -
    have "c_str rest = [] \<or> \<not> c_isdigit (hd (c_str rest))" using assms(2) by (cases rest) auto
    then show ?thesis using strtol10_decimal_rest [of "c_str rest" n] c_str_no_nul [of rest] assms(1)
      by (simp add: atoi_def clip_long_id int32_id)
  qed
  finally show ?thesis .
qed

lemma has_prefix_ci_protocol: "has_prefix_ci protocol (CHR ''f'' # CHR ''i'' # CHR ''l'' # CHR ''e'' # CHR '':'' # CHR ''/'' # CHR ''/'' # s)"
  using has_prefix_ci_append [of protocol s] by simp

text \<open>
  Paths and \<open>file://\<close> URLs convert back and forth, under the buffer protocol. In both
  directions the length written back is exactly the size of the text with its NUL, the text is
  written just when the buffer has that size, and a path written as a URL reads back as the path;
  a URL reads back as itself when it starts with the protocol in lower case.
\<close>

theorem file_url_roundtrip:
  "(case FilePathToURL path len of
      (kError_NoErr, Some url, n) \<Rightarrow> n = length url + 1 \<and> n \<le> len \<and>
        (\<forall>len' \<ge> length (c_str path) + 1. fst (snd (URLToFilePath url len')) = Some (c_str path))
    | (e, r, n) \<Rightarrow> e = kError_BufferTooSmall \<and> r = None \<and> len < n \<and> n = length (c_str path) + 8) \<and>
   (has_prefix protocol (c_str url) \<longrightarrow>
     (case URLToFilePath url len of
        (kError_NoErr, Some path, n) \<Rightarrow> n = length path + 1 \<and> n \<le> len \<and>
          (\<forall>len' \<ge> length (c_str url) + 1. fst (snd (FilePathToURL path len')) = Some (c_str url))
      | (e, r, n) \<Rightarrow> e = kError_BufferTooSmall \<and> r = None \<and> len < n)) \<and>
   (\<not> has_prefix_ci protocol (c_str url) \<longrightarrow> URLToFilePath url len = (kError_InvalidParam, None, len))"
proof (intro conjI impI)
  show "case FilePathToURL path len of
      (kError_NoErr, Some url, n) \<Rightarrow> n = length url + 1 \<and> n \<le> len \<and>
        (\<forall>len' \<ge> length (c_str path) + 1. fst (snd (URLToFilePath url len')) = Some (c_str path))
    | (e, r, n) \<Rightarrow> e = kError_BufferTooSmall \<and> r = None \<and> len < n \<and> n = length (c_str path) + 8"
    by (auto simp: FilePathToURL_def URLToFilePath_def Let_def has_prefix_ci_protocol)
next
  assume pre: "has_prefix protocol (c_str url)"
  then obtain r where r: "c_str url = protocol @ r"
    by (metis append_take_drop_id has_prefix_def)
  then have "CHR 0x00 \<notin> set r" using c_str_no_nul [of url] by auto
  then have "c_str r = r" by (rule c_str_id)
  then show "case URLToFilePath url len of
        (kError_NoErr, Some path, n) \<Rightarrow> n = length path + 1 \<and> n \<le> len \<and>
          (\<forall>len' \<ge> length (c_str url) + 1. fst (snd (FilePathToURL path len')) = Some (c_str url))
      | (e, r, n) \<Rightarrow> e = kError_BufferTooSmall \<and> r = None \<and> len < n"
    by (auto simp: FilePathToURL_def URLToFilePath_def Let_def r has_prefix_ci_protocol)
next
  assume "\<not> has_prefix_ci protocol (c_str url)"
  then show "URLToFilePath url len = (kError_InvalidParam, None, len)" by (simp add: URLToFilePath_def)
qed

theorem file_url_roundtrip_witness:
  "fst (snd (URLToFilePath ''file:///a b'' 5)) = Some ''/a b'' \<and> fst (snd (FilePathToURL ''/a b'' 12)) = Some ''file:///a b'' \<and>
   URLToFilePath ''http://h/x'' 20 = (kError_InvalidParam, None, 20)"
  using file_url_roundtrip [where path = "''/a b''" and len = 12 and url = "''file:///a b''"]
    file_url_roundtrip [where path = "[]" and len = 20 and url = "''http://h/x''"]
  by (simp add: FilePathToURL_def URLToFilePath_def Let_def has_prefix_def has_prefix_ci_def lower_byte_def byte_of_def)

text \<open>The directories are created outermost first, and the last one is the path itself.\<close>

lemma directory_prefixes_last: "last (directory_prefixes done s) = done @ s \<and> directory_prefixes done s \<noteq> []"
  by (induction "done" s rule: directory_prefixes.induct) auto

lemma directory_prefixes_iff:
  "d \<in> set (directory_prefixes done s) \<longleftrightarrow>
   d = done @ s \<or> (\<exists>p q. s = p @ DIR_MARKER # q \<and> d = done @ p)"
proof (induction "done" s rule: directory_prefixes.induct)
  case (1 "done")
  then show ?case by simp
next
  case (2 "done" c cs)
  have split: "(\<exists>p q. c # cs = p @ DIR_MARKER # q \<and> d = done @ p) \<longleftrightarrow>
      c = DIR_MARKER \<and> d = done \<or> (\<exists>p q. cs = p @ DIR_MARKER # q \<and> d = (done @ [c]) @ p)"
    by (auto simp: Cons_eq_append_conv)
  show ?case using 2 by (simp only: split directory_prefixes.simps split: if_split) auto
qed

subsection \<open>What the text functions put out\<close>

lemma hex_digit_byte: "n < 16 \<Longrightarrow> 48 \<le> byte_of (hex_digit n) \<and> byte_of (hex_digit n) \<le> 70"
  by (auto simp: hex_digit_def byte_of_char_of)

lemma ReplaceSpaces_clean: "c \<in> set (ReplaceSpaces s) \<Longrightarrow> c \<noteq> CHR '' '' \<and> byte_of c \<le> 127"
proof (induction s)
  case Nil
  then show ?case by simp
next
  case (Cons d s)
  have hex: "byte_of d div 16 < 16" "byte_of d mod 16 < 16" using byte_of_less [of d] by simp_all
  have "c \<in> {hex_digit (byte_of d div 16), hex_digit (byte_of d mod 16)} \<Longrightarrow> 48 \<le> byte_of c \<and> byte_of c \<le> 70"
    using hex_digit_byte hex by auto
  then show ?case using Cons by (auto split: if_splits simp: byte_of_def)
qed

lemma ReplaceSpaces_collides: "ReplaceSpaces '' '' = ReplaceSpaces ''%20''"
  by (simp add: byte_of_def)

lemma length_two_digits: "n < 100 \<Longrightarrow> length (two_digits n) = 2"
proof -
  assume n: "n < 100"
  have "length (decimal n) \<le> 2" using length_decimal [of n 2] n by simp
  moreover have "n < 10 \<Longrightarrow> length (decimal n) = 1" by (subst decimal.simps) simp
  moreover have "\<not> n < 10 \<Longrightarrow> length (decimal n) \<ge> 2"
    by (subst decimal.simps) (simp add: Suc_leI)
  ultimately show ?thesis by (cases "n < 10") (auto simp: two_digits_def)
qed

text \<open>A calendar date always fits the buffer of 32 characters, with three to spare.\<close>

lemma RFC822_fits:
  assumes "tm_wday t < 7" and "tm_mon t < 12" and "tm_mday t < 32" and "tm_hour t < 24" and "tm_min t < 60"
    and "tm_sec t < 62" and "tm_year t < 8100"
  shows "\<exists>s. RFC822GMTTimeString t = Some s \<and> length s = 29"
proof -
  have "length (decimal (tm_year t + 1900)) \<le> 4" using assms(7) by (intro length_decimal) simp_all
  then have y: "length (four_wide (tm_year t + 1900)) = 4" by (simp add: four_wide_def)
  have "tm_wday t \<in> set [0..<7]" and "tm_mon t \<in> set [0..<12]" using assms by simp_all
  then have "length ([''Sun'', ''Mon'', ''Tue'', ''Wed'', ''Thu'', ''Fri'', ''Sat''] ! tm_wday t) = 3"
    and "length ([''Jan'', ''Feb'', ''Mar'', ''Apr'', ''May'', ''Jun'', ''Jul'', ''Aug'', ''Sep'', ''Oct'', ''Nov'', ''Dec''] ! tm_mon t) = 3"
    by (auto simp: upt_rec)
  then show ?thesis using assms y
    by (simp add: RFC822GMTTimeString_def length_two_digits Let_def)
qed

subsection \<open>What \<open>ResolvePath\<close> makes of a path\<close>

text \<open>A component that no rule for dots applies to: it does not end in a dot.\<close>

definition clean_name :: "string \<Rightarrow> bool" where
  "clean_name w \<longleftrightarrow> w \<noteq> [] \<and> DIR_MARKER \<notin> set w \<and> CHR 0x00 \<notin> set w \<and> last w \<noteq> CHR ''.''"

lemma resolve_Nil: "resolve_loop sep b [] = Some b"
  by (simp add: resolve_loop.simps)

lemma resolve_slash: "resolve_loop False b (DIR_MARKER # cs) = resolve_loop True (b @ [DIR_MARKER]) cs"
  by (subst resolve_loop.simps) simp

lemma resolve_slashes:
  "resolve_loop True (b @ [DIR_MARKER]) (replicate n DIR_MARKER @ cs) = resolve_loop True (b @ [DIR_MARKER]) cs"
proof (induction n)
  case 0
  show ?case by simp
next
  case (Suc n)
  then show ?case by (subst resolve_loop.simps) (cases b; simp)
qed

lemma resolve_sep: "cs \<noteq> [] \<Longrightarrow> hd cs \<noteq> DIR_MARKER \<Longrightarrow> resolve_loop sep b cs = resolve_loop False b cs"
  by (cases cs; subst (1 2) resolve_loop.simps) simp_all

lemma resolve_char:
  assumes "c \<noteq> DIR_MARKER" and "\<not> has_prefix ''./'' (c # cs)" and "\<not> has_prefix ''../'' (c # cs)"
  shows "resolve_loop sep b (c # cs) = resolve_loop False (b @ [c]) cs"
  using assms by (subst resolve_loop.simps) simp

lemma no_dot_prefix:
  assumes "DIR_MARKER \<notin> set (c # w)" and "last (c # w) \<noteq> CHR ''.''" and "rest = [] \<or> hd rest = DIR_MARKER"
  shows "\<not> has_prefix ''./'' (c # w @ rest)" and "\<not> has_prefix ''../'' (c # w @ rest)"
  using assms by (cases w; cases "tl w"; cases rest; auto simp: has_prefix_def split: if_splits)+

lemma resolve_name:
  "w \<noteq> [] \<Longrightarrow> DIR_MARKER \<notin> set w \<Longrightarrow> last w \<noteq> CHR ''.'' \<Longrightarrow> rest = [] \<or> hd rest = DIR_MARKER \<Longrightarrow>
   resolve_loop sep b (w @ rest) = resolve_loop False (b @ w) rest"
proof (induction w arbitrary: sep b)
  case Nil
  then show ?case by simp
next
  case (Cons c w)
  have "resolve_loop sep b ((c # w) @ rest) = resolve_loop False (b @ [c]) (w @ rest)"
    using no_dot_prefix [of c w rest] Cons.prems resolve_char [of c "w @ rest" sep b] by auto
  then show ?case using Cons by (cases "w = []") simp_all
qed

text \<open>Components after one or more separators, and the same with single separators.\<close>

definition spread :: "(nat \<times> string) list \<Rightarrow> string" where
  "spread ps = concat (map (\<lambda>(n, w). replicate (Suc n) DIR_MARKER @ w) ps)"

definition joined :: "(nat \<times> string) list \<Rightarrow> string" where
  "joined ps = concat (map (\<lambda>(n, w). DIR_MARKER # w) ps)"

lemma spread_hd: "spread ps = [] \<or> hd (spread ps) = DIR_MARKER"
  by (cases ps) (auto simp: spread_def)

lemma resolve_spread:
  "\<forall>(n, w) \<in> set ps. clean_name w \<Longrightarrow> rest = [] \<or> hd rest = DIR_MARKER \<Longrightarrow>
   resolve_loop False b (spread ps @ rest) = resolve_loop False (b @ joined ps) rest"
proof (induction ps arbitrary: b)
  case Nil
  then show ?case by (simp add: spread_def joined_def)
next
  case (Cons p ps)
  obtain n w where p: "p = (n, w)" by force
  then have w: "clean_name w" using Cons.prems by auto
  have hd: "spread ps @ rest = [] \<or> hd (spread ps @ rest) = DIR_MARKER"
    using spread_hd [of ps] Cons.prems(2) by (auto simp: hd_append)
  have "resolve_loop False b (spread (p # ps) @ rest) =
      resolve_loop True (b @ [DIR_MARKER]) (replicate n DIR_MARKER @ w @ spread ps @ rest)"
    by (simp add: spread_def p resolve_slash)
  also have "\<dots> = resolve_loop False (b @ DIR_MARKER # w) (spread ps @ rest)"
    using w hd resolve_name [of w "spread ps @ rest" True "b @ [DIR_MARKER]"]
    by (simp add: resolve_slashes clean_name_def)
  also have "\<dots> = resolve_loop False ((b @ DIR_MARKER # w) @ joined ps) rest"
    using Cons.prems by (intro Cons.IH) auto
  finally show ?case by (simp add: joined_def p)
qed

lemma joined_props:
  assumes "ps \<noteq> []" and "\<forall>(n, w) \<in> set ps. clean_name w"
  shows "joined ps \<noteq> []" and "last (joined ps) \<noteq> CHR ''.''" and "last (joined ps) \<noteq> DIR_MARKER"
    and "hd (joined ps) = DIR_MARKER" and "length (joined ps) \<ge> 2"
proof -
  obtain n w qs where ps: "ps = qs @ [(n, w)]" using assms(1) by (metis rev_exhaust surj_pair)
  then have w: "clean_name w" using assms(2) by auto
  then have "last w \<noteq> DIR_MARKER" using last_in_set [of w] by (metis clean_name_def)
  then show "joined ps \<noteq> []" "last (joined ps) \<noteq> CHR ''.''" "last (joined ps) \<noteq> DIR_MARKER" "length (joined ps) \<ge> 2"
    using w by (auto simp: joined_def ps clean_name_def neq_Nil_conv)
  show "hd (joined ps) = DIR_MARKER" using assms(1) by (cases ps) (auto simp: joined_def)
qed

lemma spread_no_nul: "\<forall>(n, w) \<in> set ps. clean_name w \<Longrightarrow> CHR 0x00 \<notin> set (spread ps)"
  by (auto simp: spread_def clean_name_def)

lemma ResolvePath_absolute:
  assumes "p \<noteq> []" and "hd p = DIR_MARKER" and "CHR 0x00 \<notin> set p"
  shows "ResolvePath cwd p = do { s1 \<leftarrow> resolve_loop False [] p; s2 \<leftarrow> resolve_dots s1; Some (resolve_separator s2) }"
  using assms by (simp add: ResolvePath_def IsRelative_def c_str_id)

lemma ResolvePath_spread:
  assumes ne: "ps \<noteq> []" and clean: "\<forall>(n, w) \<in> set ps. clean_name w"
  shows "ResolvePath cwd (spread ps @ replicate m DIR_MARKER) = Some (joined ps)"
proof -
  let ?p = "spread ps @ replicate m DIR_MARKER"
  note j = joined_props [OF ne clean]
  have sp: "spread ps \<noteq> []" "hd (spread ps) = DIR_MARKER" using ne by (cases ps; auto simp: spread_def)+
  have "ResolvePath cwd ?p = do { s1 \<leftarrow> resolve_loop False [] ?p; s2 \<leftarrow> resolve_dots s1; Some (resolve_separator s2) }"
    using sp spread_no_nul [OF clean] by (intro ResolvePath_absolute) auto
  moreover have "resolve_loop False [] ?p = Some (if m = 0 then joined ps else joined ps @ [DIR_MARKER])"
    using resolve_spread [OF clean, of "replicate m DIR_MARKER" "[]"]
      resolve_slashes [of "joined ps" "m - 1" "[]"]
    by (cases m) (simp_all add: resolve_Nil resolve_slash)
  moreover have "resolve_dots (if m = 0 then joined ps else joined ps @ [DIR_MARKER]) =
      Some (if m = 0 then joined ps else joined ps @ [DIR_MARKER])"
    using j by (simp add: resolve_dots_def)
  moreover have "resolve_separator (if m = 0 then joined ps else joined ps @ [DIR_MARKER]) = joined ps"
    using j by (simp add: resolve_separator_def)
  ultimately show ?thesis by simp
qed

text \<open>One step up, below a directory.\<close>

lemma last_dir_found:
  assumes "DIR_MARKER \<notin> set w" and "P \<noteq> []" and "j \<le> length w"
  shows "last_dir (P @ DIR_MARKER # w @ [DIR_MARKER]) (length P + j) = (True, Suc (length P))"
  using assms(3)
proof (induction j)
  case 0
  obtain n where "length P = Suc n" using assms(2) by (cases P) auto
  then show ?case by (simp add: nth_append)
next
  case (Suc j)
  have "(P @ DIR_MARKER # w @ [DIR_MARKER]) ! Suc (length P + j) = w ! j"
    using Suc.prems by (simp add: nth_append)
  moreover have "w ! j \<noteq> DIR_MARKER" using Suc.prems assms(1) nth_mem [of j w] by (metis Suc_le_lessD)
  ultimately show ?case using Suc by simp
qed

lemma resolve_up:
  assumes "DIR_MARKER \<notin> set w" and "P \<noteq> []" and "w \<noteq> []"
  shows "resolve_loop sep (P @ DIR_MARKER # w @ [DIR_MARKER]) (''../'' @ cs) = resolve_loop False (P @ [DIR_MARKER]) cs"
proof -
  have "last_dir (P @ DIR_MARKER # w @ [DIR_MARKER]) (length P + length w) = (True, Suc (length P))"
    using assms by (intro last_dir_found) auto
  then show ?thesis by (subst resolve_loop.simps) (simp add: has_prefix_def Let_def)
qed

lemma resolve_stuck: "resolve_loop sep [DIR_MARKER] (''../'' @ cs) = None"
proof (rule ccontr)
  assume "resolve_loop sep [DIR_MARKER] (''../'' @ cs) \<noteq> None"
  then obtain r where r: "resolve_loop sep [DIR_MARKER] (''../'' @ cs) = Some r" by auto
  have "\<not> ([DIR_MARKER] = [DIR_MARKER] \<and> has_prefix ''../'' (''../'' @ cs))"
  proof (rule resolve_loop.raw_induct
      [where P = "\<lambda>sep b rest r. \<not> (b = [DIR_MARKER] \<and> has_prefix ''../'' rest)", OF _ r])
    fix f sep b rest r
    assume IH: "\<And>sep b rest r. f sep b rest = Some r \<Longrightarrow> \<not> (b = [DIR_MARKER] \<and> has_prefix ''../'' rest)"
      and step: "(case rest of [] \<Rightarrow> Some b
     | c # cs \<Rightarrow>
         if c = DIR_MARKER then
           (if sep then (case b of [] \<Rightarrow> None | _ # _ \<Rightarrow> f sep (butlast b @ [c]) cs)
            else f True (b @ [c]) cs)
         else if has_prefix ''./'' rest then f False b (drop 2 rest)
         else if has_prefix ''../'' rest \<and> b \<noteq> [] then
           (if length b \<ge> 2 then
              let (found, lastDir) = last_dir b (length b - 2)
              in f False (take lastDir b) (drop 3 rest)
            else f False b rest)
         else f False (b @ [c]) cs) = Some r"
    show "\<not> (b = [DIR_MARKER] \<and> has_prefix ''../'' rest)"
    proof
      assume A: "b = [DIR_MARKER] \<and> has_prefix ''../'' rest"
      then obtain ds where "rest = ''../'' @ ds" by (metis append_take_drop_id has_prefix_def)
      then have "f False b rest = Some r" using step A by (simp add: has_prefix_def)
      then show False using IH A by blast
    qed
  qed
  then show False by (simp add: has_prefix_def)
qed

lemma last_dir_none: "\<forall>i. 0 < i \<and> i \<le> n \<longrightarrow> buf ! i \<noteq> DIR_MARKER \<Longrightarrow> last_dir buf n = (False, 0)"
  by (induction n) auto



text \<open>
  At the root \<open>ResolvePath\<close> fails: \<open>/../\<close> makes the loop run forever, \<open>/name/../rest\<close>
  loses the leading separator and becomes relative, and a name that ends in a dot loses the dot
  with the separator after it.
\<close>

theorem ResolvePath_at_root:
  assumes w: "clean_name w" and v: "clean_name v" and s: "CHR 0x00 \<notin> set s"
  shows "ResolvePath cwd (''/../'' @ s) = None \<and> ResolvePath cwd (DIR_MARKER # w @ ''/../'' @ v) = Some v \<and>
    ResolvePath cwd ''/a./b'' = Some ''/ab''"
proof (intro conjI)
  have "ResolvePath cwd (''/../'' @ s) =
      do { s1 \<leftarrow> resolve_loop False [] (''/../'' @ s); s2 \<leftarrow> resolve_dots s1; Some (resolve_separator s2) }"
    using s by (intro ResolvePath_absolute) auto
  then show "ResolvePath cwd (''/../'' @ s) = None"
    using resolve_stuck [of True s] by (simp add: resolve_slash)
  let ?p = "DIR_MARKER # w @ ''/../'' @ v"
  have nw: "DIR_MARKER \<notin> set w" "w \<noteq> []" and nv: "v \<noteq> []" "DIR_MARKER \<notin> set v" "last v \<noteq> CHR ''.''"
    using w v by (simp_all add: clean_name_def)
  have "CHR 0x00 \<notin> set ?p" using w v by (auto simp: clean_name_def)
  then have abs: "ResolvePath cwd ?p =
      do { s1 \<leftarrow> resolve_loop False [] ?p; s2 \<leftarrow> resolve_dots s1; Some (resolve_separator s2) }"
    by (intro ResolvePath_absolute) auto
  have none: "last_dir (DIR_MARKER # w @ [DIR_MARKER]) (length w) = (False, 0)"
  proof (rule last_dir_none, intro allI impI)
    fix i assume "0 < i \<and> i \<le> length w"
    then obtain j where "i = Suc j" "j < length w" by (cases i) auto
    then have "(DIR_MARKER # w @ [DIR_MARKER]) ! i = w ! j" by (simp add: nth_append)
    then show "(DIR_MARKER # w @ [DIR_MARKER]) ! i \<noteq> DIR_MARKER"
      using nw(1) nth_mem [OF \<open>j < length w\<close>] by metis
  qed
  have "resolve_loop False [] ?p = resolve_loop True [DIR_MARKER] (w @ ''/../'' @ v)"
    by (simp add: resolve_slash)
  also have "\<dots> = resolve_loop False (DIR_MARKER # w) (''/../'' @ v)"
    using w resolve_name [of w "''/../'' @ v" True "[DIR_MARKER]"] by (simp add: clean_name_def)
  also have "\<dots> = resolve_loop True (DIR_MARKER # w @ [DIR_MARKER]) (''../'' @ v)" by (simp add: resolve_slash)
  also have "\<dots> = resolve_loop False [] v"
    by (subst resolve_loop.simps) (simp add: has_prefix_def none)
  also have "\<dots> = Some v" using resolve_name [OF nv, of "[]" False "[]"] by (simp add: resolve_Nil)
  finally have "resolve_loop False [] ?p = Some v" .
  moreover have "last v \<noteq> DIR_MARKER" using nv last_in_set [of v] by metis
  ultimately show "ResolvePath cwd ?p = Some v"
    using abs nv by (simp add: resolve_dots_def resolve_separator_def)
  show "ResolvePath cwd ''/a./b'' = Some ''/ab''"
    by (simp add: ResolvePath_def IsRelative_def resolve_loop.simps has_prefix_def resolve_dots_def resolve_separator_def)
qed

theorem ResolvePath_at_root_witness:
  "ResolvePath ''/root'' ''/../usr'' = None \<and> ResolvePath ''/root'' ''/tmp/../usr'' = Some ''usr''"
  using ResolvePath_at_root [of "''tmp''" "''usr''" "''usr''" "''/root''"] by (simp add: clean_name_def)

end
