(* ===== verification/PrefStrings.thy ===== *)
theory PrefStrings
  imports CStrings ErrorCodes
begin

section \<open>The strings of the preferences file\<close>

text \<open>
  \<open>ScanQuotableString\<close>, \<open>ReadQuotableString\<close>, \<open>PrepareQuotableString\<close> and \<open>WriteQuotableString\<close>
  of \<open>base/unix/src/unixprefs.cpp\<close>. A C string is the list of the characters before its NUL. The
  two-pass protocol (measure, allocate, fill) is kept: \<open>quoted_length\<close> is what the first pass
  computes, \<open>quoted_text\<close> what the second pass writes into the block allocated for it. The lengths
  are natural numbers; they are the \<open>int32\<close> of the code for strings below \<open>2 ^ 29\<close> characters.
\<close>

subsection \<open>Reading\<close>

text \<open>The escape after a backslash: the character and what follows.\<close>

definition octal_digit :: "nat \<Rightarrow> char \<Rightarrow> bool" where
  "octal_digit m c \<longleftrightarrow> 48 \<le> byte_of c \<and> byte_of c \<le> 48 + m"

fun read_escape :: "string \<Rightarrow> (char \<times> string) option" where
  "read_escape [] = None"
| "read_escape (c # cs) =
     (if c = CHR 0x5C then Some (CHR 0x5C, cs)
      else if c = CHR 0x22 then Some (CHR 0x22, cs)
      else if c = CHR ''n'' then Some (CHR 0x0A, cs)
      else if c = CHR ''t'' then Some (CHR 0x09, cs)
      else (case cs of
          d # e # rest \<Rightarrow>
            if octal_digit 3 c \<and> octal_digit 7 d \<and> octal_digit 7 e
            then Some (char_of (64 * (byte_of c - 48) + 8 * (byte_of d - 48) + (byte_of e - 48)), rest)
            else None
        | _ \<Rightarrow> None))"

lemma read_escape_length: "read_escape cs = Some (c, rest) \<Longrightarrow> length rest < length cs"
  by (cases cs rule: read_escape.cases) (auto split: if_splits list.splits)

text \<open>The loop: the error, what \<open>endPtr\<close> points to, and the characters put out.\<close>

function scan_loop :: "string \<Rightarrow> bool \<Rightarrow> string \<Rightarrow> error \<times> string \<times> string" where
  "scan_loop delim quoted [] = (kError_NoErr, [], [])"
| "scan_loop delim quoted (c # cs) =
     (if c = CHR 0x22 \<and> quoted then (kError_NoErr, cs, [])
      else if (c_isspace c \<or> c \<in> set delim) \<and> \<not> quoted then (kError_NoErr, c # cs, [])
      else if c = CHR 0x5C \<and> quoted then (case read_escape cs of
          None \<Rightarrow> (kError_SyntaxError, cs, [])
        | Some (ch, rest) \<Rightarrow>
            (let (e, endPtr, out) = scan_loop delim quoted rest in (e, endPtr, ch # out)))
      else if c = CHR 0x0A then (if quoted then (kError_SyntaxError, c # cs, []) else (kError_NoErr, c # cs, []))
      else (let (e, endPtr, out) = scan_loop delim quoted cs in (e, endPtr, c # out)))"
  by pat_completeness auto
termination
  by (relation "measure (\<lambda>(delim, quoted, cs). length cs)") (auto dest: read_escape_length)

definition ScanQuotableString :: "string \<Rightarrow> string \<Rightarrow> error \<times> string \<times> string" where
  "ScanQuotableString delim s =
     (if s \<noteq> [] \<and> hd s = CHR 0x22 then scan_loop delim True (tl s) else scan_loop delim False s)"

text \<open>The string read, if any, and what follows it.\<close>

definition ReadQuotableString :: "string \<Rightarrow> string \<Rightarrow> string option \<times> string" where
  "ReadQuotableString delim s =
     (let (e, endPtr, out) = ScanQuotableString delim s
      in (if IsError e then None else Some out, endPtr))"

subsection \<open>Writing\<close>

text \<open>What the second pass writes for one character, and what both passes count for it.\<close>

definition quote_char :: "string \<Rightarrow> bool \<Rightarrow> char \<Rightarrow> string" where
  "quote_char delim quoted c =
     (if c \<in> set delim \<or> c = CHR '' '' then [c]
      else if c = CHR 0x5C \<or> c = CHR 0x22 then (if quoted then [CHR 0x5C, c] else [c])
      else if c = CHR 0x0A \<or> c = CHR 0x09 then [CHR 0x5C, if c = CHR 0x0A then CHR ''n'' else CHR ''t'']
      else if c_isspace c \<or> \<not> c_isgraph c
      then [CHR 0x5C, digit_char (byte_of c div 64), digit_char (byte_of c div 8 mod 8), digit_char (byte_of c mod 8)]
      else [c])"

definition char_needs_quotes :: "string \<Rightarrow> char \<Rightarrow> bool" where
  "char_needs_quotes delim c \<longleftrightarrow> c \<in> set delim \<or> c = CHR '' '' \<or>
     (c \<noteq> CHR 0x5C \<and> c \<noteq> CHR 0x22 \<and> (c = CHR 0x0A \<or> c = CHR 0x09 \<or> c_isspace c \<or> \<not> c_isgraph c))"

definition quoted_width :: "string \<Rightarrow> char \<Rightarrow> nat" where
  "quoted_width delim c =
     (if c \<in> set delim \<or> c = CHR '' '' then 1
      else if c = CHR 0x5C \<or> c = CHR 0x22 then 2
      else if c = CHR 0x0A \<or> c = CHR 0x09 then 2
      else if c_isspace c \<or> \<not> c_isgraph c then 4 else 1)"

definition unquoted_width :: "string \<Rightarrow> char \<Rightarrow> nat" where
  "unquoted_width delim c =
     (if c \<in> set delim \<or> c = CHR '' '' then 0
      else if c = CHR 0x5C \<or> c = CHR 0x22 then 1
      else if c = CHR 0x0A \<or> c = CHR 0x09 then 0
      else if c_isspace c \<or> \<not> c_isgraph c then 0 else 1)"

text \<open>
  \<open>PrepareQuotableString\<close>: the value of \<open>*needQuotes\<close> afterwards, the text written when there is an
  output block (without its NUL) and \<open>*lengthPtr\<close>.
\<close>

definition PrepareQuotableString :: "string \<Rightarrow> bool \<Rightarrow> string \<Rightarrow> bool \<times> string \<times> nat" where
  "PrepareQuotableString delim quoted str =
     (let needQuotes = (quoted \<or> (str \<noteq> [] \<and> hd str = CHR 0x22) \<or> (\<exists>c \<in> set str. char_needs_quotes delim c));
          body = concat (map (quote_char delim quoted) str)
      in (needQuotes, if quoted then [CHR 0x22] @ body @ [CHR 0x22] else body,
          if needQuotes then 2 + sum_list (map (quoted_width delim) str)
          else sum_list (map (unquoted_width delim) str)))"

text \<open>The text and the size of the block it was written to, without the NUL.\<close>

definition WriteQuotableString :: "string \<Rightarrow> string \<Rightarrow> string \<times> nat" where
  "WriteQuotableString delim str =
     (let (needQuotes, _, len) = PrepareQuotableString delim False str;
          (_, out, _) = PrepareQuotableString delim needQuotes str
      in (out, len))"

subsection \<open>The written text fits and reads back\<close>

lemma length_quote_char_quoted: "length (quote_char delim True c) = quoted_width delim c"
  by (simp add: quote_char_def quoted_width_def)

lemma length_quote_char_plain:
  "\<not> char_needs_quotes delim c \<Longrightarrow>
   quote_char delim False c = [c] \<and> unquoted_width delim c = 1"
  by (auto simp: quote_char_def unquoted_width_def char_needs_quotes_def)

lemma WriteQuotableString_fits: "length (fst (WriteQuotableString delim s)) = snd (WriteQuotableString delim s)"
proof (cases "fst (PrepareQuotableString delim False s)")
  case True
  have "length (concat (map (quote_char delim True) s)) = sum_list (map (quoted_width delim) s)"
    by (induction s) (simp_all add: length_quote_char_quoted)
  then show ?thesis using True by (simp add: WriteQuotableString_def PrepareQuotableString_def Let_def)
next
  case False
  then have "\<forall>c \<in> set s. \<not> char_needs_quotes delim c"
    by (simp add: PrepareQuotableString_def Let_def)
  then have "length (concat (map (quote_char delim False) s)) = sum_list (map (unquoted_width delim) s)"
    by (induction s) (simp_all add: length_quote_char_plain)
  then show ?thesis using False by (auto simp: WriteQuotableString_def PrepareQuotableString_def Let_def)
qed

lemma read_escape_octal:
  "read_escape (digit_char (byte_of c div 64) # digit_char (byte_of c div 8 mod 8) #
     digit_char (byte_of c mod 8) # rest) = Some (c, rest)"
proof -
  let ?a = "byte_of c div 64" and ?b = "byte_of c div 8 mod 8" and ?d = "byte_of c mod 8"
  have a: "?a \<le> 3" using byte_of_less [of c] by simp
  have "?a = byte_of c div 8 div 8" by (simp add: div_mult2_eq [symmetric])
  then have "byte_of c = 64 * ?a + 8 * ?b + ?d"
    using div_mult_mod_eq [of "byte_of c" 8] div_mult_mod_eq [of "byte_of c div 8" 8] by linarith
  then have v: "char_of (64 * ?a + 8 * ?b + ?d) = c" using char_of_byte_of [of c] by simp
  have "byte_of (digit_char ?a) = 48 + ?a" using a by simp
  then have ne: "digit_char ?a \<noteq> CHR 0x5C" "digit_char ?a \<noteq> CHR 0x22" "digit_char ?a \<noteq> CHR ''n''"
    "digit_char ?a \<noteq> CHR ''t''"
    using a by (auto intro!: byte_of_neq)
  have "octal_digit 3 (digit_char ?a)" "octal_digit 7 (digit_char ?b)" "octal_digit 7 (digit_char ?d)"
    using a by (simp_all add: octal_digit_def)
  then show ?thesis using ne v a by simp
qed

text \<open>The delimiters the file is written and read with.\<close>

definition plain_delims :: "string \<Rightarrow> bool" where
  "plain_delims delim \<longleftrightarrow> set delim \<subseteq> {CHR '':'', CHR ''#''}"

lemma scan_plain_char:
  "c \<noteq> CHR 0x22 \<Longrightarrow> c \<noteq> CHR 0x5C \<Longrightarrow> c \<noteq> CHR 0x0A \<Longrightarrow>
   scan_loop d True (c # rest) = (let (e, endPtr, out) = scan_loop d True rest in (e, endPtr, c # out))"
  by simp

lemma scan_escape:
  "read_escape cs = Some (c, rest) \<Longrightarrow>
   scan_loop d True (CHR 0x5C # cs) = (let (e, endPtr, out) = scan_loop d True rest in (e, endPtr, c # out))"
  by simp

lemma scan_quote_char:
  assumes "plain_delims delim"
  shows "scan_loop d True (quote_char delim True c @ rest) =
    (let (e, endPtr, out) = scan_loop d True rest in (e, endPtr, c # out))"
proof -
  have d: "c \<in> set delim \<Longrightarrow> c \<noteq> CHR 0x22 \<and> c \<noteq> CHR 0x5C \<and> c \<noteq> CHR 0x0A"
    using assms by (auto simp: plain_delims_def)
  have "quote_char delim True c = [c] \<and> c \<noteq> CHR 0x22 \<and> c \<noteq> CHR 0x5C \<and> c \<noteq> CHR 0x0A \<or>
    quote_char delim True c = [CHR 0x5C, c] \<and> (c = CHR 0x5C \<or> c = CHR 0x22) \<or>
    quote_char delim True c = [CHR 0x5C, if c = CHR 0x0A then CHR ''n'' else CHR ''t''] \<and>
      (c = CHR 0x0A \<or> c = CHR 0x09) \<or>
    quote_char delim True c = [CHR 0x5C, digit_char (byte_of c div 64),
      digit_char (byte_of c div 8 mod 8), digit_char (byte_of c mod 8)]"
    using d by (simp add: quote_char_def)
  then consider (plain) "quote_char delim True c = [c]" "c \<noteq> CHR 0x22" "c \<noteq> CHR 0x5C" "c \<noteq> CHR 0x0A"
    | (special) "quote_char delim True c = [CHR 0x5C, c]" "c = CHR 0x5C \<or> c = CHR 0x22"
    | (control) "quote_char delim True c = [CHR 0x5C, if c = CHR 0x0A then CHR ''n'' else CHR ''t'']"
        "c = CHR 0x0A \<or> c = CHR 0x09"
    | (octal) "quote_char delim True c = [CHR 0x5C, digit_char (byte_of c div 64),
        digit_char (byte_of c div 8 mod 8), digit_char (byte_of c mod 8)]"
    by blast
  then show ?thesis
  proof cases
    case plain
    then show ?thesis using scan_plain_char [of c d rest] by simp
  next
    case special
    then have "read_escape (c # rest) = Some (c, rest)" by auto
    then show ?thesis by (simp only: special(1) append_Cons append_Nil scan_escape)
  next
    case control
    then have "read_escape ((if c = CHR 0x0A then CHR ''n'' else CHR ''t'') # rest) = Some (c, rest)" by auto
    then show ?thesis by (simp only: control(1) append_Cons append_Nil scan_escape)
  next
    case octal
    then show ?thesis by (simp only: append_Cons append_Nil scan_escape [OF read_escape_octal])
  qed
qed

lemma scan_quoted:
  assumes "plain_delims delim"
  shows "scan_loop d True (concat (map (quote_char delim True) s) @ CHR 0x22 # rest) = (kError_NoErr, rest, s)"
  by (induction s) (simp_all add: scan_quote_char [OF assms])

definition stops_scan :: "string \<Rightarrow> string \<Rightarrow> bool" where
  "stops_scan delim rest \<longleftrightarrow> rest = [] \<or> c_isspace (hd rest) \<or> hd rest \<in> set delim"

lemma plain_char:
  assumes "\<not> char_needs_quotes delim c"
  shows "\<not> c_isspace c \<and> c \<notin> set delim \<and> c \<noteq> CHR 0x0A"
  using assms unfolding char_needs_quotes_def by (metis isspace_consts)

lemma scan_plain:
  assumes "\<forall>c \<in> set s. \<not> char_needs_quotes delim c" and "stops_scan delim rest"
  shows "scan_loop delim False (s @ rest) = (kError_NoErr, rest, s)"
  using assms(1)
proof (induction s)
  case Nil
  then show ?case using assms(2) by (cases rest) (auto simp: stops_scan_def)
next
  case (Cons c s)
  then have "\<not> c_isspace c" "c \<notin> set delim" "c \<noteq> CHR 0x0A"
    using plain_char [of delim c] by auto
  with Cons show ?case by simp
qed

lemma plain_text:
  "\<forall>c \<in> set s. \<not> char_needs_quotes delim c \<Longrightarrow> concat (map (quote_char delim False) s) = s"
  by (induction s) (simp_all add: length_quote_char_plain)

lemma read_write:
  assumes "plain_delims delim" and "stops_scan delim rest"
  shows "ReadQuotableString delim (fst (WriteQuotableString delim s) @ rest) = (Some s, rest)"
proof (cases "fst (PrepareQuotableString delim False s)")
  case True
  then have "fst (WriteQuotableString delim s) = CHR 0x22 # concat (map (quote_char delim True) s) @ [CHR 0x22]"
    by (simp add: WriteQuotableString_def PrepareQuotableString_def Let_def)
  then show ?thesis
    using scan_quoted [OF assms(1), of delim s rest]
    by (simp add: ReadQuotableString_def ScanQuotableString_def IsError_def)
next
  case False
  then have plain: "\<forall>c \<in> set s. \<not> char_needs_quotes delim c" and hd: "s = [] \<or> hd s \<noteq> CHR 0x22"
    by (simp_all add: PrepareQuotableString_def Let_def)
  have "fst (WriteQuotableString delim s) = s"
    using False plain_text [OF plain] by (auto simp: WriteQuotableString_def PrepareQuotableString_def Let_def)
  moreover have "\<not> (s @ rest \<noteq> [] \<and> hd (s @ rest) = CHR 0x22)"
    using hd assms by (cases s) (auto simp: stops_scan_def plain_delims_def)
  ultimately show ?thesis
    using scan_plain [OF plain assms(2)]
    by (auto simp: ReadQuotableString_def ScanQuotableString_def IsError_def)
qed

lemmas read_write_key = read_write [of "'':#''"]
lemmas read_write_value = read_write [of "''#''"]

text \<open>
  The quoting of the preferences file round-trips: for every string, the text written fits
  exactly into the block the first pass measured, and reading it back, before a delimiter, white
  space or the end, gives the string and stops where the text ends.
\<close>

theorem quotable_string_roundtrip:
  "length (fst (WriteQuotableString ''#'' s)) = snd (WriteQuotableString ''#'' s) \<and>
   ReadQuotableString ''#'' (fst (WriteQuotableString ''#'' s) @ [CHR 0x0A]) = (Some s, [CHR 0x0A]) \<and>
   length (fst (WriteQuotableString '':#'' s)) = snd (WriteQuotableString '':#'' s) \<and>
   ReadQuotableString '':#'' (fst (WriteQuotableString '':#'' s) @ '': '') = (Some s, '': '')"
  by (simp add: WriteQuotableString_fits read_write plain_delims_def stops_scan_def)

end
