(* ===== verification/UnixPrefs.thy ===== *)
theory UnixPrefs
  imports PrefStrings Preferences
begin

section \<open>The preferences file\<close>

text \<open>
  \<open>class UnixPrefs\<close> of \<open>base/unix/src/unixprefs.cpp\<close>: the entries of the file in their order,
  each with the text around its key and value, and a map from keys to entries. Entries are never
  removed, so the pointer to an entry is its position in \<open>up_entries\<close>. The file system is a map
  from paths to contents; whether \<open>fopen\<close>, the writes and \<open>rename\<close> succeed is given by a
  record \<open>save_env\<close>. \<open>PrefixPrefs\<close> (\<open>base/src/prefixprefs.cpp\<close>) puts a component's name in front
  of the keys. Both are shown to be a \<open>pref_store\<close>.
\<close>

record unix_entry =
  e_prefix :: "string option"
  e_key :: "string option"
  e_separator :: "string option"
  e_value :: "string option"
  e_suffix :: "string option"

record unix_prefs =
  up_entries :: "unix_entry list"
  up_ht :: "string \<rightharpoonup> nat"
  up_errorLine :: nat
  up_saveEnable :: bool
  up_changed :: bool
  up_path :: string

definition new_entry :: unix_entry where
  "new_entry = \<lparr>e_prefix = None, e_key = None, e_separator = None, e_value = None, e_suffix = None\<rparr>"

definition AppendToString :: "string option \<Rightarrow> string \<Rightarrow> string option" where
  "AppendToString dest src = Some ((case dest of None \<Rightarrow> [] | Some old \<Rightarrow> old) @ src)"

subsection \<open>Reading and setting a value\<close>

definition up_GetPrefString :: "unix_prefs get_string" where
  "up_GetPrefString u pref len = (case up_ht u (c_str pref) of
       None \<Rightarrow> Some (kError_NoPrefValue, [], 0)
     | Some i \<Rightarrow> do {
         entry \<leftarrow> vec_at (up_entries u) i;
         Some (case e_value entry of
             None \<Rightarrow> (kError_NoPrefValue, [], 0)
           | Some value \<Rightarrow>
               let value_len = length value + 1
               in if value_len > len then (kError_BufferTooSmall, [], value_len)
                  else (kError_NoErr, value, value_len))
       })"

definition up_SetPrefString :: "unix_prefs set_string" where
  "up_SetPrefString u pref buf = (case up_ht u (c_str pref) of
       None \<Rightarrow>
         let entry = new_entry\<lparr>e_key := AppendToString None (c_str pref),
               e_separator := AppendToString None '': '', e_suffix := AppendToString None [CHR 0x0A]\<rparr>;
             entry = entry\<lparr>e_value := AppendToString (e_value entry) (c_str buf)\<rparr>
         in Some (kError_NoErr, u\<lparr>up_entries := up_entries u @ [entry],
              up_ht := (up_ht u)(c_str pref \<mapsto> length (up_entries u)), up_changed := True\<rparr>)
     | Some i \<Rightarrow> do {
         entry \<leftarrow> vec_at (up_entries u) i;
         let entry = entry\<lparr>e_value := None\<rparr>;
         let entry = entry\<lparr>e_value := AppendToString (e_value entry) (c_str buf)\<rparr>;
         entries \<leftarrow> vec_set (up_entries u) i entry;
         Some (kError_NoErr, u\<lparr>up_entries := entries, up_changed := True\<rparr>)
       })"

definition AppendStringsWithDot :: "string \<Rightarrow> string \<Rightarrow> string" where
  "AppendStringsWithDot a b = c_str a @ CHR ''.'' # c_str b"

definition pp_GetPrefString :: "'s get_string \<Rightarrow> string \<Rightarrow> 's get_string" where
  "pp_GetPrefString getp prefix s pref len = getp s (AppendStringsWithDot prefix pref) len"

definition pp_SetPrefString :: "'s set_string \<Rightarrow> string \<Rightarrow> 's set_string" where
  "pp_SetPrefString setp prefix s pref buf = setp s (AppendStringsWithDot prefix pref) buf"

definition pp_ComponentPrefs :: "string \<Rightarrow> string \<Rightarrow> string" where
  "pp_ComponentPrefs prefix componentName = AppendStringsWithDot prefix componentName"

subsection \<open>Loading the file\<close>

text \<open>\<open>fgets(buffer, 1023, f)\<close>: at most 1022 characters, up to and including a newline.\<close>

fun fgets_chunk :: "nat \<Rightarrow> string \<Rightarrow> string \<times> string" where
  "fgets_chunk 0 s = ([], s)"
| "fgets_chunk (Suc n) [] = ([], [])"
| "fgets_chunk (Suc n) (c # cs) =
     (if c = CHR 0x0A then ([c], cs) else let (l, rest) = fgets_chunk n cs in (c # l, rest))"

lemma fgets_chunk_length: "snd (fgets_chunk n s) = drop (length (fst (fgets_chunk n s))) s"
  by (induction n s rule: fgets_chunk.induct) (auto split: prod.splits)

lemma fgets_chunk_nonempty: "0 < n \<Longrightarrow> s \<noteq> [] \<Longrightarrow> fst (fgets_chunk n s) \<noteq> []"
  by (cases n; cases s) (auto split: prod.splits)

function file_chunks :: "nat \<Rightarrow> string \<Rightarrow> string list" where
  "file_chunks n s = (if s = [] \<or> n = 0 then []
     else fst (fgets_chunk n s) # file_chunks n (snd (fgets_chunk n s)))"
  by pat_completeness auto
termination
proof (relation "measure (\<lambda>(n, s). length s)")
  fix n :: nat and s :: string
  assume "\<not> (s = [] \<or> n = 0)"
  then have "fst (fgets_chunk n s) \<noteq> []" and "s \<noteq> []" using fgets_chunk_nonempty by auto
  then show "((n, snd (fgets_chunk n s)), (n, s)) \<in> measure (\<lambda>(n, s). length s)"
    by (simp add: fgets_chunk_length)
qed simp

declare file_chunks.simps [simp del]

definition is_blank :: "char \<Rightarrow> bool" where
  "is_blank c \<longleftrightarrow> c = CHR '' '' \<or> c = CHR 0x09"

lemma is_blank_consts [simp]:
  "is_blank (CHR '' '')" "is_blank (CHR 0x09)" "\<not> is_blank (CHR '':'')" "\<not> is_blank (CHR ''#'')"
  "\<not> is_blank (CHR 0x0A)" "\<not> is_blank (CHR 0x00)" "\<not> is_blank (CHR 0x22)"
  by (simp_all add: is_blank_def)

lemma is_blank_isspace: "is_blank c \<Longrightarrow> c_isspace c"
  by (auto simp: is_blank_def)

record load_state =
  ld_entries :: "unix_entry list"
  ld_ht :: "string \<rightharpoonup> nat"
  ld_errorLine :: nat
  ld_lineNumber :: nat
  ld_entry :: unix_entry

definition ld_error :: "bool \<Rightarrow> load_state \<Rightarrow> load_state" where
  "ld_error bad l = (if bad \<and> ld_errorLine l = 0 then l\<lparr>ld_errorLine := ld_lineNumber l\<rparr> else l)"

text \<open>
  The body of the loop for one buffer \<open>line\<close>. The loop that means to skip leading blanks tests
  for a character that is a space and a tab at once, so it skips nothing.
\<close>

definition load_data :: "string \<Rightarrow> load_state \<Rightarrow> load_state" where
  "load_data line l =
     (let (key, r) = ReadQuotableString '':#'' line;
          l1 = l\<lparr>ld_entry := (ld_entry l)\<lparr>e_key := key\<rparr>\<rparr>
      in if key \<noteq> None \<and> the key \<noteq> [] \<and> hd (the key) = CHR ''/'' then l1
         else
           let new = (key \<noteq> None \<and> ld_ht l1 (the key) = None);
               l2 = (if new then l1\<lparr>ld_ht := (ld_ht l1)(the key \<mapsto> length (ld_entries l1))\<rparr> else l1);
               l3 = ld_error (\<not> new) l2;
               p1 = dropWhile is_blank r;
               colon = (p1 \<noteq> [] \<and> hd p1 = CHR '':'');
               l4 = ld_error (\<not> colon) l3;
               p2 = dropWhile is_blank (if colon then tl p1 else p1);
               sep = take (length r - length p2) r;
               (value, p3) = ReadQuotableString ''#'' p2;
               l5 = ld_error (value = None) l4;
               suffix = (if last line = CHR 0x0A then p3 else p3 @ [CHR 0x0A]);
               e = (ld_entry l5)\<lparr>e_separator := AppendToString (e_separator (ld_entry l5)) sep,
                     e_value := value, e_suffix := AppendToString (e_suffix (ld_entry l5)) suffix\<rparr>
           in l5\<lparr>ld_entries := ld_entries l5 @ [e], ld_entry := new_entry\<rparr>)"

definition load_line :: "string \<Rightarrow> load_state \<Rightarrow> load_state" where
  "load_line line l =
     (let l = l\<lparr>ld_lineNumber := Suc (ld_lineNumber l)\<rparr>; line = c_str line
      in if line = [] then l
         else if hd line = CHR ''#''
         then l\<lparr>ld_entry := (ld_entry l)\<lparr>e_prefix := AppendToString (e_prefix (ld_entry l)) line\<rparr>\<rparr>
         else load_data line l)"

definition load_start :: load_state where
  "load_start = \<lparr>ld_entries = [], ld_ht = Map.empty, ld_errorLine = 0, ld_lineNumber = 0, ld_entry = new_entry\<rparr>"

definition up_load :: "string \<Rightarrow> string \<Rightarrow> unix_prefs" where
  "up_load path text =
     (let l = fold load_line (file_chunks 1022 text) load_start
      in \<lparr>up_entries = ld_entries l @ (if e_prefix (ld_entry l) \<noteq> None then [ld_entry l] else []),
          up_ht = ld_ht l, up_errorLine = ld_errorLine l, up_saveEnable = (ld_errorLine l = 0),
          up_changed = False, up_path = path\<rparr>)"

subsection \<open>Saving\<close>

definition entry_text :: "unix_entry \<Rightarrow> string" where
  "entry_text e =
     (case e_prefix e of None \<Rightarrow> [] | Some p \<Rightarrow> p) @
     (case (e_key e, e_separator e, e_value e) of
        (Some k, Some sep, Some v) \<Rightarrow>
          fst (WriteQuotableString '':#'' k) @ sep @ fst (WriteQuotableString ''#'' v)
      | _ \<Rightarrow> []) @
     (case e_suffix e of None \<Rightarrow> [] | Some t \<Rightarrow> t)"

definition up_text :: "unix_prefs \<Rightarrow> string" where
  "up_text u = concat (map entry_text (up_entries u))"

type_synonym files = "string \<rightharpoonup> string"

record save_env =
  se_open :: bool
  se_write :: bool
  se_partial :: string
  se_backup :: bool
  se_install :: bool
  se_restore :: bool

definition file_rename :: "bool \<Rightarrow> string \<Rightarrow> string \<Rightarrow> files \<Rightarrow> bool \<times> files" where
  "file_rename ok a b fs = (case fs a of
       None \<Rightarrow> (False, fs)
     | Some t \<Rightarrow> if ok then (True, (fs(a := None))(b \<mapsto> t)) else (False, fs))"

definition up_Save :: "save_env \<Rightarrow> files \<Rightarrow> unix_prefs \<Rightarrow> error \<times> files \<times> unix_prefs" where
  "up_Save env fs u =
     (if \<not> up_saveEnable u \<or> \<not> up_changed u then (kError_NoErr, fs, u)
      else
        let u = u\<lparr>up_changed := False\<rparr>;
            tmpFilePath = up_path u @ ''.tmp''; bakFilePath = up_path u @ ''.bak''
        in if \<not> se_open env then (kError_UnknownErr, fs, u)
           else if \<not> se_write env then (kError_UnknownErr, fs(tmpFilePath \<mapsto> se_partial env), u)
           else
             let fs1 = fs(tmpFilePath \<mapsto> up_text u);
                 (ok1, fs2) = file_rename (se_backup env) (up_path u) bakFilePath fs1
             in if \<not> ok1 \<and> fs1 (up_path u) \<noteq> None then (kError_UnknownErr, fs2, u)
                else
                  let (ok2, fs3) = file_rename (se_install env) tmpFilePath (up_path u) fs2
                  in (kError_NoErr, if ok2 then fs3 else snd (file_rename (se_restore env) bakFilePath (up_path u) fs3), u))"

subsection \<open>The contract\<close>

definition up_inv :: "unix_prefs \<Rightarrow> bool" where
  "up_inv u \<longleftrightarrow>
     (\<forall>k i. up_ht u k = Some i \<longrightarrow> i < length (up_entries u) \<and> e_key (up_entries u ! i) = Some k) \<and>
     (\<forall>e \<in> set (up_entries u). \<forall>v. e_value e = Some v \<longrightarrow> c_str v = v)"

definition up_contents :: "unix_prefs \<Rightarrow> string \<rightharpoonup> string" where
  "up_contents u k = (case up_ht u k of None \<Rightarrow> None | Some i \<Rightarrow> e_value (up_entries u ! i))"

lemma c_str_idem [simp]: "c_str (c_str s) = c_str s"
  by (rule c_str_id [OF c_str_no_nul])

lemma up_invD:
  "up_inv u \<Longrightarrow> up_ht u k = Some i \<Longrightarrow> i < length (up_entries u) \<and> e_key (up_entries u ! i) = Some k"
  by (simp add: up_inv_def)

lemma up_get:
  assumes "up_inv u"
  shows "up_GetPrefString u k len = Some (case up_contents u (c_str k) of
      None \<Rightarrow> (kError_NoPrefValue, [], 0)
    | Some v \<Rightarrow> if length v < len then (kError_NoErr, v, length v + 1)
        else (kError_BufferTooSmall, [], length v + 1))"
proof (cases "up_ht u (c_str k)")
  case None
  then show ?thesis by (simp add: up_GetPrefString_def up_contents_def)
next
  case (Some i)
  then show ?thesis using up_invD [OF assms Some]
    by (auto simp: up_GetPrefString_def up_contents_def Let_def split: option.splits)
qed

lemma up_set_new:
  assumes u: "up_inv u" and k: "up_ht u (c_str k) = None"
  shows "\<exists>u'. up_SetPrefString u k v = Some (kError_NoErr, u') \<and> up_inv u' \<and>
    up_contents u' = (up_contents u)(c_str k \<mapsto> c_str v)"
proof -
  let ?n = "length (up_entries u)"
  obtain u' e where u': "up_SetPrefString u k v = Some (kError_NoErr, u')"
    "up_entries u' = up_entries u @ [e]" "up_ht u' = (up_ht u)(c_str k \<mapsto> ?n)"
    "e_key e = Some (c_str k)" "e_value e = Some (c_str v)"
    using k by (simp add: up_SetPrefString_def AppendToString_def new_entry_def Let_def)
  have "up_inv u'"
    using u u'(2-5) by (auto simp: up_inv_def nth_append less_Suc_eq)
  moreover have "up_contents u' = (up_contents u)(c_str k \<mapsto> c_str v)"
    using u u'(2-5) up_invD [OF u] by (auto simp: up_contents_def fun_eq_iff nth_append split: option.splits)
  ultimately show ?thesis using u'(1) by blast
qed

lemma up_set_old:
  assumes u: "up_inv u" and k: "up_ht u (c_str k) = Some i"
  shows "\<exists>u'. up_SetPrefString u k v = Some (kError_NoErr, u') \<and> up_inv u' \<and>
    up_contents u' = (up_contents u)(c_str k \<mapsto> c_str v)"
proof -
  have i: "i < length (up_entries u)" "e_key (up_entries u ! i) = Some (c_str k)"
    using up_invD [OF u k] by auto
  let ?e = "(up_entries u ! i)\<lparr>e_value := Some (c_str v)\<rparr>"
  obtain u' where u': "up_SetPrefString u k v = Some (kError_NoErr, u')"
    "up_entries u' = (up_entries u)[i := ?e]" "up_ht u' = up_ht u"
    using k i by (simp add: up_SetPrefString_def AppendToString_def vec_set_def Let_def)
  have "e \<in> set (up_entries u') \<Longrightarrow> e = ?e \<or> e \<in> set (up_entries u)" for e
    using u'(2) set_update_subset_insert [of "up_entries u" i ?e] by auto
  then have "\<forall>e \<in> set (up_entries u'). \<forall>w. e_value e = Some w \<longrightarrow> c_str w = w"
    using u by (fastforce simp: up_inv_def)
  moreover have "up_ht u' k' = Some j \<Longrightarrow> j < length (up_entries u') \<and> e_key (up_entries u' ! j) = Some k'" for k' j
    using up_invD [OF u, of k' j] u'(2,3) by (cases "j = i") auto
  ultimately have "up_inv u'" by (simp add: up_inv_def)
  moreover have "up_contents u' = (up_contents u)(c_str k \<mapsto> c_str v)"
  proof
    fix k'
    show "up_contents u' k' = ((up_contents u)(c_str k \<mapsto> c_str v)) k'"
    proof (cases "k' = c_str k")
      case True
      then show ?thesis using k i(1) u'(2,3) by (simp add: up_contents_def)
    next
      case False
      then have "up_ht u k' \<noteq> Some i" using i(2) up_invD [OF u, of k' i] by auto
      then show ?thesis using False u'(2,3) by (auto simp: up_contents_def split: option.split)
    qed
  qed
  ultimately show ?thesis using u'(1) by blast
qed

interpretation up: pref_store up_GetPrefString up_SetPrefString up_contents up_inv
proof
  fix u k v len
  assume u: "up_inv u"
  show "up_contents u (c_str k) = None \<Longrightarrow> up_GetPrefString u k len = Some (kError_NoPrefValue, [], 0)"
    using up_get [OF u] by simp
  show "up_contents u (c_str k) = Some v \<Longrightarrow> length v < len \<Longrightarrow>
      up_GetPrefString u k len = Some (kError_NoErr, v, length v + 1)"
    using up_get [OF u] by simp
  show "up_contents u (c_str k) = Some v \<Longrightarrow> len \<le> length v \<Longrightarrow>
      up_GetPrefString u k len = Some (kError_BufferTooSmall, [], length v + 1)"
    using up_get [OF u] by simp
  show "up_contents u k = Some v \<Longrightarrow> c_str v = v"
    using u by (auto simp: up_inv_def up_contents_def split: option.splits)
  show "\<exists>u'. up_SetPrefString u k v = Some (kError_NoErr, u') \<and> up_inv u' \<and>
      up_contents u' = (up_contents u)(c_str k \<mapsto> c_str v)"
    using up_set_new [OF u] up_set_old [OF u] by (cases "up_ht u (c_str k)") blast+
qed

text \<open>A component's view of a store is a store: its contents are the keys with the prefix.\<close>

lemma c_str_with_dot: "c_str (AppendStringsWithDot p k) = AppendStringsWithDot p k"
  using c_str_no_nul [of p] c_str_no_nul [of k] by (intro c_str_id) (auto simp: AppendStringsWithDot_def)

lemma with_dot_inject: "AppendStringsWithDot p (c_str k) = AppendStringsWithDot p (c_str k') \<longleftrightarrow> c_str k = c_str k'"
  by (simp add: AppendStringsWithDot_def)

lemma with_dot_c_str: "AppendStringsWithDot p (c_str k) = AppendStringsWithDot p k"
  by (simp add: AppendStringsWithDot_def)

definition pp_contents :: "('s \<Rightarrow> string \<rightharpoonup> string) \<Rightarrow> string \<Rightarrow> 's \<Rightarrow> string \<rightharpoonup> string" where
  "pp_contents contents prefix s k =
     (if c_str k = k then contents s (AppendStringsWithDot prefix k) else None)"

locale component_prefs = pref_store +
  fixes prefix :: string

sublocale component_prefs \<subseteq> component: pref_store
  "pp_GetPrefString getp prefix" "pp_SetPrefString setp prefix" "pp_contents contents prefix" inv
proof
  fix s k v len
  assume s: "inv s"
  note key = c_str_with_dot [of prefix k]
  show "pp_contents contents prefix s (c_str k) = None \<Longrightarrow>
      pp_GetPrefString getp prefix s k len = Some (kError_NoPrefValue, [], 0)"
    using get_none [OF s] key by (simp add: pp_contents_def pp_GetPrefString_def with_dot_c_str)
  show "pp_contents contents prefix s (c_str k) = Some v \<Longrightarrow> length v < len \<Longrightarrow>
      pp_GetPrefString getp prefix s k len = Some (kError_NoErr, v, length v + 1)"
    using get_some [OF s] key by (simp add: pp_contents_def pp_GetPrefString_def with_dot_c_str)
  show "pp_contents contents prefix s (c_str k) = Some v \<Longrightarrow> len \<le> length v \<Longrightarrow>
      pp_GetPrefString getp prefix s k len = Some (kError_BufferTooSmall, [], length v + 1)"
    using get_small [OF s] key by (simp add: pp_contents_def pp_GetPrefString_def with_dot_c_str)
  show "pp_contents contents prefix s k = Some v \<Longrightarrow> c_str v = v"
    using get_c [OF s] by (auto simp: pp_contents_def split: if_splits)
  obtain s' where s': "setp s (AppendStringsWithDot prefix k) v = Some (kError_NoErr, s')" "inv s'"
    "contents s' = (contents s)(AppendStringsWithDot prefix k \<mapsto> c_str v)"
    using set_ok [OF s, of "AppendStringsWithDot prefix k" v] key by auto
  have "AppendStringsWithDot prefix k' = AppendStringsWithDot prefix k \<longleftrightarrow> k' = c_str k" if "c_str k' = k'" for k'
    using that with_dot_inject [of prefix k' k] by (simp add: with_dot_c_str)
  then have "pp_contents contents prefix s' = (pp_contents contents prefix s)(c_str k \<mapsto> c_str v)"
    using s'(3) by (auto simp: pp_contents_def fun_eq_iff)
  then show "\<exists>s'. pp_SetPrefString setp prefix s k v = Some (kError_NoErr, s') \<and> inv s' \<and>
      pp_contents contents prefix s' = (pp_contents contents prefix s)(c_str k \<mapsto> c_str v)"
    using s' by (auto simp: pp_SetPrefString_def)
qed

interpretation upp: component_prefs up_GetPrefString up_SetPrefString up_contents up_inv prefix
  for prefix ..

subsection \<open>Loading what was saved\<close>

text \<open>
  An entry as it stands in a file that loads without an error: comment lines \<open>cs\<close> in front, a
  key, blanks around a colon, the value, and white space or a comment up to the end of the line.
\<close>

definition comment_line :: "string \<Rightarrow> bool" where
  "comment_line l \<longleftrightarrow> (\<exists>t. l = CHR ''#'' # t @ [CHR 0x0A] \<and> CHR 0x0A \<notin> set t \<and> CHR 0x00 \<notin> set t) \<and> length l \<le> 1022"

definition data_text :: "unix_entry \<Rightarrow> string" where
  "data_text e = fst (WriteQuotableString '':#'' (the (e_key e))) @ the (e_separator e) @
     fst (WriteQuotableString ''#'' (the (e_value e))) @ the (e_suffix e)"

definition good_separator :: "string \<Rightarrow> bool" where
  "good_separator sep \<longleftrightarrow> (\<exists>a b. sep = a @ CHR '':'' # b \<and> (\<forall>c \<in> set (a @ b). is_blank c))"

definition good_suffix :: "string \<Rightarrow> string \<Rightarrow> bool" where
  "good_suffix v t \<longleftrightarrow> (\<exists>w. t = w @ [CHR 0x0A] \<and> CHR 0x0A \<notin> set w \<and> CHR 0x00 \<notin> set w) \<and>
     (c_isspace (hd t) \<or> hd t = CHR ''#'') \<and> (v = [] \<longrightarrow> \<not> is_blank (hd t))"

definition good_entry :: "unix_entry \<Rightarrow> string list \<Rightarrow> bool" where
  "good_entry e cs \<longleftrightarrow>
     e_prefix e = (if cs = [] then None else Some (concat cs)) \<and> (\<forall>c \<in> set cs. comment_line c) \<and>
     (\<exists>k sep v t. e = \<lparr>e_prefix = e_prefix e, e_key = Some k, e_separator = Some sep, e_value = Some v,
         e_suffix = Some t\<rparr> \<and>
       c_str k = k \<and> c_str v = v \<and> (k = [] \<or> hd k \<noteq> CHR ''/'') \<and> good_separator sep \<and> good_suffix v t) \<and>
     length (data_text e) \<le> 1022"

lemma fgets_chunk_line:
  "CHR 0x0A \<notin> set l \<Longrightarrow> length l < n \<Longrightarrow> fgets_chunk n (l @ CHR 0x0A # rest) = (l @ [CHR 0x0A], rest)"
proof (induction l arbitrary: n)
  case Nil
  then show ?case by (cases n) simp_all
next
  case (Cons c l)
  then show ?case by (cases n) auto
qed

definition text_line :: "string \<Rightarrow> bool" where
  "text_line l \<longleftrightarrow> (\<exists>t. l = t @ [CHR 0x0A] \<and> CHR 0x0A \<notin> set t \<and> CHR 0x00 \<notin> set t) \<and> length l \<le> 1022"

lemma file_chunks_general:
  "0 < n \<Longrightarrow> \<forall>l \<in> set ls. \<exists>t. l = t @ [CHR 0x0A] \<and> CHR 0x0A \<notin> set t \<and> length t < n \<Longrightarrow>
   file_chunks n (concat ls) = ls"
proof (induction ls)
  case Nil
  show ?case by (simp add: file_chunks.simps)
next
  case (Cons l ls)
  then obtain t where t: "l = t @ [CHR 0x0A]" "CHR 0x0A \<notin> set t" "length t < n"
    by (auto simp: text_line_def)
  have "fgets_chunk n (concat (l # ls)) = (l, concat ls)"
    using fgets_chunk_line [OF t(2,3), of "concat ls"] by (simp add: t(1))
  with Cons t(1) show ?case by (subst file_chunks.simps) simp
qed

lemma file_chunks_lines:
  "\<forall>l \<in> set ls. text_line l \<Longrightarrow> file_chunks 1022 (concat ls) = ls"
  by (rule file_chunks_general) (auto simp: text_line_def)

lemma comment_line_text: "comment_line l \<Longrightarrow> text_line l"
  unfolding comment_line_def text_line_def by (elim conjE exE) (rule conjI, rule_tac x = "CHR ''#'' # t" in exI, auto)

lemma load_comment:
  assumes "comment_line l"
  shows "load_line l ld = ld\<lparr>ld_lineNumber := Suc (ld_lineNumber ld),
    ld_entry := (ld_entry ld)\<lparr>e_prefix := AppendToString (e_prefix (ld_entry ld)) l\<rparr>\<rparr>"
proof -
  have "c_str l = l" "l \<noteq> []" "hd l = CHR ''#''" using assms by (auto simp: comment_line_def intro: c_str_id)
  then show ?thesis by (simp add: load_line_def Let_def)
qed

lemma load_comments:
  "\<forall>l \<in> set cs. comment_line l \<Longrightarrow> ld_entry ld = new_entry\<lparr>e_prefix := p\<rparr> \<Longrightarrow>
   fold load_line cs ld = ld\<lparr>ld_lineNumber := ld_lineNumber ld + length cs,
     ld_entry := new_entry\<lparr>e_prefix := (if cs = [] then p else AppendToString p (concat cs))\<rparr>\<rparr>"
proof (induction cs arbitrary: ld p)
  case Nil
  then show ?case by simp
next
  case (Cons c cs)
  let ?ld = "ld\<lparr>ld_lineNumber := Suc (ld_lineNumber ld), ld_entry := new_entry\<lparr>e_prefix := AppendToString p c\<rparr>\<rparr>"
  have "load_line c ld = ?ld" using Cons.prems by (simp add: load_comment new_entry_def)
  moreover have "fold load_line cs ?ld = ?ld\<lparr>ld_lineNumber := ld_lineNumber ?ld + length cs,
     ld_entry := new_entry\<lparr>e_prefix := (if cs = [] then AppendToString p c else AppendToString (AppendToString p c) (concat cs))\<rparr>\<rparr>"
    using Cons.prems by (intro Cons.IH) simp_all
  ultimately show ?case by (simp add: AppendToString_def)
qed

text \<open>The written strings hold no newline and no NUL, and start with no blank and no \<open>#\<close>.\<close>

lemma quote_char_safe:
  "plain_delims delim \<Longrightarrow> d \<in> set (quote_char delim True c) \<Longrightarrow> d \<noteq> CHR 0x0A \<and> d \<noteq> CHR 0x00"
proof -
  assume delim: "plain_delims delim" and d: "d \<in> set (quote_char delim True c)"
  have dig: "n < 10 \<Longrightarrow> digit_char n \<noteq> CHR 0x0A \<and> digit_char n \<noteq> CHR 0x00" for n
    by (auto intro!: byte_of_neq)
  have "byte_of c div 64 < 10" "byte_of c div 8 mod 8 < 10" "byte_of c mod 8 < 10"
    using byte_of_less [of c] by simp_all
  moreover have "\<not> c_isgraph (CHR 0x00)" by (simp add: c_isgraph_def)
  ultimately show ?thesis using delim d dig
    by (auto simp: quote_char_def plain_delims_def split: if_splits)
qed

lemma WriteQuotableString_safe:
  assumes "plain_delims delim" and d: "d \<in> set (fst (WriteQuotableString delim s))"
  shows "d \<noteq> CHR 0x0A \<and> d \<noteq> CHR 0x00"
proof (cases "fst (PrepareQuotableString delim False s)")
  case True
  then show ?thesis using d quote_char_safe [OF assms(1)]
    by (auto simp: WriteQuotableString_def PrepareQuotableString_def Let_def)
next
  case False
  then have plain: "\<forall>c \<in> set s. \<not> char_needs_quotes delim c"
    by (simp add: PrepareQuotableString_def Let_def)
  have "fst (WriteQuotableString delim s) = s"
    using False plain_text [OF plain] by (auto simp: WriteQuotableString_def PrepareQuotableString_def Let_def)
  then have "\<not> char_needs_quotes delim d" using d plain by auto
  then show ?thesis by (auto simp: char_needs_quotes_def c_isgraph_def)
qed

lemma WriteQuotableString_hd:
  assumes "CHR ''#'' \<in> set delim"
  shows "fst (WriteQuotableString delim s) = [] \<and> s = [] \<or>
    (fst (WriteQuotableString delim s) \<noteq> [] \<and> \<not> is_blank (hd (fst (WriteQuotableString delim s))) \<and>
     hd (fst (WriteQuotableString delim s)) \<noteq> CHR ''#'')"
proof (cases "fst (PrepareQuotableString delim False s)")
  case True
  then show ?thesis by (simp add: WriteQuotableString_def PrepareQuotableString_def Let_def is_blank_def)
next
  case False
  then have plain: "\<forall>c \<in> set s. \<not> char_needs_quotes delim c"
    by (simp add: PrepareQuotableString_def Let_def)
  have "fst (WriteQuotableString delim s) = s"
    using False plain_text [OF plain] by (auto simp: WriteQuotableString_def PrepareQuotableString_def Let_def)
  moreover have "s \<noteq> [] \<Longrightarrow> \<not> is_blank (hd s) \<and> hd s \<noteq> CHR ''#''"
    using plain plain_char [of delim "hd s"] assms by (auto simp: is_blank_def)
  ultimately show ?thesis by auto
qed

lemma dropWhile_blank: "\<forall>c \<in> set a. is_blank c \<Longrightarrow> dropWhile is_blank (a @ r) = dropWhile is_blank r"
  by (induction a) auto

lemma load_data_good:
  assumes k: "c_str k = k" "k = [] \<or> hd k \<noteq> CHR ''/''" and sep: "good_separator sep" and t: "good_suffix v t"
    and fresh: "ld_ht ld k = None" and e: "ld_entry ld = new_entry\<lparr>e_prefix := p\<rparr>"
    and line: "line = fst (WriteQuotableString '':#'' k) @ sep @ fst (WriteQuotableString ''#'' v) @ t"
  shows "load_data line ld = ld\<lparr>ld_ht := (ld_ht ld)(k \<mapsto> length (ld_entries ld)),
    ld_entries := ld_entries ld @ [\<lparr>e_prefix = p, e_key = Some k, e_separator = Some sep, e_value = Some v, e_suffix = Some t\<rparr>],
    ld_entry := new_entry\<rparr>"
proof -
  obtain a b where ab: "sep = a @ CHR '':'' # b" "\<forall>c \<in> set a. is_blank c" "\<forall>c \<in> set b. is_blank c"
    using sep by (auto simp: good_separator_def)
  let ?v = "fst (WriteQuotableString ''#'' v)"
  obtain w where w: "t = w @ [CHR 0x0A]" using t by (auto simp: good_suffix_def)
  have "stops_scan '':#'' (sep @ ?v @ t)" using ab
    by (cases a) (simp_all add: stops_scan_def is_blank_isspace)
  then have r1: "ReadQuotableString '':#'' line = (Some k, sep @ ?v @ t)"
    unfolding line by (intro read_write) (simp_all add: plain_delims_def)
  have r2: "ReadQuotableString ''#'' (?v @ t) = (Some v, t)"
    using t by (intro read_write) (auto simp: plain_delims_def stops_scan_def good_suffix_def)
  have d1: "dropWhile is_blank (sep @ ?v @ t) = CHR '':'' # b @ ?v @ t"
    using ab(2) by (simp add: ab(1) dropWhile_blank)
  have "\<not> is_blank (hd (?v @ t))" and "?v @ t \<noteq> []"
    using WriteQuotableString_hd [of "''#''" v] t w by (auto simp: good_suffix_def hd_append simp del: hd_append2)
  then have "dropWhile is_blank (?v @ t) = ?v @ t" by (cases "?v @ t") simp_all
  then have d2: "dropWhile is_blank (b @ ?v @ t) = ?v @ t" using ab(3) by (simp add: dropWhile_blank)
  have l: "last line = CHR 0x0A" by (simp add: line w)
  have "(k \<noteq> [] \<and> hd k = CHR ''/'') = False" using k(2) by auto
  then show ?thesis
    using fresh e
    by (simp (no_asm_simp) only: load_data_def r1 prod.case Let_def option.sel option.distinct simp_thms if_False)
      (simp add: load_data_def r1 d1 d2 r2 l Let_def ld_error_def new_entry_def AppendToString_def)
qed

lemma good_suffix_text: "good_suffix v t \<Longrightarrow> \<exists>w. t = w @ [CHR 0x0A] \<and> CHR 0x0A \<notin> set w \<and> CHR 0x00 \<notin> set w"
  by (simp add: good_suffix_def)

lemma good_separator_text: "good_separator sep \<Longrightarrow> CHR 0x0A \<notin> set sep \<and> CHR 0x00 \<notin> set sep"
proof -
  assume "good_separator sep"
  then obtain a b where ab: "sep = a @ CHR '':'' # b" "\<forall>c \<in> set (a @ b). is_blank c"
    unfolding good_separator_def by blast
  have "CHR 0x0A \<notin> set (a @ b)" and "CHR 0x00 \<notin> set (a @ b)"
    using ab(2) is_blank_consts(5,6) by blast+
  then show ?thesis by (simp add: ab(1))
qed

lemma good_entry_line:
  assumes "good_entry e cs"
  shows "text_line (data_text e)" and "hd (data_text e) \<noteq> CHR ''#''" and "data_text e \<noteq> []"
proof -
  obtain k sep v t where e: "e_key e = Some k" "e_separator e = Some sep" "e_value e = Some v" "e_suffix e = Some t"
    and g: "good_separator sep" "good_suffix v t" and len: "length (data_text e) \<le> 1022"
    using assms unfolding good_entry_def by (metis unix_entry.select_convs(2-5))
  obtain w where w: "t = w @ [CHR 0x0A]" "CHR 0x0A \<notin> set w" "CHR 0x00 \<notin> set w"
    using good_suffix_text [OF g(2)] by blast
  let ?u = "fst (WriteQuotableString '':#'' k) @ sep @ fst (WriteQuotableString ''#'' v) @ w"
  have "data_text e = ?u @ [CHR 0x0A]" by (simp add: data_text_def e w(1))
  moreover have "CHR 0x0A \<notin> set ?u" "CHR 0x00 \<notin> set ?u"
    using w good_separator_text [OF g(1)] WriteQuotableString_safe [of "'':#''" _ k]
      WriteQuotableString_safe [of "''#''" _ v] by (auto simp: plain_delims_def)
  ultimately show "text_line (data_text e)" and "data_text e \<noteq> []" using len by (auto simp: text_line_def)
  show "hd (data_text e) \<noteq> CHR ''#''"
  proof (cases "fst (WriteQuotableString '':#'' k) = []")
    case True
    obtain a b where ab: "sep = a @ CHR '':'' # b" "\<forall>c \<in> set a. is_blank c"
      using g(1) by (auto simp: good_separator_def)
    then show ?thesis using True by (cases a) (auto simp: data_text_def e)
  next
    case False
    then show ?thesis using WriteQuotableString_hd [of "'':#''" k] by (simp add: data_text_def e)
  qed
qed

lemma load_good_entry:
  assumes g: "good_entry e cs" and fresh: "ld_ht ld (the (e_key e)) = None" and new: "ld_entry ld = new_entry"
  shows "fold load_line (cs @ [data_text e]) ld =
    ld\<lparr>ld_ht := (ld_ht ld)(the (e_key e) \<mapsto> length (ld_entries ld)), ld_entries := ld_entries ld @ [e],
      ld_lineNumber := ld_lineNumber ld + length cs + 1, ld_entry := new_entry\<rparr>"
proof -
  obtain k sep v t where e: "e = \<lparr>e_prefix = e_prefix e, e_key = Some k, e_separator = Some sep,
      e_value = Some v, e_suffix = Some t\<rparr>"
    and k: "c_str k = k" "k = [] \<or> hd k \<noteq> CHR ''/''" "good_separator sep" "good_suffix v t"
    and p: "e_prefix e = (if cs = [] then None else Some (concat cs))" "\<forall>c \<in> set cs. comment_line c"
    using g unfolding good_entry_def by blast
  have sel: "e_key e = Some k" "e_separator e = Some sep" "e_value e = Some v" "e_suffix e = Some t"
    by (subst e, simp)+
  let ?ld = "ld\<lparr>ld_lineNumber := ld_lineNumber ld + length cs, ld_entry := new_entry\<lparr>e_prefix := e_prefix e\<rparr>\<rparr>"
  have "fold load_line cs ld = ?ld"
    using load_comments [OF p(2), of ld None] new p(1)
    by (cases "cs = []") (simp_all add: new_entry_def AppendToString_def)
  moreover have "load_line (data_text e) ?ld =
    load_data (data_text e) (?ld\<lparr>ld_lineNumber := Suc (ld_lineNumber ?ld)\<rparr>)"
    using good_entry_line [OF g] by (auto simp: load_line_def Let_def text_line_def c_str_id)
  moreover have "load_data (data_text e) (?ld\<lparr>ld_lineNumber := Suc (ld_lineNumber ?ld)\<rparr>) =
    ld\<lparr>ld_ht := (ld_ht ld)(k \<mapsto> length (ld_entries ld)), ld_entries := ld_entries ld @ [e],
      ld_lineNumber := ld_lineNumber ld + length cs + 1, ld_entry := new_entry\<rparr>"
    using load_data_good [OF k, of "?ld\<lparr>ld_lineNumber := Suc (ld_lineNumber ?ld)\<rparr>" "e_prefix e" "data_text e"]
      fresh e by (simp add: sel data_text_def)
  ultimately show ?thesis by (simp add: sel)
qed

primrec index_map :: "string list \<Rightarrow> nat \<Rightarrow> string \<rightharpoonup> nat" where
  "index_map [] n = Map.empty"
| "index_map (k # ks) n = (index_map ks (Suc n))(k \<mapsto> n)"

lemma index_map_None: "k \<notin> set ks \<Longrightarrow> index_map ks n k = None"
  by (induction ks arbitrary: n) auto

definition entry_key :: "unix_entry \<Rightarrow> string" where
  "entry_key e = the (e_key e)"

fun file_lines :: "unix_entry list \<Rightarrow> string list list \<Rightarrow> string list" where
  "file_lines (e # es) (cs # css) = cs @ data_text e # file_lines es css"
| "file_lines _ _ = []"

lemma load_good_entries:
  "list_all2 good_entry es css \<Longrightarrow> distinct (map entry_key es) \<Longrightarrow>
   \<forall>e \<in> set es. ld_ht ld (entry_key e) = None \<Longrightarrow> ld_entry ld = new_entry \<Longrightarrow>
   \<exists>n. fold load_line (file_lines es css) ld =
     ld\<lparr>ld_ht := ld_ht ld ++ index_map (map entry_key es) (length (ld_entries ld)),
       ld_entries := ld_entries ld @ es, ld_lineNumber := n, ld_entry := new_entry\<rparr>"
proof (induction es arbitrary: css ld)
  case Nil
  then show ?case by (intro exI [of _ "ld_lineNumber ld"]) (cases ld; simp)
next
  case (Cons e es)
  then obtain cs css' where css: "css = cs # css'" "good_entry e cs" "list_all2 good_entry es css'"
    by (cases css) auto
  let ?k = "entry_key e" and ?n = "length (ld_entries ld)"
  let ?ld = "ld\<lparr>ld_ht := (ld_ht ld)(?k \<mapsto> ?n), ld_entries := ld_entries ld @ [e],
      ld_lineNumber := ld_lineNumber ld + length cs + 1, ld_entry := new_entry\<rparr>"
  have one: "fold load_line (cs @ [data_text e]) ld = ?ld"
    using load_good_entry [OF css(2), of ld] Cons.prems by (simp add: entry_key_def)
  have "\<exists>n. fold load_line (file_lines es css') ?ld =
     ?ld\<lparr>ld_ht := ld_ht ?ld ++ index_map (map entry_key es) (length (ld_entries ?ld)),
       ld_entries := ld_entries ?ld @ es, ld_lineNumber := n, ld_entry := new_entry\<rparr>"
    using Cons.prems css(3) by (intro Cons.IH) (auto simp: image_iff)
  then obtain n where rest: "fold load_line (file_lines es css') ?ld =
     ?ld\<lparr>ld_ht := ld_ht ?ld ++ index_map (map entry_key es) (Suc ?n),
       ld_entries := ld_entries ?ld @ es, ld_lineNumber := n, ld_entry := new_entry\<rparr>" by auto
  have none: "index_map (map entry_key es) (Suc ?n) ?k = None"
    using Cons.prems(2) by (intro index_map_None) simp
  have "(ld_ht ld)(?k \<mapsto> ?n) ++ index_map (map entry_key es) (Suc ?n) =
    ld_ht ld ++ (index_map (map entry_key es) (Suc ?n))(?k \<mapsto> ?n)"
    using none by (auto simp: fun_eq_iff map_add_def split: option.splits)
  then show ?case using one rest by (intro exI [of _ n]) (simp add: css(1) fun_upd_def)
qed

lemma good_entry_text:
  assumes "good_entry e cs"
  shows "entry_text e = concat (cs @ [data_text e])"
proof -
  obtain k sep v t where "e_key e = Some k" "e_separator e = Some sep" "e_value e = Some v" "e_suffix e = Some t"
    and "e_prefix e = (if cs = [] then None else Some (concat cs))"
    using assms unfolding good_entry_def by (metis unix_entry.select_convs(2-5))
  then show ?thesis by (simp add: entry_text_def data_text_def)
qed

lemma file_lines_text:
  "list_all2 good_entry es css \<Longrightarrow>
   concat (map entry_text es) = concat (file_lines es css) \<and> (\<forall>l \<in> set (file_lines es css). text_line l)"
proof (induction es css rule: list_all2_induct)
  case Nil
  then show ?case by simp
next
  case (Cons e es cs css)
  then have "\<forall>c \<in> set cs. text_line c" by (auto simp: good_entry_def intro: comment_line_text)
  then show ?case using Cons good_entry_text good_entry_line by (auto simp: ball_Un)
qed

text \<open>A preferences object as it is after loading a file without errors and setting values.\<close>

definition good_prefs :: "unix_prefs \<Rightarrow> bool" where
  "good_prefs u \<longleftrightarrow> (\<exists>css. list_all2 good_entry (up_entries u) css) \<and>
     distinct (map entry_key (up_entries u)) \<and> up_ht u = index_map (map entry_key (up_entries u)) 0"

lemma up_load_text:
  assumes "good_prefs u"
  shows "up_load path (up_text u) = \<lparr>up_entries = up_entries u, up_ht = up_ht u, up_errorLine = 0,
    up_saveEnable = True, up_changed = False, up_path = path\<rparr>"
proof -
  obtain css where g: "list_all2 good_entry (up_entries u) css" and d: "distinct (map entry_key (up_entries u))"
    and ht: "up_ht u = index_map (map entry_key (up_entries u)) 0"
    using assms by (auto simp: good_prefs_def)
  have "file_chunks 1022 (up_text u) = file_lines (up_entries u) css"
    using file_lines_text [OF g] file_chunks_lines by (simp add: up_text_def)
  moreover obtain n where "fold load_line (file_lines (up_entries u) css) load_start =
     load_start\<lparr>ld_ht := ld_ht load_start ++ index_map (map entry_key (up_entries u)) (length (ld_entries load_start)),
       ld_entries := ld_entries load_start @ up_entries u, ld_lineNumber := n, ld_entry := new_entry\<rparr>"
    using load_good_entries [OF g d, of load_start] by (auto simp: load_start_def)
  ultimately show ?thesis
    by (simp add: up_load_def ht load_start_def new_entry_def)
qed

lemma index_map_Some: "index_map ks n k = Some i \<Longrightarrow> n \<le> i \<and> i < n + length ks \<and> ks ! (i - n) = k"
proof (induction ks arbitrary: n)
  case Nil
  then show ?case by simp
next
  case (Cons a ks)
  show ?case
  proof (cases "a = k")
    case True
    then show ?thesis using Cons.prems by (simp add: fun_upd_def)
  next
    case False
    then have "index_map ks (Suc n) k = Some i" using Cons.prems by (simp add: fun_upd_def)
    from Cons.IH [OF this] show ?thesis by (auto simp: nth_Cons split: nat.splits) (metis Suc_diff_Suc diff_Suc_Suc nat.inject old.nat.exhaust Suc_le_lessD)
  qed
qed

lemma index_map_mem: "k \<in> set ks \<Longrightarrow> index_map ks n k \<noteq> None"
  by (induction ks arbitrary: n) (auto simp: fun_upd_def)

lemma index_map_append: "index_map (ks @ [k]) n = (if k \<in> set ks then index_map ks n else (index_map ks n)(k \<mapsto> n + length ks))"
  by (induction ks arbitrary: n) (auto simp: fun_upd_def fun_eq_iff)

lemma good_entryD:
  "good_entry e cs \<Longrightarrow> e_key e = Some (entry_key e) \<and> (\<exists>v. e_value e = Some v \<and> c_str v = v)"
  unfolding good_entry_def entry_key_def by (metis option.sel unix_entry.select_convs(2,4))

lemma good_prefs_entry:
  assumes "good_prefs u" and "e \<in> set (up_entries u)"
  shows "e_key e = Some (entry_key e) \<and> (\<exists>v. e_value e = Some v \<and> c_str v = v)"
proof -
  obtain css where "list_all2 good_entry (up_entries u) css" using assms(1) by (auto simp: good_prefs_def)
  then show ?thesis using assms(2) by (auto simp: list_all2_conv_all_nth in_set_conv_nth dest!: good_entryD)
qed

lemma good_prefs_inv: "good_prefs u \<Longrightarrow> up_inv u"
  using good_prefs_entry [of u] index_map_Some [of "map entry_key (up_entries u)" 0]
  by (fastforce simp: up_inv_def good_prefs_def)

lemma good_entry_value:
  assumes "good_entry e cs" and "c_str v = v" and "v \<noteq> []"
    and "length (data_text (e\<lparr>e_value := Some v\<rparr>)) \<le> 1022"
  shows "good_entry (e\<lparr>e_value := Some v\<rparr>) cs"
proof -
  obtain k sep w t where "e = \<lparr>e_prefix = e_prefix e, e_key = Some k, e_separator = Some sep, e_value = Some w,
      e_suffix = Some t\<rparr>" "c_str k = k" "k = [] \<or> hd k \<noteq> CHR ''/''" "good_separator sep" "good_suffix w t"
    and p: "e_prefix e = (if cs = [] then None else Some (concat cs))" "\<forall>c \<in> set cs. comment_line c"
    using assms(1) unfolding good_entry_def by blast
  moreover have "good_suffix v t" using \<open>good_suffix w t\<close> assms(3) by (simp add: good_suffix_def)
  ultimately show ?thesis using assms(2,4)
    by (cases e) (auto simp: good_entry_def)
qed

text \<open>The line a value will be saved on is short enough to be read back by one \<open>fgets\<close>.\<close>

definition set_fits :: "unix_prefs \<Rightarrow> string \<Rightarrow> string \<Rightarrow> bool" where
  "set_fits u k v \<longleftrightarrow> c_str k = k \<and> c_str v = v \<and> v \<noteq> [] \<and> (k = [] \<or> hd k \<noteq> CHR ''/'') \<and>
     (case up_ht u k of
        None \<Rightarrow> length (fst (WriteQuotableString '':#'' k)) + length (fst (WriteQuotableString ''#'' v)) + 3 \<le> 1022
      | Some i \<Rightarrow> length (data_text ((up_entries u ! i)\<lparr>e_value := Some v\<rparr>)) \<le> 1022)"

lemma good_prefs_set:
  assumes good: "good_prefs u" and fits: "set_fits u k v"
  shows "\<exists>u'. up_SetPrefString u k v = Some (kError_NoErr, u') \<and> good_prefs u' \<and> up_changed u' \<and>
    up_saveEnable u' = up_saveEnable u \<and> up_path u' = up_path u \<and> up_contents u' = (up_contents u)(k \<mapsto> v)"
proof -
  obtain css where g: "list_all2 good_entry (up_entries u) css" and d: "distinct (map entry_key (up_entries u))"
    and ht: "up_ht u = index_map (map entry_key (up_entries u)) 0"
    using good by (auto simp: good_prefs_def)
  have kv: "c_str k = k" "c_str v = v" "v \<noteq> []" "k = [] \<or> hd k \<noteq> CHR ''/''"
    using fits by (auto simp: set_fits_def)
  show ?thesis
  proof (cases "up_ht u k")
    case None
    let ?e = "\<lparr>e_prefix = None, e_key = Some k, e_separator = Some '': '', e_value = Some v, e_suffix = Some [CHR 0x0A]\<rparr>"
    obtain u' where u': "up_SetPrefString u k v = Some (kError_NoErr, u')" "up_entries u' = up_entries u @ [?e]"
      "up_ht u' = (up_ht u)(k \<mapsto> length (up_entries u))" "up_changed u'" "up_saveEnable u' = up_saveEnable u"
      "up_path u' = up_path u"
      using None kv by (simp add: up_SetPrefString_def AppendToString_def new_entry_def Let_def)
    have "good_separator '': ''"
      unfolding good_separator_def by (intro exI [of _ "[]"] exI [of _ "'' ''"]) simp
    moreover have "good_suffix v [CHR 0x0A]" using kv(3) by (simp add: good_suffix_def)
    moreover have "length (data_text ?e) \<le> 1022" using fits None by (simp add: set_fits_def data_text_def)
    ultimately have "good_entry ?e []" using kv by (simp add: good_entry_def)
    then have g': "list_all2 good_entry (up_entries u') (css @ [[]])" using g by (simp add: u'(2) list_all2_appendI)
    have new: "k \<notin> set (map entry_key (up_entries u))"
      using None ht index_map_mem [of k "map entry_key (up_entries u)" 0] by auto
    have "good_prefs u'"
      using g' d new ht unfolding good_prefs_def
      by (auto simp: u'(2,3) entry_key_def index_map_append)
    moreover have "up_contents u' = (up_contents u)(k \<mapsto> v)"
      using up_set_new [OF good_prefs_inv [OF good], of k v] None kv u'(1) by auto
    ultimately show ?thesis using u' by auto
  next
    case (Some i)
    let ?e = "(up_entries u ! i)\<lparr>e_value := Some v\<rparr>"
    have i: "i < length (up_entries u)" using up_invD [OF good_prefs_inv [OF good] Some] by simp
    obtain u' where u': "up_SetPrefString u k v = Some (kError_NoErr, u')" "up_entries u' = (up_entries u)[i := ?e]"
      "up_ht u' = up_ht u" "up_changed u'" "up_saveEnable u' = up_saveEnable u" "up_path u' = up_path u"
      using Some i kv by (simp add: up_SetPrefString_def AppendToString_def vec_set_def Let_def)
    have "good_entry ?e (css ! i)"
      using g i kv fits Some by (intro good_entry_value) (simp_all add: list_all2_conv_all_nth set_fits_def)
    then have g': "list_all2 good_entry (up_entries u') css"
      using g i by (auto simp: u'(2) list_all2_conv_all_nth nth_list_update)
    have keys: "map entry_key (up_entries u') = map entry_key (up_entries u)"
    proof (rule nth_equalityI)
      show "j < length (map entry_key (up_entries u')) \<Longrightarrow> map entry_key (up_entries u') ! j = map entry_key (up_entries u) ! j" for j
        using i by (cases "j = i") (simp_all add: u'(2) entry_key_def)
    qed (simp add: u'(2))
    have "good_prefs u'" using g' d ht unfolding good_prefs_def keys by (auto simp: u'(3))
    moreover have "up_contents u' = (up_contents u)(k \<mapsto> v)"
      using up_set_old [OF good_prefs_inv [OF good], of k i v] Some kv u'(1) by auto
    ultimately show ?thesis using u' by auto
  qed
qed

lemma up_Save_writes:
  assumes "up_saveEnable u" and "up_changed u" and "se_open env" and "se_write env" and "se_backup env" and "se_install env"
  shows "\<exists>fs'. up_Save env fs u = (kError_NoErr, fs', u\<lparr>up_changed := False\<rparr>) \<and>
    fs' (up_path u) = Some (up_text u) \<and>
    (\<forall>old. fs (up_path u) = Some old \<longrightarrow> fs' (up_path u @ ''.bak'') = Some old)"
  using assms by (auto simp: up_Save_def file_rename_def Let_def up_text_def split: option.splits prod.splits)

text \<open>
  C28. A preference that is set and saved is there again after the file is loaded. For an object
  loaded without error, a key and a value that fit on a line: \<open>SetPrefString\<close> succeeds, \<open>Save\<close> writes
  the file and keeps the previous one as the backup, and loading the file gives the same entries,
  with their comments and separators, no error line, and the contents with the new value.
\<close>

theorem saved_preference_survives:
  assumes "good_prefs u" and "up_saveEnable u" and "set_fits u k v"
    and "se_open env" and "se_write env" and "se_backup env" and "se_install env"
  shows "\<exists>u1 fs' t. up_SetPrefString u k v = Some (kError_NoErr, u1) \<and>
    up_Save env fs u1 = (kError_NoErr, fs', u1\<lparr>up_changed := False\<rparr>) \<and> fs' (up_path u) = Some t \<and>
    (\<forall>old. fs (up_path u) = Some old \<longrightarrow> fs' (up_path u @ ''.bak'') = Some old) \<and>
    up_entries (up_load (up_path u) t) = up_entries u1 \<and> up_errorLine (up_load (up_path u) t) = 0 \<and>
    up_contents (up_load (up_path u) t) = (up_contents u)(k \<mapsto> v)"
proof -
  obtain u1 where u1: "up_SetPrefString u k v = Some (kError_NoErr, u1)" "good_prefs u1" "up_changed u1"
    "up_saveEnable u1 = up_saveEnable u" "up_path u1 = up_path u" "up_contents u1 = (up_contents u)(k \<mapsto> v)"
    using good_prefs_set [OF assms(1,3)] by blast
  then obtain fs' where fs': "up_Save env fs u1 = (kError_NoErr, fs', u1\<lparr>up_changed := False\<rparr>)"
    "fs' (up_path u) = Some (up_text u1)"
    "\<forall>old. fs (up_path u) = Some old \<longrightarrow> fs' (up_path u @ ''.bak'') = Some old"
    using up_Save_writes [of u1 env fs] assms by auto
  have "up_contents (up_load (up_path u) (up_text u1)) = up_contents u1"
    using up_load_text [OF u1(2), of "up_path u"] by (auto simp: up_contents_def fun_eq_iff split: option.split)
  then show ?thesis
    using u1(1,6) fs' up_load_text [OF u1(2), of "up_path u"]
    by (intro exI [of _ u1] exI [of _ fs'] exI [of _ "up_text u1"]) simp
qed

abbreviation volume_prefs :: unix_prefs where
  "volume_prefs \<equiv> \<lparr>up_entries = [\<lparr>e_prefix = Some (''# mine'' @ [CHR 0x0A]), e_key = Some ''Volume'',
       e_separator = Some '': '', e_value = Some ''85'', e_suffix = Some ('' # loud'' @ [CHR 0x0A])\<rparr>],
     up_ht = [''Volume'' \<mapsto> 0], up_errorLine = 0, up_saveEnable = True, up_changed = False, up_path = ''p''\<rparr>"

lemma volume_comment: "comment_line (''# mine'' @ [CHR 0x0A])"
  unfolding comment_line_def by (intro conjI exI [of _ "'' mine''"]) simp_all

lemma volume_good: "good_prefs volume_prefs"
proof -
  have sep: "good_separator '': ''"
    unfolding good_separator_def by (intro exI [of _ "[]"] exI [of _ "'' ''"]) simp
  have suffix: "good_suffix ''85'' ('' # loud'' @ [CHR 0x0A])" by (simp add: good_suffix_def)
  have "good_entry (hd (up_entries volume_prefs)) [''# mine'' @ [CHR 0x0A]]"
    using sep suffix volume_comment
    by (simp add: good_entry_def c_str_def data_text_def WriteQuotableString_def PrepareQuotableString_def
        char_needs_quotes_def c_isgraph_def quote_char_def byte_of_def c_isspace_def)
  then have "list_all2 good_entry (up_entries volume_prefs) [[''# mine'' @ [CHR 0x0A]]]" by simp
  then show ?thesis unfolding good_prefs_def
    by (intro conjI exI [of _ "[[''# mine'' @ [CHR 0x0A]]]"]) (simp_all add: entry_key_def fun_upd_def fun_eq_iff)
qed

lemma volume_fits: "set_fits volume_prefs ''Volume'' ''60 percent''"
  by (simp add: set_fits_def c_str_def data_text_def WriteQuotableString_def PrepareQuotableString_def
      char_needs_quotes_def c_isgraph_def quote_char_def byte_of_def c_isspace_def)

theorem saved_preference_survives_witness:
  "\<exists>u1 fs' t. up_SetPrefString volume_prefs ''Volume'' ''60 percent'' = Some (kError_NoErr, u1) \<and>
    up_Save \<lparr>se_open = True, se_write = True, se_partial = [], se_backup = True, se_install = True, se_restore = True\<rparr>
      [''p'' \<mapsto> ''old''] u1 = (kError_NoErr, fs', u1\<lparr>up_changed := False\<rparr>) \<and> fs' ''p'' = Some t \<and>
    up_contents (up_load ''p'' t) ''Volume'' = Some ''60 percent''"
  using saved_preference_survives [OF volume_good _ volume_fits, where fs = "[''p'' \<mapsto> ''old'']" and
      env = "\<lparr>se_open = True, se_write = True, se_partial = [], se_backup = True, se_install = True, se_restore = True\<rparr>"]
  by (auto simp del: append.simps)



subsection \<open>Defaults and construction\<close>

text \<open>
  \<open>UnixPrefs::SetDefaults\<close>; the installation directory, the name of the application and the home
  directory (which is set whenever the constructor gets this far) are arguments.
\<close>

definition FreeampDir :: "string \<Rightarrow> string option \<Rightarrow> string" where
  "FreeampDir app home = (case home of None \<Rightarrow> ''/'' | Some h \<Rightarrow> c_str h @ ''/.'' @ app)"

definition unix_defaults :: "string \<Rightarrow> string \<Rightarrow> string \<Rightarrow> pref_default list" where
  "unix_defaults libdir app home = [
     DefString ''InstallDirectory'' libdir,
     DefString ''LibraryPath'' (''.:~/.'' @ app @ '':'' @ libdir @ ''/'' @ app),
     DefString ''UI'' ''freeamp.ui'', DefString ''TextUI'' ''freeampcmd.ui'',
     DefString ''PMO'' ''soundcard.pmo'', DefString ''ALSADevice'' ''0:0'', DefString ''EsounDHost'' ''localhost'',
     DefString ''DatabaseDirectory'' (FreeampDir app (Some home) @ ''/db/''),
     DefString ''SaveMusicDirectory'' (c_str home @ ''/MyMusic''),
     DefString ''WatchThisDirectory'' (c_str home @ ''/MyMusic'')]"

definition up_SetDefaults :: "string \<Rightarrow> string \<Rightarrow> string \<Rightarrow> unix_prefs \<Rightarrow> (error \<times> unix_prefs) option" where
  "up_SetDefaults libdir app home u = do {
     u1 \<leftarrow> set_defaults up_GetPrefString up_SetPrefString 1024 (unix_defaults libdir app home) u;
     (_, u2) \<leftarrow> SetDefaults up_GetPrefString up_SetPrefString u1;
     Some (kError_NoErr, u2)
   }"

text \<open>
  The constructor, given whether the file can be opened when it exists: reading, defaults, saving.
  Without a home directory it stops at once.
\<close>

definition up_empty :: "bool \<Rightarrow> string \<Rightarrow> unix_prefs" where
  "up_empty saveEnable path = \<lparr>up_entries = [], up_ht = Map.empty, up_errorLine = 0,
     up_saveEnable = saveEnable, up_changed = False, up_path = path\<rparr>"

definition up_new ::
  "string \<Rightarrow> string \<Rightarrow> string option \<Rightarrow> bool \<Rightarrow> save_env \<Rightarrow> files \<Rightarrow> (files \<times> unix_prefs) option" where
  "up_new libdir app home can_open env fs = (case home of
       None \<Rightarrow> Some (fs, up_empty False [])
     | Some h \<Rightarrow> do {
         let path = FreeampDir app home @ ''/preferences'';
         let old = c_str h @ ''/.freeamp_prefs'';
         let fs1 = (if old \<noteq> [] \<and> fs old \<noteq> None then snd (file_rename True old path fs) else fs);
         let u = (case fs1 path of None \<Rightarrow> up_empty True path
           | Some text \<Rightarrow> if can_open then up_load path text else up_empty False path);
         (_, u1) \<leftarrow> up_SetDefaults libdir app h u;
         let (_, fs2, u2) = up_Save env fs1 u1;
         Some (fs2, u2)
       })"

text \<open>
  Typed preferences round-trip through any component's view of the store. An \<open>int32\<close> above
  the smallest one and a boolean are read back as they were set, from the component and from the
  parent under the prefixed key, and no other key changes; for the smallest \<open>int32\<close> the negation
  in \<open>SetPrefInt32\<close> overflows and has no defined result.
\<close>

theorem typed_preferences_roundtrip:
  assumes "up_inv u" and "- 2147483648 < v" and "v < 2147483648"
  shows "(\<exists>u'. SetPrefInt32 (pp_SetPrefString up_SetPrefString prefix) u k v = Some (kError_NoErr, u') \<and>
      up_inv u' \<and> GetPrefInt32 (pp_GetPrefString up_GetPrefString prefix) u' k = Some (kError_NoErr, v) \<and>
      GetPrefInt32 up_GetPrefString u' (AppendStringsWithDot prefix k) = Some (kError_NoErr, v) \<and>
      (\<forall>k'. c_str k' \<noteq> AppendStringsWithDot prefix k \<longrightarrow> up_contents u' (c_str k') = up_contents u (c_str k'))) \<and>
    (\<exists>u'. SetPrefBoolean (pp_SetPrefString up_SetPrefString prefix) u k b = Some (kError_NoErr, u') \<and>
      up_inv u' \<and> GetPrefBoolean (pp_GetPrefString up_GetPrefString prefix) u' k = Some (kError_NoErr, b)) \<and>
    SetPrefInt32 (pp_SetPrefString up_SetPrefString prefix) u k (- 2147483648) = None"
proof (intro conjI)
  have pp: "SetPrefInt32 (pp_SetPrefString up_SetPrefString prefix) u k v = SetPrefInt32 up_SetPrefString u (AppendStringsWithDot prefix k) v"
    "GetPrefInt32 (pp_GetPrefString up_GetPrefString prefix) u' k = GetPrefInt32 up_GetPrefString u' (AppendStringsWithDot prefix k)" for u'
    by (simp_all add: SetPrefInt32_def GetPrefInt32_def pp_SetPrefString_def pp_GetPrefString_def)
  show "\<exists>u'. SetPrefInt32 (pp_SetPrefString up_SetPrefString prefix) u k v = Some (kError_NoErr, u') \<and>
      up_inv u' \<and> GetPrefInt32 (pp_GetPrefString up_GetPrefString prefix) u' k = Some (kError_NoErr, v) \<and>
      GetPrefInt32 up_GetPrefString u' (AppendStringsWithDot prefix k) = Some (kError_NoErr, v) \<and>
      (\<forall>k'. c_str k' \<noteq> AppendStringsWithDot prefix k \<longrightarrow> up_contents u' (c_str k') = up_contents u (c_str k'))"
    using up.Int32_roundtrip [OF assms, of "AppendStringsWithDot prefix k"] by (auto simp: pp c_str_with_dot)
  show "\<exists>u'. SetPrefBoolean (pp_SetPrefString up_SetPrefString prefix) u k b = Some (kError_NoErr, u') \<and>
      up_inv u' \<and> GetPrefBoolean (pp_GetPrefString up_GetPrefString prefix) u' k = Some (kError_NoErr, b)"
    using upp.component.Boolean_roundtrip [OF assms(1)] by blast
  show "SetPrefInt32 (pp_SetPrefString up_SetPrefString prefix) u k (- 2147483648) = None"
    by (simp add: SetPrefInt32_def int32_text_min)
qed

theorem typed_preferences_roundtrip_witness:
  "\<exists>u'. SetPrefInt32 (pp_SetPrefString up_SetPrefString ''irman'') volume_prefs ''Volume'' (- 7) = Some (kError_NoErr, u') \<and>
    GetPrefInt32 (pp_GetPrefString up_GetPrefString ''irman'') u' ''Volume'' = Some (kError_NoErr, - 7)"
  using typed_preferences_roundtrip [OF good_prefs_inv [OF volume_good], of "- 7" "''irman''" "''Volume''"] by auto

lemma disjoint_defaults:
  "set (map default_key base_defaults) \<inter> set (map default_key (unix_defaults libdir app home)) = {}"
  by (simp add: unix_defaults_def player_defaults_def browser_defaults_def)

lemma with_defaults_other: "k \<notin> default_key ` set ds \<Longrightarrow> with_defaults ds m k = m k"
  using default_for_None [of ds k] by (simp add: with_defaults_def)

lemma with_defaults_cong: "m k = m' k \<Longrightarrow> with_defaults ds m k = with_defaults ds m' k"
  by (simp add: with_defaults_def split: option.split)

lemma with_defaults_twice:
  assumes "\<forall>d \<in> set (unix_defaults libdir app home). valid_default d"
  shows "with_defaults base_defaults (with_defaults (unix_defaults libdir app home)
      (with_defaults base_defaults (with_defaults (unix_defaults libdir app home) m))) =
    with_defaults base_defaults (with_defaults (unix_defaults libdir app home) m)"
proof
  fix k
  let ?u = "with_defaults (unix_defaults libdir app home)" and ?b = "with_defaults base_defaults"
  show "?b (?u (?b (?u m))) k = ?b (?u m) k"
  proof (cases "k \<in> default_key ` set base_defaults")
    case True
    then have "k \<notin> default_key ` set (unix_defaults libdir app home)"
      using disjoint_defaults [of libdir app home] by auto
    then have "?u (?b (?u m)) k = ?b (?u m) k" by (rule with_defaults_other)
    then show ?thesis using with_defaults_cong fun_cong [OF with_defaults_idem [OF base_defaults_valid]] by metis
  next
    case False
    then have "?b (?u (?b (?u m))) k = ?u (?b (?u m)) k" and b: "?b (?u m) k = ?u m k"
      by (rule with_defaults_other)+
    then show ?thesis
      using with_defaults_cong [where m = "?b (?u m)" and m' = "?u m" and k = k, OF b]
        fun_cong [OF with_defaults_idem [OF assms]] by metis
  qed
qed

lemma with_defaults_satisfied:
  assumes "\<forall>d \<in> set ds. valid_default d" and "distinct (map default_key ds)" and "d \<in> set ds"
  shows "\<not> needs_default d (with_defaults ds m (default_key d))"
proof -
  have "default_for ds (default_key d) = Some d"
    using assms(2,3) unfolding default_for_def by (intro map_of_is_SomeI) (auto simp: comp_def)
  then show ?thesis using needs_default_text assms(1,3) by (auto simp: with_defaults_def)
qed

lemma unix_defaults_distinct: "distinct (map default_key (unix_defaults libdir app home))"
  by (simp add: unix_defaults_def)

lemma unix_defaults_valid:
  assumes "c_str libdir = libdir" and "c_str app = app"
  shows "\<forall>d \<in> set (unix_defaults libdir app home). valid_default d"
proof -
  have nul: "CHR 0x00 \<notin> set libdir" "CHR 0x00 \<notin> set app" "CHR 0x00 \<notin> set (c_str home)"
    using assms c_str_no_nul by metis+
  have key: "valid_default (DefString k x)" if "CHR 0x00 \<notin> set k" "CHR 0x00 \<notin> set x" for k x
    using that by (simp add: c_str_id)
  show ?thesis using nul by (auto simp: unix_defaults_def FreeampDir_def simp del: valid_default.simps intro!: key)
qed

text \<open>
  \<open>UnixPrefs::SetDefaults\<close> always succeeds, keeps every stored value that is readable as what it
  should be (and values too long for the buffer), and stores the default for every other key of the two
  lists; calling it again changes nothing.
\<close>

theorem SetDefaults_fills_missing:
  assumes u: "up_inv u" and "c_str libdir = libdir" and "c_str app = app"
  shows "\<exists>u'. up_SetDefaults libdir app home u = Some (kError_NoErr, u') \<and> up_inv u' \<and>
    up_contents u' = with_defaults base_defaults (with_defaults (unix_defaults libdir app home) (up_contents u)) \<and>
    (\<forall>d \<in> set base_defaults. \<not> needs_default d (up_contents u' (default_key d))) \<and>
    (\<exists>u''. up_SetDefaults libdir app home u' = Some (kError_NoErr, u'') \<and> up_contents u'' = up_contents u')"
proof -
  let ?ud = "unix_defaults libdir app home"
  note valid = unix_defaults_valid [OF assms(2,3), of home]
  have run: "\<exists>w'. up_SetDefaults libdir app home w = Some (kError_NoErr, w') \<and> up_inv w' \<and>
      up_contents w' = with_defaults base_defaults (with_defaults ?ud (up_contents w))" if w: "up_inv w" for w
  proof -
    obtain w1 where w1: "set_defaults up_GetPrefString up_SetPrefString 1024 ?ud w = Some w1" "up_inv w1"
      "up_contents w1 = fold apply_default ?ud (up_contents w)"
      using up.set_defaults_ok [OF w valid] by blast
    obtain w2 where "SetDefaults up_GetPrefString up_SetPrefString w1 = Some (kError_NoErr, w2)" "up_inv w2"
      "up_contents w2 = with_defaults base_defaults (up_contents w1)"
      using up.SetDefaults_ok [OF w1(2)] by blast
    then show ?thesis using w1 by (simp add: up_SetDefaults_def fold_apply_default [OF unix_defaults_distinct])
  qed
  obtain u' where u': "up_SetDefaults libdir app home u = Some (kError_NoErr, u')" "up_inv u'"
    "up_contents u' = with_defaults base_defaults (with_defaults ?ud (up_contents u))"
    using run [OF u] by blast
  obtain u'' where u'': "up_SetDefaults libdir app home u' = Some (kError_NoErr, u'')"
    "up_contents u'' = with_defaults base_defaults (with_defaults ?ud (up_contents u'))"
    using run [OF u'(2)] by blast
  have "up_contents u'' = up_contents u'"
    using u''(2) u'(3) with_defaults_twice [OF valid, of "up_contents u"] by simp
  moreover have "\<forall>d \<in> set base_defaults. \<not> needs_default d (up_contents u' (default_key d))"
    using with_defaults_satisfied [OF base_defaults_valid base_defaults_distinct] by (simp add: u'(3))
  ultimately show ?thesis using u' u''(1) by blast
qed

theorem SetDefaults_fills_missing_witness:
  "\<exists>u'. up_SetDefaults ''/usr/lib'' ''freeamp'' ''/root'' volume_prefs = Some (kError_NoErr, u') \<and>
    up_contents u' = with_defaults base_defaults
      (with_defaults (unix_defaults ''/usr/lib'' ''freeamp'' ''/root'') (up_contents volume_prefs))"
proof -
  have "c_str ''/usr/lib'' = ''/usr/lib''" and "c_str ''freeamp'' = ''freeamp''" by (simp_all add: c_str_def)
  from SetDefaults_fills_missing [OF good_prefs_inv [OF volume_good] this, of "''/root''"] show ?thesis by blast
qed

subsection \<open>The library path\<close>

text \<open>
  \<open>GetFirstLibDir\<close> and \<open>GetNextLibDir\<close>: the path is cut at its colons into the handle's list.
  \<open>strncpy\<close> fills the buffer of \<open>len\<close> characters with the name and NULs, and leaves no NUL when the
  name has \<open>len\<close> characters or more; \<open>*len\<close> is the length of the name.
\<close>

function split_dirs :: "string \<Rightarrow> string list" where
  "split_dirs s = takeWhile (\<lambda>c. c \<noteq> CHR '':'') s #
     (case dropWhile (\<lambda>c. c \<noteq> CHR '':'') s of [] \<Rightarrow> [] | _ # rest \<Rightarrow> split_dirs rest)"
  by pat_completeness auto
termination
proof (relation "measure length")
  fix s :: string and x rest
  assume "dropWhile (\<lambda>c. c \<noteq> CHR '':'') s = x # rest"
  then have "length (x # rest) \<le> length s" by (metis length_dropWhile_le)
  then show "(rest, s) \<in> measure length" by simp
qed simp

declare split_dirs.simps [simp del]

definition strncpy_text :: "string \<Rightarrow> nat \<Rightarrow> string" where
  "strncpy_text s len = take len (s @ replicate len (CHR 0x00))"

type_synonym lib_dir_handle = "string list \<times> nat"

definition up_GetFirstLibDir ::
  "string option \<Rightarrow> string \<Rightarrow> nat \<Rightarrow> (lib_dir_handle \<times> string \<times> nat) option" where
  "up_GetFirstLibDir env libDirs len =
     (let dirs = split_dirs (c_str (case env of Some e \<Rightarrow> e | None \<Rightarrow> libDirs))
      in do {
        d \<leftarrow> vec_at dirs 0;
        Some ((dirs, 0), strncpy_text d len, length d)
      })"

definition up_GetNextLibDir ::
  "lib_dir_handle option \<Rightarrow> nat \<Rightarrow> error \<times> lib_dir_handle option \<times> (string \<times> nat) option" where
  "up_GetNextLibDir h len = (case h of
       None \<Rightarrow> (kError_NoMoreLibDirs, None, None)
     | Some (dirs, current) \<Rightarrow>
         let current = current + 1
         in if current < length dirs
            then (kError_NoErr, Some (dirs, current), Some (strncpy_text (dirs ! current) len, length (dirs ! current)))
            else (kError_NoMoreLibDirs, Some (dirs, current), Some ([CHR 0x00], 0)))"

lemma split_dirs_nonempty: "split_dirs s \<noteq> []"
  by (subst split_dirs.simps) simp

lemma split_dirs_join: "concat (map (\<lambda>d. d @ '':'') (butlast (split_dirs s))) @ last (split_dirs s) = s"
proof (induction s rule: split_dirs.induct)
  case (1 s)
  show ?case
  proof (cases "dropWhile (\<lambda>c. c \<noteq> CHR '':'') s")
    case Nil
    then have "split_dirs s = [takeWhile (\<lambda>c. c \<noteq> CHR '':'') s]" by (subst split_dirs.simps) (simp only: list.case)
    moreover have whole: "takeWhile (\<lambda>c. c \<noteq> CHR '':'') s = s" using Nil by (metis append_Nil2 takeWhile_dropWhile_id)
    ultimately have "split_dirs s = [s]" by (simp only: whole)
    then show ?thesis by simp
  next
    case (Cons x rest)
    have x: "x = CHR '':''" using hd_dropWhile [of "\<lambda>c. c \<noteq> CHR '':''" s] Cons by simp
    have join: "takeWhile (\<lambda>c. c \<noteq> CHR '':'') s @ x # rest = s"
      using takeWhile_dropWhile_id [of "\<lambda>c. c \<noteq> CHR '':''" s] by (simp only: Cons)
    have "split_dirs s = takeWhile (\<lambda>c. c \<noteq> CHR '':'') s # split_dirs rest"
      by (subst split_dirs.simps) (simp add: Cons)
    then have "concat (map (\<lambda>d. d @ '':'') (butlast (split_dirs s))) @ last (split_dirs s) =
      takeWhile (\<lambda>c. c \<noteq> CHR '':'') s @ x # rest"
      using 1 [OF Cons] x split_dirs_nonempty [of rest] by simp
    then show ?thesis by (simp only: join)
  qed
qed

fun lib_dirs_loop :: "nat \<Rightarrow> lib_dir_handle \<Rightarrow> nat \<Rightarrow> (string \<times> nat) list" where
  "lib_dirs_loop 0 h len = []"
| "lib_dirs_loop (Suc n) h len = (case up_GetNextLibDir (Some h) len of
       (kError_NoErr, Some h', Some p) \<Rightarrow> p # lib_dirs_loop n h' len
     | _ \<Rightarrow> [])"

lemma lib_dirs_loop_all:
  "length dirs - k \<le> n \<Longrightarrow> k < length dirs \<Longrightarrow>
   lib_dirs_loop n (dirs, k) len = map (\<lambda>d. (strncpy_text d len, length d)) (drop (Suc k) dirs)"
proof (induction n arbitrary: k)
  case 0
  then show ?case by simp
next
  case (Suc n)
  show ?case
  proof (cases "Suc k < length dirs")
    case True
    then have "drop (Suc k) dirs = dirs ! Suc k # drop (Suc (Suc k)) dirs" by (simp add: Cons_nth_drop_Suc)
    then show ?thesis using Suc True by (simp add: up_GetNextLibDir_def)
  next
    case False
    then show ?thesis by (simp add: up_GetNextLibDir_def)
  qed
qed

end
