(* ===== verification/PlaylistFiles.thy ===== *)
theory PlaylistFiles
  imports Utility UnixPrefs MetaData
begin

section \<open>The M3U and PLS playlist formats\<close>

text \<open>
  \<open>plm/playlist/m3u/m3u.cpp\<close> and \<open>plm/playlist/pls/pls.cpp\<close>, Unix build (\<open>DIR_MARKER\<close> is a slash, lines
  end in a newline). Files are a map from paths to contents. Every buffer has \<open>_MAX_PATH\<close>
  characters; a copy that does not fit has no defined result. The items constructed are given by
  their URL and metadata.
\<close>

subsection \<open>Formats\<close>

definition m3u_formats :: "(string \<times> string) list" where
  "m3u_formats = [(''m3u'', ''M3U Playlist Format''), (''gqmpeg'', ''M3U Playlist Format'')]"

definition pls_formats :: "(string \<times> string) list" where
  "pls_formats = [(''pls'', ''PLS Playlist Format'')]"

definition m3u_GetSupportedFormats :: "nat \<Rightarrow> error \<times> (string \<times> string) option" where
  "m3u_GetSupportedFormats index =
     (if index < length m3u_formats then (kError_NoErr, Some (m3u_formats ! index)) else (kError_NoMoreFormats, None))"

definition pls_GetSupportedFormats :: "nat \<Rightarrow> error \<times> (string \<times> string) option" where
  "pls_GetSupportedFormats index =
     (if index < length pls_formats then (kError_NoErr, Some (pls_formats ! index)) else (kError_NoMoreFormats, None))"

subsection \<open>One entry\<close>

definition is_url :: "string \<Rightarrow> bool" where
  "is_url e \<longleftrightarrow> has_prefix ''http://'' e \<or> has_prefix ''rtp://'' e \<or> has_prefix ''file://'' e"

definition fix_separators :: "string \<Rightarrow> string" where
  "fix_separators e = (if is_url e then e else map (\<lambda>c. if c = CHR 0x5C then DIR_MARKER else c) e)"

definition strip_spaces :: "string \<Rightarrow> string" where
  "strip_spaces e = rev (dropWhile c_isspace (rev e))"

text \<open>The directory of the playlist, with its separator; the whole path when it has none.\<close>

definition root_of :: "string \<Rightarrow> string" where
  "root_of path = (if DIR_MARKER \<in> set path
     then rev (dropWhile (\<lambda>c. c \<noteq> DIR_MARKER) (rev path)) else path)"

definition is_relative_entry :: "string \<Rightarrow> bool" where
  "is_relative_entry e \<longleftrightarrow> has_prefix ''..'' e \<or>
     (\<not> has_prefix ('':'' @ [CHR 0x5C]) (drop 1 e) \<and> \<not> has_prefix [DIR_MARKER] e)"

definition copy_fits :: "string \<Rightarrow> string option" where
  "copy_fits s = (if length s + 1 \<le> MAX_PATH then Some s else None)"

text \<open>The URL of an entry whose text is not empty.\<close>

definition entry_url :: "string \<Rightarrow> string \<Rightarrow> string option" where
  "entry_url root e =
     (if is_url e then copy_fits e
      else do {
        path \<leftarrow> copy_fits (if is_relative_entry e then root @ e else e);
        let (err, url, _) = FilePathToURL path (length path + 15);
        case url of Some u \<Rightarrow> if IsntError err then copy_fits u else Some path | None \<Rightarrow> Some path
      })"

text \<open>What one line of an M3U file adds.\<close>

definition m3u_line :: "string \<Rightarrow> string \<Rightarrow> string list option" where
  "m3u_line root buffer =
     (let entry = c_str buffer
      in if entry \<noteq> [] \<and> hd entry = CHR ''#'' then Some []
         else let entry = strip_spaces (fix_separators entry)
              in if length entry \<noteq> 0 then do { url \<leftarrow> entry_url root entry; Some [url] } else Some [])"

fun m3u_lines :: "string \<Rightarrow> string list \<Rightarrow> string list option" where
  "m3u_lines root [] = Some []"
| "m3u_lines root (l # ls) = do { us \<leftarrow> m3u_line root l; vs \<leftarrow> m3u_lines root ls; Some (us @ vs) }"

definition m3u_ReadPlaylist :: "files \<Rightarrow> string \<Rightarrow> (error \<times> (string \<times> metadata option) list) option" where
  "m3u_ReadPlaylist fs url = (case URLToFilePath url MAX_PATH of
       (kError_NoErr, Some path, _) \<Rightarrow> (case fs path of
           None \<Rightarrow> Some (kError_FileNotFound, [])
         | Some text \<Rightarrow> do {
             urls \<leftarrow> m3u_lines (root_of path) (file_chunks (MAX_PATH - 1) text);
             Some (kError_NoErr, map (\<lambda>u. (u, None)) urls)
           })
     | (e, _, _) \<Rightarrow> Some (e, []))"

text \<open>
  \<open>WritePlaylist\<close> is the same code in both plugins but for the extension. When the URL of the playlist is
  not a \<open>file\<close> URL, the path is used uninitialised.
\<close>

definition playlist_line :: "string \<Rightarrow> string" where
  "playlist_line url = (case URLToFilePath url MAX_PATH of
       (kError_NoErr, Some path, _) \<Rightarrow> path @ [CHR 0x0A]
     | _ \<Rightarrow> c_str url @ [CHR 0x0A])"

definition write_playlist :: "string \<Rightarrow> bool \<Rightarrow> files \<Rightarrow> string \<Rightarrow> string \<Rightarrow> string list \<Rightarrow> (error \<times> files) option" where
  "write_playlist extension can_open fs url format urls =
     (if strcasecmp extension (c_str format) = 0 then
        (case URLToFilePath url MAX_PATH of
           (kError_NoErr, Some path, _) \<Rightarrow>
             if can_open then Some (kError_NoErr, fs(path \<mapsto> concat (map playlist_line urls)))
             else Some (kError_FileNoAccess, fs)
         | _ \<Rightarrow> None)
      else Some (kError_FormatNotSupported, fs))"

definition m3u_WritePlaylist :: "bool \<Rightarrow> files \<Rightarrow> string \<Rightarrow> string \<Rightarrow> string list \<Rightarrow> (error \<times> files) option" where
  "m3u_WritePlaylist = write_playlist ''m3u''"

definition pls_WritePlaylist :: "bool \<Rightarrow> files \<Rightarrow> string \<Rightarrow> string \<Rightarrow> string list \<Rightarrow> (error \<times> files) option" where
  "pls_WritePlaylist = write_playlist ''pls''"

subsection \<open>Reading PLS\<close>

text \<open>
  The two \<open>fscanf\<close> formats on the rest of the file: the value returned (\<open>-1\<close> for \<open>EOF\<close>), what is
  left, whether the end of the file was met, and the conversions made. A conversion without a
  width overruns its buffer at \<open>_MAX_PATH\<close> characters.
\<close>

definition scan_section :: "string \<Rightarrow> (int \<times> string \<times> bool \<times> string option) option" where
  "scan_section s =
     (let s1 = dropWhile c_isspace s
      in if s1 = [] then Some (-1, [], True, None)
         else if hd s1 \<noteq> CHR ''['' then Some (0, s1, False, None)
         else let s2 = tl s1; run = takeWhile (\<lambda>c. c \<noteq> CHR '']'') s2; s3 = drop (length run) s2
           in if s2 = [] then Some (-1, [], True, None)
              else if run = [] then Some (0, s2, False, None)
              else if length run \<ge> MAX_PATH then None
              else if s3 = [] then Some (1, [], True, Some run)
              else let s4 = dropWhile c_isspace (tl s3) in Some (1, s4, s4 = [], Some run))"

definition scan_key_value :: "string \<Rightarrow> (int \<times> string \<times> bool \<times> string option \<times> string option) option" where
  "scan_key_value s =
     (let key = takeWhile (\<lambda>c. c \<noteq> CHR ''='') s; s2 = drop (length key) s
      in if s = [] then Some (-1, [], True, None, None)
         else if key = [] then Some (0, s, False, None, None)
         else if length key \<ge> MAX_PATH then None
         else if s2 = [] then Some (1, [], True, Some key, None)
         else let s3 = tl s2; val = takeWhile (\<lambda>c. c \<noteq> CHR 0x0A \<and> c \<noteq> CHR 0x0D) s3; s4 = drop (length val) s3
           in if s3 = [] then Some (1, [], True, Some key, None)
              else if val = [] then Some (1, s3, False, Some key, None)
              else if length val \<ge> MAX_PATH then None
              else let s5 = dropWhile c_isspace s4 in Some (2, s5, s5 = [], Some key, Some val))"

text \<open>The locals of \<open>ReadPlaylist\<close>; \<open>key\<close> and \<open>value\<close> start uninitialised.\<close>

record pls_state =
  ps_key :: "string option"
  ps_value :: "string option"
  ps_file :: string
  ps_title :: string
  ps_len :: int
  ps_items :: "(string \<times> metadata option) list"

definition pls_AddItem :: "string \<Rightarrow> string \<Rightarrow> string \<Rightarrow> int \<Rightarrow> (string \<times> metadata option) list option" where
  "pls_AddItem root entry title len =
     (let entry = strip_spaces (fix_separators entry)
      in if length entry \<noteq> 0 then do {
           url \<leftarrow> entry_url root entry;
           let oData = new_metadata\<lparr>m_title := title\<rparr>;
           let oData = (if len > 0 then oData\<lparr>m_time := nat len\<rparr> else oData);
           Some [(url, Some oData)]
         }
         else Some [])"

definition pls_key :: "string \<Rightarrow> pls_state \<Rightarrow> pls_state option" where
  "pls_key root st = do {
     key \<leftarrow> ps_key st;
     if has_prefix ''File'' key then do {
       st1 \<leftarrow> (if length (ps_file st) \<noteq> 0 then do {
           its \<leftarrow> pls_AddItem root (ps_file st) (ps_title st) (ps_len st);
           Some (st\<lparr>ps_items := ps_items st @ its, ps_title := [], ps_len := -1\<rparr>)
         } else Some st);
       value \<leftarrow> ps_value st1;
       Some (st1\<lparr>ps_file := value\<rparr>)
     }
     else if has_prefix ''Title'' key then do { value \<leftarrow> ps_value st; Some (st\<lparr>ps_title := value\<rparr>) }
     else if has_prefix ''Length'' key then do { value \<leftarrow> ps_value st; Some (st\<lparr>ps_len := atoi value\<rparr>) }
     else Some st
   }"

partial_function (option) pls_loop :: "string \<Rightarrow> string \<Rightarrow> bool \<Rightarrow> pls_state \<Rightarrow> pls_state option" where
  "pls_loop root s eof st =
     (if eof then Some st
      else do {
        (r, s1, eof1, sect) \<leftarrow> scan_section s;
        let st1 = (case sect of None \<Rightarrow> st | Some k \<Rightarrow> st\<lparr>ps_key := Some (c_str k)\<rparr>);
        if r \<noteq> 0 then pls_loop root s1 eof1 st1
        else do {
          (r2, s2, eof2, key, val) \<leftarrow> scan_key_value s1;
          let st2 = (case key of None \<Rightarrow> st1 | Some k \<Rightarrow> st1\<lparr>ps_key := Some (c_str k)\<rparr>);
          let st3 = (case val of None \<Rightarrow> st2 | Some v \<Rightarrow> st2\<lparr>ps_value := Some (c_str v)\<rparr>);
          if r2 \<noteq> 0 then do { st4 \<leftarrow> pls_key root st3; pls_loop root s2 eof2 st4 }
          else pls_loop root s2 eof2 st3
        }
      })"

definition pls_ReadPlaylist :: "files \<Rightarrow> string \<Rightarrow> (error \<times> (string \<times> metadata option) list) option" where
  "pls_ReadPlaylist fs url = (case URLToFilePath url MAX_PATH of
       (kError_NoErr, Some path, _) \<Rightarrow> (case fs path of
           None \<Rightarrow> Some (kError_FileNotFound, [])
         | Some text \<Rightarrow> do {
             st \<leftarrow> pls_loop (root_of path) text False \<lparr>ps_key = None, ps_value = None, ps_file = [],
               ps_title = [], ps_len = -1, ps_items = []\<rparr>;
             its \<leftarrow> (if length (ps_file st) \<noteq> 0 then pls_AddItem (root_of path) (ps_file st) (ps_title st) (ps_len st)
               else Some []);
             Some (kError_NoErr, ps_items st @ its)
           })
     | (e, _, _) \<Rightarrow> Some (e, []))"

subsection \<open>Writing and reading an M3U file\<close>

definition line_safe :: "string \<Rightarrow> bool" where
  "line_safe s \<longleftrightarrow> s \<noteq> [] \<and> CHR 0x0A \<notin> set s \<and> CHR 0x00 \<notin> set s \<and> \<not> c_isspace (last s)"

definition file_entry :: "string \<Rightarrow> bool" where
  "file_entry p \<longleftrightarrow> line_safe p \<and> hd p = DIR_MARKER \<and> CHR 0x5C \<notin> set p \<and> length p \<le> 4088"

definition stream_entry :: "string \<Rightarrow> bool" where
  "stream_entry u \<longleftrightarrow> line_safe u \<and> (has_prefix ''http://'' u \<or> has_prefix ''rtp://'' u) \<and> length u \<le> 4094"

definition listable_url :: "string \<Rightarrow> bool" where
  "listable_url u \<longleftrightarrow> stream_entry u \<or> (\<exists>p. u = protocol @ p \<and> file_entry p)"

text \<open>The text a URL is listed as: a path for a file, the URL itself otherwise.\<close>

definition listed_text :: "string \<Rightarrow> string" where
  "listed_text u = (if has_prefix protocol u then drop 7 u else u)"

lemma strip_spaces_safe: "line_safe s \<Longrightarrow> strip_spaces (s @ [CHR 0x0A]) = s \<and> strip_spaces s = s"
proof -
  assume "line_safe s"
  then obtain t c where "s = t @ [c]" "\<not> c_isspace c" by (cases s rule: rev_cases) (auto simp: line_safe_def)
  then show ?thesis by (simp add: strip_spaces_def)
qed

lemma listed_file:
  assumes "file_entry p"
  shows "playlist_line (protocol @ p) = p @ [CHR 0x0A]" and "m3u_line root (p @ [CHR 0x0A]) = Some [protocol @ p]"
proof -
  obtain q where p: "p = DIR_MARKER # q" using assms by (cases p) (auto simp: file_entry_def line_safe_def)
  have nul: "CHR 0x00 \<notin> set p" using assms by (simp add: file_entry_def line_safe_def)
  then have c: "c_str p = p" "c_str (protocol @ p) = protocol @ p" "c_str (p @ [CHR 0x0A]) = p @ [CHR 0x0A]"
    by (auto intro: c_str_id)
  show "playlist_line (protocol @ p) = p @ [CHR 0x0A]"
    using assms c has_prefix_ci_append [of protocol p]
    by (simp add: playlist_line_def URLToFilePath_def Let_def file_entry_def del: c_str_Cons)
  have nurl: "\<not> is_url (DIR_MARKER # r)" for r by (simp add: is_url_def has_prefix_def)
  have "map (\<lambda>c. if c = CHR 0x5C then DIR_MARKER else c) (p @ [CHR 0x0A]) = p @ [CHR 0x0A]"
    using assms by (auto simp: file_entry_def intro!: map_idI)
  then have "fix_separators (p @ [CHR 0x0A]) = p @ [CHR 0x0A]" using nurl by (simp add: fix_separators_def p)
  then have "strip_spaces (fix_separators (p @ [CHR 0x0A])) = p"
    using strip_spaces_safe [of p] assms by (simp add: file_entry_def)
  moreover have "entry_url root p = Some (protocol @ p)"
    using assms nurl [of q] c
    by (simp add: entry_url_def is_relative_entry_def has_prefix_def p copy_fits_def FilePathToURL_def Let_def
        file_entry_def IsError_def del: c_str_Cons)
  ultimately show "m3u_line root (p @ [CHR 0x0A]) = Some [protocol @ p]"
    using c by (simp add: m3u_line_def p del: c_str_Cons)
qed

lemma listed_stream:
  assumes "stream_entry u"
  shows "playlist_line u = u @ [CHR 0x0A]" and "m3u_line root (u @ [CHR 0x0A]) = Some [u]"
    and "\<not> has_prefix protocol u"
proof -
  obtain q where u: "u = CHR ''h'' # q \<or> u = CHR ''r'' # q"
    using assms by (cases u) (auto simp: stream_entry_def line_safe_def has_prefix_def)
  have "CHR 0x00 \<notin> set u" using assms by (simp add: stream_entry_def line_safe_def)
  then have c: "c_str u = u" "c_str (u @ [CHR 0x0A]) = u @ [CHR 0x0A]" by (auto intro: c_str_id)
  show "\<not> has_prefix protocol u" using u by (auto simp: has_prefix_def)
  have "\<not> has_prefix_ci protocol u" using u by (auto simp: has_prefix_ci_def lower_byte_def byte_of_def)
  then show "playlist_line u = u @ [CHR 0x0A]" by (simp add: playlist_line_def URLToFilePath_def c)
  have url: "is_url u" using assms by (auto simp: stream_entry_def is_url_def)
  then have "is_url (u @ [CHR 0x0A])" unfolding is_url_def by (blast intro: has_prefix_append)
  then have "strip_spaces (fix_separators (u @ [CHR 0x0A])) = u"
    using strip_spaces_safe [of u] assms by (simp add: fix_separators_def stream_entry_def)
  moreover have "entry_url root u = Some u" using url assms by (simp add: entry_url_def copy_fits_def stream_entry_def)
  ultimately show "m3u_line root (u @ [CHR 0x0A]) = Some [u]"
    using c u by (auto simp: m3u_line_def simp del: c_str_Cons)
qed

lemma listable_line:
  assumes "listable_url u"
  shows "playlist_line u = listed_text u @ [CHR 0x0A]" and "m3u_line root (listed_text u @ [CHR 0x0A]) = Some [u]"
    and "CHR 0x0A \<notin> set (listed_text u)" and "length (listed_text u) < 4095"
proof -
  have "(playlist_line u = listed_text u @ [CHR 0x0A] \<and> m3u_line root (listed_text u @ [CHR 0x0A]) = Some [u]) \<and>
    CHR 0x0A \<notin> set (listed_text u) \<and> length (listed_text u) < 4095"
  proof (cases "stream_entry u")
    case True
    then show ?thesis using listed_stream [OF True] by (simp add: listed_text_def stream_entry_def line_safe_def)
  next
    case False
    then obtain p where p: "u = protocol @ p" "file_entry p" using assms by (auto simp: listable_url_def)
    then have "listed_text u = p" by (simp add: listed_text_def has_prefix_def)
    then show ?thesis using listed_file [OF p(2)] p by (simp add: file_entry_def line_safe_def)
  qed
  then show "playlist_line u = listed_text u @ [CHR 0x0A]" and "m3u_line root (listed_text u @ [CHR 0x0A]) = Some [u]"
    and "CHR 0x0A \<notin> set (listed_text u)" and "length (listed_text u) < 4095" by auto
qed

lemma listable_lines: "\<forall>u \<in> set urls. listable_url u \<Longrightarrow> m3u_lines root (map playlist_line urls) = Some urls"
  by (induction urls) (auto simp: listable_line)

lemma listable_chunks:
  "\<forall>u \<in> set urls. listable_url u \<Longrightarrow> file_chunks 4095 (concat (map playlist_line urls)) = map playlist_line urls"
  by (rule file_chunks_general) (auto simp: listable_line)

lemma list_path:
  "c_str lp = lp \<Longrightarrow> length lp \<le> 4095 \<Longrightarrow> URLToFilePath (protocol @ lp) MAX_PATH = (kError_NoErr, Some lp, length lp + 1)"
  using has_prefix_ci_append [of protocol lp] by (simp add: URLToFilePath_def Let_def)

text \<open>
  C34. An M3U playlist that is written and read again gives the same URLs in the same order, for
  \<open>file\<close> URLs of absolute paths and \<open>http\<close> and \<open>rtp\<close> URLs whose text has no newline, no trailing white
  space and, for a path, no backslash, and is short enough for the buffers; no other file changes.
\<close>

theorem m3u_write_read:
  assumes urls: "\<forall>u \<in> set urls. listable_url u" and lp: "c_str lp = lp" "length lp \<le> 4095"
  shows "\<exists>fs'. m3u_WritePlaylist True fs (protocol @ lp) ''m3u'' urls = Some (kError_NoErr, fs') \<and>
    m3u_ReadPlaylist fs' (protocol @ lp) = Some (kError_NoErr, map (\<lambda>u. (u, None)) urls) \<and>
    (\<forall>p. p \<noteq> lp \<longrightarrow> fs' p = fs p)"
proof -
  let ?fs = "fs(lp \<mapsto> concat (map playlist_line urls))"
  have "m3u_WritePlaylist True fs (protocol @ lp) ''m3u'' urls = Some (kError_NoErr, ?fs)"
    unfolding m3u_WritePlaylist_def write_playlist_def list_path [OF lp] by simp
  moreover have "m3u_ReadPlaylist ?fs (protocol @ lp) = Some (kError_NoErr, map (\<lambda>u. (u, None)) urls)"
    unfolding m3u_ReadPlaylist_def list_path [OF lp]
    by (simp add: listable_chunks [OF urls] listable_lines [OF urls] comp_def)
  ultimately show ?thesis by auto
qed

abbreviation demo_urls :: "string list" where
  "demo_urls \<equiv> [''file:///music/a b.mp3'', ''http://host:80/x.mp3'']"

lemma demo_listable: "\<forall>u \<in> set demo_urls. listable_url u"
proof -
  have "file_entry ''/music/a b.mp3''" by (simp add: file_entry_def line_safe_def c_isspace_def byte_of_def)
  then have "listable_url ''file:///music/a b.mp3''" unfolding listable_url_def
    by (intro disjI2 exI [of _ "''/music/a b.mp3''"]) simp
  moreover have "listable_url ''http://host:80/x.mp3''"
    by (simp add: listable_url_def stream_entry_def line_safe_def c_isspace_def byte_of_def has_prefix_def)
  ultimately show ?thesis by simp
qed

theorem m3u_write_read_witness:
  "\<exists>fs'. m3u_WritePlaylist True Map.empty ''file:///l.m3u'' ''m3u'' demo_urls = Some (kError_NoErr, fs') \<and>
    m3u_ReadPlaylist fs' ''file:///l.m3u'' = Some (kError_NoErr, map (\<lambda>u. (u, None)) demo_urls)"
  using m3u_write_read [OF demo_listable, of "''/l.m3u''" Map.empty] by auto

subsection \<open>Reading a PLS file\<close>

definition pls_word :: "string \<Rightarrow> bool" where
  "pls_word k \<longleftrightarrow> k \<noteq> [] \<and> CHR ''='' \<notin> set k \<and> CHR 0x00 \<notin> set k \<and> \<not> c_isspace (hd k) \<and> hd k \<noteq> CHR ''['' \<and>
     length k < MAX_PATH"

definition pls_value :: "string \<Rightarrow> bool" where
  "pls_value v \<longleftrightarrow> v \<noteq> [] \<and> CHR 0x0A \<notin> set v \<and> CHR 0x0D \<notin> set v \<and> CHR 0x00 \<notin> set v \<and> length v < MAX_PATH"

lemma takeWhile_stop: "\<forall>c \<in> set s. P c \<Longrightarrow> \<not> P d \<Longrightarrow> takeWhile P (s @ d # r) = s"
  by (simp add: takeWhile_append)

lemma dropWhile_hd: "s \<noteq> [] \<Longrightarrow> \<not> P (hd s) \<Longrightarrow> dropWhile P (s @ r) = s @ r"
  by (cases s) simp_all

lemma pls_loop_line:
  assumes k: "pls_word k" and v: "pls_value v" and rest: "rest = [] \<or> \<not> c_isspace (hd rest)"
  shows "pls_loop root (k @ CHR ''='' # v @ CHR 0x0A # rest) False st =
    do { st4 \<leftarrow> pls_key root (st\<lparr>ps_key := Some k, ps_value := Some v\<rparr>); pls_loop root rest (rest = []) st4 }"
proof -
  let ?s = "k @ CHR ''='' # v @ CHR 0x0A # rest"
  have c: "c_str k = k" "c_str v = v" using k v by (simp_all add: pls_word_def pls_value_def c_str_id)
  have ws: "dropWhile c_isspace ?s = ?s" and hd: "hd ?s \<noteq> CHR ''[''" and ne: "?s \<noteq> []" "k \<noteq> []" "v \<noteq> []"
    using k v by (auto simp: pls_word_def pls_value_def dropWhile_hd)
  have sect: "scan_section ?s = Some (0, ?s, False, None)"
    using hd ne by (simp add: scan_section_def ws Let_def)
  have tk: "takeWhile (\<lambda>c. c \<noteq> CHR ''='') ?s = k" using k by (intro takeWhile_stop) (auto simp: pls_word_def)
  have tv: "takeWhile (\<lambda>c. c \<noteq> CHR 0x0A \<and> c \<noteq> CHR 0x0D) (v @ CHR 0x0A # rest) = v"
    using v by (intro takeWhile_stop) (auto simp: pls_value_def)
  have dr: "dropWhile c_isspace rest = rest" "(\<forall>c \<in> set rest. c_isspace c) = (rest = [])"
    using rest by (cases rest; simp)+
  have "scan_key_value ?s = Some (2, rest, rest = [], Some k, Some v)"
    using k v ne unfolding scan_key_value_def tk Let_def by (simp add: tv dr pls_word_def pls_value_def)
  then show ?thesis
    by (subst pls_loop.simps) (simp add: sect c)
qed

text \<open>A standard PLS file: URL, title and length in seconds of each entry.\<close>

type_synonym pls_entry = "string \<times> string \<times> nat"

definition pls_entry_text :: "nat \<Rightarrow> pls_entry \<Rightarrow> string" where
  "pls_entry_text i e = (case e of (u, t, n) \<Rightarrow>
     (''File'' @ decimal i) @ CHR ''='' # u @ CHR 0x0A # (''Title'' @ decimal i) @ CHR ''='' # t @ CHR 0x0A #
     (''Length'' @ decimal i) @ CHR ''='' # decimal n @ [CHR 0x0A])"

fun pls_entries_text :: "nat \<Rightarrow> pls_entry list \<Rightarrow> string" where
  "pls_entries_text i [] = []"
| "pls_entries_text i (e # es) = pls_entry_text i e @ pls_entries_text (Suc i) es"

definition pls_text :: "pls_entry list \<Rightarrow> string" where
  "pls_text es = ''[playlist]'' @ CHR 0x0A # ''NumberOfEntries'' @ CHR ''='' # decimal (length es) @ CHR 0x0A # pls_entries_text 1 es"

definition good_pls_entry :: "pls_entry \<Rightarrow> bool" where
  "good_pls_entry e = (case e of (u, t, n) \<Rightarrow>
     stream_entry u \<and> CHR 0x0D \<notin> set u \<and> pls_value t \<and> n < 2147483648)"

definition pls_item :: "pls_entry \<Rightarrow> string \<times> metadata option" where
  "pls_item e = (case e of (u, t, n) \<Rightarrow> (u, Some (new_metadata\<lparr>m_title := t, m_time := n\<rparr>)))"

definition pls_total :: "string \<Rightarrow> pls_state \<Rightarrow> (string \<times> metadata option) list option" where
  "pls_total root st = do {
     its \<leftarrow> (if length (ps_file st) \<noteq> 0 then pls_AddItem root (ps_file st) (ps_title st) (ps_len st) else Some []);
     Some (ps_items st @ its)
   }"

lemma decimal_value: "n < 2147483648 \<Longrightarrow> pls_value (decimal n)"
  using length_decimal [of n 10] by (simp add: pls_value_def decimal_no)

lemma numbered_word:
  assumes "i < 4294967296" and "w \<in> {''File'', ''Title'', ''Length''}"
  shows "pls_word (w @ decimal i)"
proof -
  have "length (decimal i) \<le> 10" using assms(1) by (intro length_decimal) simp_all
  then show ?thesis using assms(2) decimal_no [of i]
    by (auto simp: pls_word_def c_isspace_def byte_of_def)
qed

lemma stream_item:
  assumes "good_pls_entry (u, t, n)"
  shows "pls_AddItem root u t (int n) = Some [pls_item (u, t, n)]"
proof -
  have s: "stream_entry u" using assms by (simp add: good_pls_entry_def)
  then have url: "is_url u" and "u \<noteq> []" "line_safe u" by (auto simp: stream_entry_def is_url_def line_safe_def)
  then have "strip_spaces (fix_separators u) = u" by (simp add: fix_separators_def strip_spaces_safe)
  moreover have "entry_url root u = Some u" using url s by (simp add: entry_url_def copy_fits_def stream_entry_def)
  ultimately show ?thesis using \<open>u \<noteq> []\<close>
    by (cases "n = 0") (simp_all add: pls_AddItem_def pls_item_def new_metadata_def)
qed

lemma pls_text_hd: "pls_entries_text i es = [] \<or> \<not> c_isspace (hd (pls_entries_text i es))"
  by (cases es) (auto simp: pls_entry_text_def c_isspace_def byte_of_def)

lemma pls_entries_nonempty: "pls_entries_text i es = [] \<longleftrightarrow> es = []"
  by (cases es) (auto simp: pls_entry_text_def)

lemma pls_loop_entry:
  assumes e: "good_pls_entry (u, t, n)" and i: "i < 4294967296" and tot: "pls_total root st = Some xs"
    and rest: "rest = [] \<or> \<not> c_isspace (hd rest)"
  shows "\<exists>st'. pls_loop root (pls_entry_text i (u, t, n) @ rest) False st = pls_loop root rest (rest = []) st' \<and>
    pls_total root st' = Some (xs @ [pls_item (u, t, n)])"
proof -
  have u: "pls_value u" and t: "pls_value t" and n: "pls_value (decimal n)" "atoi (decimal n) = int n" and ne: "u \<noteq> []"
    using e decimal_value [of n] atoi_decimal [of n]
    by (auto simp: good_pls_entry_def pls_value_def stream_entry_def line_safe_def)
  note w = numbered_word [OF i]
  let ?r2 = "(''Length'' @ decimal i) @ CHR ''='' # decimal n @ CHR 0x0A # rest"
  let ?r1 = "(''Title'' @ decimal i) @ CHR ''='' # t @ CHR 0x0A # ?r2"
  obtain its where its: "(if length (ps_file st) \<noteq> 0 then pls_AddItem root (ps_file st) (ps_title st) (ps_len st) else Some []) = Some its"
    "xs = ps_items st @ its" using tot by (auto simp: pls_total_def split: bind_splits if_splits)
  let ?a = "st\<lparr>ps_key := Some (''File'' @ decimal i), ps_value := Some u\<rparr>"
  obtain st1 where st1: "pls_key root ?a = Some st1" "ps_file st1 = u" "ps_items st1 = xs"
    using its by (auto simp: pls_key_def has_prefix_def split: if_splits)
  have "pls_loop root ((''File'' @ decimal i) @ CHR ''='' # u @ CHR 0x0A # ?r1) False st = pls_loop root ?r1 False st1"
    using pls_loop_line [OF w u, of "''File''" ?r1 root st] st1(1) by (simp add: c_isspace_def byte_of_def)
  moreover let ?b = "st1\<lparr>ps_key := Some (''Title'' @ decimal i), ps_value := Some t, ps_title := t\<rparr>"
  have "pls_loop root ?r1 False st1 = pls_loop root ?r2 False ?b"
    using pls_loop_line [OF w t, of "''Title''" ?r2 root st1]
    by (simp add: c_isspace_def byte_of_def pls_key_def has_prefix_def)
  moreover let ?c = "?b\<lparr>ps_key := Some (''Length'' @ decimal i), ps_value := Some (decimal n), ps_len := int n\<rparr>"
  have "pls_loop root ?r2 False ?b = pls_loop root rest (rest = []) ?c"
    using pls_loop_line [OF w n(1) rest, of "''Length''" root ?b] n(2)
    by (simp add: pls_key_def has_prefix_def)
  moreover have "pls_total root ?c = Some (xs @ [pls_item (u, t, n)])"
    using stream_item [OF e, of root] ne st1 by (simp add: pls_total_def)
  ultimately show ?thesis by (intro exI [of _ ?c]) (simp add: pls_entry_text_def)
qed

lemma pls_loop_entries:
  "\<forall>e \<in> set es. good_pls_entry e \<Longrightarrow> i + length es < 4294967296 \<Longrightarrow> pls_total root st = Some xs \<Longrightarrow>
   \<exists>st'. pls_loop root (pls_entries_text i es) (es = []) st = Some st' \<and> pls_total root st' = Some (xs @ map pls_item es)"
proof (induction es arbitrary: i st xs)
  case Nil
  then show ?case by (subst pls_loop.simps) simp
next
  case (Cons e es)
  obtain u t n where e: "e = (u, t, n)" by (cases e)
  have g: "good_pls_entry (u, t, n)" and i: "i < 4294967296" using Cons.prems e by auto
  from pls_loop_entry [OF g i Cons.prems(3) pls_text_hd] obtain st1 where
    st1: "pls_loop root (pls_entry_text i e @ pls_entries_text (Suc i) es) False st = pls_loop root (pls_entries_text (Suc i) es) (es = []) st1"
    "pls_total root st1 = Some (xs @ [pls_item e])" unfolding e pls_entries_nonempty by blast
  from Cons.IH [of "Suc i" st1 "xs @ [pls_item e]"] Cons.prems st1 show ?case by auto
qed

text \<open>
  Reading a PLS file: for a file with the \<open>[playlist]\<close> section, the number of entries, and
  the numbered \<open>File\<close>, \<open>Title\<close> and \<open>Length\<close> lines of up to \<open>2 ^ 32 - 2\<close> streams with titles that
  are not empty, the items read are the URLs in order, each with its title and its length.
\<close>

theorem pls_read_standard:
  assumes es: "\<forall>e \<in> set es. good_pls_entry e" and len: "length es < 2147483648"
    and lp: "c_str lp = lp" "length lp \<le> 4095" and text_at: "fs lp = Some (pls_text es)"
  shows "pls_ReadPlaylist fs (protocol @ lp) = Some (kError_NoErr, map pls_item es)"
proof -
  let ?st = "\<lparr>ps_key = None, ps_value = None, ps_file = [], ps_title = [], ps_len = -1, ps_items = []\<rparr>"
  let ?st1 = "?st\<lparr>ps_key := Some ''playlist''\<rparr>"
  let ?rest = "''NumberOfEntries'' @ CHR ''='' # decimal (length es) @ CHR 0x0A # pls_entries_text 1 es"
  let ?root = "root_of lp"
  have sect: "scan_section (pls_text es) = Some (1, ?rest, False, Some ''playlist'')"
    by (simp add: scan_section_def pls_text_def c_isspace_def byte_of_def Let_def)
  have "pls_loop ?root (pls_text es) False ?st = pls_loop ?root ?rest False ?st1"
    by (subst pls_loop.simps) (simp add: sect)
  moreover have "pls_loop ?root ?rest False ?st1 = pls_loop ?root (pls_entries_text 1 es) (es = [])
      (?st1\<lparr>ps_key := Some ''NumberOfEntries'', ps_value := Some (decimal (length es))\<rparr>)"
    using pls_loop_line [OF _ decimal_value [OF len] pls_text_hd, of "''NumberOfEntries''" ?root 1 es ?st1]
    by (simp add: pls_word_def c_isspace_def byte_of_def pls_key_def has_prefix_def pls_entries_nonempty)
  moreover obtain st' where "pls_loop ?root (pls_entries_text 1 es) (es = [])
      (?st1\<lparr>ps_key := Some ''NumberOfEntries'', ps_value := Some (decimal (length es))\<rparr>) = Some st'"
    "pls_total ?root st' = Some (map pls_item es)"
    using pls_loop_entries [OF es, of 1 ?root "?st1\<lparr>ps_key := Some ''NumberOfEntries'', ps_value := Some (decimal (length es))\<rparr>" "[]"] len
    by (auto simp: pls_total_def)
  ultimately show ?thesis unfolding pls_ReadPlaylist_def list_path [OF lp]
    by (auto simp: text_at pls_total_def split: bind_splits if_splits)
qed

theorem pls_read_standard_witness:
  "pls_ReadPlaylist [''/l.pls'' \<mapsto> pls_text [(''http://host/x.mp3'', ''Song'', 200)]] ''file:///l.pls'' =
    Some (kError_NoErr, [pls_item (''http://host/x.mp3'', ''Song'', 200)])"
  using pls_read_standard [of "[(''http://host/x.mp3'', ''Song'', 200)]" "''/l.pls''"
      "[''/l.pls'' \<mapsto> pls_text [(''http://host/x.mp3'', ''Song'', 200)]]"]
  by (simp add: good_pls_entry_def stream_entry_def line_safe_def has_prefix_def c_isspace_def byte_of_def pls_value_def)

end
