(* ===== verification/Sync.thy ===== *)
theory Sync
  imports Prelude
begin

section \<open>Mutexes and semaphores\<close>

text \<open>
  \<open>base/unix/src/mutex.cpp\<close> and \<open>base/unix/src/semaphore.cpp\<close> (without \<open>DEBUG_MUTEXES\<close>): the program's
  own recursive mutex and counting semaphore, built on a POSIX mutex and condition variable each.
  A section between \<open>pthread_mutex_lock\<close> and the unlock, or the wait that unlocks, is one step of its
  thread; \<open>pthread_cond_signal\<close>, called after the unlock, is a step of its own that wakes one of the
  threads asleep on the condition, when there are any. A sleeping thread may also wake spuriously,
  and a timed one may expire. Threads are numbered from 1, as \<open>pthread_self\<close> is never the 0 that
  \<open>m_tOwner\<close> starts with.
\<close>

subsection \<open>The mutex\<close>

record mutex =
  m_iBusy :: int
  m_tOwner :: nat

abbreviation WAIT_FOREVER :: int where
  "WAIT_FOREVER \<equiv> -1"

text \<open>The absolute time a timed wait ends, from the time of day and the timeout.\<close>

definition acquire_due :: "int \<Rightarrow> int \<Rightarrow> int \<Rightarrow> int \<times> int" where
  "acquire_due now_sec now_usec timeout =
     (let nsec = now_usec + timeout
      in if nsec \<ge> 1000000 then (now_sec + 1, (nsec - 1000000) * 1000) else (now_sec, nsec * 1000))"

text \<open>\<open>pthread_cond_timedwait\<close> returns \<open>EINVAL\<close> at once, with the lock held, on any other time.\<close>

definition due_valid :: "int \<times> int \<Rightarrow> bool" where
  "due_valid due \<longleftrightarrow> 0 \<le> snd due \<and> snd due < 1000000000"

text \<open>
  Where a thread is: outside, about to lock for \<open>Acquire\<close>, asleep, woken and about to lock again,
  expired and about to lock again, going round the loop with the lock held because its time is not
  valid, about to lock for \<open>Release\<close>, or about to signal.
\<close>

datatype mutex_pc = MOut | MEnter int | MAsleep int | MWoken int | MExpired | MSpin int | MRelease | MSignal

text \<open>The loop body of \<open>Acquire\<close> up to the wait, and the end of \<open>Acquire\<close>.\<close>

definition acquire_wait :: "int \<Rightarrow> int \<Rightarrow> mutex_pc" where
  "acquire_wait now_usec timeout =
     (if timeout = WAIT_FOREVER then MAsleep timeout
      else if due_valid (acquire_due 0 now_usec timeout) then MAsleep timeout else MSpin timeout)"

definition acquire_take :: "nat \<Rightarrow> mutex \<Rightarrow> mutex" where
  "acquire_take self m = m\<lparr>m_tOwner := self, m_iBusy := m_iBusy m + 1\<rparr>"

text \<open>From the lock to the wait or the unlock: where the thread is next, and the mutex.\<close>

definition acquire_first :: "int \<Rightarrow> nat \<Rightarrow> int \<Rightarrow> mutex \<Rightarrow> mutex_pc \<times> mutex" where
  "acquire_first now_usec self timeout m =
     (if m_iBusy m \<noteq> 0 then
        if m_tOwner m \<noteq> self then (acquire_wait now_usec timeout, m) else (MOut, acquire_take self m)
      else (MOut, acquire_take self m))"

definition acquire_again :: "int \<Rightarrow> nat \<Rightarrow> int \<Rightarrow> mutex \<Rightarrow> mutex_pc \<times> mutex" where
  "acquire_again now_usec self timeout m =
     (if m_iBusy m \<noteq> 0 then (acquire_wait now_usec timeout, m) else (MOut, acquire_take self m))"

definition mutex_release :: "mutex \<Rightarrow> mutex_pc \<times> mutex" where
  "mutex_release m =
     (let iOwnerShip = m_iBusy m - 1
      in (if iOwnerShip = 0 then MSignal else MOut, m\<lparr>m_iBusy := iOwnerShip\<rparr>))"

text \<open>
  The mutex, the threads and who holds the POSIX mutex between steps. \<open>mx_depth\<close> counts the calls of
  \<open>Acquire\<close> that returned \<open>true\<close> and are not released; a thread releases only what it has acquired.
\<close>

record mutex_system =
  mx :: mutex
  mx_pc :: "nat \<Rightarrow> mutex_pc"
  mx_held :: "nat option"
  mx_depth :: "nat \<Rightarrow> nat"

definition mutex_new :: "nat \<Rightarrow> bool \<Rightarrow> mutex_system" where
  "mutex_new self createOwned = \<lparr>mx = \<lparr>m_iBusy = 0, m_tOwner = 0\<rparr>, mx_pc = (\<lambda>_. MOut),
     mx_held = (if createOwned then Some self else None), mx_depth = (\<lambda>_. 0)\<rparr>"

datatype mutex_action =
    CallAcquire nat int | CallRelease nat
  | Run nat int \<comment> \<open>the next section of the thread, at these microseconds of the second\<close>
  | Wake nat \<comment> \<open>a spurious wakeup\<close>
  | Expire nat
  | SignalTo nat nat \<comment> \<open>the signal of the first thread wakes the second\<close>
  | SignalNone nat

text \<open>A section has run: its thread moves on, and has one more hold when it took the mutex.\<close>

definition mutex_goes :: "nat \<Rightarrow> mutex_pc \<times> mutex \<Rightarrow> mutex_system \<Rightarrow> mutex_system" where
  "mutex_goes t r s = s\<lparr>mx := snd r, mx_pc := (mx_pc s)(t := fst r),
     mx_held := (case fst r of MSpin _ \<Rightarrow> Some t | _ \<Rightarrow> None),
     mx_depth := (mx_depth s)(t := mx_depth s t + (if fst r = MOut then 1 else 0))\<rparr>"

definition mutex_section :: "nat \<Rightarrow> int \<Rightarrow> mutex_system \<Rightarrow> mutex_system option" where
  "mutex_section t now_usec s = (case mx_pc s t of
       MEnter timeout \<Rightarrow> if mx_held s = None then Some (mutex_goes t (acquire_first now_usec t timeout (mx s)) s) else None
     | MWoken timeout \<Rightarrow> if mx_held s = None then Some (mutex_goes t (acquire_again now_usec t timeout (mx s)) s) else None
     | MSpin timeout \<Rightarrow> if mx_held s = Some t then Some (mutex_goes t (acquire_again now_usec t timeout (mx s)) s) else None
     | MExpired \<Rightarrow> if mx_held s = None then Some (s\<lparr>mx_pc := (mx_pc s)(t := MOut)\<rparr>) else None
     | MRelease \<Rightarrow> if mx_held s = None then
           (let (pc, m) = mutex_release (mx s)
            in Some (s\<lparr>mx := m, mx_pc := (mx_pc s)(t := pc), mx_depth := (mx_depth s)(t := mx_depth s t - 1)\<rparr>))
         else None
     | _ \<Rightarrow> None)"

definition asleep :: "mutex_system \<Rightarrow> nat \<Rightarrow> bool" where
  "asleep s t \<longleftrightarrow> (case mx_pc s t of MAsleep _ \<Rightarrow> True | _ \<Rightarrow> False)"

definition woken :: "mutex_system \<Rightarrow> nat \<Rightarrow> bool" where
  "woken s t \<longleftrightarrow> (case mx_pc s t of MWoken _ \<Rightarrow> True | _ \<Rightarrow> False)"

fun mutex_wake :: "nat \<Rightarrow> mutex_system \<Rightarrow> mutex_system option" where
  "mutex_wake u s = (case mx_pc s u of
       MAsleep timeout \<Rightarrow> Some (s\<lparr>mx_pc := (mx_pc s)(u := MWoken timeout)\<rparr>)
     | _ \<Rightarrow> None)"

text \<open>
  A signal wakes nobody only when nobody is asleep. Whether that is so, \<open>SignalNone\<close> leaves to
  the relation below, as the set of threads is not bounded.
\<close>

fun mutex_do :: "mutex_action \<Rightarrow> mutex_system \<Rightarrow> mutex_system option" where
  "mutex_do (CallAcquire t timeout) s =
     (if 0 < t \<and> mx_pc s t = MOut then Some (s\<lparr>mx_pc := (mx_pc s)(t := MEnter timeout)\<rparr>) else None)"
| "mutex_do (CallRelease t) s =
     (if mx_pc s t = MOut \<and> mx_depth s t > 0 then Some (s\<lparr>mx_pc := (mx_pc s)(t := MRelease)\<rparr>) else None)"
| "mutex_do (Run t now_usec) s = (if 0 \<le> now_usec \<and> now_usec < 1000000 then mutex_section t now_usec s else None)"
| "mutex_do (Wake t) s = mutex_wake t s"
| "mutex_do (Expire t) s = (case mx_pc s t of
       MAsleep timeout \<Rightarrow> if timeout \<noteq> WAIT_FOREVER then Some (s\<lparr>mx_pc := (mx_pc s)(t := MExpired)\<rparr>) else None
     | _ \<Rightarrow> None)"
| "mutex_do (SignalTo t u) s =
     (if mx_pc s t = MSignal then mutex_wake u (s\<lparr>mx_pc := (mx_pc s)(t := MOut)\<rparr>) else None)"
| "mutex_do (SignalNone t) s =
     (if mx_pc s t = MSignal then Some (s\<lparr>mx_pc := (mx_pc s)(t := MOut)\<rparr>) else None)"

inductive mutex_steps :: "mutex_system \<Rightarrow> mutex_system \<Rightarrow> bool" where
  mutex_refl: "mutex_steps s s"
| mutex_step: "mutex_steps s s' \<Longrightarrow> mutex_do a s' = Some s'' \<Longrightarrow>
    (\<forall>t. a = SignalNone t \<longrightarrow> (\<forall>u. \<not> asleep s' u)) \<Longrightarrow> mutex_steps s s''"

declare mutex_refl [intro]

lemma mutex_steps_then: "mutex_steps s s' \<Longrightarrow> mutex_do a s' = Some s'' \<Longrightarrow> \<forall>t. a \<noteq> SignalNone t \<Longrightarrow> mutex_steps s s''"
  by (rule mutex_step) auto

lemma mutex_steps_trans: "mutex_steps b c \<Longrightarrow> mutex_steps a b \<Longrightarrow> mutex_steps a c"
  by (induction rule: mutex_steps.induct) (auto intro: mutex_step)

subsection \<open>Mutual exclusion, and no wakeup is lost\<close>

definition mutex_counts :: "mutex_system \<Rightarrow> bool" where
  "mutex_counts s \<longleftrightarrow>
     (\<forall>t. mx_depth s t > 0 \<longrightarrow> m_tOwner (mx s) = t \<and> m_iBusy (mx s) = int (mx_depth s t)) \<and>
     ((\<forall>t. mx_depth s t = 0) \<longrightarrow> m_iBusy (mx s) = 0) \<and>
     (\<forall>t. mx_pc s t = MRelease \<longrightarrow> mx_depth s t > 0)"

definition mutex_wakes :: "mutex_system \<Rightarrow> bool" where
  "mutex_wakes s \<longleftrightarrow> ((\<exists>u. asleep s u) \<longrightarrow>
     m_iBusy (mx s) \<noteq> 0 \<or> (\<exists>t. woken s t) \<or> (\<exists>t. mx_pc s t = MSignal))"

lemma acquire_wait_pc: "acquire_wait n to \<in> {MAsleep to, MSpin to}"
  by (simp add: acquire_wait_def)

lemma mutex_owner_depth:
  assumes "mutex_counts s" and "m_iBusy (mx s) \<noteq> 0"
  shows "mx_depth s (m_tOwner (mx s)) > 0" and "m_iBusy (mx s) = int (mx_depth s (m_tOwner (mx s)))"
    and "t \<noteq> m_tOwner (mx s) \<Longrightarrow> mx_depth s t = 0"
  using assms unfolding mutex_counts_def by (metis neq0_conv)+

lemma acquire_counts:
  assumes "mutex_counts s" and "mx_pc s t \<noteq> MRelease"
    and "r = acquire_first n t to (mx s) \<or> r = acquire_again n t to (mx s)"
  shows "mutex_counts (mutex_goes t r s)"
proof (cases "fst r = MOut")
  case True
  then have r: "r = (MOut, acquire_take t (mx s))" and own: "m_iBusy (mx s) = 0 \<or> m_tOwner (mx s) = t"
    using assms(3) acquire_wait_pc [of n to] by (auto simp: acquire_first_def acquire_again_def split: if_splits)
  have "mx_depth s u = 0" if "u \<noteq> t" for u
    using own mutex_owner_depth(3) [OF assms(1), of u] that assms(1) by (fastforce simp: mutex_counts_def)
  moreover have "m_iBusy (mx s) = int (mx_depth s t)"
    using assms(1) calculation by (cases "mx_depth s t = 0") (auto simp: mutex_counts_def, metis)
  ultimately show ?thesis using assms(1,2) unfolding r by (auto simp: mutex_counts_def mutex_goes_def acquire_take_def)
next
  case False
  then have "snd r = mx s" "fst r \<noteq> MRelease"
    using assms(3) acquire_wait_pc [of n to] by (auto simp: acquire_first_def acquire_again_def split: if_splits)
  then show ?thesis using assms(1) False by (auto simp: mutex_counts_def mutex_goes_def)
qed

lemma release_counts:
  assumes "mutex_counts s" and "mx_pc s t = MRelease"
  shows "mutex_counts (s\<lparr>mx := snd (mutex_release (mx s)), mx_pc := (mx_pc s)(t := fst (mutex_release (mx s))),
    mx_depth := (mx_depth s)(t := mx_depth s t - 1)\<rparr>)"
proof -
  have d: "mx_depth s t > 0" using assms by (simp add: mutex_counts_def)
  then have b: "m_iBusy (mx s) = int (mx_depth s t)" "m_tOwner (mx s) = t" using assms(1) by (auto simp: mutex_counts_def)
  have o: "mx_depth s u = 0" if "u \<noteq> t" for u
    using mutex_owner_depth(3) [OF assms(1), of u] b d that by simp
  have "mx_pc s u \<noteq> MRelease" if "u \<noteq> t" for u using o [OF that] assms(1) by (auto simp: mutex_counts_def)
  then show ?thesis using b d o by (auto simp: mutex_counts_def mutex_release_def Let_def)
qed

lemma mutex_section_cases:
  assumes "mutex_section t n s = Some s'"
  obtains (acquire) to r where "mx_pc s t \<in> {MEnter to, MWoken to, MSpin to}"
      "r = acquire_first n t to (mx s) \<or> r = acquire_again n t to (mx s)" "s' = mutex_goes t r s"
  | (expired) "mx_pc s t = MExpired" "s' = s\<lparr>mx_pc := (mx_pc s)(t := MOut)\<rparr>"
  | (release) "mx_pc s t = MRelease" "mx_held s = None"
      "s' = s\<lparr>mx := snd (mutex_release (mx s)), mx_pc := (mx_pc s)(t := fst (mutex_release (mx s))),
        mx_depth := (mx_depth s)(t := mx_depth s t - 1)\<rparr>"
proof (cases "mx_pc s t")
  case (MEnter to)
  then show ?thesis using assms acquire [of to "acquire_first n t to (mx s)"]
    by (simp add: mutex_section_def split: if_splits)
next
  case (MWoken to)
  then show ?thesis using assms acquire [of to "acquire_again n t to (mx s)"]
    by (simp add: mutex_section_def split: if_splits)
next
  case (MSpin to)
  then show ?thesis using assms acquire [of to "acquire_again n t to (mx s)"]
    by (simp add: mutex_section_def split: if_splits)
qed (use assms expired release in \<open>auto simp: mutex_section_def case_prod_unfold Let_def split: if_splits\<close>)

lemma counts_pc: "mutex_counts s \<Longrightarrow> pc = MRelease \<longrightarrow> mx_depth s t > 0 \<Longrightarrow> mutex_counts (s\<lparr>mx_pc := (mx_pc s)(t := pc)\<rparr>)"
  by (simp add: mutex_counts_def)

lemma mutex_do_counts: "mutex_counts s \<Longrightarrow> mutex_do a s = Some s' \<Longrightarrow> mutex_counts s'"
proof (cases a)
  case (Run t n)
  assume inv: "mutex_counts s" and "mutex_do a s = Some s'"
  then have "mutex_section t n s = Some s'" by (simp add: Run split: if_splits)
  then show ?thesis
  proof (cases rule: mutex_section_cases)
    case (acquire to r)
    then show ?thesis using inv by (auto intro!: acquire_counts)
  next
    case expired
    then show ?thesis using inv by (simp add: counts_pc)
  next
    case release
    then show ?thesis using release_counts [OF inv] by simp
  qed
next
  case (SignalTo t u)
  assume "mutex_counts s" and "mutex_do a s = Some s'"
  then show ?thesis using counts_pc [OF counts_pc, of s MOut t]
    by (auto simp: SignalTo split: if_splits mutex_pc.splits)
qed (auto simp: counts_pc split: if_splits mutex_pc.splits)

lemma wakes_pc:
  "mutex_wakes s \<Longrightarrow> mx_pc s t \<noteq> MSignal \<Longrightarrow> \<not> woken s t \<Longrightarrow> pc \<in> {MOut, MEnter to, MExpired, MRelease} \<Longrightarrow>
   mutex_wakes (s\<lparr>mx_pc := (mx_pc s)(t := pc)\<rparr>)"
  unfolding mutex_wakes_def asleep_def woken_def
  by (auto split: if_splits)

lemma woken_wakes: "woken s u \<Longrightarrow> mutex_wakes s"
  by (auto simp: mutex_wakes_def)

lemma mutex_section_wakes:
  assumes inv: "mutex_counts s" "mutex_wakes s" and "mutex_section t n s = Some s'"
  shows "mutex_wakes s'"
  using assms(3)
proof (cases rule: mutex_section_cases)
  case (acquire to r)
  have "m_iBusy (mx s) \<ge> 0" using inv(1) by (metis mutex_counts_def of_nat_0_le_iff order_refl neq0_conv)
  then have "m_iBusy (snd r) \<noteq> 0"
    using acquire(2) by (auto simp: acquire_first_def acquire_again_def acquire_take_def split: if_splits)
  then show ?thesis by (simp add: acquire(3) mutex_goes_def mutex_wakes_def)
next
  case expired
  then show ?thesis using inv(2) wakes_pc [of s t MOut] by (simp add: woken_def)
next
  case release
  then show ?thesis by (auto simp: mutex_wakes_def mutex_release_def Let_def)
qed

lemma mutex_wake_woken: "mutex_wake u s = Some s' \<Longrightarrow> woken s' u"
  by (auto simp: woken_def split: mutex_pc.splits)

lemma mutex_do_wakes:
  assumes inv: "mutex_counts s" "mutex_wakes s" and step: "mutex_do a s = Some s'"
    and none: "\<forall>t. a = SignalNone t \<longrightarrow> (\<forall>u. \<not> asleep s u)"
  shows "mutex_wakes s'"
proof (cases a)
  case (Run t n)
  then show ?thesis using step mutex_section_wakes [OF inv] by (simp split: if_splits)
next
  case (SignalNone t)
  then have "\<not> asleep s' u" for u using none step by (auto simp: asleep_def split: if_splits)
  then show ?thesis by (simp add: mutex_wakes_def)
next
  case (SignalTo t u)
  then show ?thesis using step by (auto simp del: mutex_wake.simps split: if_splits intro: woken_wakes mutex_wake_woken)
next
  case (Wake u)
  then show ?thesis using step by (auto simp del: mutex_wake.simps intro: woken_wakes mutex_wake_woken)
next
  case (CallAcquire t to)
  then show ?thesis using inv(2) step wakes_pc [of s t "MEnter to" to] by (auto simp: woken_def split: if_splits)
next
  case (CallRelease t)
  then show ?thesis using inv(2) step wakes_pc [of s t MRelease] by (auto simp: woken_def split: if_splits)
next
  case (Expire t)
  then show ?thesis using inv(2) step wakes_pc [of s t MExpired] by (auto simp: woken_def split: if_splits mutex_pc.splits)
qed

definition mutex_inv :: "mutex_system \<Rightarrow> bool" where
  "mutex_inv s \<longleftrightarrow> mutex_counts s \<and> mutex_wakes s"

lemma mutex_steps_inv: "mutex_steps s s' \<Longrightarrow> mutex_inv s \<Longrightarrow> mutex_inv s'"
  by (induction rule: mutex_steps.induct) (auto simp: mutex_inv_def intro: mutex_do_counts mutex_do_wakes)

lemma mutex_new_inv: "mutex_inv (mutex_new t c)"
  by (simp add: mutex_inv_def mutex_counts_def mutex_wakes_def mutex_new_def asleep_def)

text \<open>
  C5. From a new mutex on, in every interleaving of the threads' calls, signals, spurious wakeups and
  expired waits, at most one thread has a hold of the mutex, \<open>m_iBusy\<close> is the number of holds of
  the owner, and no wakeup is lost: while a thread is asleep, the mutex is busy, or some thread
  has been woken or is about to signal.
\<close>

theorem mutex_safe:
  assumes "mutex_steps (mutex_new c False) s"
  shows "(t \<noteq> u \<longrightarrow> mx_depth s t = 0 \<or> mx_depth s u = 0) \<and>
    m_iBusy (mx s) = int (mx_depth s (m_tOwner (mx s))) \<and>
    (asleep s v \<longrightarrow> m_iBusy (mx s) \<noteq> 0 \<or> (\<exists>w. woken s w \<or> mx_pc s w = MSignal))"
proof -
  have inv: "mutex_counts s" "mutex_wakes s" using mutex_steps_inv [OF assms mutex_new_inv] by (simp_all add: mutex_inv_def)
  have own: "mx_depth s w > 0 \<Longrightarrow> m_tOwner (mx s) = w" for w using inv(1) by (simp add: mutex_counts_def)
  have "m_iBusy (mx s) = int (mx_depth s (m_tOwner (mx s)))"
  proof (cases "m_iBusy (mx s) = 0")
    case True
    then show ?thesis using inv(1) unfolding mutex_counts_def by (metis of_nat_0 neq0_conv)
  next
    case False
    then show ?thesis by (rule mutex_owner_depth [OF inv(1)])
  qed
  then show ?thesis using own inv(2) unfolding mutex_wakes_def by blast
qed

fun mutex_run :: "mutex_action list \<Rightarrow> mutex_system \<Rightarrow> mutex_system option" where
  "mutex_run [] s = Some s"
| "mutex_run (a # as) s = do { s' \<leftarrow> mutex_do a s; mutex_run as s' }"

lemma mutex_run_steps: "mutex_run as s = Some s' \<Longrightarrow> \<forall>a \<in> set as. \<forall>t. a \<noteq> SignalNone t \<Longrightarrow> mutex_steps s s'"
proof (induction as arbitrary: s)
  case (Cons a as)
  then obtain s1 where s1: "mutex_do a s = Some s1" "mutex_run as s1 = Some s'" by (auto split: bind_splits)
  then have "mutex_steps s s1" using Cons.prems by (auto intro: mutex_steps_then)
  then show ?case using Cons.IH [OF s1(2)] Cons.prems mutex_steps_trans by auto
qed auto

text \<open>Two threads contend: the first holds the mutex twice while the second is asleep.\<close>

definition mutex_demo :: "mutex_action list" where
  "mutex_demo = [CallAcquire 1 WAIT_FOREVER, Run 1 0, CallAcquire 2 WAIT_FOREVER, Run 2 0, CallAcquire 1 0, Run 1 0]"

lemmas mutex_eval = mutex_new_def mutex_section_def mutex_goes_def acquire_first_def acquire_again_def acquire_wait_def
  acquire_take_def mutex_release_def acquire_due_def due_valid_def asleep_def woken_def

theorem mutex_safe_witness:
  "\<exists>s. mutex_run mutex_demo (mutex_new 0 False) = Some s \<and> mx_depth s 1 = 2 \<and> asleep s 2 \<and>
    m_iBusy (mx s) = int (mx_depth s (m_tOwner (mx s))) \<and> (mx_depth s 1 = 0 \<or> mx_depth s 2 = 0)"
proof -
  obtain s where s: "mutex_run mutex_demo (mutex_new 0 False) = Some s" "mx_depth s 1 = 2" "asleep s 2"
    by (simp add: mutex_demo_def mutex_eval)
  have "mutex_steps (mutex_new 0 False) s" using s(1) by (rule mutex_run_steps) (simp add: mutex_demo_def)
  from mutex_safe [OF this, of 1 2] s show ?thesis by auto
qed



subsection \<open>When the POSIX mutex is never unlocked\<close>

text \<open>
  The timeout is added to microseconds. Below a second the time is valid; from two seconds on it never is,
  and the loop of \<open>Acquire\<close> goes round with the POSIX mutex locked.
\<close>

lemma acquire_due_valid: "0 \<le> n \<Longrightarrow> n < 1000000 \<Longrightarrow> 0 \<le> to \<Longrightarrow> to \<le> 1000000 \<Longrightarrow>
   due_valid (acquire_due sec n to) \<and>
   fst (acquire_due sec n to) * 1000000000 + snd (acquire_due sec n to) = sec * 1000000000 + (n + to) * 1000"
  by (simp add: acquire_due_def due_valid_def Let_def)

lemma acquire_wait_long: "0 \<le> n \<Longrightarrow> 2000000 \<le> to \<Longrightarrow> acquire_wait n to = MSpin to"
  by (simp add: acquire_wait_def acquire_due_def due_valid_def Let_def)

definition wedged :: "nat \<Rightarrow> mutex_system \<Rightarrow> bool" where
  "wedged t s \<longleftrightarrow> mx_held s = Some t \<and> (\<forall>to. mx_pc s t = MSpin to \<longrightarrow> 2000000 \<le> to \<and> m_iBusy (mx s) \<noteq> 0)"

lemma wedged_step: "wedged t s \<Longrightarrow> mutex_do a s = Some s' \<Longrightarrow> wedged t s' \<and> mx_depth s' = mx_depth s"
proof (cases a)
  case (Run v n)
  assume w: "wedged t s" and step: "mutex_do a s = Some s'"
  then have n: "0 \<le> n" and sec: "mutex_section v n s = Some s'" by (auto simp: Run split: if_splits)
  obtain to where v: "v = t" "mx_pc s t = MSpin to"
    using sec w by (auto simp: mutex_section_def wedged_def split: mutex_pc.splits if_splits)
  then have "2000000 \<le> to" "m_iBusy (mx s) \<noteq> 0" using w by (auto simp: wedged_def)
  then have "s' = mutex_goes t (MSpin to, mx s) s"
    using sec v w n by (auto simp: mutex_section_def acquire_again_def acquire_wait_long split: if_splits)
  then show ?thesis using w v by (auto simp: wedged_def mutex_goes_def)
qed (auto simp: wedged_def split: if_splits mutex_pc.splits)

lemma wedged_forever: "mutex_steps s s' \<Longrightarrow> wedged t s \<Longrightarrow> wedged t s' \<and> mx_depth s' = mx_depth s"
proof (induction rule: mutex_steps.induct)
  case (mutex_step s s' a s'')
  then show ?case using wedged_step by metis
qed simp

text \<open>
  Two uses of the mutex lock it for good. A mutex created as owned is never acquired by any thread,
  its creator included; and after a contended \<open>Acquire\<close> with a timeout of two million or more, the POSIX
  mutex stays locked, and no thread ever acquires or releases the mutex again.
\<close>

theorem mutex_wedges:
  assumes call: "mx_pc s t = MEnter to" "m_iBusy (mx s) \<noteq> 0" "m_tOwner (mx s) \<noteq> t" "2000000 \<le> to"
    and run: "mutex_do (Run t now) s = Some s'" and later: "mutex_steps s' s''"
  shows "mx_held s'' = Some t \<and> mx_depth s'' = mx_depth s \<and>
    (mutex_steps (mutex_new c True) r \<longrightarrow> mx_held r = Some c \<and> mx_depth r u = 0)"
proof -
  have "s' = mutex_goes t (MSpin to, mx s) s"
    using run call by (auto simp: mutex_section_def acquire_first_def acquire_wait_long split: if_splits)
  then have "wedged t s'" "mx_depth s' = mx_depth s" using call by (auto simp: wedged_def mutex_goes_def)
  moreover have "wedged c (mutex_new c True)" by (simp add: wedged_def mutex_new_def)
  ultimately show ?thesis
    using wedged_forever [OF later] wedged_forever [of "mutex_new c True" r c] by (auto simp: wedged_def mutex_new_def)
qed

theorem mutex_wedges_witness:
  "\<exists>s s'. mutex_run [CallAcquire 1 WAIT_FOREVER, Run 1 0, CallAcquire 2 3000000] (mutex_new 0 False) = Some s \<and>
    mutex_do (Run 2 5) s = Some s' \<and> mx_held s' = Some 2 \<and> mx_depth s' 1 = 1 \<and> mx_held (mutex_new 7 True) = Some 7"
proof -
  obtain s s' where s: "mutex_run [CallAcquire 1 WAIT_FOREVER, Run 1 0, CallAcquire 2 3000000] (mutex_new 0 False) = Some s"
      "mutex_do (Run 2 5) s = Some s'"
    and call: "mx_pc s 2 = MEnter 3000000" "m_iBusy (mx s) \<noteq> 0" "m_tOwner (mx s) \<noteq> 2" "mx_depth s 1 = 1"
    by (simp add: mutex_eval)
  from mutex_wedges [OF call(1-3) _ s(2) mutex_refl, of 7 "mutex_new 7 True"] call(4) s
  show ?thesis by auto
qed

subsection \<open>The semaphore\<close>

text \<open>
  Where a thread is in \<open>Wait\<close>, \<open>TimedWait\<close> and \<open>Signal\<close>. The end of a timed wait is fixed once, at the
  start; the milliseconds, not negative, are multiplied by a million as an \<open>int\<close>, which is defined
  up to 2147.
\<close>

datatype sem_pc = SOut | SWait | STimed int | SAsleep bool | SWoken bool | SExpired | SSignal | SNotify

definition sem_due :: "int \<Rightarrow> int \<Rightarrow> int \<Rightarrow> (int \<times> int) option" where
  "sem_due now_sec now_usec iMilliSecs =
     (if iMilliSecs * 1000000 < 2147483648 then
        let nsec = now_usec * 1000 + iMilliSecs * 1000000
        in Some (now_sec + nsec div 1000000000, nsec mod 1000000000)
      else None)"

record sem_system =
  sem_count :: int
  sem_pc :: "nat \<Rightarrow> sem_pc"
  sem_passed :: int \<comment> \<open>calls of \<open>Wait\<close> and \<open>TimedWait\<close> that returned true\<close>
  sem_signals :: int

definition sem_new :: "int \<Rightarrow> sem_system" where
  "sem_new cnt = \<lparr>sem_count = cnt, sem_pc = (\<lambda>_. SOut), sem_passed = 0, sem_signals = 0\<rparr>"

text \<open>The test of the loop: sleep (again), or return.\<close>

definition sem_test :: "nat \<Rightarrow> bool \<Rightarrow> sem_system \<Rightarrow> sem_system" where
  "sem_test t timed s =
     (if sem_count s \<le> 0 then s\<lparr>sem_pc := (sem_pc s)(t := SAsleep timed)\<rparr>
      else s\<lparr>sem_pc := (sem_pc s)(t := SOut), sem_passed := sem_passed s + 1\<rparr>)"

definition sem_section :: "nat \<Rightarrow> sem_system \<Rightarrow> sem_system option" where
  "sem_section t s = (case sem_pc s t of
       SWait \<Rightarrow> Some (sem_test t False (s\<lparr>sem_count := sem_count s - 1\<rparr>))
     | STimed ms \<Rightarrow> (case sem_due 0 0 ms of None \<Rightarrow> None
         | Some _ \<Rightarrow> Some (sem_test t True (s\<lparr>sem_count := sem_count s - 1\<rparr>)))
     | SWoken timed \<Rightarrow> Some (sem_test t timed s)
     | SExpired \<Rightarrow> Some (s\<lparr>sem_count := sem_count s + 1, sem_pc := (sem_pc s)(t := SOut)\<rparr>)
     | SSignal \<Rightarrow> Some (s\<lparr>sem_count := sem_count s + 1, sem_pc := (sem_pc s)(t := SNotify),
         sem_signals := sem_signals s + 1\<rparr>)
     | _ \<Rightarrow> None)"

datatype sem_action = CallWait nat int | CallTimedWait nat int | CallSignal nat | SRun nat | SWake nat | SExpire nat
  | SNotifyTo nat nat | SNotifyNone nat

fun sem_wake :: "nat \<Rightarrow> sem_system \<Rightarrow> sem_system option" where
  "sem_wake u s = (case sem_pc s u of
       SAsleep timed \<Rightarrow> Some (s\<lparr>sem_pc := (sem_pc s)(u := SWoken timed)\<rparr>)
     | _ \<Rightarrow> None)"

definition sem_goto :: "nat \<Rightarrow> sem_pc \<Rightarrow> sem_pc \<Rightarrow> sem_system \<Rightarrow> sem_system option" where
  "sem_goto t from_pc to_pc s = (if sem_pc s t = from_pc then Some (s\<lparr>sem_pc := (sem_pc s)(t := to_pc)\<rparr>) else None)"

fun sem_do :: "sem_action \<Rightarrow> sem_system \<Rightarrow> sem_system option" where
  "sem_do (CallWait t ms) s = sem_goto t SOut (if ms > 0 then STimed ms else SWait) s"
| "sem_do (CallTimedWait t ms) s = (if 0 \<le> ms then sem_goto t SOut (STimed ms) s else None)"
| "sem_do (CallSignal t) s = sem_goto t SOut SSignal s"
| "sem_do (SRun t) s = sem_section t s"
| "sem_do (SWake t) s = sem_wake t s"
| "sem_do (SExpire t) s = sem_goto t (SAsleep True) SExpired s"
| "sem_do (SNotifyTo t u) s = do { s' \<leftarrow> sem_goto t SNotify SOut s; sem_wake u s' }"
| "sem_do (SNotifyNone t) s = sem_goto t SNotify SOut s"

inductive sem_steps :: "sem_system \<Rightarrow> sem_system \<Rightarrow> bool" where
  sem_refl: "sem_steps s s"
| sem_step: "sem_steps s s' \<Longrightarrow> sem_do a s' = Some s'' \<Longrightarrow>
    (\<forall>t. a = SNotifyNone t \<longrightarrow> (\<forall>u timed. sem_pc s' u \<noteq> SAsleep timed)) \<Longrightarrow> sem_steps s s''"

lemma sem_steps_then: "sem_steps s s' \<Longrightarrow> sem_do a s' = Some s'' \<Longrightarrow> \<forall>t. a \<noteq> SNotifyNone t \<Longrightarrow> sem_steps s s''"
  by (rule sem_step) auto

fun sem_run :: "sem_action list \<Rightarrow> sem_system \<Rightarrow> sem_system option" where
  "sem_run [] s = Some s"
| "sem_run (a # as) s = do { s' \<leftarrow> sem_do a s; sem_run as s' }"

lemma sem_run_steps:
  "sem_run as s' = Some s'' \<Longrightarrow> \<forall>a \<in> set as. \<forall>t. a \<noteq> SNotifyNone t \<Longrightarrow> sem_steps s s' \<Longrightarrow> sem_steps s s''"
proof (induction as arbitrary: s')
  case (Cons a as)
  then obtain s1 where s1: "sem_do a s' = Some s1" "sem_run as s1 = Some s''" by (auto split: bind_splits)
  then have "sem_steps s s1" using Cons.prems by (auto intro: sem_steps_then)
  then show ?case using Cons.IH [OF s1(2)] Cons.prems by simp
qed simp

text \<open>The threads that have decremented the count and not returned.\<close>

fun sem_inside :: "sem_pc \<Rightarrow> bool" where
  "sem_inside (SAsleep timed) = True"
| "sem_inside (SWoken timed) = True"
| "sem_inside SExpired = True"
| "sem_inside _ = False"

definition sem_waiters :: "sem_system \<Rightarrow> nat set" where
  "sem_waiters s = {t. sem_inside (sem_pc s t)}"

definition sem_inv :: "int \<Rightarrow> sem_system \<Rightarrow> bool" where
  "sem_inv n s \<longleftrightarrow> finite (sem_waiters s) \<and>
     sem_count s = n + sem_signals s - sem_passed s - int (card (sem_waiters s)) \<and>
     0 \<le> sem_signals s \<and> 0 \<le> sem_passed s \<and> (0 < sem_passed s \<longrightarrow> sem_passed s < n + sem_signals s)"

lemma waiters_goto: "sem_waiters (s'\<lparr>sem_pc := (sem_pc s)(t := pc)\<rparr>) =
    (if sem_inside pc then insert t (sem_waiters s) else sem_waiters s - {t})"
  by (auto simp: sem_waiters_def)

lemma waiters_stay: "sem_inside (sem_pc s t) = sem_inside pc \<Longrightarrow> sem_waiters (s'\<lparr>sem_pc := (sem_pc s)(t := pc)\<rparr>) = sem_waiters s"
  by (auto simp: sem_waiters_def)

lemma waiters_same [simp]: "sem_waiters (s\<lparr>sem_count := c\<rparr>) = sem_waiters s" "sem_waiters (s\<lparr>sem_passed := q\<rparr>) = sem_waiters s"
    "sem_waiters (s\<lparr>sem_signals := g\<rparr>) = sem_waiters s"
  by (simp_all add: sem_waiters_def)

lemma sem_goto_inv: "sem_inv n s \<Longrightarrow> sem_goto t a b s = Some s' \<Longrightarrow> sem_inside a = sem_inside b \<Longrightarrow> sem_inv n s'"
  by (auto simp: sem_goto_def sem_inv_def waiters_stay split: if_splits)

lemma sem_wake_inv: "sem_inv n s \<Longrightarrow> sem_wake u s = Some s' \<Longrightarrow> sem_inv n s'"
  by (auto simp: sem_inv_def waiters_stay split: sem_pc.splits)

text \<open>A thread in \<open>S\<close>, counted or about to be, gets to the test with the count decremented for it.\<close>

lemma sem_test_inv:
  assumes fin: "finite (sem_waiters s)" and nonneg: "0 \<le> sem_signals s" "0 \<le> sem_passed s"
    and bound: "0 < sem_passed s \<longrightarrow> sem_passed s < n + sem_signals s"
    and count: "sem_count s = n + sem_signals s - sem_passed s - int (card (insert t (sem_waiters s)))"
  shows "sem_inv n (sem_test t timed s)"
proof (cases "sem_count s \<le> 0")
  case True
  then show ?thesis using assms by (simp add: sem_test_def sem_inv_def waiters_goto)
next
  case False
  have card: "card (insert t (sem_waiters s)) = card (sem_waiters s - {t}) + 1"
    using fin by (metis Suc_eq_plus1 card_insert_disjoint finite_Diff insert_Diff_single Diff_iff singletonI)
  have w: "sem_waiters (sem_test t timed s) = sem_waiters s - {t}"
    using False by (simp add: sem_test_def waiters_goto)
  have "sem_count (sem_test t timed s) = sem_count s" "sem_signals (sem_test t timed s) = sem_signals s"
    "sem_passed (sem_test t timed s) = sem_passed s + 1" using False by (simp_all add: sem_test_def)
  then show ?thesis using False count nonneg fin unfolding sem_inv_def w card by auto
qed

lemma sem_section_inv:
  assumes inv: "sem_inv n s" and step: "sem_section t s = Some s'"
  shows "sem_inv n s'"
proof (cases "sem_pc s t")
  case SWait
  then have "t \<notin> sem_waiters s" by (simp add: sem_waiters_def)
  moreover have "s' = sem_test t False (s\<lparr>sem_count := sem_count s - 1\<rparr>)" using SWait step by (simp add: sem_section_def)
  ultimately show ?thesis using inv by (simp only:) (rule sem_test_inv; simp add: sem_inv_def)
next
  case (STimed ms)
  then have "t \<notin> sem_waiters s" by (simp add: sem_waiters_def)
  moreover have "s' = sem_test t True (s\<lparr>sem_count := sem_count s - 1\<rparr>)"
    using STimed step by (simp add: sem_section_def split: option.splits)
  ultimately show ?thesis using inv by (simp only:) (rule sem_test_inv; simp add: sem_inv_def)
next
  case (SWoken timed)
  then have "insert t (sem_waiters s) = sem_waiters s" by (auto simp: sem_waiters_def)
  moreover have "s' = sem_test t timed s" using SWoken step by (simp add: sem_section_def)
  ultimately show ?thesis using inv by (simp only:) (rule sem_test_inv; simp add: sem_inv_def)
next
  case SExpired
  then have t: "t \<in> sem_waiters s" by (simp add: sem_waiters_def)
  then have "card (sem_waiters s) = Suc (card (sem_waiters s - {t}))"
    using inv by (intro card.remove) (auto simp: sem_inv_def)
  then show ?thesis using SExpired inv step by (auto simp: sem_section_def sem_inv_def waiters_goto)
next
  case SSignal
  then show ?thesis using inv step by (auto simp: sem_section_def sem_inv_def waiters_stay)
qed (use step in \<open>auto simp: sem_section_def\<close>)

lemma sem_do_inv: "sem_inv n s \<Longrightarrow> sem_do a s = Some s' \<Longrightarrow> sem_inv n s'"
proof (cases a)
  case (SNotifyTo t u)
  assume inv: "sem_inv n s" and "sem_do a s = Some s'"
  then obtain s1 where s1: "sem_goto t SNotify SOut s = Some s1" "sem_wake u s1 = Some s'"
    by (auto simp: SNotifyTo simp del: sem_wake.simps split: bind_splits)
  show ?thesis using sem_wake_inv [OF sem_goto_inv [OF inv s1(1)] s1(2)] by simp
qed (auto simp del: sem_wake.simps split: if_splits intro: sem_goto_inv sem_section_inv sem_wake_inv)

lemma sem_steps_inv: "sem_steps s s' \<Longrightarrow> sem_inv n s \<Longrightarrow> sem_inv n s'"
  by (induction rule: sem_steps.induct) (auto intro: sem_do_inv)

lemma sem_new_inv: "sem_inv n (sem_new n)"
  by (simp add: sem_inv_def sem_new_def sem_waiters_def)

text \<open>
  In every interleaving, the count of a semaphore created with \<open>n\<close> is \<open>n\<close> plus the signals, less the
  waits that returned and the threads inside; and the waits that have returned are always fewer
  than \<open>n\<close> plus the signals: a count of 1 is a locked semaphore.
\<close>

theorem sem_admits_fewer:
  assumes "sem_steps (sem_new n) s"
  shows "sem_count s = n + sem_signals s - sem_passed s - int (card (sem_waiters s)) \<and>
    (sem_passed s = 0 \<or> sem_passed s < n + sem_signals s)"
  using sem_steps_inv [OF assms sem_new_inv] by (auto simp: sem_inv_def)

definition sem_demo :: "sem_action list" where
  "sem_demo = [CallWait 1 (-1), SRun 1, CallWait 2 (-1), SRun 2, CallSignal 3, SRun 3, SNotifyTo 3 1, SRun 1,
     CallSignal 3, SRun 3, SNotifyTo 3 1, SRun 1]"

lemmas sem_eval = sem_demo_def sem_new_def sem_goto_def sem_section_def sem_test_def

theorem sem_admits_fewer_witness:
  "\<exists>s. sem_run sem_demo (sem_new 1) = Some s \<and> sem_passed s = 1 \<and> sem_passed s < 1 + sem_signals s"
proof -
  obtain s where s: "sem_run sem_demo (sem_new 1) = Some s" "sem_passed s = 1" by (simp add: sem_eval)
  have "sem_steps (sem_new 1) s" using s(1) by (rule sem_run_steps) (auto simp: sem_demo_def intro: sem_refl)
  from sem_admits_fewer [OF this] s show ?thesis by auto
qed

text \<open>
  A wakeup of a semaphore can be lost: of two threads waiting on a locked semaphore that is
  signalled twice, the one both signals wake returns at the second, and the other stays asleep, with
  a count that would let it through and nobody left to wake it.
\<close>

theorem sem_lost_wakeup:
  "\<exists>s. sem_steps (sem_new 1) s \<and> sem_count s = 1 \<and> sem_pc s = (\<lambda>_. SOut)(2 := SAsleep False)"
proof -
  obtain s where s: "sem_run sem_demo (sem_new 1) = Some s" "sem_count s = 1" "sem_pc s = (\<lambda>_. SOut)(2 := SAsleep False)"
    by (simp add: sem_eval fun_eq_iff)
  have "sem_steps (sem_new 1) s" using s(1) by (rule sem_run_steps) (auto simp: sem_demo_def intro: sem_refl)
  then show ?thesis using s by blast
qed

end
