(* ===== verification/DownloadList.thy ===== *)
theory DownloadList
  imports Utility UnixPrefs MetaData
begin

section \<open>The download manager: its items and its queue\<close>

text \<open>
  \<open>DownloadItem\<close> (\<open>base/include/downloadmanager.h\<close>) and the part of \<open>base/src/downloadmanager.cpp\<close> that
  keeps the list of items: adding, queueing, cancelling, looking up, choosing the next queued item,
  pausing, and the loop of the download thread around a download. Items are addressed by pointers
  into a heap. The methods run under the manager's mutex or on its own thread; each is one step. The
  events sent to the player and the signals of the queue semaphore are recorded in order.
\<close>

subsection \<open>Items\<close>

datatype (plugins only: size) download_state =
    kDownloadItemState_Null
  | kDownloadItemState_Queued
  | kDownloadItemState_Downloading
  | kDownloadItemState_Cancelled
  | kDownloadItemState_Paused
  | kDownloadItemState_Error
  | kDownloadItemState_Done

record download_item =
  di_metadata :: metadata
  di_src :: string
  di_dest :: string
  di_cookie :: string
  di_playlist :: string
  di_mtime :: string
  di_state :: download_state
  di_error :: error
  di_received :: nat
  di_total :: nat
  di_normal :: bool

definition empty_download :: download_item where
  "empty_download = \<lparr>di_metadata = new_metadata, di_src = [], di_dest = [], di_cookie = [], di_playlist = [],
     di_mtime = [], di_state = kDownloadItemState_Null, di_error = kError_NoErr, di_received = 0, di_total = 0,
     di_normal = False\<rparr>"

definition new_download :: "string \<Rightarrow> string option \<Rightarrow> metadata option \<Rightarrow> download_item" where
  "new_download src dest md = empty_download\<lparr>di_src := c_str src,
     di_dest := (case dest of None \<Rightarrow> [] | Some d \<Rightarrow> c_str d),
     di_metadata := (case md of None \<Rightarrow> new_metadata | Some m \<Rightarrow> m)\<rparr>"

subsection \<open>The manager\<close>

datatype download_event = ItemAdded nat | ItemNewState nat | ItemProgress nat

record dlm =
  dm_heap :: "nat \<Rightarrow> download_item option"
  dm_items :: "nat list"
  dm_index :: int
  dm_paused :: bool
  dm_exit :: bool
  dm_run :: bool
  dm_signals :: nat
  dm_events :: "download_event list"
  dm_files :: files
  dm_submitted :: "(string \<times> metadata option) list"

definition dm_new :: "files \<Rightarrow> dlm" where
  "dm_new fs = \<lparr>dm_heap = Map.empty, dm_items = [], dm_index = -1, dm_paused = True, dm_exit = False, dm_run = True,
     dm_signals = 0, dm_events = [], dm_files = fs, dm_submitted = []\<rparr>"

definition dm_send :: "download_event \<Rightarrow> dlm \<Rightarrow> dlm" where
  "dm_send e s = s\<lparr>dm_events := dm_events s @ [e]\<rparr>"

definition dm_put :: "nat \<Rightarrow> download_item \<Rightarrow> dlm \<Rightarrow> dlm" where
  "dm_put p it s = s\<lparr>dm_heap := (dm_heap s)(p \<mapsto> it)\<rparr>"

definition dm_IsEmpty :: "dlm \<Rightarrow> bool" where
  "dm_IsEmpty s \<longleftrightarrow> dm_items s = []"

definition dm_CountItems :: "dlm \<Rightarrow> nat" where
  "dm_CountItems s = length (dm_items s)"

definition dm_CheckIndex :: "nat \<Rightarrow> dlm \<Rightarrow> nat" where
  "dm_CheckIndex index s = (if index \<ge> dm_CountItems s then kInvalidIndex else index)"

definition dm_ItemAt :: "nat \<Rightarrow> dlm \<Rightarrow> nat option" where
  "dm_ItemAt index s =
     (let index = dm_CheckIndex index s in if index \<noteq> kInvalidIndex then Some (dm_items s ! index) else None)"

definition dm_IndexOf :: "nat \<Rightarrow> dlm \<Rightarrow> nat" where
  "dm_IndexOf p s = index_loop p (dm_items s) 0"

definition dm_HasItem :: "nat \<Rightarrow> dlm \<Rightarrow> bool" where
  "dm_HasItem p s \<longleftrightarrow> dm_IndexOf p s \<noteq> kInvalidIndex"

text \<open>Queueing and cancelling. A null item, as \<open>ItemAt\<close> gives it for a bad index, fails an assertion.\<close>

definition dm_QueueDownload :: "nat \<Rightarrow> bool \<Rightarrow> dlm \<Rightarrow> (error \<times> dlm) option" where
  "dm_QueueDownload p bDownloadNow s = do {
     it \<leftarrow> dm_heap s p;
     if di_state it \<noteq> kDownloadItemState_Downloading \<and> di_state it \<noteq> kDownloadItemState_Done then do {
       let s1 = dm_send (ItemNewState p) (dm_put p (it\<lparr>di_state := kDownloadItemState_Queued\<rparr>) s);
       let s2 = (if dm_paused s1 \<and> bDownloadNow \<and> p \<in> set (dm_items s1)
                 then s1\<lparr>dm_index := int (index_loop p (dm_items s1) 0)\<rparr> else s1);
       Some (kError_NoErr, s2\<lparr>dm_signals := dm_signals s2 + 1\<rparr>)
     }
     else Some (kError_InvalidParam, s)
   }"

definition dm_QueueDownload_at :: "nat \<Rightarrow> dlm \<Rightarrow> (error \<times> dlm) option" where
  "dm_QueueDownload_at index s = do { p \<leftarrow> dm_ItemAt index s; dm_QueueDownload p False s }"

definition dm_CancelDownload :: "nat \<Rightarrow> bool \<Rightarrow> dlm \<Rightarrow> (error \<times> dlm) option" where
  "dm_CancelDownload p allowResume s = do {
     it \<leftarrow> dm_heap s p;
     if di_state it = kDownloadItemState_Downloading \<or> di_state it = kDownloadItemState_Queued \<or>
        di_state it = kDownloadItemState_Paused then
       Some (kError_NoErr, dm_send (ItemNewState p) (dm_put p
         (it\<lparr>di_state := (if \<not> allowResume then kDownloadItemState_Cancelled else kDownloadItemState_Paused)\<rparr>) s))
     else Some (kError_InvalidParam, s)
   }"

definition dm_CancelDownload_at :: "nat \<Rightarrow> bool \<Rightarrow> dlm \<Rightarrow> (error \<times> dlm) option" where
  "dm_CancelDownload_at index allowResume s = do { p \<leftarrow> dm_ItemAt index s; dm_CancelDownload p allowResume s }"

subsection \<open>Adding\<close>

text \<open>Is there an item with this source URL? The search reads the items up to the first match.\<close>

fun has_source :: "(nat \<Rightarrow> download_item option) \<Rightarrow> string \<Rightarrow> nat list \<Rightarrow> bool option" where
  "has_source hp u [] = Some False"
| "has_source hp u (q # qs) = do { it \<leftarrow> hp q; if di_src it = u then Some True else has_source hp u qs }"

definition dm_AddItem :: "nat \<Rightarrow> dlm \<Rightarrow> (error \<times> dlm) option" where
  "dm_AddItem p s = do {
     it \<leftarrow> dm_heap s p;
     found \<leftarrow> has_source (dm_heap s) (di_src it) (dm_items s);
     if \<not> found then do {
       (_, s1) \<leftarrow> dm_QueueDownload p False (dm_send (ItemAdded p) (s\<lparr>dm_items := dm_items s @ [p]\<rparr>));
       Some (kError_NoErr, s1)
     }
     else Some (kError_NoErr, s)
   }"

fun dm_AddItems_loop :: "nat list \<Rightarrow> dlm \<Rightarrow> dlm option" where
  "dm_AddItems_loop [] s = Some s"
| "dm_AddItems_loop (p # ps) s = do { (_, s1) \<leftarrow> dm_AddItem p s; dm_AddItems_loop ps s1 }"

definition dm_AddItems :: "nat list \<Rightarrow> dlm \<Rightarrow> (error \<times> dlm) option" where
  "dm_AddItems ps s = do { s1 \<leftarrow> dm_AddItems_loop ps s; Some (kError_NoErr, s1) }"

text \<open>From a URL: the new item is at the address \<open>p\<close>, which is not in use.\<close>

definition url_file :: "string \<Rightarrow> string" where
  "url_file url = (if CHR ''/'' \<in> set url then file_part url else url)"

definition dm_AddItem_url :: "nat \<Rightarrow> string \<Rightarrow> string option \<Rightarrow> dlm \<Rightarrow> (error \<times> dlm) option" where
  "dm_AddItem_url p url filename s =
     (let url = c_str url;
          it = new_download url (Some (case filename of None \<Rightarrow> url_file url | Some f \<Rightarrow> f)) None
      in if dm_heap s p = None then dm_AddItem p (dm_put p (it\<lparr>di_normal := True\<rparr>) s) else None)"

subsection \<open>Download files\<close>

text \<open>
  The registered formats by their extension, each with the plugin's \<open>ReadDownloadFile\<close>, which is not part of
  the manager: the code and the items it makes, at the addresses given. Without a vector from the caller, the items
  are added to the manager.
\<close>

type_synonym download_format = "string \<times> (string \<Rightarrow> dlm \<Rightarrow> error \<times> nat list \<times> dlm)"

definition dm_GetSupportedDownloadFormats :: "download_format list \<Rightarrow> nat \<Rightarrow> error \<times> string option" where
  "dm_GetSupportedDownloadFormats fmts index =
     (if index < length fmts then (kError_NoErr, Some (fst (fmts ! index))) else (kError_NoMoreFormats, None))"

definition url_extension :: "string \<Rightarrow> string option" where
  "url_extension url =
     (if CHR ''.'' \<in> set url then Some (rev (takeWhile (\<lambda>c. c \<noteq> CHR ''.'') (rev url))) else None)"

definition dm_ReadDownloadFile :: "download_format list \<Rightarrow> string \<Rightarrow> bool \<Rightarrow> dlm \<Rightarrow> (error \<times> nat list \<times> dlm) option" where
  "dm_ReadDownloadFile fmts url has_items s = (case url_extension (c_str url) of
       None \<Rightarrow> Some (kError_FormatNotSupported, [], s)
     | Some extension \<Rightarrow> (case find (\<lambda>f. fst f = extension) fmts of
           None \<Rightarrow> Some (kError_FormatNotSupported, [], s)
         | Some f \<Rightarrow> (let (result, ps, s1) = snd f url s in
             if has_items then Some (result, ps, s1)
             else do { (_, s2) \<leftarrow> dm_AddItems ps s1; Some (result, [], s2) })))"

subsection \<open>The next queued item\<close>

text \<open>The circular search: the offset of the first queued item from \<open>i\<close> on, when there is one.\<close>

function next_loop :: "(nat \<Rightarrow> download_item option) \<Rightarrow> nat list \<Rightarrow> nat \<Rightarrow> nat \<Rightarrow> nat option option" where
  "next_loop hp xs i seen =
     (if i < length xs then
        if seen \<ge> length xs then Some None
        else do {
          it \<leftarrow> hp (xs ! i);
          if di_state it = kDownloadItemState_Queued then Some (Some i)
          else next_loop hp xs ((i + 1) mod length xs) (seen + 1)
        }
      else Some None)"
  by auto
termination by (relation "measure (\<lambda>(hp, xs, i, seen). length xs - seen)") auto

declare next_loop.simps [simp del]

definition dm_GetNextQueuedItem :: "dlm \<Rightarrow> (nat option \<times> dlm) option" where
  "dm_GetNextQueuedItem s =
     (let start = (if dm_index s < 0 \<or> dm_index s \<ge> int (length (dm_items s)) then 0 else dm_index s);
          s1 = s\<lparr>dm_index := start\<rparr>
      in do {
        r \<leftarrow> next_loop (dm_heap s1) (dm_items s1) (nat start) 0;
        Some (case r of None \<Rightarrow> (None, s1) | Some i \<Rightarrow> (Some (dm_items s1 ! i), s1\<lparr>dm_index := start + 1\<rparr>))
      })"

definition dm_PauseDownloads :: "dlm \<Rightarrow> dlm" where
  "dm_PauseDownloads s = s\<lparr>dm_paused := True\<rparr>"

definition dm_ResumeDownloads :: "dlm \<Rightarrow> dlm" where
  "dm_ResumeDownloads s = s\<lparr>dm_paused := False, dm_signals := dm_signals s + 1\<rparr>"

subsection \<open>The download thread\<close>

text \<open>
  The path of an item's file in a buffer of \<open>_MAX_PATH\<close> characters; \<open>dir\<close> is the value of
  the preference for downloaded music.
\<close>

definition dest_path :: "string \<Rightarrow> download_item \<Rightarrow> string option" where
  "dest_path dir it =
     (let path = c_str dir @ [DIR_MARKER] @ c_str (di_dest it) in if length path + 1 \<le> MAX_PATH then Some path else None)"

definition dm_CleanUpDownload :: "string \<Rightarrow> nat \<Rightarrow> dlm \<Rightarrow> dlm option" where
  "dm_CleanUpDownload dir p s = do {
     it \<leftarrow> dm_heap s p;
     path \<leftarrow> dest_path dir it;
     Some (dm_put p (it\<lparr>di_received := 0\<rparr>) (s\<lparr>dm_files := (dm_files s)(path := None)\<rparr>))
   }"

text \<open>Metadata and catalog take the file; the result variable is never set after it.\<close>

definition dm_SubmitToDatabase :: "string \<Rightarrow> nat \<Rightarrow> dlm \<Rightarrow> (error \<times> dlm) option" where
  "dm_SubmitToDatabase dir p s = do {
     it \<leftarrow> dm_heap s p;
     path \<leftarrow> dest_path dir it;
     let (err, url, _) = FilePathToURL path (length path + 10);
     Some (kError_InvalidParam, case url of None \<Rightarrow> s
       | Some u \<Rightarrow> s\<lparr>dm_submitted := dm_submitted s @ [(u, if di_normal it then None else Some (di_metadata it))]\<rparr>)
   }"

datatype thread_step = Waits | Continues

text \<open>What the thread does with the result of a download.\<close>

definition dm_finish :: "string \<Rightarrow> nat \<Rightarrow> error \<Rightarrow> dlm \<Rightarrow> dlm option" where
  "dm_finish dir p result s = do {
     it \<leftarrow> dm_heap s p;
     (result, s2) \<leftarrow> (if IsntError result then
          dm_SubmitToDatabase dir p (dm_put p (it\<lparr>di_state := kDownloadItemState_Done\<rparr>) s)
        else if result = kError_UserCancel then
          (if di_state it = kDownloadItemState_Cancelled
           then do { s2 \<leftarrow> dm_CleanUpDownload dir p s; Some (result, s2) }
           else Some (result, s))
        else do {
          let s1 = dm_put p (it\<lparr>di_state := kDownloadItemState_Error\<rparr>) s;
          s2 \<leftarrow> (if result \<noteq> kError_IOError then dm_CleanUpDownload dir p s1 else Some s1);
          Some (result, s2)
        });
     it2 \<leftarrow> dm_heap s2 p;
     Some (dm_send (ItemNewState p) (dm_put p (it2\<lparr>di_error := result\<rparr>) s2))
   }"

text \<open>One round of the thread around \<open>Download\<close>, which is a parameter here.\<close>

definition dm_thread_round ::
  "string \<Rightarrow> (nat \<Rightarrow> dlm \<Rightarrow> (error \<times> dlm) option) \<Rightarrow> dlm \<Rightarrow> (thread_step \<times> dlm) option" where
  "dm_thread_round dir download s =
     (if dm_paused s then Some (Waits, s)
      else do {
        (next, s1) \<leftarrow> dm_GetNextQueuedItem s;
        case next of None \<Rightarrow> Some (Waits, s1)
        | Some p \<Rightarrow> do {
            it \<leftarrow> dm_heap s1 p;
            (result, s2) \<leftarrow> download p (dm_send (ItemNewState p) (dm_put p (it\<lparr>di_state := kDownloadItemState_Downloading\<rparr>) s1));
            s3 \<leftarrow> dm_finish dir p result s2;
            Some (Continues, s3)
          }
      })"

subsection \<open>The search is fair\<close>

definition dm_live :: "dlm \<Rightarrow> bool" where
  "dm_live s \<longleftrightarrow> (\<forall>p \<in> set (dm_items s). dm_heap s p \<noteq> None)"

definition is_queued :: "(nat \<Rightarrow> download_item option) \<Rightarrow> nat \<Rightarrow> bool" where
  "is_queued hp p \<longleftrightarrow> (\<exists>it. hp p = Some it \<and> di_state it = kDownloadItemState_Queued)"

definition dm_start :: "dlm \<Rightarrow> nat" where
  "dm_start s = (if dm_index s < 0 \<or> dm_index s \<ge> int (length (dm_items s)) then 0 else nat (dm_index s))"

lemma dm_start_less: "dm_items s \<noteq> [] \<Longrightarrow> dm_start s < length (dm_items s)"
  by (auto simp: dm_start_def)

lemma dm_start_next:
  "a < length (dm_items s) \<Longrightarrow> dm_start (s\<lparr>dm_index := int a + 1\<rparr>) = (a + 1) mod length (dm_items s)"
  by (cases "a + 1 = length (dm_items s)") (auto simp: dm_start_def nat_add_distrib)

lemma next_loop_result:
  assumes live: "\<forall>p \<in> set xs. hp p \<noteq> None" and i: "i < length xs"
  shows "next_loop hp xs i seen = Some
    (if \<exists>k. seen + k < length xs \<and> is_queued hp (xs ! ((i + k) mod length xs))
     then Some ((i + (LEAST k. is_queued hp (xs ! ((i + k) mod length xs)))) mod length xs) else None)"
  using i
proof (induction "length xs - seen" arbitrary: i seen)
  case 0
  then show ?case by (subst next_loop.simps) auto
next
  case (Suc n)
  let ?q = "\<lambda>i k. is_queued hp (xs ! ((i + k) mod length xs))"
  from Suc.prems live obtain it where it: "hp (xs ! i) = Some it" by (meson not_None_eq nth_mem)
  show ?case
  proof (cases "di_state it = kDownloadItemState_Queued")
    case True
    then have "?q i 0" using it Suc.prems by (auto simp: is_queued_def)
    moreover from this have "(LEAST k. ?q i k) = 0" by (rule Least_eq_0)
    ultimately show ?thesis using Suc.hyps(2) Suc.prems it True
      by (subst next_loop.simps) (auto dest: spec [of _ 0])
  next
    case False
    let ?i = "(i + 1) mod length xs"
    have shift: "?q ?i k = ?q i (Suc k)" for k by (simp add: mod_simps)
    have n0: "\<not> ?q i 0" using it False Suc.prems by (simp add: is_queued_def)
    have ex: "(\<exists>k. seen + 1 + k < length xs \<and> ?q ?i k) = (\<exists>k. seen + k < length xs \<and> ?q i k)"
    proof
      assume "\<exists>k. seen + k < length xs \<and> ?q i k"
      then obtain k where k: "seen + k < length xs" "?q i k" by auto
      then obtain j where "k = Suc j" using n0 by (cases k) auto
      then show "\<exists>k. seen + 1 + k < length xs \<and> ?q ?i k" using k shift by auto
    next
      assume "\<exists>k. seen + 1 + k < length xs \<and> ?q ?i k"
      then obtain k where "seen + 1 + k < length xs" "?q ?i k" by auto
      then show "\<exists>k. seen + k < length xs \<and> ?q i k" using shift by (intro exI [of _ "Suc k"]) simp
    qed
    have "(?i + (LEAST k. ?q ?i k)) mod length xs = (i + (LEAST k. ?q i k)) mod length xs" if "?q i k" for k
      using Least_Suc [of "?q i", OF that n0] by (simp add: shift mod_simps)
    moreover have "next_loop hp xs i seen = next_loop hp xs ?i (seen + 1)"
    proof -
      have "\<not> length xs \<le> seen" using Suc.hyps(2) by linarith
      then show ?thesis using Suc.prems it False by (subst next_loop.simps) simp
    qed
    moreover have "next_loop hp xs ?i (seen + 1) = Some (if \<exists>k. seen + 1 + k < length xs \<and> ?q ?i k
        then Some ((?i + (LEAST k. ?q ?i k)) mod length xs) else None)"
    proof (rule Suc.hyps(1))
      show "n = length xs - (seen + 1)" using Suc.hyps(2) by simp
      show "?i < length xs" using Suc.prems by (intro mod_less_divisor) auto
    qed
    ultimately show ?thesis unfolding ex by auto
  qed
qed

text \<open>
  \<open>GetNextQueuedItem\<close> always returns, changes nothing but the position, and finds a queued item exactly
  when the list has one: the first in the circular order that begins at the position; the position
  then moves on by one, round the list.
\<close>

theorem dm_next_queued:
  assumes live: "dm_live s"
  shows "\<exists>r i. dm_GetNextQueuedItem s = Some (r, s\<lparr>dm_index := i\<rparr>) \<and>
    (r = None \<longleftrightarrow> (\<forall>p \<in> set (dm_items s). \<not> is_queued (dm_heap s) p)) \<and>
    (\<forall>p. r = Some p \<longrightarrow> (let n = length (dm_items s); at = (\<lambda>k. dm_items s ! ((dm_start s + k) mod n)) in
      dm_start (s\<lparr>dm_index := i\<rparr>) = (dm_start s + 1) mod n \<and>
      (\<exists>k < n. p = at k \<and> is_queued (dm_heap s) p \<and> (\<forall>j < k. \<not> is_queued (dm_heap s) (at j)))))"
proof (cases "dm_items s = []")
  case True
  then show ?thesis by (auto simp: dm_GetNextQueuedItem_def Let_def next_loop.simps)
next
  case False
  let ?n = "length (dm_items s)" and ?at = "\<lambda>k. dm_items s ! ((dm_start s + k) mod length (dm_items s))"
  let ?q = "\<lambda>k. is_queued (dm_heap s) (?at k)"
  have st: "dm_start s < ?n" using False by (rule dm_start_less)
  have loop: "next_loop (dm_heap s) (dm_items s) (dm_start s) 0 = Some
      (if \<exists>k. 0 + k < ?n \<and> ?q k then Some ((dm_start s + (LEAST k. ?q k)) mod ?n) else None)"
    using live st by (intro next_loop_result) (auto simp: dm_live_def)
  have all: "(\<exists>k < ?n. ?q k) \<longleftrightarrow> (\<exists>p \<in> set (dm_items s). is_queued (dm_heap s) p)"
  proof
    assume "\<exists>p \<in> set (dm_items s). is_queued (dm_heap s) p"
    then obtain j where j: "j < ?n" "is_queued (dm_heap s) (dm_items s ! j)" by (metis in_set_conv_nth)
    have "(dm_start s + (j + ?n - dm_start s) mod ?n) mod ?n = (j + ?n) mod ?n"
      using st by (simp add: mod_add_right_eq)
    then have "?q ((j + ?n - dm_start s) mod ?n)" using j by simp
    moreover have "(j + ?n - dm_start s) mod ?n < ?n" using False by (intro mod_less_divisor) simp
    ultimately show "\<exists>k < ?n. ?q k" by blast
  next
    assume "\<exists>k < ?n. ?q k"
    then show "\<exists>p \<in> set (dm_items s). is_queued (dm_heap s) p" using False by (metis length_greater_0_conv mod_less_divisor nth_mem)
  qed
  have get: "dm_GetNextQueuedItem s = Some (if \<exists>k. 0 + k < ?n \<and> ?q k
      then (Some (?at (LEAST k. ?q k)), s\<lparr>dm_index := int (dm_start s) + 1\<rparr>) else (None, s\<lparr>dm_index := int (dm_start s)\<rparr>))"
    using loop by (auto simp: dm_GetNextQueuedItem_def Let_def dm_start_def)
  show ?thesis
  proof (cases "\<exists>k < ?n. ?q k")
    case True
    then obtain k where k: "k < ?n" "?q k" by auto
    have "?q (LEAST k. ?q k)" "(LEAST k. ?q k) \<le> k" using k(2) by (rule LeastI, rule Least_le)
    moreover have "j < (LEAST k. ?q k) \<Longrightarrow> \<not> ?q j" for j by (rule not_less_Least)
    moreover note dm_start_next [OF st]
    ultimately show ?thesis using True get all k(1) by (auto simp: Let_def intro!: exI [of _ "LEAST k. ?q k"])
  next
    case False
    then show ?thesis using get all by auto
  qed
qed

abbreviation demo_download :: "download_state \<Rightarrow> download_item" where
  "demo_download st \<equiv> empty_download\<lparr>di_state := st\<rparr>"

definition demo_dlm :: dlm where
  "demo_dlm = (dm_new Map.empty)\<lparr>dm_items := [7, 9],
     dm_heap := [7 \<mapsto> demo_download kDownloadItemState_Done, 9 \<mapsto> demo_download kDownloadItemState_Queued]\<rparr>"

lemma demo_live: "dm_live demo_dlm"
  by (simp add: dm_live_def demo_dlm_def)

theorem dm_next_queued_witness:
  "\<exists>i. dm_GetNextQueuedItem demo_dlm = Some (Some 9, demo_dlm\<lparr>dm_index := i\<rparr>)"
proof -
  obtain r i where get: "dm_GetNextQueuedItem demo_dlm = Some (r, demo_dlm\<lparr>dm_index := i\<rparr>)"
      and none: "r = None \<longleftrightarrow> (\<forall>p \<in> set (dm_items demo_dlm). \<not> is_queued (dm_heap demo_dlm) p)"
      and some: "\<forall>p. r = Some p \<longrightarrow> (let n = length (dm_items demo_dlm);
        at = (\<lambda>k. dm_items demo_dlm ! ((dm_start demo_dlm + k) mod n)) in
        dm_start (demo_dlm\<lparr>dm_index := i\<rparr>) = (dm_start demo_dlm + 1) mod n \<and>
        (\<exists>k < n. p = at k \<and> is_queued (dm_heap demo_dlm) p \<and> (\<forall>j < k. \<not> is_queued (dm_heap demo_dlm) (at j))))"
    using dm_next_queued [OF demo_live] by blast
  have "r \<noteq> None" using none by (simp add: demo_dlm_def is_queued_def)
  then obtain p where p: "r = Some p" by blast
  then have "is_queued (dm_heap demo_dlm) p" using some by (auto simp: Let_def)
  then have "p = 9" by (auto simp: demo_dlm_def is_queued_def split: if_splits)
  then show ?thesis using get p by auto
qed


definition demo_search :: "nat \<Rightarrow> dlm" where
  "demo_search k = demo_dlm\<lparr>dm_index := (if k = 0 then 0 else if odd k then 1 else 2)\<rparr>"


subsection \<open>What every call keeps\<close>

text \<open>The source URL of the item at an address.\<close>

definition src_at :: "dlm \<Rightarrow> nat \<Rightarrow> string" where
  "src_at s p = (case dm_heap s p of None \<Rightarrow> [] | Some it \<Rightarrow> di_src it)"

definition dm_wf :: "dlm \<Rightarrow> bool" where
  "dm_wf s \<longleftrightarrow> dm_live s \<and> distinct (map (src_at s) (dm_items s))"

text \<open>How the state of an item may change in a call: to queued, or to cancelled or paused.\<close>

definition queue_move :: "download_state \<Rightarrow> download_state \<Rightarrow> bool" where
  "queue_move a b \<longleftrightarrow> b = a \<or> b = kDownloadItemState_Queued \<and> a \<notin> {kDownloadItemState_Downloading, kDownloadItemState_Done}"

definition call_move :: "download_state \<Rightarrow> download_state \<Rightarrow> bool" where
  "call_move a b \<longleftrightarrow> queue_move a b \<or>
     b \<in> {kDownloadItemState_Cancelled, kDownloadItemState_Paused} \<and>
     a \<in> {kDownloadItemState_Downloading, kDownloadItemState_Queued, kDownloadItemState_Paused}"

lemma move_refl [simp]: "queue_move a a" "call_move a a"
  by (simp_all add: queue_move_def call_move_def)

lemma queue_move_trans: "queue_move a b \<Longrightarrow> queue_move b c \<Longrightarrow> queue_move a c"
  by (auto simp: queue_move_def)

text \<open>The items of one state are the items of another, but for states that moved.\<close>

fun item_moves :: "(download_state \<Rightarrow> download_state \<Rightarrow> bool) \<Rightarrow> download_item option \<Rightarrow> download_item option \<Rightarrow> bool" where
  "item_moves m None b \<longleftrightarrow> b = None"
| "item_moves m (Some it) b \<longleftrightarrow> (\<exists>st. b = Some (it\<lparr>di_state := st\<rparr>) \<and> m (di_state it) st)"

definition heap_moves :: "(download_state \<Rightarrow> download_state \<Rightarrow> bool) \<Rightarrow> dlm \<Rightarrow> dlm \<Rightarrow> bool" where
  "heap_moves m s s' \<longleftrightarrow> (\<forall>p. item_moves m (dm_heap s p) (dm_heap s' p))"

lemma item_moves_refl: "(\<And>a. m a a) \<Longrightarrow> item_moves m a a"
  by (cases a) (auto intro!: exI [of _ "di_state x" for x])

lemma item_moves_trans: "item_moves queue_move a b \<Longrightarrow> item_moves queue_move b c \<Longrightarrow> item_moves queue_move a c"
  by (cases a; cases b) (auto, blast intro: queue_move_trans)

lemma item_moves_call: "item_moves queue_move a b \<Longrightarrow> item_moves call_move a b"
  by (cases a) (auto simp: call_move_def)

lemma item_moves_live: "item_moves m a b \<Longrightarrow> a \<noteq> None \<longleftrightarrow> b \<noteq> None"
  by (cases a) auto

lemma heap_moves_put:
  "dm_heap s p = Some it \<Longrightarrow> m (di_state it) st \<Longrightarrow> (\<And>a. m a a) \<Longrightarrow> dm_heap s' = (dm_heap s)(p \<mapsto> it\<lparr>di_state := st\<rparr>) \<Longrightarrow>
   heap_moves m s s'"
  by (auto simp: heap_moves_def intro: item_moves_refl)

lemma heap_moves_same: "(\<And>a. m a a) \<Longrightarrow> dm_heap s' = dm_heap s \<Longrightarrow> heap_moves m s s'"
  by (auto simp: heap_moves_def intro: item_moves_refl)

lemma heap_moves_call: "heap_moves queue_move s s' \<Longrightarrow> heap_moves call_move s s'"
  by (simp add: heap_moves_def item_moves_call)

lemma heap_moves_trans: "heap_moves queue_move s s' \<Longrightarrow> heap_moves queue_move s' s'' \<Longrightarrow> heap_moves queue_move s s''"
  unfolding heap_moves_def by (blast intro: item_moves_trans)

lemma heap_moves_live: "heap_moves m s s' \<Longrightarrow> dm_heap s p \<noteq> None \<longleftrightarrow> dm_heap s' p \<noteq> None"
  unfolding heap_moves_def by (blast dest: item_moves_live)

lemma heap_moves_src: "heap_moves m s s' \<Longrightarrow> src_at s' p = src_at s p"
  unfolding heap_moves_def src_at_def by (drule spec [of _ p], cases "dm_heap s p") auto

lemma heap_moves_wf: "heap_moves m s s' \<Longrightarrow> dm_items s' = dm_items s \<Longrightarrow> dm_wf s \<Longrightarrow> dm_wf s'"
  using heap_moves_live [of m s s'] heap_moves_src [of m s s'] by (simp add: dm_wf_def dm_live_def cong: map_cong)

lemma queue_safe:
  assumes "dm_heap s p \<noteq> None"
  shows "\<exists>e s'. dm_QueueDownload p now s = Some (e, s') \<and> dm_items s' = dm_items s \<and> heap_moves queue_move s s'"
proof -
  obtain it where "dm_heap s p = Some it" using assms by auto
  then show ?thesis
    by (auto simp: dm_QueueDownload_def dm_send_def dm_put_def Let_def queue_move_def intro: heap_moves_put heap_moves_same)
qed

lemma cancel_safe:
  assumes "dm_heap s p \<noteq> None"
  shows "\<exists>e s'. dm_CancelDownload p r s = Some (e, s') \<and> dm_items s' = dm_items s \<and> heap_moves call_move s s'"
proof -
  obtain it where "dm_heap s p = Some it" using assms by auto
  then show ?thesis
    by (auto simp: dm_CancelDownload_def dm_send_def dm_put_def Let_def call_move_def intro: heap_moves_put heap_moves_same)
qed

lemma has_source_live:
  "\<forall>p \<in> set ps. dm_heap s p \<noteq> None \<Longrightarrow> has_source (dm_heap s) u ps = Some (u \<in> src_at s ` set ps)"
  by (induction ps) (auto simp: src_at_def)

lemma add_safe:
  assumes wf: "dm_wf s" and p: "dm_heap s p \<noteq> None"
  shows "\<exists>s'. dm_AddItem p s = Some (kError_NoErr, s') \<and> heap_moves queue_move s s' \<and> dm_wf s' \<and>
    (dm_items s' = (if src_at s p \<in> src_at s ` set (dm_items s) then dm_items s else dm_items s @ [p]))"
proof -
  obtain it where it: "dm_heap s p = Some it" using p by auto
  then have src: "di_src it = src_at s p" by (simp add: src_at_def)
  have has: "has_source (dm_heap s) (di_src it) (dm_items s) = Some (src_at s p \<in> src_at s ` set (dm_items s))"
    using wf src by (subst has_source_live) (auto simp: dm_wf_def dm_live_def)
  show ?thesis
  proof (cases "src_at s p \<in> src_at s ` set (dm_items s)")
    case True
    then show ?thesis using it has wf by (auto simp: dm_AddItem_def intro: heap_moves_same)
  next
    case False
    let ?s = "dm_send (ItemAdded p) (s\<lparr>dm_items := dm_items s @ [p]\<rparr>)"
    have s: "dm_heap ?s = dm_heap s" "dm_items ?s = dm_items s @ [p]" by (simp_all add: dm_send_def)
    then have same: "heap_moves queue_move s ?s" by (intro heap_moves_same) simp_all
    have "src_at ?s = src_at s" by (simp add: src_at_def s(1) fun_eq_iff)
    then have wf1: "dm_wf ?s" using wf False p s by (auto simp: dm_wf_def dm_live_def)
    obtain e s' where q: "dm_QueueDownload p False ?s = Some (e, s')" "dm_items s' = dm_items ?s" "heap_moves queue_move ?s s'"
      using queue_safe [of ?s p False] p s by auto
    then have "dm_AddItem p s = Some (kError_NoErr, s')" using it has False by (simp add: dm_AddItem_def)
    then show ?thesis using q s False heap_moves_trans [OF same q(3)] heap_moves_wf [OF q(3,2) wf1] by auto
  qed
qed

lemma add_items_safe:
  "dm_wf s \<Longrightarrow> \<forall>p \<in> set ps. dm_heap s p \<noteq> None \<Longrightarrow>
   \<exists>s'. dm_AddItems_loop ps s = Some s' \<and> heap_moves queue_move s s' \<and> dm_wf s'"
proof (induction ps arbitrary: s)
  case Nil
  then show ?case by (auto intro: heap_moves_same)
next
  case (Cons p ps)
  then obtain s1 where s1: "dm_AddItem p s = Some (kError_NoErr, s1)" "heap_moves queue_move s s1" "dm_wf s1"
    using add_safe [of s p] by auto
  have "\<forall>q \<in> set ps. dm_heap s1 q \<noteq> None" using Cons.prems heap_moves_live [OF s1(2)] by auto
  from Cons.IH [OF s1(3) this] obtain s2 where "dm_AddItems_loop ps s1 = Some s2" "heap_moves queue_move s1 s2" "dm_wf s2"
    by auto
  then show ?case using s1 heap_moves_trans [OF s1(2)] by auto
qed

text \<open>
  The calls of a client. It makes items of its own, at addresses not in use, and passes only items
  that exist and indices inside the list.
\<close>

datatype dm_call = NewDownload nat string "string option" "metadata option" | CallAddItem nat | CallAddUrl nat string "string option"
  | CallAddItems "nat list" | CallQueue nat bool | CallQueueAt nat | CallCancel nat bool | CallCancelAt nat bool
  | CallPause | CallResume

fun dm_permits :: "dlm \<Rightarrow> dm_call \<Rightarrow> bool" where
  "dm_permits s (NewDownload p src dest md) \<longleftrightarrow> dm_heap s p = None"
| "dm_permits s (CallAddItem p) \<longleftrightarrow> dm_heap s p \<noteq> None"
| "dm_permits s (CallAddUrl p url filename) \<longleftrightarrow> dm_heap s p = None"
| "dm_permits s (CallAddItems ps) \<longleftrightarrow> (\<forall>p \<in> set ps. dm_heap s p \<noteq> None)"
| "dm_permits s (CallQueue p now) \<longleftrightarrow> dm_heap s p \<noteq> None"
| "dm_permits s (CallQueueAt i) \<longleftrightarrow> i < length (dm_items s) \<and> i < kInvalidIndex"
| "dm_permits s (CallCancel p r) \<longleftrightarrow> dm_heap s p \<noteq> None"
| "dm_permits s (CallCancelAt i r) \<longleftrightarrow> i < length (dm_items s) \<and> i < kInvalidIndex"
| "dm_permits s CallPause \<longleftrightarrow> True"
| "dm_permits s CallResume \<longleftrightarrow> True"

fun dm_do :: "dm_call \<Rightarrow> dlm \<Rightarrow> dlm option" where
  "dm_do (NewDownload p src dest md) s = Some (dm_put p (new_download src dest md) s)"
| "dm_do (CallAddItem p) s = map_option snd (dm_AddItem p s)"
| "dm_do (CallAddUrl p url filename) s = map_option snd (dm_AddItem_url p url filename s)"
| "dm_do (CallAddItems ps) s = map_option snd (dm_AddItems ps s)"
| "dm_do (CallQueue p now) s = map_option snd (dm_QueueDownload p now s)"
| "dm_do (CallQueueAt i) s = map_option snd (dm_QueueDownload_at i s)"
| "dm_do (CallCancel p r) s = map_option snd (dm_CancelDownload p r s)"
| "dm_do (CallCancelAt i r) s = map_option snd (dm_CancelDownload_at i r s)"
| "dm_do CallPause s = Some (dm_PauseDownloads s)"
| "dm_do CallResume s = Some (dm_ResumeDownloads s)"

inductive dm_reachable :: "files \<Rightarrow> dlm \<Rightarrow> bool" for fs where
  dm_start: "dm_reachable fs (dm_new fs)"
| dm_call: "dm_reachable fs s \<Longrightarrow> dm_permits s c \<Longrightarrow> dm_do c s = Some s' \<Longrightarrow> dm_reachable fs s'"

text \<open>The items that were there are there, but for moves of their states.\<close>

definition kept :: "dlm \<Rightarrow> dlm \<Rightarrow> bool" where
  "kept s s' \<longleftrightarrow> (\<forall>p. dm_heap s p \<noteq> None \<longrightarrow> item_moves call_move (dm_heap s p) (dm_heap s' p))"

lemma kept_moves: "heap_moves call_move s s' \<Longrightarrow> kept s s'"
  by (simp add: heap_moves_def kept_def)

lemma kept_put: "dm_heap s p = None \<Longrightarrow> kept s (dm_put p it s)"
  by (auto simp: kept_def dm_put_def intro: item_moves_refl)

lemma wf_put: "dm_heap s p = None \<Longrightarrow> dm_wf s \<Longrightarrow> dm_wf (dm_put p it s)"
proof -
  assume p: "dm_heap s p = None" and wf: "dm_wf s"
  then have "p \<notin> set (dm_items s)" by (auto simp: dm_wf_def dm_live_def)
  then have "map (src_at (dm_put p it s)) (dm_items s) = map (src_at s) (dm_items s)"
    by (intro map_cong refl) (auto simp: src_at_def dm_put_def)
  moreover have "dm_items (dm_put p it s) = dm_items s" by (simp add: dm_put_def)
  moreover have "dm_live (dm_put p it s)" using wf by (auto simp: dm_wf_def dm_live_def dm_put_def)
  ultimately show ?thesis using wf by (metis dm_wf_def)
qed

lemma dm_ItemAt_live:
  "dm_wf s \<Longrightarrow> i < length (dm_items s) \<Longrightarrow> i < kInvalidIndex \<Longrightarrow> \<exists>p. dm_ItemAt i s = Some p \<and> dm_heap s p \<noteq> None"
  by (auto simp: dm_ItemAt_def dm_CheckIndex_def dm_CountItems_def dm_wf_def dm_live_def Let_def)

lemma dm_do_safe:
  assumes wf: "dm_wf s" and ok: "dm_permits s c"
  shows "\<exists>s'. dm_do c s = Some s' \<and> dm_wf s' \<and> kept s s'"
proof (cases c)
  case (NewDownload p src dest md)
  then show ?thesis using wf ok by (auto intro: wf_put kept_put)
next
  case (CallAddItem p)
  then show ?thesis using add_safe [OF wf, of p] ok by (auto intro: kept_moves heap_moves_call)
next
  case (CallAddUrl p url filename)
  let ?it = "(new_download (c_str url) (Some (case filename of None \<Rightarrow> url_file (c_str url) | Some f \<Rightarrow> f)) None)\<lparr>di_normal := True\<rparr>"
  let ?s = "dm_put p ?it s"
  have p: "dm_heap s p = None" "dm_heap ?s p \<noteq> None" using ok CallAddUrl by (simp_all add: dm_put_def)
  obtain s' where s': "dm_AddItem p ?s = Some (kError_NoErr, s')" "heap_moves queue_move ?s s'" "dm_wf s'"
    using add_safe [OF wf_put [OF p(1) wf] p(2)] by auto
  have "kept s s'" unfolding kept_def
  proof (intro allI impI)
    fix q assume "dm_heap s q \<noteq> None"
    then have "dm_heap ?s q = dm_heap s q" using p by (auto simp: dm_put_def)
    then show "item_moves call_move (dm_heap s q) (dm_heap s' q)"
      using heap_moves_call [OF s'(2)] by (metis heap_moves_def)
  qed
  then show ?thesis using s' p CallAddUrl by (simp add: dm_AddItem_url_def)
next
  case (CallAddItems ps)
  then obtain s' where "dm_AddItems_loop ps s = Some s'" "heap_moves queue_move s s'" "dm_wf s'"
    using add_items_safe [OF wf, of ps] ok by auto
  then show ?thesis using CallAddItems by (simp add: dm_AddItems_def kept_moves heap_moves_call)
next
  case (CallQueue p now)
  then obtain e s' where "dm_QueueDownload p now s = Some (e, s')" "dm_items s' = dm_items s" "heap_moves queue_move s s'"
    using queue_safe [of s p now] ok by auto
  then show ?thesis using CallQueue wf by (auto intro: kept_moves heap_moves_call heap_moves_wf)
next
  case (CallQueueAt i)
  then obtain p where p: "dm_ItemAt i s = Some p" "dm_heap s p \<noteq> None" using dm_ItemAt_live [OF wf, of i] ok by auto
  then obtain e s' where "dm_QueueDownload p False s = Some (e, s')" "dm_items s' = dm_items s" "heap_moves queue_move s s'"
    using queue_safe [of s p False] by auto
  then show ?thesis using CallQueueAt p wf
    by (auto simp: dm_QueueDownload_at_def intro: kept_moves heap_moves_call heap_moves_wf)
next
  case (CallCancel p r)
  then obtain e s' where "dm_CancelDownload p r s = Some (e, s')" "dm_items s' = dm_items s" "heap_moves call_move s s'"
    using cancel_safe [of s p r] ok by auto
  then show ?thesis using CallCancel wf by (auto intro: kept_moves heap_moves_wf)
next
  case (CallCancelAt i r)
  then obtain p where p: "dm_ItemAt i s = Some p" "dm_heap s p \<noteq> None" using dm_ItemAt_live [OF wf, of i] ok by auto
  then obtain e s' where "dm_CancelDownload p r s = Some (e, s')" "dm_items s' = dm_items s" "heap_moves call_move s s'"
    using cancel_safe [of s p r] by auto
  then show ?thesis using CallCancelAt p wf
    by (auto simp: dm_CancelDownload_at_def intro: kept_moves heap_moves_wf)
next
  case CallPause
  have "heap_moves call_move s (dm_PauseDownloads s)" by (intro heap_moves_same) (simp_all add: dm_PauseDownloads_def)
  then show ?thesis using CallPause wf by (auto simp: dm_PauseDownloads_def intro: kept_moves heap_moves_wf)
next
  case CallResume
  have "heap_moves call_move s (dm_ResumeDownloads s)" by (intro heap_moves_same) (simp_all add: dm_ResumeDownloads_def)
  then show ?thesis using CallResume wf by (auto simp: dm_ResumeDownloads_def intro: kept_moves heap_moves_wf)
qed

lemma dm_reachable_wf: "dm_reachable fs s \<Longrightarrow> dm_wf s"
proof (induction rule: dm_reachable.induct)
  case dm_start
  then show ?case by (simp add: dm_wf_def dm_live_def dm_new_def)
next
  case (dm_call s c s')
  then show ?case using dm_do_safe [of s c] by auto
qed



end
