(* ===== verification/DownloadHttp.thy ===== *)
theory DownloadHttp
  imports DownloadList
begin

section \<open>The download manager: one download\<close>

text \<open>
  \<open>DownloadManager::Download\<close> of \<open>base/src/downloadmanager.cpp\<close> (Unix build) and its helpers. What the network, the
  file system and the other threads do during one connection is a parameter, the record \<open>conn\<close>: the
  outcome of each call, the bytes received in the order they come, and, for every place where the code looks, whether
  the item is still being downloaded. A redirection connects again, to the next of a list of
  connections. A buffer that is overrun or a null pointer that is followed has no defined result.
\<close>

subsection \<open>The header\<close>

abbreviation crlf :: string where
  "crlf \<equiv> [CHR 0x0D, CHR 0x0A]"

definition GetContentLengthFromHeader :: "string \<Rightarrow> int option" where
  "GetContentLengthFromHeader buffer = (case strstr ''Content-Length:'' buffer of
       None \<Rightarrow> Some (-1)
     | Some i \<Rightarrow> (if i + 16 \<le> length buffer then Some (atoi (drop (i + 16) buffer)) else None))"

text \<open>\<open>erase(pos, length() - 2)\<close>, where the subtraction wraps for a shorter string.\<close>

definition erase_line_end :: "char \<Rightarrow> string \<Rightarrow> string" where
  "erase_line_end c s =
     (if c \<in> set s then
        let pos = length (takeWhile (\<lambda>d. d \<noteq> c) s);
            n = (if length s < 2 then length s else length s - 2)
        in take pos s @ drop (pos + n) s
      else s)"

definition GetContentTimeFromHeader :: "string \<Rightarrow> string option" where
  "GetContentTimeFromHeader buffer = (case strstr ''Last-Modified:'' buffer of
       None \<Rightarrow> Some []
     | Some i \<Rightarrow> (if i + 15 \<le> length buffer
         then Some (erase_line_end (CHR 0x0A) (erase_line_end (CHR 0x0D) (drop (i + 15) buffer))) else None))"

text \<open>The memory from the buffer on; the comparisons may read behind the bytes received.\<close>

definition IsHTTPHeaderComplete :: "string \<Rightarrow> nat \<Rightarrow> bool" where
  "IsHTTPHeaderComplete mem len \<longleftrightarrow>
     (\<exists>i \<in> set [0..<len]. has_prefix [CHR 0x0A, CHR 0x0A] (drop i mem) \<or> has_prefix (crlf @ crlf) (drop i mem))"

text \<open>Where the body begins: after the first empty line of newlines, else after the first of carriage
  returns and newlines.\<close>

definition body_start :: "string \<Rightarrow> nat option" where
  "body_start text = (case strstr [CHR 0x0A, CHR 0x0A] text of
       Some i \<Rightarrow> Some (i + 2)
     | None \<Rightarrow> map_option (\<lambda>i. i + 4) (strstr (crlf @ crlf) text))"

subsection \<open>The world during a connection\<close>

datatype recv_event = Chunk string | Closed | Failed | Stopped string

text \<open>\<open>Recv\<close> with room for \<open>n\<close> bytes: interrupted or not, what \<open>recv\<close> returned, the bytes, and what comes later.\<close>

fun Recv :: "nat \<Rightarrow> recv_event list \<Rightarrow> bool \<times> int \<times> string \<times> recv_event list" where
  "Recv n [] = (False, 0, [], [])"
| "Recv n (Chunk c # rs) =
     (if length c \<le> n then (False, int (length c), c, rs) else (False, int n, take n c, Chunk (drop n c) # rs))"
| "Recv n (Closed # rs) = (False, 0, [], rs)"
| "Recv n (Failed # rs) = (False, -1, [], rs)"
| "Recv n (Stopped c # rs) = (True, int (length (take n c)), take n c, rs)"

datatype errno = EEXIST | EACCES | ENOENT | EMFILE | EINVAL | EOther

datatype checkpoint = AtStart | AfterResolve | AfterSocket | AfterConnect | AfterSend | AfterHeader nat | AfterBody nat

record conn =
  cn_resolves :: bool
  cn_socket :: bool
  cn_connect :: "bool \<times> int" \<comment> \<open>interrupted, and what \<open>connect\<close> or \<open>select\<close> returned\<close>
  cn_send :: "nat \<Rightarrow> bool \<times> int"
  cn_recv :: "recv_event list"
  cn_junk :: string \<comment> \<open>what is in the memory behind the bytes received\<close>
  cn_downloading :: "checkpoint \<Rightarrow> bool"
  cn_run :: "nat \<Rightarrow> bool"
  cn_open :: "errno option"
  cn_write :: "nat \<Rightarrow> bool" \<comment> \<open>a write is complete or fails\<close>

record dl_env =
  ev_dir :: string
  ev_proxy :: "string option" \<comment> \<open>the proxy preference, when a proxy is to be used\<close>
  ev_version :: string

subsection \<open>Where to connect to\<close>

text \<open>The result so far, the host of the URL, the server, the port, and the resource (null without a slash).\<close>

definition sscanf_host :: "string \<Rightarrow> string option" where
  "sscanf_host url = (case scan_host_port 65 url of None \<Rightarrow> None | Some None \<Rightarrow> Some [] | Some (Some (host, _)) \<Rightarrow> Some host)"

definition dl_target :: "dl_env \<Rightarrow> string \<Rightarrow> (error \<times> string \<times> string \<times> nat \<times> string option) option" where
  "dl_target ev url =
     (if \<not> has_prefix_ci ''http://'' url then Some (kError_ProtocolNotSupported, [], [], 0, None)
      else case ev_proxy ev of
        Some proxy \<Rightarrow> do {
          fields \<leftarrow> scan_host_port 1025 (c_str proxy);
          hostname \<leftarrow> sscanf_host url;
          Some (case fields of None \<Rightarrow> (kError_InvalidURL, hostname, hostname, 80, Some url)
            | Some (proxyname, port) \<Rightarrow>
                (kError_NoErr, hostname, proxyname, (case port of None \<Rightarrow> 80 | Some p \<Rightarrow> p), Some url))
        }
      | None \<Rightarrow> do {
          fields \<leftarrow> scan_host_port 65 url;
          let res = (if CHR ''/'' \<in> set (drop 7 url) then Some (dropWhile (\<lambda>c. c \<noteq> CHR ''/'') (drop 7 url)) else None);
          Some (case fields of None \<Rightarrow> (kError_InvalidURL, [], [], 80, res)
            | Some (hostname, port) \<Rightarrow> (kError_NoErr, hostname, hostname, (case port of None \<Rightarrow> 80 | Some p \<Rightarrow> p), res))
        })"

text \<open>The steps up to the request; a later cause overrides an earlier one as in the code.\<close>

definition cancel_unless :: "bool \<Rightarrow> error \<Rightarrow> error" where
  "cancel_unless downloading result = (if downloading then result else kError_UserCancel)"

definition dl_connect :: "conn \<Rightarrow> error \<Rightarrow> error" where
  "dl_connect cn r0 =
     (let r1 = cancel_unless (cn_downloading cn AtStart) r0;
          r2 = (if IsntError r1 then cancel_unless (cn_downloading cn AfterResolve)
                  (if cn_resolves cn then r1 else kError_CantFindHost) else r1);
          r3 = (if IsntError r2 then cancel_unless (cn_downloading cn AfterSocket)
                  (if cn_socket cn then r2 else kError_CantCreateSocket) else r2)
      in if IsntError r3 then cancel_unless (cn_downloading cn AfterConnect)
           (if snd (cn_connect cn) < 0 then kError_ConnectFailed
            else if fst (cn_connect cn) then kError_UserCancel else r3)
         else r3)"

subsection \<open>The request\<close>

definition request_head :: "string \<Rightarrow> string \<Rightarrow> string \<Rightarrow> string" where
  "request_head res hostname version =
     ''GET '' @ res @ '' HTTP/1.1'' @ crlf @ ''Host: '' @ hostname @ crlf @ ''Accept: */*'' @ crlf @
     ''User-Agent: FreeAmp/'' @ version @ crlf"

definition range_line :: "nat \<Rightarrow> string" where
  "range_line received = ''Range: bytes='' @ decimal received @ ''-'' @ crlf"

definition if_range_line :: "string \<Rightarrow> string" where
  "if_range_line mtime = ''If-Range: '' @ mtime @ crlf"

definition cookie_line :: "string \<Rightarrow> string" where
  "cookie_line cookie = ''Cookie: '' @ cookie @ crlf"

text \<open>
  The request and the item afterwards: when bytes were received but the file is gone, the item starts
  over. The size of the buffer is the sum the code computes, with the lengths of the format strings;
  the lines of the range go through a buffer of 276 characters.
\<close>

definition dl_query :: "string \<Rightarrow> bool \<Rightarrow> string \<Rightarrow> string \<Rightarrow> download_item \<Rightarrow> (string \<times> download_item) option" where
  "dl_query version file_exists res hostname it =
     (let received = di_received it;
          resume = (received \<noteq> 0 \<and> file_exists);
          it' = (if received \<noteq> 0 \<and> \<not> file_exists then it\<lparr>di_received := 0, di_mtime := []\<rparr> else it);
          mtime = c_str (di_mtime it);
          cookie = c_str (di_cookie it);
          query = request_head res hostname version @
            (if resume then range_line received @ (if di_mtime it \<noteq> [] then if_range_line mtime else []) else []) @
            (if di_cookie it \<noteq> [] then cookie_line cookie else []) @ [CHR 0x0A];
          room = 64 + length res + length hostname + length version + (if received \<noteq> 0 then 275 else 0) +
            (if di_cookie it \<noteq> [] then length (di_cookie it) + 12 else 0) + 2
      in if length query + 1 \<le> room \<and> (resume \<and> di_mtime it \<noteq> [] \<longrightarrow> length (if_range_line mtime) + 1 \<le> 276)
         then Some (query, it') else None)"

definition dl_send :: "conn \<Rightarrow> string \<Rightarrow> error" where
  "dl_send cn query = cancel_unless (cn_downloading cn AfterSend)
     (let (interrupted, n) = cn_send cn (length query)
      in if n \<noteq> int (length query) then kError_IOError else if interrupted then kError_UserCancel else kError_NoErr)"

subsection \<open>The response\<close>

fun event_size :: "recv_event \<Rightarrow> nat" where
  "event_size (Chunk c) = length c + 1"
| "event_size (Stopped c) = length c + 1"
| "event_size _ = 1"

abbreviation events_size :: "recv_event list \<Rightarrow> nat" where
  "events_size rs \<equiv> sum_list (map event_size rs)"

lemma Recv_smaller: "Recv n rs = (i, r, c, rs') \<Longrightarrow> 0 < r \<Longrightarrow> events_size rs' < events_size rs"
proof (cases rs)
  case (Cons e es)
  assume "Recv n rs = (i, r, c, rs')" "0 < r"
  then show ?thesis using Cons by (cases e) (auto split: if_splits)
qed simp

text \<open>
  The loop that receives the header into a buffer that is doubled when it is full: the result, the bytes
  received, what comes later, and the size of the buffer.
\<close>

function dl_header ::
  "conn \<Rightarrow> nat \<Rightarrow> nat \<Rightarrow> string \<Rightarrow> recv_event list \<Rightarrow> error \<times> string \<times> recv_event list \<times> nat" where
  "dl_header cn k bufferSize data rs =
     (let bufferSize' = (if length data \<ge> bufferSize - 1 then bufferSize * 2 else bufferSize);
          (interrupted, n, c, rs') = Recv (bufferSize' - length data - 1) rs;
          result = cancel_unless (cn_downloading cn (AfterHeader k))
            (if n > 0 then (if interrupted then kError_UserCancel else kError_NoErr) else kError_IOError);
          data' = data @ c
      in if n > 0 \<and> IsntError result \<and> \<not> IsHTTPHeaderComplete (data' @ cn_junk cn) (length data')
         then dl_header cn (k + 1) bufferSize' data' rs' else (result, data', rs', bufferSize'))"
  by auto
termination by (relation "measure (\<lambda>(cn, k, b, data, rs). events_size rs)") (auto dest: Recv_smaller [OF sym])

declare dl_header.simps [simp del]

text \<open>
  The loop that receives the body: whether the last write went well, the file so far, the item, and the number of
  progress messages. Received bytes are counted even when the write failed.
\<close>

function dl_body ::
  "conn \<Rightarrow> nat \<Rightarrow> nat \<Rightarrow> bool \<Rightarrow> recv_event list \<Rightarrow> string \<Rightarrow> download_item \<Rightarrow> nat \<Rightarrow> error \<times> string \<times> download_item \<times> nat" where
  "dl_body cn k bufferSize wok rs content it sent =
     (let (interrupted, n, c, rs') = Recv bufferSize rs;
          got = (\<not> interrupted \<and> n > 0);
          wok' = (if got then cn_write cn (k + 1) else wok);
          content' = (if got \<and> wok' then content @ c else content);
          it' = (if got then it\<lparr>di_received := u32 (nat n + di_received it)\<rparr> else it);
          sent' = (if got then sent + 1 else sent);
          result = cancel_unless (cn_downloading cn (AfterBody k))
            (if \<not> wok' then kError_WriteFile else if n < 0 then kError_IOError
             else if interrupted then kError_UserCancel else kError_NoErr)
      in if n > 0 \<and> IsntError result \<and> cn_run cn k \<and> wok' \<and> di_total it' > di_received it'
         then dl_body cn (k + 1) bufferSize wok' rs' content' it' sent' else (result, content', it', sent'))"
  by auto
termination by (relation "measure (\<lambda>(cn, k, b, w, rs, content, it, sent). events_size rs)") (auto dest: Recv_smaller [OF sym])

declare dl_body.simps [simp del]

definition errno_result :: "errno \<Rightarrow> error" where
  "errno_result e = (case e of EEXIST \<Rightarrow> kError_FileExists | EACCES \<Rightarrow> kError_FileNoAccess | ENOENT \<Rightarrow> kError_FileNotFound
     | EMFILE \<Rightarrow> kError_FileNoHandles | EINVAL \<Rightarrow> kError_FileInvalidArg | EOther \<Rightarrow> kError_UnknownErr)"

text \<open>
  A response of success: unless the code is 206, the item starts over and takes its length and time from the
  header, and the file is truncated. The text is the received data up to a NUL.
\<close>

definition dl_success ::
  "conn \<Rightarrow> nat \<Rightarrow> string \<Rightarrow> recv_event list \<Rightarrow> nat \<Rightarrow> string \<Rightarrow> files \<Rightarrow> download_item \<Rightarrow> (error \<times> files \<times> download_item \<times> nat) option" where
  "dl_success cn returnCode data rs bufferSize path fs it = do {
     let text = c_str data;
     fileSize \<leftarrow> GetContentLengthFromHeader text;
     it1 \<leftarrow> (if returnCode \<noteq> 206 then do {
         mTime \<leftarrow> GetContentTimeFromHeader text;
         Some (it\<lparr>di_received := 0, di_mtime := c_str mTime,
           di_total := (if fileSize > 0 then nat fileSize else di_total it)\<rparr>)
       } else Some it);
     case cn_open cn of
       Some e \<Rightarrow> Some (errno_result e, fs, it1, 0)
     | None \<Rightarrow>
         (let content = (if returnCode \<noteq> 206 then [] else (case fs path of None \<Rightarrow> [] | Some old \<Rightarrow> old));
              first = (case body_start text of None \<Rightarrow> None | Some i \<Rightarrow> (if i < length data then Some (drop i data) else None));
              wok = (case first of None \<Rightarrow> True | Some _ \<Rightarrow> cn_write cn 0);
              content' = (case first of None \<Rightarrow> content | Some b \<Rightarrow> if wok then content @ b else content);
              it2 = (case first of None \<Rightarrow> it1 | Some b \<Rightarrow> it1\<lparr>di_received := u32 (length b + di_received it1)\<rparr>);
              (result, content'', it3, sent) = dl_body cn 0 bufferSize wok rs content' it2 (if first = None then 0 else 1)
          in Some (result, fs(path \<mapsto> content''), it3, sent))
   }"

text \<open>Where a redirection goes: the rest of the line, or in front of the old URL for a proxy.\<close>

definition dl_location :: "nat \<Rightarrow> string \<Rightarrow> download_item \<Rightarrow> download_item option" where
  "dl_location returnCode data it = (case strstr ''Location:'' (c_str data) of
       None \<Rightarrow> None
     | Some i \<Rightarrow>
         (let cp = drop (i + 9) data;
              cp = (if cp \<noteq> [] \<and> hd cp = CHR '' '' then tl cp else cp);
              url = c_str (takeWhile (\<lambda>c. c \<noteq> CHR 0x0D \<and> c \<noteq> CHR 0x0A) cp)
          in Some (it\<lparr>di_src := (if returnCode = 305 then url @ c_str (di_src it) else url)\<rparr>)))"

definition client_error :: "nat \<Rightarrow> error" where
  "client_error returnCode = (if returnCode = 400 then kError_BadHTTPRequest else if returnCode = 401 then kError_AccessNotAuthorized
     else if returnCode = 403 then kError_DownloadDenied else if returnCode = 404 then kError_HTTPFileNotFound
     else kError_UnknownErr)"

text \<open>\<open>Download\<close>: result, files, item, progress messages. Each round of a redirection takes the next connection.\<close>

fun dl_Download :: "dl_env \<Rightarrow> conn list \<Rightarrow> files \<Rightarrow> download_item \<Rightarrow> (error \<times> files \<times> download_item \<times> nat) option" where
  "dl_Download ev [] fs it = None"
| "dl_Download ev (cn # cns) fs it = do {
     path \<leftarrow> dest_path (ev_dir ev) it;
     if (case fs path of None \<Rightarrow> False | Some old \<Rightarrow> length old \<ge> di_total it) then Some (kError_NoErr, fs, it, 0)
     else do {
       (r0, hostname, server, port, res) \<leftarrow> dl_target ev (c_str (di_src it));
       let r1 = dl_connect cn r0;
       if IsError r1 then Some (r1, fs, it, 0)
       else do {
         f \<leftarrow> res;
         (query, it1) \<leftarrow> dl_query (ev_version ev) (fs path \<noteq> None) f hostname it;
         let r2 = dl_send cn query;
         if IsError r2 then Some (r2, fs, it1, 0)
         else do {
           let (r3, data, rs, bufferSize) = dl_header cn 0 2048 [] (cn_recv cn);
           if IsError r3 then Some (r3, fs, it1, 0)
           else do {
             let mem = data @ cn_junk cn;
             status \<leftarrow> vec_at (data @ CHR 0x00 # drop 1 (cn_junk cn)) 9;
             let returnCode = nat (atoi (drop 9 mem) mod 4294967296);
             if status = CHR ''1'' \<or> status = CHR ''2'' then dl_success cn returnCode data rs bufferSize path fs it1
             else if status = CHR ''3'' then
               (case dl_location returnCode data it1 of
                  None \<Rightarrow> Some (kError_NoErr, fs, it1, 0)
                | Some it2 \<Rightarrow> dl_Download ev cns fs it2)
             else if status = CHR ''4'' then
               (if returnCode = 416 then dl_Download ev cns fs (it1\<lparr>di_received := 0\<rparr>)
                else Some (client_error returnCode, fs, it1, 0))
             else if status = CHR ''5'' then Some (kError_UnknownServerError, fs, it1, 0)
             else Some (kError_NoErr, fs, it1, 0)
           }
         }
       }
     }
   }"

text \<open>
  The download of an item of the manager. The other threads may have set its state meanwhile,
  to \<open>left\<close>.
\<close>

definition dm_Download :: "dl_env \<Rightarrow> conn list \<Rightarrow> download_state \<Rightarrow> nat \<Rightarrow> dlm \<Rightarrow> (error \<times> dlm) option" where
  "dm_Download ev cns left p s = do {
     it \<leftarrow> dm_heap s p;
     (result, fs, it', sent) \<leftarrow> dl_Download ev cns (dm_files s) it;
     Some (result, dm_put p (it'\<lparr>di_state := left\<rparr>)
       (s\<lparr>dm_files := fs, dm_events := dm_events s @ replicate sent (ItemProgress p)\<rparr>))
   }"

subsection \<open>Finding text\<close>

lemma has_prefix_nth: "has_prefix pat s \<longleftrightarrow> length pat \<le> length s \<and> (\<forall>j < length pat. s ! j = pat ! j)"
proof
  assume p: "has_prefix pat s"
  then have "length (take (length pat) s) = length pat" by (simp add: has_prefix_def)
  moreover have "s ! j = pat ! j" if "j < length pat" for j
    using p that nth_take [of j "length pat" s] by (simp add: has_prefix_def)
  ultimately show "length pat \<le> length s \<and> (\<forall>j < length pat. s ! j = pat ! j)" by simp
next
  assume "length pat \<le> length s \<and> (\<forall>j < length pat. s ! j = pat ! j)"
  then show "has_prefix pat s" by (auto simp: has_prefix_def intro: nth_equalityI)
qed

lemma strstr_Some: "strstr pat s = Some i \<Longrightarrow> i \<le> length s \<and> has_prefix pat (drop i s)"
  by (induction s arbitrary: i) (auto simp: has_prefix_def split: if_splits)

lemma strstr_le: "has_prefix pat (drop i s) \<Longrightarrow> i \<le> length s \<Longrightarrow> \<exists>j \<le> i. strstr pat s = Some j"
proof (induction s arbitrary: i)
  case Nil
  then show ?case by (simp add: has_prefix_def)
next
  case (Cons c s)
  show ?case
  proof (cases i)
    case 0
    then show ?thesis using Cons.prems by simp
  next
    case (Suc k)
    then obtain j where "j \<le> k" "strstr pat s = Some j" using Cons.IH [of k] Cons.prems by auto
    then show ?thesis using Suc by (cases "has_prefix pat (c # s)") auto
  qed
qed

lemma has_prefix_short: "length pat \<le> length s \<Longrightarrow> has_prefix pat (s @ x) \<longleftrightarrow> has_prefix pat s"
  by (simp add: has_prefix_def)

lemma strstr_append: "strstr pat s = Some i \<Longrightarrow> strstr pat (s @ x) = Some i"
proof (induction s arbitrary: i)
  case Nil
  then show ?case by (cases x) (auto simp: has_prefix_def split: if_splits)
next
  case (Cons c s)
  show ?case
  proof (cases "has_prefix pat (c # s)")
    case True
    then show ?thesis using Cons.prems has_prefix_append [OF True, of x] by simp
  next
    case False
    then obtain k where k: "strstr pat s = Some k" "i = Suc k" using Cons.prems by auto
    then have "length pat \<le> length s" using strstr_Some [of pat s k] by (auto simp: has_prefix_nth)
    then have "\<not> has_prefix pat (c # s @ x)" using False has_prefix_short [of pat "c # s" x] by simp
    then show ?thesis using Cons.IH [OF k(1)] k(2) by simp
  qed
qed

lemma strstr_prefix_None: "strstr pat (s @ x) = None \<Longrightarrow> strstr pat s = None"
  using strstr_append [of pat s _ x] by (cases "strstr pat s") auto

text \<open>A pattern without the character \<open>c\<close> does not reach across it.\<close>

lemma strstr_skip:
  assumes "c \<notin> set pat" and "pat \<noteq> []"
  shows "strstr pat l = None \<Longrightarrow> strstr pat (l @ c # x) = map_option (\<lambda>i. length l + 1 + i) (strstr pat x)"
proof (induction l)
  case Nil
  have "\<not> has_prefix pat (c # x)" using assms by (cases pat) (auto simp: has_prefix_def)
  then show ?case by simp
next
  case (Cons d l)
  have "\<not> has_prefix pat (d # l @ c # x)"
  proof
    assume p: "has_prefix pat (d # l @ c # x)"
    have "length pat \<le> length (d # l)"
    proof (rule ccontr)
      assume "\<not> length pat \<le> length (d # l)"
      then have "((d # l) @ c # x) ! length (d # l) = pat ! length (d # l)"
        using p unfolding has_prefix_nth append_Cons by (metis not_le)
      then have "c = pat ! length (d # l)" by (simp only: nth_append_length)
      then show False using assms(1) \<open>\<not> length pat \<le> length (d # l)\<close> nth_mem [of "length (d # l)" pat] by simp
    qed
    then have "has_prefix pat (d # l)" using p has_prefix_short [of pat "d # l" "c # x"] by simp
    then show False using Cons.prems by simp
  qed
  moreover have "strstr pat l = None" using Cons.prems by (auto split: if_splits)
  ultimately show ?case using Cons.IH by (simp add: option.map_comp comp_def)
qed

lemma strstr_first:
  "hd pat \<notin> set l \<Longrightarrow> pat \<noteq> [] \<Longrightarrow> strstr pat (l @ y) = map_option (\<lambda>i. length l + i) (strstr pat y)"
proof (induction l)
  case Nil
  then show ?case by (simp add: option.map_ident)
next
  case (Cons c l)
  have "\<not> has_prefix pat (c # l @ y)" using Cons.prems by (cases pat) (auto simp: has_prefix_def)
  then show ?case using Cons by (simp add: option.map_comp comp_def)
qed

subsection \<open>The header of a response\<close>

definition header_text :: "string list \<Rightarrow> string" where
  "header_text ls = concat (map (\<lambda>l. l @ crlf) ls) @ crlf"

definition plain_line :: "string \<Rightarrow> bool" where
  "plain_line l \<longleftrightarrow> l \<noteq> [] \<and> CHR 0x0D \<notin> set l \<and> CHR 0x0A \<notin> set l \<and> CHR 0x00 \<notin> set l"

text \<open>A response: its code and reason, other lines, and the length of the body.\<close>

definition response_head :: "nat \<Rightarrow> string \<Rightarrow> string list \<Rightarrow> nat \<Rightarrow> string" where
  "response_head code reason lines n =
     header_text ((''HTTP/1.1 '' @ decimal code @ CHR '' '' # reason) # lines @ [''Content-Length: '' @ decimal n])"

definition response_ok :: "string \<Rightarrow> string list \<Rightarrow> bool" where
  "response_ok reason lines \<longleftrightarrow> CHR 0x0D \<notin> set reason \<and> CHR 0x0A \<notin> set reason \<and> CHR 0x00 \<notin> set reason \<and>
     strstr ''Content-Length:'' reason = None \<and> (\<forall>l \<in> set lines. plain_line l \<and> strstr ''Content-Length:'' l = None)"

lemma header_text_Cons: "header_text (l # ls) = l @ crlf @ header_text ls"
  by (simp add: header_text_def)

lemma header_text_hd: "\<forall>l \<in> set ls. plain_line l \<Longrightarrow> ls \<noteq> [] \<Longrightarrow> hd (header_text ls) \<notin> {CHR 0x0D, CHR 0x0A}"
  by (cases ls; cases "hd ls") (auto simp: header_text_def plain_line_def)

lemma blank_line_crlf:
  "\<forall>l \<in> set ls. plain_line l \<Longrightarrow> ls \<noteq> [] \<Longrightarrow> strstr (crlf @ crlf) (header_text ls) = Some (length (header_text ls) - 4)"
proof (induction ls)
  case (Cons l ls)
  have l: "CHR 0x0D \<notin> set l" using Cons.prems by (simp add: plain_line_def)
  have *: "strstr (crlf @ crlf) (header_text (l # ls)) = map_option (\<lambda>i. length l + i) (strstr (crlf @ crlf) (crlf @ header_text ls))"
    using l unfolding header_text_Cons by (intro strstr_first) simp_all
  show ?case
  proof (cases "ls = []")
    case True
    then show ?thesis unfolding * by (simp add: header_text_def has_prefix_def)
  next
    case False
    have hd: "hd (header_text ls) \<noteq> CHR 0x0D" using header_text_hd [of ls] Cons.prems False by auto
    obtain c t where ct: "header_text ls = c # t" by (cases "header_text ls") (auto simp: header_text_def)
    have len: "4 \<le> length (header_text ls)" using False Cons.prems
      by (cases ls; cases "hd ls") (auto simp: header_text_def plain_line_def)
    have "strstr (crlf @ crlf) (crlf @ header_text ls) = Some (length (header_text ls) - 2)"
      using Cons.IH Cons.prems False hd len ct by (auto simp: has_prefix_def)
    moreover have "length (header_text (l # ls)) = length l + 2 + length (header_text ls)" by (simp add: header_text_Cons)
    ultimately show ?thesis unfolding * using len by (simp only: option.map) simp
  qed
qed simp

lemma no_blank_lf:
  "\<forall>l \<in> set ls. plain_line l \<Longrightarrow> strstr [CHR 0x0A, CHR 0x0A] (CHR 0x0A # x) = None \<Longrightarrow>
   strstr [CHR 0x0A, CHR 0x0A] (header_text ls @ x) = None"
proof (induction ls)
  case Nil
  then show ?case by (simp add: header_text_def has_prefix_def)
next
  case (Cons l ls)
  have "strstr [CHR 0x0A, CHR 0x0A] ((l @ [CHR 0x0D]) @ CHR 0x0A # header_text ls @ x) =
      map_option (\<lambda>i. length (l @ [CHR 0x0D]) + i) (strstr [CHR 0x0A, CHR 0x0A] (CHR 0x0A # header_text ls @ x))"
    using Cons.prems by (intro strstr_first) (auto simp: plain_line_def)
  moreover obtain c t where ct: "header_text ls = c # t" by (cases "header_text ls") (auto simp: header_text_def)
  have "hd (header_text ls) \<noteq> CHR 0x0A"
    using header_text_hd [of ls] Cons.prems by (cases "ls = []") (auto simp: header_text_def)
  then have "\<not> has_prefix [CHR 0x0A, CHR 0x0A] (CHR 0x0A # header_text ls @ x)"
    by (simp add: has_prefix_def ct)
  ultimately show ?case using Cons.IH Cons.prems by (simp add: header_text_Cons)
qed

lemma content_length_at:
  "\<forall>l \<in> set ls. strstr ''Content-Length:'' l = None \<Longrightarrow>
   strstr ''Content-Length:'' (concat (map (\<lambda>l. l @ crlf) ls) @ ''Content-Length:'' @ x) = Some (length (concat (map (\<lambda>l. l @ crlf) ls)))"
proof (induction ls)
  case Nil
  then show ?case by (simp add: has_prefix_def)
next
  case (Cons l ls)
  let ?y = "concat (map (\<lambda>l. l @ crlf) ls) @ ''Content-Length:'' @ x"
  have "strstr ''Content-Length:'' (l @ CHR 0x0D # CHR 0x0A # ?y) =
      map_option (\<lambda>i. length l + 1 + i) (strstr ''Content-Length:'' (CHR 0x0A # ?y))"
    using Cons.prems by (intro strstr_skip) simp_all
  moreover have "strstr ''Content-Length:'' (CHR 0x0A # ?y) = map_option Suc (strstr ''Content-Length:'' ?y)"
    by (simp add: has_prefix_def)
  ultimately show ?case using Cons by simp
qed

text \<open>The header ends where the first empty line ends, and the test finds that, whatever lies behind the bytes received.\<close>

definition ends_header :: "string \<Rightarrow> bool" where
  "ends_header h \<longleftrightarrow> 4 \<le> length h \<and> strstr (crlf @ crlf) h = Some (length h - 4) \<and> strstr [CHR 0x0A, CHR 0x0A] h = None"

lemma prefix_in_data:
  assumes p: "has_prefix pat (drop i (data @ junk))" and last: "pat \<noteq> []" "last pat \<notin> set junk" and i: "i < length data"
  shows "i + length pat \<le> length data" and "has_prefix pat (drop i data)"
proof -
  have len: "i + length pat \<le> length (data @ junk)" using p i last(1) by (auto simp: has_prefix_nth)
  let ?j = "length pat - 1"
  have "(data @ junk) ! (i + ?j) = last pat" using p last(1) i
    by (simp add: has_prefix_nth last_conv_nth del: drop_append)
  moreover have "junk ! (i + ?j - length data) \<in> set junk" if "\<not> i + ?j < length data"
    using that len last(1) by (intro nth_mem) (cases pat; simp)
  ultimately have "i + ?j < length data" using last(2) by (auto simp: nth_append split: if_splits)
  then show "i + length pat \<le> length data" using last(1) by (cases pat) auto
  then have "length pat \<le> length (drop i data)" using i by simp
  then show "has_prefix pat (drop i data)" using p i by (simp add: has_prefix_short)
qed

lemma header_complete_iff:
  assumes h: "ends_header h" and data: "data @ rest = h @ body" and junk: "CHR 0x0A \<notin> set junk"
  shows "IsHTTPHeaderComplete (data @ junk) (length data) \<longleftrightarrow> length h \<le> length data"
proof
  assume "length h \<le> length data"
  then obtain x where x: "data = h @ x" using data by (metis append_eq_append_conv_if append_take_drop_id)
  have "has_prefix (crlf @ crlf) (drop (length h - 4) h)" using h strstr_Some [of "crlf @ crlf" h] by (auto simp: ends_header_def)
  then have "has_prefix (crlf @ crlf) (drop (length h - 4) h @ x @ junk)" by (rule has_prefix_append)
  then have "has_prefix (crlf @ crlf) (drop (length h - 4) (data @ junk))" using h by (simp add: x ends_header_def)
  moreover have "length h - 4 < length data" using h by (auto simp: ends_header_def x)
  ultimately show "IsHTTPHeaderComplete (data @ junk) (length data)" unfolding IsHTTPHeaderComplete_def
    by (intro bexI [of _ "length h - 4"]) auto
next
  assume "IsHTTPHeaderComplete (data @ junk) (length data)"
  then obtain i pat where i: "i < length data" "has_prefix pat (drop i (data @ junk))"
      and pat: "pat = [CHR 0x0A, CHR 0x0A] \<or> pat = crlf @ crlf"
    unfolding IsHTTPHeaderComplete_def by auto
  show "length h \<le> length data"
  proof (rule ccontr)
    assume "\<not> length h \<le> length data"
    then obtain y where y: "h = data @ y" using data by (metis append_eq_append_conv_if append_take_drop_id nat_le_linear)
    have in_data: "i + length pat \<le> length data" "has_prefix pat (drop i data)"
      using prefix_in_data [OF i(2) _ _ i(1)] pat junk by auto
    then have "has_prefix pat (drop i h)" using i(1) has_prefix_append [of pat "drop i data" y] by (simp add: y)
    then obtain j where "j \<le> i" "strstr pat h = Some j" using strstr_le [of pat i h] i(1) y by auto
    then show False using h pat in_data \<open>\<not> length h \<le> length data\<close> by (auto simp: ends_header_def)
  qed
qed

lemma response_lines:
  "response_ok reason lines \<Longrightarrow>
   \<forall>l \<in> set ((''HTTP/1.1 '' @ decimal code @ CHR '' '' # reason) # lines @ [''Content-Length: '' @ decimal n]). plain_line l"
  using decimal_no [of code] decimal_no [of n] by (auto simp: response_ok_def plain_line_def)

lemma response_ends: "response_ok reason lines \<Longrightarrow> ends_header (response_head code reason lines n)"
proof -
  assume ok: "response_ok reason lines"
  let ?ls = "(''HTTP/1.1 '' @ decimal code @ CHR '' '' # reason) # lines @ [''Content-Length: '' @ decimal n]"
  note plain = response_lines [OF ok, of code n]
  have "strstr (crlf @ crlf) (header_text ?ls) = Some (length (header_text ?ls) - 4)" by (rule blank_line_crlf [OF plain]) simp
  moreover have "strstr [CHR 0x0A, CHR 0x0A] (header_text ?ls @ []) = None" by (rule no_blank_lf [OF plain]) (simp add: has_prefix_def)
  ultimately show ?thesis by (simp add: ends_header_def response_head_def) (simp add: header_text_def)
qed

lemma response_code: "\<exists>r. response_head code reason lines n = ''HTTP/1.1 '' @ decimal code @ CHR '' '' # r"
  by (simp add: response_head_def header_text_def)

lemma drop_label: "drop (length a + 16) (a @ ''Content-Length:'' @ c # y) = y"
  by simp

lemma response_length:
  assumes ok: "response_ok reason lines" and n: "n < 2147483648"
  shows "GetContentLengthFromHeader (response_head code reason lines n @ x) = Some (int n)"
proof -
  let ?ls = "(''HTTP/1.1 '' @ decimal code @ CHR '' '' # reason) # lines"
  let ?a = "concat (map (\<lambda>l. l @ crlf) ?ls)"
  have "strstr ''Content-Length:'' (''HTTP/1.1 '' @ decimal code @ CHR '' '' # reason) = None"
  proof -
    have "CHR ''C'' \<notin> set (''HTTP/1.1 '' @ decimal code @ [CHR '' ''])"
      using decimal_digits [of code] by (auto simp: c_isdigit_def byte_of_def)
    then have "strstr ''Content-Length:'' ((''HTTP/1.1 '' @ decimal code @ [CHR '' '']) @ reason) =
        map_option (\<lambda>i. length (''HTTP/1.1 '' @ decimal code @ [CHR '' '']) + i) (strstr ''Content-Length:'' reason)"
      by (intro strstr_first) simp_all
    then show ?thesis using ok by (simp add: response_ok_def)
  qed
  then have cl: "\<forall>l \<in> set ?ls. strstr ''Content-Length:'' l = None" using ok by (simp add: response_ok_def)
  have whole: "response_head code reason lines n @ x = ?a @ ''Content-Length:'' @ CHR '' '' # decimal n @ crlf @ crlf @ x"
    by (simp add: response_head_def header_text_def)
  have "strstr ''Content-Length:'' (response_head code reason lines n @ x) = Some (length ?a)"
    unfolding whole by (rule content_length_at [OF cl])
  moreover have "drop (length ?a + 16) (response_head code reason lines n @ x) = decimal n @ crlf @ crlf @ x"
    unfolding whole by (rule drop_label)
  moreover have "length ?a + 16 \<le> length (response_head code reason lines n @ x)" unfolding whole by simp
  moreover have "atoi (decimal n @ crlf @ crlf @ x) = int n" using n by (intro atoi_decimal_rest) (simp_all add: c_isdigit_def byte_of_def)
  ultimately show ?thesis by (simp add: GetContentLengthFromHeader_def del: append_assoc)
qed

subsection \<open>What a download leaves behind\<close>

text \<open>
  A connection on which nothing fails and nobody interferes: the bytes come in the chunks \<open>cs\<close>, and
  then the server closes.
\<close>

definition smooth :: "string \<Rightarrow> string list \<Rightarrow> conn" where
  "smooth junk cs = \<lparr>cn_resolves = True, cn_socket = True, cn_connect = (False, 0), cn_send = (\<lambda>n. (False, int n)),
     cn_recv = map Chunk cs, cn_junk = junk, cn_downloading = (\<lambda>_. True), cn_run = (\<lambda>_. True), cn_open = None,
     cn_write = (\<lambda>_. True)\<rparr>"

lemma smooth_simps [simp]:
  "cn_resolves (smooth junk cs)" "cn_socket (smooth junk cs)" "cn_connect (smooth junk cs) = (False, 0)"
  "cn_send (smooth junk cs) n = (False, int n)" "cn_recv (smooth junk cs) = map Chunk cs" "cn_junk (smooth junk cs) = junk"
  "cn_downloading (smooth junk cs) c" "cn_run (smooth junk cs) k" "cn_open (smooth junk cs) = None" "cn_write (smooth junk cs) k"
  by (simp_all add: smooth_def)

lemma Recv_chunks:
  assumes "\<forall>c \<in> set cs. c \<noteq> []" and "0 < n" and "cs \<noteq> []"
  obtains c cs' where "Recv n (map Chunk cs) = (False, int (length c), c, map Chunk cs')" "c \<noteq> []" "length c \<le> n"
    "concat cs = c @ concat cs'" "\<forall>c \<in> set cs'. c \<noteq> []"
proof -
  obtain d ds where cs: "cs = d # ds" using assms(3) by (cases cs) auto
  show thesis
  proof (cases "length d \<le> n")
    case True
    then show thesis using that [of d ds] assms cs by simp
  next
    case False
    then show thesis using that [of "take n d" "drop n d # ds"] assms cs by (simp add: min_def)
  qed
qed

lemma dl_body_smooth:
  assumes "\<forall>c \<in> set cs. c \<noteq> []" and "0 < bufferSize"
    and "di_received it + length (concat cs) \<le> di_total it" and "di_total it \<le> kInvalidIndex"
  shows "\<exists>sent'. dl_body (smooth junk all) k bufferSize True (map Chunk cs) content it sent =
    (kError_NoErr, content @ concat cs, it\<lparr>di_received := di_received it + length (concat cs)\<rparr>, sent')"
  using assms
proof (induction "length (concat cs)" arbitrary: cs k content it sent rule: less_induct)
  case less
  show ?case
  proof (cases "cs = []")
    case True
    then show ?thesis by (subst dl_body.simps) (simp add: cancel_unless_def)
  next
    case False
    then obtain c cs' where r: "Recv bufferSize (map Chunk cs) = (False, int (length c), c, map Chunk cs')" "c \<noteq> []"
        "concat cs = c @ concat cs'" "\<forall>c \<in> set cs'. c \<noteq> []"
      using Recv_chunks [OF less.prems(1,2)] by metis
    let ?it = "it\<lparr>di_received := di_received it + length c\<rparr>"
    have u: "u32 (length c + di_received it) = di_received it + length c" using less.prems r(3) by (simp add: add.commute)
    have step: "dl_body (smooth junk all) k bufferSize True (map Chunk cs) content it sent =
      (if di_total it > di_received it + length c
       then dl_body (smooth junk all) (k + 1) bufferSize True (map Chunk cs') (content @ c) ?it (sent + 1)
       else (kError_NoErr, content @ c, ?it, sent + 1))"
      using r(1,2) u by (subst dl_body.simps) (simp add: cancel_unless_def)
    show ?thesis
    proof (cases "di_total it > di_received it + length c")
      case True
      have "length (concat cs') < length (concat cs)" using r by simp
      then obtain sent' where "dl_body (smooth junk all) (k + 1) bufferSize True (map Chunk cs') (content @ c) ?it (sent + 1) =
          (kError_NoErr, (content @ c) @ concat cs', ?it\<lparr>di_received := di_received ?it + length (concat cs')\<rparr>, sent')"
        using less.hyps [of cs' ?it "k + 1" "content @ c" "sent + 1"] less.prems r by auto
      then show ?thesis using step True r(3) by (simp add: add.assoc)
    next
      case False
      moreover have "length (concat cs) = length c + length (concat cs')" by (simp only: r(3) length_append)
      ultimately have "length (concat cs') = 0" using less.prems(3) by linarith
      then have "concat cs' = []" by (simp only: length_0_conv)
      then show ?thesis using step False r(3) by simp
    qed
  qed
qed

lemma dl_header_smooth:
  assumes "\<forall>c \<in> set cs. c \<noteq> []" and "ends_header h" and "data @ concat cs = h @ body" and "CHR 0x0A \<notin> set junk"
    and "length data < length h" and "2 \<le> bufferSize" and "length data < bufferSize"
  shows "\<exists>data' cs' b'. dl_header (smooth junk all) k bufferSize data (map Chunk cs) = (kError_NoErr, data', map Chunk cs', b') \<and>
    data' @ concat cs' = h @ body \<and> length h \<le> length data' \<and> (\<forall>c \<in> set cs'. c \<noteq> []) \<and> 0 < b'"
  using assms
proof (induction "length (concat cs)" arbitrary: cs k data bufferSize rule: less_induct)
  case less
  let ?b = "if length data \<ge> bufferSize - 1 then bufferSize * 2 else bufferSize"
  have ne: "cs \<noteq> []" using less.prems by (auto simp: append_eq_append_conv2)
  have room: "0 < ?b - length data - 1" "length data < ?b" using less.prems(6,7) by auto
  obtain c cs' where r: "Recv (?b - length data - 1) (map Chunk cs) = (False, int (length c), c, map Chunk cs')" "c \<noteq> []"
      "length c \<le> ?b - length data - 1" "concat cs = c @ concat cs'" "\<forall>c \<in> set cs'. c \<noteq> []"
    using Recv_chunks [OF less.prems(1) room(1) ne] by metis
  have data: "(data @ c) @ concat cs' = h @ body" using less.prems(3) r(4) by simp
  have step: "dl_header (smooth junk all) k bufferSize data (map Chunk cs) =
    (if \<not> length h \<le> length (data @ c) then dl_header (smooth junk all) (k + 1) ?b (data @ c) (map Chunk cs')
     else (kError_NoErr, data @ c, map Chunk cs', ?b))"
    using r(1,2) header_complete_iff [OF less.prems(2) data less.prems(4)]
    by (subst dl_header.simps) (simp add: cancel_unless_def Let_def)
  show ?case
  proof (cases "length h \<le> length (data @ c)")
    case True
    then show ?thesis using step data r(5) room by (intro exI [of _ "data @ c"] exI [of _ cs'] exI [of _ ?b]) auto
  next
    case False
    have "length (concat cs') < length (concat cs)" "2 \<le> ?b" "length (data @ c) < ?b"
      using r room less.prems(6) by auto
    from less.hyps [OF this(1) r(5) less.prems(2) data less.prems(4) _ this(2,3)] False show ?thesis
      unfolding step by simp
  qed
qed

lemma c_str_prefix: "\<exists>y. c_str (b @ x) = c_str b @ y"
proof (cases "CHR 0x00 \<in> set b")
  case True
  then have "c_str (b @ x) = c_str b" unfolding c_str_def by (intro takeWhile_append1) auto
  then show ?thesis by (intro exI [of _ "[]"]) simp
next
  case False
  then have "c_str b = b" by (rule c_str_id)
  moreover have "c_str (b @ x) = b @ c_str x" unfolding c_str_def using False by (intro takeWhile_append2) auto
  ultimately show ?thesis by (intro exI [of _ "c_str x"]) simp
qed

lemma response_no_nul: "response_ok reason lines \<Longrightarrow> CHR 0x00 \<notin> set (response_head code reason lines n)"
  using response_lines [of reason lines code n] by (auto simp: response_head_def header_text_def plain_line_def)

lemma response_text:
  "response_ok reason lines \<Longrightarrow> c_str (response_head code reason lines n @ b) = response_head code reason lines n @ c_str b"
  unfolding c_str_def using response_no_nul [of reason lines code n] by (intro takeWhile_append2) auto

lemma response_body_start:
  assumes ok: "response_ok reason lines" and body: "strstr [CHR 0x0A, CHR 0x0A] (CHR 0x0A # c_str (b @ x)) = None"
  shows "body_start (response_head code reason lines n @ c_str b) = Some (length (response_head code reason lines n))"
proof -
  obtain y where y: "c_str (b @ x) = c_str b @ y" using c_str_prefix by blast
  have "strstr [CHR 0x0A, CHR 0x0A] (CHR 0x0A # c_str b) = None"
    using body strstr_prefix_None [of _ "CHR 0x0A # c_str b" y] by (simp add: y)
  then have "strstr [CHR 0x0A, CHR 0x0A] (response_head code reason lines n @ c_str b) = None"
    unfolding response_head_def by (rule no_blank_lf [OF response_lines [OF ok]])
  moreover have "strstr (crlf @ crlf) (response_head code reason lines n @ c_str b) = Some (length (response_head code reason lines n) - 4)"
    using response_ends [OF ok] by (intro strstr_append) (simp add: ends_header_def)
  ultimately show ?thesis using response_ends [OF ok, of code n] by (simp add: body_start_def ends_header_def)
qed

lemma response_time:
  assumes body: "strstr ''Last-Modified:'' (c_str (b @ x)) = None"
  shows "\<exists>t. GetContentTimeFromHeader (response_head code reason lines n @ c_str b) = Some t"
proof -
  obtain y where y: "c_str (b @ x) = c_str b @ y" using c_str_prefix by blast
  obtain r where h: "response_head code reason lines n = r @ [CHR 0x0A]"
    by (simp add: response_head_def header_text_def)
  show ?thesis
  proof (cases "strstr ''Last-Modified:'' r")
    case None
    have "strstr ''Last-Modified:'' (r @ CHR 0x0A # c_str b) = map_option (\<lambda>i. length r + 1 + i) (strstr ''Last-Modified:'' (c_str b))"
      using None by (intro strstr_skip) simp_all
    moreover have "strstr ''Last-Modified:'' (c_str b) = None" using body strstr_prefix_None [of _ "c_str b" y] by (simp add: y)
    ultimately show ?thesis by (simp add: GetContentTimeFromHeader_def h)
  next
    case (Some i)
    then have "i + 14 \<le> length r" using strstr_Some [of "''Last-Modified:''" r i] by (auto simp: has_prefix_nth)
    moreover have "strstr ''Last-Modified:'' (r @ CHR 0x0A # c_str b) = Some i" by (rule strstr_append [OF Some])
    ultimately show ?thesis by (simp add: GetContentTimeFromHeader_def h)
  qed
qed

lemma dl_query_item:
  "dl_query v e res h it = Some (q, it1) \<Longrightarrow> di_total it1 = di_total it \<and> di_src it1 = di_src it \<and> di_dest it1 = di_dest it \<and>
   di_received it1 = (if e then di_received it else 0)"
  by (auto simp: dl_query_def Let_def split: if_splits)

text \<open>The success branch on a response that began with the header and \<open>b\<close>, the rest coming in chunks.\<close>

lemma dl_success_smooth:
  assumes ok: "response_ok reason lines" and n: "n < 2147483648"
    and body: "strstr [CHR 0x0A, CHR 0x0A] (CHR 0x0A # c_str (b @ concat cs')) = None" "strstr ''Last-Modified:'' (c_str (b @ concat cs')) = None"
    and cs: "\<forall>c \<in> set cs'. c \<noteq> []" "0 < bufferSize"
    and start: "start = (if code \<noteq> 206 then 0 else di_received it)"
    and total: "tot = (if code \<noteq> 206 \<and> 0 < n then n else di_total it)" "start + length (b @ concat cs') \<le> tot" "tot \<le> kInvalidIndex"
    and base: "base = (if code \<noteq> 206 then [] else (case fs path of None \<Rightarrow> [] | Some old \<Rightarrow> old))"
  shows "\<exists>it' sent. dl_success (smooth junk all) code (response_head code' reason lines n @ b) (map Chunk cs') bufferSize path fs it =
      Some (kError_NoErr, fs(path \<mapsto> base @ b @ concat cs'), it', sent) \<and>
    di_received it' = start + length (b @ concat cs') \<and> di_total it' = tot \<and> di_src it' = di_src it \<and> di_dest it' = di_dest it"
proof -
  let ?h = "response_head code' reason lines n"
  obtain t where t: "GetContentTimeFromHeader (?h @ c_str b) = Some t" using response_time [OF body(2)] by blast
  define it1 where "it1 = (if code \<noteq> 206 then it\<lparr>di_received := 0, di_mtime := c_str t,
      di_total := (if int n > 0 then nat (int n) else di_total it)\<rparr> else it)"
  have it1: "di_received it1 = start" "di_total it1 = tot" "di_src it1 = di_src it" "di_dest it1 = di_dest it"
    using start total(1) by (auto simp: it1_def)
  define it2 where "it2 = it1\<lparr>di_received := start + length b\<rparr>"
  have u: "u32 (length b + di_received it1) = start + length b" using total it1 by (simp add: add.commute)
  obtain sent' where loop: "dl_body (smooth junk all) 0 bufferSize True (map Chunk cs') (base @ b) it2 (if b = [] then 0 else 1) =
      (kError_NoErr, (base @ b) @ concat cs', it2\<lparr>di_received := di_received it2 + length (concat cs')\<rparr>, sent')"
    using dl_body_smooth [of cs' bufferSize it2 junk all 0 "base @ b"] cs total it1 by (auto simp: it2_def)
  define data and seen where "data = ?h @ b" and "seen = ?h @ c_str b"
  have facts: "c_str data = seen" "GetContentLengthFromHeader seen = Some (int n)" "GetContentTimeFromHeader seen = Some t"
    "body_start seen = Some (length ?h)" "length ?h < length data \<longleftrightarrow> b \<noteq> []" "drop (length ?h) data = b"
    using response_text [OF ok, of code' n b] response_length [OF ok n, of code' "c_str b"] t
      response_body_start [OF ok body(1), of code' n] by (simp_all add: data_def seen_def)
  have "dl_success (smooth junk all) code data (map Chunk cs') bufferSize path fs it =
      (let (result, content'', it3, sent) = dl_body (smooth junk all) 0 bufferSize True (map Chunk cs') (base @ b) it2 (if b = [] then 0 else 1)
       in Some (result, fs(path \<mapsto> content''), it3, sent))"
  proof (cases "b = []")
    case True
    then have "it2 = it1" using it1(1) by (simp add: it2_def)
    then show ?thesis using True facts by (cases "code = 206") (simp_all add: dl_success_def it1_def base)
  next
    case False
    have "it2 = it1\<lparr>di_received := u32 (length b + di_received it1)\<rparr>" by (simp add: it2_def u)
    then show ?thesis using False facts by (cases "code = 206") (simp_all add: dl_success_def it1_def base)
  qed
  then have "dl_success (smooth junk all) code (?h @ b) (map Chunk cs') bufferSize path fs it =
      Some (kError_NoErr, fs(path \<mapsto> (base @ b) @ concat cs'), it2\<lparr>di_received := di_received it2 + length (concat cs')\<rparr>, sent')"
    by (simp add: loop data_def)
  then show ?thesis using it1 by (auto simp: it2_def)
qed

lemma response_status:
  assumes code: "code \<in> {200, 206}" and h: "h = response_head code reason lines n" and data: "data = h @ b"
  shows "vec_at (data @ CHR 0x00 # y) 9 = Some (CHR ''2'')" and "atoi (drop 9 (data @ junk)) = int code"
proof -
  obtain r where r: "h = ''HTTP/1.1 '' @ decimal code @ CHR '' '' # r" using response_code h by blast
  have d: "decimal 200 = ''200''" "decimal 206 = ''206''" by code_simp+
  show "vec_at (data @ CHR 0x00 # y) 9 = Some (CHR ''2'')" using code r data d by (auto simp: vec_at_def)
  have "atoi (decimal code @ CHR '' '' # r @ b @ junk) = int code"
    using code by (intro atoi_decimal_rest) (auto simp: c_isdigit_def byte_of_def)
  then show "atoi (drop 9 (data @ junk)) = int code" using r data by simp
qed

lemma smooth_connects:
  "dl_connect (smooth junk cs) kError_NoErr = kError_NoErr" "dl_send (smooth junk cs) query = kError_NoErr"
  by (simp_all add: dl_connect_def dl_send_def cancel_unless_def Let_def)


definition demo_env :: dl_env where
  "demo_env = \<lparr>ev_dir = ''/m'', ev_proxy = None, ev_version = ''2''\<rparr>"

definition demo_item :: download_item where
  "demo_item = new_download ''http://h/x'' (Some ''x'') None"

lemma demo_request:
  "dest_path (ev_dir demo_env) demo_item = Some ''/m/x''"
  "dl_target demo_env (c_str (di_src demo_item)) = Some (kError_NoErr, ''h'', ''h'', 80, Some ''/x'')"
  "\<exists>q. dl_query (ev_version demo_env) False ''/x'' ''h'' demo_item = Some (q, demo_item)"
  by (simp_all add: demo_env_def demo_item_def new_download_def empty_download_def dest_path_def dl_target_def has_prefix_ci_def
      lower_byte_def byte_of_def scan_host_port_def has_prefix_def dl_query_def request_head_def Let_def)

lemma demo_response: "response_ok ''OK'' [''A: b'']"
  by (simp add: response_ok_def plain_line_def has_prefix_def)


text \<open>
  A body that holds an empty line of newlines is not stored as it is: when the text received so far
  contains one, everything up to it is lost, although the header ended before, and the result
  is still no error.
\<close>

theorem dl_loses_text:
  "\<exists>it' sent. dl_Download demo_env [smooth [] [response_head 200 ''OK'' [] 4 @ [CHR ''a'', CHR 0x0A, CHR 0x0A, CHR ''b'']]]
     Map.empty demo_item = Some (kError_NoErr, [''/m/x'' \<mapsto> ''b''], it', sent) \<and> di_received it' = 1 \<and> di_total it' = 4"
proof -
  let ?b = "[CHR ''a'', CHR 0x0A, CHR 0x0A, CHR ''b'']"
  let ?t = "response_head 200 ''OK'' [] 4 @ ?b"
  have ok: "response_ok ''OK'' []" by (simp add: response_ok_def has_prefix_def)
  have d: "decimal 200 = ''200''" "decimal 4 = ''4''" by code_simp+
  then have len: "length ?t = 42" "length (response_head 200 ''OK'' [] 4) = 38" by (simp_all add: response_head_def header_text_def)
  have "IsHTTPHeaderComplete (?t @ []) (length ?t)"
    using header_complete_iff [OF response_ends [OF ok], of ?t "[]" 200 4 ?b "[]"] len by simp
  then have hdr: "dl_header (smooth [] [?t]) 0 2048 [] [Chunk ?t] = (kError_NoErr, ?t, [], 2048)"
    using len by (subst dl_header.simps) (simp add: cancel_unless_def del: append_assoc)
  have whole: "c_str ?t = ?t" using response_text [OF ok, of 200 4 ?b] by simp
  have at: "body_start ?t = Some 41" "GetContentTimeFromHeader ?t = Some []"
    by (simp_all add: body_start_def GetContentTimeFromHeader_def response_head_def header_text_def d has_prefix_def)
  have drop: "drop 41 ?t = ''b''" using len(2) by (simp add: drop_append)
  have loop: "dl_body (smooth [] [?t]) 0 2048 True [] ''b'' it (Suc 0) = (kError_NoErr, ''b'', it, Suc 0)" for it
    by (subst dl_body.simps) (simp add: cancel_unless_def)
  have gl: "GetContentLengthFromHeader ?t = Some 4" using response_length [OF ok, of 4 200 ?b] by simp
  have suc: "dl_success (smooth [] [?t]) 200 ?t [] 2048 ''/m/x'' Map.empty demo_item =
      Some (kError_NoErr, [''/m/x'' \<mapsto> ''b''], demo_item\<lparr>di_mtime := [], di_received := 1, di_total := 4\<rparr>, 1)"
    using len(1) unfolding dl_success_def whole by (simp add: at gl drop loop del: append_assoc)
  obtain q where q: "dl_query (ev_version demo_env) False ''/x'' ''h'' demo_item = Some (q, demo_item)"
    using demo_request(3) by auto
  have st: "vec_at (?t @ CHR 0x00 # y) 9 = Some (CHR ''2'')" "atoi (drop 9 (?t @ [])) = 200" for y
    using response_status(1) [where code = 200 and reason = "''OK''" and lines = "[]" and n = 4 and data = ?t and b = ?b]
      response_status(2) [where code = 200 and reason = "''OK''" and lines = "[]" and n = 4 and data = ?t and b = ?b and junk = "[]"]
    by simp_all
  show ?thesis
    using demo_request(1,2) q hdr st suc by (simp add: smooth_connects del: append_assoc)
qed

end
