(* ===== verification/DownloadThread.thy ===== *)
theory DownloadThread
  imports DownloadHttp
begin

section \<open>The download manager: the thread\<close>

text \<open>
  The contract between the thread's loop and \<open>Download\<close>, as a locale: a download leaves the list, the
  other items and the catalog alone. What a round of the thread does with the item is proved from
  it, and holds for \<open>Download\<close> itself by interpretation.
\<close>

locale downloader =
  fixes download :: "nat \<Rightarrow> dlm \<Rightarrow> (error \<times> dlm) option"
  assumes items: "download p s = Some (r, s') \<Longrightarrow> dm_items s' = dm_items s"
    and others: "download p s = Some (r, s') \<Longrightarrow> q \<noteq> p \<Longrightarrow> dm_heap s' q = dm_heap s q"
    and submitted: "download p s = Some (r, s') \<Longrightarrow> dm_submitted s' = dm_submitted s"

text \<open>The state an item ends in, and whether what was stored of it is removed.\<close>

definition final_state :: "error \<Rightarrow> download_state \<Rightarrow> download_state" where
  "final_state r left = (if r = kError_NoErr then kDownloadItemState_Done
     else if r = kError_UserCancel then left else kDownloadItemState_Error)"

definition removed :: "error \<Rightarrow> download_state \<Rightarrow> bool" where
  "removed r left \<longleftrightarrow> r = kError_UserCancel \<and> left = kDownloadItemState_Cancelled \<or>
     r \<notin> {kError_NoErr, kError_UserCancel, kError_IOError}"

lemma next_loop_found: "next_loop hp xs i seen = Some (Some j) \<Longrightarrow> j < length xs \<and> is_queued hp (xs ! j)"
proof (induction hp xs i seen rule: next_loop.induct)
  case (1 hp xs i seen)
  show ?case using 1(2) [unfolded next_loop.simps [of hp xs i seen]] 1(1)
    by (auto simp: is_queued_def split: if_splits bind_splits)
qed

lemma next_found:
  assumes "dm_GetNextQueuedItem s = Some (Some p, s1)"
  shows "p \<in> set (dm_items s)" and "is_queued (dm_heap s) p" and "\<exists>i. s1 = s\<lparr>dm_index := i\<rparr>"
  using assms next_loop_found
  by (auto simp: dm_GetNextQueuedItem_def Let_def split: bind_splits option.splits if_splits)

lemma file_url: "c_str path = path \<Longrightarrow> FilePathToURL path (length path + 10) = (kError_NoErr, Some (protocol @ path), length path + 8)"
  by (simp add: FilePathToURL_def)

lemma dest_path_c_str: "dest_path dir it = Some path \<Longrightarrow> c_str path = path"
  using c_str_no_nul [of dir] c_str_no_nul [of "di_dest it"] by (intro c_str_id) (auto simp: dest_path_def Let_def split: if_splits)

lemma dest_path_state [simp]: "dest_path dir (it\<lparr>di_state := st\<rparr>) = dest_path dir it"
  by (simp add: dest_path_def)

text \<open>
  How the item \<open>it\<close> at \<open>p\<close>, as the download left it in the state \<open>s\<close>, ends after the result \<open>r\<close>. The
  recorded error of a good download is the one \<open>SubmitToDatabase\<close> always returns.
\<close>

definition finished :: "string \<Rightarrow> nat \<Rightarrow> error \<Rightarrow> download_item \<Rightarrow> dlm \<Rightarrow> dlm \<Rightarrow> bool" where
  "finished dir p r it s s' \<longleftrightarrow> (\<exists>path it'. (r = kError_NoErr \<or> removed r (di_state it) \<longrightarrow> dest_path dir it = Some path) \<and>
    dm_items s' = dm_items s \<and> (\<forall>q. q \<noteq> p \<longrightarrow> dm_heap s' q = dm_heap s q) \<and>
    dm_heap s' p = Some it' \<and> di_state it' = final_state r (di_state it) \<and>
    di_error it' = (if r = kError_NoErr then kError_InvalidParam else r) \<and>
    di_received it' = (if removed r (di_state it) then 0 else di_received it) \<and>
    dm_files s' = (if removed r (di_state it) then (dm_files s)(path := None) else dm_files s) \<and>
    dm_submitted s' = dm_submitted s @
      (if r = kError_NoErr then [(protocol @ path, if di_normal it then None else Some (di_metadata it))] else []))"

lemma finish_outcome:
  assumes f: "dm_finish dir p r s = Some s'" and it: "dm_heap s p = Some it"
  shows "finished dir p r it s s'"
proof -
  note defs = dm_finish_def dm_put_def dm_send_def final_state_def removed_def IsError_def Let_def
  consider (ok) "r = kError_NoErr" | (cancel) "r = kError_UserCancel" "di_state it = kDownloadItemState_Cancelled"
    | (left) "r = kError_UserCancel" "di_state it \<noteq> kDownloadItemState_Cancelled" | (io) "r = kError_IOError"
    | (failed) "r \<notin> {kError_NoErr, kError_UserCancel, kError_IOError}" by blast
  then show ?thesis
  proof cases
    case ok
    then obtain path where path: "dest_path dir it = Some path" using f it
      by (auto simp: defs dm_SubmitToDatabase_def split: bind_splits)
    then show ?thesis unfolding finished_def using f it ok file_url [OF dest_path_c_str [OF path]]
      by (intro exI [of _ path]) (auto simp: defs dm_SubmitToDatabase_def split: bind_splits)
  next
    case cancel
    then obtain path where path: "dest_path dir it = Some path" using f it
      by (auto simp: defs dm_CleanUpDownload_def split: bind_splits)
    then show ?thesis unfolding finished_def using f it cancel
      by (intro exI [of _ path]) (auto simp: defs dm_CleanUpDownload_def split: bind_splits)
  next
    case left
    then show ?thesis unfolding finished_def using f it by (auto simp: defs split: bind_splits)
  next
    case io
    then show ?thesis unfolding finished_def using f it by (auto simp: defs split: bind_splits)
  next
    case failed
    then obtain path where path: "dest_path dir it = Some path" using f it
      by (auto simp: defs dm_CleanUpDownload_def split: bind_splits)
    then show ?thesis unfolding finished_def using f it failed
      by (intro exI [of _ path]) (auto simp: defs dm_CleanUpDownload_def split: bind_splits)
  qed
qed

context downloader
begin

text \<open>A round that did not wait: the item it took, what \<open>Download\<close> did, and the state afterwards.\<close>

lemma round_outcome:
  assumes "dm_thread_round dir download s = Some (Continues, s')"
  shows "\<exists>p i it r s2 it2. p \<in> set (dm_items s) \<and> dm_heap s p = Some it \<and> di_state it = kDownloadItemState_Queued \<and>
    download p (dm_send (ItemNewState p) (dm_put p (it\<lparr>di_state := kDownloadItemState_Downloading\<rparr>) (s\<lparr>dm_index := i\<rparr>))) = Some (r, s2) \<and>
    dm_heap s2 p = Some it2 \<and> finished dir p r it2 s2 s' \<and>
    dm_items s' = dm_items s \<and> (\<forall>q. q \<noteq> p \<longrightarrow> dm_heap s' q = dm_heap s q) \<and> dm_submitted s2 = dm_submitted s"
proof -
  have np: "\<not> dm_paused s" using assms by (auto simp: dm_thread_round_def)
  obtain nx s1 where s1: "dm_GetNextQueuedItem s = Some (nx, s1)" using assms np
    by (auto simp: dm_thread_round_def split: bind_splits)
  obtain p where p: "nx = Some p" using assms np s1 by (cases nx) (auto simp: dm_thread_round_def)
  note found = next_found [OF s1 [unfolded p]]
  obtain i where i: "s1 = s\<lparr>dm_index := i\<rparr>" using found(3) by blast
  obtain it where it: "dm_heap s p = Some it" "di_state it = kDownloadItemState_Queued" using found(2) by (auto simp: is_queued_def)
  let ?s1 = "dm_send (ItemNewState p) (dm_put p (it\<lparr>di_state := kDownloadItemState_Downloading\<rparr>) s1)"
  obtain r s2 where d1: "download p ?s1 = Some (r, s2)" and fin: "dm_finish dir p r s2 = Some s'"
    using assms np s1 p i it by (auto simp: dm_thread_round_def split: bind_splits)
  obtain it2 where it2: "dm_heap s2 p = Some it2" using fin by (cases "dm_heap s2 p") (auto simp: dm_finish_def)
  note d = d1 it2
  have keep: "dm_items s2 = dm_items s" "q \<noteq> p \<Longrightarrow> dm_heap s2 q = dm_heap s q" "dm_submitted s2 = dm_submitted s" for q
    using items [OF d(1)] others [OF d(1)] submitted [OF d(1)] i by (simp_all add: dm_send_def dm_put_def)
  have d': "download p (dm_send (ItemNewState p) (dm_put p (it\<lparr>di_state := kDownloadItemState_Downloading\<rparr>) (s\<lparr>dm_index := i\<rparr>))) = Some (r, s2)"
    using d(1) by (simp add: i)
  note out = finish_outcome [OF fin it2]
  then have "dm_items s' = dm_items s" "\<forall>q. q \<noteq> p \<longrightarrow> dm_heap s' q = dm_heap s q"
    using keep unfolding finished_def by auto
  then show ?thesis using found(1) it d' it2 out keep(3) by blast
qed

end

lemma dm_Download_contract:
  assumes "dm_Download ev cns left p s = Some (r, s')"
  shows "dm_items s' = dm_items s" and "q \<noteq> p \<Longrightarrow> dm_heap s' q = dm_heap s q" and "dm_submitted s' = dm_submitted s"
  using assms by (auto simp: dm_Download_def dm_put_def split: bind_splits)

interpretation dl: downloader "dm_Download ev cns left" for ev cns left
  by unfold_locales (auto intro: dm_Download_contract)

text \<open>
  C16. What a round of the download thread does, whatever the network and the other threads do: it takes a
  queued item and leaves the list and all other items alone. The item ends as done, and is
  submitted to the catalog once, exactly when the download returned no error; a cancelled one
  keeps the state it was given, and every other failure makes it an error. What was stored of it is removed
  when it was cancelled for good or failed otherwise than by an input or output error.
\<close>

theorem dm_thread_outcome:
  assumes "dm_thread_round dir (dm_Download ev cns left) s = Some (Continues, s')"
  shows "\<exists>p i it r s2 it2. p \<in> set (dm_items s) \<and> dm_heap s p = Some it \<and> di_state it = kDownloadItemState_Queued \<and>
    dm_Download ev cns left p (dm_send (ItemNewState p) (dm_put p (it\<lparr>di_state := kDownloadItemState_Downloading\<rparr>) (s\<lparr>dm_index := i\<rparr>))) = Some (r, s2) \<and>
    dm_heap s2 p = Some it2 \<and> finished dir p r it2 s2 s' \<and>
    dm_items s' = dm_items s \<and> (\<forall>q. q \<noteq> p \<longrightarrow> dm_heap s' q = dm_heap s q) \<and> dm_submitted s2 = dm_submitted s \<and> di_state it2 = left"
proof -
  have left: "di_state it2 = left" if "dm_Download ev cns left p t = Some (r, s2)" "dm_heap s2 p = Some it2" for p t r s2 it2
    using that by (auto simp: dm_Download_def dm_put_def split: bind_splits)
  from dl.round_outcome [OF assms] left show ?thesis by blast
qed

subsection \<open>Two rounds\<close>

definition demo_manager :: dlm where
  "demo_manager = (dm_new Map.empty)\<lparr>dm_paused := False, dm_items := [5],
     dm_heap := [5 \<mapsto> demo_item\<lparr>di_state := kDownloadItemState_Queued\<rparr>]\<rparr>"

lemma demo_next: "dm_GetNextQueuedItem demo_manager = Some (Some 5, demo_manager\<lparr>dm_index := 1\<rparr>)"
  by (simp add: dm_GetNextQueuedItem_def demo_manager_def dm_new_def next_loop.simps)

abbreviation demo_started :: download_item where
  "demo_started \<equiv> demo_item\<lparr>di_state := kDownloadItemState_Downloading\<rparr>"

lemma demo_started:
  "dest_path ''/m'' demo_started = Some ''/m/x''"
  "dl_target demo_env (c_str (di_src demo_started)) = Some (kError_NoErr, ''h'', ''h'', 80, Some ''/x'')"
  "\<exists>q. dl_query (ev_version demo_env) False ''/x'' ''h'' demo_started = Some (q, demo_started)"
  "ev_dir demo_env = ''/m''" "di_normal demo_started = False" "di_metadata demo_started = new_metadata"
  by (simp_all add: demo_env_def demo_item_def new_download_def empty_download_def dest_path_def dl_target_def has_prefix_ci_def
      lower_byte_def byte_of_def scan_host_port_def has_prefix_def dl_query_def request_head_def Let_def)

text \<open>A round of the manager above, from what \<open>Download\<close> does with its only item.\<close>

lemma demo_round:
  assumes "dl_Download demo_env cns Map.empty demo_started = Some (r, fs, it, sent)"
    and "dm_finish ''/m'' 5 r (dm_put 5 (it\<lparr>di_state := left\<rparr>) ((dm_send (ItemNewState 5) (dm_put 5 demo_started
      (demo_manager\<lparr>dm_index := 1\<rparr>)))\<lparr>dm_files := fs, dm_events := ItemNewState 5 # replicate sent (ItemProgress 5)\<rparr>)) = Some s'"
  shows "dm_thread_round ''/m'' (dm_Download demo_env cns left) demo_manager = Some (Continues, s')"
proof -
  have m: "\<not> dm_paused demo_manager" "dm_heap demo_manager 5 = Some (demo_item\<lparr>di_state := kDownloadItemState_Queued\<rparr>)"
    "dm_files demo_manager = Map.empty" "dm_events demo_manager = []" by (simp_all add: demo_manager_def dm_new_def)
  show ?thesis using assms by (simp add: dm_thread_round_def demo_next m dm_Download_def dm_send_def dm_put_def)
qed

text \<open>The host is not found: the item is in error.\<close>

theorem dm_thread_outcome_witness:
  "\<exists>s'. dm_thread_round ''/m'' (dm_Download demo_env [(smooth [] [])\<lparr>cn_resolves := False\<rparr>] kDownloadItemState_Downloading)
      demo_manager = Some (Continues, s') \<and> (\<exists>it. dm_heap s' 5 = Some it \<and> di_state it = kDownloadItemState_Error)"
proof -
  let ?d = "dm_Download demo_env [(smooth [] [])\<lparr>cn_resolves := False\<rparr>] kDownloadItemState_Downloading"
  have dl: "dl_Download demo_env [(smooth [] [])\<lparr>cn_resolves := False\<rparr>] Map.empty demo_started =
      Some (kError_CantFindHost, Map.empty, demo_started, 0)"
    using demo_started by (simp add: dl_connect_def cancel_unless_def smooth_def IsError_def)
  from demo_round [OF dl] obtain s' where s': "dm_thread_round ''/m'' ?d demo_manager = Some (Continues, s')"
    using demo_started(1) by (simp add: dm_finish_def dm_CleanUpDownload_def dm_put_def IsError_def)
  from dm_thread_outcome [OF s'] obtain p it i r s2 it2 where o: "p \<in> set (dm_items demo_manager)" "dm_heap demo_manager p = Some it"
      "?d p (dm_send (ItemNewState p) (dm_put p (it\<lparr>di_state := kDownloadItemState_Downloading\<rparr>) (demo_manager\<lparr>dm_index := i\<rparr>))) = Some (r, s2)"
      "finished ''/m'' p r it2 s2 s'" by blast
  then have p: "p = 5" "it = demo_item\<lparr>di_state := kDownloadItemState_Queued\<rparr>" by (auto simp: demo_manager_def)
  have "dm_files demo_manager = Map.empty" by (simp add: demo_manager_def dm_new_def)
  then have "r = kError_CantFindHost" using o(3) dl by (simp add: p dm_Download_def dm_send_def dm_put_def del: dl_Download.simps)
  then show ?thesis using s' o(4) by (auto simp: p finished_def final_state_def)
qed

text \<open>
  An item can be done without a download: when the server redirects without saying where to, no file is
  written, and the item ends as done and is submitted to the catalog.
\<close>

theorem dm_done_without_file:
  "\<exists>s' it. dm_thread_round ''/m'' (dm_Download demo_env [smooth [] [header_text [''HTTP/1.1 302 Found'']]] kDownloadItemState_Downloading)
      demo_manager = Some (Continues, s') \<and> dm_heap s' 5 = Some it \<and> di_state it = kDownloadItemState_Done \<and>
    dm_files s' = Map.empty \<and> dm_submitted s' = [(''file:///m/x'', Some new_metadata)]"
proof -
  let ?t = "header_text [''HTTP/1.1 302 Found'']"
  have "ends_header ?t" by (simp add: ends_header_def header_text_def has_prefix_def)
  from header_complete_iff [OF this, of ?t "[]" "[]" "[]"] have "IsHTTPHeaderComplete (?t @ []) (length ?t)" by simp
  then have hdr: "dl_header (smooth [] [?t]) 0 2048 [] [Chunk ?t] = (kError_NoErr, ?t, [], 2048)"
    by (subst dl_header.simps) (simp add: cancel_unless_def header_text_def)
  have st: "vec_at (?t @ CHR 0x00 # y) 9 = Some (CHR ''3'')" "dl_location c ?t it = None" for y c it
    by (simp_all add: header_text_def vec_at_def dl_location_def has_prefix_def)
  obtain q where q: "dl_query (ev_version demo_env) False ''/x'' ''h'' demo_started = Some (q, demo_started)"
    using demo_started(3) by auto
  have dl: "dl_Download demo_env [smooth [] [?t]] Map.empty demo_started = Some (kError_NoErr, Map.empty, demo_started, 0)"
    using demo_started q hdr st by (simp add: smooth_connects)
  let ?s = "dm_put 5 (demo_started\<lparr>di_state := kDownloadItemState_Downloading\<rparr>) ((dm_send (ItemNewState 5) (dm_put 5 demo_started
      (demo_manager\<lparr>dm_index := 1\<rparr>)))\<lparr>dm_files := Map.empty, dm_events := ItemNewState 5 # replicate 0 (ItemProgress 5)\<rparr>)"
  obtain s' it where s': "dm_finish ''/m'' 5 kError_NoErr ?s = Some s'" "dm_heap s' 5 = Some it" "di_state it = kDownloadItemState_Done"
      "dm_files s' = Map.empty" "dm_submitted s' = [(''file:///m/x'', Some new_metadata)]"
    using demo_started(1,5,6)
    by (simp add: dm_finish_def dm_SubmitToDatabase_def FilePathToURL_def dm_put_def dm_send_def demo_manager_def dm_new_def)
  show ?thesis using demo_round [OF dl s'(1)] s'(2-5) by blast
qed

end
