(* ===== verification/FieldText.thy ===== *)
theory FieldText
  imports Utility
begin

section \<open>Records as lengths and text\<close>

text \<open>
  The format in which \<open>downloadmanager.cpp\<close> and \<open>musiccatalog.cpp\<close> store a record in a database: the number of
  fields, the length of each in decimal, and then the fields without anything between them. The
  \<open>sscanf\<close> loop that reads the lengths is the same in both. Where the code writes or reads a \<open>uint32\<close> as a
  \<open>long\<close> it has 32 bits, as the \<open>sscanf\<close> calls need it; a text that does not parse leaves its variables without
  a value, and the buffer for the last length has room for nine digits.
\<close>

subsection \<open>Numbers and lengths\<close>

text \<open>\<open>sprintf(num, "%ld", (long int)n)\<close> of an unsigned 32-bit number.\<close>

definition long_text :: "nat \<Rightarrow> string" where
  "long_text n = (if n < 2147483648 then decimal n else CHR ''-'' # decimal (4294967296 - n))"

text \<open>\<open>%lu\<close>: the number and what follows it, when there is one.\<close>

definition scan_lu :: "string \<Rightarrow> (nat \<times> string) option" where
  "scan_lu s = (let (n, rest) = strtol10 s in if rest = s then None else Some (nat (n mod 4294967296), rest))"

text \<open>
  The lengths: white space after each is skipped, but after the last one exactly one character behind its
  decimal text, so that white space in front of the data stays.
\<close>

fun load_lengths :: "nat \<Rightarrow> string \<Rightarrow> (nat list \<times> string) option" where
  "load_lengths 0 s = Some ([], s)"
| "load_lengths (Suc k) s = do {
     (n, rest) \<leftarrow> scan_lu s;
     s' \<leftarrow> (if k = 0 then (if length (decimal n) < 10 \<and> length (decimal n) + 1 \<le> length s then Some (drop (length (decimal n) + 1) s) else None)
           else Some (dropWhile c_isspace rest));
     (ns, data) \<leftarrow> load_lengths k s';
     Some (n # ns, data)
   }"

text \<open>The lengths of a record and the fields behind them; no lengths when the record begins with no number.\<close>

definition scan_record :: "string \<Rightarrow> (nat list \<times> string) option" where
  "scan_record value = (case scan_lu value of None \<Rightarrow> Some ([], value) | Some (numFields, rest) \<Rightarrow> load_lengths numFields rest)"

definition to_u32 :: "int \<Rightarrow> nat" where
  "to_u32 n = nat (n mod 4294967296)"

subsection \<open>Lengths that were written are read\<close>

lemma scan_lu_decimal:
  assumes "n < 4294967296" and "rest = [] \<or> \<not> c_isdigit (hd rest)" and "CHR 0x00 \<notin> set rest"
  shows "scan_lu (decimal n @ rest) = Some (n, rest)"
  using strtol10_decimal_rest [OF assms(2,3), of n] assms(1) by (simp add: scan_lu_def clip_long_id)

lemma strtol10_length: "length (snd (strtol10 s)) \<le> length s"
proof -
  let ?t = "dropWhile c_isspace (c_str s)"
  have "length (dropWhile P (tl ?t)) \<le> length ?t" for P
    using length_dropWhile_le [of P "tl ?t"] by (simp add: le_diff_conv)
  moreover have "length ?t \<le> length s" using length_dropWhile_le [of c_isspace "c_str s"] length_takeWhile_le [of _ s]
    by (simp add: c_str_def le_trans)
  moreover have "length (c_str s) \<le> length s" by (simp add: c_str_def length_takeWhile_le)
  ultimately show ?thesis
    using length_dropWhile_le [of c_isdigit ?t] by (auto simp: strtol10_def Let_def intro: le_trans)
qed

lemma scan_lu_space:
  assumes "scan_lu s = Some (n, rest)" and "CHR 0x00 \<notin> set s"
  shows "scan_lu (CHR '' '' # s) = Some (n, rest)"
proof -
  obtain m r where m: "strtol10 s = (m, r)" by (cases "strtol10 s")
  then have r: "r \<noteq> s" "rest = r" "n = nat (m mod 4294967296)"
    using assms(1) by (auto simp: scan_lu_def split: if_splits)
  have "length r \<le> length s" using strtol10_length [of s] m by simp
  then have "r \<noteq> CHR '' '' # s" by auto
  moreover have "strtol10 (CHR '' '' # s) = (m, r)"
  proof -
    have c: "c_str s = s" "c_str (CHR '' '' # s) = CHR '' '' # s" using assms(2) by (simp_all add: c_str_id)
    have d: "dropWhile c_isspace (CHR '' '' # s) = dropWhile c_isspace s" by (simp add: c_isspace_def)
    have "\<exists>D X. strtol10 s = (if D then (0, s) else X) \<and> strtol10 (CHR '' '' # s) = (if D then (0, CHR '' '' # s) else X)"
      unfolding strtol10_def Let_def c d by (intro exI conjI) (rule refl)+
    then show ?thesis using m r(1) by (metis prod.inject)
  qed
  ultimately show ?thesis using r by (simp add: scan_lu_def)
qed

lemma load_lengths_Suc:
  "scan_lu s = Some (n, CHR '' '' # t) \<Longrightarrow> k \<noteq> 0 \<Longrightarrow> dropWhile c_isspace t = t \<Longrightarrow>
   load_lengths (Suc k) s = do { (ns, data) \<leftarrow> load_lengths k t; Some (n # ns, data) }"
  by simp

lemma load_lengths_space:
  "1 < k \<Longrightarrow> CHR 0x00 \<notin> set s \<Longrightarrow> load_lengths k s = Some (ns, data) \<Longrightarrow> load_lengths k (CHR '' '' # s) = Some (ns, data)"
  by (cases k) (auto simp: scan_lu_space split: bind_splits if_splits)

definition lengths_text :: "nat list \<Rightarrow> string" where
  "lengths_text ns = concat (map (\<lambda>n. decimal n @ '' '') ns)"

lemma lengths_text_simps [simp]:
  "lengths_text [] = []" "lengths_text (n # ns) = decimal n @ CHR '' '' # lengths_text ns"
  by (simp_all add: lengths_text_def)

lemma lengths_text_no_nul: "CHR 0x00 \<notin> set (lengths_text ns)"
  using decimal_no_nul by (induction ns) auto

lemma lengths_text_start: "ns \<noteq> [] \<Longrightarrow> dropWhile c_isspace (lengths_text ns @ data) = lengths_text ns @ data"
proof (cases ns)
  case (Cons m ms)
  obtain d ds where d: "decimal m = d # ds" "c_isdigit d" using decimal_digits [of m] by (cases "decimal m") auto
  then show ?thesis using isdigit_no_space [of d] by (simp add: Cons)
qed simp

lemma load_lengths_text:
  "ns \<noteq> [] \<Longrightarrow> \<forall>n \<in> set ns. n < 4294967296 \<Longrightarrow> length (decimal (last ns)) < 10 \<Longrightarrow> CHR 0x00 \<notin> set data \<Longrightarrow>
   load_lengths (length ns) (lengths_text ns @ data) = Some (ns, data)"
proof (induction ns)
  case (Cons n ns)
  have nul: "CHR 0x00 \<notin> set (lengths_text ns @ data)" using Cons.prems lengths_text_no_nul by auto
  have scan: "scan_lu (decimal n @ CHR '' '' # lengths_text ns @ data) = Some (n, CHR '' '' # lengths_text ns @ data)"
    using Cons.prems nul by (intro scan_lu_decimal) (auto simp: c_isdigit_def)
  show ?case
  proof (cases "ns = []")
    case True
    then show ?thesis using scan Cons.prems by simp
  next
    case False
    have "load_lengths (Suc (length ns)) (decimal n @ CHR '' '' # lengths_text ns @ data) =
        do { (ns', data') \<leftarrow> load_lengths (length ns) (lengths_text ns @ data); Some (n # ns', data') }"
      using False by (intro load_lengths_Suc [OF scan] lengths_text_start) simp_all
    moreover have "load_lengths (length ns) (lengths_text ns @ data) = Some (ns, data)"
      using Cons.IH Cons.prems False by simp
    ultimately show ?thesis by simp
  qed
qed simp

lemma to_u32_atoi: "n < 2147483648 \<Longrightarrow> to_u32 (atoi (decimal n)) = n"
  by (simp add: to_u32_def atoi_decimal)

lemma scan_record_text:
  assumes n: "1 < length ns" "length ns < 4294967296" and small: "\<forall>n \<in> set ns. n < 4294967296" "length (decimal (last ns)) < 10"
    and data: "CHR 0x00 \<notin> set data"
  shows "scan_record (decimal (length ns) @ CHR '' '' # lengths_text ns @ data) = Some (ns, data)"
proof -
  define r where "r = lengths_text ns @ data"
  have rn: "CHR 0x00 \<notin> set r" using data lengths_text_no_nul by (simp add: r_def)
  have "scan_lu (decimal (length ns) @ CHR '' '' # r) = Some (length ns, CHR '' '' # r)"
    using rn n(2) by (intro scan_lu_decimal) (auto simp: c_isdigit_def)
  moreover have "load_lengths (length ns) r = Some (ns, data)"
    unfolding r_def using n(1) small data by (intro load_lengths_text) auto
  then have "load_lengths (length ns) (CHR '' '' # r) = Some (ns, data)"
    using rn n(1) by (intro load_lengths_space) simp_all
  ultimately show ?thesis by (simp add: scan_record_def r_def del: load_lengths.simps)
qed

text \<open>A number of 32 bits survives the signed text and \<open>atoi\<close>.\<close>

lemma long_text_no_nul: "CHR 0x00 \<notin> set (long_text n)"
  using decimal_no_nul by (simp add: long_text_def)

lemma to_u32_atoi_long: "n < 4294967296 \<Longrightarrow> to_u32 (atoi (long_text n)) = n"
proof (cases "n < 2147483648")
  case False
  moreover assume "n < 4294967296"
  ultimately have "- 2147483648 \<le> - int (4294967296 - n)" "- int (4294967296 - n) < 0" by auto
  moreover from this have "atoi (long_text n) = - int (4294967296 - n)"
    using False by (simp add: long_text_def atoi_def strtol10_neg_decimal clip_long_id int32_id)
  moreover have "(- int (4294967296 - n)) mod 4294967296 = int n"
    using False \<open>n < 4294967296\<close> by (intro int_mod_pos_eq [symmetric, where q = "-1", THEN sym]) (auto simp: of_nat_diff)
  ultimately show ?thesis by (simp add: to_u32_def)
qed (simp add: long_text_def to_u32_atoi)

end
