(* ===== verification/DownloadStore.thy ===== *)
theory DownloadStore
  imports DownloadList FieldText
begin

section \<open>The download manager: unfinished downloads between two runs\<close>

text \<open>
  \<open>SaveResumableDownloadItems\<close> and \<open>LoadResumableDownloadItems\<close> of \<open>base/src/downloadmanager.cpp\<close>. The
  database (\<open>base/src/database.cpp\<close>, over gdbm) is a list of keys and values in the order in which the database
  goes through its keys, which the code does not choose.
\<close>

subsection \<open>Saving\<close>

fun state_number :: "download_state \<Rightarrow> nat" where
  "state_number kDownloadItemState_Null = 0"
| "state_number kDownloadItemState_Queued = 1"
| "state_number kDownloadItemState_Downloading = 2"
| "state_number kDownloadItemState_Cancelled = 3"
| "state_number kDownloadItemState_Paused = 4"
| "state_number kDownloadItemState_Error = 5"
| "state_number kDownloadItemState_Done = 6"

text \<open>The 16 lengths and the 16 fields; the lengths of the numbers are those of their signed text.\<close>

definition field_lengths :: "download_item \<Rightarrow> nat list" where
  "field_lengths it = (let metadata = di_metadata it in
     [length (di_src it), length (di_cookie it), length (di_dest it), length (di_playlist it),
      length (long_text (di_total it)),
      (if di_mtime it \<noteq> [] then length (long_text (di_received it)) + 1 + length (di_mtime it)
       else length (long_text (di_received it))),
      length (m_artist metadata), length (m_album metadata), length (m_title metadata), length (m_comment metadata),
      length (m_genre metadata), length (long_text (m_year metadata)), length (long_text (m_track metadata)),
      length (long_text (m_time metadata)), length (long_text (m_size metadata)),
      length (long_text (state_number (di_state it)))])"

definition field_texts :: "download_item \<Rightarrow> string list" where
  "field_texts it = (let metadata = di_metadata it in
     [di_src it, di_cookie it, di_dest it, di_playlist it, decimal (di_total it),
      decimal (di_received it) @ (if di_mtime it \<noteq> [] then CHR '' '' # di_mtime it else []),
      m_artist metadata, m_album metadata, m_title metadata, m_comment metadata, m_genre metadata,
      decimal (m_year metadata), decimal (m_track metadata), decimal (m_time metadata), decimal (m_size metadata),
      long_text (state_number (di_state it))])"

definition item_text :: "download_item \<Rightarrow> string" where
  "item_text it = decimal 16 @ '' '' @ concat (map (\<lambda>n. decimal n @ '' '') (field_lengths it)) @ concat (field_texts it)"

definition resumable :: "download_item \<Rightarrow> bool" where
  "resumable it \<longleftrightarrow> di_state it \<in> {kDownloadItemState_Paused, kDownloadItemState_Queued, kDownloadItemState_Error}"

definition requeue :: "download_item \<Rightarrow> download_item" where
  "requeue it = (if di_state it = kDownloadItemState_Error then it\<lparr>di_state := kDownloadItemState_Queued\<rparr> else it)"

text \<open>The loop over the list: the values stored under the positions, up to their first NUL.\<close>

fun save_loop :: "nat \<Rightarrow> nat list \<Rightarrow> dlm \<Rightarrow> ((string \<times> string) list \<times> dlm) option" where
  "save_loop index [] s = Some ([], s)"
| "save_loop index (p # ps) s = do {
     it \<leftarrow> dm_heap s p;
     if resumable it then do {
       let it' = requeue it;
       (db, s') \<leftarrow> save_loop (index + 1) ps (dm_put p it' s);
       Some ((long_text index, c_str (item_text it')) # db, s')
     }
     else save_loop (index + 1) ps s
   }"

definition SaveResumableDownloadItems :: "dlm \<Rightarrow> ((string \<times> string) list \<times> dlm) option" where
  "SaveResumableDownloadItems s = save_loop 0 (dm_items s) s"

subsection \<open>Loading\<close>

definition number_state :: "nat \<Rightarrow> download_state" where
  "number_state n = (if n = 0 then kDownloadItemState_Null else if n = 1 then kDownloadItemState_Queued
     else if n = 2 then kDownloadItemState_Downloading else if n = 3 then kDownloadItemState_Cancelled
     else if n = 4 then kDownloadItemState_Paused else if n = 5 then kDownloadItemState_Error else kDownloadItemState_Done)"

text \<open>The switch over the number of the field.\<close>

definition set_received :: "string \<Rightarrow> download_item \<Rightarrow> download_item" where
  "set_received f it =
     (let val = c_str f;
          it = it\<lparr>di_received := to_u32 (atoi val)\<rparr>
      in if CHR '' '' \<in> set val then it\<lparr>di_mtime := tl (dropWhile (\<lambda>c. c \<noteq> CHR '' '') val)\<rparr> else it)"

definition set_field :: "nat \<Rightarrow> string \<Rightarrow> download_item \<Rightarrow> download_item" where
  "set_field j f it = (let metadata = di_metadata it in
     if j = 0 then it\<lparr>di_src := f\<rparr>
     else if j = 1 then it\<lparr>di_cookie := f\<rparr>
     else if j = 2 then it\<lparr>di_dest := f\<rparr>
     else if j = 3 then it\<lparr>di_playlist := f\<rparr>
     else if j = 4 then it\<lparr>di_total := to_u32 (atoi f)\<rparr>
     else if j = 5 then set_received f it
     else if j = 6 then it\<lparr>di_metadata := metadata\<lparr>m_artist := f\<rparr>\<rparr>
     else if j = 7 then it\<lparr>di_metadata := metadata\<lparr>m_album := f\<rparr>\<rparr>
     else if j = 8 then it\<lparr>di_metadata := metadata\<lparr>m_title := f\<rparr>\<rparr>
     else if j = 9 then it\<lparr>di_metadata := metadata\<lparr>m_comment := f\<rparr>\<rparr>
     else if j = 10 then it\<lparr>di_metadata := metadata\<lparr>m_genre := f\<rparr>\<rparr>
     else if j = 11 then it\<lparr>di_metadata := metadata\<lparr>m_year := to_u32 (atoi f)\<rparr>\<rparr>
     else if j = 12 then it\<lparr>di_metadata := metadata\<lparr>m_track := to_u32 (atoi f)\<rparr>\<rparr>
     else if j = 13 then it\<lparr>di_metadata := metadata\<lparr>m_time := to_u32 (atoi f)\<rparr>\<rparr>
     else if j = 14 then it\<lparr>di_metadata := metadata\<lparr>m_size := to_u32 (atoi f)\<rparr>\<rparr>
     else if j = 15 then it\<lparr>di_state := number_state (to_u32 (atoi f))\<rparr>
     else it)"

text \<open>\<open>data.substr(count, fieldLength[j])\<close> throws when \<open>count\<close> is past the end.\<close>

fun load_fields :: "nat \<Rightarrow> nat list \<Rightarrow> string \<Rightarrow> nat \<Rightarrow> download_item \<Rightarrow> download_item option" where
  "load_fields j [] data pos it = Some it"
| "load_fields j (n # ns) data pos it =
     (if pos \<le> length data then load_fields (j + 1) ns data (pos + n) (set_field j (take n (drop pos data)) it) else None)"

definition load_item :: "string \<Rightarrow> download_item option" where
  "load_item value = do {
     (lens, data) \<leftarrow> scan_record value;
     load_fields 0 lens data 0 empty_download
   }"

text \<open>The loop over the keys; the new items are at the given addresses, and the database is empty afterwards.\<close>

fun load_loop :: "(string \<times> string) list \<Rightarrow> nat list \<Rightarrow> dlm \<Rightarrow> dlm option" where
  "load_loop ((key, value) # db) (p # ps) s =
     (if dm_heap s p \<noteq> None then None
      else do {
        it \<leftarrow> load_item value;
        load_loop db ps (dm_send (ItemAdded p) ((dm_put p it s)\<lparr>dm_items := dm_items s @ [p]\<rparr>))
      })"
| "load_loop [] ps s = Some s"
| "load_loop (kv # db) [] s = None"

definition LoadResumableDownloadItems ::
  "(string \<times> string) list \<Rightarrow> nat list \<Rightarrow> dlm \<Rightarrow> ((string \<times> string) list \<times> dlm) option" where
  "LoadResumableDownloadItems db ps s = do { s' \<leftarrow> load_loop db ps s; Some ([], s') }"

subsection \<open>What is saved is loaded\<close>

definition storable :: "download_item \<Rightarrow> bool" where
  "storable it \<longleftrightarrow> (let md = di_metadata it in
     (\<forall>f \<in> {di_src it, di_cookie it, di_dest it, di_playlist it, di_mtime it, m_artist md, m_album md, m_title md, m_comment md, m_genre md}.
        CHR 0x00 \<notin> set f \<and> length f < 2147483600) \<and>
     (\<forall>n \<in> {di_total it, di_received it, m_year md, m_track md, m_time md, m_size md}. n < 2147483648))"

text \<open>What is kept of an item: all but the error, how it was added, and the unsaved metadata.\<close>

definition restored :: "download_item \<Rightarrow> download_item" where
  "restored it = (let md = di_metadata it in empty_download\<lparr>di_src := di_src it, di_cookie := di_cookie it, di_dest := di_dest it,
     di_playlist := di_playlist it, di_mtime := di_mtime it, di_total := di_total it, di_received := di_received it,
     di_state := di_state it, di_metadata := new_metadata\<lparr>m_artist := m_artist md, m_album := m_album md, m_title := m_title md,
       m_comment := m_comment md, m_genre := m_genre md, m_year := m_year md, m_track := m_track md, m_time := m_time md,
       m_size := m_size md\<rparr>\<rparr>)"

lemma load_fields_text:
  "load_fields j (map length fs) (pre @ concat fs) (length pre) it =
   Some (snd (foldl (\<lambda>(j, it) f. (j + 1, set_field j f it)) (j, it) fs))"
proof (induction fs arbitrary: j pre it)
  case (Cons f fs)
  from Cons.IH [of "j + 1" "pre @ f" "set_field j f it"] show ?case by simp
qed simp

lemma number_state_number: "number_state (state_number st) = st"
  by (cases st) (simp_all add: number_state_def)

lemma set_received_text:
  assumes "n < 2147483648" and "CHR 0x00 \<notin> set t"
  shows "set_received (decimal n @ (if t \<noteq> [] then CHR '' '' # t else [])) it =
    it\<lparr>di_received := n, di_mtime := (if t \<noteq> [] then t else di_mtime it)\<rparr>"
proof -
  let ?f = "decimal n @ (if t \<noteq> [] then CHR '' '' # t else [])"
  have c: "c_str ?f = ?f" using assms(2) decimal_no_nul by (intro c_str_id) auto
  have a: "atoi ?f = int n" using assms(1) by (intro atoi_decimal_rest) (auto simp: c_isdigit_def)
  have sp: "\<forall>c \<in> set (decimal n). c \<noteq> CHR '' ''" using decimal_digits [of n] by (auto simp: c_isdigit_def)
  then have "dropWhile (\<lambda>c. c \<noteq> CHR '' '') (decimal n @ CHR '' '' # t) = CHR '' '' # t" by (simp add: dropWhile_append)
  moreover have "CHR '' '' \<notin> set (decimal n)" using sp by blast
  ultimately show ?thesis using c a assms(1) by (simp add: set_received_def to_u32_def)
qed

lemma field_lengths_texts: "storable it \<Longrightarrow> field_lengths it = map length (field_texts it)"
  by (auto simp: storable_def field_lengths_def field_texts_def long_text_def Let_def)

lemma long_text_state: "long_text (state_number st) = decimal (state_number st)"
  by (cases st) (simp_all add: long_text_def)

lemma state_small [simp]: "state_number st < 2147483648"
  by (cases st) simp_all

lemma set_fields_text:
  assumes "storable it"
  shows "snd (foldl (\<lambda>(j, it) f. (j + 1, set_field j f it)) (0, empty_download) (field_texts it)) = restored it"
  using assms set_received_text [of "di_received it" "di_mtime it"]
  by (cases "di_mtime it = []") (simp_all add: field_texts_def Let_def set_field_def long_text_state to_u32_atoi number_state_number storable_def restored_def
      empty_download_def)

lemma field_texts_16: "length (field_texts it) = 16"
  by (simp add: field_texts_def Let_def)

lemma field_texts_no_nul: "storable it \<Longrightarrow> f \<in> set (field_texts it) \<Longrightarrow> CHR 0x00 \<notin> set f"
  using decimal_no_nul by (auto simp: storable_def field_texts_def long_text_state Let_def)

lemma field_texts_short:
  assumes st: "storable it" and "f \<in> set (field_texts it)"
  shows "length f < 4294967296"
proof -
  have ten: "length (decimal n) \<le> 10" if "n < 2147483648" for n using that by (intro length_decimal) simp_all
  have "state_number (di_state it) < 2147483648" by (cases "di_state it") simp_all
  then have "\<forall>n \<in> {di_total it, di_received it, m_year (di_metadata it), m_track (di_metadata it), m_time (di_metadata it),
      m_size (di_metadata it), state_number (di_state it)}. length (decimal n) \<le> 10"
    using st ten by (simp add: storable_def Let_def)
  then show ?thesis
    using assms by (auto simp: storable_def field_texts_def long_text_state Let_def)
qed

lemma field_texts_last: "length (decimal (last (map length (field_texts it)))) < 10"
  by (cases "di_state it") (simp_all add: field_texts_def Let_def long_text_def decimal.simps)

lemma load_item_text:
  assumes st: "storable it"
  shows "load_item (c_str (item_text it)) = Some (restored it)"
proof -
  define fs where "fs = field_texts it"
  define r where "r = lengths_text (map length fs) @ concat fs"
  have n16: "length (map length fs) = 16" by (simp add: fs_def field_texts_16)
  have data: "CHR 0x00 \<notin> set (concat fs)" using field_texts_no_nul [OF st] by (auto simp: fs_def)
  have small: "\<forall>n \<in> set (map length fs). n < 4294967296" using field_texts_short [OF st] by (auto simp: fs_def)
  have whole: "item_text it = decimal 16 @ CHR '' '' # r"
    by (simp add: item_text_def field_lengths_texts [OF st] r_def fs_def lengths_text_def)
  have rn: "CHR 0x00 \<notin> set r" using data lengths_text_no_nul by (simp add: r_def)
  then have c: "c_str (item_text it) = decimal (length (map length fs)) @ CHR '' '' # r"
    unfolding whole n16 using decimal_no_nul by (intro c_str_id) auto
  have scan: "scan_record (decimal (length (map length fs)) @ CHR '' '' # r) = Some (map length fs, concat fs)"
    unfolding r_def using n16 small data field_texts_last [of it] by (intro scan_record_text) (simp_all only: fs_def, simp_all)
  have "load_fields 0 (map length fs) (concat fs) 0 empty_download = Some (restored it)"
    using load_fields_text [of 0 fs "[]"] set_fields_text [OF st] by (simp add: fs_def)
  then show ?thesis by (simp only: load_item_def c scan) simp
qed

text \<open>Which items of the list are saved, and the heap after saving.\<close>

definition saved :: "dlm \<Rightarrow> nat \<Rightarrow> bool" where
  "saved s p = (case dm_heap s p of None \<Rightarrow> False | Some it \<Rightarrow> resumable it)"

lemma requeue_simps [simp]: "resumable it \<Longrightarrow> storable it \<Longrightarrow> storable (requeue it)"
  by (simp add: requeue_def storable_def)

lemma saved_put: "q \<noteq> p \<Longrightarrow> saved (dm_put p it s) q = saved s q" "q \<noteq> p \<Longrightarrow> dm_heap (dm_put p it s) q = dm_heap s q"
  by (simp_all add: saved_def dm_put_def)

lemma decimal_inject: "m < 2147483648 \<Longrightarrow> n < 2147483648 \<Longrightarrow> decimal m = decimal n \<Longrightarrow> m = n"
  using to_u32_atoi by metis

definition good_keys :: "nat \<Rightarrow> nat \<Rightarrow> string list \<Rightarrow> bool" where
  "good_keys i n ks \<longleftrightarrow> distinct ks \<and> (\<forall>k \<in> set ks. \<exists>j. k = long_text j \<and> i \<le> j \<and> j < i + n)"

lemma good_keys_skip: "good_keys (i + 1) n ks \<Longrightarrow> good_keys i (Suc n) ks"
  by (force simp: good_keys_def)

lemma good_keys_Cons:
  assumes "good_keys (i + 1) n ks" and "i + Suc n \<le> 2147483648"
  shows "good_keys i (Suc n) (long_text i # ks)"
proof -
  have "long_text i \<noteq> long_text j" if "i + 1 \<le> j" "j < i + 1 + n" for j
    using that assms(2) decimal_inject [of i j] by (auto simp: long_text_def)
  then have "long_text i \<notin> set ks" using assms(1) by (auto simp: good_keys_def)
  then show ?thesis using good_keys_skip [OF assms(1)] by (auto simp: good_keys_def)
qed

lemma save_loop_values:
  "distinct ps \<Longrightarrow> \<forall>p \<in> set ps. dm_heap s p \<noteq> None \<Longrightarrow> i + length ps \<le> 2147483648 \<Longrightarrow>
   \<exists>db s'. save_loop i ps s = Some (db, s') \<and> good_keys i (length ps) (map fst db) \<and>
     map snd db = map (\<lambda>p. c_str (item_text (requeue (the (dm_heap s p))))) (filter (saved s) ps)"
proof (induction ps arbitrary: i s)
  case Nil
  then show ?case by (simp add: good_keys_def)
next
  case (Cons p ps)
  obtain it where it: "dm_heap s p = Some it" using Cons.prems by auto
  then have sv: "saved s p = resumable it" by (simp add: saved_def)
  define s1 where "s1 = (if resumable it then dm_put p (requeue it) s else s)"
  have same: "\<forall>q \<in> set ps. dm_heap s1 q = dm_heap s q \<and> saved s1 q = saved s q"
  proof
    fix q
    assume "q \<in> set ps"
    then have "q \<noteq> p" using Cons.prems(1) by auto
    then show "dm_heap s1 q = dm_heap s q \<and> saved s1 q = saved s q" by (simp add: s1_def saved_put)
  qed
  obtain db s' where db: "save_loop (i + 1) ps s1 = Some (db, s')" "good_keys (i + 1) (length ps) (map fst db)"
    and v: "map snd db = map (\<lambda>p. c_str (item_text (requeue (the (dm_heap s1 p))))) (filter (saved s1) ps)"
    using Cons.IH [of s1 "i + 1"] Cons.prems same by auto
  have v': "map snd db = map (\<lambda>p. c_str (item_text (requeue (the (dm_heap s p))))) (filter (saved s) ps)"
    using v same by (simp cong: filter_cong) 
  show ?case
  proof (cases "resumable it")
    case True
    then show ?thesis using db v' it Cons.prems(3) good_keys_Cons [OF db(2)]
      by (simp add: s1_def sv)
  next
    case False
    then show ?thesis using db v' it good_keys_skip [OF db(2)] by (simp add: s1_def sv)
  qed
qed

lemma load_loop_values:
  "length ps = length db \<Longrightarrow> distinct ps \<Longrightarrow> \<forall>p \<in> set ps. dm_heap s p = None \<Longrightarrow>
   \<forall>v \<in> set (map snd db). load_item v \<noteq> None \<Longrightarrow>
   \<exists>s'. load_loop db ps s = Some s' \<and> dm_items s' = dm_items s @ ps \<and>
     map (dm_heap s') ps = map load_item (map snd db) \<and> (\<forall>q. q \<notin> set ps \<longrightarrow> dm_heap s' q = dm_heap s q)"
proof (induction db arbitrary: ps s)
  case (Cons kv db)
  obtain p qs where ps: "ps = p # qs" using Cons.prems(1) by (cases ps) auto
  obtain k v where kv: "kv = (k, v)" by (cases kv)
  obtain it where it: "load_item v = Some it" using Cons.prems(4) kv by auto
  let ?s = "dm_send (ItemAdded p) ((dm_put p it s)\<lparr>dm_items := dm_items s @ [p]\<rparr>)"
  have heap: "dm_heap ?s = (dm_heap s)(p \<mapsto> it)" by (simp add: dm_send_def dm_put_def)
  have "\<exists>s'. load_loop db qs ?s = Some s' \<and> dm_items s' = dm_items ?s @ qs \<and>
     map (dm_heap s') qs = map load_item (map snd db) \<and> (\<forall>q. q \<notin> set qs \<longrightarrow> dm_heap s' q = dm_heap ?s q)"
    using Cons.prems ps heap by (intro Cons.IH) auto
  then show ?case using Cons.prems ps it kv heap by (auto simp: dm_send_def)
qed simp

text \<open>
  C14. Unfinished downloads survive a restart. When the items of the list are distinct and those that are
  paused, queued or in error have no NUL in their texts and numbers below 2 ^ 31, saving succeeds and
  stores each of them under a key of its own. In whatever order the database then goes through its keys,
  loading into a manager at fresh addresses empties the database, appends one item for each address, and
  these items are together exactly the saved ones, queued again if they were in error, with their URL,
  cookie, file, playlist, lengths, date and the saved part of the metadata.
\<close>

theorem downloads_survive:
  assumes "distinct (dm_items s)" and "length (dm_items s) \<le> 2147483648"
    and "\<forall>p \<in> set (dm_items s). \<exists>it. dm_heap s p = Some it \<and> (resumable it \<longrightarrow> storable it)"
  shows "\<exists>db s'. SaveResumableDownloadItems s = Some (db, s') \<and> distinct (map fst db) \<and>
    (\<forall>db' ps s0. mset db' = mset db \<and> length ps = length db' \<and> distinct ps \<and> (\<forall>p \<in> set ps. dm_heap s0 p = None) \<longrightarrow>
      (\<exists>s1. LoadResumableDownloadItems db' ps s0 = Some ([], s1) \<and> dm_items s1 = dm_items s0 @ ps \<and>
        mset (map (dm_heap s1) ps) =
          mset (map (\<lambda>p. map_option (restored \<circ> requeue) (dm_heap s p)) (filter (saved s) (dm_items s)))))"
proof -
  let ?ps = "filter (saved s) (dm_items s)"
  let ?want = "map (\<lambda>p. map_option (restored \<circ> requeue) (dm_heap s p)) ?ps"
  obtain db s' where db: "save_loop 0 (dm_items s) s = Some (db, s')" "good_keys 0 (length (dm_items s)) (map fst db)"
    and v: "map snd db = map (\<lambda>p. c_str (item_text (requeue (the (dm_heap s p))))) ?ps"
    using save_loop_values [of "dm_items s" s 0] assms by force
  have "load_item (c_str (item_text (requeue (the (dm_heap s p))))) = map_option (restored \<circ> requeue) (dm_heap s p)"
    if "p \<in> set ?ps" for p
    using that assms(3) by (fastforce simp: saved_def load_item_text split: option.splits)
  then have want: "map load_item (map snd db) = ?want" by (simp add: v)
  have some: "\<forall>x \<in> set (map snd db). load_item x \<noteq> None"
  proof
    fix x
    assume "x \<in> set (map snd db)"
    then have "load_item x \<in> set ?want" by (metis want list.set_map imageI)
    then show "load_item x \<noteq> None" by (auto simp: saved_def split: option.splits)
  qed
  have "\<exists>s1. LoadResumableDownloadItems db' ps s0 = Some ([], s1) \<and> dm_items s1 = dm_items s0 @ ps \<and>
      mset (map (dm_heap s1) ps) = mset ?want"
    if "mset db' = mset db" "length ps = length db'" "distinct ps" "\<forall>p \<in> set ps. dm_heap s0 p = None" for db' ps s0
  proof -
    have m: "mset (map snd db') = mset (map snd db)" using that(1) by (metis mset_map)
    then have "\<forall>x \<in> set (map snd db'). load_item x \<noteq> None" using some by (metis mset_eq_setD)
    from load_loop_values [OF that(2-4) this] obtain s1 where s1: "load_loop db' ps s0 = Some s1"
      "dm_items s1 = dm_items s0 @ ps" "map (dm_heap s1) ps = map load_item (map snd db')" by blast
    have "mset (map load_item (map snd db')) = mset ?want" using m want by (metis mset_map)
    then have "mset (map (dm_heap s1) ps) = mset ?want" by (simp only: s1(3))
    then show ?thesis using s1(1,2) unfolding LoadResumableDownloadItems_def by (intro exI conjI) simp_all
  qed
  then show ?thesis using db by (simp add: SaveResumableDownloadItems_def good_keys_def)
qed

definition demo_saved :: dlm where
  "demo_saved = (dm_new (\<lambda>_. None))\<lparr>dm_items := [1, 2],
     dm_heap := [1 \<mapsto> (new_download ''http://a/b'' None None)\<lparr>di_state := kDownloadItemState_Error, di_received := 7,
                   di_total := 90, di_mtime := ''Mon''\<rparr>,
                 2 \<mapsto> (new_download ''http://c'' None None)\<lparr>di_state := kDownloadItemState_Done\<rparr>]\<rparr>"

theorem downloads_survive_witness:
  "saved demo_saved 1 \<and> \<not> saved demo_saved 2 \<and> (\<exists>db s'. SaveResumableDownloadItems demo_saved = Some (db, s') \<and> distinct (map fst db) \<and>
    (\<forall>db' ps s0. mset db' = mset db \<and> length ps = length db' \<and> distinct ps \<and> (\<forall>p \<in> set ps. dm_heap s0 p = None) \<longrightarrow>
      (\<exists>s1. LoadResumableDownloadItems db' ps s0 = Some ([], s1) \<and> dm_items s1 = dm_items s0 @ ps \<and>
        mset (map (dm_heap s1) ps) =
          mset (map (\<lambda>p. map_option (restored \<circ> requeue) (dm_heap demo_saved p)) (filter (saved demo_saved) (dm_items demo_saved))))))"
proof (intro conjI downloads_survive)
  show "saved demo_saved 1" "\<not> saved demo_saved 2"
    by (simp_all add: saved_def resumable_def demo_saved_def)
  show "distinct (dm_items demo_saved)" "length (dm_items demo_saved) \<le> 2147483648" by (simp_all add: demo_saved_def)
  show "\<forall>p \<in> set (dm_items demo_saved). \<exists>it. dm_heap demo_saved p = Some it \<and> (resumable it \<longrightarrow> storable it)"
    by (simp add: demo_saved_def storable_def resumable_def new_download_def empty_download_def new_metadata_def)
qed

end
