(* ===== verification/Catalog.thy ===== *)
theory Catalog
  imports FieldText PlmSort
begin

section \<open>The music catalog\<close>

text \<open>
  \<open>base/src/database.cpp\<close> and \<open>base/src/musiccatalog.cpp\<close>. The database is a map from keys to values, which
  \<open>gdbm_store\<close>, \<open>gdbm_fetch\<close> and \<open>gdbm_delete\<close> change and read at one key; the order in which
  \<open>gdbm_firstkey\<close> and \<open>gdbm_nextkey\<close> go through it is a parameter \<open>nk\<close>. The catalog keeps, beside the database,
  the songs by artist and album, those without an artist, the playlists, the streams, the songs
  without a signature and the table from signatures to URLs. Each item belongs to one of the lists,
  so the lists hold the items themselves. \<open>cat_held\<close> counts the acquisitions of \<open>m_catMutex\<close> that a call has
  not undone when it returns. What \<open>RetrieveMetaDataNow\<close> finds out about a file is the parameter \<open>retr\<close>.
\<close>

subsection \<open>The database\<close>

type_synonym database = "string \<Rightarrow> string option"
type_synonym next_key = "database \<Rightarrow> string option \<Rightarrow> string option"

definition DATABASE_VERSION_KEY :: string where
  "DATABASE_VERSION_KEY = ''FREEAMP_DATABASE_VERSION''"

definition SUB_VERSION_KEY :: string where
  "SUB_VERSION_KEY = ''FREEAMP_SUB_VERSION''"

definition db_Insert :: "string \<Rightarrow> string \<Rightarrow> database \<Rightarrow> database" where
  "db_Insert key content db = db(c_str key \<mapsto> c_str content)"

definition db_Remove :: "string \<Rightarrow> database \<Rightarrow> database" where
  "db_Remove key db = db(c_str key := None)"

definition db_Value :: "string \<Rightarrow> database \<Rightarrow> string option" where
  "db_Value key db = map_option c_str (db (c_str key))"

definition db_Exists :: "string \<Rightarrow> database \<Rightarrow> bool" where
  "db_Exists key db \<longleftrightarrow> db (c_str key) \<noteq> None"

text \<open>\<open>NextKey\<close> passes over the key of the version.\<close>

partial_function (option) db_NextKey :: "next_key \<Rightarrow> database \<Rightarrow> string option \<Rightarrow> string option option" where
  "db_NextKey nk db key = (case nk db key of
       None \<Rightarrow> Some None
     | Some k \<Rightarrow> if k = DATABASE_VERSION_KEY then db_NextKey nk db (Some k) else Some (Some k))"

definition db_GetSubVersion :: "database \<Rightarrow> int" where
  "db_GetSubVersion db = (case db_Value SUB_VERSION_KEY db of None \<Rightarrow> 0 | Some v \<Rightarrow> atoi v)"

definition db_StoreSubVersion :: "nat \<Rightarrow> database \<Rightarrow> database" where
  "db_StoreSubVersion version db = db_Insert SUB_VERSION_KEY (decimal version) db"

definition db_TestDatabaseVersion :: "nat \<Rightarrow> database \<Rightarrow> bool" where
  "db_TestDatabaseVersion version db = (case db_Value DATABASE_VERSION_KEY db of
       None \<Rightarrow> False | Some v \<Rightarrow> int version = atoi v)"

definition db_StoreDatabaseVersion :: "nat \<Rightarrow> database \<Rightarrow> database" where
  "db_StoreDatabaseVersion version db = db_Insert DATABASE_VERSION_KEY (decimal version) db"

text \<open>The constructor with a version: a database of another version is emptied.\<close>

definition db_open :: "nat \<Rightarrow> database \<Rightarrow> bool \<times> database" where
  "db_open version disk =
     (if db_TestDatabaseVersion version disk then (False, db_StoreDatabaseVersion version disk)
      else (True, db_StoreDatabaseVersion version Map.empty))"

subsection \<open>The catalog\<close>

record album_list =
  al_name :: string
  m_trackList :: "item list"

record artist_list =
  ar_name :: string
  m_albumList :: "album_list list"

datatype storage_type = kTypeTrack | kTypeStream

text \<open>The artist and album an event points to, when it does.\<close>

type_synonym place = "(string \<times> string) option"

datatype catalog_event =
    TrackRemoved item place
  | TrackAdded item place
  | TrackChanged "(item \<times> place) option" "(item \<times> place) option"
  | CatPlaylistAdded string
  | CatPlaylistRemoved string
  | StreamAdded item
  | StreamRemoved item
  | CatalogCleared
  | UnsignaturedTracksExist

record catalog =
  cat_working :: bool
  cat_db :: database
  m_artistList :: "artist_list list"
  m_unsorted :: "item list"
  m_playlists :: "string list"
  m_streams :: "item list"
  m_sigs :: "string set"
  m_guidTable :: "(string \<times> string) list"
  m_trackCount :: int
  m_inUpdateSong :: bool
  m_bSurpressAddMessages :: bool
  m_killGUIDs :: bool
  cat_old :: "(item \<times> place) option"
  cat_new :: "(item \<times> place) option"
  cat_held :: nat
  cat_events :: "catalog_event list"

definition cat_construct :: "database \<Rightarrow> catalog" where
  "cat_construct db = \<lparr>cat_working = True, cat_db = db, m_artistList = [], m_unsorted = [], m_playlists = [], m_streams = [],
     m_sigs = {}, m_guidTable = [], m_trackCount = 0, m_inUpdateSong = False, m_bSurpressAddMessages = False,
     m_killGUIDs = False, cat_old = None, cat_new = None, cat_held = 0, cat_events = []\<rparr>"

definition cat_send :: "catalog_event \<Rightarrow> catalog \<Rightarrow> catalog" where
  "cat_send e s = s\<lparr>cat_events := cat_events s @ [e]\<rparr>"

text \<open>\<open>AcceptEvent\<close> for the two events the catalog sends to itself.\<close>

definition cat_AcceptRemoved :: "item \<Rightarrow> place \<Rightarrow> catalog \<Rightarrow> catalog" where
  "cat_AcceptRemoved it pl s = (if m_inUpdateSong s then s\<lparr>cat_old := Some (it, pl)\<rparr> else cat_send (TrackRemoved it pl) s)"

definition cat_AcceptAdded :: "item \<Rightarrow> place \<Rightarrow> catalog \<Rightarrow> catalog" where
  "cat_AcceptAdded it pl s = (if m_inUpdateSong s then s\<lparr>cat_new := Some (it, pl)\<rparr>
     else if \<not> m_bSurpressAddMessages s then cat_send (TrackAdded it pl) s else s)"

definition CaseCompare :: "string \<Rightarrow> string \<Rightarrow> bool" where
  "CaseCompare s1 s2 \<longleftrightarrow> map toupper s1 = map toupper s2"

definition GetFilename :: "string \<Rightarrow> catalog \<Rightarrow> string" where
  "GetFilename guid s = (case find (\<lambda>(g, u). g = guid) (m_guidTable s) of None \<Rightarrow> [] | Some (g, u) \<Rightarrow> u)"

subsection \<open>Metadata in the database\<close>

definition note_guid :: "metadata \<Rightarrow> string \<Rightarrow> catalog \<Rightarrow> catalog" where
  "note_guid md url s = (if m_guid md \<noteq> [] \<and> GetFilename (m_guid md) s = []
     then s\<lparr>m_guidTable := m_guidTable s @ [(c_str (m_guid md), url)]\<rparr> else s)"

definition metadata_fields :: "metadata \<Rightarrow> string list" where
  "metadata_fields md = [m_artist md, m_album md, m_title md, m_comment md, m_genre md, long_text (m_year md), long_text (m_track md),
     long_text (m_time md), long_text (m_size md), long_text (m_playcount md), m_guid md]"

definition metadata_text :: "storage_type \<Rightarrow> metadata \<Rightarrow> string" where
  "metadata_text type md = (if type = kTypeStream then ''S'' else ''M'') @ '' '' @ ''11'' @ '' '' @
     concat (map (\<lambda>f. long_text (length f) @ '' '') (metadata_fields md)) @ concat (metadata_fields md)"

definition WriteMetaDataToDatabase :: "storage_type \<Rightarrow> string \<Rightarrow> metadata \<Rightarrow> catalog \<Rightarrow> catalog" where
  "WriteMetaDataToDatabase type url md s = (if \<not> cat_working s then s
     else (let s = note_guid md url s in s\<lparr>cat_db := db_Insert url (metadata_text type md) (cat_db s)\<rparr>))"

definition set_metadata_field :: "nat \<Rightarrow> string \<Rightarrow> metadata \<Rightarrow> metadata" where
  "set_metadata_field j f md =
     (if j = 0 then md\<lparr>m_artist := f\<rparr>
      else if j = 1 then md\<lparr>m_album := f\<rparr>
      else if j = 2 then md\<lparr>m_title := f\<rparr>
      else if j = 3 then md\<lparr>m_comment := f\<rparr>
      else if j = 4 then md\<lparr>m_genre := f\<rparr>
      else if j = 5 then md\<lparr>m_year := to_u32 (atoi f)\<rparr>
      else if j = 6 then md\<lparr>m_track := to_u32 (atoi f)\<rparr>
      else if j = 7 then md\<lparr>m_time := to_u32 (atoi f)\<rparr>
      else if j = 8 then md\<lparr>m_size := to_u32 (atoi f)\<rparr>
      else if j = 9 then md\<lparr>m_playcount := to_u32 (atoi f)\<rparr>
      else if j = 10 then md\<lparr>m_guid := f\<rparr>
      else md)"

text \<open>An empty field is passed over; \<open>substr\<close> throws when it begins past the end.\<close>

fun read_fields :: "nat \<Rightarrow> nat list \<Rightarrow> string \<Rightarrow> nat \<Rightarrow> metadata \<Rightarrow> metadata option" where
  "read_fields j [] data pos md = Some md"
| "read_fields j (n # ns) data pos md =
     (if n = 0 then read_fields (j + 1) ns data pos md
      else if pos \<le> length data
      then read_fields (j + 1) ns data (pos + n) (set_metadata_field j (take n (drop pos data)) md) else None)"

definition read_record :: "string \<Rightarrow> metadata option" where
  "read_record v = (if length v < 2 then None else do {
     (lens, data) \<leftarrow> scan_record (drop 2 v);
     read_fields 0 lens data 0 new_metadata
   })"

definition ReadMetaDataFromDatabase :: "string \<Rightarrow> catalog \<Rightarrow> (metadata option \<times> catalog) option" where
  "ReadMetaDataFromDatabase url s =
     (if \<not> cat_working s then Some (None, s)
      else (case db_Value url (cat_db s) of
          None \<Rightarrow> Some (None, s)
        | Some v \<Rightarrow> do { md \<leftarrow> read_record v; Some (Some md, note_guid md url s) }))"

subsection \<open>Songs\<close>

definition no_artist :: "metadata \<Rightarrow> bool" where
  "no_artist md \<longleftrightarrow> m_artist md = [] \<or> m_artist md = '' ''"

definition has_url :: "string \<Rightarrow> item list \<Rightarrow> bool" where
  "has_url url ts \<longleftrightarrow> (\<exists>t \<in> set ts. it_url t = url)"

text \<open>
  The loop of \<open>AddSong\<close> over the albums of an artist: \<^const>\<open>None\<close> when the album has the URL already, and else
  the new list with the name of the album, when there was one.
\<close>

fun add_to_album :: "item \<Rightarrow> string \<Rightarrow> album_list list \<Rightarrow> (album_list list \<times> string) option option" where
  "add_to_album t album [] = Some None"
| "add_to_album t album (al # als) =
     (if CaseCompare album (al_name al) then
        (if has_url (it_url t) (m_trackList al) then None
         else Some (Some (al\<lparr>m_trackList := m_trackList al @ [t]\<rparr> # als, al_name al)))
      else (case add_to_album t album als of
          None \<Rightarrow> None
        | Some None \<Rightarrow> Some None
        | Some (Some (als', nm)) \<Rightarrow> Some (Some (al # als', nm))))"

text \<open>
  The loop over the artists, which goes on behind an artist whose album was found: whether the song is a duplicate, the
  artists, and for each place it was added to its names and whether it was counted. A duplicate deletes the
  item, which must not be in a list by then.
\<close>

fun add_to_artists ::
  "item \<Rightarrow> string \<Rightarrow> string \<Rightarrow> artist_list list \<Rightarrow> (bool \<times> artist_list list \<times> ((string \<times> string) \<times> bool) list) option" where
  "add_to_artists t artist album [] = Some (False, [], [])"
| "add_to_artists t artist album (ar # ars) =
     (if CaseCompare artist (ar_name ar) then
        (case add_to_album t album (m_albumList ar) of
           None \<Rightarrow> Some (True, ar # ars, [])
         | Some None \<Rightarrow>
             Some (False, ar\<lparr>m_albumList := m_albumList ar @ [\<lparr>al_name = album, m_trackList = [t]\<rparr>]\<rparr> # ars,
               [((ar_name ar, album), False)])
         | Some (Some (als, nm)) \<Rightarrow> do {
             (dup, ars', places) \<leftarrow> add_to_artists t artist album ars;
             if dup then None
             else Some (False, ar\<lparr>m_albumList := als\<rparr> # ars', ((ar_name ar, nm), True) # places)
           })
      else do {
        (dup, ars', places) \<leftarrow> add_to_artists t artist album ars;
        Some (dup, ar # ars', places)
      })"

definition cat_added :: "item \<Rightarrow> (string \<times> string) \<times> bool \<Rightarrow> catalog \<Rightarrow> catalog" where
  "cat_added t placed s = (let s = cat_AcceptAdded t (Some (fst placed)) s
     in if snd placed then s\<lparr>m_trackCount := m_trackCount s + 1\<rparr> else s)"

definition unknown_if_blank :: "string \<Rightarrow> string" where
  "unknown_if_blank x = (if x = '' '' \<or> x = [] then ''Unknown'' else x)"

text \<open>Where \<open>AddSong\<close> puts a song with an artist.\<close>

definition cat_place_song :: "item \<Rightarrow> metadata \<Rightarrow> catalog \<Rightarrow> (error \<times> catalog) option" where
  "cat_place_song newtrack meta s = do {
     (dup, artists, places) \<leftarrow> add_to_artists newtrack (m_artist meta) (m_album meta) (m_artistList s);
     if dup then Some (kError_DuplicateItem, s)
     else if places = [] then
       Some (kError_NoErr, cat_AcceptAdded newtrack (Some (m_artist meta, m_album meta))
         (s\<lparr>m_artistList := artists @ [\<lparr>ar_name = m_artist meta,
             m_albumList = [\<lparr>al_name = m_album meta, m_trackList = [newtrack]\<rparr>]\<rparr>]\<rparr>))
     else Some (kError_NoErr, fold (cat_added newtrack) places (s\<lparr>m_artistList := artists\<rparr>))
   }"

text \<open>The part of \<open>AddSong\<close> under the lock.\<close>

definition cat_insert_song :: "string \<Rightarrow> metadata \<Rightarrow> catalog \<Rightarrow> (error \<times> catalog) option" where
  "cat_insert_song url meta s =
     (let newtrack = new_item url (Some meta);
          s = (if m_guid meta \<noteq> [] then s\<lparr>m_guidTable := m_guidTable s @ [(m_guid meta, url)]\<rparr>
               else s\<lparr>m_sigs := insert url (m_sigs s)\<rparr>)
      in if no_artist meta then
           (if has_url url (m_unsorted s) then Some (kError_DuplicateItem, s)
            else let s = cat_AcceptAdded newtrack None (s\<lparr>m_unsorted := m_unsorted s @ [newtrack]\<rparr>)
                 in Some (kError_NoErr, s\<lparr>m_trackCount := m_trackCount s + 1\<rparr>))
         else
           (let meta2 = meta\<lparr>m_album := unknown_if_blank (m_album meta), m_title := unknown_if_blank (m_title meta)\<rparr>;
                s = (if meta2 \<noteq> meta then WriteMetaDataToDatabase kTypeTrack url meta2 s else s)
            in cat_place_song newtrack meta2 s))"

definition cat_AddSong :: "(string \<Rightarrow> metadata) \<Rightarrow> string \<Rightarrow> catalog \<Rightarrow> (error \<times> catalog) option" where
  "cat_AddSong retr url s =
     (if \<not> cat_working s then Some (kError_DatabaseNotWorking, s)
      else do {
        (meta, s) \<leftarrow> ReadMetaDataFromDatabase url s;
        (meta, s) \<leftarrow> (case meta of
            None \<Rightarrow> ReadMetaDataFromDatabase url (WriteMetaDataToDatabase kTypeTrack url (retr url) s)
          | Some m \<Rightarrow> Some (Some m, s));
        case meta of
          None \<Rightarrow> Some (kError_DatabaseNotWorking, s)
        | Some meta \<Rightarrow>
            (let meta' = (if m_killGUIDs s then meta\<lparr>m_guid := []\<rparr> else meta);
                 s = (if m_killGUIDs s then WriteMetaDataToDatabase kTypeTrack url meta' s else s)
             in cat_insert_song url meta' s)
      })"

text \<open>The first item with the URL, and the list without it.\<close>

fun take_url :: "string \<Rightarrow> item list \<Rightarrow> (item \<times> item list) option" where
  "take_url url [] = None"
| "take_url url (t # ts) = (if it_url t = url then Some (t, ts)
     else map_option (\<lambda>(r, ts'). (r, t # ts')) (take_url url ts))"

text \<open>
  The loops of \<open>RemoveSong\<close>. An album or artist that is empty after the search is erased; when the song was not found
  in it the loop then passes over the next one, and runs past the end when there is none.
\<close>

fun remove_from_albums :: "string \<Rightarrow> string \<Rightarrow> album_list list \<Rightarrow> (album_list list \<times> (item \<times> string) option) option" where
  "remove_from_albums url album [] = Some ([], None)"
| "remove_from_albums url album (al # als) =
     (if CaseCompare album (al_name al) then
        (case take_url url (m_trackList al) of
           Some (t, ts) \<Rightarrow> Some (if ts = [] then als else al\<lparr>m_trackList := ts\<rparr> # als, Some (t, al_name al))
         | None \<Rightarrow>
             (if m_trackList al = [] then
                (case als of [] \<Rightarrow> None
                 | next # rest \<Rightarrow> do { (als', r) \<leftarrow> remove_from_albums url album rest; Some (next # als', r) })
              else do { (als', r) \<leftarrow> remove_from_albums url album als; Some (al # als', r) }))
      else do { (als', r) \<leftarrow> remove_from_albums url album als; Some (al # als', r) })"

fun remove_from_artists ::
  "string \<Rightarrow> string \<Rightarrow> string \<Rightarrow> artist_list list \<Rightarrow> (artist_list list \<times> (item \<times> string \<times> string) option) option" where
  "remove_from_artists url artist album [] = Some ([], None)"
| "remove_from_artists url artist album (ar # ars) =
     (if CaseCompare artist (ar_name ar) then do {
        (als, r) \<leftarrow> remove_from_albums url album (m_albumList ar);
        case r of
          Some (t, nm) \<Rightarrow> Some (if als = [] then ars else ar\<lparr>m_albumList := als\<rparr> # ars, Some (t, ar_name ar, nm))
        | None \<Rightarrow>
            (if als = [] then
               (case ars of [] \<Rightarrow> None
                | next # rest \<Rightarrow> do { (ars', r) \<leftarrow> remove_from_artists url artist album rest; Some (next # ars', r) })
             else do { (ars', r) \<leftarrow> remove_from_artists url artist album ars; Some (ar\<lparr>m_albumList := als\<rparr> # ars', r) })
      }
      else do { (ars', r) \<leftarrow> remove_from_artists url artist album ars; Some (ar # ars', r) })"

text \<open>Removed items and albums are not deleted; the signature stays in the table.\<close>

definition cat_RemoveSong :: "string \<Rightarrow> catalog \<Rightarrow> (error \<times> catalog) option" where
  "cat_RemoveSong url s =
     (if \<not> cat_working s then Some (kError_DatabaseNotWorking, s)
      else do {
        (meta, s) \<leftarrow> ReadMetaDataFromDatabase url s;
        case meta of None \<Rightarrow> Some (kError_ItemNotFound, s)
        | Some meta \<Rightarrow>
            (let s = s\<lparr>cat_db := db_Remove url (cat_db s)\<rparr>
             in if no_artist meta then
                  (case take_url url (m_unsorted s) of
                     None \<Rightarrow> Some (kError_NoErr, s)
                   | Some (t, ts) \<Rightarrow>
                       (let s = cat_AcceptRemoved t None s
                        in Some (kError_NoErr, s\<lparr>m_unsorted := ts, m_trackCount := m_trackCount s - 1\<rparr>)))
                else do {
                  (ars, r) \<leftarrow> remove_from_artists url (m_artist meta) (m_album meta) (m_artistList s);
                  Some (kError_NoErr, case r of
                      None \<Rightarrow> s\<lparr>m_artistList := ars\<rparr>
                    | Some (t, place) \<Rightarrow>
                        (let s = cat_AcceptRemoved t (Some place) s
                         in s\<lparr>m_artistList := ars, m_trackCount := m_trackCount s - 1\<rparr>))
                })
      })"

fun find_url :: "string \<Rightarrow> item list \<Rightarrow> item option" where
  "find_url url ts = find (\<lambda>t. it_url t = url) ts"

definition cat_GetPlaylistItemFromURL :: "string \<Rightarrow> catalog \<Rightarrow> (item option \<times> catalog) option" where
  "cat_GetPlaylistItemFromURL url s =
     (if \<not> cat_working s then Some (None, s)
      else do {
        (meta, s) \<leftarrow> ReadMetaDataFromDatabase url s;
        case meta of None \<Rightarrow> Some (None, s)
        | Some meta \<Rightarrow> Some (
            if no_artist meta then find_url url (m_unsorted s)
            else find_url url (concat (map m_trackList (filter (\<lambda>al. CaseCompare (m_album meta) (al_name al))
                (concat (map m_albumList (filter (\<lambda>ar. CaseCompare (m_artist meta) (ar_name ar)) (m_artistList s))))))), s)
      })"

text \<open>An error leaves \<open>m_inUpdateSong\<close> set.\<close>

definition cat_UpdateSong :: "(string \<Rightarrow> metadata) \<Rightarrow> item \<Rightarrow> catalog \<Rightarrow> (error \<times> catalog) option" where
  "cat_UpdateSong retr it s =
     (if \<not> cat_working s then Some (kError_DatabaseNotWorking, s)
      else do {
        (err, s) \<leftarrow> cat_RemoveSong (it_url it) (s\<lparr>m_inUpdateSong := True\<rparr>);
        if IsError err then Some (err, s)
        else do {
          (err, s) \<leftarrow> cat_AddSong retr (it_url it) (WriteMetaDataToDatabase kTypeTrack (it_url it) (it_metadata it) s);
          if IsError err then Some (err, s)
          else Some (kError_NoErr, cat_send (TrackChanged (cat_old s) (cat_new s)) (s\<lparr>m_inUpdateSong := False\<rparr>))
        }
      })"

subsection \<open>Playlists and streams\<close>

definition is_currentlist :: "string \<Rightarrow> bool" where
  "is_currentlist url \<longleftrightarrow> strstr ''currentlist.m3u'' url \<noteq> None"

definition cat_RemovePlaylist :: "string \<Rightarrow> catalog \<Rightarrow> error \<times> catalog" where
  "cat_RemovePlaylist url s =
     (if \<not> cat_working s then (kError_DatabaseNotWorking, s)
      else if db_Value url (cat_db s) = None then (kError_ItemNotFound, s)
      else let s = s\<lparr>cat_db := db_Remove url (cat_db s)\<rparr>
           in if url \<in> set (m_playlists s) then
                (kError_NoErr, if \<not> is_currentlist url
                   then cat_send (CatPlaylistRemoved url) (s\<lparr>m_playlists := remove1 url (m_playlists s)\<rparr>) else s)
              else (kError_ItemNotFound, s))"

definition cat_AddPlaylist :: "string \<Rightarrow> catalog \<Rightarrow> error \<times> catalog" where
  "cat_AddPlaylist url s =
     (if \<not> cat_working s then (kError_DatabaseNotWorking, s)
      else let s = (if db_Value url (cat_db s) = None then s\<lparr>cat_db := db_Insert url ''P'' (cat_db s)\<rparr> else s)
           in if url \<notin> set (m_playlists s) then
                (kError_NoErr, cat_send (CatPlaylistAdded url)
                   (s\<lparr>m_playlists := (if is_currentlist url then url # m_playlists s else m_playlists s @ [url])\<rparr>))
              else (kError_DuplicateItem, s))"

text \<open>A stream that is there already returns without releasing \<open>m_catMutex\<close>.\<close>

definition cat_AddStream :: "string \<Rightarrow> catalog \<Rightarrow> (error \<times> catalog) option" where
  "cat_AddStream url s =
     (if \<not> cat_working s then Some (kError_DatabaseNotWorking, s)
      else do {
        (meta, s) \<leftarrow> ReadMetaDataFromDatabase url s;
        case meta of None \<Rightarrow> Some (kError_DatabaseNotWorking, s)
        | Some meta \<Rightarrow>
            (let newstream = new_item url (Some meta);
                 s = (if m_guid meta \<noteq> [] then s\<lparr>m_guidTable := m_guidTable s @ [(m_guid meta, url)]\<rparr> else s)
             in if has_url url (m_streams s) then Some (kError_DuplicateItem, s\<lparr>cat_held := cat_held s + 1\<rparr>)
                else Some (kError_NoErr, cat_send (StreamAdded newstream) (s\<lparr>m_streams := m_streams s @ [newstream]\<rparr>)))
      })"

definition cat_RemoveStream :: "string \<Rightarrow> catalog \<Rightarrow> (error \<times> catalog) option" where
  "cat_RemoveStream url s =
     (if \<not> cat_working s then Some (kError_DatabaseNotWorking, s)
      else do {
        (meta, s) \<leftarrow> ReadMetaDataFromDatabase url s;
        case meta of None \<Rightarrow> Some (kError_ItemNotFound, s)
        | Some meta \<Rightarrow>
            (let s = s\<lparr>cat_db := db_Remove url (cat_db s)\<rparr>;
                 s = (case take_url url (m_streams s) of None \<Rightarrow> s
                   | Some (t, ts) \<Rightarrow> cat_send (StreamRemoved t) (s\<lparr>m_streams := ts\<rparr>))
             in Some (kError_NoErr, if m_guid meta \<noteq> [] then s\<lparr>m_guidTable := remove1 (m_guid meta, url) (m_guidTable s)\<rparr> else s))
      })"

subsection \<open>By the type of the record\<close>

definition cat_Remove :: "string \<Rightarrow> catalog \<Rightarrow> (error \<times> catalog) option" where
  "cat_Remove url s =
     (if \<not> cat_working s then Some (kError_DatabaseNotWorking, s)
      else (case db_Value url (cat_db s) of
          None \<Rightarrow> Some (kError_ItemNotFound, s)
        | Some data \<Rightarrow>
            (if data \<noteq> [] \<and> hd data = CHR ''M'' then cat_RemoveSong url s
             else if data \<noteq> [] \<and> hd data = CHR ''P'' then Some (cat_RemovePlaylist url s)
             else if data \<noteq> [] \<and> hd data = CHR ''S'' then cat_RemoveStream url s
             else Some (kError_YouScrewedUp, s))))"

definition cat_Add :: "(string \<Rightarrow> metadata) \<Rightarrow> string \<Rightarrow> catalog \<Rightarrow> (error \<times> catalog) option" where
  "cat_Add retr url s =
     (if \<not> cat_working s then Some (kError_DatabaseNotWorking, s)
      else (case db_Value url (cat_db s) of
          None \<Rightarrow> Some (kError_ItemNotFound, s)
        | Some data \<Rightarrow>
            (if data \<noteq> [] \<and> hd data = CHR ''M'' then cat_AddSong retr url s
             else if data \<noteq> [] \<and> hd data = CHR ''P'' then Some (cat_AddPlaylist url s)
             else if data \<noteq> [] \<and> hd data = CHR ''S'' then cat_AddStream url s
             else Some (kError_YouScrewedUp, s))))"

definition cat_ClearCatalog :: "catalog \<Rightarrow> catalog" where
  "cat_ClearCatalog s = s\<lparr>m_artistList := [], m_unsorted := [], m_playlists := [], m_streams := [], m_sigs := {}, m_guidTable := [],
     m_trackCount := 0\<rparr>"

text \<open>
  \<open>RePopulateFromDatabase\<close>; the errors of the single calls are ignored. Whether the signature service is turned on
  is the argument \<open>apsOn\<close>.
\<close>

partial_function (option) repopulate_loop ::
  "next_key \<Rightarrow> (string \<Rightarrow> metadata) \<Rightarrow> string option \<Rightarrow> catalog \<Rightarrow> catalog option" where
  "repopulate_loop nk retr key s = (case key of
       None \<Rightarrow> Some s
     | Some k \<Rightarrow> do {
         (err, s') \<leftarrow> cat_Add retr k s;
         key' \<leftarrow> db_NextKey nk (cat_db s') (Some k);
         repopulate_loop nk retr key' s'
       })"

definition cat_RePopulateFromDatabase ::
  "next_key \<Rightarrow> (string \<Rightarrow> metadata) \<Rightarrow> bool \<Rightarrow> catalog \<Rightarrow> (error \<times> catalog) option" where
  "cat_RePopulateFromDatabase nk retr apsOn s =
     (if \<not> cat_working s then Some (kError_DatabaseNotWorking, s)
      else do {
        let s = cat_send CatalogCleared (cat_ClearCatalog s);
        let old = (db_GetSubVersion (cat_db s) < 3);
        let s = s\<lparr>m_killGUIDs := (old \<or> m_killGUIDs s), m_bSurpressAddMessages := True\<rparr>;
        key \<leftarrow> db_NextKey nk (cat_db s) None;
        s \<leftarrow> repopulate_loop nk retr key s;
        let s = s\<lparr>m_killGUIDs := (\<not> old \<and> m_killGUIDs s), cat_db := db_StoreSubVersion 3 (cat_db s), m_bSurpressAddMessages := False\<rparr>;
        Some (kError_NoErr, if m_sigs s \<noteq> {} \<and> apsOn then cat_send UnsignaturedTracksExist s else s)
      })"

subsection \<open>Sorting\<close>

text \<open>\<open>comp_catalog\<close>; \<open>std::sort\<close> may leave equal elements in any order, the model keeps theirs.\<close>

definition comp_track :: "item \<Rightarrow> item \<Rightarrow> bool" where
  "comp_track a b = (if m_track (it_metadata a) = m_track (it_metadata b)
     then string_less (m_title (it_metadata a)) (m_title (it_metadata b)) else m_track (it_metadata a) < m_track (it_metadata b))"

definition std_sort :: "('a \<Rightarrow> 'a \<Rightarrow> bool) \<Rightarrow> 'a list \<Rightarrow> 'a list" where
  "std_sort lt xs = foldr (stable_insert lt) xs []"

definition cat_Sort :: "catalog \<Rightarrow> catalog" where
  "cat_Sort s = s\<lparr>m_playlists := std_sort string_less (m_playlists s),
     m_unsorted := std_sort comp_track (m_unsorted s),
     m_artistList := std_sort (\<lambda>a b. string_less (ar_name a) (ar_name b))
       (map (\<lambda>ar. ar\<lparr>m_albumList := std_sort (\<lambda>a b. string_less (al_name a) (al_name b))
           (map (\<lambda>al. al\<lparr>m_trackList := std_sort comp_track (m_trackList al)\<rparr>) (m_albumList ar))\<rparr>) (m_artistList s)),
     m_streams := std_sort comp_track (m_streams s)\<rparr>"

end
