(* ===== verification/CatalogSongs.thy ===== *)
theory CatalogSongs
  imports Catalog
begin

section \<open>What the catalog lists\<close>

text \<open>
  The invariant of the catalog and what adding and removing a song does to the songs it lists. A song is
  listed under the artist and album of its record in the database, or without both; the
  lookups of the code compare names without case, so no two artists, and no two albums of an artist, may
  differ in case only.
\<close>

subsection \<open>Metadata survives the database\<close>

definition md_storable :: "metadata \<Rightarrow> bool" where
  "md_storable md \<longleftrightarrow>
     (\<forall>f \<in> {m_artist md, m_album md, m_title md, m_comment md, m_genre md, m_guid md}. CHR 0x00 \<notin> set f \<and> length f < 1000000000) \<and>
     (\<forall>n \<in> {m_year md, m_track md, m_time md, m_size md, m_playcount md}. n < 4294967296)"

text \<open>The extension is not stored.\<close>

definition stored :: "metadata \<Rightarrow> metadata" where
  "stored md = md\<lparr>m_extension := []\<rparr>"

lemma stored_simps [simp]:
  "m_artist (stored md) = m_artist md" "m_album (stored md) = m_album md" "m_title (stored md) = m_title md"
  "m_guid (stored md) = m_guid md" "md_storable (stored md) = md_storable md"
  by (simp_all add: stored_def md_storable_def)

lemma read_fields_text:
  "read_fields j (map length fs) (pre @ concat fs) (length pre) md =
   Some (snd (foldl (\<lambda>(j, md) f. (j + 1, if f = [] then md else set_metadata_field j f md)) (j, md) fs))"
proof (induction fs arbitrary: j pre md)
  case (Cons f fs)
  from Cons.IH [of "j + 1" "pre @ f" "if f = [] then md else set_metadata_field j f md"] show ?case
    by (cases "f = []") simp_all
qed simp

lemma metadata_fields_11: "length (metadata_fields md) = 11"
  by (simp add: metadata_fields_def)

lemma length_long_text: "n < 4294967296 \<Longrightarrow> length (long_text n) < 1000000000"
proof -
  assume "n < 4294967296"
  then have "length (decimal n) \<le> 10" "length (decimal (4294967296 - n)) \<le> 10"
    by (intro length_decimal; simp)+
  then show ?thesis by (simp add: long_text_def)
qed

lemma long_text_nonempty [simp]: "long_text n \<noteq> []"
  by (simp add: long_text_def)

lemma metadata_fields_ok:
  "md_storable md \<Longrightarrow> f \<in> set (metadata_fields md) \<Longrightarrow> CHR 0x00 \<notin> set f \<and> length f < 1000000000"
  using long_text_no_nul length_long_text by (auto simp: md_storable_def metadata_fields_def)

lemma set_fields_stored:
  assumes "md_storable md"
  shows "snd (foldl (\<lambda>(j, m) f. (j + 1, if f = [] then m else set_metadata_field j f m)) (0, new_metadata) (metadata_fields md)) = stored md"
  using assms
  by (simp add: metadata_fields_def set_metadata_field_def to_u32_atoi_long md_storable_def stored_def new_metadata_def)

lemma metadata_text_fields:
  assumes st: "md_storable md"
  shows "metadata_text type md = (if type = kTypeStream then CHR ''S'' else CHR ''M'') # CHR '' '' #
    decimal (length (map length (metadata_fields md))) @ CHR '' '' # lengths_text (map length (metadata_fields md)) @ concat (metadata_fields md)"
proof -
  have "long_text (length f) = decimal (length f)" if "f \<in> set (metadata_fields md)" for f
    using metadata_fields_ok [OF st that] by (simp add: long_text_def)
  then have "map (\<lambda>f. long_text (length f) @ '' '') (metadata_fields md) = map (\<lambda>f. decimal (length f) @ '' '') (metadata_fields md)"
    by (intro map_cong) simp_all
  moreover have "decimal 11 = ''11''" by code_simp
  ultimately show ?thesis by (simp only: metadata_text_def lengths_text_def metadata_fields_11 length_map map_map o_def) simp
qed

lemma metadata_text_no_nul: "md_storable md \<Longrightarrow> CHR 0x00 \<notin> set (metadata_text type md)"
  using metadata_fields_ok lengths_text_no_nul decimal_no_nul by (auto simp: metadata_text_fields)

lemma read_record_text:
  assumes st: "md_storable md"
  shows "read_record (metadata_text type md) = Some (stored md)"
proof -
  let ?fs = "metadata_fields md"
  have "m_guid md \<in> set ?fs" by (simp add: metadata_fields_def)
  then have "length (decimal (last (map length ?fs))) \<le> 9"
    using metadata_fields_ok [OF st, of "m_guid md"] by (intro length_decimal) (simp_all add: metadata_fields_def)
  then have last: "length (decimal (last (map length ?fs))) < 10" by simp
  have small: "\<forall>n \<in> set (map length ?fs). n < 4294967296" using metadata_fields_ok [OF st] by fastforce
  have data: "CHR 0x00 \<notin> set (concat ?fs)" using metadata_fields_ok [OF st] by auto
  have n: "1 < length (map length ?fs)" "length (map length ?fs) < 4294967296" by (simp_all add: metadata_fields_11)
  show ?thesis
    using scan_record_text [OF n small last data] read_fields_text [of 0 ?fs "[]" new_metadata] set_fields_stored [OF st]
    unfolding read_record_def metadata_text_fields [OF st] by simp
qed

subsection \<open>The songs and the invariant\<close>

definition norm :: "string \<Rightarrow> string" where
  "norm s = map toupper s"

lemma CaseCompare_norm: "CaseCompare a b \<longleftrightarrow> norm a = norm b"
  by (simp add: CaseCompare_def norm_def)

definition artist_songs :: "artist_list \<Rightarrow> (place \<times> item) list" where
  "artist_songs ar = concat (map (\<lambda>al. map (\<lambda>t. (Some (ar_name ar, al_name al), t)) (m_trackList al)) (m_albumList ar))"

definition songs :: "catalog \<Rightarrow> (place \<times> item) list" where
  "songs s = map (\<lambda>t. (None, t)) (m_unsorted s) @ concat (map artist_songs (m_artistList s))"

definition song_urls :: "catalog \<Rightarrow> string set" where
  "song_urls s = (it_url \<circ> snd) ` set (songs s)"

definition album_ok :: "album_list \<Rightarrow> bool" where
  "album_ok al \<longleftrightarrow> m_trackList al \<noteq> [] \<and> distinct (map it_url (m_trackList al))"

definition albums_ok :: "album_list list \<Rightarrow> bool" where
  "albums_ok als \<longleftrightarrow> distinct (map (norm \<circ> al_name) als) \<and> (\<forall>al \<in> set als. album_ok al)"

definition artist_ok :: "artist_list \<Rightarrow> bool" where
  "artist_ok ar \<longleftrightarrow> m_albumList ar \<noteq> [] \<and> albums_ok (m_albumList ar)"

definition artists_ok :: "artist_list list \<Rightarrow> bool" where
  "artists_ok ars \<longleftrightarrow> distinct (map (norm \<circ> ar_name) ars) \<and> (\<forall>ar \<in> set ars. artist_ok ar)"

text \<open>Where a song with this metadata belongs.\<close>

fun place_ok :: "place \<Rightarrow> metadata \<Rightarrow> bool" where
  "place_ok None md \<longleftrightarrow> no_artist md"
| "place_ok (Some (artist, album)) md \<longleftrightarrow>
     \<not> no_artist md \<and> norm (m_artist md) = norm artist \<and> norm (m_album md) = norm album \<and> unknown_if_blank (m_album md) = m_album md"

definition song_record :: "database \<Rightarrow> string \<Rightarrow> metadata option" where
  "song_record db url = (case db url of None \<Rightarrow> None
     | Some v \<Rightarrow> if v \<noteq> [] \<and> hd v = CHR ''M'' then read_record v else None)"

definition readable :: "string \<Rightarrow> bool" where
  "readable v \<longleftrightarrow> c_str v = v \<and> (v \<noteq> [] \<and> hd v \<in> {CHR ''M'', CHR ''S''} \<longrightarrow> (\<exists>md. read_record v = Some md \<and> md_storable md))"

definition db_ok :: "database \<Rightarrow> bool" where
  "db_ok db \<longleftrightarrow> (\<forall>url v. db url = Some v \<longrightarrow> c_str url = url \<and> readable v)"

definition songs_ok :: "catalog \<Rightarrow> bool" where
  "songs_ok s \<longleftrightarrow> distinct (map it_url (m_unsorted s)) \<and> artists_ok (m_artistList s) \<and>
     (\<forall>(pl, t) \<in> set (songs s). \<exists>md. song_record (cat_db s) (it_url t) = Some md \<and> place_ok pl md)"

definition cat_ok :: "catalog \<Rightarrow> bool" where
  "cat_ok s \<longleftrightarrow> cat_working s \<and> db_ok (cat_db s) \<and> songs_ok s \<and> distinct (m_playlists s) \<and> distinct (map it_url (m_streams s))"

subsection \<open>The loops over albums and artists\<close>

lemma has_url_iff: "has_url url ts \<longleftrightarrow> url \<in> it_url ` set ts"
  by (auto simp: has_url_def)

lemma add_to_album_absent:
  "norm album \<notin> norm ` al_name ` set als \<Longrightarrow> add_to_album t album als = Some None"
  by (induction als) (auto simp: CaseCompare_norm)

definition album_songs :: "string \<Rightarrow> album_list list \<Rightarrow> (place \<times> item) list" where
  "album_songs artist als = concat (map (\<lambda>al. map (\<lambda>t. (Some (artist, al_name al), t)) (m_trackList al)) als)"

lemma album_songs_simps [simp]:
  "album_songs artist [] = []"
  "album_songs artist (al # als) = map (\<lambda>t. (Some (artist, al_name al), t)) (m_trackList al) @ album_songs artist als"
  "album_songs artist (als @ als') = album_songs artist als @ album_songs artist als'"
  by (simp_all add: album_songs_def)

lemma artist_songs_albums: "artist_songs ar = album_songs (ar_name ar) (m_albumList ar)"
  by (simp add: artist_songs_def album_songs_def)

lemma album_songs_place: "x \<in> set (album_songs artist als) \<Longrightarrow> \<exists>al \<in> set als. fst x = Some (artist, al_name al)"
  by (auto simp: album_songs_def)

lemma add_to_album_found:
  assumes "albums_ok als" and "norm album \<in> norm ` al_name ` set als"
  shows "\<exists>al \<in> set als. norm (al_name al) = norm album \<and>
    (if has_url (it_url t) (m_trackList al) then add_to_album t album als = None
     else \<exists>als'. add_to_album t album als = Some (Some (als', al_name al)) \<and> als' \<noteq> [] \<and>
       map al_name als' = map al_name als \<and> albums_ok als' \<and>
       mset (album_songs artist als') = add_mset (Some (artist, al_name al), t) (mset (album_songs artist als)))"
  using assms
proof (induction als)
  case (Cons x als)
  show ?case
  proof (cases "norm (al_name x) = norm album")
    case True
    then show ?thesis using Cons.prems(1)
      by (intro bexI [of _ x]) (auto simp: CaseCompare_norm albums_ok_def album_ok_def has_url_iff)
  next
    case False
    then have "\<not> CaseCompare album (al_name x)" by (auto simp: CaseCompare_norm)
    moreover have "albums_ok als" "norm album \<in> norm ` al_name ` set als"
      using Cons.prems False by (auto simp: albums_ok_def)
    then obtain al where al: "al \<in> set als" "norm (al_name al) = norm album"
      "if has_url (it_url t) (m_trackList al) then add_to_album t album als = None
       else \<exists>als'. add_to_album t album als = Some (Some (als', al_name al)) \<and> als' \<noteq> [] \<and>
         map al_name als' = map al_name als \<and> albums_ok als' \<and>
         mset (album_songs artist als') = add_mset (Some (artist, al_name al), t) (mset (album_songs artist als))"
      using Cons.IH by blast
    moreover have "albums_ok (x # als')" if "albums_ok als'" "map al_name als' = map al_name als" for als'
    proof -
      have "map (norm \<circ> al_name) als' = map (norm \<circ> al_name) als" using that(2) by (metis map_map)
      moreover from this have "set (map (norm \<circ> al_name) als') = set (map (norm \<circ> al_name) als)" by simp
      ultimately show ?thesis using that(1) Cons.prems(1) by (auto simp: albums_ok_def)
    qed
    ultimately show ?thesis
      by (intro bexI [of _ al]) (fastforce split: if_splits)+
  qed
qed simp

definition key :: "place \<times> item \<Rightarrow> (string \<times> string) option \<times> string" where
  "key x = (map_option (\<lambda>(a, b). (norm a, norm b)) (fst x), it_url (snd x))"

lemma key_simps [simp]: "key (Some (a, b), t) = (Some (norm a, norm b), it_url t)" "key (None, t) = (None, it_url t)"
  by (simp_all add: key_def)

lemma albums_key_distinct: "albums_ok als \<Longrightarrow> distinct (map key (album_songs artist als))"
proof (induction als)
  case (Cons al als)
  then have "albums_ok als" "album_ok al" "norm (al_name al) \<notin> norm ` al_name ` set als" by (auto simp: albums_ok_def)
  moreover from this have "distinct (map (\<lambda>t. (Some (norm artist, norm (al_name al)), it_url t)) (m_trackList al))"
    by (auto simp: album_ok_def distinct_map inj_on_def)
  ultimately show ?case using Cons.IH by (auto simp: o_def dest!: album_songs_place)
qed simp

lemma artists_key_distinct: "artists_ok ars \<Longrightarrow> distinct (map key (concat (map artist_songs ars)))"
proof (induction ars)
  case (Cons ar ars)
  then have ok: "artists_ok ars" "artist_ok ar" "norm (ar_name ar) \<notin> (norm \<circ> ar_name) ` set ars"
    by (simp_all add: artists_ok_def)
  from ok(3) have "\<forall>x \<in> set ars. norm (ar_name x) \<noteq> norm (ar_name ar)" by (metis comp_apply imageI)
  moreover from ok(2) have "distinct (map key (artist_songs ar))"
    by (simp add: artist_songs_albums artist_ok_def albums_key_distinct)
  ultimately show ?case using Cons.IH [OF ok(1)] by (auto simp: artist_songs_albums dest!: album_songs_place)
qed simp

lemma albums_ok_update:
  assumes "artist_ok ar" "albums_ok als" "als \<noteq> []"
  shows "artist_ok (ar\<lparr>m_albumList := als\<rparr>)"
  using assms by (simp add: artist_ok_def)

lemma add_to_artists_absent:
  "norm artist \<notin> norm ` ar_name ` set ars \<Longrightarrow> add_to_artists t artist album ars = Some (False, ars, [])"
  by (induction ars) (auto simp: CaseCompare_norm)

lemma albums_ok_append:
  "albums_ok als \<Longrightarrow> norm album \<notin> norm ` al_name ` set als \<Longrightarrow> albums_ok (als @ [\<lparr>al_name = album, m_trackList = [t]\<rparr>])"
  by (auto simp: albums_ok_def album_ok_def)

lemma add_to_artist:
  assumes ok: "artists_ok (ar # ars)" and eq: "norm (ar_name ar) = norm artist"
  shows "\<exists>dup ar' places. add_to_artists t artist album (ar # ars) = Some (dup, ar' # ars, places) \<and>
    (if dup then ar' = ar \<and> (\<exists>x \<in> set (artist_songs ar). key x = (Some (norm artist, norm album), it_url t))
     else ar_name ar' = ar_name ar \<and> artist_ok ar' \<and> (\<exists>b c. places = [((ar_name ar, b), c)] \<and> norm b = norm album \<and>
       mset (artist_songs ar') = add_mset (Some (ar_name ar, b), t) (mset (artist_songs ar))))"
proof -
  have ar: "artist_ok ar" "albums_ok (m_albumList ar)" using ok by (auto simp: artists_ok_def artist_ok_def)
  have other: "add_to_artists t artist album ars = Some (False, ars, [])"
    using ok eq by (intro add_to_artists_absent) (auto simp: artists_ok_def)
  have cmp: "CaseCompare artist (ar_name ar)" using eq by (simp add: CaseCompare_norm)
  show ?thesis
  proof (cases "norm album \<in> norm ` al_name ` set (m_albumList ar)")
    case False
    then show ?thesis using ar cmp add_to_album_absent [OF False, of t] albums_ok_append [OF ar(2) False, of t]
      by (simp add: artist_songs_albums artist_ok_def) blast
  next
    case True
    from add_to_album_found [OF ar(2) True, of t "ar_name ar"] obtain al where al: "al \<in> set (m_albumList ar)"
      "norm (al_name al) = norm album"
      "if has_url (it_url t) (m_trackList al) then add_to_album t album (m_albumList ar) = None
       else \<exists>als'. add_to_album t album (m_albumList ar) = Some (Some (als', al_name al)) \<and> als' \<noteq> [] \<and>
         map al_name als' = map al_name (m_albumList ar) \<and> albums_ok als' \<and>
         mset (album_songs (ar_name ar) als') = add_mset (Some (ar_name ar, al_name al), t) (mset (album_songs (ar_name ar) (m_albumList ar)))"
      by blast
    show ?thesis
    proof (cases "has_url (it_url t) (m_trackList al)")
      case True
      then obtain t' where "t' \<in> set (m_trackList al)" "it_url t' = it_url t" by (auto simp: has_url_iff)
      then have "(Some (ar_name ar, al_name al), t') \<in> set (artist_songs ar)" using al(1) by (auto simp: artist_songs_def)
      then have "\<exists>x \<in> set (artist_songs ar). key x = (Some (norm artist, norm album), it_url t)"
        using \<open>it_url t' = it_url t\<close> al(2) eq by (intro bexI) auto
      then show ?thesis using True al(3) cmp by simp blast
    next
      case False
      then obtain als' where "add_to_album t album (m_albumList ar) = Some (Some (als', al_name al))" "als' \<noteq> []" "albums_ok als'"
        "mset (album_songs (ar_name ar) als') = add_mset (Some (ar_name ar, al_name al), t) (mset (album_songs (ar_name ar) (m_albumList ar)))"
        using al(3) by auto
      then show ?thesis using cmp other al(2) ar(1) by (simp add: artist_songs_albums artist_ok_def) blast
    qed
  qed
qed

lemma add_to_artists_found:
  assumes "artists_ok ars" and "norm artist \<in> norm ` ar_name ` set ars"
  shows "\<exists>dup ars' places. add_to_artists t artist album ars = Some (dup, ars', places) \<and>
    (if dup then \<exists>x \<in> set (concat (map artist_songs ars)). key x = (Some (norm artist, norm album), it_url t)
     else map ar_name ars' = map ar_name ars \<and> artists_ok ars' \<and> (\<exists>a b c. places = [((a, b), c)] \<and> norm a = norm artist \<and> norm b = norm album \<and>
       mset (concat (map artist_songs ars')) = add_mset (Some (a, b), t) (mset (concat (map artist_songs ars)))))"
  using assms
proof (induction ars)
  case (Cons ar ars)
  show ?case
  proof (cases "norm (ar_name ar) = norm artist")
    case True
    from add_to_artist [OF Cons.prems(1) this, of t album] obtain dup ar' places where
      r: "add_to_artists t artist album (ar # ars) = Some (dup, ar' # ars, places)" and
      c: "if dup then ar' = ar \<and> (\<exists>x \<in> set (artist_songs ar). key x = (Some (norm artist, norm album), it_url t))
         else ar_name ar' = ar_name ar \<and> artist_ok ar' \<and> (\<exists>b c. places = [((ar_name ar, b), c)] \<and> norm b = norm album \<and>
           mset (artist_songs ar') = add_mset (Some (ar_name ar, b), t) (mset (artist_songs ar)))" by blast
    then show ?thesis using Cons.prems(1) True by (cases dup) (auto simp: artists_ok_def)
  next
    case False
    then have "\<not> CaseCompare artist (ar_name ar)" by (auto simp: CaseCompare_norm)
    moreover have "artists_ok ars" "norm artist \<in> norm ` ar_name ` set ars"
      using Cons.prems False by (auto simp: artists_ok_def)
    from Cons.IH [OF this] obtain dup ars' places where r: "add_to_artists t artist album ars = Some (dup, ars', places)" and
      c: "if dup then \<exists>x \<in> set (concat (map artist_songs ars)). key x = (Some (norm artist, norm album), it_url t)
         else map ar_name ars' = map ar_name ars \<and> artists_ok ars' \<and> (\<exists>a b c. places = [((a, b), c)] \<and> norm a = norm artist \<and> norm b = norm album \<and>
           mset (concat (map artist_songs ars')) = add_mset (Some (a, b), t) (mset (concat (map artist_songs ars))))" by blast
    moreover have "artists_ok (ar # ars')" if "artists_ok ars'" "map ar_name ars' = map ar_name ars"
    proof -
      have "set (map (norm \<circ> ar_name) ars') = set (map (norm \<circ> ar_name) ars)" using that(2) by (metis map_map)
      then show ?thesis using that(1) Cons.prems(1) by (auto simp: artists_ok_def)
    qed
    ultimately show ?thesis by (cases dup) auto
  qed
qed simp

lemma take_url_Some:
  "take_url url ts = Some (t, ts') \<Longrightarrow> it_url t = url \<and> mset ts = add_mset t (mset ts') \<and>
   (distinct (map it_url ts) \<longrightarrow> distinct (map it_url ts'))"
proof (induction ts arbitrary: ts')
  case (Cons x ts)
  show ?case
  proof (cases "it_url x = url")
    case False
    then obtain us where us: "take_url url ts = Some (t, us)" "ts' = x # us" using Cons.prems by auto
    then have "set us \<subseteq> set ts" using Cons.IH [OF us(1)] by (metis mset_eq_setD set_mset_add_mset_insert set_mset_mset subset_insertI)
    then show ?thesis using Cons.IH [OF us(1)] us(2) by auto
  qed (use Cons.prems in auto)
qed simp

lemma take_url_None: "take_url url ts = None \<longleftrightarrow> \<not> has_url url ts"
  by (induction ts) (auto simp: has_url_def)

lemma remove_from_albums_spec:
  "albums_ok als \<Longrightarrow> \<exists>als' r. remove_from_albums url album als = Some (als', r) \<and> albums_ok als' \<and>
     al_name ` set als' \<subseteq> al_name ` set als \<and>
     (case r of
        None \<Rightarrow> als' = als \<and> (\<forall>x \<in> set (album_songs artist als). key x \<noteq> (Some (norm artist, norm album), url))
      | Some (t, nm) \<Rightarrow> it_url t = url \<and> norm nm = norm album \<and>
          mset (album_songs artist als) = add_mset (Some (artist, nm), t) (mset (album_songs artist als')))"
proof (induction als)
  case Nil
  then show ?case by simp
next
  case (Cons al als)
  then have ok: "albums_ok als" "album_ok al" "norm (al_name al) \<notin> (norm \<circ> al_name) ` set als" by (auto simp: albums_ok_def)
  obtain als' r where IH: "remove_from_albums url album als = Some (als', r)" "albums_ok als'" "al_name ` set als' \<subseteq> al_name ` set als"
    "case r of
        None \<Rightarrow> als' = als \<and> (\<forall>x \<in> set (album_songs artist als). key x \<noteq> (Some (norm artist, norm album), url))
      | Some (t, nm) \<Rightarrow> it_url t = url \<and> norm nm = norm album \<and>
          mset (album_songs artist als) = add_mset (Some (artist, nm), t) (mset (album_songs artist als'))"
    using Cons.IH [OF ok(1)] by blast
  have nm: "norm (al_name al) \<notin> (norm \<circ> al_name) ` set als'"
    using ok(3) IH(3) by (metis (no_types, lifting) image_comp image_mono subsetD)
  then have ok': "albums_ok (al # als')" using ok(2) IH(2) by (simp add: albums_ok_def)
  show ?case
  proof (cases "norm (al_name al) = norm album \<and> has_url url (m_trackList al)")
    case True
    then obtain t ts where t: "take_url url (m_trackList al) = Some (t, ts)" using take_url_None by (cases "take_url url (m_trackList al)") auto
    note t' = take_url_Some [OF t]
    have "albums_ok (al\<lparr>m_trackList := ts\<rparr> # als)" if "ts \<noteq> []"
      using that ok t' by (simp add: albums_ok_def album_ok_def)
    then show ?thesis using True t t' ok
      by (auto simp: CaseCompare_norm)
  next
    case False
    then have r: "remove_from_albums url album (al # als) = Some (al # als', r)"
      using IH(1) ok(2) take_url_None [of url "m_trackList al"]
      by (auto simp: CaseCompare_norm album_ok_def split: option.splits)
    have "\<forall>x \<in> set (map (\<lambda>t. (Some (artist, al_name al), t)) (m_trackList al)). key x \<noteq> (Some (norm artist, norm album), url)"
      using False by (auto simp: has_url_iff)
    then show ?thesis using r ok' IH(3,4) by (auto split: option.splits)
  qed
qed

lemma remove_from_artists_spec:
  "artists_ok ars \<Longrightarrow> \<exists>ars' r. remove_from_artists url artist album ars = Some (ars', r) \<and> artists_ok ars' \<and>
     ar_name ` set ars' \<subseteq> ar_name ` set ars \<and>
     (case r of
        None \<Rightarrow> ars' = ars \<and> (\<forall>x \<in> set (concat (map artist_songs ars)). key x \<noteq> (Some (norm artist, norm album), url))
      | Some (t, pl) \<Rightarrow> it_url t = url \<and> norm (fst pl) = norm artist \<and> norm (snd pl) = norm album \<and>
          mset (concat (map artist_songs ars)) = add_mset (Some pl, t) (mset (concat (map artist_songs ars'))))"
proof (induction ars)
  case Nil
  then show ?case by (simp add: artists_ok_def)
next
  case (Cons ar ars)
  then have ok: "artists_ok ars" "artist_ok ar" "norm (ar_name ar) \<notin> (norm \<circ> ar_name) ` set ars" by (auto simp: artists_ok_def)
  obtain ars' r where IH: "remove_from_artists url artist album ars = Some (ars', r)" "artists_ok ars'" "ar_name ` set ars' \<subseteq> ar_name ` set ars"
    "case r of
        None \<Rightarrow> ars' = ars \<and> (\<forall>x \<in> set (concat (map artist_songs ars)). key x \<noteq> (Some (norm artist, norm album), url))
      | Some (t, pl) \<Rightarrow> it_url t = url \<and> norm (fst pl) = norm artist \<and> norm (snd pl) = norm album \<and>
          mset (concat (map artist_songs ars)) = add_mset (Some pl, t) (mset (concat (map artist_songs ars')))"
    using Cons.IH [OF ok(1)] by blast
  have nm: "norm (ar_name ar) \<notin> (norm \<circ> ar_name) ` set ars'"
    using ok(3) IH(3) by (metis (no_types, lifting) image_comp image_mono subsetD)
  then have ok': "artists_ok (ar # ars')" using ok(2) IH(2) by (simp add: artists_ok_def)
  have aok: "albums_ok (m_albumList ar)" "m_albumList ar \<noteq> []" using ok(2) by (simp_all add: artist_ok_def)
  obtain als' q where A: "remove_from_albums url album (m_albumList ar) = Some (als', q)" "albums_ok als'"
    "case q of
        None \<Rightarrow> als' = m_albumList ar \<and> (\<forall>x \<in> set (artist_songs ar). key x \<noteq> (Some (norm (ar_name ar), norm album), url))
      | Some (t, nm) \<Rightarrow> it_url t = url \<and> norm nm = norm album \<and>
          mset (artist_songs ar) = add_mset (Some (ar_name ar, nm), t) (mset (album_songs (ar_name ar) als'))"
    unfolding artist_songs_albums using remove_from_albums_spec [OF aok(1), of url album "ar_name ar"] by blast
  show ?case
  proof (cases "norm (ar_name ar) = norm artist \<and> q \<noteq> None")
    case True
    then obtain t nm where q: "q = Some (t, nm)" by auto
    have "artists_ok (ar\<lparr>m_albumList := als'\<rparr> # ars)" if "als' \<noteq> []"
      using that ok A(2) by (simp add: artists_ok_def artist_ok_def)
    then show ?thesis using True q A ok by (auto simp: CaseCompare_norm artist_songs_albums)
  next
    case False
    then have r: "remove_from_artists url artist album (ar # ars) = Some (ar # ars', r)"
      using IH(1) A aok(2) by (auto simp: CaseCompare_norm split: option.splits)
    have "\<forall>x \<in> set (artist_songs ar). key x \<noteq> (Some (norm artist, norm album), url)"
      using False A(3) by (auto simp: artist_songs_def split: option.splits)
    then show ?thesis using r ok' IH(3,4) by (auto split: option.splits)
  qed
qed

subsection \<open>Reading and writing records\<close>

lemma note_guid_simps [simp]:
  "cat_working (note_guid md url s) = cat_working s" "cat_db (note_guid md url s) = cat_db s"
  "m_artistList (note_guid md url s) = m_artistList s" "m_unsorted (note_guid md url s) = m_unsorted s"
  "m_playlists (note_guid md url s) = m_playlists s" "m_streams (note_guid md url s) = m_streams s"
  "m_trackCount (note_guid md url s) = m_trackCount s" "cat_held (note_guid md url s) = cat_held s"
  "m_killGUIDs (note_guid md url s) = m_killGUIDs s" "m_inUpdateSong (note_guid md url s) = m_inUpdateSong s"
  by (simp_all add: note_guid_def)

lemma Accept_simps [simp]:
  "cat_working (cat_AcceptAdded it pl s) = cat_working s" "cat_db (cat_AcceptAdded it pl s) = cat_db s"
  "m_artistList (cat_AcceptAdded it pl s) = m_artistList s" "m_unsorted (cat_AcceptAdded it pl s) = m_unsorted s"
  "m_playlists (cat_AcceptAdded it pl s) = m_playlists s" "m_streams (cat_AcceptAdded it pl s) = m_streams s"
  "m_trackCount (cat_AcceptAdded it pl s) = m_trackCount s" "cat_held (cat_AcceptAdded it pl s) = cat_held s"
  "cat_working (cat_AcceptRemoved it pl s) = cat_working s" "cat_db (cat_AcceptRemoved it pl s) = cat_db s"
  "m_artistList (cat_AcceptRemoved it pl s) = m_artistList s" "m_unsorted (cat_AcceptRemoved it pl s) = m_unsorted s"
  "m_playlists (cat_AcceptRemoved it pl s) = m_playlists s" "m_streams (cat_AcceptRemoved it pl s) = m_streams s"
  "m_trackCount (cat_AcceptRemoved it pl s) = m_trackCount s" "cat_held (cat_AcceptRemoved it pl s) = cat_held s"
  by (simp_all add: cat_AcceptAdded_def cat_AcceptRemoved_def cat_send_def)

lemma Write_simps [simp]:
  "cat_working (WriteMetaDataToDatabase ty url md s) = cat_working s"
  "m_artistList (WriteMetaDataToDatabase ty url md s) = m_artistList s" "m_unsorted (WriteMetaDataToDatabase ty url md s) = m_unsorted s"
  "m_playlists (WriteMetaDataToDatabase ty url md s) = m_playlists s" "m_streams (WriteMetaDataToDatabase ty url md s) = m_streams s"
  "m_trackCount (WriteMetaDataToDatabase ty url md s) = m_trackCount s" "cat_held (WriteMetaDataToDatabase ty url md s) = cat_held s"
  "m_killGUIDs (WriteMetaDataToDatabase ty url md s) = m_killGUIDs s"
  by (simp_all add: WriteMetaDataToDatabase_def Let_def)

lemma songs_cong:
  "m_unsorted s' = m_unsorted s \<Longrightarrow> m_artistList s' = m_artistList s \<Longrightarrow> songs s' = songs s"
  by (simp add: songs_def)

lemma Write_db:
  assumes "cat_working s" "md_storable md" "c_str url = url"
  shows "cat_db (WriteMetaDataToDatabase ty url md s) = (cat_db s)(url \<mapsto> metadata_text ty md)"
  using assms metadata_text_no_nul [OF assms(2)]
  by (simp add: WriteMetaDataToDatabase_def Let_def db_Insert_def c_str_id)

lemma song_record_text: "md_storable md \<Longrightarrow> song_record (db(url \<mapsto> metadata_text kTypeTrack md)) url = Some (stored md)"
  using read_record_text [of md kTypeTrack] by (simp add: song_record_def metadata_text_def)

lemma song_record_cong: "db' url = db url \<Longrightarrow> song_record db' url = song_record db url"
  by (simp add: song_record_def)

lemma db_ok_text: "db_ok db \<Longrightarrow> md_storable md \<Longrightarrow> c_str url = url \<Longrightarrow> db_ok (db(url \<mapsto> metadata_text ty md))"
  using read_record_text [of md ty] metadata_text_no_nul [of md ty] by (auto simp: db_ok_def readable_def c_str_id)

lemma db_ok_delete: "db_ok db \<Longrightarrow> db_ok (db(url := None))"
  by (auto simp: db_ok_def)

lemma Value_ok: "db_ok db \<Longrightarrow> c_str url = url \<Longrightarrow> db_Value url db = db url"
  by (cases "db url") (auto simp: db_Value_def db_ok_def readable_def)

lemma Read_None:
  "cat_working s \<Longrightarrow> db_ok (cat_db s) \<Longrightarrow> c_str url = url \<Longrightarrow> cat_db s url = None \<Longrightarrow> ReadMetaDataFromDatabase url s = Some (None, s)"
  by (simp add: ReadMetaDataFromDatabase_def Value_ok)

definition is_record :: "database \<Rightarrow> string \<Rightarrow> char \<Rightarrow> bool" where
  "is_record db url c \<longleftrightarrow> (\<exists>v. db url = Some v \<and> v \<noteq> [] \<and> hd v = c)"

lemma Read_Some:
  assumes "cat_working s" "db_ok (cat_db s)" "c_str url = url" "is_record (cat_db s) url c" "c \<in> {CHR ''M'', CHR ''S''}"
  obtains md where "ReadMetaDataFromDatabase url s = Some (Some md, note_guid md url s)" "md_storable md"
    "c = CHR ''M'' \<Longrightarrow> song_record (cat_db s) url = Some md"
proof -
  obtain v where v: "cat_db s url = Some v" "v \<noteq> []" "hd v = c" using assms(4) by (auto simp: is_record_def)
  then have "readable v" using assms(2) by (simp add: db_ok_def)
  then obtain md where md: "read_record v = Some md" "md_storable md" using v assms(5) by (auto simp: readable_def)
  then have "ReadMetaDataFromDatabase url s = Some (Some md, note_guid md url s)"
    using assms(1-3) v(1) by (simp add: ReadMetaDataFromDatabase_def Value_ok)
  then show thesis using that md v by (simp add: song_record_def)
qed

lemma song_record_is_record: "song_record db url = Some md \<Longrightarrow> is_record db url (CHR ''M'')"
  by (auto simp: song_record_def is_record_def split: option.splits if_splits)

subsection \<open>Adding a song\<close>

lemma place_ok_key: "place_ok pl md \<Longrightarrow> key (pl, t) = (if no_artist md then None else Some (norm (m_artist md), norm (m_album md)), it_url t)"
  by (cases pl) (auto simp: key_def)

lemma song_urls_key:
  assumes "songs_ok s" and "song_record (cat_db s) url = Some md"
  shows "url \<in> song_urls s \<longleftrightarrow>
    (if no_artist md then None else Some (norm (m_artist md), norm (m_album md)), url) \<in> key ` set (songs s)"
proof
  assume "url \<in> song_urls s"
  then obtain pl t where x: "(pl, t) \<in> set (songs s)" "it_url t = url" by (auto simp: song_urls_def)
  then have "place_ok pl md" using assms by (auto simp: songs_ok_def)
  then show "(if no_artist md then None else Some (norm (m_artist md), norm (m_album md)), url) \<in> key ` set (songs s)"
    using x place_ok_key [of pl md t] by (metis image_eqI)
next
  assume "(if no_artist md then None else Some (norm (m_artist md), norm (m_album md)), url) \<in> key ` set (songs s)"
  then show "url \<in> song_urls s" by (force simp: song_urls_def key_def)
qed

lemma key_unsorted: "(None, url) \<in> key ` set (songs s) \<longleftrightarrow> has_url url (m_unsorted s)"
  by (force simp: songs_def has_url_iff artist_songs_def key_def)

lemma key_artists: "(Some k, url) \<in> key ` set (songs s) \<longleftrightarrow> (Some k, url) \<in> key ` set (concat (map artist_songs (m_artistList s)))"
  by (auto simp: songs_def image_Un key_def)

lemma mset_key_fresh:
  assumes "distinct (map f xs)" and "mset xs = add_mset y (mset ys)"
  shows "f y \<notin> f ` set ys"
proof -
  have "mset (map f xs) = mset (map f (y # ys))" using assms(2) by simp
  then have "distinct (map f (y # ys))" using assms(1) by (metis mset_eq_imp_distinct_iff)
  then show ?thesis by simp
qed

lemma songs_ok_rewrite:
  assumes ok: "songs_ok s" and r: "song_record (cat_db s) url = Some md" "song_record (cat_db s') url = Some md'"
    and same: "m_artist md' = m_artist md" "unknown_if_blank (m_album md) = m_album md \<Longrightarrow> m_album md' = m_album md"
    and other: "\<And>u. u \<noteq> url \<Longrightarrow> cat_db s' u = cat_db s u" and lists: "m_unsorted s' = m_unsorted s" "m_artistList s' = m_artistList s"
  shows "songs_ok s'"
proof -
  have "\<exists>md. song_record (cat_db s') (it_url t) = Some md \<and> place_ok pl md" if "(pl, t) \<in> set (songs s)" for pl t
  proof (cases "it_url t = url")
    case True
    then have "place_ok pl md" using that ok r(1) by (auto simp: songs_ok_def)
    then have "place_ok pl md'" using same by (cases "(pl, md)" rule: place_ok.cases) (auto simp: no_artist_def)
    then show ?thesis using True r(2) by simp
  next
    case False
    then show ?thesis using that ok song_record_cong [of "cat_db s'" "it_url t" "cat_db s"] other [OF False] by (auto simp: songs_ok_def)
  qed
  then show ?thesis using ok lists songs_cong [OF lists] by (auto simp: songs_ok_def)
qed

text \<open>What a call about one URL leaves alone.\<close>

definition kept_else :: "string \<Rightarrow> catalog \<Rightarrow> catalog \<Rightarrow> bool" where
  "kept_else url s s' \<longleftrightarrow> cat_working s' = cat_working s \<and> m_playlists s' = m_playlists s \<and> m_streams s' = m_streams s \<and>
     cat_held s' = cat_held s \<and> (\<forall>u. u \<noteq> url \<longrightarrow> cat_db s' u = cat_db s u)"

lemma kept_else_refl [simp]: "kept_else url s s"
  by (simp add: kept_else_def)

lemma kept_else_trans: "kept_else url s s' \<Longrightarrow> kept_else url s' s'' \<Longrightarrow> kept_else url s s''"
  by (simp add: kept_else_def)

lemma songs_ok_add:
  assumes ok: "songs_ok s" and r: "song_record (cat_db s) (it_url t) = Some md" and pl: "place_ok pl md"
    and lists: "distinct (map it_url (m_unsorted s'))" "artists_ok (m_artistList s')" and db: "cat_db s' = cat_db s"
    and songs: "mset (songs s') = add_mset (pl, t) (mset (songs s))"
  shows "songs_ok s'"
proof -
  have "set (songs s') = insert (pl, t) (set (songs s))" using songs by (metis set_mset_add_mset_insert set_mset_mset)
  then show ?thesis using ok r pl lists db by (auto simp: songs_ok_def)
qed

lemma fold_cat_added:
  "cat_working (fold (cat_added t) ps s) = cat_working s \<and> cat_db (fold (cat_added t) ps s) = cat_db s \<and>
   m_artistList (fold (cat_added t) ps s) = m_artistList s \<and> m_unsorted (fold (cat_added t) ps s) = m_unsorted s \<and>
   m_playlists (fold (cat_added t) ps s) = m_playlists s \<and> m_streams (fold (cat_added t) ps s) = m_streams s \<and>
   cat_held (fold (cat_added t) ps s) = cat_held s"
  by (induction ps arbitrary: s) (auto simp: cat_added_def Let_def)

text \<open>The artist part, for a record that is in the database already.\<close>

lemma add_to_catalog:
  assumes ok: "songs_ok s" and r: "song_record (cat_db s) url = Some md" and na: "\<not> no_artist md"
    and blank: "unknown_if_blank (m_album md) = m_album md"
    and t: "it_url t = url"
  obtains "url \<in> song_urls s" "\<exists>ars places. add_to_artists t (m_artist md) (m_album md) (m_artistList s) = Some (True, ars, places)"
  | "url \<notin> song_urls s" "norm (m_artist md) \<notin> norm ` ar_name ` set (m_artistList s)"
    "add_to_artists t (m_artist md) (m_album md) (m_artistList s) = Some (False, m_artistList s, [])"
  | ars a b c where "url \<notin> song_urls s"
    "add_to_artists t (m_artist md) (m_album md) (m_artistList s) = Some (False, ars, [((a, b), c)])"
    "artists_ok ars" "place_ok (Some (a, b)) md"
    "mset (concat (map artist_songs ars)) = add_mset (Some (a, b), t) (mset (concat (map artist_songs (m_artistList s))))"
proof (cases "norm (m_artist md) \<in> norm ` ar_name ` set (m_artistList s)")
  let ?k = "Some (norm (m_artist md), norm (m_album md))"
  have urls: "url \<in> song_urls s \<longleftrightarrow> (?k, url) \<in> key ` set (concat (map artist_songs (m_artistList s)))"
    using song_urls_key [OF ok r] na by (simp add: key_artists)
  case False
  have "\<not> (?k, url) \<in> key ` set (concat (map artist_songs (m_artistList s)))"
  proof
    assume "(?k, url) \<in> key ` set (concat (map artist_songs (m_artistList s)))"
    then obtain ar x where "ar \<in> set (m_artistList s)" "x \<in> set (artist_songs ar)" "key x = (?k, url)" by auto
    then have "norm (ar_name ar) = norm (m_artist md)" by (auto simp: artist_songs_def)
    then show False using False \<open>ar \<in> set (m_artistList s)\<close> by (metis imageI)
  qed
  then show thesis using that(2) urls False add_to_artists_absent by blast
next
  let ?k = "Some (norm (m_artist md), norm (m_album md))"
  have urls: "url \<in> song_urls s \<longleftrightarrow> (?k, url) \<in> key ` set (concat (map artist_songs (m_artistList s)))"
    using song_urls_key [OF ok r] na by (simp add: key_artists)
  have aok: "artists_ok (m_artistList s)" using ok by (simp add: songs_ok_def)
  case True
  from add_to_artists_found [OF aok this, of t "m_album md"] obtain dup ars places where
    a: "add_to_artists t (m_artist md) (m_album md) (m_artistList s) = Some (dup, ars, places)" and
    c: "if dup then \<exists>x \<in> set (concat (map artist_songs (m_artistList s))). key x = (?k, it_url t)
        else map ar_name ars = map ar_name (m_artistList s) \<and> artists_ok ars \<and> (\<exists>a b c. places = [((a, b), c)] \<and> norm a = norm (m_artist md) \<and>
          norm b = norm (m_album md) \<and>
          mset (concat (map artist_songs ars)) = add_mset (Some (a, b), t) (mset (concat (map artist_songs (m_artistList s)))))" by blast
  show thesis
  proof (cases dup)
    case True
    then obtain x where "x \<in> set (concat (map artist_songs (m_artistList s)))" "key x = (?k, url)" using c t by auto
    then have "url \<in> song_urls s" using urls by (metis imageI)
    then show thesis using that(1) a True by simp
  next
    case False
    then obtain x y z where p: "places = [((x, y), z)]" "norm x = norm (m_artist md)" "norm y = norm (m_album md)" "artists_ok ars"
      "mset (concat (map artist_songs ars)) = add_mset (Some (x, y), t) (mset (concat (map artist_songs (m_artistList s))))"
      using c by auto
    have "key (Some (x, y), t) \<notin> key ` set (concat (map artist_songs (m_artistList s)))"
      by (rule mset_key_fresh [OF artists_key_distinct [OF p(4)] p(5)])
    then have "url \<notin> song_urls s" using urls p(2,3) t by simp
    then show thesis using that(3) a False p na blank by simp
  qed
qed

end
