(* ===== verification/CatalogCalls.thy ===== *)
theory CatalogCalls
  imports CatalogSongs
begin

section \<open>The calls of the catalog keep it in step with the database\<close>

text \<open>
  What \<open>AddSong\<close>, \<open>RemoveSong\<close>, \<open>UpdateSong\<close> and the calls for playlists and streams do to a catalog that satisfies the
  invariant \<open>cat_ok\<close>, what a sequence of calls keeps, and what \<open>RePopulateFromDatabase\<close> lists.
\<close>

subsection \<open>Adding\<close>

lemma no_artist_album [simp]: "no_artist (md\<lparr>m_album := a, m_title := t\<rparr>) = no_artist md"
  by (simp add: no_artist_def)

lemma unknown_twice [simp]: "unknown_if_blank (unknown_if_blank x) = unknown_if_blank x"
  by (simp add: unknown_if_blank_def)

lemma unknown_storable: "md_storable md \<Longrightarrow> md_storable (md\<lparr>m_album := unknown_if_blank (m_album md), m_title := unknown_if_blank (m_title md)\<rparr>)"
  by (auto simp: md_storable_def unknown_if_blank_def)

lemma new_item_simps [simp]: "it_url (new_item url md) = url" "it_metadata (new_item url (Some m)) = m"
  by (simp_all add: new_item_def)

text \<open>What adding promises: a listed song stays as it is, and any other is listed in its place.\<close>

definition song_added :: "string \<Rightarrow> metadata \<Rightarrow> catalog \<Rightarrow> error \<Rightarrow> catalog \<Rightarrow> bool" where
  "song_added url md s err s' \<longleftrightarrow> cat_ok s' \<and> kept_else url s s' \<and>
     (\<exists>md'. song_record (cat_db s') url = Some md' \<and>
       (if url \<in> song_urls s then err = kError_DuplicateItem \<and> songs s' = songs s
        else err = kError_NoErr \<and> (\<exists>pl. place_ok pl md' \<and> mset (songs s') = add_mset (pl, new_item url (Some md)) (mset (songs s)))))"

lemma cat_okI:
  "kept_else url s s' \<Longrightarrow> cat_ok s \<Longrightarrow> db_ok (cat_db s') \<Longrightarrow> songs_ok s' \<Longrightarrow> cat_ok s'"
  by (simp add: kept_else_def cat_ok_def)

lemma song_addedI:
  assumes ok: "cat_ok s" and k: "kept_else url s s'" and db: "cat_db s' = cat_db s" and r: "song_record (cat_db s) url = Some md'"
    and ok': "songs_ok s'" and new: "url \<notin> song_urls s" "place_ok pl md'" "mset (songs s') = add_mset (pl, new_item url (Some md)) (mset (songs s))"
  shows "song_added url md s kError_NoErr s'"
  using cat_okI [OF k ok _ ok'] assms by (auto simp: song_added_def cat_ok_def)

lemma place_song_spec:
  assumes ok: "cat_ok s" and r: "song_record (cat_db s) url = Some md3"
    and md3: "m_artist md3 = m_artist md2" "m_album md3 = m_album md2"
    and p3: "\<not> no_artist md3" "unknown_if_blank (m_album md3) = m_album md3"
  shows "\<exists>err s'. cat_place_song (new_item url (Some md)) md2 s = Some (err, s') \<and> song_added url md s err s'"
proof -
  define t where "t = new_item url (Some md)"
  have tu: "it_url t = url" by (simp add: t_def)
  have sok: "songs_ok s" "db_ok (cat_db s)" "distinct (map it_url (m_unsorted s))" using ok by (simp_all add: cat_ok_def songs_ok_def)
  from sok(1) r p3 tu show ?thesis unfolding t_def [symmetric]
  proof (cases rule: add_to_catalog)
    case 1
    then have "cat_place_song t md2 s = Some (kError_DuplicateItem, s)" using md3 by (auto simp: cat_place_song_def)
    then show "\<exists>err s'. cat_place_song t md2 s = Some (err, s') \<and> song_added url md s err s'"
      using 1(1) ok r by (auto simp: song_added_def)
  next
    case 2
    define s3 where "s3 = cat_AcceptAdded t (Some (m_artist md2, m_album md2))
        (s\<lparr>m_artistList := m_artistList s @ [\<lparr>ar_name = m_artist md2, m_albumList = [\<lparr>al_name = m_album md2, m_trackList = [t]\<rparr>]\<rparr>]\<rparr>)"
    have c: "cat_place_song t md2 s = Some (kError_NoErr, s3)" using 2(3) md3 by (simp add: cat_place_song_def s3_def)
    have m: "mset (songs s3) = add_mset (Some (m_artist md2, m_album md2), t) (mset (songs s))"
      by (simp add: s3_def songs_def artist_songs_def)
    have pl: "place_ok (Some (m_artist md2, m_album md2)) md3" using p3 md3 by simp
    have a3: "artists_ok (m_artistList s3)" using sok(1) 2(2) md3
      by (auto simp: s3_def songs_ok_def artists_ok_def artist_ok_def albums_ok_def album_ok_def)
    have "songs_ok s3"
      by (rule songs_ok_add [OF sok(1) _ pl _ a3 _ m]) (use r tu sok(3) in \<open>simp_all add: s3_def\<close>)
    then have "song_added url md s kError_NoErr s3"
      using m pl by (intro song_addedI [OF ok _ _ r _ 2(1)]) (simp_all add: s3_def kept_else_def t_def)
    then show "\<exists>err s'. cat_place_song t md2 s = Some (err, s') \<and> song_added url md s err s'" using c by blast
  next
    case (3 ars a b z)
    define s3 where "s3 = fold (cat_added t) [((a, b), z)] (s\<lparr>m_artistList := ars\<rparr>)"
    have c: "cat_place_song t md2 s = Some (kError_NoErr, s3)" using 3(2) md3 by (simp add: cat_place_song_def s3_def)
    note f = fold_cat_added [of t "[((a, b), z)]" "s\<lparr>m_artistList := ars\<rparr>", folded s3_def]
    have m: "mset (songs s3) = add_mset (Some (a, b), t) (mset (songs s))"
      using f 3(5) by (simp add: songs_def)
    have "songs_ok s3"
      by (rule songs_ok_add [OF sok(1) _ 3(4) _ _ _ m]) (use f sok(3) r tu 3(3) in simp_all)
    then have "song_added url md s kError_NoErr s3"
      using m 3(4) f by (intro song_addedI [OF ok _ _ r _ 3(1)]) (simp_all add: kept_else_def t_def)
    then show "\<exists>err s'. cat_place_song t md2 s = Some (err, s') \<and> song_added url md s err s'" using c by blast
  qed
qed

lemma insert_unsorted_spec:
  assumes ok: "cat_ok s" and r: "song_record (cat_db s) url = Some md0" and na: "no_artist md" "no_artist md0"
  shows "\<exists>err s'. cat_insert_song url md s = Some (err, s') \<and> song_added url md s err s'"
proof -
  define t where "t = new_item url (Some md)"
  define s1 where "s1 = (if m_guid md \<noteq> [] then s\<lparr>m_guidTable := m_guidTable s @ [(m_guid md, url)]\<rparr> else s\<lparr>m_sigs := insert url (m_sigs s)\<rparr>)"
  have sok: "songs_ok s" "db_ok (cat_db s)" using ok by (simp_all add: cat_ok_def)
  have s1: "songs s1 = songs s" "cat_db s1 = cat_db s" "m_unsorted s1 = m_unsorted s" "m_artistList s1 = m_artistList s"
    "kept_else url s s1" "songs_ok s1"
    using sok by (auto simp: s1_def songs_def kept_else_def songs_ok_def)
  have urls: "url \<in> song_urls s \<longleftrightarrow> has_url url (m_unsorted s)"
    using song_urls_key [OF sok(1) r] na by (simp add: key_unsorted)
  show ?thesis
  proof (cases "has_url url (m_unsorted s)")
    case True
    then have "cat_insert_song url md s = Some (kError_DuplicateItem, s1)"
      using na s1(3) by (simp add: cat_insert_song_def s1_def Let_def)
    moreover have "cat_ok s1" by (rule cat_okI [OF s1(5) ok]) (simp_all add: s1 sok)
    ultimately show ?thesis using urls True s1 r by (auto simp: song_added_def)
  next
    case False
    define s2 where "s2 = (cat_AcceptAdded t None (s1\<lparr>m_unsorted := m_unsorted s1 @ [t]\<rparr>))\<lparr>m_trackCount := m_trackCount s1 + 1\<rparr>"
    have c: "cat_insert_song url md s = Some (kError_NoErr, s2)"
      using na s1(3) False by (simp add: cat_insert_song_def s1_def s2_def t_def Let_def)
    have m: "mset (songs s2) = add_mset (None, t) (mset (songs s))"
      by (simp add: s2_def songs_def s1)
    have "songs_ok s2"
    proof (rule songs_ok_add [OF sok(1) _ _ _ _ _ m])
      show "song_record (cat_db s) (it_url t) = Some md0" "place_ok None md0" using r na by (simp_all add: t_def)
      show "distinct (map it_url (m_unsorted s2))" using sok(1) False by (auto simp: s2_def s1 songs_ok_def has_url_iff t_def)
      show "artists_ok (m_artistList s2)" "cat_db s2 = cat_db s" using sok(1) by (simp_all add: s2_def s1 songs_ok_def)
    qed
    then have "song_added url md s kError_NoErr s2"
      using m na s1 urls False by (intro song_addedI [OF ok _ _ r, where pl = None]) (simp_all add: s2_def kept_else_def t_def)
    then show ?thesis using c by blast
  qed
qed

lemma insert_song_spec:
  assumes ok: "cat_ok s" and url: "c_str url = url" and st: "md_storable md"
    and r: "song_record (cat_db s) url = Some md0" "m_artist md0 = m_artist md" "m_album md0 = m_album md"
  shows "\<exists>err s'. cat_insert_song url md s = Some (err, s') \<and> song_added url md s err s'"
proof (cases "no_artist md")
  case True
  moreover from this have "no_artist md0" using r(2) by (simp add: no_artist_def)
  ultimately show ?thesis by (rule insert_unsorted_spec [OF ok r(1)])
next
  case False
  define s1 where "s1 = (if m_guid md \<noteq> [] then s\<lparr>m_guidTable := m_guidTable s @ [(m_guid md, url)]\<rparr> else s\<lparr>m_sigs := insert url (m_sigs s)\<rparr>)"
  define md2 where "md2 = md\<lparr>m_album := unknown_if_blank (m_album md), m_title := unknown_if_blank (m_title md)\<rparr>"
  define s2 where "s2 = (if md2 \<noteq> md then WriteMetaDataToDatabase kTypeTrack url md2 s1 else s1)"
  define md3 where "md3 = (if md2 \<noteq> md then stored md2 else md0)"
  have sok: "songs_ok s" "cat_working s" "db_ok (cat_db s)" using ok by (simp_all add: cat_ok_def)
  have s1: "cat_db s1 = cat_db s" "m_unsorted s1 = m_unsorted s" "m_artistList s1 = m_artistList s" "kept_else url s s1" "cat_working s1"
    using sok by (auto simp: s1_def kept_else_def)
  have st2: "md_storable md2" "\<not> no_artist md2" "unknown_if_blank (m_album md2) = m_album md2" "m_artist md2 = m_artist md"
    using unknown_storable [OF st] False by (simp_all add: md2_def)
  have db2: "cat_db s2 = (if md2 \<noteq> md then (cat_db s)(url \<mapsto> metadata_text kTypeTrack md2) else cat_db s)"
    using Write_db [OF s1(5) st2(1) url, of kTypeTrack] by (simp add: s2_def s1(1))
  have r2: "song_record (cat_db s2) url = Some md3"
    using song_record_text [OF st2(1)] r(1) by (simp add: db2 md3_def)
  have md3: "m_artist md3 = m_artist md0" "m_artist md3 = m_artist md2" "m_album md3 = m_album md2"
    using r(2,3) st2(4) by (auto simp: md3_def)
  then have p3: "\<not> no_artist md3" "unknown_if_blank (m_album md3) = m_album md3" using st2 by (simp_all add: no_artist_def)
  have lists: "m_unsorted s2 = m_unsorted s" "m_artistList s2 = m_artistList s" by (simp_all add: s2_def s1)
  then have songs2: "songs s2 = songs s" "song_urls s2 = song_urls s" using songs_cong [OF lists] by (simp_all add: song_urls_def)
  have ok2: "songs_ok s2"
    using md3 r(3) by (intro songs_ok_rewrite [OF sok(1) r(1) r2 _ _ _ lists]) (auto simp: db2 md2_def)
  have k2: "kept_else url s s2" using s1(4) db2 by (auto simp: s2_def kept_else_def)
  have "db_ok (cat_db s2)" using sok(3) st2(1) url by (auto simp: db2 db_ok_text)
  then have "cat_ok s2" by (intro cat_okI [OF k2 ok] ok2)
  from place_song_spec [OF this r2 md3(2,3) p3, of md] obtain err s' where
    e: "cat_place_song (new_item url (Some md)) md2 s2 = Some (err, s')" "song_added url md s2 err s'" by blast
  moreover have "cat_insert_song url md s = cat_place_song (new_item url (Some md)) md2 s2"
    using False unfolding cat_insert_song_def Let_def md2_def [symmetric] s1_def [symmetric] s2_def [symmetric] by simp
  ultimately show ?thesis using songs2 k2 kept_else_trans [OF k2] by (auto simp: song_added_def)
qed

text \<open>The metadata \<open>AddSong\<close> lists a song with.\<close>

definition song_md :: "(string \<Rightarrow> metadata) \<Rightarrow> string \<Rightarrow> catalog \<Rightarrow> metadata" where
  "song_md retr url s =
     (let md = (case song_record (cat_db s) url of None \<Rightarrow> stored (retr url) | Some md \<Rightarrow> md)
      in if m_killGUIDs s then md\<lparr>m_guid := []\<rparr> else md)"

lemma no_record_unlisted: "songs_ok s \<Longrightarrow> song_record (cat_db s) url = None \<Longrightarrow> url \<notin> song_urls s"
  by (auto simp: songs_ok_def song_urls_def)

lemma songs_ok_new_record:
  assumes ok: "songs_ok s" and new: "url \<notin> song_urls s" and other: "\<And>u. u \<noteq> url \<Longrightarrow> cat_db s' u = cat_db s u"
    and lists: "m_unsorted s' = m_unsorted s" "m_artistList s' = m_artistList s"
  shows "songs_ok s'"
proof -
  have "\<exists>md. song_record (cat_db s') (it_url t) = Some md \<and> place_ok pl md" if x: "(pl, t) \<in> set (songs s)" for pl t
  proof -
    have "it_url t \<noteq> url" using x new by (force simp: song_urls_def)
    then have "song_record (cat_db s') (it_url t) = song_record (cat_db s) (it_url t)" using other by (intro song_record_cong) simp
    then show ?thesis using ok x by (auto simp: songs_ok_def)
  qed
  then show ?thesis using ok lists songs_cong [OF lists] by (auto simp: songs_ok_def)
qed

lemma guid_storable: "md_storable md \<Longrightarrow> md_storable (md\<lparr>m_guid := []\<rparr>)"
  by (simp add: md_storable_def)

lemma song_added_note: "song_added url md (note_guid m u s) err s' = song_added url md s err s'"
proof -
  have "songs (note_guid m u s) = songs s" by (intro songs_cong) simp_all
  then show ?thesis by (simp add: song_added_def song_urls_def kept_else_def)
qed

text \<open>From the record in the database on.\<close>

lemma add_with_record:
  assumes ok: "cat_ok s" and url: "c_str url = url" and st: "md_storable md" and r: "song_record (cat_db s) url = Some md"
  shows "\<exists>err s'. (let md' = (if m_killGUIDs s then md\<lparr>m_guid := []\<rparr> else md);
       s = (if m_killGUIDs s then WriteMetaDataToDatabase kTypeTrack url md' s else s)
     in cat_insert_song url md' s) = Some (err, s') \<and>
     song_added url (if m_killGUIDs s then md\<lparr>m_guid := []\<rparr> else md) s err s'"
proof (cases "m_killGUIDs s")
  case False
  then show ?thesis using insert_song_spec [OF ok url st r] by simp
next
  case True
  let ?md = "md\<lparr>m_guid := []\<rparr>"
  let ?s = "WriteMetaDataToDatabase kTypeTrack url ?md s"
  have w: "cat_working s" "songs_ok s" "db_ok (cat_db s)" using ok by (simp_all add: cat_ok_def)
  note st' = guid_storable [OF st]
  have db: "cat_db ?s = (cat_db s)(url \<mapsto> metadata_text kTypeTrack ?md)" using Write_db [OF w(1) st' url] by simp
  have r': "song_record (cat_db ?s) url = Some (stored ?md)" unfolding db using st' by (rule song_record_text)
  have k: "kept_else url s ?s" by (simp add: kept_else_def db)
  have "songs_ok ?s" by (rule songs_ok_rewrite [OF w(2) r r']) (simp_all add: db)
  moreover have "db_ok (cat_db ?s)" unfolding db using w(3) st' url by (rule db_ok_text)
  ultimately have "cat_ok ?s" by (intro cat_okI [OF k ok])
  from insert_song_spec [OF this url st' r'] obtain err s' where
    e: "cat_insert_song url ?md ?s = Some (err, s')" "song_added url ?md ?s err s'" by auto
  moreover have "songs ?s = songs s" "song_urls ?s = song_urls s" by (simp_all add: songs_def song_urls_def)
  ultimately show ?thesis using True kept_else_trans [OF k] by (auto simp: song_added_def)
qed

lemma AddSong_spec:
  assumes ok: "cat_ok s" and url: "c_str url = url"
    and rec: "cat_db s url = None \<or> is_record (cat_db s) url (CHR ''M'')" and st: "md_storable (retr url)"
  shows "\<exists>err s'. cat_AddSong retr url s = Some (err, s') \<and> song_added url (song_md retr url s) s err s'"
proof -
  have w: "cat_working s" "songs_ok s" "db_ok (cat_db s)" using ok by (simp_all add: cat_ok_def)
  have read: "\<exists>err s'. cat_AddSong retr url s = Some (err, s') \<and> song_added url (if m_killGUIDs s1 then md\<lparr>m_guid := []\<rparr> else md) s1 err s'"
    if eq: "cat_AddSong retr url s = (let s2 = note_guid md url s1; md' = (if m_killGUIDs s2 then md\<lparr>m_guid := []\<rparr> else md);
          s3 = (if m_killGUIDs s2 then WriteMetaDataToDatabase kTypeTrack url md' s2 else s2) in cat_insert_song url md' s3)"
      and s1: "cat_ok s1" "md_storable md" "song_record (cat_db s1) url = Some md" for md s1
  proof -
    have "songs_ok (note_guid md url s1)" using s1(1) songs_cong [of "note_guid md url s1" s1] by (simp add: songs_ok_def cat_ok_def)
    then have "cat_ok (note_guid md url s1)" using s1(1) by (simp add: cat_ok_def)
    from add_with_record [OF this url s1(2)] s1(3) obtain err s' where
      "cat_AddSong retr url s = Some (err, s')" "song_added url (if m_killGUIDs s1 then md\<lparr>m_guid := []\<rparr> else md) (note_guid md url s1) err s'"
      by (cases "m_killGUIDs s1") (auto simp: eq Let_def)
    then show ?thesis by (auto simp: song_added_note)
  qed
  show ?thesis
  proof (cases "cat_db s url")
    case (Some v)
    then have "is_record (cat_db s) url (CHR ''M'')" using rec by simp
    from Read_Some [OF w(1,3) url this] obtain md where md: "ReadMetaDataFromDatabase url s = Some (Some md, note_guid md url s)"
      "md_storable md" "song_record (cat_db s) url = Some md" by auto
    from read [OF _ ok md(2,3)] md(1,3) show ?thesis
      by (simp add: cat_AddSong_def w(1) Let_def song_md_def)
  next
    case None
    let ?s = "WriteMetaDataToDatabase kTypeTrack url (retr url) s"
    have db: "cat_db ?s = (cat_db s)(url \<mapsto> metadata_text kTypeTrack (retr url))" using Write_db [OF w(1) st url] by simp
    have none: "song_record (cat_db s) url = None" using None by (simp add: song_record_def)
    note new = no_record_unlisted [OF w(2) none]
    have r: "song_record (cat_db ?s) url = Some (stored (retr url))" unfolding db using st by (rule song_record_text)
    have k: "kept_else url s ?s" by (simp add: kept_else_def db)
    have "songs_ok ?s" by (rule songs_ok_new_record [OF w(2) new]) (simp_all add: db)
    moreover have "db_ok (cat_db ?s)" unfolding db using w(3) st url by (rule db_ok_text)
    ultimately have ok': "cat_ok ?s" by (intro cat_okI [OF k ok])
    have "ReadMetaDataFromDatabase url s = Some (None, s)" using w None url by (intro Read_None)
    moreover have "ReadMetaDataFromDatabase url ?s = Some (Some (stored (retr url)), note_guid (stored (retr url)) url ?s)"
    proof -
      have "cat_working ?s" "db_ok (cat_db ?s)" using ok' by (simp_all add: cat_ok_def)
      from Read_Some [OF this url song_record_is_record [OF r]] show ?thesis using r by auto
    qed
    ultimately obtain err s' where e: "cat_AddSong retr url s = Some (err, s')"
      "song_added url (if m_killGUIDs ?s then (stored (retr url))\<lparr>m_guid := []\<rparr> else stored (retr url)) ?s err s'"
      using read [of "stored (retr url)" ?s] ok' r st w(1) by (auto simp: cat_AddSong_def Let_def)
    have "songs ?s = songs s" by (intro songs_cong) simp_all
    moreover from this have "song_urls ?s = song_urls s" by (simp add: song_urls_def)
    moreover have "song_md retr url s = (if m_killGUIDs ?s then (stored (retr url))\<lparr>m_guid := []\<rparr> else stored (retr url))"
      using none by (simp add: song_md_def)
    ultimately have "song_added url (song_md retr url s) s err s'"
      using e(2) kept_else_trans [OF k] by (simp add: song_added_def cong: if_cong)
    then show ?thesis using e(1) by blast
  qed
qed

subsection \<open>Removing and updating\<close>

lemma songs_okD: "songs_ok s \<Longrightarrow> x \<in> set (songs s) \<Longrightarrow> \<exists>md. song_record (cat_db s) (it_url (snd x)) = Some md \<and> place_ok (fst x) md"
  by (cases x) (auto simp: songs_ok_def)

lemma song_urls_distinct:
  assumes ok: "songs_ok s"
  shows "distinct (map (it_url \<circ> snd) (songs s))"
proof -
  have "distinct (map key (map (\<lambda>t. (None, t)) (m_unsorted s)))"
    using ok by (simp add: songs_ok_def o_def distinct_map inj_on_def)
  moreover have "distinct (map key (concat (map artist_songs (m_artistList s))))"
    using ok by (intro artists_key_distinct) (simp add: songs_ok_def)
  ultimately have keys: "distinct (map key (songs s))" by (auto simp: songs_def artist_songs_def)
  have same: "key x = key y" if xy: "x \<in> set (songs s)" "y \<in> set (songs s)" "it_url (snd x) = it_url (snd y)" for x y
  proof -
    obtain md md' where "song_record (cat_db s) (it_url (snd x)) = Some md" "place_ok (fst x) md"
      "song_record (cat_db s) (it_url (snd y)) = Some md'" "place_ok (fst y) md'" using songs_okD [OF ok] xy(1,2) by blast
    then show ?thesis using xy(3) place_ok_key [of "fst x" md "snd x"] place_ok_key [of "fst y" md' "snd y"] by simp
  qed
  have "inj_on (it_url \<circ> snd) (set (songs s))"
  proof (rule inj_onI)
    fix x y
    assume "x \<in> set (songs s)" "y \<in> set (songs s)" "(it_url \<circ> snd) x = (it_url \<circ> snd) y"
    then show "x = y" using same [of x y] keys by (auto simp: distinct_map dest: inj_onD)
  qed
  then show ?thesis using keys by (simp only: distinct_map)
qed

definition without :: "string \<Rightarrow> catalog \<Rightarrow> (place \<times> item) multiset" where
  "without url s = filter_mset (\<lambda>x. it_url (snd x) \<noteq> url) (mset (songs s))"

lemma without_unlisted: "url \<notin> song_urls s \<Longrightarrow> without url s = mset (songs s)"
  by (auto simp: without_def song_urls_def filter_mset_eq_conv)

lemma without_removed:
  assumes "songs_ok s" and "mset (songs s) = add_mset x M" and "it_url (snd x) = url"
  shows "without url s = M"
proof -
  have "distinct (map (it_url \<circ> snd) (songs s))" by (rule song_urls_distinct [OF assms(1)])
  then have "\<forall>y \<in># M. it_url (snd y) \<noteq> url"
  proof -
    obtain xs where xs: "mset xs = M" using ex_mset by auto
    have "(it_url \<circ> snd) x \<notin> (it_url \<circ> snd) ` set xs"
      using song_urls_distinct [OF assms(1)] assms(2) by (intro mset_key_fresh [of "it_url \<circ> snd" "songs s"]) (simp_all add: xs)
    then show ?thesis using assms(3) xs by (metis comp_apply image_eqI set_mset_mset)
  qed
  then show ?thesis using assms(2,3) by (auto simp: without_def filter_mset_eq_conv)
qed

definition song_removed :: "string \<Rightarrow> catalog \<Rightarrow> catalog \<Rightarrow> bool" where
  "song_removed url s s' \<longleftrightarrow> cat_ok s' \<and> kept_else url s s' \<and> cat_db s' url = None \<and> mset (songs s') = without url s"

lemma song_removedI:
  assumes ok: "cat_ok s" and k: "kept_else url s s'" and db: "cat_db s' = (cat_db s)(url := None)"
    and lists: "distinct (map it_url (m_unsorted s'))" "artists_ok (m_artistList s')"
    and songs: "mset (songs s') = without url s"
  shows "song_removed url s s'"
proof -
  have "(pl, t) \<in> set (songs s) \<and> it_url t \<noteq> url" if "(pl, t) \<in> set (songs s')" for pl t
  proof -
    have "(pl, t) \<in># without url s" using that songs by (metis set_mset_mset)
    then show ?thesis by (simp add: without_def)
  qed
  moreover have "song_record (cat_db s') u = song_record (cat_db s) u" if "u \<noteq> url" for u
    using that db by (intro song_record_cong) simp
  ultimately have "songs_ok s'" using lists ok by (fastforce simp: songs_ok_def cat_ok_def)
  moreover have "db_ok (cat_db s')" using ok db by (simp add: cat_ok_def db_ok_delete)
  ultimately show ?thesis using cat_okI [OF k ok] k db songs by (simp add: song_removed_def)
qed

lemma RemoveSong_spec:
  assumes ok: "cat_ok s" and url: "c_str url = url" and rec: "is_record (cat_db s) url (CHR ''M'')"
  shows "\<exists>s'. cat_RemoveSong url s = Some (kError_NoErr, s') \<and> song_removed url s s'"
proof -
  have w: "cat_working s" "songs_ok s" "db_ok (cat_db s)" "artists_ok (m_artistList s)" "distinct (map it_url (m_unsorted s))"
    using ok by (simp_all add: cat_ok_def songs_ok_def)
  from Read_Some [OF w(1,3) url rec] obtain md where md: "ReadMetaDataFromDatabase url s = Some (Some md, note_guid md url s)"
    "song_record (cat_db s) url = Some md" by auto
  define s1 where "s1 = (note_guid md url s)\<lparr>cat_db := (cat_db s)(url := None)\<rparr>"
  have s1: "cat_db s1 = (cat_db s)(url := None)" "m_unsorted s1 = m_unsorted s" "m_artistList s1 = m_artistList s" "kept_else url s s1"
    by (simp_all add: s1_def kept_else_def)
  then have songs1: "songs s1 = songs s" by (simp add: songs_def)
  have key: "url \<in> song_urls s \<longleftrightarrow> (if no_artist md then None else Some (norm (m_artist md), norm (m_album md)), url) \<in> key ` set (songs s)"
    by (rule song_urls_key [OF w(2) md(2)])
  show ?thesis
  proof (cases "no_artist md")
    case True
    have step: "cat_RemoveSong url s = Some (kError_NoErr, case take_url url (m_unsorted s1) of None \<Rightarrow> s1
        | Some (t, ts) \<Rightarrow> (cat_AcceptRemoved t None s1)\<lparr>m_unsorted := ts, m_trackCount := m_trackCount s1 - 1\<rparr>)"
      using True w(1) md(1) url by (auto simp: cat_RemoveSong_def db_Remove_def s1_def Let_def split: option.split)
    show ?thesis
    proof (cases "take_url url (m_unsorted s)")
      case None
      then have "url \<notin> song_urls s" using key True by (simp add: key_unsorted take_url_None)
      then have "song_removed url s s1"
        using w s1 songs1 by (intro song_removedI [OF ok]) (simp_all add: without_unlisted)
      then show ?thesis using step None s1(2) by simp
    next
      case (Some r)
      then obtain t ts where t: "take_url url (m_unsorted s) = Some (t, ts)" by (cases r) auto
      note u = take_url_Some [OF t]
      let ?s = "(cat_AcceptRemoved t None s1)\<lparr>m_unsorted := ts, m_trackCount := m_trackCount s1 - 1\<rparr>"
      have "mset (songs s) = add_mset (None, t) (mset (songs ?s))" using u by (simp add: songs_def s1)
      then have "without url s = mset (songs ?s)" using u by (intro without_removed [OF w(2)]) auto
      then have "song_removed url s ?s" using w u s1 by (intro song_removedI [OF ok]) (simp_all add: kept_else_def)
      then show ?thesis using step t s1(2) by simp
    qed
  next
    case False
    obtain ars r where R: "remove_from_artists url (m_artist md) (m_album md) (m_artistList s) = Some (ars, r)" "artists_ok ars"
      "case r of
        None \<Rightarrow> ars = m_artistList s \<and>
          (\<forall>x \<in> set (concat (map artist_songs (m_artistList s))). key x \<noteq> (Some (norm (m_artist md), norm (m_album md)), url))
      | Some (t, pl) \<Rightarrow> it_url t = url \<and> norm (fst pl) = norm (m_artist md) \<and> norm (snd pl) = norm (m_album md) \<and>
          mset (concat (map artist_songs (m_artistList s))) = add_mset (Some pl, t) (mset (concat (map artist_songs ars)))"
      using remove_from_artists_spec [OF w(4), of url "m_artist md" "m_album md"] by blast
    have step: "cat_RemoveSong url s = Some (kError_NoErr, case r of None \<Rightarrow> s1\<lparr>m_artistList := ars\<rparr>
        | Some (t, place) \<Rightarrow> (cat_AcceptRemoved t (Some place) s1)\<lparr>m_artistList := ars, m_trackCount := m_trackCount s1 - 1\<rparr>)"
      using False w(1) md(1) url R(1) by (auto simp: cat_RemoveSong_def db_Remove_def s1_def Let_def split: option.split)
    show ?thesis
    proof (cases r)
      case None
      then have "(Some (norm (m_artist md), norm (m_album md)), url) \<notin> key ` set (concat (map artist_songs (m_artistList s)))"
        using R(3) by fastforce
      then have "url \<notin> song_urls s" using key False by (simp add: key_artists)
      then have "song_removed url s (s1\<lparr>m_artistList := ars\<rparr>)"
        using w s1 None R(3) by (intro song_removedI [OF ok]) (simp_all add: without_unlisted kept_else_def songs_def)
      then show ?thesis using step None by simp
    next
      case (Some q)
      then obtain t pl where q: "r = Some (t, pl)" by (cases q) auto
      let ?s = "(cat_AcceptRemoved t (Some pl) s1)\<lparr>m_artistList := ars, m_trackCount := m_trackCount s1 - 1\<rparr>"
      have "mset (songs s) = add_mset (Some pl, t) (mset (songs ?s))" using R(3) q by (simp add: songs_def s1)
      then have "without url s = mset (songs ?s)" using R(3) q by (intro without_removed [OF w(2)]) auto
      then have "song_removed url s ?s" using w R(2) s1 by (intro song_removedI [OF ok]) (simp_all add: kept_else_def)
      then show ?thesis using step q by simp
    qed
  qed
qed

lemma mode_song_removed: "song_removed url (s\<lparr>m_inUpdateSong := b\<rparr>) s' = song_removed url s s'"
  by (simp add: song_removed_def kept_else_def without_def songs_def)

lemma mode_cat_ok [simp]: "cat_ok (s\<lparr>m_inUpdateSong := b\<rparr>) = cat_ok s"
  by (simp add: cat_ok_def songs_ok_def songs_def)

text \<open>An update replaces a song, with the metadata it is given.\<close>

lemma UpdateSong_spec:
  assumes ok: "cat_ok s" and url: "c_str (it_url it) = it_url it" and rec: "is_record (cat_db s) (it_url it) (CHR ''M'')"
    and st: "md_storable (it_metadata it)"
  shows "\<exists>s' pl md g. cat_UpdateSong retr it s = Some (kError_NoErr, s') \<and> cat_ok s' \<and> kept_else (it_url it) s s' \<and>
    song_record (cat_db s') (it_url it) = Some md \<and> place_ok pl md \<and>
    mset (songs s') = add_mset (pl, new_item (it_url it) (Some ((stored (it_metadata it))\<lparr>m_guid := g\<rparr>))) (without (it_url it) s)"
proof -
  let ?url = "it_url it" and ?md = "it_metadata it"
  from RemoveSong_spec [of "s\<lparr>m_inUpdateSong := True\<rparr>" ?url] ok url rec obtain s1 where
    s1: "cat_RemoveSong ?url (s\<lparr>m_inUpdateSong := True\<rparr>) = Some (kError_NoErr, s1)" "song_removed ?url s s1"
    by (auto simp: mode_song_removed)
  define s2 where "s2 = WriteMetaDataToDatabase kTypeTrack ?url ?md s1"
  have w1: "cat_ok s1" "cat_working s1" "songs_ok s1" "db_ok (cat_db s1)" "cat_db s1 ?url = None" "kept_else ?url s s1"
    "mset (songs s1) = without ?url s"
    using s1(2) by (simp_all add: song_removed_def cat_ok_def)
  have new: "?url \<notin> song_urls s1" using w1(5) by (intro no_record_unlisted [OF w1(3)]) (simp add: song_record_def)
  have db2: "cat_db s2 = (cat_db s1)(?url \<mapsto> metadata_text kTypeTrack ?md)" unfolding s2_def by (rule Write_db [OF w1(2) st url])
  have r2: "song_record (cat_db s2) ?url = Some (stored ?md)" unfolding db2 using st by (rule song_record_text)
  have k2: "kept_else ?url s1 s2" using db2 by (simp add: s2_def kept_else_def)
  have "songs_ok s2" by (rule songs_ok_new_record [OF w1(3) new]) (simp_all add: db2, simp_all add: s2_def)
  moreover have "db_ok (cat_db s2)" unfolding db2 using w1(4) st url by (rule db_ok_text)
  ultimately have ok2: "cat_ok s2" by (intro cat_okI [OF k2 w1(1)])
  have songs2: "songs s2 = songs s1" by (simp add: s2_def songs_def)
  have "\<exists>err s'. cat_AddSong (\<lambda>_. ?md) ?url s2 = Some (err, s') \<and> song_added ?url (song_md (\<lambda>_. ?md) ?url s2) s2 err s'"
    using AddSong_spec [OF ok2 url, of "\<lambda>_. ?md"] song_record_is_record [OF r2] st by blast
  moreover have "cat_AddSong retr ?url s2 = cat_AddSong (\<lambda>_. ?md) ?url s2"
  proof -
    have "cat_working s2" "db_ok (cat_db s2)" using ok2 by (simp_all add: cat_ok_def)
    from Read_Some [OF this url song_record_is_record [OF r2]] obtain m where
      "ReadMetaDataFromDatabase ?url s2 = Some (Some m, note_guid m ?url s2)" by auto
    then show ?thesis by (simp add: cat_AddSong_def)
  qed
  ultimately obtain err s3 where s3: "cat_AddSong retr ?url s2 = Some (err, s3)" "song_added ?url (song_md (\<lambda>_. ?md) ?url s2) s2 err s3"
    by auto
  have "?url \<notin> song_urls s2" using new songs2 by (simp add: song_urls_def)
  then obtain pl md where a: "err = kError_NoErr" "cat_ok s3" "kept_else ?url s2 s3" "song_record (cat_db s3) ?url = Some md" "place_ok pl md"
    "mset (songs s3) = add_mset (pl, new_item ?url (Some (song_md (\<lambda>_. ?md) ?url s2))) (mset (songs s2))"
    using s3(2) by (auto simp: song_added_def)
  define s4 where "s4 = cat_send (TrackChanged (cat_old s3) (cat_new s3)) (s3\<lparr>m_inUpdateSong := False\<rparr>)"
  have s4: "songs s4 = songs s3" "cat_db s4 = cat_db s3" "cat_ok s4" "kept_else ?url s3 s4"
    using a(2) by (simp_all add: s4_def cat_send_def songs_def kept_else_def cat_ok_def songs_ok_def)
  have "cat_UpdateSong retr it s = Some (kError_NoErr, s4)"
    using ok s1(1) s3(1) a(1) by (simp add: cat_UpdateSong_def cat_ok_def s2_def [symmetric] s4_def IsError_def)
  moreover have "\<exists>g. song_md (\<lambda>_. ?md) ?url s2 = (stored ?md)\<lparr>m_guid := g\<rparr>"
  proof (cases "m_killGUIDs s2")
    case False
    then show ?thesis using r2 by (intro exI [of _ "m_guid ?md"]) (simp add: song_md_def stored_def)
  qed (use r2 in \<open>auto simp: song_md_def\<close>)
  moreover have "kept_else ?url s s4" using w1(6) k2 a(3) s4(4) by (blast intro: kept_else_trans)
  ultimately show ?thesis using s4 a songs2 w1(7) by (metis (no_types, lifting))
qed

end
