(* ===== verification/CatalogSafety.thy ===== *)
theory CatalogSafety
  imports CatalogCalls
begin

section \<open>The catalog as a map, and in step with its database\<close>

text \<open>
  The abstract catalog is a map from URLs to items. The calls for songs are insertion, deletion and lookup of that
  map; every sequence of permitted calls keeps the invariant; and \<open>RePopulateFromDatabase\<close>
  lists what the database holds. \<open>cat_permits\<close> states what a caller has to see to: that a URL is not used
  for a song and for a playlist or stream at once.
\<close>

subsection \<open>The abstract catalog\<close>

definition cat_abs :: "catalog \<Rightarrow> string \<Rightarrow> item option" where
  "cat_abs s = map_of (map (\<lambda>x. (it_url (snd x), snd x)) (songs s))"

lemma cat_abs_iff: "songs_ok s \<Longrightarrow> cat_abs s u = Some t \<longleftrightarrow> t \<in> snd ` set (songs s) \<and> it_url t = u"
proof -
  assume "songs_ok s"
  then have "distinct (map fst (map (\<lambda>x. (it_url (snd x), snd x)) (songs s)))"
    using song_urls_distinct by (simp add: o_def)
  then show ?thesis by (auto simp: cat_abs_def)
qed

lemma cat_abs_None: "songs_ok s \<Longrightarrow> cat_abs s u = None \<longleftrightarrow> u \<notin> song_urls s"
proof -
  assume "songs_ok s"
  then have "cat_abs s u = None \<longleftrightarrow> (\<forall>t. \<not> (t \<in> snd ` set (songs s) \<and> it_url t = u))"
    using cat_abs_iff [of s u] by (metis not_None_eq)
  then show ?thesis by (auto simp: song_urls_def)
qed

lemma cat_abs_eqI:
  assumes "songs_ok s" and "\<And>u t. m u = Some t \<longleftrightarrow> t \<in> snd ` set (songs s) \<and> it_url t = u"
  shows "cat_abs s = m"
proof
  fix u
  show "cat_abs s u = m u" using cat_abs_iff [OF assms(1), of u] assms(2) [of u] by (metis not_None_eq)
qed

lemma songs_set: "mset (songs s') = add_mset x M \<Longrightarrow> set (songs s') = insert x (set_mset M)"
  by (metis set_mset_add_mset_insert set_mset_mset)

lemma cat_abs_insert:
  assumes "songs_ok s" "songs_ok s'" "mset (songs s') = add_mset (pl, t) (without (it_url t) s)"
  shows "cat_abs s' = (cat_abs s)(it_url t \<mapsto> t)"
  using songs_set [OF assms(3)] by (intro cat_abs_eqI [OF assms(2)]) (force simp: cat_abs_iff [OF assms(1)] without_def)

lemma cat_abs_delete:
  assumes "songs_ok s" "songs_ok s'" "mset (songs s') = without u s"
  shows "cat_abs s' = (cat_abs s)(u := None)"
proof -
  have "set (songs s') = {x \<in> set (songs s). it_url (snd x) \<noteq> u}"
    using arg_cong [OF assms(3), of set_mset] by (simp add: without_def)
  then show ?thesis by (intro cat_abs_eqI [OF assms(2)]) (force simp: cat_abs_iff [OF assms(1)])
qed

definition lookup_album :: "metadata \<Rightarrow> catalog \<Rightarrow> item list" where
  "lookup_album md s = concat (map m_trackList (filter (\<lambda>al. CaseCompare (m_album md) (al_name al))
     (concat (map m_albumList (filter (\<lambda>ar. CaseCompare (m_artist md) (ar_name ar)) (m_artistList s))))))"

lemma lookup_album_iff: "t \<in> set (lookup_album md s) \<longleftrightarrow>
   (\<exists>ar al. ar \<in> set (m_artistList s) \<and> al \<in> set (m_albumList ar) \<and> t \<in> set (m_trackList al) \<and>
     norm (m_artist md) = norm (ar_name ar) \<and> norm (m_album md) = norm (al_name al))"
  by (simp add: lookup_album_def CaseCompare_norm) blast

lemma artist_song_iff: "(pl, t) \<in> set (concat (map artist_songs ars)) \<longleftrightarrow>
   (\<exists>ar al. ar \<in> set ars \<and> al \<in> set (m_albumList ar) \<and> t \<in> set (m_trackList al) \<and> pl = Some (ar_name ar, al_name al))"
  by (auto simp: artist_songs_def)

lemma album_find:
  assumes ok: "songs_ok s" and r: "song_record (cat_db s) url = Some md" and na: "\<not> no_artist md" and t: "it_url t = url"
  shows "t \<in> set (lookup_album md s) \<longleftrightarrow> t \<in> snd ` set (songs s)"
proof
  assume "t \<in> set (lookup_album md s)"
  then obtain ar al where "ar \<in> set (m_artistList s)" "al \<in> set (m_albumList ar)" "t \<in> set (m_trackList al)"
    by (auto simp: lookup_album_iff)
  then have "(Some (ar_name ar, al_name al), t) \<in> set (concat (map artist_songs (m_artistList s)))"
    unfolding artist_song_iff by blast
  then have "(Some (ar_name ar, al_name al), t) \<in> set (songs s)" by (simp add: songs_def)
  then show "t \<in> snd ` set (songs s)" by force
next
  assume "t \<in> snd ` set (songs s)"
  then obtain pl where pl: "(pl, t) \<in> set (songs s)" by auto
  then have "place_ok pl md" using songs_okD [OF ok pl] t r by simp
  moreover from this have "pl \<noteq> None" using na by (cases pl) auto
  then have "(pl, t) \<in> set (concat (map artist_songs (m_artistList s)))" using pl by (auto simp: songs_def)
  ultimately show "t \<in> set (lookup_album md s)" unfolding lookup_album_iff artist_song_iff by fastforce
qed

lemma find_url_unique:
  assumes "\<And>t. t \<in> set ts \<and> it_url t = url \<longleftrightarrow> m = Some t"
  shows "find_url url ts = m"
proof (cases "find_url url ts")
  case None
  then have "\<forall>t \<in> set ts. it_url t \<noteq> url" by (auto simp: find_None_iff)
  then show ?thesis using None assms by (metis not_None_eq)
next
  case (Some t)
  then have "t \<in> set ts \<and> it_url t = url" by (auto simp: find_Some_iff)
  then show ?thesis using Some assms by simp
qed

declare find_url.simps [simp del]

lemma lookup_spec:
  assumes ok: "cat_ok s" and url: "c_str url = url" and rec: "cat_db s url = None \<or> is_record (cat_db s) url (CHR ''M'')"
  shows "\<exists>s'. cat_GetPlaylistItemFromURL url s = Some (cat_abs s url, s') \<and> cat_db s' = cat_db s \<and> songs s' = songs s"
proof -
  have w: "cat_working s" "songs_ok s" "db_ok (cat_db s)" using ok by (simp_all add: cat_ok_def)
  show ?thesis
  proof (cases "cat_db s url")
    case None
    then have "cat_abs s url = None" using no_record_unlisted [OF w(2)] by (simp add: cat_abs_None w song_record_def)
    then show ?thesis using Read_None [OF w(1,3) url None] w(1) by (simp add: cat_GetPlaylistItemFromURL_def)
  next
    case (Some v)
    then have "is_record (cat_db s) url (CHR ''M'')" using rec by simp
    from Read_Some [OF w(1,3) url this] obtain md where md: "ReadMetaDataFromDatabase url s = Some (Some md, note_guid md url s)"
      "song_record (cat_db s) url = Some md" by auto
    let ?ts = "if no_artist md then m_unsorted s else lookup_album md s"
    have "t \<in> set ?ts \<and> it_url t = url \<longleftrightarrow> cat_abs s url = Some t" for t
    proof (cases "no_artist md")
      case True
      have "pl = None" if "(pl, t) \<in> set (songs s)" "it_url t = url" for pl
        using songs_okD [OF w(2) that(1)] that(2) md(2) True by (cases pl) auto
      then have "it_url t = url \<Longrightarrow> t \<in> snd ` set (songs s) \<Longrightarrow> (None, t) \<in> set (songs s)" by force
      moreover have "(None, t) \<in> set (songs s) \<longleftrightarrow> t \<in> set (m_unsorted s)" by (auto simp: songs_def artist_songs_def)
      moreover have "(None, t) \<in> set (songs s) \<Longrightarrow> t \<in> snd ` set (songs s)" by force
      ultimately show ?thesis using True cat_abs_iff [OF w(2)] by auto
    qed (use album_find [OF w(2) md(2)] cat_abs_iff [OF w(2)] in auto)
    then have "find_url url ?ts = cat_abs s url" by (rule find_url_unique)
    then show ?thesis using md(1) w(1) songs_cong [of "note_guid md url s" s]
      by (auto simp: cat_GetPlaylistItemFromURL_def lookup_album_def)
  qed
qed

text \<open>
  C6. For songs the catalog is a map from URLs to items. Adding a URL that is not listed inserts an item with the
  metadata of its record, or of the file when it has none, and adding a listed one reports a duplicate and changes nothing; removing deletes
  exactly this URL; updating replaces its item by one with the new metadata, but for the signature; and
  the lookup returns the item. The records of all other URLs stay as they are.
\<close>

theorem catalog_refines_map:
  assumes ok: "cat_ok s" and url: "c_str (it_url it) = it_url it"
    and rec: "cat_db s (it_url it) = None \<or> is_record (cat_db s) (it_url it) (CHR ''M'')"
    and st: "md_storable (retr (it_url it))" "md_storable (it_metadata it)"
  shows "(\<exists>err s'. cat_AddSong retr (it_url it) s = Some (err, s') \<and> cat_ok s' \<and> (\<forall>u. u \<noteq> it_url it \<longrightarrow> cat_db s' u = cat_db s u) \<and>
      (if cat_abs s (it_url it) \<noteq> None then err = kError_DuplicateItem \<and> cat_abs s' = cat_abs s
       else err = kError_NoErr \<and> cat_abs s' = (cat_abs s)(it_url it \<mapsto> new_item (it_url it) (Some (song_md retr (it_url it) s))))) \<and>
    (cat_db s (it_url it) \<noteq> None \<longrightarrow>
      (\<exists>s'. cat_RemoveSong (it_url it) s = Some (kError_NoErr, s') \<and> cat_ok s' \<and>
        cat_db s' = (cat_db s)(it_url it := None) \<and> cat_abs s' = (cat_abs s)(it_url it := None)) \<and>
      (\<exists>s' g. cat_UpdateSong retr it s = Some (kError_NoErr, s') \<and> cat_ok s' \<and> (\<forall>u. u \<noteq> it_url it \<longrightarrow> cat_db s' u = cat_db s u) \<and>
        cat_abs s' = (cat_abs s)(it_url it \<mapsto> new_item (it_url it) (Some ((stored (it_metadata it))\<lparr>m_guid := g\<rparr>))))) \<and>
    (\<exists>s'. cat_GetPlaylistItemFromURL (it_url it) s = Some (cat_abs s (it_url it), s') \<and> cat_db s' = cat_db s \<and> cat_abs s' = cat_abs s)"
    (is "?add \<and> (_ \<longrightarrow> ?remove \<and> ?update) \<and> ?find")
proof (intro conjI impI)
  let ?url = "it_url it"
  have w: "songs_ok s" using ok by (simp add: cat_ok_def)
  have abs: "cat_abs s ?url \<noteq> None \<longleftrightarrow> ?url \<in> song_urls s" using cat_abs_None [OF w, of ?url] by metis
  show ?add
  proof -
    from AddSong_spec [where retr = retr, OF ok url rec st(1)] obtain err s' where
      e: "cat_AddSong retr ?url s = Some (err, s')" "song_added ?url (song_md retr ?url s) s err s'" by blast
    then have "cat_ok s' \<and> kept_else ?url s s'" unfolding song_added_def by blast
    then have k: "cat_ok s'" "songs_ok s'" "\<forall>u. u \<noteq> ?url \<longrightarrow> cat_db s' u = cat_db s u"
      by (auto simp: cat_ok_def kept_else_def)
    show ?thesis
    proof (cases "?url \<in> song_urls s")
      case True
      then have "err = kError_DuplicateItem" "cat_abs s' = cat_abs s" using e(2) by (auto simp: song_added_def cat_abs_def)
      then show ?thesis using e(1) k True abs by auto
    next
      case False
      then obtain pl where "err = kError_NoErr" "mset (songs s') = add_mset (pl, new_item ?url (Some (song_md retr ?url s))) (mset (songs s))"
        using e(2) by (auto simp: song_added_def)
      then show ?thesis using e(1) k False abs cat_abs_insert [OF w k(2), of pl "new_item ?url (Some (song_md retr ?url s))"]
        by (auto simp: without_unlisted)
    qed
  qed
  show ?find using lookup_spec [OF ok url rec] by (auto simp: cat_abs_def)
  assume "cat_db s ?url \<noteq> None"
  then have rec: "is_record (cat_db s) ?url (CHR ''M'')" using rec by auto
  show ?remove
  proof -
    from RemoveSong_spec [OF ok url rec] obtain s' where s': "cat_RemoveSong ?url s = Some (kError_NoErr, s')" "song_removed ?url s s'"
      by blast
    then have "cat_db s' = (cat_db s)(?url := None)" by (auto simp: song_removed_def kept_else_def)
    then show ?thesis using s' cat_abs_delete [OF w] by (auto simp: song_removed_def cat_ok_def)
  qed
  show ?update
  proof -
    from UpdateSong_spec [OF ok url rec st(2), of retr] obtain s' pl md g where
      "cat_UpdateSong retr it s = Some (kError_NoErr, s')" "cat_ok s'" "kept_else ?url s s'"
      "mset (songs s') = add_mset (pl, new_item ?url (Some ((stored (it_metadata it))\<lparr>m_guid := g\<rparr>))) (without ?url s)" by blast
    then show ?thesis using cat_abs_insert [OF w, of s' pl "new_item ?url (Some ((stored (it_metadata it))\<lparr>m_guid := g\<rparr>))"]
      by (auto simp: cat_ok_def kept_else_def)
  qed
qed

definition demo_song :: metadata where
  "demo_song = new_metadata\<lparr>m_artist := ''A'', m_title := ''T''\<rparr>"

definition demo_catalog :: catalog where
  "demo_catalog = cat_construct [''u'' \<mapsto> metadata_text kTypeTrack demo_song]"

lemma demo_song_storable: "md_storable demo_song"
  by (simp add: md_storable_def demo_song_def new_metadata_def)

lemma demo_db_ok: "db_ok (cat_db demo_catalog)"
  using db_ok_text [of Map.empty demo_song "''u''" kTypeTrack] demo_song_storable
  by (simp add: demo_catalog_def cat_construct_def db_ok_def)

lemma construct_ok: "db_ok db \<Longrightarrow> cat_ok (cat_construct db)"
  by (simp add: cat_construct_def cat_ok_def songs_ok_def songs_def artists_ok_def)

lemma demo_catalog_ok: "cat_ok demo_catalog"
  using construct_ok demo_db_ok by (simp add: demo_catalog_def cat_construct_def)

theorem catalog_refines_map_witness:
  "\<exists>err s'. cat_AddSong (\<lambda>_. new_metadata) ''u'' demo_catalog = Some (err, s') \<and> cat_ok s' \<and>
     (if cat_abs demo_catalog ''u'' \<noteq> None then err = kError_DuplicateItem \<and> cat_abs s' = cat_abs demo_catalog
      else err = kError_NoErr \<and> cat_abs s' = (cat_abs demo_catalog)(''u'' \<mapsto> new_item ''u'' (Some (song_md (\<lambda>_. new_metadata) ''u'' demo_catalog))))"
proof -
  have r: "is_record (cat_db demo_catalog) ''u'' (CHR ''M'')"
    by (simp add: is_record_def demo_catalog_def cat_construct_def metadata_text_def)
  have st: "md_storable new_metadata" by (simp add: md_storable_def new_metadata_def)
  obtain it :: item where it: "it_url it = ''u''" "it_metadata it = new_metadata"
    using that [of "new_item ''u'' (Some new_metadata)"] by simp
  have c: "c_str ''u'' = ''u''" by simp
  have "cat_db demo_catalog ''u'' = None \<or> is_record (cat_db demo_catalog) ''u'' (CHR ''M'')" using r by (rule disjI2)
  from conjunct1 [OF catalog_refines_map [OF demo_catalog_ok, of it "\<lambda>_. new_metadata", unfolded it, OF c this st st]]
  show ?thesis by blast
qed

subsection \<open>Every sequence of calls\<close>

datatype cat_call = CallAddSong string | CallRemoveSong string | CallUpdateSong item | CallFind string
  | CallAddPlaylist string | CallRemovePlaylist string | CallAddStream string | CallRemoveStream string
  | CallAdd string | CallRemove string

fun cat_do :: "(string \<Rightarrow> metadata) \<Rightarrow> cat_call \<Rightarrow> catalog \<Rightarrow> (error \<times> catalog) option" where
  "cat_do retr (CallAddSong u) s = cat_AddSong retr u s"
| "cat_do retr (CallRemoveSong u) s = cat_RemoveSong u s"
| "cat_do retr (CallUpdateSong it) s = cat_UpdateSong retr it s"
| "cat_do retr (CallFind u) s = map_option (\<lambda>(t, s'). (kError_NoErr, s')) (cat_GetPlaylistItemFromURL u s)"
| "cat_do retr (CallAddPlaylist u) s = Some (cat_AddPlaylist u s)"
| "cat_do retr (CallRemovePlaylist u) s = Some (cat_RemovePlaylist u s)"
| "cat_do retr (CallAddStream u) s = cat_AddStream u s"
| "cat_do retr (CallRemoveStream u) s = cat_RemoveStream u s"
| "cat_do retr (CallAdd u) s = cat_Add retr u s"
| "cat_do retr (CallRemove u) s = cat_Remove u s"

definition at_most :: "database \<Rightarrow> string \<Rightarrow> char \<Rightarrow> bool" where
  "at_most db u c \<longleftrightarrow> c_str u = u \<and> (db u = None \<or> is_record db u c)"

fun cat_permits :: "catalog \<Rightarrow> cat_call \<Rightarrow> bool" where
  "cat_permits s (CallAddSong u) \<longleftrightarrow> at_most (cat_db s) u (CHR ''M'')"
| "cat_permits s (CallRemoveSong u) \<longleftrightarrow> at_most (cat_db s) u (CHR ''M'')"
| "cat_permits s (CallUpdateSong it) \<longleftrightarrow> at_most (cat_db s) (it_url it) (CHR ''M'') \<and> md_storable (it_metadata it)"
| "cat_permits s (CallFind u) \<longleftrightarrow> at_most (cat_db s) u (CHR ''M'')"
| "cat_permits s (CallAddPlaylist u) \<longleftrightarrow> at_most (cat_db s) u (CHR ''P'')"
| "cat_permits s (CallRemovePlaylist u) \<longleftrightarrow> at_most (cat_db s) u (CHR ''P'')"
| "cat_permits s (CallAddStream u) \<longleftrightarrow> at_most (cat_db s) u (CHR ''S'')"
| "cat_permits s (CallRemoveStream u) \<longleftrightarrow> at_most (cat_db s) u (CHR ''S'')"
| "cat_permits s (CallAdd u) \<longleftrightarrow> c_str u = u"
| "cat_permits s (CallRemove u) \<longleftrightarrow> c_str u = u"

text \<open>The calls that return with the lock held: a stream that is listed already.\<close>

fun adds_stream :: "catalog \<Rightarrow> cat_call \<Rightarrow> bool" where
  "adds_stream s (CallAddStream u) \<longleftrightarrow> True"
| "adds_stream s (CallAdd u) \<longleftrightarrow> is_record (cat_db s) u (CHR ''S'')"
| "adds_stream s c \<longleftrightarrow> False"

definition call_ok :: "catalog \<Rightarrow> cat_call \<Rightarrow> error \<Rightarrow> catalog \<Rightarrow> bool" where
  "call_ok s c err s' \<longleftrightarrow> cat_ok s' \<and>
     cat_held s' = cat_held s + (if adds_stream s c \<and> err = kError_DuplicateItem then 1 else 0)"

lemma is_record_unique: "is_record db u c \<Longrightarrow> is_record db u d \<Longrightarrow> c = d"
  by (auto simp: is_record_def)

lemma other_record_unlisted: "songs_ok s \<Longrightarrow> \<not> is_record (cat_db s) u (CHR ''M'') \<Longrightarrow> u \<notin> song_urls s"
  by (intro no_record_unlisted) (auto simp: song_record_def is_record_def split: option.split)

lemma cat_ok_unlisted:
  assumes "cat_ok s" "u \<notin> song_urls s" "db_ok (cat_db s')" "\<And>v. v \<noteq> u \<Longrightarrow> cat_db s' v = cat_db s v"
    "m_unsorted s' = m_unsorted s" "m_artistList s' = m_artistList s" "cat_working s'" "distinct (m_playlists s')"
    "distinct (map it_url (m_streams s'))"
  shows "cat_ok s'"
  using assms songs_ok_new_record [of s u s'] by (simp add: cat_ok_def)

lemma at_most_unlisted: "cat_ok s \<Longrightarrow> at_most (cat_db s) u c \<Longrightarrow> c \<noteq> CHR ''M'' \<Longrightarrow> u \<notin> song_urls s"
  by (intro other_record_unlisted) (auto simp: cat_ok_def at_most_def is_record_def)

lemma AddPlaylist_ok:
  assumes ok: "cat_ok s" and u: "at_most (cat_db s) u (CHR ''P'')"
  shows "cat_ok (snd (cat_AddPlaylist u s)) \<and> cat_held (snd (cat_AddPlaylist u s)) = cat_held s \<and>
    u \<in> set (m_playlists (snd (cat_AddPlaylist u s)))"
proof -
  have w: "cat_working s" "db_ok (cat_db s)" "c_str u = u" using ok u by (simp_all add: cat_ok_def at_most_def)
  have "db_ok ((cat_db s)(u \<mapsto> ''P''))" using w by (auto simp: db_ok_def readable_def)
  then have "cat_ok (snd (cat_AddPlaylist u s))"
    using ok w by (intro cat_ok_unlisted [OF ok at_most_unlisted [OF ok u]])
      (auto simp: cat_AddPlaylist_def Let_def cat_send_def db_Insert_def cat_ok_def)
  then show ?thesis using w(1) by (auto simp: cat_AddPlaylist_def Let_def cat_send_def)
qed

lemma RemovePlaylist_ok:
  assumes ok: "cat_ok s" and u: "at_most (cat_db s) u (CHR ''P'')"
  shows "cat_ok (snd (cat_RemovePlaylist u s)) \<and> cat_held (snd (cat_RemovePlaylist u s)) = cat_held s"
proof -
  have w: "cat_working s" "db_ok (cat_db s)" "c_str u = u" using ok u by (simp_all add: cat_ok_def at_most_def)
  have "cat_ok (snd (cat_RemovePlaylist u s))"
    using ok w by (intro cat_ok_unlisted [OF ok at_most_unlisted [OF ok u]])
      (auto simp: cat_RemovePlaylist_def Let_def cat_send_def db_Remove_def cat_ok_def db_ok_delete)
  then show ?thesis by (auto simp: cat_RemovePlaylist_def Let_def cat_send_def)
qed

lemma AddStream_ok:
  assumes ok: "cat_ok s" and u: "is_record (cat_db s) u (CHR ''S'')" "c_str u = u"
  shows "\<exists>err s'. cat_AddStream u s = Some (err, s') \<and> cat_ok s' \<and> cat_db s' = cat_db s \<and> songs s' = songs s \<and> m_playlists s' = m_playlists s \<and>
    it_url ` set (m_streams s') = insert u (it_url ` set (m_streams s)) \<and>
    (if u \<in> it_url ` set (m_streams s) then err = kError_DuplicateItem \<and> cat_held s' = cat_held s + 1
     else err = kError_NoErr \<and> cat_held s' = cat_held s)"
proof -
  have w: "cat_working s" "db_ok (cat_db s)" using ok by (simp_all add: cat_ok_def)
  from Read_Some [OF w u(2,1)] obtain md where md: "ReadMetaDataFromDatabase u s = Some (Some md, note_guid md u s)" by auto
  define s1 where "s1 = (if m_guid md \<noteq> [] then (note_guid md u s)\<lparr>m_guidTable := m_guidTable (note_guid md u s) @ [(m_guid md, u)]\<rparr> else note_guid md u s)"
  have s1: "cat_db s1 = cat_db s" "m_unsorted s1 = m_unsorted s" "m_artistList s1 = m_artistList s" "m_playlists s1 = m_playlists s"
    "m_streams s1 = m_streams s" "cat_held s1 = cat_held s" "cat_working s1"
    using w by (simp_all add: s1_def)
  have songs: "songs s1 = songs s" using s1 by (simp add: songs_def)
  have un: "u \<notin> song_urls s" by (rule at_most_unlisted [OF ok, of u "CHR ''S''"]) (simp_all add: at_most_def u)
  have step: "cat_AddStream u s = (if has_url u (m_streams s1) then Some (kError_DuplicateItem, s1\<lparr>cat_held := cat_held s1 + 1\<rparr>)
      else Some (kError_NoErr, cat_send (StreamAdded (new_item u (Some md))) (s1\<lparr>m_streams := m_streams s1 @ [new_item u (Some md)]\<rparr>)))"
    using w md unfolding cat_AddStream_def by (simp add: Let_def s1_def)
  have ok': "cat_ok s'" if "cat_db s' = cat_db s1" "m_unsorted s' = m_unsorted s1" "m_artistList s' = m_artistList s1" "cat_working s'"
      "m_playlists s' = m_playlists s1" "distinct (map it_url (m_streams s'))" for s' :: catalog
    using that s1 ok w by (intro cat_ok_unlisted [OF ok un]) (simp_all add: cat_ok_def)
  show ?thesis
  proof (cases "has_url u (m_streams s)")
    case True
    have "cat_ok (s1\<lparr>cat_held := cat_held s1 + 1\<rparr>)" using ok s1 by (intro ok') (simp_all add: cat_ok_def)
    then show ?thesis using step True s1 songs by (auto simp: has_url_iff songs_def)
  next
    case False
    then have "cat_ok (cat_send (StreamAdded (new_item u (Some md))) (s1\<lparr>m_streams := m_streams s1 @ [new_item u (Some md)]\<rparr>))"
      using ok s1 by (intro ok') (auto simp: cat_ok_def cat_send_def has_url_iff)
    then show ?thesis using step False s1 songs by (auto simp: has_url_iff songs_def cat_send_def)
  qed
qed

lemma RemoveStream_ok:
  assumes ok: "cat_ok s" and u: "at_most (cat_db s) u (CHR ''S'')"
  shows "\<exists>err s'. cat_RemoveStream u s = Some (err, s') \<and> cat_ok s' \<and> cat_held s' = cat_held s"
proof -
  have w: "cat_working s" "db_ok (cat_db s)" "c_str u = u" using ok u by (simp_all add: cat_ok_def at_most_def)
  show ?thesis
  proof (cases "cat_db s u")
    case None
    then show ?thesis using Read_None [OF w None] w(1) ok by (simp add: cat_RemoveStream_def)
  next
    case (Some v)
    then have "is_record (cat_db s) u (CHR ''S'')" using u by (simp add: at_most_def)
    from Read_Some [OF w this] obtain md where md: "ReadMetaDataFromDatabase u s = Some (Some md, note_guid md u s)" by auto
    define s1 where "s1 = (note_guid md u s)\<lparr>cat_db := (cat_db (note_guid md u s))(u := None)\<rparr>"
    define s2 where "s2 = (case take_url u (m_streams s1) of None \<Rightarrow> s1 | Some (t, ts) \<Rightarrow> cat_send (StreamRemoved t) (s1\<lparr>m_streams := ts\<rparr>))"
    define s3 where "s3 = (if m_guid md \<noteq> [] then s2\<lparr>m_guidTable := remove1 (m_guid md, u) (m_guidTable s2)\<rparr> else s2)"
    have "distinct (map it_url (m_streams s2))"
      using ok take_url_Some [of u "m_streams s"] by (auto simp: s2_def s1_def cat_ok_def cat_send_def split: option.split)
    then have "cat_ok s3" using w ok
      by (intro cat_ok_unlisted [OF ok at_most_unlisted [OF ok u]])
        (auto simp: s3_def s2_def s1_def cat_send_def cat_ok_def db_ok_delete split: option.split)
    moreover have "cat_RemoveStream u s = Some (kError_NoErr, s3)"
      using w md unfolding cat_RemoveStream_def
      by (cases "take_url u (m_streams s)") (auto simp: Let_def s3_def s2_def s1_def db_Remove_def)
    moreover have "cat_held s3 = cat_held s" by (simp add: s3_def s2_def s1_def cat_send_def split: option.split)
    ultimately show ?thesis by simp
  qed
qed

lemma song_call_ok:
  assumes "song_added u md s err s'"
  shows "cat_ok s' \<and> cat_held s' = cat_held s"
  using assms unfolding song_added_def kept_else_def by blast

lemma Find_ok:
  assumes ok: "cat_ok s" and u: "at_most (cat_db s) u (CHR ''M'')"
  shows "\<exists>t s'. cat_GetPlaylistItemFromURL u s = Some (t, s') \<and> cat_ok s' \<and> cat_held s' = cat_held s"
proof -
  have w: "cat_working s" "db_ok (cat_db s)" "c_str u = u" using ok u by (simp_all add: cat_ok_def at_most_def)
  show ?thesis
  proof (cases "cat_db s u")
    case None
    then show ?thesis using Read_None [OF w None] w(1) ok by (simp add: cat_GetPlaylistItemFromURL_def)
  next
    case (Some v)
    then have "is_record (cat_db s) u (CHR ''M'')" using u by (simp add: at_most_def)
    from Read_Some [OF w this] obtain md where md: "ReadMetaDataFromDatabase u s = Some (Some md, note_guid md u s)" by auto
    have "songs_ok (note_guid md u s)" using ok songs_cong [of "note_guid md u s" s] by (simp add: songs_ok_def cat_ok_def)
    then have "cat_ok (note_guid md u s)" using ok by (simp add: cat_ok_def)
    then show ?thesis using md w(1) by (simp add: cat_GetPlaylistItemFromURL_def)
  qed
qed

lemma RemoveSong_ok:
  assumes ok: "cat_ok s" and u: "at_most (cat_db s) u (CHR ''M'')"
  shows "\<exists>err s'. cat_RemoveSong u s = Some (err, s') \<and> cat_ok s' \<and> cat_held s' = cat_held s"
proof (cases "cat_db s u")
  case None
  have "cat_working s" "db_ok (cat_db s)" "c_str u = u" using ok u by (simp_all add: cat_ok_def at_most_def)
  then show ?thesis using Read_None [OF _ _ _ None] ok by (simp add: cat_RemoveSong_def)
next
  case (Some v)
  then show ?thesis using RemoveSong_spec [OF ok, of u] u by (fastforce simp: at_most_def song_removed_def kept_else_def)
qed

lemma UpdateSong_ok:
  assumes ok: "cat_ok s" and u: "at_most (cat_db s) (it_url it) (CHR ''M'')" and st: "md_storable (it_metadata it)"
  shows "\<exists>err s'. cat_UpdateSong retr it s = Some (err, s') \<and> cat_ok s' \<and> cat_held s' = cat_held s"
proof (cases "cat_db s (it_url it)")
  case None
  have "cat_working s" "db_ok (cat_db s)" "c_str (it_url it) = it_url it" using ok u by (simp_all add: cat_ok_def at_most_def)
  then have "cat_RemoveSong (it_url it) (s\<lparr>m_inUpdateSong := True\<rparr>) = Some (kError_ItemNotFound, s\<lparr>m_inUpdateSong := True\<rparr>)"
    using Read_None [of "s\<lparr>m_inUpdateSong := True\<rparr>" "it_url it"] None by (simp add: cat_RemoveSong_def)
  then show ?thesis using ok \<open>cat_working s\<close> by (simp add: cat_UpdateSong_def IsError_def)
next
  case (Some v)
  then show ?thesis using UpdateSong_spec [OF ok, of it] u st by (fastforce simp: at_most_def kept_else_def)
qed

lemma cat_do_ok:
  assumes ok: "cat_ok s" and c: "cat_permits s c" and retr: "\<forall>u. md_storable (retr u)"
  shows "\<exists>err s'. cat_do retr c s = Some (err, s') \<and> call_ok s c err s'"
proof -
  have add: "\<exists>err s'. cat_AddSong retr u s = Some (err, s') \<and> cat_ok s' \<and> cat_held s' = cat_held s"
    if "at_most (cat_db s) u (CHR ''M'')" for u
    using AddSong_spec [OF ok, of u retr] song_call_ok retr that unfolding at_most_def by blast
  have stream: "\<exists>err s'. cat_AddStream u s = Some (err, s') \<and> cat_ok s' \<and> cat_held s' = cat_held s + (if err = kError_DuplicateItem then 1 else 0)"
    if u: "at_most (cat_db s) u (CHR ''S'')" for u
  proof (cases "cat_db s u")
    case None
    then show ?thesis using Read_None [of s u] ok u by (simp add: cat_AddStream_def cat_ok_def at_most_def)
  next
    case (Some v)
    then show ?thesis using AddStream_ok [OF ok, of u] u unfolding at_most_def by (auto split: if_splits)
  qed
  note ok_defs = call_ok_def
  show ?thesis
  proof (cases c)
    case (CallAdd u)
    have w: "cat_working s" "db_Value u (cat_db s) = cat_db s u" "c_str u = u"
      using ok c CallAdd Value_ok by (simp_all add: cat_ok_def)
    have m: "at_most (cat_db s) u d" if "is_record (cat_db s) u d" for d using that w(3) by (simp add: at_most_def)
    consider "cat_db s u = None" | "is_record (cat_db s) u (CHR ''M'')" | "is_record (cat_db s) u (CHR ''P'')"
      | "is_record (cat_db s) u (CHR ''S'')" | v where "cat_db s u = Some v" "v = [] \<or> hd v \<notin> {CHR ''M'', CHR ''P'', CHR ''S''}"
      by (cases "cat_db s u") (auto simp: is_record_def)
    then show ?thesis
    proof cases
      case 2
      then show ?thesis using add [OF m [OF 2]] CallAdd w ok by (auto simp: cat_Add_def is_record_def call_ok_def)
    next
      case 3
      then show ?thesis using AddPlaylist_ok [OF ok m [OF 3]] CallAdd w ok
        by (cases "cat_AddPlaylist u s") (auto simp: cat_Add_def is_record_def call_ok_def)
    next
      case 4
      then show ?thesis using stream [OF m [OF 4]] CallAdd w ok by (auto simp: cat_Add_def is_record_def call_ok_def)
    qed (use CallAdd w ok in \<open>auto simp: cat_Add_def call_ok_def is_record_def\<close>)
  next
    case (CallRemove u)
    have w: "cat_working s" "db_Value u (cat_db s) = cat_db s u" "c_str u = u"
      using ok c CallRemove Value_ok by (simp_all add: cat_ok_def)
    have m: "at_most (cat_db s) u d" if "is_record (cat_db s) u d" for d using that w(3) by (simp add: at_most_def)
    consider "cat_db s u = None" | "is_record (cat_db s) u (CHR ''M'')" | "is_record (cat_db s) u (CHR ''P'')"
      | "is_record (cat_db s) u (CHR ''S'')" | v where "cat_db s u = Some v" "v = [] \<or> hd v \<notin> {CHR ''M'', CHR ''P'', CHR ''S''}"
      by (cases "cat_db s u") (auto simp: is_record_def)
    then show ?thesis
    proof cases
      case 2
      then show ?thesis using RemoveSong_ok [OF ok m [OF 2]] CallRemove w ok by (auto simp: cat_Remove_def is_record_def call_ok_def)
    next
      case 3
      then show ?thesis using RemovePlaylist_ok [OF ok m [OF 3]] CallRemove w ok
        by (cases "cat_RemovePlaylist u s") (auto simp: cat_Remove_def is_record_def call_ok_def)
    next
      case 4
      then show ?thesis using RemoveStream_ok [OF ok m [OF 4]] CallRemove w ok by (auto simp: cat_Remove_def is_record_def call_ok_def)
    qed (use CallRemove w ok in \<open>auto simp: cat_Remove_def call_ok_def is_record_def\<close>)
  next
    case (CallAddPlaylist u)
    then show ?thesis using AddPlaylist_ok [OF ok, of u] c by (cases "cat_AddPlaylist u s") (simp add: call_ok_def)
  next
    case (CallRemovePlaylist u)
    then show ?thesis using RemovePlaylist_ok [OF ok, of u] c by (cases "cat_RemovePlaylist u s") (simp add: call_ok_def)
  next
    case (CallFind u)
    then show ?thesis using Find_ok [OF ok, of u] c by (auto simp: call_ok_def)
  next
    case (CallAddSong u)
    then show ?thesis using add [of u] c by (auto simp: call_ok_def)
  next
    case (CallRemoveSong u)
    then show ?thesis using RemoveSong_ok [OF ok, of u] c by (auto simp: call_ok_def)
  next
    case (CallUpdateSong it)
    then show ?thesis using UpdateSong_ok [OF ok, of it retr] c by (auto simp: call_ok_def)
  next
    case (CallAddStream u)
    then show ?thesis using stream [of u] c by (auto simp: call_ok_def)
  next
    case (CallRemoveStream u)
    then show ?thesis using RemoveStream_ok [OF ok, of u] c by (auto simp: call_ok_def)
  qed
qed

text \<open>The states permitted calls lead to from an opened database.\<close>

inductive cat_reachable :: "(string \<Rightarrow> metadata) \<Rightarrow> database \<Rightarrow> catalog \<Rightarrow> bool" for retr db where
  start: "cat_reachable retr db (cat_construct db)"
| call: "cat_reachable retr db s'" if "cat_reachable retr db s" "cat_permits s c" "cat_do retr c s = Some (err, s')"

lemma cat_reachable_ok:
  "cat_reachable retr db s \<Longrightarrow> db_ok db \<Longrightarrow> \<forall>u. md_storable (retr u) \<Longrightarrow> cat_ok s"
proof (induction rule: cat_reachable.induct)
  case start
  then show ?case by (simp add: construct_ok)
next
  case (call s c err s')
  then show ?case using cat_do_ok [of s c retr] by (auto simp: call_ok_def)
qed

text \<open>
  C7. The catalog stays in step with its database. From a database whose records can be read, every sequence of
  permitted calls is defined, and after it no two songs have the same URL, no artist is without an album and no album without a song,
  and every song stands, up to case, under the artist and album of its record, or in the unsorted list
  when the record names no artist. A call keeps the catalog's lock exactly when it adds a stream
  that is there already.
\<close>

theorem catalog_in_step:
  assumes "cat_reachable retr db s" and "cat_permits s c" and "db_ok db" and "\<forall>u. md_storable (retr u)"
  shows "\<exists>err s'. cat_do retr c s = Some (err, s') \<and>
    distinct (map (it_url \<circ> snd) (songs s')) \<and>
    (\<forall>ar \<in> set (m_artistList s'). m_albumList ar \<noteq> [] \<and> (\<forall>al \<in> set (m_albumList ar). m_trackList al \<noteq> [])) \<and>
    (\<forall>(pl, t) \<in> set (songs s'). \<exists>md. song_record (cat_db s') (it_url t) = Some md \<and> place_ok pl md) \<and>
    cat_held s' = cat_held s + (if adds_stream s c \<and> err = kError_DuplicateItem then 1 else 0)"
proof -
  from cat_do_ok [OF cat_reachable_ok [OF assms(1,3,4)] assms(2,4)] obtain err s' where
    c: "cat_do retr c s = Some (err, s')" "call_ok s c err s'" by blast
  then have ok: "songs_ok s'" by (simp add: call_ok_def cat_ok_def)
  then have "\<forall>ar \<in> set (m_artistList s'). m_albumList ar \<noteq> [] \<and> (\<forall>al \<in> set (m_albumList ar). m_trackList al \<noteq> [])"
    by (simp add: songs_ok_def artists_ok_def artist_ok_def albums_ok_def album_ok_def)
  moreover have "\<forall>(pl, t) \<in> set (songs s'). \<exists>md. song_record (cat_db s') (it_url t) = Some md \<and> place_ok pl md"
    using ok by (simp add: songs_ok_def)
  ultimately show ?thesis using c song_urls_distinct [OF ok] by (auto simp: call_ok_def)
qed

theorem catalog_in_step_witness:
  "\<exists>err s'. cat_do (\<lambda>_. new_metadata) (CallAddSong ''u'') demo_catalog = Some (err, s') \<and>
    distinct (map (it_url \<circ> snd) (songs s')) \<and>
    (\<forall>ar \<in> set (m_artistList s'). m_albumList ar \<noteq> [] \<and> (\<forall>al \<in> set (m_albumList ar). m_trackList al \<noteq> [])) \<and>
    (\<forall>(pl, t) \<in> set (songs s'). \<exists>md. song_record (cat_db s') (it_url t) = Some md \<and> place_ok pl md) \<and>
    cat_held s' = cat_held demo_catalog + (if adds_stream demo_catalog (CallAddSong ''u'') \<and> err = kError_DuplicateItem then 1 else 0)"
proof (rule catalog_in_step)
  show "cat_reachable (\<lambda>_. new_metadata) (cat_db demo_catalog) demo_catalog"
    using cat_reachable.start [of "\<lambda>_. new_metadata" "cat_db demo_catalog"] by (simp add: demo_catalog_def cat_construct_def)
  show "cat_permits demo_catalog (CallAddSong ''u'')"
    by (simp add: at_most_def is_record_def demo_catalog_def cat_construct_def metadata_text_def)
  show "db_ok (cat_db demo_catalog)" by (rule demo_db_ok)
  show "\<forall>u. md_storable new_metadata" by (simp add: md_storable_def new_metadata_def)
qed

end
