(* ===== verification/CatalogRepopulate.thy ===== *)
theory CatalogRepopulate
  imports CatalogSafety
begin

section \<open>The catalog that is read back from its database\<close>

text \<open>
  \<open>RePopulateFromDatabase\<close> goes through the keys of the database. The contract of \<open>gdbm_firstkey\<close> and
  \<open>gdbm_nextkey\<close> it relies on is \<open>walks\<close>: as long as no key is added or removed, they go through all keys, each once.
\<close>

definition next_in :: "string list \<Rightarrow> string option" where
  "next_in ks = (case ks of [] \<Rightarrow> None | k # _ \<Rightarrow> Some k)"

definition walks :: "next_key \<Rightarrow> string list \<Rightarrow> bool" where
  "walks nk ks \<longleftrightarrow> distinct ks \<and> (\<forall>db. dom db = set ks \<longrightarrow> nk db None = next_in ks \<and>
     (\<forall>i < length ks. nk db (Some (ks ! i)) = next_in (drop (Suc i) ks)))"

text \<open>The keys \<open>NextKey\<close> returns.\<close>

definition shown :: "string list \<Rightarrow> string list" where
  "shown ks = filter (\<lambda>k. k \<noteq> DATABASE_VERSION_KEY) ks"

lemma shown_simps [simp]: "shown [] = []" "shown (k # ks) = (if k = DATABASE_VERSION_KEY then shown ks else k # shown ks)"
  by (simp_all add: shown_def)

lemma NextKey_rest:
  assumes "\<And>i. i < length ks \<Longrightarrow> nk db (Some (ks ! i)) = next_in (drop (Suc i) ks)"
  shows "i \<le> length ks \<Longrightarrow> nk db k0 = next_in (drop i ks) \<Longrightarrow> db_NextKey nk db k0 = Some (next_in (shown (drop i ks)))"
proof (induction "length ks - i" arbitrary: i k0)
  case 0
  then show ?case by (subst db_NextKey.simps) (simp add: next_in_def)
next
  case (Suc n)
  then have i: "i < length ks" by simp
  then have d: "drop i ks = ks ! i # drop (Suc i) ks" by (rule Cons_nth_drop_Suc [symmetric])
  show ?case
  proof (cases "ks ! i = DATABASE_VERSION_KEY")
    case True
    have "db_NextKey nk db (Some (ks ! i)) = Some (next_in (shown (drop (Suc i) ks)))"
      using Suc.hyps(2) i assms by (intro Suc.hyps(1)) auto
    then show ?thesis using True Suc.prems(2) by (subst db_NextKey.simps) (simp add: d next_in_def)
  qed (use Suc.prems(2) in \<open>subst db_NextKey.simps; simp add: d next_in_def\<close>)
qed

lemma AddSong_recorded:
  assumes ok: "cat_ok s" and url: "c_str url = url" and rec: "is_record (cat_db s) url (CHR ''M'')"
  shows "\<exists>err s'. cat_AddSong retr url s = Some (err, s') \<and> song_added url (song_md retr url s) s err s'"
proof -
  have w: "cat_working s" "db_ok (cat_db s)" using ok by (simp_all add: cat_ok_def)
  from Read_Some [OF w url rec] obtain md where md: "ReadMetaDataFromDatabase url s = Some (Some md, note_guid md url s)"
    "song_record (cat_db s) url = Some md" by auto
  have "md_storable new_metadata" by (simp add: md_storable_def new_metadata_def)
  with AddSong_spec [OF ok url, of "\<lambda>_. new_metadata"] rec obtain err s' where
    "cat_AddSong (\<lambda>_. new_metadata) url s = Some (err, s')" "song_added url (song_md (\<lambda>_. new_metadata) url s) s err s'" by blast
  moreover have "cat_AddSong retr url s = cat_AddSong (\<lambda>_. new_metadata) url s" using md(1) by (simp add: cat_AddSong_def)
  moreover have "song_md retr url s = song_md (\<lambda>_. new_metadata) url s" using md(2) by (simp add: song_md_def)
  ultimately show ?thesis by simp
qed

text \<open>What is listed: the URLs of songs, playlists and streams.\<close>

definition listed :: "catalog \<Rightarrow> char \<Rightarrow> string set" where
  "listed s c = (if c = CHR ''M'' then song_urls s else if c = CHR ''P'' then set (m_playlists s) else it_url ` set (m_streams s))"

abbreviation types :: "char set" where
  "types \<equiv> {CHR ''M'', CHR ''P'', CHR ''S''}"

definition same_types :: "database \<Rightarrow> database \<Rightarrow> bool" where
  "same_types db db' \<longleftrightarrow> dom db' = dom db \<and> (\<forall>u. \<forall>c \<in> types. is_record db' u c \<longleftrightarrow> is_record db u c)"

lemma same_types_refl [simp]: "same_types db db"
  by (simp add: same_types_def)

lemma same_types_trans: "same_types a b \<Longrightarrow> same_types b c \<Longrightarrow> same_types a c"
  by (simp add: same_types_def)

lemma is_record_iff: "is_record db u c \<Longrightarrow> is_record db u d \<longleftrightarrow> d = c"
  by (auto simp: is_record_def)

lemma is_record_cong: "db' v = db v \<Longrightarrow> is_record db' v c = is_record db v c"
  by (simp add: is_record_def)

lemma same_types_song:
  assumes "is_record db u (CHR ''M'')" "is_record db' u (CHR ''M'')" "\<forall>v. v \<noteq> u \<longrightarrow> db' v = db v"
  shows "same_types db db'"
proof -
  have "is_record db' v c = is_record db v c" for v c
    using is_record_iff [OF assms(1)] is_record_iff [OF assms(2)] is_record_cong [of db' v db] assms(3) by (cases "v = u") simp_all
  moreover have "dom db' = dom db"
  proof (intro set_eqI)
    fix v
    show "v \<in> dom db' \<longleftrightarrow> v \<in> dom db" using assms by (cases "v = u") (auto simp: is_record_def)
  qed
  ultimately show ?thesis by (simp add: same_types_def)
qed

text \<open>One key: it is added to the list of its type.\<close>

lemma Add_lists:
  assumes ok: "cat_ok s" and k: "cat_db s k \<noteq> None" and new: "\<forall>c \<in> types. k \<notin> listed s c"
  shows "\<exists>err s'. cat_Add retr k s = Some (err, s') \<and> cat_ok s' \<and> cat_held s' = cat_held s \<and> same_types (cat_db s) (cat_db s') \<and>
    (\<forall>c \<in> types. listed s' c = listed s c \<union> {u. u = k \<and> is_record (cat_db s) k c})"
proof -
  have w: "cat_working s" "db_ok (cat_db s)" "c_str k = k" using ok k by (auto simp: cat_ok_def db_ok_def)
  have v: "db_Value k (cat_db s) = cat_db s k" using w by (simp add: Value_ok)
  consider "is_record (cat_db s) k (CHR ''M'')" | "is_record (cat_db s) k (CHR ''P'')" | "is_record (cat_db s) k (CHR ''S'')"
    | d where "cat_db s k = Some d" "d = [] \<or> hd d \<notin> types"
    using k by (cases "cat_db s k") (auto simp: is_record_def)
  then show ?thesis
  proof cases
    case 1
    from AddSong_recorded [OF ok w(3) 1, of retr] obtain err s' where
      a: "cat_AddSong retr k s = Some (err, s')" "song_added k (song_md retr k s) s err s'" by blast
    have "k \<notin> song_urls s" using new by (simp add: listed_def)
    then obtain pl md where p: "mset (songs s') = add_mset (pl, new_item k (Some (song_md retr k s))) (mset (songs s))"
      "song_record (cat_db s') k = Some md" using a(2) by (auto simp: song_added_def)
    then have u: "song_urls s' = insert k (song_urls s)" using songs_set [OF p(1)] by (simp add: song_urls_def)
    have kept: "cat_ok s' \<and> kept_else k s s'" using a(2) unfolding song_added_def by blast
    then have "same_types (cat_db s) (cat_db s')" using 1 song_record_is_record [OF p(2)]
      by (intro same_types_song [of _ k]) (simp_all add: kept_else_def)
    moreover have "cat_Add retr k s = Some (err, s')" using 1 a(1) w(1) v by (auto simp: cat_Add_def is_record_def)
    ultimately show ?thesis using kept u is_record_iff [OF 1] by (auto simp: listed_def kept_else_def)
  next
    case 2
    then have m: "at_most (cat_db s) k (CHR ''P'')" using w(3) by (simp add: at_most_def)
    have "cat_Add retr k s = Some (cat_AddPlaylist k s)" using 2 w(1) v by (auto simp: cat_Add_def is_record_def)
    moreover have "snd (cat_AddPlaylist k s) = cat_send (CatPlaylistAdded k)
        (s\<lparr>m_playlists := (if is_currentlist k then k # m_playlists s else m_playlists s @ [k])\<rparr>)"
      using 2 w(1) v new by (auto simp: cat_AddPlaylist_def is_record_def listed_def)
    ultimately show ?thesis using AddPlaylist_ok [OF ok m] is_record_iff [OF 2]
      by (cases "cat_AddPlaylist k s") (auto simp: listed_def cat_send_def song_urls_def songs_def)
  next
    case 3
    have "k \<notin> it_url ` set (m_streams s)" using new by (simp add: listed_def)
    moreover have st: "cat_Add retr k s = cat_AddStream k s" using 3 w(1) v by (auto simp: cat_Add_def is_record_def)
    ultimately show ?thesis using AddStream_ok [OF ok 3 w(3)] st is_record_iff [OF 3]
      by (auto simp: listed_def song_urls_def)
  next
    case 4
    then have "cat_Add retr k s = Some (kError_YouScrewedUp, s)" "\<forall>c \<in> types. \<not> is_record (cat_db s) k c"
      using w(1) v by (auto simp: cat_Add_def is_record_def)
    then show ?thesis using ok by auto
  qed
qed

lemma repopulate_loop_lists:
  assumes nk: "walks nk ks" and db: "dom (cat_db s0) = set ks"
  shows "i \<le> length ks \<Longrightarrow> cat_ok s \<Longrightarrow> same_types (cat_db s0) (cat_db s) \<Longrightarrow>
    \<forall>c \<in> types. listed s c \<inter> set (drop i ks) = {} \<Longrightarrow>
    \<exists>s'. repopulate_loop nk retr (next_in (shown (drop i ks))) s = Some s' \<and> cat_ok s' \<and> cat_held s' = cat_held s \<and>
      same_types (cat_db s0) (cat_db s') \<and>
      (\<forall>c \<in> types. listed s' c = listed s c \<union> {u \<in> set (shown (drop i ks)). is_record (cat_db s0) u c})"
proof (induction "length ks - i" arbitrary: i s)
  case 0
  then show ?case by (subst repopulate_loop.simps) (simp add: next_in_def)
next
  case (Suc n)
  then have i: "i < length ks" "Suc i \<le> length ks" and n: "n = length ks - Suc i" by simp_all
  then have d: "drop i ks = ks ! i # drop (Suc i) ks" by (simp add: Cons_nth_drop_Suc)
  have nd: "ks ! i \<notin> set (drop (Suc i) ks)" using nk d distinct_drop [of ks i] by (simp add: walks_def)
  show ?case
  proof (cases "ks ! i = DATABASE_VERSION_KEY")
    case True
    have "\<forall>c \<in> types. listed s c \<inter> set (drop (Suc i) ks) = {}" using Suc.prems(4) by (auto simp: d)
    from Suc.hyps(1) [OF n i(2) Suc.prems(2,3) this] show ?thesis using True by (simp add: d)
  next
    case False
    let ?k = "ks ! i"
    have "cat_db s ?k \<noteq> None" using Suc.prems(3) db i(1) by (metis domIff nth_mem same_types_def)
    moreover have "\<forall>c \<in> types. ?k \<notin> listed s c" using Suc.prems(4) by (auto simp: d)
    ultimately obtain err s1 where a: "cat_Add retr ?k s = Some (err, s1)" "cat_ok s1" "cat_held s1 = cat_held s"
      "same_types (cat_db s) (cat_db s1)" "\<forall>c \<in> types. listed s1 c = listed s c \<union> {u. u = ?k \<and> is_record (cat_db s) ?k c}"
      using Add_lists [OF Suc.prems(2), of ?k retr] by blast
    have t: "same_types (cat_db s0) (cat_db s1)" using Suc.prems(3) a(4) by (rule same_types_trans)
    have "dom (cat_db s1) = set ks" using t db by (simp add: same_types_def)
    then have "\<And>j. j < length ks \<Longrightarrow> nk (cat_db s1) (Some (ks ! j)) = next_in (drop (Suc j) ks)" using nk by (simp add: walks_def)
    from NextKey_rest [of ks nk "cat_db s1", OF this i(2), of "Some ?k"] this [OF i(1)]
    have nx: "db_NextKey nk (cat_db s1) (Some ?k) = Some (next_in (shown (drop (Suc i) ks)))" by simp
    have "\<forall>c \<in> types. listed s1 c \<inter> set (drop (Suc i) ks) = {}" using Suc.prems(4) a(5) nd by (auto simp: d)
    from Suc.hyps(1) [OF n i(2) a(2) t this] obtain s' where
      s': "repopulate_loop nk retr (next_in (shown (drop (Suc i) ks))) s1 = Some s'" "cat_ok s'" "cat_held s' = cat_held s1"
      "same_types (cat_db s0) (cat_db s')"
      "\<forall>c \<in> types. listed s' c = listed s1 c \<union> {u \<in> set (shown (drop (Suc i) ks)). is_record (cat_db s0) u c}" by blast
    have "repopulate_loop nk retr (next_in (shown (drop i ks))) s = Some s'"
      using False a(1) nx s'(1) by (subst repopulate_loop.simps) (simp add: d next_in_def)
    moreover have "listed s' c = listed s c \<union> {u \<in> set (shown (drop i ks)). is_record (cat_db s0) u c}" if "c \<in> types" for c
      using that s'(5) a(5) False Suc.prems(3) by (auto simp: d same_types_def)
    ultimately show ?thesis using s'(2-4) a(3) by auto
  qed
qed

lemma cleared_ok:
  assumes "cat_working s" "db_ok (cat_db s)" and "s' = (cat_send e (cat_ClearCatalog s))\<lparr>m_killGUIDs := a, m_bSurpressAddMessages := b\<rparr>"
  shows "cat_ok s' \<and> cat_db s' = cat_db s \<and> cat_held s' = cat_held s \<and> listed s' c = {}"
  using assms by (simp add: cat_ok_def songs_ok_def songs_def artists_ok_def cat_send_def cat_ClearCatalog_def listed_def song_urls_def)

lemma sub_version_ok:
  assumes "cat_ok s" "\<not> is_record (cat_db s) SUB_VERSION_KEY (CHR ''M'')"
  shows "cat_ok (s\<lparr>m_killGUIDs := a, cat_db := db_StoreSubVersion 3 (cat_db s), m_bSurpressAddMessages := b\<rparr>)"
proof -
  have un: "SUB_VERSION_KEY \<notin> song_urls s" using assms by (intro other_record_unlisted) (simp_all add: cat_ok_def)
  have "decimal 3 = ''3''" by code_simp
  then have "db_StoreSubVersion 3 (cat_db s) = (cat_db s)(SUB_VERSION_KEY \<mapsto> ''3'')"
    by (simp add: db_StoreSubVersion_def db_Insert_def SUB_VERSION_KEY_def)
  moreover have "db_ok ((cat_db s)(SUB_VERSION_KEY \<mapsto> ''3''))"
    using assms(1) by (auto simp: db_ok_def cat_ok_def readable_def SUB_VERSION_KEY_def)
  ultimately show ?thesis using assms(1)
    by (intro cat_ok_unlisted [OF assms(1) un]) (simp_all add: cat_ok_def)
qed

text \<open>
  \<open>RePopulateFromDatabase\<close> returns, whatever the catalog listed before, and lists exactly the keys whose records have a
  type. The keys must be walked through once each, and the key of the sub-version must not hold such a record.
\<close>

lemma repopulate_lists:
  assumes w: "cat_working s" "db_ok (cat_db s)" and nk: "walks nk ks" "dom (cat_db s) = set ks"
    and sub: "\<forall>c \<in> types. \<not> is_record (cat_db s) SUB_VERSION_KEY c"
  shows "\<exists>s'. cat_RePopulateFromDatabase nk retr apsOn s = Some (kError_NoErr, s') \<and> cat_ok s' \<and> cat_held s' = cat_held s \<and>
    (\<forall>c \<in> types. listed s' c = {u. u \<noteq> DATABASE_VERSION_KEY \<and> is_record (cat_db s) u c})"
proof -
  define old where "old = (db_GetSubVersion (cat_db s) < 3)"
  define s1 where "s1 = (cat_send CatalogCleared (cat_ClearCatalog s))\<lparr>m_killGUIDs := (old \<or> m_killGUIDs s), m_bSurpressAddMessages := True\<rparr>"
  note c1 = cleared_ok [OF w s1_def]
  have "nk (cat_db s1) None = next_in (drop 0 ks)" and step: "\<And>i. i < length ks \<Longrightarrow> nk (cat_db s1) (Some (ks ! i)) = next_in (drop (Suc i) ks)"
    using nk c1 by (simp_all add: walks_def)
  from NextKey_rest [of ks nk "cat_db s1" 0 None, OF step _ this(1)]
  have first: "db_NextKey nk (cat_db s1) None = Some (next_in (shown (drop 0 ks)))" by simp
  from repopulate_loop_lists [OF nk(1), of s1 0 s1 retr] c1 nk(2) obtain s2 where
    s2: "repopulate_loop nk retr (next_in (shown (drop 0 ks))) s1 = Some s2" "cat_ok s2" "cat_held s2 = cat_held s"
      "same_types (cat_db s) (cat_db s2)"
      "\<forall>c \<in> types. listed s2 c = {u \<in> set (shown ks). is_record (cat_db s) u c}" by auto
  define s3 where "s3 = s2\<lparr>m_killGUIDs := (\<not> old \<and> m_killGUIDs s2), cat_db := db_StoreSubVersion 3 (cat_db s2), m_bSurpressAddMessages := False\<rparr>"
  define s4 where "s4 = (if m_sigs s3 \<noteq> {} \<and> apsOn then cat_send UnsignaturedTracksExist s3 else s3)"
  have "cat_ok s3" unfolding s3_def using s2(2,4) sub by (intro sub_version_ok) (auto simp: same_types_def)
  then have "cat_ok s4" by (simp add: s4_def cat_send_def cat_ok_def songs_ok_def songs_def)
  moreover have "cat_RePopulateFromDatabase nk retr apsOn s = Some (kError_NoErr, s4)"
    using w(1) first s2(1) unfolding cat_RePopulateFromDatabase_def
    by (simp add: Let_def s1_def [unfolded old_def, symmetric] cat_send_def cat_ClearCatalog_def)
      (simp add: s1_def s3_def s4_def old_def cat_send_def cat_ClearCatalog_def)
  moreover have "listed s4 c = listed s2 c" for c
    by (simp add: s4_def s3_def cat_send_def listed_def song_urls_def songs_def)
  moreover have "cat_held s4 = cat_held s" using s2(3) by (simp add: s4_def s3_def cat_send_def)
  moreover have "u \<in> set ks" if "is_record (cat_db s) u c" for u c using that nk(2) by (auto simp: is_record_def)
  ultimately show ?thesis using s2(5) by (auto simp: shown_def)
qed



end
