(* ===== verification/CatalogScan.thy ===== *)
theory CatalogScan
  imports CatalogRepopulate
begin

section \<open>Keeping the catalog up to date\<close>

text \<open>
  The parts of \<open>base/src/musiccatalog.cpp\<close> that go over the database or the file system: removing the records of files that are
  gone (\<open>PruneThread\<close>, \<open>PruneDirectory\<close>), searching directories (\<open>DoSearchMusic\<close>), what happens when a search is
  done, opening a database, and storing what the signature service knows about a song. Whether a file exists is the parameter \<open>exists\<close>; each
  function is one run under the catalog's lock.
\<close>

subsection \<open>Pruning\<close>

definition file_of :: "string \<Rightarrow> string option" where
  "file_of url = (if has_prefix ''file://'' url then
     (let (err, filename, len) = URLToFilePath url (length url + 1) in if IsntError err then filename else None) else None)"

text \<open>
  The loop over the keys. A record to remove is removed by \<open>Remove\<close> or, without messages, just from the
  database, and the loop begins again at the first key.
\<close>

partial_function (option) prune_loop ::
  "next_key \<Rightarrow> (string \<Rightarrow> bool) \<Rightarrow> bool \<Rightarrow> string option \<Rightarrow> catalog \<Rightarrow> catalog option" where
  "prune_loop nk gone sendmessages next s = (case next of
       None \<Rightarrow> Some s
     | Some k \<Rightarrow> do {
         (s', from) \<leftarrow> (if gone k then
             (if sendmessages then do { (err, s') \<leftarrow> cat_Remove k s; Some (s', None) }
              else Some (s\<lparr>cat_db := db_Remove k (cat_db s), m_trackCount := m_trackCount s - 1\<rparr>, None))
           else Some (s, Some k));
         next' \<leftarrow> db_NextKey nk (cat_db s') from;
         prune_loop nk gone sendmessages next' s'
       })"

definition gone_file :: "(string \<Rightarrow> bool) \<Rightarrow> string \<Rightarrow> bool" where
  "gone_file exists url = (case file_of url of None \<Rightarrow> False | Some filename \<Rightarrow> \<not> exists filename)"

definition cat_PruneThread :: "next_key \<Rightarrow> (string \<Rightarrow> bool) \<Rightarrow> bool \<Rightarrow> catalog \<Rightarrow> catalog option" where
  "cat_PruneThread nk exists sendmessages s = do {
     next \<leftarrow> db_NextKey nk (cat_db s) None;
     prune_loop nk (gone_file exists) sendmessages next s
   }"

definition gone_under :: "string \<Rightarrow> (string \<Rightarrow> bool) \<Rightarrow> string \<Rightarrow> bool" where
  "gone_under directory exists url = (case file_of url of None \<Rightarrow> False
     | Some filename \<Rightarrow> has_prefix (c_str directory) filename \<and> \<not> exists filename)"

definition cat_PruneDirectory :: "next_key \<Rightarrow> string \<Rightarrow> (string \<Rightarrow> bool) \<Rightarrow> catalog \<Rightarrow> catalog option" where
  "cat_PruneDirectory nk directory exists s = do {
     next \<leftarrow> db_NextKey nk (cat_db s) None;
     prune_loop nk (gone_under directory exists) True next s
   }"

subsection \<open>Opening a database, the end of a search\<close>

text \<open>\<open>SetDatabase\<close> up to the thread it starts for \<open>PruneThread\<close>.\<close>

definition cat_SetDatabase :: "next_key \<Rightarrow> (string \<Rightarrow> metadata) \<Rightarrow> bool \<Rightarrow> database \<Rightarrow> catalog \<Rightarrow> catalog option" where
  "cat_SetDatabase nk retr apsOn disk s = do {
     let (upgraded, db) = db_open 1 disk;
     (err, s) \<leftarrow> cat_RePopulateFromDatabase nk retr apsOn (s\<lparr>cat_working := True, cat_db := db\<rparr>);
     Some (cat_Sort s)
   }"

definition cat_SearchMusicDone :: "next_key \<Rightarrow> (string \<Rightarrow> bool) \<Rightarrow> (string \<Rightarrow> metadata) \<Rightarrow> bool \<Rightarrow> catalog \<Rightarrow> catalog option" where
  "cat_SearchMusicDone nk exists retr apsOn s = do {
     s \<leftarrow> cat_PruneThread nk exists False s;
     (err, s) \<leftarrow> cat_RePopulateFromDatabase nk retr apsOn s;
     Some (cat_Sort s)
   }"

subsection \<open>Searching\<close>

text \<open>
  A directory as \<open>FindFirstFile\<close> and \<open>FindNextFile\<close> list it; symbolic links are passed over. The messages to the browser are left out.
\<close>

datatype entry = Plain string | Folder string "entry list" | Symlink string

record searcher =
  sr_retr :: "string \<Rightarrow> metadata"
  sr_playlist :: "string \<Rightarrow> bool" \<comment> \<open>\<open>IsSupportedPlaylistFormat\<close> of the extension\<close>
  sr_music :: "string \<Rightarrow> bool" \<comment> \<open>\<open>IsSupportedExtension\<close>\<close>
  sr_extension :: "string \<Rightarrow> string option" \<comment> \<open>\<open>Player::GetExtension\<close>\<close>
  sr_exit :: "string \<Rightarrow> bool" \<comment> \<open>\<open>m_exit\<close> after the entry with this path\<close>

text \<open>A playlist file: its record is written, and it is added at once in a quiet search.\<close>

definition found_playlist :: "bool \<Rightarrow> string \<Rightarrow> catalog \<Rightarrow> catalog option" where
  "found_playlist immediately file s =
     (let (err, url, len) = FilePathToURL file (length file + 10)
      in case url of
           Some u \<Rightarrow> (let s = (if IsntError err then s\<lparr>cat_db := db_Insert u ''P'' (cat_db s)\<rparr> else s)
             in Some (if immediately then snd (cat_AddPlaylist u s) else s))
         | None \<Rightarrow> (if immediately then None else Some s))"

text \<open>A music file. A quiet search leaves a file with a record alone; a search with messages reads it again, but keeps the signature.\<close>

definition found_music :: "(string \<Rightarrow> metadata) \<Rightarrow> bool \<Rightarrow> bool \<Rightarrow> string \<Rightarrow> catalog \<Rightarrow> catalog option" where
  "found_music retr immediately bSendMessages file s =
     (let (err, url, len) = FilePathToURL file (length file + 10)
      in if IsError err then Some s
         else do {
           u \<leftarrow> url;
           (known, s) \<leftarrow> (if \<not> bSendMessages then ReadMetaDataFromDatabase u s else Some (None, s));
           if known \<noteq> None then Some s
           else do {
             let newmd = retr u;
             (tempdata, s) \<leftarrow> ReadMetaDataFromDatabase u s;
             let s = (if tempdata = None \<or> \<not> immediately
                      then WriteMetaDataToDatabase kTypeTrack u
                        (case tempdata of None \<Rightarrow> newmd | Some d \<Rightarrow> newmd\<lparr>m_guid := m_guid d\<rparr>) s
                      else s);
             if immediately then map_option snd (cat_AddSong retr u s) else Some s
           }
         })"

definition join_path :: "string \<Rightarrow> string \<Rightarrow> string" where
  "join_path path name = (if path \<noteq> [] \<and> last path \<noteq> DIR_MARKER then path @ [DIR_MARKER] @ name else path @ name)"

fun DoSearchMusic :: "searcher \<Rightarrow> bool \<Rightarrow> bool \<Rightarrow> string \<Rightarrow> entry list \<Rightarrow> catalog \<Rightarrow> catalog option" where
  "DoSearchMusic sr immediately bSend path [] s = Some s"
| "DoSearchMusic sr immediately bSend path (Symlink name # es) s =
     (if sr_exit sr (join_path path name) then Some s else DoSearchMusic sr immediately bSend path es s)"
| "DoSearchMusic sr immediately bSend path (Folder name sub # es) s = do {
     s \<leftarrow> (if name = ''.'' \<or> name = ''..'' \<or> join_path path name \<in> {''/dev'', ''/proc''} then Some s
          else DoSearchMusic sr immediately bSend (join_path path name) sub s);
     if sr_exit sr (join_path path name) then Some s else DoSearchMusic sr immediately bSend path es s
   }"
| "DoSearchMusic sr immediately bSend path (Plain name # es) s = do {
     let file = path @ [DIR_MARKER] @ name;
     s \<leftarrow> (case sr_extension sr name of
          None \<Rightarrow> Some s
        | Some fileExt \<Rightarrow>
            if sr_playlist sr fileExt \<and> name \<noteq> ''currentlist.m3u'' then found_playlist immediately file s
            else if sr_music sr fileExt then found_music (sr_retr sr) immediately bSend file s
            else Some s);
     if sr_exit sr (join_path path name) then Some s else DoSearchMusic sr immediately bSend path es s
   }"

text \<open>\<open>DoSearchPaths\<close>: \<open>ls\<close> is what \<open>FindFirstFile\<close> finds in a directory, if it can be read.\<close>

fun search_paths :: "searcher \<Rightarrow> (string \<Rightarrow> entry list option) \<Rightarrow> bool \<Rightarrow> string list \<Rightarrow> catalog \<Rightarrow> catalog option" where
  "search_paths sr ls bSend [] s = Some s"
| "search_paths sr ls bSend (path # paths) s = do {
     s \<leftarrow> (if path \<in> {''/dev'', ''/proc''} then Some s
          else (case ls path of None \<Rightarrow> Some s | Some es \<Rightarrow> DoSearchMusic sr (\<not> bSend) bSend path es s));
     search_paths sr ls bSend paths s
   }"

subsection \<open>What the signature service knows\<close>

definition change_item :: "string \<Rightarrow> metadata \<Rightarrow> item \<Rightarrow> item" where
  "change_item url md t = (if it_url t = url then t\<lparr>it_metadata := md\<rparr> else t)"

text \<open>\<open>plitem->SetMetaData(data)\<close>: the item is the one in the lists.\<close>

definition change_listed :: "string \<Rightarrow> metadata \<Rightarrow> catalog \<Rightarrow> catalog" where
  "change_listed url md s = s\<lparr>m_unsorted := map (change_item url md) (m_unsorted s),
     m_artistList := map (\<lambda>ar. ar\<lparr>m_albumList := map (\<lambda>al. al\<lparr>m_trackList := map (change_item url md) (m_trackList al)\<rparr>) (m_albumList ar)\<rparr>)
       (m_artistList s)\<rparr>"

text \<open>\<open>aps\<close> is what \<open>APSFillMetaData\<close> makes of the metadata, when it succeeds.\<close>

definition cat_DoMBLookup ::
  "(string \<Rightarrow> metadata) \<Rightarrow> (metadata \<Rightarrow> string \<Rightarrow> metadata option) \<Rightarrow> string \<Rightarrow> string \<Rightarrow> catalog \<Rightarrow> catalog option" where
  "cat_DoMBLookup retr aps url guid s =
     (if guid = [] then Some s
      else do {
        (found, s) \<leftarrow> ReadMetaDataFromDatabase url s;
        let data = (case found of None \<Rightarrow> new_metadata | Some d \<Rightarrow> d)\<lparr>m_guid := guid\<rparr>;
        let data = (case aps data url of None \<Rightarrow> data | Some d \<Rightarrow> d);
        let s = WriteMetaDataToDatabase kTypeTrack url data s;
        (plitem, s) \<leftarrow> cat_GetPlaylistItemFromURL url s;
        case plitem of
          None \<Rightarrow> Some s
        | Some it \<Rightarrow> map_option snd (cat_UpdateSong retr (it\<lparr>it_metadata := data\<rparr>) (change_listed url data s))
      })"

subsection \<open>Pruning ends\<close>

text \<open>The contract of the traversal for every set of keys.\<close>

definition walks_all :: "next_key \<Rightarrow> bool" where
  "walks_all nk \<longleftrightarrow> (\<forall>K. finite K \<longrightarrow> (\<exists>ks. set ks = K \<and> walks nk ks))"

definition doomed :: "(string \<Rightarrow> bool) \<Rightarrow> database \<Rightarrow> string set" where
  "doomed gone db = {k \<in> dom db. gone k \<and> k \<noteq> DATABASE_VERSION_KEY}"

text \<open>What one round does with a record to remove.\<close>

definition prune_one :: "bool \<Rightarrow> string \<Rightarrow> catalog \<Rightarrow> catalog option" where
  "prune_one sendmessages k s = (if sendmessages then map_option snd (cat_Remove k s)
     else Some (s\<lparr>cat_db := db_Remove k (cat_db s), m_trackCount := m_trackCount s - 1\<rparr>))"

lemma prune_loop_step:
  "prune_loop nk gone m next s = (case next of
       None \<Rightarrow> Some s
     | Some k \<Rightarrow> (if gone k then do { s' \<leftarrow> prune_one m k s; next' \<leftarrow> db_NextKey nk (cat_db s') None; prune_loop nk gone m next' s' }
         else do { next' \<leftarrow> db_NextKey nk (cat_db s) (Some k); prune_loop nk gone m next' s }))"
  by (subst prune_loop.simps) (auto simp: prune_one_def map_option_case split: option.split bind_splits)

definition pruner :: "(string \<Rightarrow> bool) \<Rightarrow> bool \<Rightarrow> (catalog \<Rightarrow> bool) \<Rightarrow> bool" where
  "pruner gone sendmessages I \<longleftrightarrow> (\<forall>s k. I s \<longrightarrow> k \<in> doomed gone (cat_db s) \<longrightarrow>
     (\<exists>s'. prune_one sendmessages k s = Some s' \<and> I s' \<and> cat_db s' = (cat_db s)(k := None)))"

definition pruned :: "(string \<Rightarrow> bool) \<Rightarrow> database \<Rightarrow> database" where
  "pruned gone db = (\<lambda>k. if gone k \<and> k \<noteq> DATABASE_VERSION_KEY then None else db k)"

lemma pruned_id: "doomed gone db = {} \<Longrightarrow> pruned gone db = db"
  by (fastforce simp: doomed_def pruned_def fun_eq_iff dom_def)

lemma pruned_delete: "gone k \<Longrightarrow> k \<noteq> DATABASE_VERSION_KEY \<Longrightarrow> pruned gone (db(k := None)) = pruned gone db"
  by (auto simp: pruned_def)

lemma walk_first:
  assumes "walks nk ks" "dom db = set ks"
  shows "db_NextKey nk db None = Some (next_in (shown ks))"
    and "i < length ks \<Longrightarrow> db_NextKey nk db (Some (ks ! i)) = Some (next_in (shown (drop (Suc i) ks)))"
proof -
  have step: "\<And>i. i < length ks \<Longrightarrow> nk db (Some (ks ! i)) = next_in (drop (Suc i) ks)" "nk db None = next_in (drop 0 ks)"
    using assms by (simp_all add: walks_def)
  from NextKey_rest [of ks nk db 0 None, OF step(1) _ step(2)] show "db_NextKey nk db None = Some (next_in (shown ks))" by simp
  show "i < length ks \<Longrightarrow> db_NextKey nk db (Some (ks ! i)) = Some (next_in (shown (drop (Suc i) ks)))"
    using NextKey_rest [of ks nk db "Suc i" "Some (ks ! i)", OF step(1)] step(1) [of i] by simp
qed

lemma prune_loop_removes:
  assumes nk: "walks_all nk" and pr: "pruner gone m I" and fin: "finite (dom (cat_db s0))"
  shows "card (doomed gone (cat_db s)) = n \<Longrightarrow> I s \<Longrightarrow> finite (dom (cat_db s)) \<Longrightarrow> walks nk ks \<Longrightarrow> dom (cat_db s) = set ks \<Longrightarrow>
    \<exists>s'. prune_loop nk gone m (next_in (shown ks)) s = Some s' \<and> I s' \<and> cat_db s' = pruned gone (cat_db s)"
proof (induction n arbitrary: s ks)
  case 0
  then have none: "doomed gone (cat_db s) = {}" by (simp add: doomed_def)
  have "i \<le> length ks \<Longrightarrow> prune_loop nk gone m (next_in (shown (drop i ks))) s = Some s" for i
  proof (induction "length ks - i" arbitrary: i)
    case 0
    then show ?case by (subst prune_loop_step) (simp add: next_in_def)
  next
    case (Suc j)
    then have i: "i < length ks" "Suc i \<le> length ks" and j: "j = length ks - Suc i" by simp_all
    then have d: "drop i ks = ks ! i # drop (Suc i) ks" by (simp add: Cons_nth_drop_Suc)
    have IH: "prune_loop nk gone m (next_in (shown (drop (Suc i) ks))) s = Some s" by (rule Suc.hyps(1) [OF j i(2)])
    have "ks ! i \<in> dom (cat_db s)" using i(1) "0.prems"(5) by simp
    then have "ks ! i = DATABASE_VERSION_KEY \<or> \<not> gone (ks ! i)" using none by (auto simp: doomed_def)
    then show ?case
      using IH walk_first(2) [OF "0.prems"(4,5) i(1)] by (cases "ks ! i = DATABASE_VERSION_KEY")
        (simp add: d, subst prune_loop_step, simp add: d next_in_def)
  qed
  from this [of 0] show ?case using "0.prems"(2) pruned_id [OF none] by simp
next
  case (Suc n)
  note outer = Suc.IH and card = Suc.prems(1) and inv = Suc.prems(2) and wk = Suc.prems(4,5)
  have fd: "finite (doomed gone (cat_db s))" and fin: "finite (dom (cat_db s))" using Suc.prems(3) by (simp_all add: doomed_def)
  have "\<forall>j < i. ks ! j \<notin> doomed gone (cat_db s) \<Longrightarrow> i \<le> length ks \<Longrightarrow>
    \<exists>s'. prune_loop nk gone m (next_in (shown (drop i ks))) s = Some s' \<and> I s' \<and> cat_db s' = pruned gone (cat_db s)" for i
  proof (induction "length ks - i" arbitrary: i)
    case 0
    then have "\<forall>k \<in> set ks. k \<notin> doomed gone (cat_db s)" by (auto simp: in_set_conv_nth)
    then have "doomed gone (cat_db s) = {}" using wk by (auto simp: doomed_def)
    then show ?case using card by simp
  next
    case (Suc j)
    let ?k = "ks ! i"
    from Suc.hyps(2) have i: "i < length ks" "Suc i \<le> length ks" and j: "j = length ks - Suc i" by simp_all
    then have d: "drop i ks = ?k # drop (Suc i) ks" by (simp add: Cons_nth_drop_Suc)
    show ?case
    proof (cases "?k \<in> doomed gone (cat_db s)")
      case False
      then have "\<forall>j < Suc i. ks ! j \<notin> doomed gone (cat_db s)" using Suc.prems(1) by (auto simp: less_Suc_eq)
      from Suc.hyps(1) [OF j this i(2)] obtain s' where s': "prune_loop nk gone m (next_in (shown (drop (Suc i) ks))) s = Some s'"
        "I s'" "cat_db s' = pruned gone (cat_db s)" by blast
      have "?k \<in> dom (cat_db s)" using i(1) wk by simp
      then have "?k = DATABASE_VERSION_KEY \<or> \<not> gone ?k" using False by (auto simp: doomed_def)
      then have "prune_loop nk gone m (next_in (shown (drop i ks))) s = Some s'"
        using s'(1) walk_first(2) [OF wk i(1)] by (cases "?k = DATABASE_VERSION_KEY")
          (simp add: d, subst prune_loop_step, simp add: d next_in_def)
      then show ?thesis using s' by blast
    next
      case True
      then have g: "gone ?k" "?k \<noteq> DATABASE_VERSION_KEY" by (simp_all add: doomed_def)
      obtain s1 where s1: "prune_one m ?k s = Some s1" "I s1" "cat_db s1 = (cat_db s)(?k := None)"
        using pr True inv by (auto simp: pruner_def)
      have "doomed gone (cat_db s1) = doomed gone (cat_db s) - {?k}" by (auto simp: s1(3) doomed_def)
      then have c: "card (doomed gone (cat_db s1)) = n" using card True fd by simp
      have f: "finite (dom (cat_db s1))" using fin s1(3) by simp
      then obtain ks1 where ks1: "dom (cat_db s1) = set ks1" "walks nk ks1" using nk unfolding walks_all_def by metis
      from outer [OF c s1(2) f ks1(2,1)] obtain s' where
        s': "prune_loop nk gone m (next_in (shown ks1)) s1 = Some s'" "I s'" "cat_db s' = pruned gone (cat_db s1)" by blast
      have "prune_loop nk gone m (next_in (shown (drop i ks))) s = Some s'"
        using g s1(1) s'(1) walk_first(1) [OF ks1(2,1)] by (subst prune_loop_step) (simp add: d next_in_def)
      then show ?thesis using s' g by (auto simp: s1(3) pruned_delete)
    qed
  qed
  from this [of 0] show ?case by simp
qed

lemma Remove_deletes:
  assumes ok: "cat_ok s" and k: "is_record (cat_db s) k c" "c \<in> types"
  shows "\<exists>err s'. cat_Remove k s = Some (err, s') \<and> cat_ok s' \<and> cat_db s' = (cat_db s)(k := None)"
proof -
  have w: "cat_working s" "db_ok (cat_db s)" "c_str k = k" using ok k by (auto simp: cat_ok_def db_ok_def is_record_def)
  have v: "db_Value k (cat_db s) = cat_db s k" using w by (simp add: Value_ok)
  have safe: "\<exists>err s'. cat_Remove k s = Some (err, s') \<and> cat_ok s'"
    using cat_do_ok [OF ok, of "CallRemove k" "\<lambda>_. new_metadata"] w(3)
    by (auto simp: call_ok_def md_storable_def new_metadata_def)
  consider "is_record (cat_db s) k (CHR ''M'')" | "is_record (cat_db s) k (CHR ''P'')" | "is_record (cat_db s) k (CHR ''S'')"
    using k by auto
  then have "\<forall>err s'. cat_Remove k s = Some (err, s') \<longrightarrow> cat_db s' = (cat_db s)(k := None)"
  proof cases
    case 1
    then have "cat_Remove k s = cat_RemoveSong k s" using w(1) v by (auto simp: cat_Remove_def is_record_def)
    then show ?thesis using RemoveSong_spec [OF ok w(3) 1] by (auto simp: song_removed_def kept_else_def)
  next
    case 2
    then have "cat_Remove k s = Some (cat_RemovePlaylist k s)" "db_Value k (cat_db s) \<noteq> None"
      using w(1) v by (auto simp: cat_Remove_def is_record_def)
    then show ?thesis using w by (auto simp: cat_RemovePlaylist_def Let_def cat_send_def db_Remove_def)
  next
    case 3
    then have "cat_Remove k s = cat_RemoveStream k s" using w(1) v by (auto simp: cat_Remove_def is_record_def)
    moreover from Read_Some [OF w 3] obtain md where "ReadMetaDataFromDatabase k s = Some (Some md, note_guid md k s)" by auto
    ultimately show ?thesis using w
      by (auto simp: cat_RemoveStream_def Let_def cat_send_def db_Remove_def split: option.split)
  qed
  then show ?thesis using safe by blast
qed

lemma pruner_messages:
  "pruner gone True (\<lambda>s. cat_ok s \<and> (\<forall>k \<in> doomed gone (cat_db s). \<exists>c \<in> types. is_record (cat_db s) k c))"
  unfolding pruner_def
proof (intro allI impI)
  fix s k
  assume s: "cat_ok s \<and> (\<forall>k \<in> doomed gone (cat_db s). \<exists>c \<in> types. is_record (cat_db s) k c)" and k: "k \<in> doomed gone (cat_db s)"
  then obtain c where "c \<in> types" "is_record (cat_db s) k c" by blast
  then obtain err s' where s': "cat_Remove k s = Some (err, s')" "cat_ok s'" "cat_db s' = (cat_db s)(k := None)"
    using Remove_deletes s by blast
  have "doomed gone (cat_db s') = doomed gone (cat_db s) - {k}" "\<And>j c. j \<noteq> k \<Longrightarrow> is_record (cat_db s') j c = is_record (cat_db s) j c"
    using s'(3) by (auto simp: doomed_def is_record_def)
  then show "\<exists>s'. prune_one True k s = Some s' \<and> (cat_ok s' \<and> (\<forall>k \<in> doomed gone (cat_db s'). \<exists>c \<in> types. is_record (cat_db s') k c)) \<and>
      cat_db s' = (cat_db s)(k := None)"
    using s s' by (intro exI [of _ s']) (simp add: prune_one_def)
qed

lemma pruner_quiet: "pruner gone False (\<lambda>s. cat_working s \<and> db_ok (cat_db s))"
  by (auto simp: pruner_def prune_one_def db_Remove_def doomed_def db_ok_def)

lemma PruneThread_removes:
  assumes nk: "walks_all nk" and pr: "pruner (gone_file exists) m I" and "I s" and "finite (dom (cat_db s))"
  shows "\<exists>s'. cat_PruneThread nk exists m s = Some s' \<and> I s' \<and> cat_db s' = pruned (gone_file exists) (cat_db s)"
proof -
  obtain ks where ks: "dom (cat_db s) = set ks" "walks nk ks" using nk assms(4) unfolding walks_all_def by metis
  from prune_loop_removes [OF nk pr assms(4) refl assms(3,4) ks(2,1)] show ?thesis
    using walk_first(1) [OF ks(2,1)] by (simp add: cat_PruneThread_def)
qed

subsection \<open>The catalog after a search\<close>

lemma set_std_sort [simp]: "set (std_sort lt xs) = set xs"
  by (induction xs) (simp_all add: std_sort_def)

lemma listed_Sort: "listed (cat_Sort s) c = listed s c"
proof -
  have album: "set (concat (map m_trackList (map (\<lambda>al. al\<lparr>m_trackList := std_sort comp_track (m_trackList al)\<rparr>) als))) =
      set (concat (map m_trackList als))" for als
    by simp
  have "it_url ` (\<Union>ar \<in> set ars. snd ` set (artist_songs ar)) = it_url ` (\<Union>ar \<in> set ars. \<Union>al \<in> set (m_albumList ar). set (m_trackList al))"
    for ars by (force simp: artist_songs_def)
  then have "song_urls s' = it_url ` (set (m_unsorted s') \<union> (\<Union>ar \<in> set (m_artistList s'). \<Union>al \<in> set (m_albumList ar). set (m_trackList al)))"
    for s' by (simp add: song_urls_def songs_def image_Un image_comp image_UN o_def)
  then show ?thesis by (simp add: listed_def cat_Sort_def)
qed

lemma pruned_record: "is_record (pruned gone db) u c \<longleftrightarrow> is_record db u c \<and> \<not> (gone u \<and> u \<noteq> DATABASE_VERSION_KEY)"
  by (auto simp: pruned_def is_record_def)

text \<open>
  C13. When a search is done the catalog is right again, whatever it listed before: pruning and reading back end, and then the songs,
  playlists and streams listed are exactly those the database has a record for, without the \<open>file://\<close>
  URLs whose file is gone. The traversal must go through any set of keys once each, and the key of the sub-version
  must not hold such a record.
\<close>

theorem search_done_lists_existing:
  assumes w: "cat_working s" "db_ok (cat_db s)" "finite (dom (cat_db s))" and nk: "walks_all nk"
    and sub: "\<forall>c \<in> types. \<not> is_record (cat_db s) SUB_VERSION_KEY c"
  shows "\<exists>s'. cat_SearchMusicDone nk exists retr apsOn s = Some s' \<and> cat_held s' = cat_held s \<and>
    (\<forall>c \<in> types. listed s' c = {u. u \<noteq> DATABASE_VERSION_KEY \<and> \<not> gone_file exists u \<and> is_record (cat_db s) u c})"
proof -
  have held: "pruner (gone_file exists) False (\<lambda>s'. (cat_working s' \<and> db_ok (cat_db s')) \<and> cat_held s' = cat_held s)"
    using pruner_quiet [of "gone_file exists"] by (auto simp: pruner_def prune_one_def db_ok_delete)
  from PruneThread_removes [OF nk held _ w(3)] w obtain s1 where s1: "cat_PruneThread nk exists False s = Some s1" "cat_working s1"
    "db_ok (cat_db s1)" "cat_held s1 = cat_held s" "cat_db s1 = pruned (gone_file exists) (cat_db s)" by auto
  have "finite (dom (cat_db s1))" by (rule finite_subset [OF _ w(3)]) (auto simp: s1(5) pruned_def split: if_splits)
  then obtain ks where ks: "dom (cat_db s1) = set ks" "walks nk ks" using nk unfolding walks_all_def by metis
  have "\<forall>c \<in> types. \<not> is_record (cat_db s1) SUB_VERSION_KEY c" using sub by (simp add: s1(5) pruned_record)
  from repopulate_lists [OF s1(2,3) ks(2,1) this, of retr apsOn] obtain s2 where
    s2: "cat_RePopulateFromDatabase nk retr apsOn s1 = Some (kError_NoErr, s2)" "cat_held s2 = cat_held s1"
    "\<forall>c \<in> types. listed s2 c = {u. u \<noteq> DATABASE_VERSION_KEY \<and> is_record (cat_db s1) u c}" by blast
  have "cat_SearchMusicDone nk exists retr apsOn s = Some (cat_Sort s2)" using s1(1) s2(1) by (simp add: cat_SearchMusicDone_def)
  moreover have "cat_held (cat_Sort s2) = cat_held s" using s2(2) s1(4) by (simp add: cat_Sort_def)
  ultimately show ?thesis using s2(3) by (auto simp: listed_Sort s1(5) pruned_record)
qed

text \<open>A traversal in the order of the keys.\<close>

definition sorted_keys :: next_key where
  "sorted_keys db from = (let ks = sorted_list_of_set (dom db) in case from of
       None \<Rightarrow> next_in ks | Some k \<Rightarrow> next_in (tl (dropWhile (\<lambda>j. j \<noteq> k) ks)))"

lemma dropWhile_nth: "distinct ks \<Longrightarrow> i < length ks \<Longrightarrow> tl (dropWhile (\<lambda>j. j \<noteq> ks ! i) ks) = drop (Suc i) ks"
proof (induction ks arbitrary: i)
  case (Cons k ks)
  then show ?case by (cases i) auto
qed simp

lemma walks_all_sorted: "walks_all sorted_keys"
  unfolding walks_all_def
proof (intro allI impI)
  fix K :: "string set"
  assume "finite K"
  then have "walks sorted_keys (sorted_list_of_set K)" "set (sorted_list_of_set K) = K"
    by (simp_all add: walks_def sorted_keys_def Let_def dropWhile_nth)
  then show "\<exists>ks. set ks = K \<and> walks sorted_keys ks" by blast
qed

theorem search_done_lists_existing_witness:
  "\<exists>s'. cat_SearchMusicDone sorted_keys (\<lambda>_. False) (\<lambda>_. new_metadata) True demo_catalog = Some s' \<and> cat_held s' = cat_held demo_catalog \<and>
    (\<forall>c \<in> types. listed s' c = {u. u \<noteq> DATABASE_VERSION_KEY \<and> \<not> gone_file (\<lambda>_. False) u \<and> is_record (cat_db demo_catalog) u c})"
proof (rule search_done_lists_existing)
  show "cat_working demo_catalog" "finite (dom (cat_db demo_catalog))" by (simp_all add: demo_catalog_def cat_construct_def)
  show "db_ok (cat_db demo_catalog)" "walks_all sorted_keys" by (rule demo_db_ok, rule walks_all_sorted)
  show "\<forall>c \<in> types. \<not> is_record (cat_db demo_catalog) SUB_VERSION_KEY c"
    by (simp add: is_record_def demo_catalog_def cat_construct_def SUB_VERSION_KEY_def)
qed

subsection \<open>A song the signature service renames\<close>

text \<open>
  C27. When the signature service knows a listed song under another artist, the new record is written before the song is looked up:
  the lookup fails, the lists stay as they were, and the song stands under an artist its record does not name, so that the
  catalog is out of step with its database.
\<close>

theorem lookup_leaves_song_behind:
  assumes ok: "cat_ok s" and url: "c_str url = url" "url \<in> song_urls s" and guid: "guid \<noteq> []"
    and r: "song_record (cat_db s) url = Some md" "\<not> no_artist md"
    and d: "aps (md\<lparr>m_guid := guid\<rparr>) url = Some d" "md_storable d" "\<not> no_artist d" "norm (m_artist d) \<noteq> norm (m_artist md)"
  shows "\<exists>s'. cat_DoMBLookup retr aps url guid s = Some s' \<and> songs s' = songs s \<and>
    song_record (cat_db s') url = Some (stored d) \<and> \<not> cat_ok s'"
proof -
  have w: "cat_working s" "db_ok (cat_db s)" "songs_ok s" using ok by (simp_all add: cat_ok_def)
  from Read_Some [OF w(1,2) url(1) song_record_is_record [OF r(1)]] r(1) have
    read: "ReadMetaDataFromDatabase url s = Some (Some md, note_guid md url s)" by auto
  define s1 where "s1 = WriteMetaDataToDatabase kTypeTrack url d (note_guid md url s)"
  have s1: "m_artistList s1 = m_artistList s" "m_unsorted s1 = m_unsorted s" "cat_working s1" using w(1) by (simp_all add: s1_def)
  have db1: "cat_db s1 = (cat_db s)(url \<mapsto> metadata_text kTypeTrack d)"
    using Write_db [of "note_guid md url s" d url kTypeTrack] w(1) d(2) url(1) by (simp add: s1_def)
  have r1: "song_record (cat_db s1) url = Some (stored d)" unfolding db1 using d(2) by (rule song_record_text)
  have "db_ok (cat_db s1)" unfolding db1 using w(2) d(2) url(1) by (rule db_ok_text)
  from Read_Some [OF s1(3) this url(1) song_record_is_record [OF r1]] r1 have
    read1: "ReadMetaDataFromDatabase url s1 = Some (Some (stored d), note_guid (stored d) url s1)" by auto
  define s2 where "s2 = note_guid (stored d) url s1"
  have songs: "songs s2 = songs s" using s1 by (intro songs_cong) (simp_all add: s2_def)
  have "it_url t \<noteq> url" if t: "t \<in> set (lookup_album (stored d) s2)" for t
  proof
    assume u: "it_url t = url"
    obtain ar al where a: "ar \<in> set (m_artistList s)" "al \<in> set (m_albumList ar)" "t \<in> set (m_trackList al)" "norm (m_artist d) = norm (ar_name ar)"
      using t s1 by (auto simp: lookup_album_iff s2_def)
    then have "(Some (ar_name ar, al_name al), t) \<in> set (concat (map artist_songs (m_artistList s)))" unfolding artist_song_iff by blast
    then have "(Some (ar_name ar, al_name al), t) \<in> set (songs s)" by (simp add: songs_def)
    from songs_okD [OF w(3) this] u r(1) have "norm (m_artist md) = norm (ar_name ar)" by simp
    then show False using a(4) d(4) by simp
  qed
  then have "find_url url (lookup_album (stored d) s2) = None" by (intro find_url_unique) auto
  then have "cat_GetPlaylistItemFromURL url s1 = Some (None, s2)"
    using read1 s1(3) d(3) by (simp add: cat_GetPlaylistItemFromURL_def lookup_album_def s2_def no_artist_def)
  then have c: "cat_DoMBLookup retr aps url guid s = Some s2"
    using guid read d(1) by (simp add: cat_DoMBLookup_def s1_def)
  obtain pl t where x: "(pl, t) \<in> set (songs s)" "it_url t = url" using url(2) by (auto simp: song_urls_def)
  then have "place_ok pl md" using songs_okD [OF w(3) x(1)] r(1) by simp
  then have "\<not> place_ok pl (stored d)" using r(2) d(4) by (cases pl) auto
  moreover have "cat_db s2 = cat_db s1" by (simp add: s2_def)
  ultimately have "\<not> songs_ok s2" using songs_okD [of s2 "(pl, t)"] x songs r1 by auto
  then show ?thesis using c songs r1 by (auto simp: cat_ok_def s2_def)
qed

definition demo_listed :: catalog where
  "demo_listed = (let md = demo_song\<lparr>m_album := ''B''\<rparr> in (cat_construct [''u'' \<mapsto> metadata_text kTypeTrack md])
     \<lparr>m_artistList := [\<lparr>ar_name = ''A'', m_albumList = [\<lparr>al_name = ''B'', m_trackList = [new_item ''u'' (Some md)]\<rparr>]\<rparr>]\<rparr>)"

theorem lookup_leaves_song_behind_witness:
  "\<exists>s'. cat_DoMBLookup (\<lambda>_. new_metadata) (\<lambda>md url. Some (md\<lparr>m_artist := ''C''\<rparr>)) ''u'' ''g'' demo_listed = Some s' \<and>
    songs s' = songs demo_listed \<and>
    song_record (cat_db s') ''u'' = Some (stored (demo_song\<lparr>m_album := ''B'', m_guid := ''g'', m_artist := ''C''\<rparr>)) \<and> \<not> cat_ok s'"
proof -
  let ?md = "demo_song\<lparr>m_album := ''B''\<rparr>"
  have st: "md_storable ?md" by (simp add: md_storable_def demo_song_def new_metadata_def)
  have db: "cat_db demo_listed = Map.empty(''u'' \<mapsto> metadata_text kTypeTrack ?md)"
    by (simp add: demo_listed_def Let_def cat_construct_def)
  have r: "song_record (cat_db demo_listed) ''u'' = Some ?md"
    unfolding db using song_record_text [OF st] by (simp add: stored_def demo_song_def new_metadata_def)
  have songs: "songs demo_listed = [(Some (''A'', ''B''), new_item ''u'' (Some ?md))]"
    by (simp add: demo_listed_def Let_def cat_construct_def songs_def artist_songs_def)
  have "db_ok (cat_db demo_listed)" unfolding db using st by (intro db_ok_text) (simp_all add: db_ok_def)
  then have "cat_ok demo_listed"
    using r songs by (simp add: cat_ok_def songs_ok_def)
      (simp add: demo_listed_def Let_def cat_construct_def artists_ok_def artist_ok_def albums_ok_def album_ok_def no_artist_def demo_song_def
        unknown_if_blank_def)
  moreover have "''u'' \<in> song_urls demo_listed" by (simp add: song_urls_def songs)
  moreover have other: "norm ''C'' \<noteq> norm ''A''" by code_simp
  ultimately show ?thesis
    using lookup_leaves_song_behind [of demo_listed "''u''" "''g''" ?md "\<lambda>md url. Some (md\<lparr>m_artist := ''C''\<rparr>)"
        "demo_song\<lparr>m_album := ''B'', m_guid := ''g'', m_artist := ''C''\<rparr>" "\<lambda>_. new_metadata"] r other
    by (simp add: no_artist_def demo_song_def md_storable_def new_metadata_def)
qed

end
