(* ===== verification/Player.thy ===== *)
theory Player
  imports PlmSafety CatalogSafety
begin

section \<open>The player\<close>

text \<open>
  The event loop of \<open>base/src/player.cpp\<close>: the player takes one event at a time from its queue, drives the audio output and the
  playlist manager, counts plays in the catalog, and tells the user interfaces. The playlist manager and the catalog are the
  models of their own theories; what they send to their target is put into the player's queue. A plugin is
  what the player asks of it: the name of a registry item, the URLs an input can handle, the extensions of a
  decoder, the result of \<open>SetTo\<close>. An audio output keeps the calls made to it. \<^const>\<open>None\<close> is an access
  through a null or deleted pointer, and also the value for the four events of the signature thread, which is not modelled.
\<close>

subsection \<open>Events\<close>

datatype player_state = PlayerState_Paused | PlayerState_Playing | PlayerState_Stopped

definition state_number :: "player_state \<Rightarrow> nat" where
  "state_number ps = (case ps of PlayerState_Paused \<Rightarrow> 1 | PlayerState_Playing \<Rightarrow> 2 | PlayerState_Stopped \<Rightarrow> 3)"

abbreviation CMD_Stop :: nat where "CMD_Stop \<equiv> 1"
abbreviation CMD_Play :: nat where "CMD_Play \<equiv> 2"
abbreviation CMD_NextMediaPiece :: nat where "CMD_NextMediaPiece \<equiv> 3"
abbreviation CMD_PrevMediaPiece :: nat where "CMD_PrevMediaPiece \<equiv> 4"
abbreviation CMD_Pause :: nat where "CMD_Pause \<equiv> 5"
abbreviation CMD_PlayPaused :: nat where "CMD_PlayPaused \<equiv> 6"
abbreviation CMD_QuitPlayer :: nat where "CMD_QuitPlayer \<equiv> 7"
abbreviation CMD_Cleanup :: nat where "CMD_Cleanup \<equiv> 8"
abbreviation INFO_ReadyToDieUI :: nat where "INFO_ReadyToDieUI \<equiv> 10"
abbreviation INFO_PlaylistDonePlay :: nat where "INFO_PlaylistDonePlay \<equiv> 11"
abbreviation INFO_DoneOutputting :: nat where "INFO_DoneOutputting \<equiv> 12"
abbreviation INFO_MediaInfo :: nat where "INFO_MediaInfo \<equiv> 18"
abbreviation INFO_MediaTimeInfo :: nat where "INFO_MediaTimeInfo \<equiv> 19"
abbreviation INFO_Stopped :: nat where "INFO_Stopped \<equiv> 20"
abbreviation INFO_Paused :: nat where "INFO_Paused \<equiv> 21"
abbreviation CMD_UnPause :: nat where "CMD_UnPause \<equiv> 22"
abbreviation CMD_TogglePause :: nat where "CMD_TogglePause \<equiv> 24"
abbreviation INFO_Playing :: nat where "INFO_Playing \<equiv> 26"
abbreviation CMD_ChangePosition :: nat where "CMD_ChangePosition \<equiv> 27"
abbreviation INFO_ErrorMessage :: nat where "INFO_ErrorMessage \<equiv> 28"
abbreviation INFO_PlaylistItemsUpdated :: nat where "INFO_PlaylistItemsUpdated \<equiv> 36"
abbreviation CMD_SetEQData :: nat where "CMD_SetEQData \<equiv> 38"
abbreviation CMD_SendVisBuf :: nat where "CMD_SendVisBuf \<equiv> 39"
abbreviation CMD_GetVolume :: nat where "CMD_GetVolume \<equiv> 40"
abbreviation CMD_SetVolume :: nat where "CMD_SetVolume \<equiv> 41"
abbreviation INFO_VolumeInfo :: nat where "INFO_VolumeInfo \<equiv> 47"
abbreviation CMD_ToggleDownloadUI :: nat where "CMD_ToggleDownloadUI \<equiv> 55"
abbreviation CMD_TogglePlaylistUI :: nat where "CMD_TogglePlaylistUI \<equiv> 56"
abbreviation CMD_ToggleMusicBrowserUI :: nat where "CMD_ToggleMusicBrowserUI \<equiv> 57"
abbreviation INFO_PrefsChanged :: nat where "INFO_PrefsChanged \<equiv> 63"
abbreviation CMD_QueryPlayerState :: nat where "CMD_QueryPlayerState \<equiv> 66"
abbreviation INFO_DoneOutputtingDueToError :: nat where "INFO_DoneOutputtingDueToError \<equiv> 77"
abbreviation INFO_FileNotFound :: nat where "INFO_FileNotFound \<equiv> 83"
abbreviation CMD_GenerateSignature :: nat where "CMD_GenerateSignature \<equiv> 85"
abbreviation INFO_AudioSignatureGenerated :: nat where "INFO_AudioSignatureGenerated \<equiv> 86"
abbreviation INFO_AudioSignatureFailed :: nat where "INFO_AudioSignatureFailed \<equiv> 87"
abbreviation CMD_KillSigThread :: nat where "CMD_KillSigThread \<equiv> 92"

text \<open>
  The classes of \<open>eventdata.h\<close> whose members the player reads, and a plain event of a type. The 32 values of the
  equalizer and its preamplification are only copied; a number stands for each.
\<close>

datatype player_event =
    Event nat
  | VolumeEvent nat int int
  | ChangePositionEvent int
  | MediaInfoEvent nat nat "player_event list"
  | MissingFileEvent ptr
  | ErrorMessageEvent string
  | EQDataEvent "nat list" nat
  | EQEnableEvent bool
  | PlmEvent plm_event
  | CatalogEvent catalog_event

fun plm_event_type :: "plm_event \<Rightarrow> nat" where
  "plm_event_type (PlaylistCurrentItemInfoEvent p) = 60"
| "plm_event_type (PlaylistShuffleEvent b) = 34"
| "plm_event_type (PlaylistRepeatEvent m) = 33"
| "plm_event_type (PlaylistItemAddedEvent p) = 58"
| "plm_event_type (PlaylistItemsAddedEvent ps) = 76"
| "plm_event_type (PlaylistItemRemovedEvent ps is) = 59"
| "plm_event_type (PlaylistItemMovedEvent i j p) = 61"
| "plm_event_type (PlaylistItemsUpdatedEvent ps) = INFO_PlaylistItemsUpdated"
| "plm_event_type (PlaylistSortedEvent k) = 62"

fun catalog_event_type :: "catalog_event \<Rightarrow> nat" where
  "catalog_event_type (TrackRemoved it pl) = 69"
| "catalog_event_type (TrackAdded it pl) = 68"
| "catalog_event_type (TrackChanged old new) = 72"
| "catalog_event_type (CatPlaylistAdded u) = 70"
| "catalog_event_type (CatPlaylistRemoved u) = 71"
| "catalog_event_type (StreamAdded it) = 74"
| "catalog_event_type (StreamRemoved it) = 75"
| "catalog_event_type CatalogCleared = 73"
| "catalog_event_type UnsignaturedTracksExist = 89"

fun event_type :: "player_event \<Rightarrow> nat" where
  "event_type (Event t) = t"
| "event_type (VolumeEvent t l r) = t"
| "event_type (ChangePositionEvent p) = CMD_ChangePosition"
| "event_type (MediaInfoEvent i n es) = INFO_MediaInfo"
| "event_type (MissingFileEvent p) = INFO_FileNotFound"
| "event_type (ErrorMessageEvent m) = INFO_ErrorMessage"
| "event_type (EQDataEvent v p) = CMD_SetEQData"
| "event_type (EQEnableEvent b) = CMD_SetEQData"
| "event_type (PlmEvent e) = plm_event_type e"
| "event_type (CatalogEvent e) = catalog_event_type e"

text \<open>The long list of \<open>ServiceEvent\<close>: what is only passed on to the user interfaces.\<close>

definition ui_events :: "nat list" where
  "ui_events = [37, 46, 50, 28, 83, 48, 34, 33, 35, 58, 76, 59, 61, 62, 60, 44, 78, 49, 51, 52, 53, 54, 68, 69, 74, 75, 70, 71,
     72, 73, 80, 81, 79, 89, 90, 91, 82, 65, 67, 64, 84, 88, 93, 94, 95]"

subsection \<open>The state\<close>

datatype output_call =
    OutResume
  | OutPause
  | OutSetVolume int int
  | OutChangePosition int
  | LmcSetEQData "nat list" nat
  | LmcSetEQEnable bool

text \<open>An audio output with its decoder, if it has one (the output for CDs has none), and the calls made to them.\<close>

record audio_output =
  out_name :: string
  out_url :: string
  out_lmc :: "nat option"
  out_calls :: "output_call list"

record input_plugin =
  pmi_name :: string
  pmi_protocols :: "string list"
  pmi_CanHandle :: "string \<Rightarrow> bool"

record decoder_plugin =
  lmc_name :: string
  lmc_extensions :: "string list"

record player_prefs =
  pref_pollCD :: bool
  pref_useProxy :: bool
  pref_proxyHost :: string
  pref_pmo :: string

text \<open>
  \<open>pl_shown\<close> is what was sent to all user interfaces, \<open>pl_uiCount\<close> how many there are, \<open>pl_freed\<close> the events deleted
  so far, \<open>pl_opened\<close> the URLs given to \<open>SetTo\<close>; the decoder made for the \<open>n\<close>-th of them is number \<open>n\<close>. \<open>pl_termSem\<close> counts the
  signals of the termination semaphore, if it is set, and \<open>pl_uiHeld\<close> how often the lock of the user interfaces was left taken.
\<close>

record player =
  pl_queue :: "player_event list"
  m_playerState :: player_state
  m_pmo :: "audio_output option"
  m_lmc :: "nat option"
  pl_uiCount :: nat
  m_browserUI :: bool
  m_downloadUI :: bool
  pl_shown :: "player_event list"
  pl_toggled :: "player_event list"
  m_imQuitting :: bool
  m_quitWaitingFor :: int
  pl_termSem :: "nat option"
  pl_uiHeld :: nat
  pl_freed :: "player_event list"
  pl_plm :: plm
  m_musicCatalog :: catalog
  pl_apsLog :: "(string \<times> bool) list"
  m_lmcExtensions :: "(string \<rightharpoonup> string) option"
  m_pmiRegistry :: "input_plugin list option"
  m_pmiProtocols :: "(string \<rightharpoonup> string) option"
  m_pmoRegistry :: "string list option"
  pl_prefs :: player_prefs
  pl_proxy :: "string \<times> int"
  m_cdTimerActive :: bool
  m_eqValues :: "nat list"
  m_eqPreamp :: nat
  m_eqEnabled :: bool
  pl_opened :: "string list"

text \<open>
  What is outside: the metadata \<open>RetrieveMetaDataNow\<close> finds, the result of the \<open>n\<close>-th \<open>SetTo\<close>, the volume an output tells,
  and the number of values of \<open>size_t\<close>.
\<close>

record player_env =
  pe_retr :: "string \<Rightarrow> metadata"
  pe_SetTo :: "nat \<Rightarrow> string \<Rightarrow> error"
  pe_volume :: "audio_output \<Rightarrow> int \<times> int"
  pe_size_t :: nat

text \<open>The proxy preference \<open>host:port\<close>.\<close>

definition proxy_address :: "player_prefs \<Rightarrow> string \<times> int" where
  "proxy_address p = (if \<not> pref_useProxy p then ([], 0)
     else (let host = c_str (pref_proxyHost p)
       in if CHR '':'' \<in> set host
          then (let port = rev (takeWhile (\<lambda>c. c \<noteq> CHR '':'') (rev host))
            in (take (length host - length port - 1) host, if port = [] then 80 else atoi port))
          else (host, 80)))"

text \<open>The constructor; it does not set \<open>m_eqPreamp\<close>.\<close>

definition pl_construct :: "player_prefs \<Rightarrow> plm \<Rightarrow> catalog \<Rightarrow> nat \<Rightarrow> player" where
  "pl_construct prefs plm cat preamp = \<lparr>pl_queue = map PlmEvent (plm_events plm) @ map CatalogEvent (cat_events cat),
     m_playerState = PlayerState_Stopped, m_pmo = None, m_lmc = None,
     pl_uiCount = 0, m_browserUI = False, m_downloadUI = False, pl_shown = [], pl_toggled = [], m_imQuitting = False,
     m_quitWaitingFor = 0, pl_termSem = None, pl_uiHeld = 0, pl_freed = [], pl_plm = plm\<lparr>plm_events := []\<rparr>,
     m_musicCatalog = cat\<lparr>cat_events := []\<rparr>,
     pl_apsLog = [], m_lmcExtensions = None, m_pmiRegistry = None, m_pmiProtocols = None, m_pmoRegistry = None,
     pl_prefs = prefs, pl_proxy = proxy_address prefs, m_cdTimerActive = pref_pollCD prefs, m_eqValues = replicate 32 0,
     m_eqPreamp = preamp, m_eqEnabled = False, pl_opened = []\<rparr>"

definition pl_SetTerminationSemaphore :: "player \<Rightarrow> player" where
  "pl_SetTerminationSemaphore s = s\<lparr>pl_termSem := Some 0\<rparr>"

subsection \<open>Queue, user interfaces, components\<close>

definition pl_AcceptEvent :: "player_event \<Rightarrow> player \<Rightarrow> player" where
  "pl_AcceptEvent e s = s\<lparr>pl_queue := pl_queue s @ [e]\<rparr>"

definition pl_SendToUI :: "player_event \<Rightarrow> player \<Rightarrow> player" where
  "pl_SendToUI e s = s\<lparr>pl_shown := pl_shown s @ [e]\<rparr>"

text \<open>\<open>delete pEvent\<close>, where the pointer may be null.\<close>

definition pl_free :: "player_event option \<Rightarrow> player \<Rightarrow> player" where
  "pl_free e s = (case e of None \<Rightarrow> s | Some e \<Rightarrow> s\<lparr>pl_freed := pl_freed s @ [e]\<rparr>)"

definition pl_SetState :: "player_state \<Rightarrow> player \<Rightarrow> bool \<times> player" where
  "pl_SetState ps s = (if ps = m_playerState s then (False, s) else (True, s\<lparr>m_playerState := ps\<rparr>))"

text \<open>\<open>if (SetState(ps)) SEND_NORMAL_EVENT(info)\<close>.\<close>

definition pl_enter :: "player_state \<Rightarrow> nat \<Rightarrow> player \<Rightarrow> player" where
  "pl_enter ps info s = (let (changed, s) = pl_SetState ps s in if changed then pl_SendToUI (Event info) s else s)"

text \<open>Calls to the playlist manager and the catalog, whose events arrive in the player's queue.\<close>

definition pl_plm_call :: "(plm \<Rightarrow> (error \<times> plm) option) \<Rightarrow> player \<Rightarrow> player option" where
  "pl_plm_call f s = do {
     (err, p) \<leftarrow> f (pl_plm s);
     Some (s\<lparr>pl_plm := p\<lparr>plm_events := []\<rparr>, pl_queue := pl_queue s @ map PlmEvent (plm_events p)\<rparr>)
   }"

definition pl_catalog_call :: "(catalog \<Rightarrow> (error \<times> catalog) option) \<Rightarrow> player \<Rightarrow> player option" where
  "pl_catalog_call f s = do {
     (err, c) \<leftarrow> f (m_musicCatalog s);
     Some (s\<lparr>m_musicCatalog := c\<lparr>cat_events := []\<rparr>, pl_queue := pl_queue s @ map CatalogEvent (cat_events c)\<rparr>)
   }"

definition pl_output_call :: "output_call \<Rightarrow> player \<Rightarrow> player" where
  "pl_output_call c s = s\<lparr>m_pmo := map_option (\<lambda>out. out\<lparr>out_calls := out_calls out @ [c]\<rparr>) (m_pmo s)\<rparr>"

text \<open>\<open>delete m_pmo\<close>, which deletes its decoder and input too, with the pointers to them reset.\<close>

definition pl_drop_output :: "player \<Rightarrow> player" where
  "pl_drop_output s = s\<lparr>m_pmo := None, m_lmc := None\<rparr>"

definition pl_stop_output :: "player \<Rightarrow> player" where
  "pl_stop_output s = (if m_pmo s = None then s else pl_drop_output s)"

subsection \<open>Registries\<close>

text \<open>The registries of decoders and inputs with the maps from what they offer; a later plugin replaces an earlier one.\<close>

definition pl_RegisterLMCs :: "decoder_plugin list \<Rightarrow> player \<Rightarrow> player" where
  "pl_RegisterLMCs registry s = s\<lparr>m_lmcExtensions :=
     Some (fold (\<lambda>d m. fold (\<lambda>ext m. m(ext \<mapsto> lmc_name d)) (lmc_extensions d) m) registry Map.empty)\<rparr>"

definition pl_RegisterPMIs :: "input_plugin list \<Rightarrow> player \<Rightarrow> player" where
  "pl_RegisterPMIs registry s = s\<lparr>m_pmiRegistry := Some registry, m_pmiProtocols :=
     Some (fold (\<lambda>i m. fold (\<lambda>proto m. m(proto \<mapsto> pmi_name i)) (pmi_protocols i) m) registry Map.empty)\<rparr>"

definition pl_RegisterPMOs :: "string list \<Rightarrow> player \<Rightarrow> player" where
  "pl_RegisterPMOs registry s = s\<lparr>m_pmoRegistry := Some registry\<rparr>"

definition pl_RegisterActiveUI :: "player \<Rightarrow> player" where
  "pl_RegisterActiveUI s = s\<lparr>pl_uiCount := pl_uiCount s + 1\<rparr>"

definition pl_IsSupportedExtension :: "string option \<Rightarrow> player \<Rightarrow> bool option" where
  "pl_IsSupportedExtension ext s = (case ext of None \<Rightarrow> Some False
     | Some x \<Rightarrow> do { m \<leftarrow> m_lmcExtensions s; Some (m x \<noteq> None) })"

definition pl_IsSupportedProtocol :: "string option \<Rightarrow> player \<Rightarrow> bool option" where
  "pl_IsSupportedProtocol proto s = (case proto of None \<Rightarrow> Some False
     | Some x \<Rightarrow> do { m \<leftarrow> m_pmiProtocols s; Some (m x \<noteq> None) })"

definition GetProtocol :: "string \<Rightarrow> string option" where
  "GetProtocol title = map_option (\<lambda>n. take n (c_str title)) (strstr ''://'' (c_str title))"

definition pl_GetExtension :: "string \<Rightarrow> player \<Rightarrow> string option option" where
  "pl_GetExtension title s = do {
     let ext = map_option (map toupper) (extension_of title);
     known \<leftarrow> pl_IsSupportedExtension ext s;
     if known \<or> plm_IsSupportedPlaylistFormat ext (pl_plm s) then Some ext
     else do {
       let proto = GetProtocol title;
       remote \<leftarrow> pl_IsSupportedProtocol proto s;
       Some (if remote \<and> \<not> has_prefix_ci ''file'' (the proto) then Some ''MP3'' else None)
     }
   }"

definition pl_ChooseLMC :: "string \<Rightarrow> player \<Rightarrow> string option option" where
  "pl_ChooseLMC url s = do {
     ext \<leftarrow> pl_GetExtension url s;
     case ext of None \<Rightarrow> Some None | Some x \<Rightarrow> do { m \<leftarrow> m_lmcExtensions s; Some (m x) }
   }"

definition pl_ChoosePMI :: "string \<Rightarrow> player \<Rightarrow> string option option" where
  "pl_ChoosePMI url s = do {
     let url = (if strstr ''://'' url = None then ''file://'' @ url else url);
     registry \<leftarrow> m_pmiRegistry s;
     Some (map_option pmi_name (find (\<lambda>i. pmi_CanHandle i url) registry))
   }"

subsection \<open>The audio output\<close>

text \<open>The name of the output: that for CDs, the one of the preferences, or the first.\<close>

definition pl_cd_output :: "string \<Rightarrow> player \<Rightarrow> bool option" where
  "pl_cd_output url s = do {
     extension \<leftarrow> pl_GetExtension url s;
     registry \<leftarrow> m_pmoRegistry s;
     Some (case extension of None \<Rightarrow> False | Some x \<Rightarrow> has_prefix_ci ''CDA'' x \<and> ''cd.pmo'' \<in> set registry)
   }"

definition pl_default_output :: "player \<Rightarrow> string option" where
  "pl_default_output s = do {
     registry \<leftarrow> m_pmoRegistry s;
     if 256 \<le> length (pref_pmo (pl_prefs s)) then None
     else if pref_pmo (pl_prefs s) \<in> set registry then Some (pref_pmo (pl_prefs s))
     else vec_at registry 0
   }"

definition pmi_error :: "string \<Rightarrow> string" where
  "pmi_error url = ''Cannot determine what pmi to use for '' @ url @ [CHR 0x0A]"

text \<open>
  \<open>CreatePMO\<close>. The buffer of the message has 1024 characters. When \<open>SetTo\<close> fails, the output is deleted with its decoder, but \<open>m_lmc\<close> keeps the pointer. A file that is not found is
  reported, and the command to play is sent again without a change of the position.
\<close>

definition pl_CreatePMO :: "player_env \<Rightarrow> ptr \<Rightarrow> player \<Rightarrow> player option" where
  "pl_CreatePMO env pc s = (if pc = NULL then None else do {
     it \<leftarrow> plm_heap (pl_plm s) pc;
     let url = c_str (it_url it);
     let s = pl_stop_output s;
     pmi_item \<leftarrow> pl_ChoosePMI url s;
     case pmi_item of None \<Rightarrow> (if 1024 \<le> length (pmi_error url) then None
         else Some (pl_AcceptEvent (ErrorMessageEvent (pmi_error url)) s))
     | Some pmi \<Rightarrow> do {
         lmc_item \<leftarrow> pl_ChooseLMC url s;
         lmc_item \<leftarrow> (case lmc_item of None \<Rightarrow> pl_ChooseLMC ''blah.mp3'' s | Some l \<Rightarrow> Some (Some l));
         cd \<leftarrow> pl_cd_output url s;
         let n = length (pl_opened s);
         out \<leftarrow> (if cd then Some \<lparr>out_name = ''cd.pmo'', out_url = url, out_lmc = None, out_calls = []\<rparr>
           else do {
             name \<leftarrow> pl_default_output s;
             l \<leftarrow> lmc_item;
             Some \<lparr>out_name = name, out_url = url, out_lmc = Some n,
               out_calls = [LmcSetEQData (m_eqValues s) (m_eqPreamp s), LmcSetEQEnable (m_eqEnabled s)]\<rparr>
           });
         let s = s\<lparr>m_lmc := out_lmc out, pl_opened := pl_opened s @ [url]\<rparr>;
         let err = pe_SetTo env n url;
         if err = kError_FileNotFound then do {
           cur \<leftarrow> plm_GetCurrentItem (pl_plm s);
           Some (pl_AcceptEvent (Event CMD_Play) (pl_AcceptEvent (MissingFileEvent cur) s))
         }
         else if IsError err then Some s
         else Some (s\<lparr>m_pmo := Some out\<rparr>)
       }
   })"

subsection \<open>The handlers\<close>

text \<open>A finished song with a signature of 16 characters is counted, in the playlist, the catalog and the log of plays.\<close>

definition pl_count_play :: "player_env \<Rightarrow> player \<Rightarrow> player option" where
  "pl_count_play env s = do {
     p \<leftarrow> plm_GetCurrentItem (pl_plm s);
     if p = NULL then Some s
     else do {
       it \<leftarrow> plm_heap (pl_plm s) p;
       if length (m_guid (it_metadata it)) = 16 then do {
         let it = it\<lparr>it_metadata := AddPlayCount (it_metadata it)\<rparr>;
         s \<leftarrow> pl_catalog_call (cat_UpdateSong (pe_retr env) it) (s\<lparr>pl_plm := (pl_plm s)\<lparr>plm_heap := (plm_heap (pl_plm s))(p \<mapsto> it)\<rparr>\<rparr>);
         Some (s\<lparr>pl_apsLog := pl_apsLog s @ [(m_guid (it_metadata it), False)]\<rparr>)
       }
       else Some s
     }
   }"

definition pl_rewind :: "player \<Rightarrow> player option" where
  "pl_rewind s = map_option (pl_SendToUI (Event INFO_PlaylistDonePlay)) (pl_plm_call (plm_SetCurrentIndex 0) s)"

definition pl_DoneOutputting :: "player_env \<Rightarrow> player_event \<Rightarrow> player \<Rightarrow> player option" where
  "pl_DoneOutputting env e s = do {
     s \<leftarrow> pl_count_play env (pl_stop_output s);
     let s = pl_SendToUI (Event INFO_DoneOutputting) (pl_enter PlayerState_Stopped INFO_Stopped s);
     let mode = m_repeatMode (pl_plm s);
     s \<leftarrow> (if event_type e = INFO_DoneOutputtingDueToError \<and> (mode = kPlaylistMode_RepeatOne \<or>
            mode = kPlaylistMode_RepeatAll \<and> plm_CountItems (pl_plm s) = 1) then pl_rewind s
          else if plm_HasAnotherItem (pe_size_t env) (pl_plm s) then do {
            s \<leftarrow> pl_plm_call (plm_GotoNextItem False) s;
            Some (pl_AcceptEvent (Event (if m_playerState s = PlayerState_Paused then CMD_PlayPaused else CMD_Play)) s)
          }
          else pl_rewind s);
     Some (pl_free (Some e) s)
   }"

definition pl_Stop :: "player_event option \<Rightarrow> player \<Rightarrow> player" where
  "pl_Stop e s = pl_free e (pl_enter PlayerState_Stopped INFO_Stopped (pl_stop_output s))"

definition pl_GetVolume :: "player_env \<Rightarrow> player_event \<Rightarrow> player \<Rightarrow> player" where
  "pl_GetVolume env e s = (let s = pl_free (Some e) s
     in case m_pmo s of None \<Rightarrow> s
        | Some out \<Rightarrow> (let (left, right) = pe_volume env out in pl_SendToUI (VolumeEvent INFO_VolumeInfo left right) s))"

definition pl_SetVolume :: "player_event \<Rightarrow> player \<Rightarrow> player option" where
  "pl_SetVolume e s = (case e of VolumeEvent t left right \<Rightarrow> Some (pl_free (Some e) (pl_output_call (OutSetVolume left right) s))
     | _ \<Rightarrow> None)"

definition pl_ChangePosition :: "player_event \<Rightarrow> player \<Rightarrow> player option" where
  "pl_ChangePosition e s = (case e of ChangePositionEvent pos \<Rightarrow> Some (pl_free (Some e) (pl_output_call (OutChangePosition pos) s))
     | _ \<Rightarrow> if m_pmo s = None then Some (pl_free (Some e) s) else None)"

definition pl_HandleQueryState :: "player \<Rightarrow> player" where
  "pl_HandleQueryState s = pl_SendToUI (Event (case m_playerState s of PlayerState_Playing \<Rightarrow> INFO_Playing
     | PlayerState_Stopped \<Rightarrow> INFO_Stopped | PlayerState_Paused \<Rightarrow> INFO_Paused)) s"

text \<open>
  \<open>Play\<close>. The event that is passed over is the one whose type is the number of the state \<open>PlayerState_Playing\<close>; it is \<open>CMD_Play\<close>.
\<close>

definition pl_Play :: "player_env \<Rightarrow> player_event \<Rightarrow> player \<Rightarrow> player option" where
  "pl_Play env e s =
     (if m_playerState s = PlayerState_Playing \<and> event_type e = state_number PlayerState_Playing then Some (pl_free (Some e) s)
      else do {
        let s = (if m_playerState s = PlayerState_Playing
                 then pl_enter PlayerState_Stopped INFO_Stopped (pl_drop_output s) else s);
        s \<leftarrow> (if m_pmo s = None then do {
                 p \<leftarrow> plm_GetCurrentItem (pl_plm s);
                 if p = NULL then Some s else pl_CreatePMO env p s
               } else Some s);
        if m_pmo s = None then Some (pl_free (Some e) s)
        else if event_type e = CMD_PlayPaused
        then (let (changed, s) = pl_SetState PlayerState_Paused s
              in Some (pl_free (Some e) (if changed then pl_SendToUI (Event INFO_Paused) (pl_SendToUI (Event INFO_Playing) s) else s)))
        else Some (pl_free (Some e) (pl_enter PlayerState_Playing INFO_Playing (pl_output_call OutResume s)))
      })"

text \<open>\<open>Next\<close> and \<open>Previous\<close> differ in the step of the playlist.\<close>

definition pl_skip :: "(plm \<Rightarrow> (error \<times> plm) option) \<Rightarrow> player_event \<Rightarrow> player \<Rightarrow> player option" where
  "pl_skip step e s = do {
     s \<leftarrow> (if m_playerState s \<noteq> PlayerState_Stopped then do {
            p \<leftarrow> plm_GetCurrentItem (pl_plm s);
            s \<leftarrow> (if p = NULL then Some s else do {
                 it \<leftarrow> plm_heap (pl_plm s) p;
                 Some (s\<lparr>pl_apsLog := pl_apsLog s @ [(m_guid (it_metadata it), True)]\<rparr>)
               });
            Some (pl_AcceptEvent (Event CMD_Stop) s)
          } else Some s);
     s \<leftarrow> pl_plm_call step s;
     let s = (case m_playerState s of PlayerState_Stopped \<Rightarrow> s
         | PlayerState_Paused \<Rightarrow> pl_AcceptEvent (Event CMD_PlayPaused) s
         | PlayerState_Playing \<Rightarrow> pl_AcceptEvent (Event CMD_Play) s);
     Some (pl_free (Some e) s)
   }"

definition pl_Next :: "player_event \<Rightarrow> player \<Rightarrow> player option" where
  "pl_Next = pl_skip (plm_GotoNextItem True)"

definition pl_Previous :: "player_event \<Rightarrow> player \<Rightarrow> player option" where
  "pl_Previous = pl_skip (plm_GotoPreviousItem True)"

definition pl_Pause :: "player_event option \<Rightarrow> player \<Rightarrow> player" where
  "pl_Pause e s = pl_free e (if m_pmo s = None then s
     else pl_enter PlayerState_Paused INFO_Paused (pl_output_call OutPause s))"

definition pl_UnPause :: "player_event option \<Rightarrow> player \<Rightarrow> player" where
  "pl_UnPause e s = pl_free e (if m_pmo s = None then s
     else pl_enter PlayerState_Playing INFO_Playing (pl_output_call OutResume s))"

definition pl_TogglePause :: "player_event \<Rightarrow> player \<Rightarrow> player" where
  "pl_TogglePause e s = pl_free (Some e) (if m_pmo s = None then s
     else (case m_playerState s of PlayerState_Playing \<Rightarrow> pl_Pause None s
       | PlayerState_Paused \<Rightarrow> pl_UnPause None s | PlayerState_Stopped \<Rightarrow> s))"

text \<open>A player without user interfaces ends with the lock still taken; so does the last \<open>ReadyToDieUI\<close>.\<close>

definition pl_signal :: "player \<Rightarrow> player" where
  "pl_signal s = s\<lparr>pl_termSem := map_option Suc (pl_termSem s)\<rparr>"

definition pl_Quit :: "player_event \<Rightarrow> player \<Rightarrow> int \<times> player" where
  "pl_Quit e s =
     (let s = (pl_Stop None s)\<lparr>m_imQuitting := True\<rparr>;
          s = s\<lparr>m_quitWaitingFor := int (pl_uiCount s)\<rparr>;
          s = pl_free (Some e) (pl_SendToUI (Event CMD_Cleanup) s)
      in if m_quitWaitingFor s = 0 then (1, (pl_signal s)\<lparr>pl_uiHeld := pl_uiHeld s + 1\<rparr>) else (0, s))"

definition pl_ReadyToDieUI :: "player_event \<Rightarrow> player \<Rightarrow> int \<times> player" where
  "pl_ReadyToDieUI e s =
     (let s = pl_free (Some e) s
      in if \<not> m_imQuitting s then (0, s)
         else let s = s\<lparr>m_quitWaitingFor := m_quitWaitingFor s - 1\<rparr>
           in if m_quitWaitingFor s > 0 then (0, s) else (1, (pl_signal s)\<lparr>pl_uiHeld := pl_uiHeld s + 1\<rparr>))"

definition pl_HandleMediaInfo :: "player_event \<Rightarrow> player \<Rightarrow> player option" where
  "pl_HandleMediaInfo e s = (case e of
       MediaInfoEvent i n children \<Rightarrow> do {
         index \<leftarrow> plm_GetCurrentIndex (pl_plm s);
         let info = MediaInfoEvent (u32 (index + 1)) (plm_CountItems (pl_plm s)) children;
         Some (pl_free (Some e) (fold pl_SendToUI children (pl_SendToUI info s)))
       }
     | _ \<Rightarrow> None)"

text \<open>\<open>HandleMediaTimeInfo\<close> and \<open>SendVisBuf\<close>.\<close>

definition pl_show_playing :: "player_event \<Rightarrow> player \<Rightarrow> player" where
  "pl_show_playing e s = pl_free (Some e) (if m_playerState s = PlayerState_Playing then pl_SendToUI e s else s)"

definition pl_SetEQData :: "player_event \<Rightarrow> player \<Rightarrow> player option" where
  "pl_SetEQData e s = do {
     (s, c) \<leftarrow> (case e of
         EQDataEvent values preamp \<Rightarrow> Some (s\<lparr>m_eqValues := values, m_eqPreamp := preamp\<rparr>, LmcSetEQData values preamp)
       | EQEnableEvent on \<Rightarrow> Some (s\<lparr>m_eqEnabled := on\<rparr>, LmcSetEQEnable on)
       | _ \<Rightarrow> None);
     s \<leftarrow> (case m_pmo s of
         Some out \<Rightarrow> (if m_lmc s = None then Some s else if m_lmc s = out_lmc out then Some (pl_output_call c s) else None)
       | None \<Rightarrow> Some s);
     Some (pl_free (Some e) s)
   }"

definition pl_ToggleUI :: "player_event \<Rightarrow> player \<Rightarrow> player" where
  "pl_ToggleUI e s = pl_free (Some e)
     (if (if event_type e = CMD_ToggleDownloadUI then m_downloadUI s else m_browserUI s)
      then s\<lparr>pl_toggled := pl_toggled s @ [e]\<rparr> else s)"

text \<open>The catalog only looks at its timer when the preferences change.\<close>

definition pl_HandlePrefsChanged :: "player_event \<Rightarrow> player \<Rightarrow> player" where
  "pl_HandlePrefsChanged e s = pl_free (Some e) (pl_SendToUI e
     (s\<lparr>m_cdTimerActive := pref_pollCD (pl_prefs s), pl_proxy := proxy_address (pl_prefs s)\<rparr>))"

subsection \<open>The event loop\<close>

definition pl_ServiceEvent :: "player_env \<Rightarrow> player_event \<Rightarrow> player \<Rightarrow> (int \<times> player) option" where
  "pl_ServiceEvent env e s =
     (let t = event_type e; go = map_option (Pair 0)
      in if t = INFO_DoneOutputtingDueToError \<or> t = INFO_DoneOutputting then go (pl_DoneOutputting env e s)
         else if t = CMD_Stop then Some (0, pl_Stop (Some e) s)
         else if t = CMD_GetVolume then Some (0, pl_GetVolume env e s)
         else if t = CMD_SetVolume then go (pl_SetVolume e s)
         else if t = CMD_ChangePosition then go (pl_ChangePosition e s)
         else if t = CMD_PlayPaused \<or> t = CMD_Play then go (pl_Play env e s)
         else if t = CMD_NextMediaPiece then go (pl_Next e s)
         else if t = CMD_PrevMediaPiece then go (pl_Previous e s)
         else if t = CMD_Pause then Some (0, pl_Pause (Some e) s)
         else if t = CMD_UnPause then Some (0, pl_UnPause (Some e) s)
         else if t = CMD_TogglePause then Some (0, pl_TogglePause e s)
         else if t = CMD_QuitPlayer then Some (pl_Quit e s)
         else if t = CMD_QueryPlayerState then Some (0, pl_HandleQueryState s)
         else if t = INFO_ReadyToDieUI then Some (pl_ReadyToDieUI e s)
         else if t = INFO_MediaInfo then go (pl_HandleMediaInfo e s)
         else if t = INFO_MediaTimeInfo then Some (0, pl_show_playing e s)
         else if t = INFO_PrefsChanged then Some (0, pl_HandlePrefsChanged e s)
         else if t = INFO_PlaylistItemsUpdated \<or> t \<in> set ui_events then Some (0, pl_free (Some e) (pl_SendToUI e s))
         else if t \<in> {INFO_AudioSignatureGenerated, INFO_AudioSignatureFailed, CMD_GenerateSignature, CMD_KillSigThread} then None
         else if t \<in> {CMD_ToggleDownloadUI, CMD_TogglePlaylistUI, CMD_ToggleMusicBrowserUI} then Some (0, pl_ToggleUI e s)
         else if t = CMD_SetEQData then go (pl_SetEQData e s)
         else if t = CMD_SendVisBuf then Some (0, pl_show_playing e s)
         else Some (0, pl_free (Some e) s))"

text \<open>One turn of \<open>EventServiceThreadFunc\<close>, when the queue has an event.\<close>

definition pl_turn :: "player_env \<Rightarrow> player \<Rightarrow> (int \<times> player) option" where
  "pl_turn env s = (case pl_queue s of [] \<Rightarrow> None | e # q \<Rightarrow> pl_ServiceEvent env e (s\<lparr>pl_queue := q\<rparr>))"

text \<open>The loop until it ends or waits for the next event.\<close>

partial_function (option) pl_serve_all :: "player_env \<Rightarrow> player \<Rightarrow> (int \<times> player) option" where
  "pl_serve_all env s = (if pl_queue s = [] then Some (0, s)
     else do { (r, s) \<leftarrow> pl_turn env s; if r \<noteq> 0 then Some (r, s) else pl_serve_all env s })"

end
