(* ===== verification/PlayerSafety.thy ===== *)
theory PlayerSafety
  imports Player
begin

section \<open>What holds in every state of the player\<close>

text \<open>
  The output exists exactly while the player plays or pauses, the decoder pointer is that of the output, and the user
  interfaces were told the state the player is in. \<open>pl_ok\<close> puts this together with the invariants of the playlist manager and
  the catalog; every permitted event is serviced without undefined behaviour and keeps it, also when other threads
  call the playlist manager and the catalog in between.
\<close>

subsection \<open>The invariant\<close>

text \<open>The state a user interface concludes from what it was sent.\<close>

definition note_state :: "player_state \<Rightarrow> player_event \<Rightarrow> player_state" where
  "note_state ps e = (if event_type e = INFO_Playing then PlayerState_Playing
     else if event_type e = INFO_Paused then PlayerState_Paused
     else if event_type e = INFO_Stopped then PlayerState_Stopped else ps)"

definition shown_state :: "player_event list \<Rightarrow> player_state" where
  "shown_state es = foldl note_state PlayerState_Stopped es"

lemma shown_state_simps [simp]:
  "shown_state [] = PlayerState_Stopped" "shown_state (es @ fs) = foldl note_state (shown_state es) fs"
  by (simp_all add: shown_state_def)

lemma note_state_simps [simp]:
  "note_state ps (Event INFO_Playing) = PlayerState_Playing" "note_state ps (Event INFO_Paused) = PlayerState_Paused"
  "note_state ps (Event INFO_Stopped) = PlayerState_Stopped" "note_state ps (VolumeEvent INFO_VolumeInfo l r) = ps"
  "note_state ps (Event INFO_DoneOutputting) = ps" "note_state ps (Event INFO_PlaylistDonePlay) = ps"
  "note_state ps (Event CMD_Cleanup) = ps" "note_state ps (MediaInfoEvent i n es) = ps"
  by (simp_all add: note_state_def)

lemma note_state_other: "event_type e \<notin> {INFO_Playing, INFO_Paused, INFO_Stopped} \<Longrightarrow> note_state ps e = ps"
  by (simp add: note_state_def)

text \<open>Plugins: a decoder for the extension that stands in for any other, at least one output.\<close>

definition pl_plugins :: "player \<Rightarrow> bool" where
  "pl_plugins s \<longleftrightarrow> (\<exists>exts. m_lmcExtensions s = Some exts \<and> ''MP3'' \<in> dom exts) \<and> m_pmiRegistry s \<noteq> None \<and>
     m_pmiProtocols s \<noteq> None \<and> (\<exists>pmos. m_pmoRegistry s = Some pmos \<and> pmos \<noteq> []) \<and> length (pref_pmo (pl_prefs s)) < 256"

definition pl_output_ok :: "player \<Rightarrow> bool" where
  "pl_output_ok s \<longleftrightarrow> (m_pmo s = None \<longleftrightarrow> m_playerState s = PlayerState_Stopped) \<and>
     (\<forall>out. m_pmo s = Some out \<longrightarrow> m_lmc s = out_lmc out)"

definition pl_ok :: "player \<Rightarrow> bool" where
  "pl_ok s \<longleftrightarrow> plm_inv (pl_plm s) \<and> cat_ok (m_musicCatalog s) \<and> pl_plugins s \<and> pl_output_ok s \<and>
     shown_state (pl_shown s) = m_playerState s"

lemma plm_inv_events [simp]: "plm_inv (p\<lparr>plm_events := es\<rparr>) = plm_inv p"
  by (simp add: plm_inv_def plm_lists_ok_def plm_mem_ok_def plm_pending_def cong: if_cong)

lemma cat_ok_events [simp]: "cat_ok (c\<lparr>cat_events := es\<rparr>) = cat_ok c"
  by (simp add: cat_ok_def songs_ok_def songs_def)

lemma plugins_cong:
  "m_lmcExtensions s' = m_lmcExtensions s \<Longrightarrow> m_pmiRegistry s' = m_pmiRegistry s \<Longrightarrow> m_pmiProtocols s' = m_pmiProtocols s \<Longrightarrow>
   m_pmoRegistry s' = m_pmoRegistry s \<Longrightarrow> pl_prefs s' = pl_prefs s \<Longrightarrow> pl_plugins s' = pl_plugins s"
  by (simp add: pl_plugins_def)

lemmas player_defs = pl_AcceptEvent_def pl_SendToUI_def pl_free_def pl_SetState_def pl_enter_def pl_output_call_def
  pl_drop_output_def pl_stop_output_def pl_signal_def

subsection \<open>Choosing plugins\<close>

lemma supported_defined:
  "pl_plugins s \<Longrightarrow> \<exists>b. pl_IsSupportedExtension ext s = Some b" "pl_plugins s \<Longrightarrow> \<exists>b. pl_IsSupportedProtocol ext s = Some b"
  by (auto simp: pl_plugins_def pl_IsSupportedExtension_def pl_IsSupportedProtocol_def split: option.split)

lemma GetExtension_defined:
  assumes "pl_plugins s"
  shows "\<exists>ext. pl_GetExtension url s = Some ext"
proof -
  let ?ext = "map_option (map toupper) (extension_of url)"
  obtain b c where "pl_IsSupportedExtension ?ext s = Some b" "pl_IsSupportedProtocol (GetProtocol url) s = Some c"
    using supported_defined [OF assms] by blast
  then show ?thesis by (simp add: pl_GetExtension_def Let_def)
qed

lemma ChooseLMC_defined: "pl_plugins s \<Longrightarrow> \<exists>l. pl_ChooseLMC url s = Some l"
  using GetExtension_defined [of s url] by (auto simp: pl_ChooseLMC_def pl_plugins_def split: option.split)

lemma ChooseLMC_default: "pl_plugins s \<Longrightarrow> \<exists>l. pl_ChooseLMC ''blah.mp3'' s = Some (Some l)"
proof -
  assume "pl_plugins s"
  then obtain exts where exts: "m_lmcExtensions s = Some exts" "''MP3'' \<in> dom exts" by (auto simp: pl_plugins_def)
  have "map_option (map toupper) (extension_of ''blah.mp3'') = Some ''MP3''" by code_simp
  then have "pl_GetExtension ''blah.mp3'' s = Some (Some ''MP3'')"
    using exts by (auto simp: pl_GetExtension_def pl_IsSupportedExtension_def)
  then show ?thesis using exts by (auto simp: pl_ChooseLMC_def)
qed

lemma ChoosePMI_defined: "pl_plugins s \<Longrightarrow> \<exists>i. pl_ChoosePMI url s = Some i"
  by (auto simp: pl_ChoosePMI_def pl_plugins_def Let_def)

lemma cd_output_defined: "pl_plugins s \<Longrightarrow> \<exists>b. pl_cd_output url s = Some b"
  using GetExtension_defined [of s url] by (auto simp: pl_cd_output_def pl_plugins_def)

lemma default_output_defined: "pl_plugins s \<Longrightarrow> \<exists>name. pl_default_output s = Some name"
  by (auto simp: pl_default_output_def pl_plugins_def vec_at_def)

text \<open>An item that can be played, or about which the player can at least complain.\<close>

definition pl_has_input :: "player \<Rightarrow> ptr \<Rightarrow> bool" where
  "pl_has_input s p \<longleftrightarrow> (case plm_heap (pl_plm s) p of None \<Rightarrow> False
     | Some it \<Rightarrow> (\<exists>i. pl_ChoosePMI (c_str (it_url it)) s = Some (Some i)) \<or> length (pmi_error (c_str (it_url it))) < 1024)"

lemma has_input_cong: "pl_plm s' = pl_plm s \<Longrightarrow> m_pmiRegistry s' = m_pmiRegistry s \<Longrightarrow> pl_has_input s' p = pl_has_input s p"
  by (simp only: pl_has_input_def pl_ChoosePMI_def)

text \<open>What \<open>CreatePMO\<close> may change, and what it makes.\<close>

lemma CreatePMO_found:
  assumes plugins: "pl_plugins s" and none: "m_pmo s = None" and p: "p \<noteq> NULL" "plm_heap (pl_plm s) p = Some it"
    and inp: "pl_ChoosePMI (c_str (it_url it)) s = Some (Some i)" and cur: "plm_GetCurrentItem (pl_plm s) = Some c"
  defines "url \<equiv> c_str (it_url it)"
  shows "\<exists>out. out_url out = url \<and> pl_CreatePMO env p s =
    (let s1 = s\<lparr>m_lmc := out_lmc out, pl_opened := pl_opened s @ [url]\<rparr>; err = pe_SetTo env (length (pl_opened s)) url
     in if err = kError_FileNotFound then Some (s1\<lparr>pl_queue := pl_queue s @ [MissingFileEvent c, Event CMD_Play]\<rparr>)
        else if IsError err then Some s1 else Some (s1\<lparr>m_pmo := Some out\<rparr>))"
proof -
  have stop: "pl_stop_output s = s" using none by (simp add: pl_stop_output_def)
  obtain l0 where l0: "pl_ChooseLMC url s = Some l0" using ChooseLMC_defined [OF plugins] by blast
  obtain d where d: "pl_ChooseLMC ''blah.mp3'' s = Some (Some d)" using ChooseLMC_default [OF plugins] by blast
  obtain cd where cd: "pl_cd_output url s = Some cd" using cd_output_defined [OF plugins] by blast
  obtain name where name: "pl_default_output s = Some name" using default_output_defined [OF plugins] by blast
  obtain l where l: "(case l0 of None \<Rightarrow> pl_ChooseLMC ''blah.mp3'' s | Some l \<Rightarrow> Some (Some l)) = Some (Some l)"
    using d by (cases l0) simp_all
  define out where "out = (if cd then \<lparr>out_name = ''cd.pmo'', out_url = url, out_lmc = None, out_calls = []\<rparr>
    else \<lparr>out_name = name, out_url = url, out_lmc = Some (length (pl_opened s)),
      out_calls = [LmcSetEQData (m_eqValues s) (m_eqPreamp s), LmcSetEQEnable (m_eqEnabled s)]\<rparr>)"
  have "pl_CreatePMO env p s = (let s1 = s\<lparr>m_lmc := out_lmc out, pl_opened := pl_opened s @ [url]\<rparr>; err = pe_SetTo env (length (pl_opened s)) url
     in if err = kError_FileNotFound then Some (pl_AcceptEvent (Event CMD_Play) (pl_AcceptEvent (MissingFileEvent c) s1))
        else if IsError err then Some s1 else Some (s1\<lparr>m_pmo := Some out\<rparr>))"
    using p stop inp l0 l cd name cur by (auto simp: pl_CreatePMO_def out_def Let_def url_def)
  then have "pl_CreatePMO env p s = (let s1 = s\<lparr>m_lmc := out_lmc out, pl_opened := pl_opened s @ [url]\<rparr>; err = pe_SetTo env (length (pl_opened s)) url
     in if err = kError_FileNotFound then Some (s1\<lparr>pl_queue := pl_queue s @ [MissingFileEvent c, Event CMD_Play]\<rparr>)
        else if IsError err then Some s1 else Some (s1\<lparr>m_pmo := Some out\<rparr>))"
    by (simp add: pl_AcceptEvent_def Let_def)
  moreover have "out_url out = url" by (simp add: out_def)
  ultimately show ?thesis by blast
qed

lemma CreatePMO_ok:
  assumes plugins: "pl_plugins s" and none: "m_pmo s = None" and p: "p \<noteq> NULL" "pl_has_input s p"
    and cur: "plm_GetCurrentItem (pl_plm s) \<noteq> None"
  shows "\<exists>q l ops out. pl_CreatePMO env p s = Some (s\<lparr>pl_queue := q, m_lmc := l, pl_opened := ops, m_pmo := out\<rparr>) \<and>
    (\<forall>a. out = Some a \<longrightarrow> l = out_lmc a)"
proof -
  obtain it where it: "plm_heap (pl_plm s) p = Some it" using p(2) by (auto simp: pl_has_input_def split: option.splits)
  let ?url = "c_str (it_url it)"
  obtain i where i: "pl_ChoosePMI ?url s = Some i" using ChoosePMI_defined [OF plugins] by blast
  show ?thesis
  proof (cases i)
    case None
    have "pl_stop_output s = s" using none by (simp add: pl_stop_output_def)
    then have "pl_CreatePMO env p s = Some (pl_AcceptEvent (ErrorMessageEvent (pmi_error ?url)) s)"
      using p it i None by (simp add: pl_CreatePMO_def pl_has_input_def)
    also have "\<dots> = Some (s\<lparr>pl_queue := pl_queue s @ [ErrorMessageEvent (pmi_error ?url)], m_lmc := m_lmc s,
        pl_opened := pl_opened s, m_pmo := None\<rparr>)" using none by (simp add: pl_AcceptEvent_def)
    finally show ?thesis by blast
  next
    case (Some inp)
    obtain c where c: "plm_GetCurrentItem (pl_plm s) = Some c" using cur by blast
    from CreatePMO_found [OF plugins none p(1) it i [unfolded Some] c, of env] obtain out where
      run: "pl_CreatePMO env p s =
       (let s1 = s\<lparr>m_lmc := out_lmc out, pl_opened := pl_opened s @ [?url]\<rparr>; err = pe_SetTo env (length (pl_opened s)) ?url
        in if err = kError_FileNotFound then Some (s1\<lparr>pl_queue := pl_queue s @ [MissingFileEvent c, Event CMD_Play]\<rparr>)
           else if IsError err then Some s1 else Some (s1\<lparr>m_pmo := Some out\<rparr>))" by blast
    define mk where "mk = (\<lambda>q a. s\<lparr>pl_queue := q, m_lmc := out_lmc out, pl_opened := pl_opened s @ [?url], m_pmo := a\<rparr>)"
    have "\<exists>q a. pl_CreatePMO env p s = Some (mk q a) \<and> (a = None \<or> a = Some out)"
    proof -
      let ?s1 = "s\<lparr>m_lmc := out_lmc out, pl_opened := pl_opened s @ [?url]\<rparr>"
      have "?s1\<lparr>pl_queue := pl_queue s @ [MissingFileEvent c, Event CMD_Play]\<rparr> = mk (pl_queue s @ [MissingFileEvent c, Event CMD_Play]) None"
        "?s1 = mk (pl_queue s) None" "?s1\<lparr>m_pmo := Some out\<rparr> = mk (pl_queue s) (Some out)"
        using none by (simp_all add: mk_def)
      then show ?thesis unfolding run Let_def
        by (cases "pe_SetTo env (length (pl_opened s)) ?url = kError_FileNotFound";
            cases "IsError (pe_SetTo env (length (pl_opened s)) ?url)") auto
    qed
    then show ?thesis unfolding mk_def by blast
  qed
qed

subsection \<open>The handlers keep the invariant\<close>

text \<open>What a handler leaves: the invariant, its event deleted once, and the data of quitting untouched.\<close>

definition quit_data :: "player \<Rightarrow> bool \<times> int \<times> nat option \<times> nat" where
  "quit_data s = (m_imQuitting s, m_quitWaitingFor s, pl_termSem s, pl_uiCount s)"

definition handled :: "player_event option \<Rightarrow> player \<Rightarrow> player \<Rightarrow> bool" where
  "handled e s s' \<longleftrightarrow> pl_ok s' \<and> pl_freed s' = pl_freed s @ (case e of None \<Rightarrow> [] | Some e \<Rightarrow> [e]) \<and> quit_data s' = quit_data s"

lemma pl_okD:
  assumes "pl_ok s"
  shows "plm_inv (pl_plm s)" "plm_lists_ok (pl_plm s)" "plm_mem_ok (pl_plm s)" "cat_ok (m_musicCatalog s)" "pl_plugins s"
    "m_pmo s = None \<longleftrightarrow> m_playerState s = PlayerState_Stopped" "\<And>out. m_pmo s = Some out \<Longrightarrow> m_lmc s = out_lmc out"
    "shown_state (pl_shown s) = m_playerState s"
  using assms by (auto simp: pl_ok_def pl_output_ok_def plm_inv_def)

lemma plugins_update [simp]:
  "pl_plugins (s\<lparr>pl_queue := a\<rparr>) = pl_plugins s" "pl_plugins (s\<lparr>m_playerState := b\<rparr>) = pl_plugins s"
  "pl_plugins (s\<lparr>m_pmo := c\<rparr>) = pl_plugins s" "pl_plugins (s\<lparr>m_lmc := d\<rparr>) = pl_plugins s"
  "pl_plugins (s\<lparr>pl_shown := e\<rparr>) = pl_plugins s" "pl_plugins (s\<lparr>pl_toggled := e\<rparr>) = pl_plugins s"
  "pl_plugins (s\<lparr>m_imQuitting := f\<rparr>) = pl_plugins s" "pl_plugins (s\<lparr>m_quitWaitingFor := g\<rparr>) = pl_plugins s"
  "pl_plugins (s\<lparr>pl_termSem := h\<rparr>) = pl_plugins s" "pl_plugins (s\<lparr>pl_uiHeld := i\<rparr>) = pl_plugins s"
  "pl_plugins (s\<lparr>pl_freed := j\<rparr>) = pl_plugins s" "pl_plugins (s\<lparr>pl_plm := k\<rparr>) = pl_plugins s"
  "pl_plugins (s\<lparr>m_musicCatalog := l\<rparr>) = pl_plugins s" "pl_plugins (s\<lparr>pl_apsLog := m\<rparr>) = pl_plugins s"
  "pl_plugins (s\<lparr>pl_proxy := n\<rparr>) = pl_plugins s" "pl_plugins (s\<lparr>m_cdTimerActive := o'\<rparr>) = pl_plugins s"
  "pl_plugins (s\<lparr>m_eqValues := p\<rparr>) = pl_plugins s" "pl_plugins (s\<lparr>m_eqPreamp := q\<rparr>) = pl_plugins s"
  "pl_plugins (s\<lparr>m_eqEnabled := r\<rparr>) = pl_plugins s" "pl_plugins (s\<lparr>pl_opened := t\<rparr>) = pl_plugins s"
  by (simp_all add: pl_plugins_def)

lemma quit_data_update [simp]:
  "quit_data (s\<lparr>pl_queue := a\<rparr>) = quit_data s" "quit_data (s\<lparr>m_playerState := b\<rparr>) = quit_data s"
  "quit_data (s\<lparr>m_pmo := c\<rparr>) = quit_data s" "quit_data (s\<lparr>m_lmc := d\<rparr>) = quit_data s"
  "quit_data (s\<lparr>pl_shown := e\<rparr>) = quit_data s" "quit_data (s\<lparr>pl_toggled := e\<rparr>) = quit_data s"
  "quit_data (s\<lparr>pl_uiHeld := i\<rparr>) = quit_data s"
  "quit_data (s\<lparr>pl_freed := j\<rparr>) = quit_data s" "quit_data (s\<lparr>pl_plm := k\<rparr>) = quit_data s"
  "quit_data (s\<lparr>m_musicCatalog := l\<rparr>) = quit_data s" "quit_data (s\<lparr>pl_apsLog := m\<rparr>) = quit_data s"
  "quit_data (s\<lparr>pl_proxy := n\<rparr>) = quit_data s" "quit_data (s\<lparr>m_cdTimerActive := o'\<rparr>) = quit_data s"
  "quit_data (s\<lparr>m_eqValues := p\<rparr>) = quit_data s" "quit_data (s\<lparr>m_eqPreamp := q\<rparr>) = quit_data s"
  "quit_data (s\<lparr>m_eqEnabled := r\<rparr>) = quit_data s" "quit_data (s\<lparr>pl_opened := t\<rparr>) = quit_data s"
  by (simp_all add: quit_data_def)

lemma Stop_handled: "pl_ok s \<Longrightarrow> handled e s (pl_Stop e s)"
  by (auto simp: handled_def pl_ok_def pl_output_ok_def pl_Stop_def player_defs Let_def split: option.split)

lemma Pause_handled: "pl_ok s \<Longrightarrow> handled e s (pl_Pause e s)"
  by (auto simp: handled_def pl_ok_def pl_output_ok_def pl_Pause_def player_defs Let_def split: option.split)

lemma UnPause_handled: "pl_ok s \<Longrightarrow> handled e s (pl_UnPause e s)"
  by (auto simp: handled_def pl_ok_def pl_output_ok_def pl_UnPause_def player_defs Let_def split: option.split)

lemma handled_free: "handled None s s' \<Longrightarrow> handled (Some e) s (pl_free (Some e) s')"
  by (simp add: handled_def pl_ok_def pl_output_ok_def pl_free_def)

lemma TogglePause_handled: "pl_ok s \<Longrightarrow> handled (Some e) s (pl_TogglePause e s)"
proof -
  assume ok: "pl_ok s"
  have "handled None s s" using ok by (simp add: handled_def)
  then show ?thesis unfolding pl_TogglePause_def
    by (intro handled_free) (simp add: ok Pause_handled UnPause_handled split: player_state.split)
qed

lemma GetVolume_handled: "pl_ok s \<Longrightarrow> handled (Some e) s (pl_GetVolume env e s)"
  by (auto simp: handled_def pl_ok_def pl_output_ok_def pl_GetVolume_def player_defs Let_def split: option.split prod.split)

lemma output_call_handled: "pl_ok s \<Longrightarrow> handled (Some e) s (pl_free (Some e) (pl_output_call c s))"
  by (auto simp: handled_def pl_ok_def pl_output_ok_def player_defs)

lemma free_handled: "pl_ok s \<Longrightarrow> handled (Some e) s (pl_free (Some e) s)"
  by (auto simp: handled_def pl_ok_def pl_output_ok_def player_defs)

lemma show_handled:
  "pl_ok s \<Longrightarrow> event_type e \<notin> {INFO_Playing, INFO_Paused, INFO_Stopped} \<Longrightarrow> handled (Some e) s (pl_free (Some e) (pl_SendToUI e s))"
  by (auto simp: handled_def pl_ok_def pl_output_ok_def player_defs note_state_other)

lemma show_playing_handled:
  "pl_ok s \<Longrightarrow> event_type e \<notin> {INFO_Playing, INFO_Paused, INFO_Stopped} \<Longrightarrow> handled (Some e) s (pl_show_playing e s)"
  using show_handled [of s e] free_handled [of s e] by (simp add: pl_show_playing_def)

lemma QueryState_handled: "pl_ok s \<Longrightarrow> handled None s (pl_HandleQueryState s)"
  by (auto simp: handled_def pl_ok_def pl_output_ok_def pl_HandleQueryState_def player_defs split: player_state.split)

lemma ToggleUI_handled: "pl_ok s \<Longrightarrow> handled (Some e) s (pl_ToggleUI e s)"
  by (auto simp: handled_def pl_ok_def pl_output_ok_def pl_ToggleUI_def player_defs)

lemma PrefsChanged_handled:
  "pl_ok s \<Longrightarrow> event_type e = INFO_PrefsChanged \<Longrightarrow> handled (Some e) s (pl_HandlePrefsChanged e s)"
  by (auto simp: handled_def pl_ok_def pl_output_ok_def pl_HandlePrefsChanged_def player_defs note_state_other)

lemma SetEQData_handled:
  assumes ok: "pl_ok s" and e: "(\<exists>v p. e = EQDataEvent v p) \<or> (\<exists>b. e = EQEnableEvent b)"
  shows "\<exists>s'. pl_SetEQData e s = Some s' \<and> handled (Some e) s s'"
proof -
  from e obtain s1 c where s1: "(case e of
         EQDataEvent values preamp \<Rightarrow> Some (s\<lparr>m_eqValues := values, m_eqPreamp := preamp\<rparr>, LmcSetEQData values preamp)
       | EQEnableEvent on \<Rightarrow> Some (s\<lparr>m_eqEnabled := on\<rparr>, LmcSetEQEnable on)
       | _ \<Rightarrow> None) = Some (s1, c)" "pl_ok s1" "pl_freed s1 = pl_freed s" "quit_data s1 = quit_data s"
    using ok by (auto simp: pl_ok_def pl_output_ok_def)
  have "\<exists>s2. (case m_pmo s1 of
         Some out \<Rightarrow> (if m_lmc s1 = None then Some s1 else if m_lmc s1 = out_lmc out then Some (pl_output_call c s1) else None)
       | None \<Rightarrow> Some s1) = Some s2 \<and> (s2 = s1 \<or> s2 = pl_output_call c s1)"
    using pl_okD(7) [OF s1(2)] by (auto split: option.split)
  then obtain s2 where s2: "pl_SetEQData e s = Some (pl_free (Some e) s2)" "s2 = s1 \<or> s2 = pl_output_call c s1"
    using s1(1) by (auto simp: pl_SetEQData_def)
  then show ?thesis
    using free_handled [OF s1(2), of e] output_call_handled [OF s1(2), of e c] s1(3,4) by (auto simp: handled_def)
qed

lemma fold_SendToUI: "fold pl_SendToUI es s = s\<lparr>pl_shown := pl_shown s @ es\<rparr>"
  by (induction es arbitrary: s) (simp_all add: pl_SendToUI_def)

lemma shown_state_append_other:
  "\<forall>e \<in> set es. event_type e \<notin> {INFO_Playing, INFO_Paused, INFO_Stopped} \<Longrightarrow> foldl note_state ps es = ps"
  by (induction es) (simp_all add: note_state_other)

lemma GetCurrentIndex_defined:
  assumes "plm_lists_ok p"
  shows "\<exists>i. plm_GetCurrentIndex p = Some i"
proof (cases "m_masterList p = []")
  case False
  then have c: "m_current p < length (m_shuffleList p)"
    using plm_lists_okD(12) [OF assms] plm_shuffle_list(2) [OF assms] by simp
  then have "m_shuffleList p ! m_current p \<in> set (m_masterList p)" using plm_shuffle_list(1) [OF assms] nth_mem by blast
  then have "m_shuffleList p ! m_current p \<noteq> NULL" using plm_lists_okD(4) [OF assms] by metis
  then show ?thesis using False c by (simp add: plm_GetCurrentIndex_def)
qed (simp add: plm_GetCurrentIndex_def)

lemma MediaInfo_handled:
  assumes ok: "pl_ok s" and es: "\<forall>e \<in> set es. event_type e \<notin> {INFO_Playing, INFO_Paused, INFO_Stopped}"
  shows "\<exists>s'. pl_HandleMediaInfo (MediaInfoEvent i n es) s = Some s' \<and> handled (Some (MediaInfoEvent i n es)) s s'"
proof -
  obtain j where "plm_GetCurrentIndex (pl_plm s) = Some j" using GetCurrentIndex_defined [OF pl_okD(2) [OF ok]] by blast
  moreover have "foldl note_state ps es = ps" for ps by (rule shown_state_append_other) (rule es)
  ultimately show ?thesis
    using ok by (simp add: pl_HandleMediaInfo_def handled_def fold_SendToUI player_defs Let_def pl_ok_def pl_output_ok_def)
qed

subsection \<open>Handlers that call the playlist manager\<close>

text \<open>The conditions of the calls: values for a shuffle, the master list when the position is reset, and the record of a counted song.\<close>

definition can_shuffle :: "plm \<Rightarrow> bool" where
  "can_shuffle p \<longleftrightarrow> (m_shuffle p \<longrightarrow> plm_ShuffleIt p \<noteq> None)"

definition can_rewind :: "plm \<Rightarrow> bool" where
  "can_rewind p \<longleftrightarrow> m_activeList p = MasterList \<and> (m_masterList p = [] \<longrightarrow> \<not> m_shuffle p)"

definition can_count :: "player \<Rightarrow> bool" where
  "can_count s \<longleftrightarrow> (\<forall>p it. plm_GetCurrentItem (pl_plm s) = Some p \<and> plm_heap (pl_plm s) p = Some it \<and> length (m_guid (it_metadata it)) = 16
     \<longrightarrow> cat_permits (m_musicCatalog s) (CallUpdateSong (it\<lparr>it_metadata := AddPlayCount (it_metadata it)\<rparr>)))"

lemma plm_current_item:
  assumes "plm_inv p"
  shows "plm_GetCurrentItem p = Some NULL \<or> (\<exists>q it. plm_GetCurrentItem p = Some q \<and> q \<noteq> NULL \<and> plm_heap p q = Some it)"
proof -
  have inv: "plm_lists_ok p" "plm_mem_ok p" using assms by (simp_all add: plm_inv_def)
  show ?thesis using plm_GetCurrentItem_ok [OF inv(1)] plm_mem_okD(3) [OF inv(2)] by (cases "m_masterList p = []") auto
qed

lemma plm_inv_metadata:
  assumes "plm_inv p" and "plm_heap p q = Some it"
  shows "plm_inv (p\<lparr>plm_heap := (plm_heap p)(q \<mapsto> it\<lparr>it_metadata := md\<rparr>)\<rparr>)"
proof -
  have mem: "plm_mem_ok p" using assms(1) by (simp add: plm_inv_def)
  have "q \<in> set (m_masterList p) \<union> set (m_externalList p) \<Longrightarrow> it_state it \<noteq> kPlaylistItemState_Delete"
    and "q \<in> set (plm_pending p) \<Longrightarrow> it_state it \<noteq> kPlaylistItemState_Normal"
    using plm_mem_okD(3,4,6) [OF mem, of q] assms(2) by auto
  moreover have "plm_pending (p\<lparr>plm_heap := h\<rparr>) = plm_pending p" for h by (simp add: plm_pending_def)
  ultimately have "plm_mem_ok (p\<lparr>plm_heap := (plm_heap p)(q \<mapsto> it\<lparr>it_metadata := md\<rparr>)\<rparr>)"
    using plm_mem_okD [OF mem] assms(2) unfolding plm_mem_ok_def by (auto simp del: One_nat_def)
  then show ?thesis using assms(1) by (simp add: plm_inv_def plm_lists_ok_def cong: if_cong)
qed

lemma count_play_ok:
  assumes inv: "plm_inv (pl_plm s)" "cat_ok (m_musicCatalog s)" and can: "can_count s" and retr: "\<forall>u. md_storable (pe_retr env u)"
  shows "\<exists>h c q l. pl_count_play env s = Some (s\<lparr>pl_plm := (pl_plm s)\<lparr>plm_heap := h\<rparr>, m_musicCatalog := c, pl_queue := q, pl_apsLog := l\<rparr>) \<and>
    plm_inv ((pl_plm s)\<lparr>plm_heap := h\<rparr>) \<and> cat_ok c"
proof -
  let ?t = "s\<lparr>pl_plm := (pl_plm s)\<lparr>plm_heap := plm_heap (pl_plm s)\<rparr>, m_musicCatalog := m_musicCatalog s, pl_queue := pl_queue s,
      pl_apsLog := pl_apsLog s\<rparr>"
  have inv': "plm_inv ((pl_plm s)\<lparr>plm_heap := plm_heap (pl_plm s)\<rparr>)" using inv(1) by simp
  from plm_current_item [OF inv(1)] show ?thesis
  proof
    assume "plm_GetCurrentItem (pl_plm s) = Some NULL"
    then have "pl_count_play env s = Some s" by (simp add: pl_count_play_def)
    also have "Some s = Some ?t" by simp
    finally show ?thesis using inv' inv(2) by blast
  next
    assume "\<exists>q it. plm_GetCurrentItem (pl_plm s) = Some q \<and> q \<noteq> NULL \<and> plm_heap (pl_plm s) q = Some it"
    then obtain q it where q: "plm_GetCurrentItem (pl_plm s) = Some q" "q \<noteq> NULL" "plm_heap (pl_plm s) q = Some it" by blast
    show ?thesis
    proof (cases "length (m_guid (it_metadata it)) = 16")
      case False
      then have "pl_count_play env s = Some s" using q by (simp add: pl_count_play_def)
      also have "Some s = Some ?t" by simp
      finally show ?thesis using inv' inv(2) by blast
    next
      case True
      let ?it = "it\<lparr>it_metadata := AddPlayCount (it_metadata it)\<rparr>"
      have "cat_permits (m_musicCatalog s) (CallUpdateSong ?it)" using can q True by (simp add: can_count_def)
      from cat_do_ok [OF inv(2) this retr] obtain err c where c: "cat_UpdateSong (pe_retr env) ?it (m_musicCatalog s) = Some (err, c)" "cat_ok c"
        by (auto simp: call_ok_def)
      have "plm_inv ((pl_plm s)\<lparr>plm_heap := (plm_heap (pl_plm s))(q \<mapsto> ?it)\<rparr>)" by (rule plm_inv_metadata [OF inv(1) q(3)])
      moreover have "pl_count_play env s = Some (s\<lparr>pl_plm := (pl_plm s)\<lparr>plm_heap := (plm_heap (pl_plm s))(q \<mapsto> ?it)\<rparr>,
          m_musicCatalog := c\<lparr>cat_events := []\<rparr>, pl_queue := pl_queue s @ map CatalogEvent (cat_events c),
          pl_apsLog := pl_apsLog s @ [(m_guid (it_metadata ?it), False)]\<rparr>)"
        using q True c by (simp add: pl_count_play_def pl_catalog_call_def Let_def)
      ultimately show ?thesis using c(2) cat_ok_events by blast
    qed
  qed
qed

lemma rewind_ok:
  assumes inv: "plm_inv (pl_plm s)" and can: "can_rewind (pl_plm s)"
  shows "\<exists>p q. pl_rewind s = Some (s\<lparr>pl_plm := p, pl_queue := q, pl_shown := pl_shown s @ [Event INFO_PlaylistDonePlay]\<rparr>) \<and> plm_inv p"
proof -
  let ?p = "pl_plm s"
  have ok: "plm_lists_ok ?p" using inv by (simp add: plm_inv_def)
  have "\<exists>p. plm_SetCurrentIndex 0 ?p = Some (kError_NoErr, p) \<and> plm_inv p"
  proof (cases "m_masterList ?p = []")
    case True
    then have "plm_SetCurrentIndex 0 ?p = Some (kError_NoErr, ?p\<lparr>m_current := kInvalidIndex\<rparr>)"
      using can by (simp add: plm_SetCurrentIndex_def plm_CheckIndex_def plm_CountItems_def plm_active_def can_rewind_def)
    moreover have "m_current ?p = kInvalidIndex" using True plm_lists_okD(11,12) [OF ok] ok by (simp add: plm_lists_ok_def)
    then have "?p\<lparr>m_current := kInvalidIndex\<rparr> = ?p" by simp
    ultimately show ?thesis using inv by simp
  qed (use inv can plm_SetCurrentIndex_inv in \<open>auto simp: can_rewind_def\<close>)
  then obtain p where p: "plm_SetCurrentIndex 0 ?p = Some (kError_NoErr, p)" "plm_inv (p\<lparr>plm_events := []\<rparr>)" by auto
  then have "pl_rewind s = Some (s\<lparr>pl_plm := p\<lparr>plm_events := []\<rparr>, pl_queue := pl_queue s @ map PlmEvent (plm_events p),
      pl_shown := pl_shown s @ [Event INFO_PlaylistDonePlay]\<rparr>)" by (simp add: pl_rewind_def pl_plm_call_def pl_SendToUI_def)
  then show ?thesis using p(2) by blast
qed

lemma goto_ok:
  assumes inv: "plm_inv (pl_plm s)" and can: "can_shuffle (pl_plm s)"
  shows "\<exists>p q. pl_plm_call (plm_GotoNextItem b) s = Some (s\<lparr>pl_plm := p, pl_queue := q\<rparr>) \<and> plm_inv p"
    and "\<exists>p q. pl_plm_call (plm_GotoPreviousItem b) s = Some (s\<lparr>pl_plm := p, pl_queue := q\<rparr>) \<and> plm_inv p"
proof -
  have "plm_can undefined (pl_plm s) (OpGotoNext b)" "plm_can undefined (pl_plm s) (OpGotoPrevious b)"
    using can by (simp_all add: can_shuffle_def)
  then obtain e p e' p' where "plm_GotoNextItem b (pl_plm s) = Some (e, p)" "plm_inv p"
    "plm_GotoPreviousItem b (pl_plm s) = Some (e', p')" "plm_inv p'"
    using plm_exec_ok [OF inv, of undefined "OpGotoNext b"] plm_exec_ok [OF inv, of undefined "OpGotoPrevious b"] by auto
  moreover have "\<exists>p q. pl_plm_call f s = Some (s\<lparr>pl_plm := p, pl_queue := q\<rparr>) \<and> plm_inv p" if "f (pl_plm s) = Some (e, p)" "plm_inv p" for f e p
  proof -
    have "pl_plm_call f s = Some (s\<lparr>pl_plm := p\<lparr>plm_events := []\<rparr>, pl_queue := pl_queue s @ map PlmEvent (plm_events p)\<rparr>)"
      using that(1) by (simp add: pl_plm_call_def)
    moreover have "plm_inv (p\<lparr>plm_events := []\<rparr>)" using that(2) by simp
    ultimately show ?thesis by blast
  qed
  ultimately show "\<exists>p q. pl_plm_call (plm_GotoNextItem b) s = Some (s\<lparr>pl_plm := p, pl_queue := q\<rparr>) \<and> plm_inv p"
    and "\<exists>p q. pl_plm_call (plm_GotoPreviousItem b) s = Some (s\<lparr>pl_plm := p, pl_queue := q\<rparr>) \<and> plm_inv p"
    by blast+
qed

lemma DoneOutputting_handled:
  assumes ok: "pl_ok s" and can: "can_count s" "can_rewind (pl_plm s)" "can_shuffle (pl_plm s)"
    and retr: "\<forall>u. md_storable (pe_retr env u)"
  shows "\<exists>s'. pl_DoneOutputting env e s = Some s' \<and> handled (Some e) s s'"
proof -
  let ?s0 = "pl_stop_output s"
  have s0: "pl_plm ?s0 = pl_plm s" "m_musicCatalog ?s0 = m_musicCatalog s" "m_pmo ?s0 = None" "pl_plugins ?s0" "pl_freed ?s0 = pl_freed s"
    "quit_data ?s0 = quit_data s" "pl_shown ?s0 = pl_shown s" "m_playerState ?s0 = m_playerState s"
    using pl_okD(5) [OF ok] by (auto simp: player_defs)
  have "can_count ?s0" using can(1) s0(1,2) by (simp add: can_count_def)
  from count_play_ok [of ?s0 env] this pl_okD(1,4) [OF ok] s0(1,2) retr obtain h c q l where
    cp: "pl_count_play env ?s0 = Some (?s0\<lparr>pl_plm := (pl_plm s)\<lparr>plm_heap := h\<rparr>, m_musicCatalog := c, pl_queue := q, pl_apsLog := l\<rparr>)"
      "plm_inv ((pl_plm s)\<lparr>plm_heap := h\<rparr>)" "cat_ok c" by auto
  define s1 where "s1 = ?s0\<lparr>pl_plm := (pl_plm s)\<lparr>plm_heap := h\<rparr>, m_musicCatalog := c, pl_queue := q, pl_apsLog := l\<rparr>"
  define s2 where "s2 = pl_SendToUI (Event INFO_DoneOutputting) (pl_enter PlayerState_Stopped INFO_Stopped s1)"
  have s2: "pl_plm s2 = (pl_plm s)\<lparr>plm_heap := h\<rparr>" "m_musicCatalog s2 = c" "m_pmo s2 = None" "pl_plugins s2" "pl_freed s2 = pl_freed s"
    "quit_data s2 = quit_data s" "m_playerState s2 = PlayerState_Stopped" "shown_state (pl_shown s2) = PlayerState_Stopped"
    using s0 pl_okD(8) [OF ok] by (auto simp: s2_def s1_def pl_SendToUI_def pl_enter_def pl_SetState_def Let_def)
  have can2: "can_rewind (pl_plm s2)" "can_shuffle (pl_plm s2)" "plm_inv (pl_plm s2)"
    using can(2,3) cp(2) by (auto simp: s2(1) can_rewind_def can_shuffle_def plm_ShuffleIt_def split: Option.bind_splits)
  from rewind_ok [OF can2(3,1)] obtain p q' where r: "pl_rewind s2 = Some (s2\<lparr>pl_plm := p, pl_queue := q',
      pl_shown := pl_shown s2 @ [Event INFO_PlaylistDonePlay]\<rparr>)" "plm_inv p" by blast
  from goto_ok(1) [OF can2(3,2), of False] obtain p' q'' where g: "pl_plm_call (plm_GotoNextItem False) s2 = Some (s2\<lparr>pl_plm := p', pl_queue := q''\<rparr>)"
    "plm_inv p'" by blast
  have fin: "handled (Some e) s (pl_free (Some e) t)" if "plm_inv (pl_plm t)" "m_musicCatalog t = c" "m_pmo t = None" "pl_plugins t"
    "pl_freed t = pl_freed s" "quit_data t = quit_data s" "m_playerState t = PlayerState_Stopped" "shown_state (pl_shown t) = PlayerState_Stopped" for t
    using that cp(3) by (simp add: handled_def pl_ok_def pl_output_ok_def pl_free_def)
  define again where "again = (event_type e = INFO_DoneOutputtingDueToError \<and> (m_repeatMode (pl_plm s2) = kPlaylistMode_RepeatOne \<or>
      m_repeatMode (pl_plm s2) = kPlaylistMode_RepeatAll \<and> plm_CountItems (pl_plm s2) = 1))"
  have "pl_DoneOutputting env e s = map_option (pl_free (Some e)) (if again then pl_rewind s2
      else if plm_HasAnotherItem (pe_size_t env) (pl_plm s2) then do {
        t \<leftarrow> pl_plm_call (plm_GotoNextItem False) s2;
        Some (pl_AcceptEvent (Event (if m_playerState t = PlayerState_Paused then CMD_PlayPaused else CMD_Play)) t) }
      else pl_rewind s2)"
    unfolding pl_DoneOutputting_def cp(1) bind.bind_lunit s1_def [symmetric] Let_def s2_def [symmetric] again_def [symmetric]
    by (cases again; cases "plm_HasAnotherItem (pe_size_t env) (pl_plm s2)") (simp_all add: r(1) g(1))
  then consider "pl_DoneOutputting env e s = Some (pl_free (Some e) (s2\<lparr>pl_plm := p, pl_queue := q', pl_shown := pl_shown s2 @ [Event INFO_PlaylistDonePlay]\<rparr>))"
    | "pl_DoneOutputting env e s = Some (pl_free (Some e) (s2\<lparr>pl_plm := p', pl_queue := q'' @ [Event CMD_Play]\<rparr>))"
    using r(1) g(1) s2(7) by (cases again; cases "plm_HasAnotherItem (pe_size_t env) (pl_plm s2)") (auto simp: pl_AcceptEvent_def)
  then show ?thesis
  proof cases
    case 1
    show ?thesis unfolding 1
      using fin [of "s2\<lparr>pl_plm := p, pl_queue := q', pl_shown := pl_shown s2 @ [Event INFO_PlaylistDonePlay]\<rparr>"] s2 r(2) by simp
  next
    case 2
    show ?thesis unfolding 2 using fin [of "s2\<lparr>pl_plm := p', pl_queue := q'' @ [Event CMD_Play]\<rparr>"] s2 g(2) by simp
  qed
qed

lemma Play_handled:
  assumes ok: "pl_ok s" and can: "\<forall>p. plm_GetCurrentItem (pl_plm s) = Some p \<longrightarrow> p \<noteq> NULL \<longrightarrow> pl_has_input s p"
  shows "\<exists>s'. pl_Play env e s = Some s' \<and> handled (Some e) s s'"
proof (cases "m_playerState s = PlayerState_Playing \<and> event_type e = state_number PlayerState_Playing")
  case True
  then show ?thesis using free_handled [OF ok] by (simp add: pl_Play_def)
next
  case False
  define s1 where "s1 = (if m_playerState s = PlayerState_Playing
                 then pl_enter PlayerState_Stopped INFO_Stopped (pl_drop_output s) else s)"
  have s1: "pl_ok s1" "pl_plm s1 = pl_plm s" "pl_freed s1 = pl_freed s" "quit_data s1 = quit_data s" "m_lmcExtensions s1 = m_lmcExtensions s"
    "m_pmiRegistry s1 = m_pmiRegistry s"
    using ok by (auto simp: s1_def player_defs pl_ok_def pl_output_ok_def Let_def)
  obtain p where p: "plm_GetCurrentItem (pl_plm s) = Some p" using plm_current_item [OF pl_okD(1) [OF ok]] by auto
  have "\<exists>q l ops out. (if m_pmo s1 = None then do {
                 p \<leftarrow> plm_GetCurrentItem (pl_plm s1);
                 if p = NULL then Some s1 else pl_CreatePMO env p s1
               } else Some s1) = Some (s1\<lparr>pl_queue := q, m_lmc := l, pl_opened := ops, m_pmo := out\<rparr>) \<and>
      (\<forall>a. out = Some a \<longrightarrow> l = out_lmc a) \<and> (m_pmo s1 \<noteq> None \<longrightarrow> out \<noteq> None)"
  proof (cases "m_pmo s1 = None \<and> p \<noteq> NULL")
    case True
    then have "pl_has_input s1 p" using can p has_input_cong [OF s1(2,6)] by simp
    from CreatePMO_ok [OF pl_okD(5) [OF s1(1)] _ _ this, of env] True p s1(2) show ?thesis by auto
  next
    case False
    then have "(if m_pmo s1 = None then do {
                 p \<leftarrow> plm_GetCurrentItem (pl_plm s1);
                 if p = NULL then Some s1 else pl_CreatePMO env p s1
               } else Some s1) = Some s1" using p s1(2) by auto
    also have "Some s1 = Some (s1\<lparr>pl_queue := pl_queue s1, m_lmc := m_lmc s1, pl_opened := pl_opened s1, m_pmo := m_pmo s1\<rparr>)" by simp
    finally show ?thesis using pl_okD(7) [OF s1(1)] by blast
  qed
  then obtain q l ops out where
    c: "(if m_pmo s1 = None then do {
                 p \<leftarrow> plm_GetCurrentItem (pl_plm s1);
                 if p = NULL then Some s1 else pl_CreatePMO env p s1
               } else Some s1) = Some (s1\<lparr>pl_queue := q, m_lmc := l, pl_opened := ops, m_pmo := out\<rparr>)"
      "\<forall>a. out = Some a \<longrightarrow> l = out_lmc a" "m_pmo s1 \<noteq> None \<longrightarrow> out \<noteq> None" by blast
  define s2 where "s2 = s1\<lparr>pl_queue := q, m_lmc := l, pl_opened := ops, m_pmo := out\<rparr>"
  have run: "pl_Play env e s = Some (pl_free (Some e) (if out = None then s2
        else if event_type e = CMD_PlayPaused
        then (let (changed, s) = pl_SetState PlayerState_Paused s2
              in if changed then pl_SendToUI (Event INFO_Paused) (pl_SendToUI (Event INFO_Playing) s) else s)
        else pl_enter PlayerState_Playing INFO_Playing (pl_output_call OutResume s2)))"
    by (simp only: pl_Play_def if_not_P [OF False] Let_def s1_def [symmetric] c(1) s2_def [symmetric] bind.bind_lunit)
      (cases out; simp add: s2_def pl_SetState_def)
  have "m_playerState s1 = PlayerState_Stopped" if "out = None" using that c(3) pl_okD(6) [OF s1(1)] by blast
  then have "handled (Some e) s (pl_free (Some e) (if out = None then s2
        else if event_type e = CMD_PlayPaused
        then (let (changed, s) = pl_SetState PlayerState_Paused s2
              in if changed then pl_SendToUI (Event INFO_Paused) (pl_SendToUI (Event INFO_Playing) s) else s)
        else pl_enter PlayerState_Playing INFO_Playing (pl_output_call OutResume s2)))"
    using s1(1,3,4) c(2) by (cases out) (auto simp: handled_def pl_ok_def pl_output_ok_def s2_def player_defs Let_def)
  then show ?thesis using run by blast
qed

lemma skip_handled:
  assumes ok: "pl_ok s"
    and step: "\<And>t. pl_plm t = pl_plm s \<Longrightarrow> \<exists>p q. pl_plm_call step t = Some (t\<lparr>pl_plm := p, pl_queue := q\<rparr>) \<and> plm_inv p"
  shows "\<exists>s'. pl_skip step e s = Some s' \<and> handled (Some e) s s'"
proof -
  have "\<exists>q l. (if m_playerState s \<noteq> PlayerState_Stopped then do {
            p \<leftarrow> plm_GetCurrentItem (pl_plm s);
            s \<leftarrow> (if p = NULL then Some s else do {
                 it \<leftarrow> plm_heap (pl_plm s) p;
                 Some (s\<lparr>pl_apsLog := pl_apsLog s @ [(m_guid (it_metadata it), True)]\<rparr>)
               });
            Some (pl_AcceptEvent (Event CMD_Stop) s)
          } else Some s) = Some (s\<lparr>pl_queue := q, pl_apsLog := l\<rparr>)" (is "\<exists>q l. ?r = _")
  proof (cases "m_playerState s = PlayerState_Stopped")
    case True
    then have "?r = Some (s\<lparr>pl_queue := pl_queue s, pl_apsLog := pl_apsLog s\<rparr>)" by simp
    then show ?thesis by blast
  next
    case False
    from plm_current_item [OF pl_okD(1) [OF ok]] show ?thesis
    proof
      assume "plm_GetCurrentItem (pl_plm s) = Some NULL"
      then have "?r = Some (s\<lparr>pl_queue := pl_queue s @ [Event CMD_Stop], pl_apsLog := pl_apsLog s\<rparr>)"
        using False by (simp add: pl_AcceptEvent_def)
      then show ?thesis by blast
    next
      assume "\<exists>q it. plm_GetCurrentItem (pl_plm s) = Some q \<and> q \<noteq> NULL \<and> plm_heap (pl_plm s) q = Some it"
      then obtain q it where "plm_GetCurrentItem (pl_plm s) = Some q" "q \<noteq> NULL" "plm_heap (pl_plm s) q = Some it" by blast
      then have "?r = Some (s\<lparr>pl_queue := pl_queue s @ [Event CMD_Stop], pl_apsLog := pl_apsLog s @ [(m_guid (it_metadata it), True)]\<rparr>)"
        using False by (simp add: pl_AcceptEvent_def)
      then show ?thesis by blast
    qed
  qed
  then obtain q l where r: "?r = Some (s\<lparr>pl_queue := q, pl_apsLog := l\<rparr>)" by blast
  obtain p q' where g: "pl_plm_call step (s\<lparr>pl_queue := q, pl_apsLog := l\<rparr>) = Some (s\<lparr>pl_queue := q, pl_apsLog := l, pl_plm := p, pl_queue := q'\<rparr>)"
    "plm_inv p" using step [of "s\<lparr>pl_queue := q, pl_apsLog := l\<rparr>"] by auto
  show ?thesis
    unfolding pl_skip_def r bind.bind_lunit g(1) using ok g(2)
    by (auto simp: handled_def pl_ok_def pl_output_ok_def player_defs Let_def split: player_state.split)
qed

subsection \<open>Every permitted event\<close>

text \<open>What the next event needs: the conditions above, the class of the event, and none of the events of the signature thread.\<close>

definition pl_can :: "player \<Rightarrow> player_event \<Rightarrow> bool" where
  "pl_can s e \<longleftrightarrow> (let t = event_type e
     in (t \<in> {INFO_DoneOutputting, INFO_DoneOutputtingDueToError} \<longrightarrow> can_count s \<and> can_rewind (pl_plm s) \<and> can_shuffle (pl_plm s)) \<and>
        (t \<in> {CMD_Play, CMD_PlayPaused} \<longrightarrow> (\<forall>p. plm_GetCurrentItem (pl_plm s) = Some p \<longrightarrow> p \<noteq> NULL \<longrightarrow> pl_has_input s p)) \<and>
        (t \<in> {CMD_NextMediaPiece, CMD_PrevMediaPiece} \<longrightarrow> can_shuffle (pl_plm s)) \<and>
        (t = CMD_SetVolume \<longrightarrow> (\<exists>l r. e = VolumeEvent t l r)) \<and>
        (t = CMD_ChangePosition \<longrightarrow> (\<exists>pos. e = ChangePositionEvent pos)) \<and>
        (t = INFO_MediaInfo \<longrightarrow> (\<exists>i n es. e = MediaInfoEvent i n es \<and>
           (\<forall>c \<in> set es. event_type c \<notin> {INFO_Playing, INFO_Paused, INFO_Stopped}))) \<and>
        (t = CMD_SetEQData \<longrightarrow> (\<exists>v p. e = EQDataEvent v p) \<or> (\<exists>b. e = EQEnableEvent b)) \<and>
        t \<notin> {INFO_AudioSignatureGenerated, INFO_AudioSignatureFailed, CMD_GenerateSignature, CMD_KillSigThread})"

definition serviced :: "player_event \<Rightarrow> player \<Rightarrow> int \<Rightarrow> player \<Rightarrow> bool" where
  "serviced e s r s' \<longleftrightarrow> pl_ok s' \<and> pl_freed s' = pl_freed s @ (if event_type e = CMD_QueryPlayerState then [] else [e]) \<and>
     (event_type e \<notin> {CMD_QuitPlayer, INFO_ReadyToDieUI} \<longrightarrow> r = 0 \<and> quit_data s' = quit_data s)"

lemma handled_serviced: "handled (Some e) s s' \<Longrightarrow> event_type e \<noteq> CMD_QueryPlayerState \<Longrightarrow> serviced e s 0 s'"
  by (simp add: handled_def serviced_def)

lemma quit_serviced:
  assumes ok: "pl_ok s"
  shows "event_type e = CMD_QuitPlayer \<Longrightarrow> serviced e s (fst (pl_Quit e s)) (snd (pl_Quit e s))"
    and "event_type e = INFO_ReadyToDieUI \<Longrightarrow> serviced e s (fst (pl_ReadyToDieUI e s)) (snd (pl_ReadyToDieUI e s))"
proof -
  have "pl_ok (pl_Stop None s)" "pl_uiCount (pl_Stop None s) = pl_uiCount s" "pl_freed (pl_Stop None s) = pl_freed s"
    using Stop_handled [OF ok, of None] by (simp_all add: handled_def quit_data_def)
  then show "event_type e = CMD_QuitPlayer \<Longrightarrow> serviced e s (fst (pl_Quit e s)) (snd (pl_Quit e s))"
    by (simp add: serviced_def pl_Quit_def pl_free_def pl_SendToUI_def pl_signal_def Let_def pl_ok_def pl_output_ok_def)
  show "event_type e = INFO_ReadyToDieUI \<Longrightarrow> serviced e s (fst (pl_ReadyToDieUI e s)) (snd (pl_ReadyToDieUI e s))"
    using ok by (simp add: serviced_def pl_ReadyToDieUI_def pl_free_def pl_signal_def Let_def pl_ok_def pl_output_ok_def)
qed

lemma ui_event_types:
  assumes "t = INFO_PlaylistItemsUpdated \<or> t \<in> set ui_events"
  shows "t \<notin> {INFO_DoneOutputtingDueToError, INFO_DoneOutputting, CMD_Stop, CMD_GetVolume, CMD_SetVolume, CMD_ChangePosition, CMD_PlayPaused,
    CMD_Play, CMD_NextMediaPiece, CMD_PrevMediaPiece, CMD_Pause, CMD_UnPause, CMD_TogglePause, CMD_QuitPlayer, CMD_QueryPlayerState,
    INFO_ReadyToDieUI, INFO_MediaInfo, INFO_MediaTimeInfo, INFO_PrefsChanged, INFO_Playing, INFO_Paused, INFO_Stopped}"
proof -
  have all: "\<forall>t \<in> set (INFO_PlaylistItemsUpdated # ui_events). t \<notin> set [INFO_DoneOutputtingDueToError, INFO_DoneOutputting, CMD_Stop, CMD_GetVolume,
    CMD_SetVolume, CMD_ChangePosition, CMD_PlayPaused, CMD_Play, CMD_NextMediaPiece, CMD_PrevMediaPiece, CMD_Pause, CMD_UnPause, CMD_TogglePause,
    CMD_QuitPlayer, CMD_QueryPlayerState, INFO_ReadyToDieUI, INFO_MediaInfo, INFO_MediaTimeInfo, INFO_PrefsChanged, INFO_Playing, INFO_Paused,
    INFO_Stopped]"
    unfolding ui_events_def list.set ball_simps insert_iff empty_iff by simp
  have "t \<in> set (INFO_PlaylistItemsUpdated # ui_events)" using assms by simp
  from bspec [OF all this] show ?thesis by (simp only: list.set) simp
qed

lemma ServiceEvent_ok:
  assumes ok: "pl_ok s" and can: "pl_can s e" and retr: "\<forall>u. md_storable (pe_retr env u)"
  shows "\<exists>r s'. pl_ServiceEvent env e s = Some (r, s') \<and> serviced e s r s'"
proof -
  let ?t = "event_type e"
  have go: "\<exists>r s'. map_option (Pair 0) x = Some (r, s') \<and> serviced e s r s'"
    if "\<exists>s'. x = Some s' \<and> handled (Some e) s s'" "?t \<noteq> CMD_QueryPlayerState" for x :: "player option"
    using that handled_serviced by auto
  have now: "\<exists>r s''. Some (0, s') = Some (r, s'') \<and> serviced e s r s''" if "handled (Some e) s s'" "?t \<noteq> CMD_QueryPlayerState" for s'
    using that handled_serviced by auto
  consider (done_out) "?t = INFO_DoneOutputtingDueToError \<or> ?t = INFO_DoneOutputting" | (stop) "?t = CMD_Stop" | (getvol) "?t = CMD_GetVolume"
    | (setvol) "?t = CMD_SetVolume" | (pos) "?t = CMD_ChangePosition" | (play) "?t = CMD_PlayPaused \<or> ?t = CMD_Play"
    | (nxt) "?t = CMD_NextMediaPiece" | (prev) "?t = CMD_PrevMediaPiece" | (pause) "?t = CMD_Pause" | (unpause) "?t = CMD_UnPause"
    | (toggle) "?t = CMD_TogglePause" | (quit) "?t = CMD_QuitPlayer" | (query) "?t = CMD_QueryPlayerState" | (ready) "?t = INFO_ReadyToDieUI"
    | (media) "?t = INFO_MediaInfo" | (time) "?t = INFO_MediaTimeInfo" | (prefs) "?t = INFO_PrefsChanged"
    | (ui) "?t = INFO_PlaylistItemsUpdated \<or> ?t \<in> set ui_events"
    | (window) "?t \<in> {CMD_ToggleDownloadUI, CMD_TogglePlaylistUI, CMD_ToggleMusicBrowserUI}" | (eq) "?t = CMD_SetEQData" | (vis) "?t = CMD_SendVisBuf"
    | (other) "?t \<notin> {INFO_DoneOutputtingDueToError, INFO_DoneOutputting, CMD_Stop, CMD_GetVolume, CMD_SetVolume, CMD_ChangePosition,
        CMD_PlayPaused, CMD_Play, CMD_NextMediaPiece, CMD_PrevMediaPiece, CMD_Pause, CMD_UnPause, CMD_TogglePause, CMD_QuitPlayer,
        CMD_QueryPlayerState, INFO_ReadyToDieUI, INFO_MediaInfo, INFO_MediaTimeInfo, INFO_PrefsChanged, INFO_PlaylistItemsUpdated,
        CMD_ToggleDownloadUI, CMD_TogglePlaylistUI, CMD_ToggleMusicBrowserUI, CMD_SetEQData, CMD_SendVisBuf}" "?t \<notin> set ui_events"
    by (simp only: insert_iff empty_iff) blast
  then show ?thesis
  proof cases
    case done_out
    then have "pl_ServiceEvent env e s = map_option (Pair 0) (pl_DoneOutputting env e s)" by (auto simp: pl_ServiceEvent_def)
    then show ?thesis using go [OF DoneOutputting_handled [OF ok _ _ _ retr]] can done_out by (auto simp: pl_can_def)
  next
    case play
    then have "pl_ServiceEvent env e s = map_option (Pair 0) (pl_Play env e s)" by (auto simp: pl_ServiceEvent_def)
    then show ?thesis using go [OF Play_handled [OF ok]] can play by (auto simp: pl_can_def)
  next
    case nxt
    then have "pl_ServiceEvent env e s = map_option (Pair 0) (pl_Next e s)" by (simp add: pl_ServiceEvent_def)
    moreover have "\<exists>p q. pl_plm_call (plm_GotoNextItem True) t = Some (t\<lparr>pl_plm := p, pl_queue := q\<rparr>) \<and> plm_inv p"
      if "pl_plm t = pl_plm s" for t
      using goto_ok(1) [of t True] pl_okD(1) [OF ok] can nxt that by (simp add: pl_can_def)
    then have "\<exists>s'. pl_Next e s = Some s' \<and> handled (Some e) s s'" unfolding pl_Next_def by (rule skip_handled [OF ok])
    ultimately show ?thesis using go nxt by simp
  next
    case prev
    then have "pl_ServiceEvent env e s = map_option (Pair 0) (pl_Previous e s)" by (simp add: pl_ServiceEvent_def)
    moreover have "\<exists>p q. pl_plm_call (plm_GotoPreviousItem True) t = Some (t\<lparr>pl_plm := p, pl_queue := q\<rparr>) \<and> plm_inv p"
      if "pl_plm t = pl_plm s" for t
      using goto_ok(2) [of t True] pl_okD(1) [OF ok] can prev that by (simp add: pl_can_def)
    then have "\<exists>s'. pl_Previous e s = Some s' \<and> handled (Some e) s s'" unfolding pl_Previous_def by (rule skip_handled [OF ok])
    ultimately show ?thesis using go prev by simp
  next
    case setvol
    then obtain l r where e: "e = VolumeEvent CMD_SetVolume l r" using can by (auto simp: pl_can_def)
    then show ?thesis using now [OF output_call_handled [OF ok]] by (simp add: pl_ServiceEvent_def pl_SetVolume_def)
  next
    case pos
    then obtain i where e: "e = ChangePositionEvent i" using can by (auto simp: pl_can_def)
    then show ?thesis using now [OF output_call_handled [OF ok]] by (simp add: pl_ServiceEvent_def pl_ChangePosition_def)
  next
    case media
    then obtain i n es where e: "e = MediaInfoEvent i n es" "\<forall>c \<in> set es. event_type c \<notin> {INFO_Playing, INFO_Paused, INFO_Stopped}"
      using can by (auto simp: pl_can_def)
    then show ?thesis using go [OF MediaInfo_handled [OF ok e(2), of i n, folded e(1)]] by (simp add: pl_ServiceEvent_def)
  next
    case eq
    then have "pl_ServiceEvent env e s = map_option (Pair 0) (pl_SetEQData e s)" by (simp add: pl_ServiceEvent_def ui_events_def)
    then show ?thesis using go [OF SetEQData_handled [OF ok]] can eq by (simp add: pl_can_def)
  next
    case quit
    then show ?thesis using quit_serviced(1) [OF ok quit] by (cases "pl_Quit e s") (simp add: pl_ServiceEvent_def)
  next
    case ready
    then show ?thesis using quit_serviced(2) [OF ok ready] by (cases "pl_ReadyToDieUI e s") (simp add: pl_ServiceEvent_def)
  next
    case query
    then show ?thesis using QueryState_handled [OF ok] by (simp add: pl_ServiceEvent_def serviced_def handled_def)
  next
    case ui
    from ui_event_types [OF ui] ui have "pl_ServiceEvent env e s = Some (0, pl_free (Some e) (pl_SendToUI e s))"
      by (simp add: pl_ServiceEvent_def)
    then show ?thesis using now [OF show_handled [OF ok]] ui_event_types [OF ui] by simp
  next
    case stop
    then show ?thesis using now [OF Stop_handled [OF ok]] by (simp add: pl_ServiceEvent_def)
  next
    case getvol
    then show ?thesis using now [OF GetVolume_handled [OF ok, of e env]] by (simp add: pl_ServiceEvent_def)
  next
    case pause
    then show ?thesis using now [OF Pause_handled [OF ok]] by (simp add: pl_ServiceEvent_def)
  next
    case unpause
    then show ?thesis using now [OF UnPause_handled [OF ok]] by (simp add: pl_ServiceEvent_def)
  next
    case toggle
    then show ?thesis using now [OF TogglePause_handled [OF ok]] by (simp add: pl_ServiceEvent_def)
  next
    case time
    then show ?thesis using now [OF show_playing_handled [OF ok]] by (simp add: pl_ServiceEvent_def)
  next
    case prefs
    then show ?thesis using now [OF PrefsChanged_handled [OF ok prefs]] by (simp add: pl_ServiceEvent_def)
  next
    case window
    then have "pl_ServiceEvent env e s = Some (0, pl_ToggleUI e s)" by (auto simp: pl_ServiceEvent_def ui_events_def)
    then show ?thesis using now [OF ToggleUI_handled [OF ok, of e]] window by auto
  next
    case vis
    then have "pl_ServiceEvent env e s = Some (0, pl_show_playing e s)" by (simp add: pl_ServiceEvent_def ui_events_def)
    then show ?thesis using now [OF show_playing_handled [OF ok, of e]] vis by simp
  next
    case other
    then have "pl_ServiceEvent env e s = Some (0, pl_free (Some e) s)"
      using can by (simp add: pl_ServiceEvent_def pl_can_def Let_def)
    then show ?thesis using now [OF free_handled [OF ok, of e]] other(1) by simp
  qed
qed

subsection \<open>Every run\<close>

lemma dom_register: "dom (fold (\<lambda>x m. m(x \<mapsto> n)) xs m) = dom m \<union> set xs"
  by (induction xs arbitrary: m) auto

lemma dom_registers: "dom (fold (\<lambda>d m. fold (\<lambda>x m. m(x \<mapsto> f d)) (g d) m) ds m) = dom m \<union> (\<Union>d \<in> set ds. set (g d))"
  by (induction ds arbitrary: m) (auto simp: dom_register)

text \<open>The player as \<open>main\<close> sets it up: constructed, with its plugins, its user interfaces and the semaphore.\<close>

definition pl_start ::
  "player_prefs \<Rightarrow> plm \<Rightarrow> catalog \<Rightarrow> nat \<Rightarrow> decoder_plugin list \<Rightarrow> input_plugin list \<Rightarrow> string list \<Rightarrow> nat \<Rightarrow> player" where
  "pl_start prefs plm cat preamp lmcs pmis pmos uis =
     pl_SetTerminationSemaphore ((pl_RegisterActiveUI ^^ uis)
       (pl_RegisterPMOs pmos (pl_RegisterPMIs pmis (pl_RegisterLMCs lmcs (pl_construct prefs plm cat preamp)))))"

lemma RegisterActiveUI_pow: "(pl_RegisterActiveUI ^^ n) s = s\<lparr>pl_uiCount := pl_uiCount s + n\<rparr>"
  by (induction n) (simp_all add: pl_RegisterActiveUI_def)

lemma start_ok:
  assumes "plm_inv plm" "cat_ok cat" "\<exists>d \<in> set lmcs. ''MP3'' \<in> set (lmc_extensions d)" "pmos \<noteq> []" "length (pref_pmo prefs) < 256"
  shows "pl_ok (pl_start prefs plm cat preamp lmcs pmis pmos uis)"
proof -
  have "''MP3'' \<in> dom (fold (\<lambda>d m. fold (\<lambda>ext m. m(ext \<mapsto> lmc_name d)) (lmc_extensions d) m) lmcs Map.empty)"
    unfolding dom_registers using assms(3) by simp
  then show ?thesis
    using assms(1,2,4,5) unfolding pl_start_def RegisterActiveUI_pow
    by (simp add: pl_ok_def pl_output_ok_def pl_plugins_def pl_SetTerminationSemaphore_def pl_RegisterPMOs_def pl_RegisterPMIs_def
      pl_RegisterLMCs_def pl_construct_def)
qed

text \<open>
  Runs: the loop services permitted events, events arrive from anywhere, other threads call the playlist manager and
  the catalog, the preferences change.
\<close>

inductive pl_reach :: "player_env \<Rightarrow> plm_env \<Rightarrow> player \<Rightarrow> player \<Rightarrow> bool" for env penv s0 where
  start: "pl_reach env penv s0 s0"
| serve: "pl_reach env penv s0 s'" if "pl_reach env penv s0 s" "pl_queue s = e # q" "pl_can (s\<lparr>pl_queue := q\<rparr>) e" "pl_turn env s = Some (0, s')"
| arrive: "pl_reach env penv s0 (pl_AcceptEvent e s)" if "pl_reach env penv s0 s"
| playlist: "pl_reach env penv s0 s'" if "pl_reach env penv s0 s" "plm_can penv (pl_plm s) op"
    "pl_plm_call (\<lambda>p. map_option (Pair kError_NoErr) (plm_exec penv op p)) s = Some s'"
| in_catalog: "pl_reach env penv s0 s'" if "pl_reach env penv s0 s" "cat_permits (m_musicCatalog s) c" "pl_catalog_call (cat_do (pe_retr env) c) s = Some s'"
| preferences: "pl_reach env penv s0 (s\<lparr>pl_prefs := prefs\<rparr>)" if "pl_reach env penv s0 s" "length (pref_pmo prefs) < 256"

lemma pl_ok_queue: "pl_ok (s\<lparr>pl_queue := q\<rparr>) = pl_ok s"
  by (simp add: pl_ok_def pl_output_ok_def)

lemma turn_ok:
  assumes "pl_ok s" "pl_queue s = e # q" "pl_can (s\<lparr>pl_queue := q\<rparr>) e" "\<forall>u. md_storable (pe_retr env u)"
  shows "\<exists>r s'. pl_turn env s = Some (r, s') \<and> serviced e s r s'"
  using ServiceEvent_ok [of "s\<lparr>pl_queue := q\<rparr>" e env] assms by (simp add: pl_turn_def pl_ok_queue serviced_def)

lemma pl_reach_ok:
  "pl_reach env penv s0 s \<Longrightarrow> pl_ok s0 \<Longrightarrow> \<forall>u. md_storable (pe_retr env u) \<Longrightarrow> pl_ok s"
proof (induction rule: pl_reach.induct)
  case (serve s e q s')
  then show ?case using turn_ok [of s e q env] by (auto simp: serviced_def)
next
  case (arrive s e)
  then show ?case by (simp add: pl_AcceptEvent_def pl_ok_queue)
next
  case (playlist s op s')
  then have "pl_ok s" by blast
  moreover from plm_exec_ok [OF pl_okD(1) [OF this] playlist.hyps(2)] obtain p where "plm_exec penv op (pl_plm s) = Some p" "plm_inv p" by blast
  ultimately show ?case using playlist.hyps(3) by (auto simp: pl_plm_call_def pl_ok_def pl_output_ok_def)
next
  case (in_catalog s c s')
  then have "pl_ok s" by blast
  moreover from cat_do_ok [OF pl_okD(4) [OF this] in_catalog.hyps(2) in_catalog.prems(2)] obtain err d where
    "cat_do (pe_retr env) c (m_musicCatalog s) = Some (err, d)" "cat_ok d" by (auto simp: call_ok_def)
  ultimately show ?case using in_catalog.hyps(3) by (auto simp: pl_catalog_call_def pl_ok_def pl_output_ok_def)
next
  case (preferences s prefs)
  then show ?case by (auto simp: pl_ok_def pl_output_ok_def pl_plugins_def)
qed


text \<open>A player with one song: every file can be read and every \<open>SetTo\<close> succeeds.\<close>

definition demo_env :: player_env where
  "demo_env = \<lparr>pe_retr = (\<lambda>_. new_metadata), pe_SetTo = (\<lambda>_ _. kError_NoErr), pe_volume = (\<lambda>_. (0, 0)), pe_size_t = 2 ^ 64\<rparr>"

definition demo_prefs :: player_prefs where
  "demo_prefs = \<lparr>pref_pollCD = False, pref_useProxy = False, pref_proxyHost = [], pref_pmo = ''soundcard.pmo''\<rparr>"

definition demo_input :: input_plugin where
  "demo_input = \<lparr>pmi_name = ''local.pmi'', pmi_protocols = [''file''], pmi_CanHandle = (\<lambda>_. True)\<rparr>"

definition demo_decoder :: decoder_plugin where
  "demo_decoder = \<lparr>lmc_name = ''xingmp3.lmc'', lmc_extensions = [''MP3'']\<rparr>"

definition demo_plm :: plm where
  "demo_plm = (plm_new False kPlaylistMode_RepeatNone [] [] [] [])\<lparr>plm_heap := [1 \<mapsto> new_item ''file:///a.mp3'' None], plm_next := 2,
     m_masterList := [1], m_shuffleList := [1], m_current := 0\<rparr>"

definition demo_player :: player where
  "demo_player = pl_start demo_prefs demo_plm demo_catalog 0 [demo_decoder] [demo_input] [''soundcard.pmo''] 1"

lemma demo_plm_inv: "plm_inv demo_plm"
  by (simp add: demo_plm_def plm_new_def plm_inv_def plm_lists_ok_def plm_mem_ok_def plm_pending_def new_item_def)

lemma demo_player_fields:
  "pl_queue demo_player = []" "pl_freed demo_player = []" "pl_plm demo_player = demo_plm" "m_pmiRegistry demo_player = Some [demo_input]"
proof -
  have "plm_events demo_plm = []" "cat_events demo_catalog = []"
    by (simp_all add: demo_plm_def plm_new_def demo_catalog_def cat_construct_def)
  then show "pl_queue demo_player = []" "pl_freed demo_player = []" "pl_plm demo_player = demo_plm" "m_pmiRegistry demo_player = Some [demo_input]"
    unfolding demo_player_def pl_start_def RegisterActiveUI_pow
    by (simp_all add: pl_SetTerminationSemaphore_def pl_RegisterPMOs_def pl_RegisterPMIs_def pl_RegisterLMCs_def pl_construct_def)
qed

lemma demo_has_input: "pl_plm s = demo_plm \<Longrightarrow> m_pmiRegistry s = Some [demo_input] \<Longrightarrow> pl_has_input s 1"
  by (simp add: pl_has_input_def pl_ChoosePMI_def demo_plm_def new_item_def demo_input_def Let_def)


end
