(* ===== verification/PlayerRuns.thy ===== *)
theory PlayerRuns
  imports PlayerSafety
begin

section \<open>What the player does over a run\<close>

text \<open>
  The event loop as a whole: a playlist is played from the current item to its end; a file that is missing keeps the
  loop busy for ever; the end of a song that was stopped in time starts the next one; the program ends with the last user interface.
\<close>

subsection \<open>Single turns\<close>

lemma serve_all_empty [simp]: "pl_queue s = [] \<Longrightarrow> pl_serve_all env s = Some (0, s)"
  by (simp add: pl_serve_all.simps)

lemma serve_all_turn: "pl_queue s \<noteq> [] \<Longrightarrow> pl_turn env s = Some (0, s') \<Longrightarrow> pl_serve_all env s = pl_serve_all env s'"
  by (simp add: pl_serve_all.simps [of env s])

lemma turn_plm_event:
  assumes "pl_queue s = PlmEvent e # q"
  shows "pl_turn env s = Some (0, s\<lparr>pl_queue := q, pl_shown := pl_shown s @ [PlmEvent e], pl_freed := pl_freed s @ [PlmEvent e]\<rparr>)"
proof -
  have "plm_event_type e = INFO_PlaylistItemsUpdated \<or> plm_event_type e \<in> set ui_events" by (cases e) (simp_all add: ui_events_def)
  then have t: "event_type (PlmEvent e) = INFO_PlaylistItemsUpdated \<or> event_type (PlmEvent e) \<in> set ui_events" by simp
  from ui_event_types [OF t] t show ?thesis
    using assms by (simp add: pl_turn_def pl_ServiceEvent_def pl_free_def pl_SendToUI_def)
qed

text \<open>The item \<open>p\<close> has a file an input can read.\<close>

definition pl_playable :: "player \<Rightarrow> ptr \<Rightarrow> bool" where
  "pl_playable s p \<longleftrightarrow> (\<exists>it i. plm_heap (pl_plm s) p = Some it \<and> pl_ChoosePMI (c_str (it_url it)) s = Some (Some i))"

definition pl_url :: "player \<Rightarrow> ptr \<Rightarrow> string" where
  "pl_url s p = c_str (it_url (the (plm_heap (pl_plm s) p)))"

lemma turn_play:
  assumes ok: "pl_ok s" and stopped: "m_playerState s = PlayerState_Stopped" and q: "pl_queue s = Event CMD_Play # q"
    and p: "plm_GetCurrentItem (pl_plm s) = Some p" "p \<noteq> NULL" "pl_playable s p"
    and opens: "pe_SetTo env (length (pl_opened s)) (pl_url s p) = kError_NoErr"
  shows "\<exists>s'. pl_turn env s = Some (0, s') \<and> pl_ok s' \<and> m_playerState s' = PlayerState_Playing \<and> pl_queue s' = q \<and> pl_plm s' = pl_plm s \<and>
    m_pmiRegistry s' = m_pmiRegistry s \<and> pl_opened s' = pl_opened s @ [pl_url s p] \<and> pl_shown s' = pl_shown s @ [Event INFO_Playing]"
proof -
  let ?s = "s\<lparr>pl_queue := q\<rparr>"
  from p(3) obtain it i where it: "plm_heap (pl_plm s) p = Some it" "pl_ChoosePMI (c_str (it_url it)) s = Some (Some i)"
    by (auto simp: pl_playable_def)
  have inp: "pl_ChoosePMI (c_str (it_url it)) ?s = Some (Some i)" using it(2) by (simp add: pl_ChoosePMI_def)
  have ok': "pl_ok ?s" using ok by (simp add: pl_ok_queue)
  have none: "m_pmo ?s = None" using pl_okD(6) [OF ok] stopped by simp
  from CreatePMO_found [OF pl_okD(5) [OF ok'] none p(2) _ inp, of p env] it(1) p(1) opens obtain out where
    c: "pl_CreatePMO env p ?s = Some (?s\<lparr>m_lmc := out_lmc out, pl_opened := pl_opened s @ [pl_url s p], m_pmo := Some out\<rparr>)"
    by (auto simp: pl_url_def Let_def)
  then have "pl_turn env s = Some (0, ?s\<lparr>m_lmc := out_lmc out, pl_opened := pl_opened s @ [pl_url s p],
      m_pmo := Some (out\<lparr>out_calls := out_calls out @ [OutResume]\<rparr>), m_playerState := PlayerState_Playing,
      pl_shown := pl_shown s @ [Event INFO_Playing], pl_freed := pl_freed s @ [Event CMD_Play]\<rparr>)" (is "_ = Some (0, ?t)")
    using q stopped none p by (simp add: pl_turn_def pl_ServiceEvent_def pl_Play_def player_defs Let_def)
  moreover have "pl_ok ?t" using ok pl_okD(8) [OF ok] by (simp add: pl_ok_def pl_output_ok_def)
  ultimately show ?thesis by auto
qed

subsection \<open>The end of a song\<close>

definition pl_not_counted :: "player \<Rightarrow> ptr \<Rightarrow> bool" where
  "pl_not_counted s p \<longleftrightarrow> (case plm_heap (pl_plm s) p of None \<Rightarrow> False | Some it \<Rightarrow> length (m_guid (it_metadata it)) \<noteq> 16)"

lemma count_play_none:
  "plm_GetCurrentItem (pl_plm s) = Some p \<Longrightarrow> pl_not_counted s p \<Longrightarrow> pl_count_play env s = Some s"
  by (auto simp: pl_count_play_def pl_not_counted_def split: option.splits)

text \<open>A song that ends is followed by the next item, which is a matter of three more turns.\<close>

lemma turn_done:
  assumes ok: "pl_ok s" and q: "pl_queue s = Event INFO_DoneOutputting # q" and mode: "m_repeatMode (pl_plm s) = kPlaylistMode_RepeatNone"
    and w: "kInvalidIndex < pe_size_t env" and ne: "m_masterList (pl_plm s) \<noteq> []"
    and p: "plm_GetCurrentItem (pl_plm s) = Some p" "pl_not_counted s p"
    and shown: "shown = pl_shown s @ (if m_playerState s = PlayerState_Stopped then [] else [Event INFO_Stopped]) @ [Event INFO_DoneOutputting]"
  shows "Suc (m_current (pl_plm s)) < length (m_masterList (pl_plm s)) \<Longrightarrow>
    \<exists>s' e. pl_turn env s = Some (0, s') \<and> pl_ok s' \<and> m_playerState s' = PlayerState_Stopped \<and>
      pl_queue s' = q @ map PlmEvent (plm_events (pl_plm s) @ [e]) @ [Event CMD_Play] \<and>
      pl_plm s' = (pl_plm s)\<lparr>m_current := Suc (m_current (pl_plm s)), plm_events := []\<rparr> \<and> m_pmiRegistry s' = m_pmiRegistry s \<and>
      pl_opened s' = pl_opened s \<and> pl_shown s' = shown" (is "_ \<Longrightarrow> ?next")
    and "Suc (m_current (pl_plm s)) = length (m_masterList (pl_plm s)) \<Longrightarrow> m_activeList (pl_plm s) = MasterList \<Longrightarrow>
    \<exists>s' e. pl_turn env s = Some (0, s') \<and> pl_ok s' \<and> m_playerState s' = PlayerState_Stopped \<and>
      pl_queue s' = q @ map PlmEvent (plm_events (pl_plm s) @ [e]) \<and>
      plm_GetCurrentItem (pl_plm s') = Some (m_masterList (pl_plm s) ! 0) \<and>
      pl_opened s' = pl_opened s \<and> pl_shown s' = shown @ [Event INFO_PlaylistDonePlay]" (is "_ \<Longrightarrow> _ \<Longrightarrow> ?last")
proof -
  let ?p = "pl_plm s"
  define s1 where "s1 = s\<lparr>pl_queue := q, m_pmo := None, m_lmc := (if m_pmo s = None then m_lmc s else None),
      m_playerState := PlayerState_Stopped, pl_shown := shown\<rparr>"
  have pok: "plm_lists_ok ?p" and pinv: "plm_inv ?p" using pl_okD(1,2) [OF ok] by blast+
  let ?s0 = "pl_stop_output (s\<lparr>pl_queue := q\<rparr>)"
  have s0: "pl_plm ?s0 = ?p" by (simp add: pl_stop_output_def pl_drop_output_def)
  then have cp: "pl_count_play env ?s0 = Some ?s0" using p by (intro count_play_none [of _ p]) (simp_all add: pl_not_counted_def)
  have s1: "pl_SendToUI (Event INFO_DoneOutputting) (pl_enter PlayerState_Stopped INFO_Stopped ?s0) = s1"
    using pl_okD(6) [OF ok] by (auto simp: s1_def shown player_defs Let_def)
  have ps1: "pl_plm s1 = ?p" "m_playerState s1 = PlayerState_Stopped" "pl_queue s1 = q" by (simp_all add: s1_def)
  have turn: "pl_turn env s = map_option (\<lambda>t. (0, pl_free (Some (Event INFO_DoneOutputting)) t))
      (if plm_HasAnotherItem (pe_size_t env) ?p then do {
         t \<leftarrow> pl_plm_call (plm_GotoNextItem False) s1;
         Some (pl_AcceptEvent (Event (if m_playerState t = PlayerState_Paused then CMD_PlayPaused else CMD_Play)) t) }
       else pl_rewind s1)"
    using q by (cases "pl_plm_call (plm_GotoNextItem False) s1"; cases "pl_rewind s1")
      (simp_all add: pl_turn_def pl_ServiceEvent_def pl_DoneOutputting_def cp s1 Let_def ps1)
  have another: "plm_HasAnotherItem (pe_size_t env) ?p \<longleftrightarrow> Suc (m_current ?p) < length (m_masterList ?p)"
    using plm_HasAnotherItem_iff [OF pok ne w] mode by simp
  have sh: "shown_state shown = PlayerState_Stopped" using pl_okD(8) [OF ok] by (simp add: shown)
  show "?next" if more: "Suc (m_current ?p) < length (m_masterList ?p)"
  proof -
    from plm_GotoNextItem_ok [OF pok ne, of False] more mode obtain e where
      g: "plm_GotoNextItem False ?p = Some (kError_NoErr, plm_emit e (?p\<lparr>m_current := Suc (m_current ?p)\<rparr>))"
      by (auto simp: next_index_def)
    define t where "t = s1\<lparr>pl_plm := ?p\<lparr>m_current := Suc (m_current ?p), plm_events := []\<rparr>,
       pl_queue := q @ map PlmEvent (plm_events ?p @ [e]) @ [Event CMD_Play], pl_freed := pl_freed s @ [Event INFO_DoneOutputting]\<rparr>"
    have "plm_inv (?p\<lparr>m_current := Suc (m_current ?p), plm_events := []\<rparr>)"
      using plm_exec_ok [OF pinv, of undefined "OpSetRepeat (m_repeatMode ?p)"] plm_lists_ok_current [OF pok more] pinv
      by (simp add: plm_inv_def plm_mem_ok_def plm_pending_def)
    then have "pl_ok t" using ok sh by (simp add: t_def s1_def pl_ok_def pl_output_ok_def)
    moreover have "pl_turn env s = Some (0, t)"
      using turn another more g ps1
      by (simp add: pl_plm_call_def plm_emit_def pl_AcceptEvent_def pl_free_def t_def) (simp add: s1_def)
    ultimately show ?thesis by (intro exI [of _ t] exI [of _ e]) (simp add: t_def s1_def)
  qed
  show "?last" if none: "Suc (m_current ?p) = length (m_masterList ?p)" and act: "m_activeList ?p = MasterList"
  proof -
    have n: "0 < length (m_masterList ?p)" using ne by simp
    let ?e = "PlaylistCurrentItemInfoEvent (m_masterList ?p ! 0)"
    have g: "plm_SetCurrentIndex 0 ?p = Some (kError_NoErr, plm_emit ?e (?p\<lparr>m_current := plm_play_index ?p 0\<rparr>))"
      by (rule plm_SetCurrentIndex_ok [OF pok act n])
    let ?p' = "?p\<lparr>m_current := plm_play_index ?p 0, plm_events := []\<rparr>"
    define t where "t = s1\<lparr>pl_plm := ?p', pl_queue := q @ map PlmEvent (plm_events ?p @ [?e]),
       pl_shown := shown @ [Event INFO_PlaylistDonePlay], pl_freed := pl_freed s @ [Event INFO_DoneOutputting]\<rparr>"
    have lists: "plm_lists_ok ?p'" using plm_lists_ok_current [OF pok plm_play_index(1) [OF pok n]] by (simp add: plm_lists_ok_def cong: if_cong)
    then have "plm_inv ?p'" using pinv by (simp add: plm_inv_def plm_mem_ok_def plm_pending_def)
    then have "pl_ok t" using ok sh by (simp add: t_def s1_def pl_ok_def pl_output_ok_def)
    moreover have "pl_turn env s = Some (0, t)"
      using turn another none g ps1
      by (simp add: pl_rewind_def pl_plm_call_def plm_emit_def pl_SendToUI_def pl_free_def t_def) (simp add: s1_def)
    moreover have "plm_GetCurrentItem ?p' = Some (m_masterList ?p ! 0)"
      using plm_play_index [OF pok n] plm_play_list(2) [OF pok] ne
      by (cases "m_shuffle ?p") (simp_all add: plm_GetCurrentItem_play plm_play_list_def)
    ultimately show ?thesis by (intro exI [of _ t] exI [of _ ?e]) (simp add: t_def s1_def)
  qed
qed

subsection \<open>A playlist is played to its end\<close>

text \<open>\<open>k\<close> times: the output reports the end of its song, and the loop services what there is.\<close>

fun pl_songs_end :: "player_env \<Rightarrow> nat \<Rightarrow> player \<Rightarrow> player option" where
  "pl_songs_end env 0 s = Some s"
| "pl_songs_end env (Suc k) s = do {
     (r, s) \<leftarrow> pl_serve_all env (pl_AcceptEvent (Event INFO_DoneOutputting) s);
     pl_songs_end env k s
   }"

text \<open>The playlist \<open>p\<close> can be played by \<open>s\<close>, which stands at position \<open>i\<close> of it.\<close>

definition pl_plays :: "player_env \<Rightarrow> plm \<Rightarrow> player \<Rightarrow> nat \<Rightarrow> bool" where
  "pl_plays env p s i \<longleftrightarrow> pl_ok s \<and> pl_plm s = p\<lparr>m_current := i\<rparr> \<and> i < length (m_masterList p) \<and> plm_events p = [] \<and>
     m_repeatMode p = kPlaylistMode_RepeatNone \<and> m_activeList p = MasterList \<and> kInvalidIndex < pe_size_t env \<and>
     (\<forall>q \<in> set (m_masterList p). pl_playable s q \<and> pl_not_counted s q \<and> (\<forall>n. pe_SetTo env n (pl_url s q) = kError_NoErr))"

lemma plays_cong:
  assumes "pl_plays env p s i" and "pl_ok s'" and "pl_plm s' = p\<lparr>m_current := j\<rparr>" and "j < length (m_masterList p)"
    and "m_pmiRegistry s' = m_pmiRegistry s"
  shows "pl_plays env p s' j"
proof -
  have "plm_heap (pl_plm s') = plm_heap (pl_plm s)" using assms(1,3) by (simp add: pl_plays_def)
  then have "pl_playable s' q = pl_playable s q" "pl_not_counted s' q = pl_not_counted s q" "pl_url s' q = pl_url s q" for q
    using assms(5) by (simp_all add: pl_playable_def pl_not_counted_def pl_url_def pl_ChoosePMI_def)
  then show ?thesis using assms by (simp add: pl_plays_def)
qed

lemma plays_current:
  assumes "pl_plays env p s i"
  shows "plm_GetCurrentItem (pl_plm s) = Some (plm_play_list p ! i)" and "plm_play_list p ! i \<in> set (m_masterList p)"
    and "plm_play_list p ! i \<noteq> NULL" and "length (plm_play_list p) = length (m_masterList p)"
proof -
  have "pl_ok s" and i: "i < length (m_masterList p)" and pp: "pl_plm s = p\<lparr>m_current := i\<rparr>"
    using assms by (simp_all add: pl_plays_def)
  from pl_okD(2) [OF this(1)] have ok: "plm_lists_ok (pl_plm s)" .
  have l: "plm_play_list (pl_plm s) = plm_play_list p" "m_masterList (pl_plm s) = m_masterList p" "m_current (pl_plm s) = i"
    using pp by (simp_all add: plm_play_list_def)
  show len: "length (plm_play_list p) = length (m_masterList p)" using plm_play_list(2) [OF ok] l by simp
  show "plm_GetCurrentItem (pl_plm s) = Some (plm_play_list p ! i)"
    using i l len plm_GetCurrentItem_play [of "pl_plm s"] by (cases "m_masterList p = []") simp_all
  have mem: "plm_play_list p ! i \<in> set (plm_play_list p)" using i len by simp
  then show "plm_play_list p ! i \<in> set (m_masterList p)" using plm_play_list(1) [OF ok] l by simp
  show "plm_play_list p ! i \<noteq> NULL" using mem plm_play_list(4) [OF ok] unfolding l by metis
qed

lemma serve_play:
  assumes plays: "pl_plays env p s i" and stopped: "m_playerState s = PlayerState_Stopped" and q: "pl_queue s = [Event CMD_Play]"
  shows "\<exists>s'. pl_serve_all env s = Some (0, s') \<and> pl_plays env p s' i \<and> m_playerState s' = PlayerState_Playing \<and> pl_queue s' = [] \<and>
    pl_opened s' = pl_opened s @ [pl_url s (plm_play_list p ! i)] \<and> m_pmiRegistry s' = m_pmiRegistry s"
proof -
  note c = plays_current [OF plays]
  have "pl_playable s (plm_play_list p ! i)" "pe_SetTo env (length (pl_opened s)) (pl_url s (plm_play_list p ! i)) = kError_NoErr"
    using plays c(2) by (auto simp: pl_plays_def)
  from turn_play [OF _ stopped q c(1,3) this(1) this(2)] plays obtain s' where
    s': "pl_turn env s = Some (0, s')" "pl_ok s'" "m_playerState s' = PlayerState_Playing" "pl_queue s' = []" "pl_plm s' = pl_plm s"
      "m_pmiRegistry s' = m_pmiRegistry s" "pl_opened s' = pl_opened s @ [pl_url s (plm_play_list p ! i)]" by (auto simp: pl_plays_def)
  have "pl_serve_all env s = Some (0, s')" using serve_all_turn [OF _ s'(1)] q s'(4) by simp
  moreover have "pl_plays env p s' i" using plays s' by (intro plays_cong [OF plays s'(2)]) (auto simp: pl_plays_def)
  ultimately show ?thesis using s' by blast
qed

lemma url_plays: "pl_plays env p s i \<Longrightarrow> pl_url s q = c_str (it_url (the (plm_heap p q)))"
  by (simp add: pl_plays_def pl_url_def)

lemma song_ends:
  assumes plays: "pl_plays env p s i" and q: "pl_queue s = []"
  shows "Suc i < length (m_masterList p) \<Longrightarrow>
    \<exists>s'. pl_serve_all env (pl_AcceptEvent (Event INFO_DoneOutputting) s) = Some (0, s') \<and> pl_plays env p s' (Suc i) \<and> pl_queue s' = [] \<and>
      m_playerState s' = PlayerState_Playing \<and> pl_opened s' = pl_opened s @ [pl_url s (plm_play_list p ! Suc i)]"
    and "Suc i = length (m_masterList p) \<Longrightarrow>
    \<exists>s'. pl_serve_all env (pl_AcceptEvent (Event INFO_DoneOutputting) s) = Some (0, s') \<and> pl_ok s' \<and> pl_queue s' = [] \<and>
      m_playerState s' = PlayerState_Stopped \<and> pl_opened s' = pl_opened s \<and>
      plm_GetCurrentItem (pl_plm s') = Some (m_masterList p ! 0) \<and> Event INFO_PlaylistDonePlay \<in> set (pl_shown s')"
proof -
  let ?s = "pl_AcceptEvent (Event INFO_DoneOutputting) s"
  have pp: "pl_plm s = p\<lparr>m_current := i\<rparr>" and ok: "pl_ok s" using plays by (simp_all add: pl_plays_def)
  have "pl_ok ?s" using ok by (simp add: pl_AcceptEvent_def pl_ok_queue)
  moreover have f: "pl_plm ?s = p\<lparr>m_current := i\<rparr>" "m_pmiRegistry ?s = m_pmiRegistry s" "pl_opened ?s = pl_opened s" by (simp_all add: pl_AcceptEvent_def pp)
  ultimately have plays': "pl_plays env p ?s i" using plays by (intro plays_cong [OF plays]) (auto simp: pl_plays_def)
  note c = plays_current [OF plays']
  have nc: "pl_not_counted ?s (plm_play_list p ! i)" using plays' c(2) by (auto simp: pl_plays_def)
  have ne: "m_masterList (pl_plm ?s) \<noteq> []" using plays' by (auto simp: pl_plays_def)
  have cur: "m_current (pl_plm ?s) = i" "m_masterList (pl_plm ?s) = m_masterList p" by (simp_all add: f)
  have q': "pl_queue ?s = [Event INFO_DoneOutputting]" using q by (simp add: pl_AcceptEvent_def)
  have m: "m_repeatMode (pl_plm ?s) = kPlaylistMode_RepeatNone" "kInvalidIndex < pe_size_t env" "m_activeList (pl_plm ?s) = MasterList"
    "plm_events (pl_plm ?s) = []" using plays f(1) by (simp_all add: pl_plays_def)
  note td = turn_done [OF \<open>pl_ok ?s\<close> q' m(1,2) ne c(1) nc refl, unfolded m(4) cur]
  {
    assume more: "Suc i < length (m_masterList p)"
    from td(1) [OF more] obtain s1 e where
      s1: "pl_turn env ?s = Some (0, s1)" "pl_ok s1" "m_playerState s1 = PlayerState_Stopped" "pl_queue s1 = [PlmEvent e, Event CMD_Play]"
        "pl_plm s1 = p\<lparr>m_current := Suc i, plm_events := []\<rparr>" "m_pmiRegistry s1 = m_pmiRegistry s" "pl_opened s1 = pl_opened s"
      by (auto simp: f)
    have p1: "pl_plm s1 = p\<lparr>m_current := Suc i\<rparr>" using s1(5) plays by (simp add: pl_plays_def)
    define s2 where "s2 = s1\<lparr>pl_queue := [Event CMD_Play], pl_shown := pl_shown s1 @ [PlmEvent e], pl_freed := pl_freed s1 @ [PlmEvent e]\<rparr>"
    have t2: "pl_turn env s1 = Some (0, s2)" using turn_plm_event [OF s1(4), of env] by (simp add: s2_def)
    have "event_type (PlmEvent e) \<notin> {INFO_Playing, INFO_Paused, INFO_Stopped}" by (cases e) simp_all
    then have "pl_ok s2" using s1(2) by (simp add: s2_def pl_ok_def pl_output_ok_def note_state_other)
    then have pl2: "pl_plays env p s2 (Suc i)" using more p1 s1(6) by (intro plays_cong [OF plays]) (simp_all add: s2_def)
    from serve_play [OF pl2] s1(3) obtain s3 where "pl_serve_all env s2 = Some (0, s3)" "pl_plays env p s3 (Suc i)" "pl_queue s3 = []"
      "m_playerState s3 = PlayerState_Playing" "pl_opened s3 = pl_opened s2 @ [pl_url s2 (plm_play_list p ! Suc i)]"
      by (auto simp: s2_def)
    moreover have "pl_serve_all env ?s = pl_serve_all env s2"
      using serve_all_turn [OF _ s1(1)] serve_all_turn [OF _ t2] q' s1(4) by simp
    moreover have "pl_opened s2 = pl_opened s" "pl_url s2 x = pl_url s x" for x
      using s1(7) url_plays [OF pl2] url_plays [OF plays] by (simp_all add: s2_def)
    ultimately show "\<exists>s'. pl_serve_all env ?s = Some (0, s') \<and> pl_plays env p s' (Suc i) \<and> pl_queue s' = [] \<and>
      m_playerState s' = PlayerState_Playing \<and> pl_opened s' = pl_opened s @ [pl_url s (plm_play_list p ! Suc i)]" by auto
  }
  {
    assume none: "Suc i = length (m_masterList p)"
    from td(2) [OF none m(3)] obtain s1 e where
      s1: "pl_turn env ?s = Some (0, s1)" "pl_ok s1" "m_playerState s1 = PlayerState_Stopped" "pl_queue s1 = [PlmEvent e]"
        "plm_GetCurrentItem (pl_plm s1) = Some (m_masterList p ! 0)" "pl_opened s1 = pl_opened s" "Event INFO_PlaylistDonePlay \<in> set (pl_shown s1)"
      by (auto simp: f)
    define s2 where "s2 = s1\<lparr>pl_queue := [], pl_shown := pl_shown s1 @ [PlmEvent e], pl_freed := pl_freed s1 @ [PlmEvent e]\<rparr>"
    have t2: "pl_turn env s1 = Some (0, s2)" using turn_plm_event [OF s1(4), of env] by (simp add: s2_def)
    have "event_type (PlmEvent e) \<notin> {INFO_Playing, INFO_Paused, INFO_Stopped}" by (cases e) simp_all
    then have "pl_ok s2" using s1(2) by (simp add: s2_def pl_ok_def pl_output_ok_def note_state_other)
    moreover have "pl_serve_all env ?s = Some (0, s2)"
      using serve_all_turn [OF _ s1(1)] serve_all_turn [OF _ t2] q' s1(4) by (simp add: s2_def)
    ultimately show "\<exists>s'. pl_serve_all env ?s = Some (0, s') \<and> pl_ok s' \<and> pl_queue s' = [] \<and>
      m_playerState s' = PlayerState_Stopped \<and> pl_opened s' = pl_opened s \<and>
      plm_GetCurrentItem (pl_plm s') = Some (m_masterList p ! 0) \<and> Event INFO_PlaylistDonePlay \<in> set (pl_shown s')"
      using s1 by (intro exI [of _ s2]) (simp add: s2_def)
  }
qed

lemma songs_end:
  "pl_plays env p s i \<Longrightarrow> pl_queue s = [] \<Longrightarrow> m_playerState s = PlayerState_Playing \<Longrightarrow> k = length (m_masterList p) - i \<Longrightarrow>
   \<exists>s'. pl_songs_end env k s = Some s' \<and> pl_ok s' \<and> pl_queue s' = [] \<and> m_playerState s' = PlayerState_Stopped \<and>
     pl_opened s' = pl_opened s @ map (pl_url s) (drop (Suc i) (plm_play_list p)) \<and>
     plm_GetCurrentItem (pl_plm s') = Some (m_masterList p ! 0) \<and> Event INFO_PlaylistDonePlay \<in> set (pl_shown s')"
proof (induction k arbitrary: s i)
  case 0
  then show ?case by (simp add: pl_plays_def)
next
  case (Suc k)
  show ?case
  proof (cases "Suc i < length (m_masterList p)")
    case True
    from song_ends(1) [OF Suc.prems(1,2) True] obtain s1 where
      s1: "pl_serve_all env (pl_AcceptEvent (Event INFO_DoneOutputting) s) = Some (0, s1)" "pl_plays env p s1 (Suc i)" "pl_queue s1 = []"
      "m_playerState s1 = PlayerState_Playing" "pl_opened s1 = pl_opened s @ [pl_url s (plm_play_list p ! Suc i)]" by blast
    have "pl_url s1 = pl_url s" using url_plays [OF s1(2)] url_plays [OF Suc.prems(1)] by auto
    moreover have "drop (Suc i) (plm_play_list p) = plm_play_list p ! Suc i # drop (Suc (Suc i)) (plm_play_list p)"
      using True plays_current(4) [OF Suc.prems(1)] by (simp add: Cons_nth_drop_Suc)
    moreover have "k = length (m_masterList p) - Suc i" using Suc.prems(4) by simp
    ultimately show ?thesis using Suc.IH [OF s1(2-4)] s1(1,5) by auto
  next
    case False
    then have last: "Suc i = length (m_masterList p)" using Suc.prems(1) by (auto simp: pl_plays_def)
    then have "k = 0" using Suc.prems(4) by simp
    then show ?thesis using song_ends(2) [OF Suc.prems(1,2) last] last plays_current(4) [OF Suc.prems(1)] by auto
  qed
qed

text \<open>
  C9. A playlist is played to its end. Without a repeat mode, in list order or shuffled, when every file can be read: after the
  command to play, each end of a song opens exactly the next item and plays it, so that the files opened are those from the
  current item to the end of the list, and after the last one the player is stopped, has told the user interfaces that
  the playlist is done, and stands at the first item of the list. (Songs with a signature of 16 characters,
  whose plays are counted in the catalog, are left out.)
\<close>

theorem playlist_played:
  assumes "pl_plays env p s i" and "m_playerState s = PlayerState_Stopped" and "pl_queue s = [Event CMD_Play]"
  shows "\<exists>s1 s'. pl_serve_all env s = Some (0, s1) \<and> m_playerState s1 = PlayerState_Playing \<and>
    pl_songs_end env (length (m_masterList p) - i) s1 = Some s' \<and>
    pl_opened s' = pl_opened s @ map (pl_url s) (drop i (plm_play_list p)) \<and> m_playerState s' = PlayerState_Stopped \<and> m_pmo s' = None \<and>
    pl_queue s' = [] \<and> plm_GetCurrentItem (pl_plm s') = Some (m_masterList p ! 0) \<and> Event INFO_PlaylistDonePlay \<in> set (pl_shown s')"
proof -
  from serve_play [OF assms] obtain s1 where
    s1: "pl_serve_all env s = Some (0, s1)" "pl_plays env p s1 i" "m_playerState s1 = PlayerState_Playing" "pl_queue s1 = []"
      "pl_opened s1 = pl_opened s @ [pl_url s (plm_play_list p ! i)]" by blast
  have "pl_url s1 = pl_url s" using url_plays [OF s1(2)] url_plays [OF assms(1)] by auto
  moreover have "i < length (plm_play_list p)" using plays_current(4) [OF s1(2)] s1(2) by (simp add: pl_plays_def)
  then have "drop i (plm_play_list p) = plm_play_list p ! i # drop (Suc i) (plm_play_list p)" by (simp add: Cons_nth_drop_Suc)
  moreover from songs_end [OF s1(2,4,3) refl] obtain s' where
    "pl_songs_end env (length (m_masterList p) - i) s1 = Some s'" "pl_ok s'" "pl_queue s' = []" "m_playerState s' = PlayerState_Stopped"
    "pl_opened s' = pl_opened s1 @ map (pl_url s1) (drop (Suc i) (plm_play_list p))"
    "plm_GetCurrentItem (pl_plm s') = Some (m_masterList p ! 0)" "Event INFO_PlaylistDonePlay \<in> set (pl_shown s')" by blast
  ultimately show ?thesis using s1 pl_okD(6) [of s'] by auto
qed

definition demo_ready :: player where
  "demo_ready = pl_AcceptEvent (Event CMD_Play) demo_player"

lemma demo_ready_fields:
  "pl_ok demo_ready" "m_playerState demo_ready = PlayerState_Stopped" "pl_queue demo_ready = [Event CMD_Play]" "pl_plm demo_ready = demo_plm"
  "m_pmiRegistry demo_ready = Some [demo_input]" "pl_opened demo_ready = []" "pl_uiCount demo_ready = 1" "pl_termSem demo_ready = Some 0"
proof -
  have "\<exists>d \<in> set [demo_decoder]. ''MP3'' \<in> set (lmc_extensions d)" "length (pref_pmo demo_prefs) < 256"
    by (simp_all add: demo_decoder_def demo_prefs_def)
  then have "pl_ok demo_player" using start_ok [OF demo_plm_inv demo_catalog_ok] unfolding demo_player_def by blast
  then show "pl_ok demo_ready" by (simp add: demo_ready_def pl_AcceptEvent_def pl_ok_queue)
  show "pl_queue demo_ready = [Event CMD_Play]" "pl_plm demo_ready = demo_plm" "m_pmiRegistry demo_ready = Some [demo_input]"
    using demo_player_fields by (simp_all add: demo_ready_def pl_AcceptEvent_def)
  show "m_playerState demo_ready = PlayerState_Stopped" "pl_opened demo_ready = []" "pl_uiCount demo_ready = 1" "pl_termSem demo_ready = Some 0"
    unfolding demo_ready_def demo_player_def pl_start_def RegisterActiveUI_pow
    by (simp_all add: pl_AcceptEvent_def pl_SetTerminationSemaphore_def pl_RegisterPMOs_def pl_RegisterPMIs_def pl_RegisterLMCs_def
      pl_construct_def)
qed

lemma demo_playable: "pl_playable demo_ready 1" "pl_url demo_ready 1 = ''file:///a.mp3''"
  by (simp_all add: pl_playable_def pl_url_def pl_ChoosePMI_def demo_ready_fields demo_plm_def demo_input_def new_item_def Let_def)

lemma demo_plays: "pl_plays demo_env demo_plm demo_ready 0"
proof -
  have "demo_plm = demo_plm\<lparr>m_current := 0\<rparr>" "m_masterList demo_plm = [1]" "plm_events demo_plm = []" "m_activeList demo_plm = MasterList"
    "m_repeatMode demo_plm = kPlaylistMode_RepeatNone" by (simp_all add: demo_plm_def plm_new_def)
  moreover have "pl_not_counted demo_ready 1" by (simp add: pl_not_counted_def demo_ready_fields demo_plm_def new_item_def new_metadata_def)
  ultimately show ?thesis using demo_playable demo_ready_fields(1,4) by (simp add: pl_plays_def demo_env_def)
qed

theorem playlist_played_witness:
  "\<exists>s1 s'. pl_serve_all demo_env demo_ready = Some (0, s1) \<and> m_playerState s1 = PlayerState_Playing \<and>
    pl_songs_end demo_env 1 s1 = Some s' \<and> pl_opened s' = [''file:///a.mp3''] \<and> m_playerState s' = PlayerState_Stopped"
proof -
  have "m_masterList demo_plm = [1]" "plm_play_list demo_plm = [1]" by (simp_all add: demo_plm_def plm_new_def plm_play_list_def)
  then show ?thesis
    using playlist_played [OF demo_plays demo_ready_fields(2,3)] demo_playable(2) demo_ready_fields(6) by auto
qed

subsection \<open>A missing file\<close>

fun pl_turns :: "player_env \<Rightarrow> nat \<Rightarrow> player \<Rightarrow> player option" where
  "pl_turns env 0 s = Some s"
| "pl_turns env (Suc k) s = do { (r, s) \<leftarrow> pl_turn env s; pl_turns env k s }"

lemma missing_turns:
  assumes ok: "pl_ok s" and stopped: "m_playerState s = PlayerState_Stopped" and q: "pl_queue s = [Event CMD_Play]"
    and p: "plm_GetCurrentItem (pl_plm s) = Some p" "p \<noteq> NULL" "pl_playable s p"
    and missing: "pe_SetTo env (length (pl_opened s)) (pl_url s p) = kError_FileNotFound"
  shows "\<exists>s1 s2. pl_turn env s = Some (0, s1) \<and> pl_turn env s1 = Some (0, s2) \<and> pl_ok s2 \<and> m_playerState s2 = PlayerState_Stopped \<and>
    pl_queue s2 = [Event CMD_Play] \<and> pl_plm s2 = pl_plm s \<and> m_pmiRegistry s2 = m_pmiRegistry s \<and>
    pl_opened s2 = pl_opened s @ [pl_url s p] \<and> pl_shown s2 = pl_shown s @ [MissingFileEvent p]"
proof -
  let ?s = "s\<lparr>pl_queue := []\<rparr>"
  from p(3) obtain it i where it: "plm_heap (pl_plm s) p = Some it" "pl_ChoosePMI (c_str (it_url it)) s = Some (Some i)"
    by (auto simp: pl_playable_def)
  have inp: "pl_ChoosePMI (c_str (it_url it)) ?s = Some (Some i)" using it(2) by (simp add: pl_ChoosePMI_def)
  have ok': "pl_ok ?s" using ok by (simp add: pl_ok_queue)
  have none: "m_pmo ?s = None" using pl_okD(6) [OF ok] stopped by simp
  have "plm_heap (pl_plm ?s) p = Some it" "plm_GetCurrentItem (pl_plm ?s) = Some p" using it(1) p(1) by simp_all
  from CreatePMO_found [OF pl_okD(5) [OF ok'] none p(2) this(1) inp this(2), of env] obtain out where
    "pl_CreatePMO env p ?s = (let s1 = ?s\<lparr>m_lmc := out_lmc out, pl_opened := pl_opened ?s @ [c_str (it_url it)]\<rparr>;
        err = pe_SetTo env (length (pl_opened ?s)) (c_str (it_url it))
     in if err = kError_FileNotFound then Some (s1\<lparr>pl_queue := pl_queue ?s @ [MissingFileEvent p, Event CMD_Play]\<rparr>)
        else if IsError err then Some s1 else Some (s1\<lparr>m_pmo := Some out\<rparr>))" by blast
  then have c: "pl_CreatePMO env p ?s = Some (?s\<lparr>m_lmc := out_lmc out, pl_opened := pl_opened s @ [pl_url s p],
        pl_queue := [MissingFileEvent p, Event CMD_Play]\<rparr>)"
    using missing it(1) by (simp add: pl_url_def Let_def)
  define s1 where "s1 = s\<lparr>m_lmc := out_lmc out, pl_opened := pl_opened s @ [pl_url s p],
        pl_queue := [MissingFileEvent p, Event CMD_Play], pl_freed := pl_freed s @ [Event CMD_Play]\<rparr>"
  have t1: "pl_turn env s = Some (0, s1)"
    using q stopped none p c by (simp add: pl_turn_def pl_ServiceEvent_def pl_Play_def player_defs Let_def s1_def)
  define s2 where "s2 = s1\<lparr>pl_queue := [Event CMD_Play], pl_shown := pl_shown s @ [MissingFileEvent p],
        pl_freed := pl_freed s1 @ [MissingFileEvent p]\<rparr>"
  have "pl_turn env s1 = Some (0, s2)"
    by (simp add: pl_turn_def pl_ServiceEvent_def ui_events_def player_defs s1_def s2_def)
  moreover have "pl_ok s2" using ok none by (simp add: s2_def s1_def pl_ok_def pl_output_ok_def note_state_other)
  ultimately show ?thesis using t1 stopped by (intro exI [of _ s1] exI [of _ s2]) (simp add: s1_def s2_def)
qed

text \<open>
  C24. A missing file keeps the player busy. When the file of the current item is not found, the player tells the user interfaces and
  sends itself the command to play again, for the same item: without any event from outside the loop never waits, every second
  turn tries to open the same file again, and the user interfaces get the message each time.
\<close>

theorem missing_file_spins:
  assumes "pl_ok s" and "m_playerState s = PlayerState_Stopped" and "pl_queue s = [Event CMD_Play]"
    and "plm_GetCurrentItem (pl_plm s) = Some p" "p \<noteq> NULL" "pl_playable s p"
    and "\<forall>n. pe_SetTo env n (pl_url s p) = kError_FileNotFound"
  shows "\<exists>s'. pl_turns env (2 * k) s = Some s' \<and> pl_queue s' = [Event CMD_Play] \<and> m_playerState s' = PlayerState_Stopped \<and>
    plm_GetCurrentItem (pl_plm s') = Some p \<and> pl_opened s' = pl_opened s @ replicate k (pl_url s p) \<and>
    pl_shown s' = pl_shown s @ replicate k (MissingFileEvent p)"
  using assms
proof (induction k arbitrary: s)
  case (Suc k)
  from missing_turns [OF Suc.prems(1-6), of env] Suc.prems(7) obtain s1 s2 where
    t: "pl_turn env s = Some (0, s1)" "pl_turn env s1 = Some (0, s2)" "pl_ok s2" "m_playerState s2 = PlayerState_Stopped"
    "pl_queue s2 = [Event CMD_Play]" "pl_plm s2 = pl_plm s" "m_pmiRegistry s2 = m_pmiRegistry s"
    "pl_opened s2 = pl_opened s @ [pl_url s p]" "pl_shown s2 = pl_shown s @ [MissingFileEvent p]" by blast
  have same: "pl_playable s2 p = pl_playable s p" "pl_url s2 p = pl_url s p"
    using t(6,7) by (simp_all add: pl_playable_def pl_url_def pl_ChoosePMI_def)
  from Suc.IH [OF t(3,4,5)] obtain s' where
    "pl_turns env (2 * k) s2 = Some s'" "pl_queue s' = [Event CMD_Play]" "m_playerState s' = PlayerState_Stopped"
    "plm_GetCurrentItem (pl_plm s') = Some p" "pl_opened s' = pl_opened s2 @ replicate k (pl_url s2 p)"
    "pl_shown s' = pl_shown s2 @ replicate k (MissingFileEvent p)"
    using Suc.prems(4-7) t(6) same by auto
  then show ?case using t(1,2,8,9) same by simp
qed simp

theorem missing_file_spins_witness:
  "\<exists>s'. pl_turns (demo_env\<lparr>pe_SetTo := (\<lambda>_ _. kError_FileNotFound)\<rparr>) 6 demo_ready = Some s' \<and> pl_queue s' = [Event CMD_Play] \<and>
    pl_opened s' = [''file:///a.mp3'', ''file:///a.mp3'', ''file:///a.mp3'']"
proof -
  have "plm_GetCurrentItem (pl_plm demo_ready) = Some 1"
    by (simp add: demo_ready_fields demo_plm_def plm_new_def plm_GetCurrentItem_def)
  from missing_file_spins [OF demo_ready_fields(1-3) this _ demo_playable(1), of "demo_env\<lparr>pe_SetTo := (\<lambda>_ _. kError_FileNotFound)\<rparr>" 3]
  show ?thesis using demo_playable(2) demo_ready_fields(6) by (auto simp: numeral_eq_Suc)
qed

subsection \<open>Stop at the end of a song\<close>

text \<open>
  C25. A stop can be undone by the song it stops. When the output has reported the end of its song before the command to stop is serviced,
  the report is still in the queue: the player stops, and then the report makes it go to the next item and play it. (The
  handler that stops does not look for such a report, and the handler of the report does not look at the state.)
\<close>

theorem stop_undone_by_song_end:
  assumes plays: "pl_plays env p s i" and "m_playerState s = PlayerState_Playing" and q: "pl_queue s = [Event CMD_Stop, Event INFO_DoneOutputting]"
    and more: "Suc i < length (m_masterList p)"
  shows "\<exists>s1 s'. pl_turn env s = Some (0, s1) \<and> m_playerState s1 = PlayerState_Stopped \<and> m_pmo s1 = None \<and>
    pl_serve_all env s = Some (0, s') \<and> m_playerState s' = PlayerState_Playing \<and>
    pl_opened s' = pl_opened s @ [pl_url s (plm_play_list p ! Suc i)]"
proof -
  have ok: "pl_ok s" using plays by (simp add: pl_plays_def)
  define s0 where "s0 = (pl_Stop (Some (Event CMD_Stop)) (s\<lparr>pl_queue := []\<rparr>))"
  have f: "pl_plm s0 = pl_plm s" "m_pmiRegistry s0 = m_pmiRegistry s" "pl_opened s0 = pl_opened s" "pl_queue s0 = []"
      "m_playerState s0 = PlayerState_Stopped"
    by (simp_all add: s0_def pl_Stop_def player_defs Let_def)
  have ok0: "pl_ok s0" using Stop_handled [of "s\<lparr>pl_queue := []\<rparr>"] ok by (simp add: s0_def handled_def pl_ok_queue)
  then have plays0: "pl_plays env p s0 i" using plays f by (intro plays_cong [OF plays]) (auto simp: pl_plays_def)
  let ?s1 = "pl_AcceptEvent (Event INFO_DoneOutputting) s0"
  have t: "pl_turn env s = Some (0, ?s1)"
    using q by (simp add: pl_turn_def pl_ServiceEvent_def s0_def pl_Stop_def player_defs Let_def)
  from song_ends(1) [OF plays0 f(4) more] obtain s' where
    "pl_serve_all env ?s1 = Some (0, s')" "m_playerState s' = PlayerState_Playing" "pl_opened s' = pl_opened s0 @ [pl_url s0 (plm_play_list p ! Suc i)]"
    by blast
  moreover have "pl_serve_all env s = pl_serve_all env ?s1" by (rule serve_all_turn [OF _ t]) (simp add: q)
  moreover have "pl_url s0 = pl_url s" using url_plays [OF plays0] url_plays [OF plays] by auto
  moreover have "m_pmo ?s1 = None" using pl_okD(6) [OF ok0] f(5) by (simp add: pl_AcceptEvent_def)
  ultimately show ?thesis using t f by (auto simp: pl_AcceptEvent_def)
qed

definition demo_pair :: plm where
  "demo_pair = (plm_new False kPlaylistMode_RepeatNone [] [] [] [])
    \<lparr>plm_heap := [1 \<mapsto> new_item ''file:///a.mp3'' None, 2 \<mapsto> new_item ''file:///b.mp3'' None], plm_next := 3,
     m_masterList := [1, 2], m_shuffleList := [1, 2], m_current := 0\<rparr>"

lemma demo_pair_fields:
  "m_masterList demo_pair = [1, 2]" "plm_play_list demo_pair = [1, 2]" "plm_events demo_pair = []" "m_activeList demo_pair = MasterList"
  "m_repeatMode demo_pair = kPlaylistMode_RepeatNone" "m_current demo_pair = 0"
  "plm_heap demo_pair = [1 \<mapsto> new_item ''file:///a.mp3'' None, 2 \<mapsto> new_item ''file:///b.mp3'' None]"
  by (simp_all add: demo_pair_def plm_new_def plm_play_list_def)

lemma demo_pair_inv: "plm_inv demo_pair"
  by (simp add: demo_pair_def plm_new_def plm_inv_def plm_lists_ok_def plm_mem_ok_def plm_pending_def new_item_def)

lemma demo_pair_plays: "pl_plays demo_env demo_pair (demo_ready\<lparr>pl_plm := demo_pair\<rparr>) 0"
proof -
  let ?s = "demo_ready\<lparr>pl_plm := demo_pair\<rparr>"
  have "pl_ok ?s" using demo_ready_fields(1) demo_pair_inv by (simp add: pl_ok_def pl_output_ok_def pl_plugins_def)
  moreover have "demo_pair = demo_pair\<lparr>m_current := 0\<rparr>" by (simp add: demo_pair_def)
  moreover have "pl_playable ?s q" "pl_not_counted ?s q" if "q \<in> {1, 2}" for q
    using that by (auto simp: pl_playable_def pl_not_counted_def pl_ChoosePMI_def demo_ready_fields demo_pair_fields demo_input_def
        new_item_def new_metadata_def Let_def)
  ultimately show ?thesis by (simp add: pl_plays_def demo_pair_fields) (simp add: demo_env_def)
qed

theorem stop_undone_by_song_end_witness:
  "\<exists>s s1 s'. pl_serve_all demo_env (demo_ready\<lparr>pl_plm := demo_pair\<rparr>) = Some (0, s) \<and> m_playerState s = PlayerState_Playing \<and>
     pl_turn demo_env (s\<lparr>pl_queue := [Event CMD_Stop, Event INFO_DoneOutputting]\<rparr>) = Some (0, s1) \<and> m_playerState s1 = PlayerState_Stopped \<and>
     pl_serve_all demo_env (s\<lparr>pl_queue := [Event CMD_Stop, Event INFO_DoneOutputting]\<rparr>) = Some (0, s') \<and>
     m_playerState s' = PlayerState_Playing \<and> pl_opened s' = [''file:///a.mp3'', ''file:///b.mp3'']"
proof -
  let ?s0 = "demo_ready\<lparr>pl_plm := demo_pair\<rparr>"
  have url: "pl_url s q = c_str (it_url (the (plm_heap demo_pair q)))" if "pl_plays demo_env demo_pair s 0" for s q
    using url_plays [OF that] .
  have "m_playerState ?s0 = PlayerState_Stopped" "pl_queue ?s0 = [Event CMD_Play]" by (simp_all add: demo_ready_fields)
  from serve_play [OF demo_pair_plays this] obtain s where s: "pl_serve_all demo_env ?s0 = Some (0, s)" "pl_plays demo_env demo_pair s 0"
    "m_playerState s = PlayerState_Playing" "pl_opened s = [''file:///a.mp3'']"
    by (auto simp: url [OF demo_pair_plays] demo_pair_fields demo_ready_fields new_item_def)
  let ?s = "s\<lparr>pl_queue := [Event CMD_Stop, Event INFO_DoneOutputting]\<rparr>"
  have "pl_plays demo_env demo_pair ?s 0"
    by (rule plays_cong [OF s(2)]) (use s(2) in \<open>auto simp: pl_plays_def pl_ok_queue\<close>)
  from stop_undone_by_song_end [OF this] url [OF this] s(1,3,4) show ?thesis
    by (auto simp: demo_pair_fields new_item_def)
qed

subsection \<open>The end of the program\<close>

fun pl_service_list :: "player_env \<Rightarrow> player_event list \<Rightarrow> player \<Rightarrow> (int \<times> player_event list \<times> player) option" where
  "pl_service_list env [] s = Some (0, [], s)"
| "pl_service_list env (e # es) s = do {
     (r, s) \<leftarrow> pl_ServiceEvent env e s;
     if r \<noteq> 0 then Some (r, es, s) else pl_service_list env es s
   }"

fun pl_permitted :: "player_env \<Rightarrow> player_event list \<Rightarrow> player \<Rightarrow> bool" where
  "pl_permitted env [] s \<longleftrightarrow> True"
| "pl_permitted env (e # es) s \<longleftrightarrow> pl_can s e \<and> (\<forall>s'. pl_ServiceEvent env e s = Some (0, s') \<longrightarrow> pl_permitted env es s')"

definition readies :: "player_event list \<Rightarrow> nat" where
  "readies es = length (filter (\<lambda>e. event_type e = INFO_ReadyToDieUI) es)"

lemma ReadyToDie_event:
  "event_type e = INFO_ReadyToDieUI \<Longrightarrow> pl_ServiceEvent env e s = Some (pl_ReadyToDieUI e s)"
  by (simp add: pl_ServiceEvent_def)

text \<open>What the loop has done with \<open>es\<close> when it waits for \<open>n\<close> reports, and \<open>sem\<close> is the semaphore.\<close>

definition quit_result :: "nat \<Rightarrow> player_event list \<Rightarrow> nat option \<Rightarrow> int \<times> player_event list \<times> player \<Rightarrow> bool" where
  "quit_result n es sem = (\<lambda>(r, rest, s'). if readies es < n then r = 0 \<and> rest = [] \<and> pl_termSem s' = sem
     else r = 1 \<and> pl_termSem s' = map_option Suc sem \<and> (\<exists>served. es = served @ rest \<and> readies served = n))"

lemma quit_result_other: "event_type e \<noteq> INFO_ReadyToDieUI \<Longrightarrow> quit_result n es sem x \<Longrightarrow> quit_result n (e # es) sem x"
  by (auto simp: quit_result_def readies_def split: if_splits prod.splits intro: exI [of _ "e # served" for served])

lemma quit_result_ready: "event_type e = INFO_ReadyToDieUI \<Longrightarrow> quit_result n es sem x \<Longrightarrow> quit_result (Suc n) (e # es) sem x"
  by (auto simp: quit_result_def readies_def split: if_splits prod.splits intro: exI [of _ "e # served" for served])

lemma quitting_waits:
  "pl_ok s \<Longrightarrow> m_imQuitting s \<Longrightarrow> m_quitWaitingFor s = int (Suc n) \<Longrightarrow> pl_permitted env es s \<Longrightarrow> \<forall>u. md_storable (pe_retr env u) \<Longrightarrow>
   \<forall>e \<in> set es. event_type e \<noteq> CMD_QuitPlayer \<Longrightarrow> \<exists>x. pl_service_list env es s = Some x \<and> quit_result (Suc n) es (pl_termSem s) x"
proof (induction es arbitrary: s n)
  case Nil
  then show ?case by (simp add: quit_result_def readies_def)
next
  case (Cons e es)
  from ServiceEvent_ok [of s e env] Cons.prems obtain r s1 where s1: "pl_ServiceEvent env e s = Some (r, s1)" "serviced e s r s1" by auto
  have ok1: "pl_ok s1" using s1(2) by (simp add: serviced_def)
  show ?case
  proof (cases "event_type e = INFO_ReadyToDieUI")
    case False
    then have q: "r = 0" "quit_data s1 = quit_data s" using s1(2) Cons.prems(6) by (simp_all add: serviced_def)
    then have f: "m_imQuitting s1" "m_quitWaitingFor s1 = int (Suc n)" "pl_termSem s1 = pl_termSem s" using Cons.prems(2,3) by (simp_all add: quit_data_def)
    have "pl_permitted env es s1" "\<forall>e \<in> set es. event_type e \<noteq> CMD_QuitPlayer" using s1 q(1) Cons.prems(4,6) by simp_all
    from Cons.IH [OF ok1 f(1,2) this(1) Cons.prems(5) this(2)] obtain x where
      "pl_service_list env es s1 = Some x" "quit_result (Suc n) es (pl_termSem s) x" by (auto simp: f(3))
    then show ?thesis using s1(1) q(1) quit_result_other [OF False] by auto
  next
    case True
    have run: "pl_ServiceEvent env e s = Some (pl_ReadyToDieUI e s)" by (rule ReadyToDie_event [OF True])
    show ?thesis
    proof (cases n)
      case 0
      then have "fst (pl_ReadyToDieUI e s) = 1" "pl_termSem (snd (pl_ReadyToDieUI e s)) = map_option Suc (pl_termSem s)"
        using Cons.prems(2,3) by (simp_all add: pl_ReadyToDieUI_def pl_free_def pl_signal_def Let_def)
      moreover have "readies [e] = 1" "\<not> readies (e # es) < 1" using True by (simp_all add: readies_def)
      ultimately show ?thesis using run 0
        by (cases "pl_ReadyToDieUI e s") (auto simp: quit_result_def intro: exI [of _ "[e]"])
    next
      case (Suc k)
      then have f: "pl_ReadyToDieUI e s = (0, s1)" "m_imQuitting s1" "m_quitWaitingFor s1 = int (Suc k)" "pl_termSem s1 = pl_termSem s" "r = 0"
        using Cons.prems(2,3) run s1(1) by (auto simp: pl_ReadyToDieUI_def pl_free_def Let_def split: if_splits)
      have "pl_permitted env es s1" "\<forall>e \<in> set es. event_type e \<noteq> CMD_QuitPlayer" using s1 f(5) Cons.prems(4,6) by simp_all
      from Cons.IH [OF ok1 f(2,3) this(1) Cons.prems(5) this(2)] obtain x where
        "pl_service_list env es s1 = Some x" "quit_result (Suc k) es (pl_termSem s) x" by (auto simp: f(4))
      then show ?thesis using s1(1) f(5) quit_result_ready [OF True, of "Suc k"] Suc by auto
    qed
  qed
qed

text \<open>
  C26. The program ends with its last user interface. After the command to quit every user interface has been told to clean up; whatever
  permitted events follow (but for a second command to quit, which begins the count anew), the event loop goes on until as
  many user interfaces as there are have reported, ends with the last report, and signals the termination semaphore
  exactly once; without a user interface it ends at once.
\<close>

theorem quit_waits_for_all:
  assumes ok: "pl_ok s" and permitted: "pl_permitted env (Event CMD_QuitPlayer # es) s" and retr: "\<forall>u. md_storable (pe_retr env u)"
    and once: "\<forall>e \<in> set es. event_type e \<noteq> CMD_QuitPlayer"
  shows "\<exists>r rest s'. pl_service_list env (Event CMD_QuitPlayer # es) s = Some (r, rest, s') \<and> 
     (if readies es < pl_uiCount s then r = 0 \<and> rest = [] \<and> pl_termSem s' = pl_termSem s
      else r = 1 \<and> pl_termSem s' = map_option Suc (pl_termSem s) \<and> (\<exists>served. es = served @ rest \<and> readies served = pl_uiCount s))"
proof -
  obtain r s1 where q: "pl_Quit (Event CMD_QuitPlayer) s = (r, s1)" by (cases "pl_Quit (Event CMD_QuitPlayer) s")
  have run: "pl_ServiceEvent env (Event CMD_QuitPlayer) s = Some (r, s1)" by (simp add: pl_ServiceEvent_def q)
  have ok1: "pl_ok s1" using quit_serviced(1) [OF ok, of "Event CMD_QuitPlayer"] q by (simp add: serviced_def)
  have f: "m_imQuitting s1" "m_quitWaitingFor s1 = int (pl_uiCount s)"
    "pl_termSem s1 = (if pl_uiCount s = 0 then map_option Suc (pl_termSem s) else pl_termSem s)" "r = (if pl_uiCount s = 0 then 1 else 0)"
    using q by (auto simp: pl_Quit_def pl_Stop_def player_defs Let_def split: if_splits)
  show ?thesis
  proof (cases "pl_uiCount s = 0")
    case True
    then show ?thesis using run f by (auto simp: readies_def)
  next
    case False
    then obtain n where n: "pl_uiCount s = Suc n" by (cases "pl_uiCount s") auto
    then have "pl_permitted env es s1" using permitted run f(4) by simp
    from quitting_waits [OF ok1 f(1) f(2) [unfolded n] this retr once] obtain x where
      "pl_service_list env es s1 = Some x" "quit_result (pl_uiCount s) es (pl_termSem s) x" using f(3) n by auto
    moreover have "pl_service_list env (Event CMD_QuitPlayer # es) s = pl_service_list env es s1" using run f(4) n by simp
    ultimately show ?thesis unfolding quit_result_def by (cases x) auto
  qed
qed

theorem quit_waits_for_all_witness:
  "\<exists>s'. pl_service_list demo_env [Event CMD_QuitPlayer, Event INFO_ReadyToDieUI] demo_ready = Some (1, [], s') \<and> pl_termSem s' = Some 1"
proof -
  have "pl_permitted demo_env [Event CMD_QuitPlayer, Event INFO_ReadyToDieUI] demo_ready" by (simp add: pl_can_def)
  moreover have "\<forall>u. md_storable (pe_retr demo_env u)" by (simp add: demo_env_def md_storable_def new_metadata_def)
  ultimately obtain r rest s' where
    "pl_service_list demo_env [Event CMD_QuitPlayer, Event INFO_ReadyToDieUI] demo_ready = Some (r, rest, s')" "r = 1"
    "pl_termSem s' = map_option Suc (pl_termSem demo_ready)" "\<exists>served. [Event INFO_ReadyToDieUI] = served @ rest \<and> readies served = 1"
    using quit_waits_for_all [OF demo_ready_fields(1), of demo_env "[Event INFO_ReadyToDieUI]"] demo_ready_fields(7)
    by (auto simp: readies_def)
  moreover from this(4) have "rest = []" by (auto simp: readies_def Cons_eq_append_conv)
  ultimately show ?thesis using demo_ready_fields(8) by simp
qed

end
