(* ===== verification/MetaFormats.thy ===== *)
theory MetaFormats
  imports PlmLists FieldText Utility
begin

section \<open>Metadata from tags and file names\<close>

text \<open>
  Two of the plugins that read metadata: the ID3v1 tag at the end of an MP3 file (\<open>id3v1.cpp\<close>), and the one that fills in what
  can be guessed from the name (\<open>misc.cpp\<close>). Files are a map from paths to contents, the lengths of songs come from
  the decoders, a map from extensions.
\<close>

subsection \<open>ID3v1\<close>

definition genre_strings :: "string list" where
  "genre_strings = [
    ''Blues'', ''Classic Rock'', ''Country'', ''Dance'', ''Disco'', ''Funk'', ''Grunge'', ''Hip-Hop'', ''Jazz'', ''Metal'',
    ''New Age'', ''Oldies'', ''Other'', ''Pop'', ''R&B'', ''Rap'', ''Reggae'', ''Rock'', ''Techno'', ''Industrial'',
    ''Alternative'', ''Ska'', ''Death Metal'', ''Pranks'', ''Soundtrack'', ''Euro-Techno'', ''Ambient'', ''Trip-Hop'',
    ''Vocal'', ''Jazz+Funk'', ''Fusion'', ''Trance'', ''Classical'', ''Instrumental'', ''Acid'', ''House'', ''Game'',
    ''Sound Clip'', ''Gospel'', ''Noise'', ''Alternative Rock'', ''Bass'', ''Soul'', ''Punk'', ''Space'', ''Meditative'',
    ''Instrumental Pop'', ''Instrumental Rock'', ''Ethnic'', ''Gothic'', ''Darkwave'', ''Techno-Industrial'', ''Electronic'',
    ''Pop-Folk'', ''Eurodance'', ''Dream'', ''Southern Rock'', ''Comedy'', ''Cult'', ''Gangsta'', ''Top 40'',
    ''Christian Rap'', ''Pop/Funk'', ''Jungle'', ''Native American'', ''Cabaret'', ''New Wave'', ''Psychadelic'', ''Rave'',
    ''Showtunes'', ''Trailer'', ''Lo-Fi'', ''Tribal'', ''Acid Punk'', ''Acid Jazz'', ''Polka'', ''Retro'', ''Musical'',
    ''Rock & Roll'', ''Hard Rock'', ''Folk'', ''Folk-Rock'', ''National Folk'', ''Swing'', ''Fast Fusion'', ''Bebob'',
    ''Latin'', ''Revival'', ''Celtic'', ''Bluegrass'', ''Avantgarde'', ''Gothic Rock'', ''Progressive Rock'',
    ''Psychedelic Rock'', ''Symphonic Rock'', ''Slow Rock'', ''Big Band'', ''Chorus'', ''Easy Listening'', ''Acoustic'',
    ''Humour'', ''Speech'', ''Chanson'', ''Opera'', ''Chamber Music'', ''Sonata'', ''Symphony'', ''Booty Bass'', ''Primus'',
    ''Porn Groove'', ''Satire'', ''Slow Jam'', ''Club'', ''Tango'', ''Samba'', ''Folklore'', ''Ballad'', ''Power Ballad'',
    ''Rhythmic Soul'', ''Freestyle'', ''Duet'', ''Punk Rock'', ''Drum Solo'', ''Acapella'', ''Euro-House'', ''Dance Hall'',
    ''Goa'', ''Drum & Bass'', ''Club-House'', ''Hardcore'', ''Terror'', ''Indie'', ''BritPop'', ''Negerpunk'', ''Polsk Punk'',
    ''Beat'', ''Christian Gangsta Rap'', ''Heavy Metal'', ''Black Metal'', ''Crossover'', ''Contemporary Christian'',
    ''Christian Rock'', ''Merengue'', ''Salsa'', ''Thrash Metal'', ''Anime'', ''Jpop'', ''Synthpop'']"

text \<open>A \<open>char\<close> as a number; it is signed.\<close>

definition signed_byte :: "char \<Rightarrow> int" where
  "signed_byte c = (if byte_of c < 128 then int (byte_of c) else int (byte_of c) - 256)"

text \<open>
  The loop of \<open>KillTrailingSpaces\<close> with \<open>cp\<close> at position \<open>n\<close>: the character there is overwritten, then \<open>cp\<close> goes back one and is
  read. For an empty string that is a read in front of the buffer; the first character is never removed.
\<close>

fun kill_from :: "string \<Rightarrow> nat \<Rightarrow> string option" where
  "kill_from s 0 = None"
| "kill_from s (Suc n) = (if s ! n = CHR '' '' \<and> n \<noteq> 0 then kill_from s n else Some (take (Suc n) s))"

definition KillTrailingSpaces :: "string \<Rightarrow> string option" where
  "KillTrailingSpaces s = kill_from s (length s)"

text \<open>\<open>strncpy\<close> of a field into the buffer, and the trimmed text.\<close>

definition id3_field :: "nat \<Rightarrow> nat \<Rightarrow> string \<Rightarrow> string option" where
  "id3_field offset len tag = KillTrailingSpaces (c_str (take len (drop offset tag)))"

definition longer :: "string \<Rightarrow> string \<Rightarrow> string" where
  "longer new old = (if length new > length old then new else old)"

text \<open>The genre is written when the comment, which is still in the buffer, is longer than the old genre.\<close>

definition id3_fill :: "string \<Rightarrow> metadata \<Rightarrow> metadata option" where
  "id3_fill tag md = do {
     artist \<leftarrow> id3_field 33 30 tag;
     let md = md\<lparr>m_artist := longer artist (m_artist md)\<rparr>;
     album \<leftarrow> id3_field 63 30 tag;
     let md = md\<lparr>m_album := longer album (m_album md)\<rparr>;
     title \<leftarrow> id3_field 3 30 tag;
     let md = md\<lparr>m_title := longer title (m_title md)\<rparr>;
     year \<leftarrow> id3_field 93 4 tag;
     let md = md\<lparr>m_year := to_u32 (atoi year)\<rparr>;
     let zero = tag ! 125;
     buffer \<leftarrow> id3_field 97 (if zero \<noteq> CHR 0x00 then 30 else 28) tag;
     let md = md\<lparr>m_comment := longer buffer (m_comment md)\<rparr>;
     let md = (if zero = CHR 0x00 \<and> tag ! 126 \<noteq> CHR 0x00 then md\<lparr>m_track := to_u32 (signed_byte (tag ! 126))\<rparr> else md);
     let genre = signed_byte (tag ! 127);
     Some (if 0 \<le> genre \<and> nat genre < length genre_strings
           then (if length buffer > length (m_genre md) then md\<lparr>m_genre := genre_strings ! nat genre\<rparr> else md)
           else if m_genre md = [] then md\<lparr>m_genre := ''{unknown}''\<rparr> else md)
   }"

definition id3v1_ReadMetaData :: "(string \<rightharpoonup> string) \<Rightarrow> string \<Rightarrow> metadata \<Rightarrow> (bool \<times> metadata) option" where
  "id3v1_ReadMetaData files url md = (case extension_of url of None \<Rightarrow> Some (False, md)
     | Some ext \<Rightarrow>
         if strcasecmp (CHR ''.'' # ext) ''.mp3'' \<noteq> 0 then Some (False, md)
         else (case URLToFilePath url MAX_PATH of
             (err, Some path, _) \<Rightarrow> (case files path of None \<Rightarrow> Some (False, md)
               | Some content \<Rightarrow>
                   if length content < 128 then Some (False, md)
                   else let tag = drop (length content - 128) content
                     in if take 3 tag = ''TAG'' then map_option (Pair True) (id3_fill tag md) else Some (False, md))
           | _ \<Rightarrow> Some (False, md)))"

subsection \<open>What the name tells\<close>

text \<open>
  A copy of the URL with its last dot overwritten by a terminator, from the character behind the last slash on: the name, a
  terminator, and the extension, if the dot is in the name.
\<close>

definition file_memory :: "string \<Rightarrow> string" where
  "file_memory url = (let temp = (case extension_of url of None \<Rightarrow> url | Some ext \<Rightarrow> url[length url - length ext - 1 := CHR 0x00])
     in drop (length url - length (file_part url)) temp)"

text \<open>The title of a file; the text for a CD track goes into 20 characters.\<close>

definition misc_file_title :: "string \<Rightarrow> string option" where
  "misc_file_title url = (let file = c_str (file_memory url); cd_track = ''CD Track '' @ long_text (to_u32 (atoi file))
     in case extension_of url of
         Some ext \<Rightarrow> (if has_prefix_ci ''CDA'' ext \<and> atoi file \<noteq> 0
           then if 20 \<le> length cd_track then None else Some cd_track
           else Some file)
       | None \<Rightarrow> Some file)"

text \<open>The search for a digit does not stop at the terminator; it may find one in the extension, or run off the copy.\<close>

definition misc_track :: "string \<Rightarrow> nat \<Rightarrow> nat option" where
  "misc_track url track = (let found = dropWhile (\<lambda>c. \<not> c_isdigit c) (file_memory url)
     in if found = [] then None else Some (if length (c_str found) > 4 then to_u32 (atoi found) else track))"

definition underscores_to_spaces :: "string \<Rightarrow> string" where
  "underscores_to_spaces s = map (\<lambda>c. if c = CHR ''_'' then CHR '' '' else c) s"

definition misc_time :: "(string \<rightharpoonup> string \<Rightarrow> nat) \<Rightarrow> string \<Rightarrow> metadata \<Rightarrow> metadata option" where
  "misc_time decoders url md = (if has_prefix_ci ''file://'' url \<and> m_time md = 0
     then case extension_of url of None \<Rightarrow> Some md
       | Some ext \<Rightarrow> if 256 \<le> length ext then None
           else Some (case decoders (map toupper ext) of None \<Rightarrow> md | Some song_length \<Rightarrow> md\<lparr>m_time := u32 (song_length url)\<rparr>)
     else Some md)"

definition misc_name :: "string \<Rightarrow> metadata \<Rightarrow> metadata option" where
  "misc_name url md =
     (if m_title md \<noteq> [] then Some md
      else if has_prefix_ci ''file://'' url then map_option (\<lambda>t. md\<lparr>m_title := t\<rparr>) (misc_file_title url)
      else if has_prefix_ci ''http://'' url then Some (md\<lparr>m_title := ''HTTP Stream''\<rparr>)
      else if has_prefix_ci ''rtp://'' url then Some (md\<lparr>m_title := ''RTP Stream''\<rparr>)
      else Some md)"

definition misc_ReadMetaData :: "(string \<rightharpoonup> string \<Rightarrow> nat) \<Rightarrow> bool \<Rightarrow> string \<Rightarrow> metadata \<Rightarrow> metadata option" where
  "misc_ReadMetaData decoders convertUnderscores url md = do {
     let url = c_str url;
     md \<leftarrow> misc_time decoders url md;
     md \<leftarrow> misc_name url md;
     md \<leftarrow> (if has_prefix_ci ''file://'' url \<and> m_track md = 0
            then map_option (\<lambda>t. md\<lparr>m_track := t\<rparr>) (misc_track url (m_track md)) else Some md);
     Some (if convertUnderscores
           then md\<lparr>m_title := underscores_to_spaces (m_title md), m_artist := c_str (underscores_to_spaces (m_artist md)),
                  m_album := c_str (underscores_to_spaces (m_album md))\<rparr>
           else md)
   }"

subsection \<open>Trimming\<close>

lemma kill_from_defined: "kill_from s n = None \<longleftrightarrow> n = 0"
  by (induction n) auto

lemma KillTrailingSpaces_None [simp]: "KillTrailingSpaces s = None \<longleftrightarrow> s = []"
  by (simp add: KillTrailingSpaces_def kill_from_defined)

lemma kill_spaces:
  assumes "s \<noteq> []" and "last s \<noteq> CHR '' ''"
  shows "KillTrailingSpaces (s @ replicate k (CHR '' '')) = Some s"
proof -
  have "j \<le> k \<Longrightarrow> kill_from (s @ replicate k (CHR '' '')) (length s + j) = Some s" for j
  proof (induction j)
    case 0
    obtain n where n: "length s = Suc n" using assms(1) by (cases s) auto
    then have "s ! n \<noteq> CHR '' ''" using assms by (simp add: last_conv_nth)
    then show ?case using n by (simp add: nth_append)
  next
    case (Suc j)
    then have "(s @ replicate k (CHR '' '')) ! (length s + j) = CHR '' ''" by (simp add: nth_append)
    then show ?case using Suc assms(1) by simp
  qed
  from this [of k] show ?thesis by (simp add: KillTrailingSpaces_def)
qed

text \<open>A field of a tag is its text, padded with terminators or with spaces.\<close>

definition padded :: "nat \<Rightarrow> char \<Rightarrow> string \<Rightarrow> string" where
  "padded n fill s = s @ replicate (n - length s) fill"

definition field_text :: "nat \<Rightarrow> string \<Rightarrow> bool" where
  "field_text n s \<longleftrightarrow> s \<noteq> [] \<and> length s \<le> n \<and> CHR 0x00 \<notin> set s \<and> last s \<noteq> CHR '' ''"

definition id3v1_tag :: "char \<Rightarrow> string \<Rightarrow> string \<Rightarrow> string \<Rightarrow> string \<Rightarrow> string \<Rightarrow> char \<Rightarrow> char \<Rightarrow> string" where
  "id3v1_tag fill title artist album year comment track genre = ''TAG'' @ padded 30 fill title @ padded 30 fill artist @
     padded 30 fill album @ padded 4 fill year @ padded 28 fill comment @ [CHR 0x00, track, genre]"

lemma length_padded [simp]: "length s \<le> n \<Longrightarrow> length (padded n fill s) = n"
  by (simp add: padded_def)

lemma field_text_padded:
  assumes "field_text n s" and "fill = CHR 0x00 \<or> fill = CHR '' ''"
  shows "KillTrailingSpaces (c_str (padded n fill s)) = Some s"
proof (cases "fill = CHR 0x00")
  case True
  have "\<forall>c \<in> set s. c \<noteq> CHR 0x00" using assms(1) by (auto simp: field_text_def)
  then have "c_str (padded n fill s) = s"
    using True by (cases "n - length s") (simp_all add: c_str_def padded_def takeWhile_append2 takeWhile_eq_all_conv [THEN iffD2])
  then show ?thesis using kill_spaces [of s 0] assms(1) by (simp add: field_text_def)
next
  case False
  then have "c_str (padded n fill s) = padded n fill s"
    using assms by (intro c_str_id) (auto simp: padded_def field_text_def)
  then show ?thesis using False assms kill_spaces [of s "n - length s"] by (simp add: padded_def field_text_def)
qed

lemma id3_field_tag:
  assumes "tag = before @ padded n fill s @ after" and "length before = offset" and "field_text n s" and "fill = CHR 0x00 \<or> fill = CHR '' ''"
  shows "id3_field offset n tag = Some s"
proof -
  have "take n (drop offset tag) = padded n fill s" using assms(1-3) by (simp add: field_text_def)
  then show ?thesis using field_text_padded [OF assms(3,4)] by (simp add: id3_field_def)
qed

lemma to_u32_int: "n < 4294967296 \<Longrightarrow> to_u32 (int n) = n"
  by (simp add: to_u32_def)

subsection \<open>Reading a tag\<close>


text \<open>
  An empty text in a tag is read out of bounds. For a tag of 128 bytes the reading is defined exactly when none of artist, album, title,
  year and comment begins with a terminator: trimming an empty text reads, and may write, in front of the buffer.
\<close>

theorem id3v1_empty_text_undefined:
  assumes "length tag = 128"
  shows "id3_fill tag md = None \<longleftrightarrow> (\<exists>offset \<in> {3, 33, 63, 93, 97}. tag ! offset = CHR 0x00)"
proof -
  have f: "id3_field offset n tag = None \<longleftrightarrow> tag ! offset = CHR 0x00" if "offset < 128" "0 < n" for offset n
  proof -
    have "take n (drop offset tag) = tag ! offset # take (n - 1) (drop (Suc offset) tag)"
      using that assms by (cases n) (simp_all add: Cons_nth_drop_Suc [symmetric])
    then show ?thesis by (simp add: id3_field_def c_str_def)
  qed
  define n where "n = (if tag ! 125 \<noteq> CHR 0x00 then 30 else 28 :: nat)"
  have "id3_fill tag md = None \<longleftrightarrow> id3_field 33 30 tag = None \<or> id3_field 63 30 tag = None \<or> id3_field 3 30 tag = None \<or>
      id3_field 93 4 tag = None \<or> id3_field 97 n tag = None"
    unfolding id3_fill_def Let_def n_def [symmetric]
    by (cases "id3_field 33 30 tag"; cases "id3_field 63 30 tag"; cases "id3_field 3 30 tag"; cases "id3_field 93 4 tag";
        cases "id3_field 97 n tag"; simp)
  moreover have "0 < n" by (simp add: n_def)
  ultimately show ?thesis by (auto simp: f)
qed


theorem id3v1_empty_text_undefined_witness:
  "id3_fill (id3v1_tag (CHR 0x00) ''Title'' ''Artist'' ''Album'' ''1999'' [] (CHR 0x07) (CHR 0x11)) new_metadata = None"
proof -
  let ?tag = "id3v1_tag (CHR 0x00) ''Title'' ''Artist'' ''Album'' ''1999'' [] (CHR 0x07) (CHR 0x11)"
  have "length ?tag = 128" "?tag ! 97 = CHR 0x00" by code_simp+
  then show ?thesis using id3v1_empty_text_undefined [of ?tag new_metadata] by simp
qed

subsection \<open>What the name gives\<close>

lemma misc_time_some:
  assumes "\<forall>ext. extension_of url = Some ext \<longrightarrow> length ext < 256"
  shows "\<exists>t. misc_time decoders url md = Some (md\<lparr>m_time := t\<rparr>) \<and> (m_time md \<noteq> 0 \<longrightarrow> t = m_time md)"
proof -
  have same: "misc_time decoders url md = Some md \<Longrightarrow> ?thesis" by (intro exI [of _ "m_time md"]) simp
  show ?thesis
  proof (cases "has_prefix_ci ''file://'' url \<and> m_time md = 0")
    case True
    show ?thesis
    proof (cases "extension_of url")
      case None
      then show ?thesis by (intro same) (simp add: misc_time_def)
    next
      case (Some ext)
      then have "length ext < 256" using assms by simp
      then show ?thesis using Some True same by (cases "decoders (map toupper ext)") (auto simp: misc_time_def)
    qed
  next
    case False
    then show ?thesis by (intro same) (auto simp: misc_time_def)
  qed
qed

lemma misc_track_None: "misc_track url k = None \<longleftrightarrow> (\<forall>c \<in> set (file_memory url). \<not> c_isdigit c)"
  by (simp add: misc_track_def Let_def dropWhile_eq_Nil_conv)

text \<open>
  C33. Guessing a track number may run off the name. With an extension of less than 256 characters, reading is undefined exactly for a file
  where the title for a CD track does not fit its buffer, or which has no track number and a name and extension without any digit: the
  search for a digit then leaves the copy of the URL.
\<close>

theorem misc_undefined_iff:
  assumes url: "CHR 0x00 \<notin> set url" and ext: "\<forall>ext. extension_of url = Some ext \<longrightarrow> length ext < 256"
  shows "misc_ReadMetaData decoders False url md = None \<longleftrightarrow> has_prefix_ci ''file://'' url \<and>
      (m_title md = [] \<and> misc_file_title url = None \<or> m_track md = 0 \<and> (\<forall>c \<in> set (file_memory url). \<not> c_isdigit c))"
proof -
  obtain t where time: "misc_time decoders url md = Some (md\<lparr>m_time := t\<rparr>)" using misc_time_some [OF ext] by blast
  show ?thesis
  proof (cases "has_prefix_ci ''file://'' url")
    case True
    then show ?thesis unfolding misc_track_None [of url 0, symmetric]
      by (cases "misc_file_title url"; cases "m_title md = []"; cases "m_track md = 0")
        (simp_all add: misc_ReadMetaData_def c_str_id [OF url] time misc_name_def)
  next
    case False
    then show ?thesis by (simp add: misc_ReadMetaData_def c_str_id [OF url] time misc_name_def)
  qed
qed

text \<open>
  Guessing from the name fills gaps only. Without the conversion of underscores, a title, a length or a track that is there is kept and
  nothing but these three is written, and then a file whose name is not empty, an HTTP and an RTP stream has a title.
\<close>

theorem misc_fills_gaps:
  assumes read: "misc_ReadMetaData decoders False url md = Some md'"
    and url: "CHR 0x00 \<notin> set url" and ext: "\<forall>ext. extension_of url = Some ext \<longrightarrow> length ext < 256"
  shows "(m_title md \<noteq> [] \<longrightarrow> m_title md' = m_title md) \<and> (m_time md \<noteq> 0 \<longrightarrow> m_time md' = m_time md) \<and>
      (m_track md \<noteq> 0 \<longrightarrow> m_track md' = m_track md) \<and>
      md' = md\<lparr>m_title := m_title md', m_time := m_time md', m_track := m_track md'\<rparr> \<and>
      ((if has_prefix_ci ''file://'' url then c_str (file_memory url) \<noteq> [] else has_prefix_ci ''http://'' url \<or> has_prefix_ci ''rtp://'' url) \<longrightarrow>
        m_title md' \<noteq> [])"
proof -
  obtain t where time: "misc_time decoders url md = Some (md\<lparr>m_time := t\<rparr>)" "m_time md \<noteq> 0 \<Longrightarrow> t = m_time md"
    using misc_time_some [OF ext] by blast
  have title: "misc_file_title url = Some u \<Longrightarrow> c_str (file_memory url) \<noteq> [] \<Longrightarrow> u \<noteq> []" for u
    by (auto simp: misc_file_title_def Let_def split: option.splits if_splits)
  obtain md1 where m1: "misc_name url (md\<lparr>m_time := t\<rparr>) = Some md1" and
    m': "Some md' = (if has_prefix_ci ''file://'' url \<and> m_track md1 = 0
      then map_option (\<lambda>t. md1\<lparr>m_track := t\<rparr>) (misc_track url (m_track md1)) else Some md1)"
    using read by (cases "misc_name url (md\<lparr>m_time := t\<rparr>)") (auto simp: misc_ReadMetaData_def c_str_id [OF url] time split: if_splits)
  have n: "md1 = md\<lparr>m_time := t, m_title := m_title md1\<rparr>" "m_title md \<noteq> [] \<Longrightarrow> m_title md1 = m_title md"
    "if has_prefix_ci ''file://'' url then c_str (file_memory url) \<noteq> [] else has_prefix_ci ''http://'' url \<or> has_prefix_ci ''rtp://'' url \<Longrightarrow> m_title md1 \<noteq> []"
    using m1 title by (auto simp: misc_name_def split: if_splits)
  have "\<exists>k. md' = md1\<lparr>m_track := k\<rparr> \<and> (m_track md1 \<noteq> 0 \<longrightarrow> k = m_track md1)"
  proof (cases "has_prefix_ci ''file://'' url \<and> m_track md1 = 0")
    case True
    then show ?thesis using m' by (cases "misc_track url (m_track md1)") auto
  next
    case False
    then have "md' = md1\<lparr>m_track := m_track md1\<rparr>" using m' by (auto split: if_splits)
    then show ?thesis by blast
  qed
  then obtain k where k: "md' = md1\<lparr>m_track := k\<rparr>" "m_track md1 \<noteq> 0 \<Longrightarrow> k = m_track md1" by blast
  have e: "md' = md\<lparr>m_time := t, m_title := m_title md1, m_track := k\<rparr>"
    using k(1) arg_cong [OF n(1), of "\<lambda>m. m\<lparr>m_track := k\<rparr>"] by (rule trans)
  have "m_track md1 = m_track md" using arg_cong [OF n(1), of m_track] by simp
  then show ?thesis using n(2,3) k(2) time(2) by (simp add: e)
qed

theorem misc_undefined_iff_witness: "misc_ReadMetaData Map.empty False ''file:///music/song.ogg'' new_metadata = None"
proof -
  have "extension_of ''file:///music/song.ogg'' = Some ''ogg''" "file_memory ''file:///music/song.ogg'' = ''song'' @ [CHR 0x00] @ ''ogg''"
    "has_prefix_ci ''file://'' ''file:///music/song.ogg''" by code_simp+
  then show ?thesis using misc_undefined_iff [of "''file:///music/song.ogg''" Map.empty new_metadata]
    by (simp add: new_metadata_def c_isdigit_def byte_of_def)
qed

theorem misc_fills_gaps_witness:
  "\<exists>md. misc_ReadMetaData Map.empty False ''file:///music/07 - Song.mp3'' new_metadata = Some md \<and> m_title md \<noteq> [] \<and> m_artist md = []"
proof -
  let ?url = "''file:///music/07 - Song.mp3''"
  have m: "file_memory ?url = ''07 - Song'' @ [CHR 0x00] @ ''mp3''" by code_simp
  have f: "extension_of ?url = Some ''mp3''" "c_str (file_memory ?url) = ''07 - Song''" "has_prefix_ci ''file://'' ?url" by code_simp+
  have "misc_ReadMetaData Map.empty False ?url new_metadata \<noteq> None"
    using misc_undefined_iff [of ?url Map.empty new_metadata] f m
    by (auto simp: new_metadata_def misc_file_title_def has_prefix_ci_def lower_byte_def byte_of_def c_isdigit_def)
  then obtain md where md: "misc_ReadMetaData Map.empty False ?url new_metadata = Some md" by blast
  have t: "m_artist md = m_artist (new_metadata\<lparr>m_title := m_title md, m_time := m_time md, m_track := m_track md\<rparr>)" "m_title md \<noteq> []"
    using misc_fills_gaps [OF md] f by auto
  show ?thesis using md t by (auto simp: new_metadata_def)
qed

end
