(* ===== verification/XmlParse.thy ===== *)
theory XmlParse
  imports Utility
begin

section \<open>The XML parser\<close>

text \<open>
  \<open>lib/xml/src/Parse.cpp\<close>. The parser takes its input apart with \<open>fscanf\<close> or \<open>sscanf\<close> and calls three virtual functions of the class
  derived from it. The formats it uses are lists of directives, whose meaning is that of the C library; the virtual
  functions are a record of functions on the state of the client. What the next iteration needs is a record, an iteration is a step,
  and the loop, which need not end, repeats it.
\<close>

subsection \<open>Formatted input\<close>

text \<open>White space, a character, \<open>%n[set]\<close>, \<open>%n\<close>.\<close>

datatype directive =
    Blank
  | Lit char
  | Conv nat "char \<Rightarrow> bool"
  | Count

text \<open>The texts converted, the value of \<open>%n\<close>, whether the input ended too early, what is left, and whether the end was met.\<close>

record scanned =
  sc_items :: "string list"
  sc_count :: "nat option"
  sc_short :: bool
  sc_left :: string
  sc_met_end :: bool

fun scan_format :: "directive list \<Rightarrow> nat \<Rightarrow> string \<Rightarrow> scanned" where
  "scan_format [] k s = \<lparr>sc_items = [], sc_count = None, sc_short = False, sc_left = s, sc_met_end = False\<rparr>"
| "scan_format (Blank # ds) k s =
     (let t = dropWhile c_isspace s; r = scan_format ds (k + (length s - length t)) t
      in r\<lparr>sc_met_end := sc_met_end r \<or> t = []\<rparr>)"
| "scan_format (Lit c # ds) k s = (case s of
       [] \<Rightarrow> \<lparr>sc_items = [], sc_count = None, sc_short = True, sc_left = [], sc_met_end = True\<rparr>
     | x # xs \<Rightarrow> if x = c then scan_format ds (Suc k) xs
         else \<lparr>sc_items = [], sc_count = None, sc_short = False, sc_left = s, sc_met_end = False\<rparr>)"
| "scan_format (Conv m P # ds) k s =
     (let w = takeWhile P (take m s); t = drop (length w) s
      in if s = [] then \<lparr>sc_items = [], sc_count = None, sc_short = True, sc_left = [], sc_met_end = True\<rparr>
         else if w = [] then \<lparr>sc_items = [], sc_count = None, sc_short = False, sc_left = s, sc_met_end = False\<rparr>
         else let r = scan_format ds (k + length w) t
           in r\<lparr>sc_items := w # sc_items r, sc_met_end := sc_met_end r \<or> t = [] \<and> length w < m\<rparr>)"
| "scan_format (Count # ds) k s = (scan_format ds k s)\<lparr>sc_count := Some k\<rparr>"

abbreviation sscanf :: "directive list \<Rightarrow> string \<Rightarrow> scanned" where
  "sscanf fmt s \<equiv> scan_format fmt 0 s"

definition alnum_or :: "char list \<Rightarrow> char \<Rightarrow> bool" where
  "alnum_or extra c \<longleftrightarrow> 65 \<le> byte_of c \<and> byte_of c \<le> 90 \<or> 97 \<le> byte_of c \<and> byte_of c \<le> 122 \<or> c_isdigit c \<or> c \<in> set extra"

abbreviation name_char :: "char \<Rightarrow> bool" where "name_char \<equiv> alnum_or '':_''"
abbreviation attr_char :: "char \<Rightarrow> bool" where "attr_char \<equiv> alnum_or '':''"

definition layout_char :: "char \<Rightarrow> bool" where
  "layout_char c \<longleftrightarrow> c \<in> {CHR 0x0A, CHR 0x09, CHR '' '', CHR 0x0D}"

text \<open>The formats \<open>" < %1024[^>] >"\<close>, \<open>" %4095[^<]"\<close>, \<open>" /%254[A-Za-z0-9:_]%n"\<close>, \<open>" %254[A-Za-z0-9:_] %n"\<close>.\<close>

definition element_format :: "directive list" where
  "element_format = [Blank, Lit (CHR ''<''), Blank, Conv 1024 (\<lambda>c. c \<noteq> CHR ''>''), Blank, Lit (CHR ''>'')]"

definition data_format :: "directive list" where
  "data_format = [Blank, Conv 4095 (\<lambda>c. c \<noteq> CHR ''<'')]"

definition end_format :: "directive list" where
  "end_format = [Blank, Lit (CHR ''/''), Conv 254 name_char, Count]"

definition name_format :: "directive list" where
  "name_format = [Blank, Conv 254 name_char, Blank, Count]"

text \<open>The two formats of an attribute; the second is for an empty value.\<close>

definition attr_format :: "directive list" where
  "attr_format = [Blank, Conv 254 attr_char, Blank, Lit (CHR ''=''), Blank, Lit (CHR 0x22), Conv 254 (\<lambda>c. c \<noteq> CHR 0x22), Blank, Lit (CHR 0x22), Count]"

definition empty_attr_format :: "directive list" where
  "empty_attr_format = [Blank, Conv 254 attr_char, Blank, Lit (CHR ''=''), Blank, Lit (CHR 0x22), Blank, Lit (CHR 0x22), Blank, Count]"

subsection \<open>The input\<close>

text \<open>A file, or a string of which a part is read.\<close>

record xml_source =
  src_file :: bool
  src_rest :: string
  src_met_end :: bool

text \<open>
  \<open>Scanf\<close>. Reading a file consumes what was matched; in a string the position moves only when the whole format was
  matched, because it is told by a \<open>%n\<close> at its end.
\<close>

definition xml_Scanf :: "directive list \<Rightarrow> xml_source \<Rightarrow> scanned \<times> xml_source" where
  "xml_Scanf fmt s =
     (if src_file s
      then let r = sscanf fmt (src_rest s) in (r, s\<lparr>src_rest := sc_left r, src_met_end := src_met_end s \<or> sc_met_end r\<rparr>)
      else let r = sscanf (fmt @ [Count]) (c_str (src_rest s))
        in (r, s\<lparr>src_rest := drop (case sc_count r of None \<Rightarrow> 0 | Some n \<Rightarrow> n) (src_rest s)\<rparr>))"

definition xml_Eof :: "xml_source \<Rightarrow> bool" where
  "xml_Eof s \<longleftrightarrow> (if src_file s then src_met_end s else src_rest s = [])"

subsection \<open>Entities\<close>

function replace_entity :: "string \<Rightarrow> char \<Rightarrow> string \<Rightarrow> string" where
  "replace_entity name c s = (case strstr (''&'' @ name @ '';'') s of None \<Rightarrow> s
     | Some pos \<Rightarrow> replace_entity name c (take pos s @ c # drop (pos + length name + 2) s))"
  by pat_completeness auto

lemma entity_found: "strstr pat s = Some n \<Longrightarrow> n \<le> length s \<and> has_prefix pat (drop n s)"
  by (induction s arbitrary: n) (auto simp: has_prefix_def split: if_splits)

lemma has_prefix_length: "has_prefix p s \<Longrightarrow> length p \<le> length s"
  unfolding has_prefix_def by (metis length_take min.cobounded1)

termination replace_entity
proof (relation "measure (\<lambda>(name, c, s). length s)")
  fix name s :: string and c pos
  assume "strstr (''&'' @ name @ '';'') s = Some pos"
  from entity_found [OF this] has_prefix_length have "length name + 2 \<le> length s - pos" "pos \<le> length s" by fastforce+
  then show "((name, c, take pos s @ c # drop (pos + length name + 2) s), name, c, s) \<in> measure (\<lambda>(name, c, s). length s)" by auto
qed simp

definition pEntities :: "(string \<times> char) list" where
  "pEntities = [(''amp'', CHR ''&''), (''lt'', CHR ''<''), (''gt'', CHR ''>''), (''apos'', CHR 0x27), (''quot'', CHR 0x22)]"

definition UnXMLize :: "string \<Rightarrow> string" where
  "UnXMLize oData = fold (\<lambda>(name, c) s. replace_entity name c s) pEntities oData"

definition CountNewlines :: "string \<Rightarrow> nat" where
  "CountNewlines s = length (filter (\<lambda>c. c = CHR 0x0A) s)"

subsection \<open>Attributes\<close>

text \<open>An attribute at the start of the text, with the number of characters read.\<close>

definition scan_attr :: "string \<Rightarrow> (string \<times> string \<times> nat) option" where
  "scan_attr s = (let r = sscanf attr_format s; r2 = sscanf empty_attr_format s
     in case (sc_items r, sc_count r) of
          ([name, val], Some n) \<Rightarrow> if n \<noteq> 0 then Some (name, val, n) else None
        | _ \<Rightarrow> (case (sc_items r2, sc_count r2) of
            ([name], Some n) \<Rightarrow> if n \<noteq> 0 then Some (name, [], n) else None
          | _ \<Rightarrow> None))"

text \<open>\<open>sscanf(s, " c%n", &n)\<close> with \<open>n > 0\<close>.\<close>

definition scan_mark :: "char \<Rightarrow> string \<Rightarrow> nat option" where
  "scan_mark c s = sc_count (sscanf [Blank, Lit c, Count] s)"

lemma scan_attr_pos: "scan_attr s = Some (name, val, n) \<Longrightarrow> 0 < n"
  by (auto simp: scan_attr_def Let_def split: list.splits option.splits if_splits)

function scan_attrs :: "bool \<Rightarrow> (string \<rightharpoonup> string) \<Rightarrow> string \<Rightarrow> (bool \<times> (string \<rightharpoonup> string)) option" where
  "scan_attrs bEmptyTag m s =
     (let slash = scan_mark (CHR ''/'') s; s = (case slash of None \<Rightarrow> s | Some n \<Rightarrow> drop n s);
          bEmptyTag = (bEmptyTag \<or> slash \<noteq> None)
      in if s = [] \<or> scan_mark (CHR ''>'') s \<noteq> None then Some (bEmptyTag, m)
         else case scan_attr s of None \<Rightarrow> None
           | Some (name, val, n) \<Rightarrow> scan_attrs bEmptyTag (m(name \<mapsto> val)) (drop n s))"
  by pat_completeness auto

termination scan_attrs
  by (relation "measure (\<lambda>(b, m, s). length s)") (auto dest: scan_attr_pos split: option.splits)

subsection \<open>The loop\<close>

text \<open>The virtual functions.\<close>

record 's sax =
  sax_BeginElement :: "string \<Rightarrow> (string \<rightharpoonup> string) \<Rightarrow> 's \<Rightarrow> (error \<times> 's) option"
  sax_EndElement :: "string \<Rightarrow> 's \<Rightarrow> (error \<times> 's) option"
  sax_PCData :: "string \<Rightarrow> 's \<Rightarrow> (error \<times> 's) option"

text \<open>
  \<open>szElement\<close> keeps the last element, \<open>szElementName\<close> what was last read into it, a name or white space; it has no value at first.
\<close>

record 's parser =
  p_source :: xml_source
  m_iErrorLine :: nat
  m_oLastError :: string
  p_first :: bool
  p_element :: string
  p_name :: "string option"
  p_client :: 's

text \<open>The result of an iteration: the parser, and the value of \<open>DoParse\<close> when it is over.\<close>

definition xml_called :: "'s parser \<Rightarrow> (error \<times> 's) option \<Rightarrow> ('s parser \<times> error option) option" where
  "xml_called p call = map_option (\<lambda>(err, c). (p\<lparr>p_client := c\<rparr>, if IsError err then Some kError_ParseError else None)) call"

text \<open>Text outside of tags.\<close>

definition xml_data :: "'s sax \<Rightarrow> 's parser \<Rightarrow> ('s parser \<times> error option) option" where
  "xml_data h p = (let (r, src) = xml_Scanf data_format (p_source p); p = p\<lparr>p_source := src\<rparr>
     in case sc_items r of
          [] \<Rightarrow> Some (p\<lparr>m_oLastError := ''Unrecognized characters found''\<rparr>, Some kError_ParseError)
        | w # _ \<Rightarrow> xml_called (p\<lparr>m_iErrorLine := m_iErrorLine p + CountNewlines (c_str w)\<rparr>)
            (sax_PCData h (UnXMLize (c_str w)) (p_client p)))"

text \<open>A start tag, or what is taken for one: without a name the last one stays, and its length is where the attributes begin.\<close>

definition xml_begin :: "'s sax \<Rightarrow> 's parser \<Rightarrow> ('s parser \<times> error option) option" where
  "xml_begin h p = do {
     let e = p_element p;
     let r = sscanf name_format e;
     (name, offset) \<leftarrow> (case (sc_items r, sc_count r) of
         ([n], Some k) \<Rightarrow> Some (n, k)
       | _ \<Rightarrow> do { n \<leftarrow> p_name p; if length n \<le> length e then Some (n, length n) else None });
     let p = p\<lparr>p_name := Some name\<rparr>;
     case scan_attrs False Map.empty (drop offset e) of
       None \<Rightarrow> Some (p\<lparr>m_oLastError := ''Improperly formatted attribute list''\<rparr>, Some kError_ParseError)
     | Some (bEmptyTag, attrs) \<Rightarrow> do {
         (p, over) \<leftarrow> xml_called p (sax_BeginElement h name attrs (p_client p));
         if bEmptyTag \<and> over = None then xml_called p (sax_EndElement h name (p_client p)) else Some (p, over)
       }
   }"

text \<open>
  The white space behind a tag goes into the 255 characters of \<open>szElementName\<close>, without a limit. A comment is passed over up to its first \<open>>\<close>; its
  first exclamation marks and hyphens go into ten characters.
\<close>

definition xml_skip_layout :: "'s parser \<Rightarrow> 's parser option" where
  "xml_skip_layout p = (let (r, src) = xml_Scanf [Conv (Suc (length (src_rest (p_source p)))) layout_char] (p_source p);
       p = p\<lparr>p_source := src\<rparr>
     in case sc_items r of [] \<Rightarrow> Some p
        | w # _ \<Rightarrow> if 255 \<le> length w then None
            else Some (p\<lparr>p_name := Some w, m_iErrorLine := m_iErrorLine p + CountNewlines w\<rparr>))"

definition xml_tag :: "'s sax \<Rightarrow> 's parser \<Rightarrow> ('s parser \<times> error option) option" where
  "xml_tag h p = do {
     p \<leftarrow> xml_skip_layout p;
     let e = p_element p;
     case sc_items (sscanf end_format e) of
       name # _ \<Rightarrow> xml_called (p\<lparr>p_name := Some name\<rparr>) (sax_EndElement h name (p_client p))
     | [] \<Rightarrow> (let marks = takeWhile (\<lambda>c. c = CHR ''!'' \<or> c = CHR ''-'') e
         in if e = [] \<or> marks \<noteq> [] then (if 10 \<le> length marks then None else Some (p, None))
            else xml_begin h p)
   }"

definition xml_step :: "'s sax \<Rightarrow> 's parser \<Rightarrow> ('s parser \<times> error option) option" where
  "xml_step h p =
     (let (r, src) = xml_Scanf element_format (p_source p); first = p_first p;
          p = p\<lparr>m_iErrorLine := m_iErrorLine p + CountNewlines (p_element p), p_source := src, p_first := False\<rparr>
      in case sc_items r of
           [] \<Rightarrow> if xml_Eof src then Some (p, Some kError_NoErr) else xml_data h p
         | w # _ \<Rightarrow> (let e = c_str w; p = p\<lparr>p_element := e\<rparr>
             in if first \<and> e \<noteq> [] \<and> hd e = CHR ''?'' \<and> last e = CHR ''?'' then Some (p, None) else xml_tag h p))"

partial_function (option) xml_DoParse :: "'s sax \<Rightarrow> 's parser \<Rightarrow> (error \<times> 's parser) option" where
  "xml_DoParse h p = do {
     (p, over) \<leftarrow> xml_step h p;
     case over of Some err \<Rightarrow> Some (err, p) | None \<Rightarrow> xml_DoParse h p
   }"

subsection \<open>The calls\<close>

definition xml_new :: "'s \<Rightarrow> 's parser" where
  "xml_new c = \<lparr>p_source = \<lparr>src_file = False, src_rest = [], src_met_end = False\<rparr>, m_iErrorLine = 1, m_oLastError = [],
     p_first = True, p_element = [], p_name = None, p_client = c\<rparr>"

definition xml_open :: "bool \<Rightarrow> string \<Rightarrow> 's parser \<Rightarrow> 's parser" where
  "xml_open is_file text p = p\<lparr>p_source := \<lparr>src_file = is_file, src_rest = text, src_met_end = False\<rparr>, p_first := True,
     p_element := [], p_name := None\<rparr>"

definition xml_ParseString :: "'s sax \<Rightarrow> string \<Rightarrow> 's parser \<Rightarrow> (error \<times> 's parser) option" where
  "xml_ParseString h oXML p = xml_DoParse h (xml_open False oXML p)"

definition xml_ParseFile :: "'s sax \<Rightarrow> (string \<rightharpoonup> string) \<Rightarrow> string \<Rightarrow> 's parser \<Rightarrow> (error \<times> 's parser) option" where
  "xml_ParseFile h files oFile p = (case files (c_str oFile) of
       None \<Rightarrow> Some (kError_FileNotFound, p\<lparr>m_oLastError := ''File '' @ oFile @ '' not found''\<rparr>)
     | Some text \<Rightarrow> xml_DoParse h (xml_open True text p))"

definition xml_GetErrorString :: "'s parser \<Rightarrow> string" where
  "xml_GetErrorString p = c_str (m_oLastError p) @ '' on line '' @ decimal (m_iErrorLine p - 1) @ ''.''"

end
