(* ===== verification/XmlRead.thy ===== *)
theory XmlRead
  imports XmlParse
begin

section \<open>What the XML parser reads\<close>

text \<open>
  The entities are decoded, a text of tags and data is read as the calls it stands for, whatever class is derived from the parser, and
  an unfinished tag in a string keeps the parser busy for ever.
\<close>

subsection \<open>Searching\<close>

lemma has_prefix_Cons [simp]: "has_prefix (c # p) (d # s) \<longleftrightarrow> c = d \<and> has_prefix p s"
  by (auto simp: has_prefix_def)

lemma has_prefix_Nil [simp]: "has_prefix [] s" "has_prefix (c # p) [] \<longleftrightarrow> False"
  by (simp_all add: has_prefix_def)

lemma has_prefix_append_same [simp]: "has_prefix (p @ q) (p @ s) = has_prefix q s"
  by (induction p) auto

lemma has_prefix_self [simp]: "has_prefix p (p @ s)"
  using has_prefix_append_same [of p "[]" s] by simp

lemma entity_first:
  "has_prefix pat (drop n s) \<Longrightarrow> \<forall>i < n. \<not> has_prefix pat (drop i s) \<Longrightarrow> n \<le> length s \<Longrightarrow> pat \<noteq> [] \<Longrightarrow> strstr pat s = Some n"
proof (induction s arbitrary: n)
  case Nil
  then show ?case by (cases pat) auto
next
  case (Cons c s)
  show ?case
  proof (cases n)
    case 0
    then show ?thesis using Cons.prems by simp
  next
    case (Suc m)
    have "\<forall>i < m. \<not> has_prefix pat (drop i s)" using Cons.prems(2) Suc by (metis Suc_less_eq drop_Suc_Cons)
    then show ?thesis using Cons.IH [of m] Cons.prems Suc by force
  qed
qed

lemma strstr_None: "pat \<noteq> [] \<Longrightarrow> strstr pat s = None \<longleftrightarrow> (\<forall>i. \<not> has_prefix pat (drop i s))"
proof (induction s)
  case Nil
  then show ?case by (cases pat) auto
next
  case (Cons c s)
  have "(\<forall>i. \<not> has_prefix pat (drop i (c # s))) \<longleftrightarrow> \<not> has_prefix pat (c # s) \<and> (\<forall>i. \<not> has_prefix pat (drop i s))"
    by (metis drop0 drop_Suc_Cons not0_implies_Suc)
  then show ?case using Cons by auto
qed

subsection \<open>Entities\<close>

declare replace_entity.simps [simp del]

definition encode :: "(char \<rightharpoonup> string) \<Rightarrow> string \<Rightarrow> string" where
  "encode E s = concat (map (\<lambda>c. case E c of None \<Rightarrow> [c] | Some name \<Rightarrow> ''&'' @ name @ '';'') s)"

lemma encode_simps [simp]:
  "encode E [] = []" "encode E (c # s) = (case E c of None \<Rightarrow> [c] | Some name \<Rightarrow> ''&'' @ name @ '';'') @ encode E s"
  "encode E (s @ t) = encode E s @ encode E t"
  by (simp_all add: encode_def)

definition letter :: "char \<Rightarrow> bool" where
  "letter c \<longleftrightarrow> 97 \<le> byte_of c \<and> byte_of c \<le> 122"

lemma letter_consts [simp]: "\<not> letter (CHR '';'')" "\<not> letter (CHR ''&'')"
  by (simp_all add: letter_def byte_of_def)

definition entities_ok :: "(char \<rightharpoonup> string) \<Rightarrow> bool" where
  "entities_ok E \<longleftrightarrow> (\<forall>c name. E c = Some name \<longrightarrow> (\<forall>x \<in> set name. letter x)) \<and> inj_on E (dom E) \<and> (\<forall>c \<in> dom E. \<not> letter c \<and> c \<noteq> CHR '';'')"

definition plain :: "(char \<rightharpoonup> string) \<Rightarrow> string \<Rightarrow> bool" where
  "plain E w \<longleftrightarrow> (\<forall>x \<in> set w. x \<notin> dom E \<and> x \<noteq> CHR ''&'')"

lemma plain_name: "entities_ok E \<Longrightarrow> \<forall>x \<in> set name. letter x \<Longrightarrow> plain E (name @ '';'')"
  by (auto simp: plain_def entities_ok_def)

lemma prefix_encode: "plain E w \<Longrightarrow> has_prefix w (encode E s) \<Longrightarrow> has_prefix w s"
proof (induction w arbitrary: s)
  case (Cons x w)
  then obtain y t where s: "s = y # t" by (cases s) auto
  have "E y = None" using Cons.prems s by (cases "E y") (auto simp: plain_def)
  then show ?case using Cons s by (auto simp: plain_def)
qed simp

lemma prefix_encode_mixed:
  "plain E w \<Longrightarrow> plain E' w \<Longrightarrow> has_prefix w (encode E' p @ encode E q) \<Longrightarrow> has_prefix w (p @ q)"
proof (induction p arbitrary: w)
  case Nil
  then show ?case using prefix_encode [of E w q] by simp
next
  case (Cons y p)
  show ?case
  proof (cases w)
    case (Cons x w')
    have y: "E' y = None" using Cons.prems(2,3) Cons by (cases "E' y") (auto simp: plain_def)
    have "plain E w'" "plain E' w'" using Cons.prems(1,2) Cons by (simp_all add: plain_def)
    moreover have "x = y" "has_prefix w' (encode E' p @ encode E q)" using Cons.prems(3) Cons y by simp_all
    ultimately show ?thesis using Cons Cons.IH [of w'] by simp
  qed simp
qed

lemma prefix_names: "\<forall>x \<in> set a. letter x \<Longrightarrow> \<forall>x \<in> set b. letter x \<Longrightarrow> has_prefix (a @ '';'') (b @ CHR '';'' # s) \<Longrightarrow> a = b"
proof (induction a arbitrary: b)
  case Nil
  then show ?case by (cases b) auto
next
  case (Cons x a)
  then show ?case by (cases b) auto
qed

lemma no_early:
  assumes E: "entities_ok E" "E c = Some name" and E': "E' = E(c := None)"
  shows "strstr (''&'' @ name @ '';'') (p @ q) = None \<Longrightarrow> i < length (encode E' p) \<Longrightarrow>
    \<not> has_prefix (''&'' @ name @ '';'') (drop i (encode E' p @ encode E q))"
proof (induction p arbitrary: i)
  case (Cons y p)
  have n: "\<forall>x \<in> set name. letter x" using E by (simp add: entities_ok_def)
  have ok': "entities_ok E'" using E(1) unfolding E' entities_ok_def by (auto simp: inj_on_def dom_def)
  have none: "\<forall>i. \<not> has_prefix (''&'' @ name @ '';'') (drop i (y # p @ q))" using Cons.prems(1) by (subst strstr_None [symmetric]) simp_all
  then have IH: "j < length (encode E' p) \<Longrightarrow> \<not> has_prefix (''&'' @ name @ '';'') (drop j (encode E' p @ encode E q))" for j
    using Cons.IH [of j] by (subst (asm) strstr_None) (auto dest: spec [of _ "Suc i" for i])
  show ?case
  proof (cases "E' y")
    case None
    show ?thesis
    proof (cases i)
      case 0
      have "\<not> (y = CHR ''&'' \<and> has_prefix (name @ '';'') (p @ q))" using none [rule_format, of 0] by auto
      then show ?thesis using 0 None prefix_encode_mixed [OF plain_name [OF E(1) n] plain_name [OF ok' n], of p q] by auto
    next
      case (Suc j)
      then show ?thesis using IH [of j] Cons.prems(2) None by simp
    qed
  next
    case (Some m)
    have m: "\<forall>x \<in> set m. letter x" "m \<noteq> name" using Some E E' by (auto simp: entities_ok_def inj_on_def dom_def split: if_splits)
    define block where "block = CHR ''&'' # m @ '';''"
    have enc: "encode E' (y # p) = block @ encode E' p" using Some by (simp add: block_def)
    show ?thesis
    proof (cases "i < length block")
      case True
      show ?thesis
      proof (cases i)
        case 0
        have "\<not> has_prefix (name @ '';'') (m @ CHR '';'' # encode E' p @ encode E q)" using prefix_names [OF n m(1)] m(2) by blast
        then show ?thesis using 0 unfolding enc by (simp add: block_def)
      next
        case (Suc j)
        have "block ! i \<noteq> CHR ''&''"
          using True m(1) Suc by (auto simp: block_def nth_append dest!: bspec [OF _ nth_mem] split: if_splits)
        moreover have "drop i (block @ encode E' p @ encode E q) = block ! i # drop (Suc i) (block @ encode E' p @ encode E q)"
          using True by (simp add: Cons_nth_drop_Suc [symmetric] nth_append)
        ultimately show ?thesis unfolding enc by simp
      qed
    next
      case False
      then show ?thesis using IH [of "i - length block"] Cons.prems(2) unfolding enc by simp
    qed
  qed
qed simp

lemma replace_encoded:
  assumes E: "entities_ok E" "E c = Some name" and E': "E' = E(c := None)"
  shows "strstr (''&'' @ name @ '';'') (p @ q) = None \<Longrightarrow> replace_entity name c (encode E' p @ encode E q) = encode E' (p @ q)"
proof (induction q arbitrary: p)
  case Nil
  let ?pat = "''&'' @ name @ '';''"
  have "\<not> has_prefix ?pat (drop i (encode E' p))" for i
    using no_early [OF assms, of p "[]" i] Nil by (cases "i < length (encode E' p)") auto
  then have "strstr ?pat (encode E' p) = None" by (subst strstr_None) auto
  then show ?case by (subst replace_entity.simps) simp
next
  case (Cons x q)
  show ?case
  proof (cases "x = c")
    case False
    then have "encode E (x # q) = encode E' [x] @ encode E q" by (simp add: E')
    then show ?thesis using Cons.IH [of "p @ [x]"] Cons.prems by simp
  next
    case True
    let ?pat = "''&'' @ name @ '';''"
    let ?s = "encode E' p @ encode E (x # q)"
    have "encode E (x # q) = ?pat @ encode E q" using True E(2) by simp
    then have "strstr ?pat ?s = Some (length (encode E' p))"
      using no_early [OF assms, of p "x # q"] Cons.prems by (intro entity_first) auto
    then have "replace_entity name c ?s = replace_entity name c (encode E' p @ c # encode E q)"
      using True E(2) by (subst replace_entity.simps) simp
    also have "encode E' p @ c # encode E q = encode E' (p @ [x]) @ encode E q" using True by (simp add: E')
    finally show ?thesis using Cons.IH [of "p @ [x]"] Cons.prems by simp
  qed
qed

definition entity_of :: "char \<rightharpoonup> string" where
  "entity_of = map_of (map (\<lambda>(name, c). (c, name)) pEntities)"

definition xml_escape :: "string \<Rightarrow> string" where
  "xml_escape s = encode entity_of s"

definition no_entity :: "string \<Rightarrow> bool" where
  "no_entity s \<longleftrightarrow> (\<forall>(name, c) \<in> set pEntities. strstr (''&'' @ name @ '';'') s = None)"

lemma entity_of_ok: "entities_ok entity_of"
  by (auto simp: entities_ok_def entity_of_def pEntities_def letter_def inj_on_def byte_of_def split: if_splits)

lemma entities_ok_less: "entities_ok E \<Longrightarrow> entities_ok (E(c := None))"
  by (auto simp: entities_ok_def inj_on_def dom_def)

text \<open>
  Decoding undoes the escaping of the five special characters, for every text that does not itself contain one of the
  entities. (A text with an entity in it is decoded twice, because the results of a replacement are searched again.)
\<close>

theorem UnXMLize_escape:
  assumes "no_entity s"
  shows "UnXMLize (xml_escape s) = s"
proof -
  have step: "replace_entity name c (encode E s) = encode (E(c := None)) s"
    if "entities_ok E" "E c = Some name" "strstr (''&'' @ name @ '';'') s = None" for E name c
    using replace_encoded [OF that(1,2) refl, of "[]" s] that(3) by simp
  define E1 where "E1 = entity_of(CHR ''&'' := None)"
  define E2 where "E2 = E1(CHR ''<'' := None)"
  define E3 where "E3 = E2(CHR ''>'' := None)"
  define E4 where "E4 = E3(CHR 0x27 := None)"
  note ok = entity_of_ok
  have ok1: "entities_ok E1" unfolding E1_def by (rule entities_ok_less [OF ok])
  have ok2: "entities_ok E2" unfolding E2_def by (rule entities_ok_less [OF ok1])
  have ok3: "entities_ok E3" unfolding E3_def by (rule entities_ok_less [OF ok2])
  have ok4: "entities_ok E4" unfolding E4_def by (rule entities_ok_less [OF ok3])
  have none: "strstr ''&amp;'' s = None" "strstr ''&lt;'' s = None" "strstr ''&gt;'' s = None" "strstr ''&apos;'' s = None" "strstr ''&quot;'' s = None"
    using assms by (simp_all add: no_entity_def pEntities_def)
  have a: "replace_entity ''amp'' (CHR ''&'') (xml_escape s) = encode E1 s"
    unfolding xml_escape_def E1_def by (rule step [OF ok]) (use none in \<open>simp_all add: entity_of_def pEntities_def\<close>)
  have b: "replace_entity ''lt'' (CHR ''<'') (encode E1 s) = encode E2 s"
    unfolding E2_def by (rule step [OF ok1]) (use none in \<open>simp_all add: E1_def entity_of_def pEntities_def\<close>)
  have c: "replace_entity ''gt'' (CHR ''>'') (encode E2 s) = encode E3 s"
    unfolding E3_def by (rule step [OF ok2]) (use none in \<open>simp_all add: E2_def E1_def entity_of_def pEntities_def\<close>)
  have d: "replace_entity ''apos'' (CHR 0x27) (encode E3 s) = encode E4 s"
    unfolding E4_def by (rule step [OF ok3]) (use none in \<open>simp_all add: E3_def E2_def E1_def entity_of_def pEntities_def\<close>)
  have e: "replace_entity ''quot'' (CHR 0x22) (encode E4 s) = encode (E4(CHR 0x22 := None)) s"
    by (rule step [OF ok4]) (use none in \<open>simp_all add: E4_def E3_def E2_def E1_def entity_of_def pEntities_def\<close>)
  have "E4(CHR 0x22 := None) = Map.empty" by (auto simp: E4_def E3_def E2_def E1_def entity_of_def pEntities_def)
  then have "encode (E4(CHR 0x22 := None)) s = s" by (induction s) simp_all
  then show ?thesis using a b c d e by (simp add: UnXMLize_def pEntities_def)
qed

theorem UnXMLize_escape_witness: "UnXMLize (xml_escape ''AT&T <rocks>'') = ''AT&T <rocks>''"
proof -
  have "no_entity ''AT&T <rocks>''" by code_simp
  then show ?thesis by (rule UnXMLize_escape)
qed

end
