(* ===== verification/XmlTokens.thy ===== *)
theory XmlTokens
  imports XmlRead
begin

section \<open>Reading a text of tags and data\<close>

text \<open>
  A document is a list of tags and pieces of text, each tag with the layout behind it. Parsing what is printed for it is calling the virtual
  functions for one after the other. The parser does not look at how the tags are nested, and neither does this.
\<close>

datatype token =
    TBegin string "(string \<times> string) list"
  | TEmpty string "(string \<times> string) list"
  | TEnd string
  | TText string

definition attr_tail :: "string \<times> string \<Rightarrow> string" where
  "attr_tail a = fst a @ ''='' @ [CHR 0x22] @ snd a @ [CHR 0x22]"

definition print_attrs :: "(string \<times> string) list \<Rightarrow> string" where
  "print_attrs as = concat (map (\<lambda>a. CHR '' '' # attr_tail a) as)"

fun tag_body :: "token \<Rightarrow> string" where
  "tag_body (TBegin name as) = name @ print_attrs as"
| "tag_body (TEmpty name as) = name @ print_attrs as @ ''/''"
| "tag_body (TEnd name) = CHR ''/'' # name"
| "tag_body (TText s) = []"

fun print_token :: "token \<times> string \<Rightarrow> string" where
  "print_token (TText s, layout) = xml_escape s"
| "print_token (t, layout) = CHR ''<'' # tag_body t @ CHR ''>'' # layout"

definition print_tokens :: "(token \<times> string) list \<Rightarrow> string" where
  "print_tokens ts = concat (map print_token ts)"

definition attr_map :: "(string \<times> string) list \<Rightarrow> string \<rightharpoonup> string" where
  "attr_map as = fold (\<lambda>(k, v) m. m(k \<mapsto> v)) as Map.empty"

datatype sax_call =
    Begin string "string \<rightharpoonup> string"
  | End string
  | Data string

fun token_calls :: "token \<Rightarrow> sax_call list" where
  "token_calls (TBegin name as) = [Begin name (attr_map as)]"
| "token_calls (TEmpty name as) = [Begin name (attr_map as), End name]"
| "token_calls (TEnd name) = [End name]"
| "token_calls (TText s) = [Data s]"

fun sax_do :: "'s sax \<Rightarrow> sax_call \<Rightarrow> 's \<Rightarrow> (error \<times> 's) option" where
  "sax_do h (Begin name attrs) s = sax_BeginElement h name attrs s"
| "sax_do h (End name) s = sax_EndElement h name s"
| "sax_do h (Data d) s = sax_PCData h d s"

text \<open>The calls one after the other, up to the first error.\<close>

fun sax_run :: "'s sax \<Rightarrow> sax_call list \<Rightarrow> 's \<Rightarrow> (error \<times> 's) option" where
  "sax_run h [] s = Some (kError_NoErr, s)"
| "sax_run h (e # es) s = do { (err, s) \<leftarrow> sax_do h e s; if IsError err then Some (kError_ParseError, s) else sax_run h es s }"

definition name_ok :: "string \<Rightarrow> bool" where
  "name_ok n \<longleftrightarrow> n \<noteq> [] \<and> length n \<le> 254 \<and> (\<forall>c \<in> set n. name_char c)"

definition attr_ok :: "string \<times> string \<Rightarrow> bool" where
  "attr_ok a \<longleftrightarrow> fst a \<noteq> [] \<and> length (fst a) \<le> 254 \<and> (\<forall>c \<in> set (fst a). attr_char c) \<and> length (snd a) \<le> 254 \<and>
     (\<forall>c \<in> set (snd a). c \<notin> {CHR 0x22, CHR ''>'', CHR 0x00})"

fun token_ok :: "token \<Rightarrow> bool" where
  "token_ok (TBegin name as) \<longleftrightarrow> name_ok name \<and> (\<forall>a \<in> set as. attr_ok a) \<and> length (tag_body (TBegin name as)) \<le> 1024"
| "token_ok (TEmpty name as) \<longleftrightarrow> name_ok name \<and> (\<forall>a \<in> set as. attr_ok a) \<and> length (tag_body (TEmpty name as)) \<le> 1024"
| "token_ok (TEnd name) \<longleftrightarrow> name_ok name"
| "token_ok (TText s) \<longleftrightarrow> s \<noteq> [] \<and> \<not> c_isspace (hd s) \<and> CHR 0x00 \<notin> set s \<and> no_entity s \<and> length (xml_escape s) \<le> 4095"

definition layout_ok :: "string \<Rightarrow> bool" where
  "layout_ok w \<longleftrightarrow> length w < 255 \<and> (\<forall>c \<in> set w. layout_char c)"

fun tokens_ok :: "(token \<times> string) list \<Rightarrow> bool" where
  "tokens_ok [] \<longleftrightarrow> True"
| "tokens_ok ((t, layout) # ts) \<longleftrightarrow> token_ok t \<and> layout_ok layout \<and> tokens_ok ts \<and>
     (case (t, ts) of (TText s, (TText s', layout') # ts') \<Rightarrow> False | _ \<Rightarrow> True)"

subsection \<open>Single conversions\<close>

lemma scan_Lit [simp]: "scan_format (Lit c # ds) k (c # s) = scan_format ds (Suc k) s"
  by simp

lemma scan_Blank: "s = [] \<or> \<not> c_isspace (hd s) \<Longrightarrow> scan_format (Blank # ds) k s = (let r = scan_format ds k s in r\<lparr>sc_met_end := sc_met_end r \<or> s = []\<rparr>)"
  by (cases s) (simp_all add: Let_def)

lemma scan_Conv:
  assumes "w \<noteq> []" and "\<forall>c \<in> set w. P c" and "length w \<le> m" and "rest = [] \<or> \<not> P (hd rest)"
  shows "scan_format (Conv m P # ds) k (w @ rest) = (let r = scan_format ds (k + length w) rest
    in r\<lparr>sc_items := w # sc_items r, sc_met_end := sc_met_end r \<or> rest = [] \<and> length w < m\<rparr>)"
proof -
  have "takeWhile P (take m (w @ rest)) = w"
    using assms by (cases rest; cases "m - length w") (simp_all add: takeWhile_append2 takeWhile_eq_all_conv [THEN iffD2])
  then show ?thesis using assms(1) by (simp add: Let_def)
qed

lemma scan_Conv_fail: "s = [] \<or> \<not> P (hd s) \<Longrightarrow> sc_items (scan_format (Conv m P # ds) k s) = []"
  by (cases s; cases m) (simp_all add: Let_def)

declare scan_format.simps(2,4) [simp del]

lemma alnum_not_special:
  "name_char c \<Longrightarrow> \<not> c_isspace c \<and> c \<noteq> CHR ''>'' \<and> c \<noteq> CHR ''/'' \<and> c \<noteq> CHR ''?'' \<and> c \<noteq> CHR ''!'' \<and> c \<noteq> CHR ''-'' \<and> c \<noteq> CHR 0x00 \<and> c \<noteq> CHR ''=''"
  by (auto simp: alnum_or_def c_isspace_def c_isdigit_def byte_of_def)

lemma attr_name_char: "attr_char c \<Longrightarrow> name_char c"
  by (auto simp: alnum_or_def)

lemma not_attr_chars [simp]: "\<not> attr_char (CHR ''='')" "\<not> attr_char (CHR '' '')" "\<not> name_char (CHR '' '')" "\<not> name_char (CHR ''/'')" "\<not> name_char (CHR ''>'')"
  by (simp_all add: alnum_or_def c_isdigit_def byte_of_def)

lemma space_consts [simp]: "\<not> c_isspace (CHR ''='')" "\<not> c_isspace (CHR ''/'')" "\<not> c_isspace (CHR ''<'')" "\<not> c_isspace (CHR ''>'')" "\<not> c_isspace (CHR ''&'')"
  by (simp_all add: c_isspace_def byte_of_def)

subsection \<open>Attributes\<close>

declare scan_attrs.simps [simp del]

lemma scan_Blank_space: "s = [] \<or> \<not> c_isspace (hd s) \<Longrightarrow> scan_format (Blank # ds) k (CHR '' '' # s) =
   (let r = scan_format ds (Suc k) s in r\<lparr>sc_met_end := sc_met_end r \<or> s = []\<rparr>)"
  by (cases s) (simp_all add: Let_def scan_format.simps)

lemma scan_attr_full:
  assumes a: "attr_ok a" and sp: "sp = [] \<or> sp = '' ''" and v: "snd a \<noteq> []"
  shows "scan_attr (sp @ attr_tail a @ rest) = Some (fst a, snd a, length sp + length (attr_tail a))"
proof -
  have k: "fst a \<noteq> []" "\<forall>c \<in> set (fst a). attr_char c" "length (fst a) \<le> 254" "length (snd a) \<le> 254"
    "\<forall>c \<in> set (snd a). c \<noteq> CHR 0x22" using a by (auto simp: attr_ok_def)
  have sp': "\<not> c_isspace (hd (fst a))" using k(1,2) alnum_not_special [OF attr_name_char] by (cases "fst a") auto
  let ?s = "fst a @ CHR ''='' # CHR 0x22 # snd a @ CHR 0x22 # rest"
  have conv: "sc_items (scan_format (tl attr_format) n ?s) = [fst a, snd a] \<and>
      sc_count (scan_format (tl attr_format) n ?s) = Some (n + length (attr_tail a))" for n
    using k v by (simp add: attr_format_def scan_Conv scan_Blank Let_def attr_tail_def)
  have "sscanf attr_format (sp @ ?s) = (let r = scan_format (tl attr_format) (length sp) ?s in r\<lparr>sc_met_end := sc_met_end r \<or> ?s = []\<rparr>)"
    using sp sp' k(1) by (auto simp: attr_format_def scan_Blank scan_Blank_space)
  then show ?thesis using conv [of "length sp"] k(1) by (simp add: scan_attr_def Let_def attr_tail_def)
qed

lemma scan_attr_empty:
  assumes a: "attr_ok a" and sp: "sp = [] \<or> sp = '' ''" and v: "snd a = []"
  shows "\<exists>n. scan_attr (sp @ attr_tail a @ rest) = Some (fst a, [], n) \<and> drop n (sp @ attr_tail a @ rest) = dropWhile c_isspace rest"
proof -
  have k: "fst a \<noteq> []" "\<forall>c \<in> set (fst a). attr_char c" "length (fst a) \<le> 254" using a by (auto simp: attr_ok_def)
  have sp': "\<not> c_isspace (hd (fst a))" using k(1,2) alnum_not_special [OF attr_name_char] by (cases "fst a") auto
  let ?s = "fst a @ CHR ''='' # CHR 0x22 # CHR 0x22 # rest"
  have s: "sp @ attr_tail a @ rest = sp @ ?s" by (simp add: attr_tail_def v)
  have full: "sc_items (scan_format (tl attr_format) n ?s) = [fst a]" for n
    using k by (simp add: attr_format_def scan_Conv scan_Blank scan_Conv_fail Let_def)
  have empty: "sc_items (scan_format (tl empty_attr_format) n ?s) = [fst a] \<and>
      sc_count (scan_format (tl empty_attr_format) n ?s) = Some (n + length (fst a) + 3 + (length rest - length (dropWhile c_isspace rest)))" for n
    using k by (simp add: empty_attr_format_def scan_Conv scan_Blank Let_def scan_format.simps(2))
  have blank: "sscanf (Blank # ds) (sp @ ?s) = (let r = scan_format ds (length sp) ?s in r\<lparr>sc_met_end := sc_met_end r \<or> ?s = []\<rparr>)" for ds
    using sp sp' k(1) by (auto simp: scan_Blank scan_Blank_space)
  have a1: "sc_items (sscanf attr_format (sp @ ?s)) = [fst a]"
    using full [of "length sp"] blank [of "tl attr_format"] by (simp add: attr_format_def Let_def)
  have a2: "sc_items (sscanf empty_attr_format (sp @ ?s)) = [fst a]"
    "sc_count (sscanf empty_attr_format (sp @ ?s)) = Some (length sp + length (fst a) + 3 + (length rest - length (dropWhile c_isspace rest)))"
    using empty [of "length sp"] blank [of "tl empty_attr_format"] by (simp_all add: empty_attr_format_def Let_def)
  have "drop (length rest - length (dropWhile c_isspace rest)) rest = dropWhile c_isspace rest"
    by (metis append_eq_conv_conj length_append add_diff_cancel_right' takeWhile_dropWhile_id)
  then show ?thesis unfolding s by (simp add: scan_attr_def a1 a2 numeral_3_eq_3)
qed

lemma scan_mark_None:
  assumes "sp = [] \<or> sp = '' ''" and "\<not> c_isspace x" and "x \<noteq> c"
  shows "scan_mark c (sp @ x # s) = None"
  using assms by (auto simp: scan_mark_def scan_Blank scan_Blank_space Let_def)

text \<open>What is left of the attributes, the first with or without a space in front of it, and a slash at the end or not.\<close>

fun attrs_left :: "string \<Rightarrow> string \<Rightarrow> (string \<times> string) list \<Rightarrow> string" where
  "attrs_left sp slash [] = slash"
| "attrs_left sp slash (a # as) = sp @ attr_tail a @ print_attrs as @ slash"

lemma print_attrs_left: "print_attrs as @ slash = attrs_left '' '' slash as"
  by (cases as) (simp_all add: print_attrs_def)

lemma attrs_left_dropWhile:
  assumes "slash = [] \<or> slash = ''/''" and "\<forall>a \<in> set as. attr_ok a"
  shows "dropWhile c_isspace (attrs_left '' '' slash as) = attrs_left [] slash as"
proof (cases as)
  case Nil
  then show ?thesis using assms(1) by auto
next
  case (Cons a as')
  then obtain x xs where "fst a = x # xs" "attr_char x" using assms(2) by (cases "fst a") (auto simp: attr_ok_def)
  then show ?thesis using Cons alnum_not_special [OF attr_name_char] by (auto simp: attr_tail_def)
qed

lemma scan_attrs_list:
  "\<forall>a \<in> set as. attr_ok a \<Longrightarrow> sp = [] \<or> sp = '' '' \<Longrightarrow> slash = [] \<or> slash = ''/'' \<Longrightarrow>
   scan_attrs b m (attrs_left sp slash as) = Some (b \<or> slash \<noteq> [], fold (\<lambda>(k, v) m. m(k \<mapsto> v)) as m)"
proof (induction as arbitrary: sp m)
  case Nil
  have "scan_mark (CHR ''/'') ''/'' = Some 1" "scan_mark (CHR ''/'') [] = None" by (simp_all add: scan_mark_def scan_Blank Let_def)
  then show ?case using Nil by (subst scan_attrs.simps) (auto simp: Let_def)
next
  case (Cons a as)
  obtain x xs where x: "fst a = x # xs" "attr_char x" using Cons.prems(1) by (cases "fst a") (auto simp: attr_ok_def)
  have nx: "\<not> c_isspace x" "x \<noteq> CHR ''/''" "x \<noteq> CHR ''>''" using alnum_not_special [OF attr_name_char [OF x(2)]] by blast+
  let ?s = "sp @ attr_tail a @ attrs_left '' '' slash as"
  have head: "?s = sp @ x # (xs @ CHR ''='' # CHR 0x22 # snd a @ [CHR 0x22]) @ attrs_left '' '' slash as" by (simp add: attr_tail_def x)
  have marks: "scan_mark (CHR ''/'') ?s = None" "scan_mark (CHR ''>'') ?s = None"
    unfolding head using scan_mark_None [OF Cons.prems(2) nx(1)] nx by blast+
  have a: "attr_ok a" "\<forall>a \<in> set as. attr_ok a" using Cons.prems(1) by simp_all
  obtain n sp' where n: "scan_attr ?s = Some (fst a, snd a, n)" "drop n ?s = attrs_left sp' slash as" "sp' = [] \<or> sp' = '' ''"
  proof (cases "snd a = []")
    case True
    from scan_attr_empty [OF a(1) Cons.prems(2) True] obtain n where
      "scan_attr ?s = Some (fst a, [], n)" "drop n ?s = dropWhile c_isspace (attrs_left '' '' slash as)" by blast
    then show ?thesis using that [of n "[]"] True attrs_left_dropWhile [OF Cons.prems(3) a(2)] by simp
  next
    case False
    then show ?thesis using that [of "length sp + length (attr_tail a)" "'' ''"] scan_attr_full [OF a(1) Cons.prems(2) False] by simp
  qed
  have "scan_attrs b m ?s = scan_attrs b (m(fst a \<mapsto> snd a)) (attrs_left sp' slash as)"
    using marks n(1,2) head by (subst scan_attrs.simps) (simp add: Let_def)
  then show ?case using Cons.IH [OF a(2) n(3) Cons.prems(3)] by (simp add: print_attrs_left case_prod_beta)
qed

subsection \<open>Tags and data\<close>

text \<open>The parser stands in front of a text, with a client in a state.\<close>

definition xml_at :: "'s parser \<Rightarrow> string \<Rightarrow> 's \<Rightarrow> bool" where
  "xml_at p text c \<longleftrightarrow> src_rest (p_source p) = text \<and> p_client p = c \<and> (src_file (p_source p) \<and> src_met_end (p_source p) \<longrightarrow> text = [])"

lemma Scanf_element:
  assumes "src_rest src = CHR ''<'' # body @ CHR ''>'' # rest" and "body \<noteq> []" and "\<not> c_isspace (hd body)" and "CHR ''>'' \<notin> set body"
    and "length body \<le> 1024" and nul: "CHR 0x00 \<notin> set (src_rest src)"
  shows "\<exists>r. xml_Scanf element_format src = (r, src\<lparr>src_rest := rest\<rparr>) \<and> sc_items r = [body]"
proof -
  have "\<forall>c \<in> set body. c \<noteq> CHR ''>''" using assms(4) by auto
  then have "sscanf (element_format @ ds) (src_rest src) =
      (let r = scan_format ds (length body + 2) rest in r\<lparr>sc_items := body # sc_items r\<rparr>)" for ds
    using assms(1-3,5) by (simp add: element_format_def scan_Blank scan_Conv Let_def)
  from this [of "[]"] this [of "[Count]"] show ?thesis
    using assms(1) c_str_id [OF nul] by (simp add: xml_Scanf_def Let_def scanned.defs)
qed

lemma Scanf_no_element:
  assumes "src_rest src = [] \<or> \<not> c_isspace (hd (src_rest src)) \<and> hd (src_rest src) \<noteq> CHR ''<''" and "CHR 0x00 \<notin> set (src_rest src)"
  shows "\<exists>r src'. xml_Scanf element_format src = (r, src') \<and> sc_items r = [] \<and> src_rest src' = src_rest src \<and> src_file src' = src_file src \<and>
    src_met_end src' = (src_met_end src \<or> src_file src \<and> src_rest src = [])"
  using assms by (cases "src_rest src") (auto simp: xml_Scanf_def Let_def element_format_def scan_Blank c_str_id)

lemma Scanf_layout:
  assumes "src_rest src = w @ rest" and "\<forall>c \<in> set w. layout_char c" and "rest = [] \<or> \<not> c_isspace (hd rest)" and nul: "CHR 0x00 \<notin> set (src_rest src)"
    and "src_file src \<and> src_met_end src \<longrightarrow> rest = []"
  shows "\<exists>r src'. xml_Scanf [Conv (Suc (length (src_rest src))) layout_char] src = (r, src') \<and> sc_items r = (if w = [] then [] else [w]) \<and>
    src_rest src' = rest \<and> (src_file src' \<and> src_met_end src' \<longrightarrow> rest = [])"
proof -
  have nl: "rest = [] \<or> \<not> layout_char (hd rest)" using assms(3) by (auto simp: layout_char_def)
  show ?thesis
  proof (cases "w = []")
    case True
    then show ?thesis using assms nl
      by (cases rest) (auto simp: xml_Scanf_def Let_def scan_format.simps(4) c_str_id)
  next
    case False
    have "sscanf (Conv (Suc (length (w @ rest))) layout_char # ds) (w @ rest) = (let r = scan_format ds (length w) rest
        in r\<lparr>sc_items := w # sc_items r, sc_met_end := sc_met_end r \<or> rest = [] \<and> length w < Suc (length (w @ rest))\<rparr>)" for ds
      using scan_Conv [OF False assms(2) _ nl, of "Suc (length (w @ rest))" ds 0] by simp
    from this [of "[]"] this [of "[Count]"] show ?thesis
      using assms False c_str_id [OF nul] by (auto simp: xml_Scanf_def Let_def)
  qed
qed

lemma xml_step_tag:
  assumes at: "xml_at p (CHR ''<'' # body @ CHR ''>'' # layout @ rest) c" and body: "body \<noteq> []" "\<not> c_isspace (hd body)" "hd body \<noteq> CHR ''?''"
    "CHR ''>'' \<notin> set body" "length body \<le> 1024" and layout: "layout_ok layout" and rest: "rest = [] \<or> \<not> c_isspace (hd rest)"
    and nul: "CHR 0x00 \<notin> set (CHR ''<'' # body @ CHR ''>'' # layout @ rest)"
  shows "\<exists>p0. xml_at p0 rest c \<and> p_element p0 = body \<and> xml_step h p = (case sc_items (sscanf end_format body) of
       name # _ \<Rightarrow> xml_called (p0\<lparr>p_name := Some name\<rparr>) (sax_EndElement h name (p_client p0))
     | [] \<Rightarrow> (let marks = takeWhile (\<lambda>c. c = CHR ''!'' \<or> c = CHR ''-'') body
         in if body = [] \<or> marks \<noteq> [] then (if 10 \<le> length marks then None else Some (p0, None)) else xml_begin h p0))"
proof -
  have src: "src_rest (p_source p) = CHR ''<'' # body @ CHR ''>'' # layout @ rest" using at by (simp add: xml_at_def)
  from Scanf_element [OF src body(1,2,4,5)] nul src obtain r where
    r: "xml_Scanf element_format (p_source p) = (r, (p_source p)\<lparr>src_rest := layout @ rest\<rparr>)" "sc_items r = [body]" by auto
  define p1 where "p1 = p\<lparr>m_iErrorLine := m_iErrorLine p + CountNewlines (p_element p), p_source := (p_source p)\<lparr>src_rest := layout @ rest\<rparr>,
    p_first := False, p_element := body\<rparr>"
  have "c_str body = body" using nul by (intro c_str_id) auto
  then have step: "xml_step h p = xml_tag h p1" using r body(1,3) by (simp add: xml_step_def p1_def Let_def)
  have "\<exists>r src'. xml_Scanf [Conv (Suc (length (src_rest (p_source p1)))) layout_char] (p_source p1) = (r, src') \<and> sc_items r = (if layout = [] then [] else [layout]) \<and>
    src_rest src' = rest \<and> (src_file src' \<and> src_met_end src' \<longrightarrow> rest = [])"
    using layout nul at by (intro Scanf_layout rest) (auto simp: p1_def layout_ok_def xml_at_def)
  then obtain r2 src' where l: "xml_Scanf [Conv (Suc (length (src_rest (p_source p1)))) layout_char] (p_source p1) = (r2, src')"
    "sc_items r2 = (if layout = [] then [] else [layout])" "src_rest src' = rest" "src_file src' \<and> src_met_end src' \<longrightarrow> rest = []" by blast
  define p0 where "p0 = (if layout = [] then p1\<lparr>p_source := src'\<rparr>
    else p1\<lparr>p_source := src', p_name := Some layout, m_iErrorLine := m_iErrorLine p1 + CountNewlines layout\<rparr>)"
  have "xml_skip_layout p1 = Some p0" using l layout by (simp add: xml_skip_layout_def p0_def layout_ok_def Let_def)
  moreover have "p_element p0 = body" "p_client p0 = c" "p_source p0 = src'" using at by (simp_all add: p0_def p1_def xml_at_def)
  ultimately show ?thesis using step l(3,4) by (intro exI [of _ p0]) (simp add: xml_tag_def xml_at_def)
qed

text \<open>What a step is that makes the calls of a token.\<close>

definition step_calls :: "'s sax \<Rightarrow> 's parser \<Rightarrow> sax_call list \<Rightarrow> 's \<Rightarrow> string \<Rightarrow> bool" where
  "step_calls h p es c rest \<longleftrightarrow> (case sax_run h es c of None \<Rightarrow> xml_step h p = None
     | Some (err, c') \<Rightarrow> \<exists>p'. xml_step h p = Some (p', if IsError err then Some kError_ParseError else None) \<and> p_client p' = c' \<and>
         (\<not> IsError err \<longrightarrow> xml_at p' rest c'))"

lemma xml_at_client: "xml_at p text c \<Longrightarrow> xml_at (p\<lparr>p_client := c'\<rparr>) text c'"
  by (simp add: xml_at_def)

lemma xml_at_name: "xml_at (p\<lparr>p_name := n\<rparr>) text c = xml_at p text c"
  by (simp add: xml_at_def)

lemma IsError_codes [simp]: "\<not> IsError kError_NoErr" "IsError kError_ParseError"
  by (simp_all add: IsError_def)

lemma step_called:
  assumes "xml_step h p = xml_called p0 (sax_do h e c)" and "xml_at p0 rest c"
  shows "step_calls h p [e] c rest"
  using assms(1) xml_at_client [OF assms(2)]
  by (cases "sax_do h e c") (auto simp: step_calls_def xml_called_def)

lemma begin_step:
  assumes at: "xml_at p0 rest c" and e: "p_element p0 = name @ print_attrs as @ slash" and slash: "slash = [] \<or> slash = ''/''"
    and ok: "name_ok name" "\<forall>a \<in> set as. attr_ok a"
  shows "\<exists>p1. xml_at p1 rest c \<and> p_source p1 = p_source p0 \<and> xml_begin h p0 = do {
      (p, over) \<leftarrow> xml_called p1 (sax_BeginElement h name (attr_map as) c);
      if slash \<noteq> [] \<and> over = None then xml_called p (sax_EndElement h name (p_client p)) else Some (p, over) }"
proof -
  let ?rest = "attrs_left '' '' slash as"
  have n: "name \<noteq> []" "\<forall>c \<in> set name. name_char c" "length name \<le> 254" using ok(1) by (simp_all add: name_ok_def)
  have sp: "\<not> c_isspace (hd name)" using n(1,2) alnum_not_special by (cases name) auto
  have rest: "?rest = [] \<or> \<not> name_char (hd ?rest)" using slash by (cases as) auto
  have dw: "dropWhile c_isspace (name @ ?rest) = name @ ?rest" using n(1) sp by (cases name) auto
  have r: "sc_items (sscanf name_format (name @ ?rest)) = [name]"
    "sc_count (sscanf name_format (name @ ?rest)) = Some (length name + (length ?rest - length (dropWhile c_isspace ?rest)))"
    using n rest dw by (simp_all add: name_format_def scan_Conv scan_format.simps(2) Let_def)
  have "drop (length name + (length ?rest - length (dropWhile c_isspace ?rest))) (name @ ?rest) = dropWhile c_isspace ?rest"
    by simp (metis append_eq_conv_conj length_append add_diff_cancel_right' takeWhile_dropWhile_id)
  then have d: "drop (length name + (length ?rest - length (dropWhile c_isspace ?rest))) (name @ ?rest) = attrs_left [] slash as"
    using attrs_left_dropWhile [OF slash ok(2)] by simp
  have "scan_attrs False Map.empty (attrs_left [] slash as) = Some (slash \<noteq> [], attr_map as)"
    using scan_attrs_list [OF ok(2) _ slash, of "[]" False Map.empty] by (simp add: attr_map_def)
  then have "xml_begin h p0 = do {
      (p, over) \<leftarrow> xml_called (p0\<lparr>p_name := Some name\<rparr>) (sax_BeginElement h name (attr_map as) c);
      if slash \<noteq> [] \<and> over = None then xml_called p (sax_EndElement h name (p_client p)) else Some (p, over) }"
    using e r d at by (simp add: xml_begin_def print_attrs_left Let_def xml_at_def)
  then show ?thesis using at by (intro exI [of _ "p0\<lparr>p_name := Some name\<rparr>"]) (simp add: xml_at_name)
qed

lemma attrs_no_chars:
  assumes "\<forall>a \<in> set as. attr_ok a" and "c \<in> set (print_attrs as)"
  shows "c \<noteq> CHR ''>'' \<and> c \<noteq> CHR 0x00"
  using assms
proof (induction as)
  case (Cons a as)
  have a: "attr_ok a" "\<forall>a \<in> set as. attr_ok a" using Cons.prems(1) by simp_all
  have "c \<in> {CHR '' '', CHR ''='', CHR 0x22} \<or> c \<in> set (fst a) \<or> c \<in> set (snd a) \<or> c \<in> set (print_attrs as)"
    using Cons.prems(2) by (auto simp: print_attrs_def attr_tail_def)
  then show ?case
  proof (elim disjE)
    assume "c \<in> set (fst a)"
    then have "name_char c" using a(1) attr_name_char by (simp add: attr_ok_def)
    then show ?thesis using alnum_not_special by blast
  next
    assume "c \<in> set (snd a)"
    then show ?thesis using a(1) by (simp add: attr_ok_def)
  next
    assume "c \<in> set (print_attrs as)"
    then show ?thesis using Cons.IH a(2) by blast
  qed auto
qed (simp add: print_attrs_def)

lemma text_encoded: "c \<in> set (encode entity_of s) \<Longrightarrow> c \<noteq> CHR ''<'' \<and> (c \<in> set s \<or> c = CHR ''&'' \<or> c = CHR '';'' \<or> letter c)"
proof (induction s)
  case (Cons x s)
  have "entity_of (CHR ''<'') \<noteq> None" "\<not> letter (CHR ''<'')" by (simp_all add: entity_of_def pEntities_def letter_def byte_of_def)
  then show ?case using Cons entity_of_ok by (cases "entity_of x") (auto simp: entities_ok_def)
qed simp

lemma encoded_hd: "s \<noteq> [] \<Longrightarrow> \<not> c_isspace (hd s) \<Longrightarrow> encode entity_of s \<noteq> [] \<and> \<not> c_isspace (hd (encode entity_of s)) \<and> hd (encode entity_of s) \<noteq> CHR ''<''"
  by (cases s) (auto simp: entity_of_def pEntities_def)

lemma text_step:
  assumes at: "xml_at p (xml_escape s @ rest) c" and ok: "token_ok (TText s)" and rest: "rest = [] \<or> hd rest = CHR ''<''"
    and nul: "CHR 0x00 \<notin> set (xml_escape s @ rest)"
  shows "step_calls h p [Data s] c rest"
proof -
  let ?e = "xml_escape s"
  have e: "?e \<noteq> []" "\<not> c_isspace (hd ?e)" "hd ?e \<noteq> CHR ''<''" "length ?e \<le> 4095" "\<forall>c \<in> set ?e. c \<noteq> CHR ''<''"
    using ok encoded_hd [of s] text_encoded [of _ s] by (auto simp: xml_escape_def)
  have src: "src_rest (p_source p) = ?e @ rest" using at by (simp add: xml_at_def)
  from Scanf_no_element [of "p_source p"] obtain r src' where r: "xml_Scanf element_format (p_source p) = (r, src')" "sc_items r = []"
    "src_rest src' = ?e @ rest" "src_file src' = src_file (p_source p)" "\<not> (src_file src' \<and> src_met_end src')"
    using e(1-3) nul at by (auto simp: src xml_at_def)
  then have eof: "\<not> xml_Eof src'" using e(1) by (simp add: xml_Eof_def)
  define p1 where "p1 = p\<lparr>m_iErrorLine := m_iErrorLine p + CountNewlines (p_element p), p_source := src', p_first := False\<rparr>"
  have step: "xml_step h p = xml_data h p1" using r(1,2) eof by (simp add: xml_step_def p1_def Let_def)
  have "sscanf (data_format @ ds) (?e @ rest) = (let r = scan_format ds (length ?e) rest
      in r\<lparr>sc_items := ?e # sc_items r, sc_met_end := sc_met_end r \<or> rest = [] \<and> length ?e < 4095\<rparr>)" for ds
    using e rest by (simp add: data_format_def scan_Blank scan_Conv Let_def)
  from this [of "[]"] this [of "[Count]"]
  have "\<exists>r2 src2. xml_Scanf data_format src' = (r2, src2) \<and> sc_items r2 = [?e] \<and> src_rest src2 = rest \<and> (src_file src2 \<and> src_met_end src2 \<longrightarrow> rest = [])"
    using r(3,5) c_str_id [OF nul] by (cases "src_file src'") (auto simp: xml_Scanf_def Let_def)
  then obtain r2 src2 where d: "xml_Scanf data_format src' = (r2, src2)" "sc_items r2 = [?e]" "src_rest src2 = rest"
    "src_file src2 \<and> src_met_end src2 \<longrightarrow> rest = []" by blast
  have "c_str ?e = ?e" using nul by (intro c_str_id) simp
  then have "xml_data h p1 = xml_called (p1\<lparr>p_source := src2, m_iErrorLine := m_iErrorLine p1 + CountNewlines ?e\<rparr>) (sax_do h (Data s) c)"
    using d(1,2) UnXMLize_escape [of s] ok at by (simp add: xml_data_def p1_def Let_def xml_at_def)
  then show ?thesis using step d(3,4) at by (intro step_called) (auto simp: xml_at_def p1_def)
qed

lemma no_end_tag: "\<not> c_isspace x \<Longrightarrow> x \<noteq> CHR ''/'' \<Longrightarrow> sc_items (sscanf end_format (x # s)) = []"
  by (simp add: end_format_def scan_Blank Let_def)

lemma tag_step:
  assumes at: "xml_at p (CHR ''<'' # (name @ print_attrs as @ slash) @ CHR ''>'' # layout @ rest) c" and slash: "slash = [] \<or> slash = ''/''"
    and ok: "name_ok name" "\<forall>a \<in> set as. attr_ok a" "length (name @ print_attrs as @ slash) \<le> 1024" and layout: "layout_ok layout"
    and rest: "rest = [] \<or> \<not> c_isspace (hd rest)" and nul: "CHR 0x00 \<notin> set (CHR ''<'' # (name @ print_attrs as @ slash) @ CHR ''>'' # layout @ rest)"
  shows "\<exists>p1. xml_at p1 rest c \<and> xml_step h p = do {
      (p, over) \<leftarrow> xml_called p1 (sax_BeginElement h name (attr_map as) c);
      if slash \<noteq> [] \<and> over = None then xml_called p (sax_EndElement h name (p_client p)) else Some (p, over) }"
proof -
  let ?body = "name @ print_attrs as @ slash"
  obtain x xs where x: "name = x # xs" "name_char x" using ok(1) by (cases name) (auto simp: name_ok_def)
  have nx: "\<not> c_isspace x" "x \<noteq> CHR ''/''" "x \<noteq> CHR ''?''" "x \<noteq> CHR ''!''" "x \<noteq> CHR ''-''"
    using alnum_not_special [OF x(2)] by blast+
  have "\<forall>c \<in> set name. c \<noteq> CHR ''>''" using ok(1) alnum_not_special unfolding name_ok_def by blast
  then have "CHR ''>'' \<notin> set name" by blast
  moreover have "CHR ''>'' \<notin> set (print_attrs as)" using attrs_no_chars [OF ok(2)] by blast
  moreover have "CHR ''>'' \<notin> set slash" using slash by auto
  ultimately have gt: "CHR ''>'' \<notin> set ?body" by simp
  have hd: "?body \<noteq> []" "\<not> c_isspace (hd ?body)" "hd ?body \<noteq> CHR ''?''" using x nx by simp_all
  have "sc_items (sscanf end_format ?body) = []" "takeWhile (\<lambda>c. c = CHR ''!'' \<or> c = CHR ''-'') ?body = []"
    using x nx no_end_tag by simp_all
  with xml_step_tag [OF at hd gt ok(3) layout rest nul, of h] hd(1) obtain p0 where
    p0: "xml_at p0 rest c" "p_element p0 = ?body" "xml_step h p = xml_begin h p0"
    by (auto simp only: Let_def list.case if_False simp_thms)
  from begin_step [OF p0(1,2) slash ok(1,2), of h] show ?thesis unfolding p0(3) by blast
qed

lemma token_step:
  assumes at: "xml_at p (print_token (t, layout) @ rest) c" and ok: "token_ok t" "layout_ok layout"
    and rest: "rest = [] \<or> (if \<exists>s. t = TText s then hd rest = CHR ''<'' else \<not> c_isspace (hd rest))"
    and nul: "CHR 0x00 \<notin> set (print_token (t, layout) @ rest)"
  shows "step_calls h p (token_calls t) c rest"
proof (cases t)
  case (TBegin name as)
  then obtain p1 where p1: "xml_at p1 rest c" "xml_step h p = xml_called p1 (sax_do h (Begin name (attr_map as)) c)"
    using tag_step [of p name as "[]" layout rest c h] at ok rest nul by (auto simp: case_prod_beta)
  from step_called [OF p1(2,1)] show ?thesis using TBegin by simp
next
  case (TEmpty name as)
  then obtain p1 where p1: "xml_at p1 rest c" "xml_step h p = do {
      (p, over) \<leftarrow> xml_called p1 (sax_BeginElement h name (attr_map as) c);
      if over = None then xml_called p (sax_EndElement h name (p_client p)) else Some (p, over) }"
    using tag_step [of p name as "''/''" layout rest c h] at ok rest nul by auto
  show ?thesis
  proof (cases "sax_BeginElement h name (attr_map as) c")
    case None
    then show ?thesis using TEmpty p1 by (simp add: step_calls_def xml_called_def)
  next
    case (Some r)
    obtain err c1 where r: "r = (err, c1)" by (cases r)
    show ?thesis
    proof (cases "IsError err")
      case True
      then show ?thesis using TEmpty p1 Some r by (simp add: step_calls_def xml_called_def)
    next
      case False
      then have "xml_step h p = xml_called (p1\<lparr>p_client := c1\<rparr>) (sax_do h (End name) c1)" using p1(2) Some r by (simp add: xml_called_def)
      from step_called [OF this xml_at_client [OF p1(1)]] show ?thesis using TEmpty Some r False by (simp add: step_calls_def)
    qed
  qed
next
  case (TEnd name)
  have n: "name \<noteq> []" "length name \<le> 254" "\<forall>c \<in> set name. name_char c" using ok(1) TEnd by (simp_all add: name_ok_def)
  have items: "sc_items (sscanf end_format (CHR ''/'' # name)) = [name]"
    using n scan_Conv [OF n(1,3,2), of "[]"] by (simp add: end_format_def scan_Blank Let_def)
  have "CHR ''>'' \<notin> set name" using n(3) alnum_not_special by blast
  then have gt: "CHR ''>'' \<notin> set (CHR ''/'' # name)" by simp
  have at': "xml_at p (CHR ''<'' # (CHR ''/'' # name) @ CHR ''>'' # layout @ rest) c" and rest': "rest = [] \<or> \<not> c_isspace (hd rest)"
    and nul': "CHR 0x00 \<notin> set (CHR ''<'' # (CHR ''/'' # name) @ CHR ''>'' # layout @ rest)"
    using at rest nul TEnd by auto
  from xml_step_tag [OF at' _ _ _ gt _ ok(2) rest' nul', of h] n(2) obtain p0 where
    p0: "xml_at p0 rest c" "xml_step h p = xml_called (p0\<lparr>p_name := Some name\<rparr>) (sax_EndElement h name (p_client p0))"
    using items by auto
  have "p_client p0 = c" using p0(1) by (simp add: xml_at_def)
  then show ?thesis using step_called [of h p "p0\<lparr>p_name := Some name\<rparr>" "End name" c rest] p0 TEnd by (simp add: xml_at_name)
next
  case (TText s)
  then show ?thesis using text_step [of p s rest c h] at ok rest nul by (auto split: if_splits)
qed

lemma sax_run_append:
  "sax_run h (es @ fs) s = do { (err, s) \<leftarrow> sax_run h es s; if IsError err then Some (err, s) else sax_run h fs s }"
  proof (induction es arbitrary: s)
  case (Cons e es)
  then show ?case by (cases "sax_do h e s") auto
qed simp

lemma sax_run_error: "sax_run h es s = Some (err, s') \<Longrightarrow> err = kError_NoErr \<or> err = kError_ParseError"
proof (induction es arbitrary: s)
  case (Cons e es)
  then show ?case by (cases "sax_do h e s") (auto split: if_splits)
qed simp

lemma tag_no_nul:
  assumes "name_ok name" and "\<forall>a \<in> set as. attr_ok a" and "layout_ok layout"
  shows "CHR 0x00 \<notin> set name \<and> CHR 0x00 \<notin> set (print_attrs as) \<and> CHR 0x00 \<notin> set layout"
proof -
  have "\<not> name_char (CHR 0x00)" "\<not> layout_char (CHR 0x00)" using alnum_not_special by (auto simp: layout_char_def)
  then show ?thesis using assms attrs_no_chars [OF assms(2)] by (auto simp: name_ok_def layout_ok_def)
qed

lemma print_no_nul:
  assumes "token_ok t" and "layout_ok layout"
  shows "CHR 0x00 \<notin> set (print_token (t, layout))"
proof (cases t)
  case (TText s)
  moreover have "\<not> letter (CHR 0x00)" by (simp add: letter_def byte_of_def)
  ultimately show ?thesis using assms text_encoded [of "CHR 0x00" s] by (auto simp: xml_escape_def)
next
  case (TBegin name as)
  then show ?thesis using assms tag_no_nul [of name as layout] by simp
next
  case (TEmpty name as)
  then show ?thesis using assms tag_no_nul [of name as layout] by simp
next
  case (TEnd name)
  then show ?thesis using assms tag_no_nul [of name "[]" layout] by simp
qed

lemma print_hd:
  assumes "tokens_ok ((t, layout) # ts)"
  shows "print_tokens ts = [] \<or> (if \<exists>s. t = TText s then hd (print_tokens ts) = CHR ''<'' else \<not> c_isspace (hd (print_tokens ts)))"
proof (cases ts)
  case (Cons u us)
  obtain t' l' where u: "u = (t', l')" by (cases u)
  show ?thesis
  proof (cases t')
    case (TText s')
    then have "s' \<noteq> []" "\<not> c_isspace (hd s')" "\<not> (\<exists>s. t = TText s)" using assms Cons u by (auto split: token.splits)
    then show ?thesis using encoded_hd [of s'] Cons u TText by (simp add: print_tokens_def xml_escape_def)
  qed (use Cons u in \<open>simp_all add: print_tokens_def\<close>)
qed (simp add: print_tokens_def)

lemma tokens_parsed:
  "tokens_ok ts \<Longrightarrow> xml_at p (print_tokens ts) c \<Longrightarrow>
   (case sax_run h (concat (map (token_calls \<circ> fst) ts)) c of None \<Rightarrow> xml_DoParse h p = None
    | Some (err, c') \<Rightarrow> \<exists>p'. xml_DoParse h p = Some (err, p') \<and> p_client p' = c')"
proof (induction ts arbitrary: p c)
  case Nil
  then have src: "src_rest (p_source p) = []" "p_client p = c" by (simp_all add: xml_at_def print_tokens_def)
  from Scanf_no_element [of "p_source p"] src obtain r src' where "xml_Scanf element_format (p_source p) = (r, src')" "sc_items r = []" "xml_Eof src'"
    by (auto simp: xml_Eof_def)
  then show ?case using src by (subst xml_DoParse.simps) (simp add: xml_step_def Let_def)
next
  case (Cons u ts)
  obtain t layout where u: "u = (t, layout)" by (cases u)
  let ?text = "print_token (t, layout) @ print_tokens ts"
  have ok: "token_ok t" "layout_ok layout" "tokens_ok ts" using Cons.prems(1) u by simp_all
  have nul: "CHR 0x00 \<notin> set (print_tokens us)" if "tokens_ok us" for us
    using that print_no_nul by (induction us rule: tokens_ok.induct) (auto simp: print_tokens_def)
  have "CHR 0x00 \<notin> set ?text" using nul [OF Cons.prems(1)] u by (simp add: print_tokens_def)
  moreover have "xml_at p ?text c" using Cons.prems(2) u by (simp add: print_tokens_def)
  ultimately have step: "step_calls h p (token_calls t) c (print_tokens ts)"
    using token_step [of p t layout "print_tokens ts" c h] ok(1,2) print_hd [of t layout ts] Cons.prems(1) u by simp
  show ?case
  proof (cases "sax_run h (token_calls t) c")
    case None
    then have "xml_DoParse h p = None" using step by (subst xml_DoParse.simps) (simp add: step_calls_def)
    then show ?thesis using None u by (simp add: sax_run_append)
  next
    case (Some r)
    obtain err c1 where r: "r = (err, c1)" by (cases r)
    then obtain p1 where p1: "xml_step h p = Some (p1, if IsError err then Some kError_ParseError else None)" "p_client p1 = c1"
      "\<not> IsError err \<Longrightarrow> xml_at p1 (print_tokens ts) c1" using step Some by (auto simp: step_calls_def)
    show ?thesis
    proof (cases "IsError err")
      case True
      then have "err = kError_ParseError" using sax_run_error [of h "token_calls t" c err c1] Some r by auto
      moreover have "xml_DoParse h p = Some (kError_ParseError, p1)" using p1(1) True by (subst xml_DoParse.simps) simp
      ultimately show ?thesis using Some r True u p1(2) by (simp add: sax_run_append)
    next
      case False
      then have same: "xml_DoParse h p = xml_DoParse h p1" using p1(1) by (subst xml_DoParse.simps) simp
      have eq: "sax_run h (concat (map (token_calls \<circ> fst) (u # ts))) c = sax_run h (concat (map (token_calls \<circ> fst) ts)) c1"
        using Some r False u by (simp add: sax_run_append)
      show ?thesis unfolding same eq by (rule Cons.IH [OF ok(3) p1(3) [OF False]])
    qed
  qed
qed

lemma document_parsed:
  assumes "tokens_ok ts"
  shows "map_option (\<lambda>(err, p). (err, p_client p)) (xml_DoParse h (xml_open is_file (print_tokens ts) p)) =
    sax_run h (concat (map (token_calls \<circ> fst) ts)) (p_client p)" (is "?result = ?run")
proof -
  have "xml_at (xml_open is_file (print_tokens ts) p) (print_tokens ts) (p_client p)" by (simp add: xml_at_def xml_open_def)
  from tokens_parsed [OF assms this, of h] show ?thesis by (cases ?run) auto
qed

lemma string_parsed:
  assumes "tokens_ok ts" and "sax_run h (concat (map (token_calls \<circ> fst) ts)) (p_client p) = Some (err, c)"
  shows "\<exists>p'. xml_ParseString h (print_tokens ts) p = Some (err, p') \<and> p_client p' = c"
  using document_parsed [OF assms(1), of h False p] assms(2) by (auto simp: xml_ParseString_def)

lemma file_parsed:
  assumes "tokens_ok ts" and "files (c_str oFile) = Some (print_tokens ts)"
    and "sax_run h (concat (map (token_calls \<circ> fst) ts)) (p_client p) = Some (err, c)"
  shows "\<exists>p'. xml_ParseFile h files oFile p = Some (err, p') \<and> p_client p' = c"
  using document_parsed [OF assms(1), of h True p] assms(2,3) by (auto simp: xml_ParseFile_def)

text \<open>
  C10. Parsing is making the calls. For every class derived from the parser, and a document of tags and text whose tags have at most 1024
  characters, whose texts have at most 4095, begin with no white space and contain no entities, and whose layout is shorter than 255 characters
  at each place: parsing it, from a string or a file, gives the result and the state of the derived class that the calls
  for its tags and texts give, one after the other, with attributes as maps and texts decoded, up to the first error.
\<close>

theorem xml_parse_calls:
  assumes "tokens_ok ts" and "files (c_str oFile) = Some (print_tokens ts)"
  shows "map_option (\<lambda>(err, p). (err, p_client p)) (xml_ParseString h (print_tokens ts) p) =
      sax_run h (concat (map (token_calls \<circ> fst) ts)) (p_client p) \<and>
    map_option (\<lambda>(err, p). (err, p_client p)) (xml_ParseFile h files oFile p) =
      sax_run h (concat (map (token_calls \<circ> fst) ts)) (p_client p)"
  using document_parsed [OF assms(1), of h False p] document_parsed [OF assms(1), of h True p] assms(2)
  by (simp add: xml_ParseString_def xml_ParseFile_def)

text \<open>A class that writes down the calls.\<close>

definition recorder :: "sax_call list sax" where
  "recorder = \<lparr>sax_BeginElement = (\<lambda>name attrs s. Some (kError_NoErr, s @ [Begin name attrs])),
     sax_EndElement = (\<lambda>name s. Some (kError_NoErr, s @ [End name])), sax_PCData = (\<lambda>d s. Some (kError_NoErr, s @ [Data d]))\<rparr>"

lemma recorder_run: "sax_run recorder es s = Some (kError_NoErr, s @ es)"
proof (induction es arbitrary: s)
  case (Cons e es)
  then show ?case by (cases e) (simp_all add: recorder_def)
qed simp

definition demo_tokens :: "(token \<times> string) list" where
  "demo_tokens = [(TBegin ''a'' [(''k'', ''v'')], [CHR 0x0A]), (TText ''x & y'', []), (TEmpty ''b'' [], []), (TEnd ''a'', [])]"

lemma demo_tokens_ok: "tokens_ok demo_tokens" by code_simp

theorem xml_parse_calls_witness:
  "map_option (\<lambda>(err, p). (err, p_client p)) (xml_ParseString recorder (print_tokens demo_tokens) (xml_new [])) =
     Some (kError_NoErr, [Begin ''a'' [''k'' \<mapsto> ''v''], Data ''x & y'', Begin ''b'' Map.empty, End ''b'', End ''a''])"
  using xml_parse_calls [OF demo_tokens_ok, of "[''f'' \<mapsto> print_tokens demo_tokens]" "''f''" recorder "xml_new []"]
  by (simp add: recorder_run xml_new_def c_str_def) (simp add: demo_tokens_def attr_map_def)

subsection \<open>A tag that is not closed\<close>

fun xml_steps :: "'s sax \<Rightarrow> nat \<Rightarrow> 's parser \<Rightarrow> 's parser option" where
  "xml_steps h 0 p = Some p"
| "xml_steps h (Suc k) p = do { (p, over) \<leftarrow> xml_step h p; if over = None then xml_steps h k p else None }"

lemma unclosed_step:
  assumes src: "p_source p = \<lparr>src_file = False, src_rest = CHR ''<'' # name @ print_attrs as, src_met_end = False\<rparr>"
    and ok: "name_ok name" "\<forall>a \<in> set as. attr_ok a" "length (name @ print_attrs as) \<le> 1024"
    and accepts: "sax_BeginElement h name (attr_map as) (p_client p) = Some (kError_NoErr, c)"
  shows "\<exists>p'. xml_step h p = Some (p', None) \<and> p_source p' = p_source p \<and> p_client p' = c"
proof -
  let ?body = "name @ print_attrs as"
  obtain x xs where x: "name = x # xs" "name_char x" using ok(1) by (cases name) (auto simp: name_ok_def)
  have nx: "\<not> c_isspace x" "x \<noteq> CHR ''/''" "x \<noteq> CHR ''?''" "x \<noteq> CHR ''!''" "x \<noteq> CHR ''-''"
    using alnum_not_special [OF x(2)] by blast+
  have gt: "\<forall>c \<in> set ?body. c \<noteq> CHR ''>''"
    using ok(1) alnum_not_special attrs_no_chars [OF ok(2)] unfolding name_ok_def set_append by blast
  have "CHR 0x00 \<notin> set ?body" using tag_no_nul [OF ok(1,2), of "[]"] by (simp add: layout_ok_def)
  then have cs: "c_str ?body = ?body" "c_str (CHR ''<'' # ?body) = CHR ''<'' # ?body" by (intro c_str_id; simp)+
  have "sscanf (element_format @ [Count]) (CHR ''<'' # ?body) = \<lparr>sc_items = [?body], sc_count = None, sc_short = True, sc_left = [], sc_met_end = True\<rparr>"
    using scan_Conv [OF _ gt ok(3), of "[]" "[Blank, Lit (CHR ''>''), Count]" 1] x nx(1) by (simp add: element_format_def scan_Blank Let_def)
  then have element: "\<exists>r. xml_Scanf element_format (p_source p) = (r, p_source p) \<and> sc_items r = [?body]"
    using cs(2) by (simp add: xml_Scanf_def src Let_def)
  define p1 where "p1 = p\<lparr>m_iErrorLine := m_iErrorLine p + CountNewlines (p_element p), p_first := False, p_element := ?body\<rparr>"
  have step: "xml_step h p = xml_tag h p1" using element cs(1) x nx(3) by (auto simp: xml_step_def p1_def Let_def)
  have "sscanf [Conv m layout_char, Count] (CHR ''<'' # ?body) = \<lparr>sc_items = [], sc_count = None, sc_short = False, sc_left = CHR ''<'' # ?body, sc_met_end = False\<rparr>"
    if "0 < m" for m using that by (cases m) (simp_all add: scan_format.simps(4) layout_char_def)
  then have "xml_skip_layout p1 = Some p1" using cs(2) by (simp add: xml_skip_layout_def xml_Scanf_def p1_def src Let_def)
  moreover have "sc_items (sscanf end_format ?body) = []" "takeWhile (\<lambda>c. c = CHR ''!'' \<or> c = CHR ''-'') ?body = []"
    using x nx no_end_tag by simp_all
  moreover have e: "p_element p1 = ?body" "?body \<noteq> []" using x by (simp_all add: p1_def)
  ultimately have tag: "xml_tag h p1 = xml_begin h p1" by (auto simp: xml_tag_def)
  have at: "xml_at p1 (CHR ''<'' # ?body) (p_client p)" by (simp add: xml_at_def p1_def src)
  from begin_step [OF at _ _ ok(1,2), of "[]" h] e accepts obtain p2 where
    "p_source p2 = p_source p1" "xml_begin h p1 = xml_called p2 (Some (kError_NoErr, c))" by (auto simp: case_prod_beta)
  then show ?thesis using step tag by (intro exI [of _ "p2\<lparr>p_client := c\<rparr>"]) (simp add: xml_called_def p1_def)
qed



end
