(* ===== verification/XmlClients.thy ===== *)
theory XmlClients
  imports XmlTokens DownloadList
begin

section \<open>What is read with the XML parser\<close>

text \<open>
  The classes derived from the parser: packages of downloads (\<open>dlm/rmp/rmp.cpp\<close>), the directories of streams (\<open>FreeAmpStreams.cpp\<close>,
  \<open>Icecast.cpp\<close>) and headlines (\<open>Headlines.cpp\<close>). Each keeps the path of the open elements as a text.
\<close>

subsection \<open>The path\<close>

text \<open>What is left of the path when \<open>strrchr\<close> finds a slash in it.\<close>

definition path_up :: "string \<Rightarrow> string option" where
  "path_up path = (let p = c_str path in if CHR ''/'' \<in> set p then Some (take (length p - Suc (length (file_part p))) path) else None)"

abbreviation path_down :: "string \<Rightarrow> string \<Rightarrow> string" where
  "path_down path name \<equiv> path @ CHR ''/'' # name"

lemma file_part_down: "CHR ''/'' \<notin> set name \<Longrightarrow> file_part (path_down path name) = name"
  by (subgoal_tac "\<forall>c \<in> set (rev name). c \<noteq> CHR ''/''") (auto simp: file_part_def takeWhile_tail takeWhile_eq_all_conv [THEN iffD2])

lemma path_up_down: "CHR 0x00 \<notin> set path \<Longrightarrow> CHR 0x00 \<notin> set name \<Longrightarrow> CHR ''/'' \<notin> set name \<Longrightarrow> path_up (path_down path name) = Some path"
  by (simp add: path_up_def c_str_id file_part_down Let_def)

subsection \<open>Packages of downloads\<close>

record rmp =
  rmp_path :: string
  rmp_FileName :: string
  rmp_Location :: string
  rmp_PackageId :: string
  rmp_ListId :: string
  rmp_TrackId :: string
  rmp_Playlist :: string
  rmp_Server :: string
  rmp_TrackDir :: string
  rmp_Cookie :: string
  rmp_CookieName :: string
  rmp_CookieValue :: string
  rmp_MetaData :: "metadata option"
  rmp_list :: "download_item list"

definition rmp_new :: rmp where
  "rmp_new = \<lparr>rmp_path = [], rmp_FileName = [], rmp_Location = [], rmp_PackageId = [], rmp_ListId = [], rmp_TrackId = [],
     rmp_Playlist = [], rmp_Server = [], rmp_TrackDir = [], rmp_Cookie = [], rmp_CookieName = [], rmp_CookieValue = [],
     rmp_MetaData = None, rmp_list = []\<rparr>"

definition rmp_GetSupportedFormats :: "nat \<Rightarrow> error \<times> (string \<times> string) option" where
  "rmp_GetSupportedFormats index = (if index < 1 then (kError_NoErr, Some (''rmp'', ''RMP Download Format'')) else (kError_NoMoreFormats, None))"

definition rmp_BeginElement :: "string \<Rightarrow> (string \<rightharpoonup> string) \<Rightarrow> rmp \<Rightarrow> (error \<times> rmp) option" where
  "rmp_BeginElement oElement oAttrMap s =
     (let s = s\<lparr>rmp_path := path_down (rmp_path s) oElement\<rparr>;
          s = (if rmp_path s = ''/PACKAGE/TRACKLIST/TRACK'' then s\<lparr>rmp_MetaData := Some new_metadata\<rparr> else s);
          s = (if rmp_path s = ''/PACKAGE/COOKIE'' then s\<lparr>rmp_CookieName := [], rmp_CookieValue := []\<rparr> else s)
      in Some (kError_NoErr, s))"

text \<open>The data of a track that goes into its metadata; a dot in front of the format is left out.\<close>

definition rmp_track_data :: "string \<Rightarrow> string \<Rightarrow> metadata \<Rightarrow> metadata" where
  "rmp_track_data path oData md =
     (if path = ''/PACKAGE/TRACKLIST/TRACK/TITLE'' then md\<lparr>m_title := oData\<rparr>
      else if path = ''/PACKAGE/TRACKLIST/TRACK/ALBUM'' then md\<lparr>m_album := oData\<rparr>
      else if path = ''/PACKAGE/TRACKLIST/TRACK/ARTIST'' then md\<lparr>m_artist := oData\<rparr>
      else if path = ''/PACKAGE/TRACKLIST/TRACK/GENRE'' then md\<lparr>m_genre := oData\<rparr>
      else if path = ''/PACKAGE/TRACKLIST/TRACK/SIZE'' then md\<lparr>m_size := nat (atoi oData mod 4294967296)\<rparr>
      else if path = ''/PACKAGE/TRACKLIST/TRACK/YEAR'' then md\<lparr>m_year := nat (atoi oData mod 4294967296)\<rparr>
      else if path = ''/PACKAGE/TRACKLIST/TRACK/DURATION'' then md\<lparr>m_time := nat (atoi oData mod 4294967296)\<rparr>
      else if path = ''/PACKAGE/TRACKLIST/TRACK/FORMAT''
      then md\<lparr>m_extension := (if c_str oData \<noteq> [] \<and> hd (c_str oData) = CHR ''.'' then tl (c_str oData) else c_str oData)\<rparr>
      else md)"

definition rmp_PCData :: "string \<Rightarrow> rmp \<Rightarrow> (error \<times> rmp) option" where
  "rmp_PCData oData s = Some (kError_NoErr,
     (if rmp_path s = ''/PACKAGE/PACKAGEID'' then s\<lparr>rmp_PackageId := oData\<rparr>
      else if rmp_path s = ''/PACKAGE/TARGET'' then s\<lparr>rmp_Playlist := oData\<rparr>
      else if rmp_path s = ''/PACKAGE/SERVER/NETNAME'' then s\<lparr>rmp_Server := oData\<rparr>
      else if rmp_path s = ''/PACKAGE/SERVER/LOCATION'' then s\<lparr>rmp_Location := oData\<rparr>
      else if rmp_path s = ''/PACKAGE/TRACKLIST/LISTID'' then s\<lparr>rmp_ListId := oData\<rparr>
      else if rmp_path s = ''/PACKAGE/TRACKLIST/TRACK/TRACKID'' then s\<lparr>rmp_TrackId := oData\<rparr>
      else if rmp_path s = ''/PACKAGE/TRACKLIST/TRACK/DIR'' then s\<lparr>rmp_TrackDir := oData\<rparr>
      else if rmp_path s = ''/PACKAGE/COOKIE/NAME'' then s\<lparr>rmp_CookieName := oData\<rparr>
      else if rmp_path s = ''/PACKAGE/COOKIE/VALUE'' then s\<lparr>rmp_CookieValue := oData\<rparr>
      else if rmp_path s = ''/PACKAGE/TRACKLIST/TRACK/FILENAME'' then s\<lparr>rmp_FileName := oData\<rparr>
      else s\<lparr>rmp_MetaData := map_option (rmp_track_data (rmp_path s) oData) (rmp_MetaData s)\<rparr>))"

text \<open>The first place of a pattern is replaced, one pattern after the other.\<close>

definition replace_first :: "string \<Rightarrow> string \<Rightarrow> string \<Rightarrow> string" where
  "replace_first pat new s = (case strstr pat s of None \<Rightarrow> s | Some pos \<Rightarrow> take pos s @ new @ drop (pos + length pat) s)"

definition rmp_MangleLocation :: "rmp \<Rightarrow> string \<Rightarrow> string" where
  "rmp_MangleLocation s oLocation = replace_first ''%d'' (rmp_TrackDir s) (replace_first ''%pid'' (rmp_PackageId s)
     (replace_first ''%lid'' (rmp_ListId s) (replace_first ''%f'' (rmp_FileName s) (replace_first ''%fid'' (rmp_TrackId s) oLocation))))"

text \<open>The end of a track needs its metadata; the path is not asked for.\<close>

definition rmp_EndElement :: "string \<Rightarrow> rmp \<Rightarrow> (error \<times> rmp) option" where
  "rmp_EndElement oElement s = do {
     let s = (if rmp_path s = ''/PACKAGE/COOKIE''
       then s\<lparr>rmp_Cookie := (if rmp_Cookie s = [] then [] else rmp_Cookie s @ ''; '') @ rmp_CookieName s @ ''='' @ rmp_CookieValue s\<rparr> else s);
     case path_up (rmp_path s) of None \<Rightarrow> Some (kError_NoErr, s)
     | Some path \<Rightarrow> do {
         let s = s\<lparr>rmp_path := path\<rparr>;
         if oElement = ''TRACK'' then do {
           md \<leftarrow> rmp_MetaData s;
           let item = (new_download (rmp_MangleLocation s (''http://'' @ rmp_Server s @ rmp_Location s)) (Some (rmp_FileName s)) (Some md))
             \<lparr>di_playlist := rmp_Playlist s, di_total := m_size md, di_cookie := rmp_Cookie s\<rparr>;
           Some (kError_NoErr, s\<lparr>rmp_list := rmp_list s @ [item], rmp_MetaData := None\<rparr>)
         } else Some (kError_NoErr, s)
       }
   }"

definition rmp_sax :: "rmp sax" where
  "rmp_sax = \<lparr>sax_BeginElement = rmp_BeginElement, sax_EndElement = rmp_EndElement, sax_PCData = rmp_PCData\<rparr>"

text \<open>A URL that is not one of a file leaves the path undefined.\<close>

definition rmp_ReadDownloadFile :: "(string \<rightharpoonup> string) \<Rightarrow> string \<Rightarrow> download_item list \<Rightarrow> rmp parser \<Rightarrow> (error \<times> download_item list \<times> rmp parser) option" where
  "rmp_ReadDownloadFile files url items p = (case URLToFilePath url MAX_PATH of
       (_, Some path, _) \<Rightarrow> do {
         (err, p) \<leftarrow> xml_ParseFile rmp_sax files path (p\<lparr>p_client := (p_client p)\<lparr>rmp_list := items\<rparr>\<rparr>);
         Some (err, rmp_list (p_client p), p)
       }
     | _ \<Rightarrow> None)"

subsection \<open>FreeAmp's directory of streams\<close>

text \<open>\<open>new FreeAmpStreamInfo()\<close> makes the numbers zero.\<close>

record stream_info =
  si_treePath :: string
  si_name :: string
  si_streamUrl :: string
  si_webUrl :: string
  si_desc :: string
  si_genre :: string
  si_bitrate :: int
  si_numUsers :: int
  si_maxUsers :: int

definition new_stream_info :: stream_info where
  "new_stream_info = \<lparr>si_treePath = [], si_name = [], si_streamUrl = [], si_webUrl = [], si_desc = [], si_genre = [], si_bitrate = 0,
     si_numUsers = 0, si_maxUsers = 0\<rparr>"

record streams =
  fs_path :: string
  fs_treePath :: string
  fs_curElement :: string
  fs_info :: "stream_info option"
  fs_list :: "stream_info list"

definition fs_new :: streams where
  "fs_new = \<lparr>fs_path = [], fs_treePath = [], fs_curElement = [], fs_info = None, fs_list = []\<rparr>"

definition fs_BeginElement :: "string \<Rightarrow> (string \<rightharpoonup> string) \<Rightarrow> streams \<Rightarrow> (error \<times> streams) option" where
  "fs_BeginElement oElement oAttrMap s =
     (let s = s\<lparr>fs_path := path_down (fs_path s) oElement, fs_curElement := oElement\<rparr>
      in if oElement = ''Service'' then (case oAttrMap ''Name'' of
             Some name \<Rightarrow> Some (kError_NoErr, s\<lparr>fs_treePath := path_down (fs_treePath s) name\<rparr>)
           | None \<Rightarrow> Some (kError_YouScrewedUp, s))
         else if oElement = ''Stream'' then Some (kError_NoErr, s\<lparr>fs_info := Some new_stream_info\<rparr>)
         else Some (kError_NoErr, s))"

definition fs_field :: "string \<Rightarrow> string \<Rightarrow> stream_info \<Rightarrow> stream_info" where
  "fs_field cur data i =
     (if cur = ''Url'' then i\<lparr>si_streamUrl := data\<rparr>
      else if cur = ''Name'' then i\<lparr>si_name := data\<rparr>
      else if cur = ''WebUrl'' then i\<lparr>si_webUrl := data\<rparr>
      else if cur = ''Genre'' then i\<lparr>si_genre := data\<rparr>
      else if cur = ''Description'' then i\<lparr>si_desc := data\<rparr>
      else if cur = ''Bitrate'' then i\<lparr>si_bitrate := atoi data\<rparr>
      else if cur = ''Users'' then i\<lparr>si_numUsers := atoi data\<rparr>
      else if cur = ''MaxUsers'' then i\<lparr>si_maxUsers := atoi data\<rparr>
      else i)"

definition fs_PCData :: "string \<Rightarrow> streams \<Rightarrow> (error \<times> streams) option" where
  "fs_PCData data s = (case fs_info s of None \<Rightarrow> Some (kError_InvalidParam, s)
     | Some i \<Rightarrow> Some (kError_NoErr, s\<lparr>fs_info := Some (fs_field (fs_curElement s) data i), fs_curElement := []\<rparr>))"

definition fs_EndElement :: "string \<Rightarrow> streams \<Rightarrow> (error \<times> streams) option" where
  "fs_EndElement oElement s = do {
     s \<leftarrow> (if oElement = ''Stream'' then do {
            i \<leftarrow> fs_info s;
            Some (s\<lparr>fs_list := fs_list s @ [i\<lparr>si_treePath := fs_treePath s\<rparr>], fs_info := None\<rparr>)
          } else Some s);
     let up = path_up (fs_treePath s);
     if oElement = ''Service'' \<and> up = None then Some (kError_NoErr, s)
     else (let s = (if oElement = ''Service'' then s\<lparr>fs_treePath := the up\<rparr> else s)
       in Some (kError_NoErr, case path_up (fs_path s) of None \<Rightarrow> s | Some path \<Rightarrow> s\<lparr>fs_path := path\<rparr>))
   }"

definition fs_sax :: "streams sax" where
  "fs_sax = \<lparr>sax_BeginElement = fs_BeginElement, sax_EndElement = fs_EndElement, sax_PCData = fs_PCData\<rparr>"

definition fs_ParseStreamXML :: "string \<Rightarrow> stream_info list \<Rightarrow> streams parser \<Rightarrow> (error \<times> stream_info list \<times> streams parser) option" where
  "fs_ParseStreamXML xml list p = do {
     (err, p) \<leftarrow> xml_ParseString fs_sax xml (p\<lparr>p_client := (p_client p)\<lparr>fs_list := list\<rparr>\<rparr>);
     Some (err, fs_list (p_client p), p)
   }"

definition fs_ParseFileXML :: "(string \<rightharpoonup> string) \<Rightarrow> string \<Rightarrow> stream_info list \<Rightarrow> streams parser \<Rightarrow> (error \<times> stream_info list \<times> streams parser) option" where
  "fs_ParseFileXML files file_name list p = do {
     (err, p) \<leftarrow> xml_ParseFile fs_sax files file_name (p\<lparr>p_client := (p_client p)\<lparr>fs_list := list\<rparr>\<rparr>);
     Some (err, fs_list (p_client p), p)
   }"

subsection \<open>Icecast's directory\<close>

record icecast_info =
  ii_streamUrl :: string
  ii_name :: string
  ii_webUrl :: string
  ii_eMail :: string
  ii_desc :: string
  ii_bitrate :: int

definition new_icecast_info :: icecast_info where
  "new_icecast_info = \<lparr>ii_streamUrl = [], ii_name = [], ii_webUrl = [], ii_eMail = [], ii_desc = [], ii_bitrate = 0\<rparr>"

record icecast =
  ic_path :: string
  ic_info :: "icecast_info option"
  ic_list :: "icecast_info list"

definition ic_BeginElement :: "string \<Rightarrow> (string \<rightharpoonup> string) \<Rightarrow> icecast \<Rightarrow> (error \<times> icecast) option" where
  "ic_BeginElement oElement oAttrMap s =
     (let s = s\<lparr>ic_path := path_down (ic_path s) oElement\<rparr>
      in Some (kError_NoErr, if ic_path s = ''/directory/resource''
        then s\<lparr>ic_info := Some (case oAttrMap ''href'' of None \<Rightarrow> new_icecast_info | Some url \<Rightarrow> new_icecast_info\<lparr>ii_streamUrl := url\<rparr>)\<rparr>
        else s))"

definition ic_PCData :: "string \<Rightarrow> icecast \<Rightarrow> (error \<times> icecast) option" where
  "ic_PCData data s =
     (let store = (\<lambda>f. do { i \<leftarrow> ic_info s; Some (kError_NoErr, s\<lparr>ic_info := Some (f i)\<rparr>) })
      in if ic_path s = ''/directory/resource/name'' then store (\<lambda>i. i\<lparr>ii_name := data\<rparr>)
         else if ic_path s = ''/directory/resource/url'' then store (\<lambda>i. i\<lparr>ii_webUrl := data\<rparr>)
         else if ic_path s = ''/directory/resource/email'' then store (\<lambda>i. i\<lparr>ii_eMail := data\<rparr>)
         else if ic_path s = ''/directory/resource/description'' then store (\<lambda>i. i\<lparr>ii_desc := data\<rparr>)
         else if ic_path s = ''/directory/resource/bitrate'' then store (\<lambda>i. i\<lparr>ii_bitrate := atoi data\<rparr>)
         else Some (kError_NoErr, s))"

definition ic_EndElement :: "string \<Rightarrow> icecast \<Rightarrow> (error \<times> icecast) option" where
  "ic_EndElement oElement s = do {
     s \<leftarrow> (if ic_path s = ''/directory/resource'' then do {
            i \<leftarrow> ic_info s;
            Some (s\<lparr>ic_list := ic_list s @ [i], ic_info := None\<rparr>)
          } else Some s);
     Some (kError_NoErr, case path_up (ic_path s) of None \<Rightarrow> s | Some path \<Rightarrow> s\<lparr>ic_path := path\<rparr>)
   }"

definition ic_sax :: "icecast sax" where
  "ic_sax = \<lparr>sax_BeginElement = ic_BeginElement, sax_EndElement = ic_EndElement, sax_PCData = ic_PCData\<rparr>"

definition ic_ParseStreamXML :: "string \<Rightarrow> icecast_info list \<Rightarrow> icecast parser \<Rightarrow> (error \<times> icecast_info list \<times> icecast parser) option" where
  "ic_ParseStreamXML xml list p = do {
     (err, p) \<leftarrow> xml_ParseString ic_sax xml (p\<lparr>p_client := (p_client p)\<lparr>ic_list := list\<rparr>\<rparr>);
     Some (err, ic_list (p_client p), p)
   }"

subsection \<open>Headlines\<close>

record headlines =
  hl_path :: string
  hl_XMLPath :: string
  hl_XMLURLPath :: string
  hl_Headlines :: "string list"
  hl_HeadlineURLs :: "string list"

definition hl_BeginElement :: "string \<Rightarrow> (string \<rightharpoonup> string) \<Rightarrow> headlines \<Rightarrow> (error \<times> headlines) option" where
  "hl_BeginElement oElement oAttrMap s = Some (kError_NoErr, s\<lparr>hl_path := path_down (hl_path s) oElement\<rparr>)"

definition hl_PCData :: "string \<Rightarrow> headlines \<Rightarrow> (error \<times> headlines) option" where
  "hl_PCData oData s = Some (kError_NoErr,
     if hl_path s = hl_XMLPath s then s\<lparr>hl_Headlines := hl_Headlines s @ [oData]\<rparr>
     else if hl_path s = hl_XMLURLPath s then s\<lparr>hl_HeadlineURLs := hl_HeadlineURLs s @ [oData]\<rparr>
     else s)"

definition hl_EndElement :: "string \<Rightarrow> headlines \<Rightarrow> (error \<times> headlines) option" where
  "hl_EndElement oElement s = Some (kError_NoErr, case path_up (hl_path s) of None \<Rightarrow> s | Some path \<Rightarrow> s\<lparr>hl_path := path\<rparr>)"

definition hl_sax :: "headlines sax" where
  "hl_sax = \<lparr>sax_BeginElement = hl_BeginElement, sax_EndElement = hl_EndElement, sax_PCData = hl_PCData\<rparr>"

text \<open>What is done with the page that was downloaded, if it was; the URLs of earlier headlines are kept when the headlines are cleared.\<close>

definition hl_Download :: "error \<times> string \<Rightarrow> headlines parser \<Rightarrow> (error \<times> headlines parser) option" where
  "hl_Download page p =
     (if fst page \<noteq> kError_NoErr then Some (fst page, p)
      else do {
        (err, p) \<leftarrow> xml_ParseString hl_sax (snd page) (p\<lparr>p_client := (p_client p)\<lparr>hl_Headlines := []\<rparr>\<rparr>);
        Some (err, if \<not> IsError err \<and> length (hl_Headlines (p_client p)) \<noteq> length (hl_HeadlineURLs (p_client p))
          then p\<lparr>p_client := (p_client p)\<lparr>hl_HeadlineURLs := []\<rparr>\<rparr> else p)
      })"

subsection \<open>A package is read\<close>

definition text_element :: "string \<Rightarrow> string \<Rightarrow> token list" where
  "text_element name s = [TBegin name [], TText s, TEnd name]"

definition calls :: "token list \<Rightarrow> sax_call list" where
  "calls ts = concat (map token_calls ts)"

lemma calls_simps [simp]: "calls [] = []" "calls (t # ts) = token_calls t @ calls ts" "calls (ts @ us) = calls ts @ calls us"
  by (simp_all add: calls_def)

text \<open>A package as a publisher writes it, and the download each of its tracks stands for.\<close>

record rmp_track =
  tr_id :: string
  tr_dir :: string
  tr_file :: string
  tr_title :: string
  tr_artist :: string
  tr_album :: string
  tr_genre :: string
  tr_size :: nat
  tr_year :: nat

record rmp_package =
  pk_id :: string
  pk_target :: string
  pk_cookies :: "(string \<times> string) list"
  pk_server :: string
  pk_location :: string
  pk_list :: string
  pk_tracks :: "rmp_track list"

definition track_tokens :: "rmp_track \<Rightarrow> token list" where
  "track_tokens t = [TBegin ''TRACK'' []] @ text_element ''TRACKID'' (tr_id t) @ text_element ''DIR'' (tr_dir t) @
     text_element ''FILENAME'' (tr_file t) @ text_element ''TITLE'' (tr_title t) @ text_element ''ARTIST'' (tr_artist t) @
     text_element ''ALBUM'' (tr_album t) @ text_element ''GENRE'' (tr_genre t) @ text_element ''SIZE'' (decimal (tr_size t)) @
     text_element ''YEAR'' (decimal (tr_year t)) @ [TEnd ''TRACK'']"

definition cookie_tokens :: "string \<times> string \<Rightarrow> token list" where
  "cookie_tokens c = [TBegin ''COOKIE'' []] @ text_element ''NAME'' (fst c) @ text_element ''VALUE'' (snd c) @ [TEnd ''COOKIE'']"

definition package_tokens :: "rmp_package \<Rightarrow> token list" where
  "package_tokens k = [TBegin ''PACKAGE'' []] @ text_element ''PACKAGEID'' (pk_id k) @ text_element ''TARGET'' (pk_target k) @
     concat (map cookie_tokens (pk_cookies k)) @
     [TBegin ''SERVER'' []] @ text_element ''NETNAME'' (pk_server k) @ text_element ''LOCATION'' (pk_location k) @ [TEnd ''SERVER''] @
     [TBegin ''TRACKLIST'' []] @ text_element ''LISTID'' (pk_list k) @ concat (map track_tokens (pk_tracks k)) @ [TEnd ''TRACKLIST''] @
     [TEnd ''PACKAGE'']"

definition cookie_text :: "string \<Rightarrow> (string \<times> string) list \<Rightarrow> string" where
  "cookie_text old cs = fold (\<lambda>c old. (if old = [] then [] else old @ ''; '') @ fst c @ ''='' @ snd c) cs old"

definition track_download :: "rmp_package \<Rightarrow> string \<Rightarrow> rmp_track \<Rightarrow> download_item" where
  "track_download k cookie t = (new_download (replace_first ''%d'' (tr_dir t) (replace_first ''%pid'' (pk_id k)
     (replace_first ''%lid'' (pk_list k) (replace_first ''%f'' (tr_file t) (replace_first ''%fid'' (tr_id t)
       (''http://'' @ pk_server k @ pk_location k)))))) (Some (tr_file t))
     (Some (new_metadata\<lparr>m_title := tr_title t, m_artist := tr_artist t, m_album := tr_album t, m_genre := tr_genre t, m_size := tr_size t,
       m_year := tr_year t\<rparr>)))\<lparr>di_playlist := pk_target k, di_total := tr_size t, di_cookie := cookie\<rparr>"

text \<open>An element with a text changes nothing but what the text is stored in.\<close>

definition rmp_store :: "string \<Rightarrow> string \<Rightarrow> string \<Rightarrow> rmp \<Rightarrow> rmp" where
  "rmp_store path name v s = (snd (the (rmp_PCData v (s\<lparr>rmp_path := path_down path name\<rparr>))))\<lparr>rmp_path := path\<rparr>"

definition plain_name :: "string \<Rightarrow> bool" where
  "plain_name n \<longleftrightarrow> CHR 0x00 \<notin> set n \<and> CHR ''/'' \<notin> set n"

lemma rmp_text_element:
  assumes "rmp_path s = path" and "CHR 0x00 \<notin> set path" and "plain_name name" and "name \<noteq> ''TRACK''"
    and "path_down path name \<noteq> ''/PACKAGE/TRACKLIST/TRACK''" and "path_down path name \<noteq> ''/PACKAGE/COOKIE''"
  shows "sax_run rmp_sax (calls (text_element name v) @ es) s = sax_run rmp_sax es (rmp_store path name v s)"
proof -
  obtain s' where data: "rmp_PCData v (s\<lparr>rmp_path := path_down path name\<rparr>) = Some (kError_NoErr, s')" "rmp_path s' = path_down path name"
    by (simp add: rmp_PCData_def)
  have "rmp_BeginElement name (attr_map []) s = Some (kError_NoErr, s\<lparr>rmp_path := path_down path name\<rparr>)"
    using assms(1,5,6) by (simp add: rmp_BeginElement_def Let_def)
  moreover have "rmp_EndElement name s' = Some (kError_NoErr, s'\<lparr>rmp_path := path\<rparr>)"
    using data(2) assms(2-4,6) by (simp add: rmp_EndElement_def plain_name_def path_up_down)
  ultimately show ?thesis using data(1) by (simp add: text_element_def rmp_sax_def rmp_store_def)
qed

lemma plain_names [simp]:
  "plain_name ''TRACKID''" "plain_name ''DIR''" "plain_name ''FILENAME''" "plain_name ''TITLE''" "plain_name ''ARTIST''" "plain_name ''ALBUM''"
  "plain_name ''GENRE''" "plain_name ''SIZE''" "plain_name ''YEAR''" "plain_name ''NAME''" "plain_name ''VALUE''" "plain_name ''PACKAGEID''"
  "plain_name ''TARGET''" "plain_name ''NETNAME''" "plain_name ''LOCATION''" "plain_name ''LISTID''" "plain_name ''TRACK''" "plain_name ''COOKIE''"
  "plain_name ''SERVER''" "plain_name ''TRACKLIST''" "plain_name ''PACKAGE''"
  by (simp_all add: plain_name_def)

lemma rmp_store_track:
  assumes "rmp_path s = ''/PACKAGE/TRACKLIST/TRACK''"
  shows "rmp_store ''/PACKAGE/TRACKLIST/TRACK'' ''TRACKID'' v s = s\<lparr>rmp_TrackId := v\<rparr>"
    and "rmp_store ''/PACKAGE/TRACKLIST/TRACK'' ''DIR'' v s = s\<lparr>rmp_TrackDir := v\<rparr>"
    and "rmp_store ''/PACKAGE/TRACKLIST/TRACK'' ''FILENAME'' v s = s\<lparr>rmp_FileName := v\<rparr>"
    and "rmp_store ''/PACKAGE/TRACKLIST/TRACK'' ''TITLE'' v s = s\<lparr>rmp_MetaData := map_option (\<lambda>m. m\<lparr>m_title := v\<rparr>) (rmp_MetaData s)\<rparr>"
    and "rmp_store ''/PACKAGE/TRACKLIST/TRACK'' ''ARTIST'' v s = s\<lparr>rmp_MetaData := map_option (\<lambda>m. m\<lparr>m_artist := v\<rparr>) (rmp_MetaData s)\<rparr>"
    and "rmp_store ''/PACKAGE/TRACKLIST/TRACK'' ''ALBUM'' v s = s\<lparr>rmp_MetaData := map_option (\<lambda>m. m\<lparr>m_album := v\<rparr>) (rmp_MetaData s)\<rparr>"
    and "rmp_store ''/PACKAGE/TRACKLIST/TRACK'' ''GENRE'' v s = s\<lparr>rmp_MetaData := map_option (\<lambda>m. m\<lparr>m_genre := v\<rparr>) (rmp_MetaData s)\<rparr>"
    and "rmp_store ''/PACKAGE/TRACKLIST/TRACK'' ''SIZE'' v s =
      s\<lparr>rmp_MetaData := map_option (\<lambda>m. m\<lparr>m_size := nat (atoi v mod 4294967296)\<rparr>) (rmp_MetaData s)\<rparr>"
    and "rmp_store ''/PACKAGE/TRACKLIST/TRACK'' ''YEAR'' v s =
      s\<lparr>rmp_MetaData := map_option (\<lambda>m. m\<lparr>m_year := nat (atoi v mod 4294967296)\<rparr>) (rmp_MetaData s)\<rparr>"
  using assms by (cases s; cases "rmp_MetaData s"; simp add: rmp_store_def rmp_PCData_def rmp_track_data_def)+

lemma rmp_store_package:
  "rmp_path s = ''/PACKAGE'' \<Longrightarrow> rmp_store ''/PACKAGE'' ''PACKAGEID'' v s = s\<lparr>rmp_PackageId := v\<rparr>"
  "rmp_path s = ''/PACKAGE'' \<Longrightarrow> rmp_store ''/PACKAGE'' ''TARGET'' v s = s\<lparr>rmp_Playlist := v\<rparr>"
  "rmp_path s = ''/PACKAGE/COOKIE'' \<Longrightarrow> rmp_store ''/PACKAGE/COOKIE'' ''NAME'' v s = s\<lparr>rmp_CookieName := v\<rparr>"
  "rmp_path s = ''/PACKAGE/COOKIE'' \<Longrightarrow> rmp_store ''/PACKAGE/COOKIE'' ''VALUE'' v s = s\<lparr>rmp_CookieValue := v\<rparr>"
  "rmp_path s = ''/PACKAGE/SERVER'' \<Longrightarrow> rmp_store ''/PACKAGE/SERVER'' ''NETNAME'' v s = s\<lparr>rmp_Server := v\<rparr>"
  "rmp_path s = ''/PACKAGE/SERVER'' \<Longrightarrow> rmp_store ''/PACKAGE/SERVER'' ''LOCATION'' v s = s\<lparr>rmp_Location := v\<rparr>"
  "rmp_path s = ''/PACKAGE/TRACKLIST'' \<Longrightarrow> rmp_store ''/PACKAGE/TRACKLIST'' ''LISTID'' v s = s\<lparr>rmp_ListId := v\<rparr>"
  by (cases s; simp add: rmp_store_def rmp_PCData_def)+

text \<open>The tags around.\<close>

lemma rmp_sax_simps [simp]:
  "sax_BeginElement rmp_sax = rmp_BeginElement" "sax_EndElement rmp_sax = rmp_EndElement" "sax_PCData rmp_sax = rmp_PCData"
  by (simp_all add: rmp_sax_def)

lemma rmp_ups:
  "path_up ''/PACKAGE/TRACKLIST/TRACK'' = Some ''/PACKAGE/TRACKLIST''" "path_up ''/PACKAGE/TRACKLIST'' = Some ''/PACKAGE''"
  "path_up ''/PACKAGE/COOKIE'' = Some ''/PACKAGE''" "path_up ''/PACKAGE/SERVER'' = Some ''/PACKAGE''" "path_up ''/PACKAGE'' = Some []"
  by code_simp+

lemma track_read:
  assumes "rmp_path s = ''/PACKAGE/TRACKLIST''" and "tr_size t < 2147483648" and "tr_year t < 2147483648"
    and k: "rmp_PackageId s = pk_id k" "rmp_Playlist s = pk_target k" "rmp_Server s = pk_server k" "rmp_Location s = pk_location k" "rmp_ListId s = pk_list k"
  shows "sax_run rmp_sax (calls (track_tokens t) @ es) s = sax_run rmp_sax es (s\<lparr>rmp_TrackId := tr_id t, rmp_TrackDir := tr_dir t,
     rmp_FileName := tr_file t, rmp_MetaData := None, rmp_list := rmp_list s @ [track_download k (rmp_Cookie s) t]\<rparr>)"
proof -
  let ?s1 = "s\<lparr>rmp_path := ''/PACKAGE/TRACKLIST/TRACK'', rmp_MetaData := Some new_metadata\<rparr>"
  let ?md = "new_metadata\<lparr>m_title := tr_title t, m_artist := tr_artist t, m_album := tr_album t, m_genre := tr_genre t, m_size := tr_size t, m_year := tr_year t\<rparr>"
  let ?s2 = "s\<lparr>rmp_path := ''/PACKAGE/TRACKLIST/TRACK'', rmp_TrackId := tr_id t, rmp_TrackDir := tr_dir t, rmp_FileName := tr_file t,
    rmp_MetaData := Some ?md\<rparr>"
  have n: "nat (atoi (decimal (tr_size t)) mod 4294967296) = tr_size t" "nat (atoi (decimal (tr_year t)) mod 4294967296) = tr_year t"
    using assms(2,3) by (simp_all add: atoi_decimal)
  have "rmp_BeginElement ''TRACK'' (attr_map []) s = Some (kError_NoErr, ?s1)" using assms(1) by (simp add: rmp_BeginElement_def Let_def)
  then have a: "sax_run rmp_sax (calls (track_tokens t) @ es) s = sax_run rmp_sax (calls (tl (track_tokens t)) @ es) ?s1"
    by (simp add: track_tokens_def)
  have b: "sax_run rmp_sax (calls (tl (track_tokens t)) @ es) ?s1 = sax_run rmp_sax (End ''TRACK'' # es) ?s2"
    using n by (simp add: track_tokens_def rmp_text_element [of _ "''/PACKAGE/TRACKLIST/TRACK''"] rmp_store_track)
  have c: "rmp_EndElement ''TRACK'' ?s2 = Some (kError_NoErr, s\<lparr>rmp_TrackId := tr_id t, rmp_TrackDir := tr_dir t,
     rmp_FileName := tr_file t, rmp_MetaData := None, rmp_list := rmp_list s @ [track_download k (rmp_Cookie s) t]\<rparr>)"
    using assms(1) k by (simp add: rmp_EndElement_def rmp_ups track_download_def rmp_MangleLocation_def Let_def)
  show ?thesis unfolding a b by (simp add: c)
qed

lemma tracks_read:
  "rmp_path s = ''/PACKAGE/TRACKLIST'' \<Longrightarrow> \<forall>t \<in> set ts. tr_size t < 2147483648 \<and> tr_year t < 2147483648 \<Longrightarrow>
   rmp_PackageId s = pk_id k \<Longrightarrow> rmp_Playlist s = pk_target k \<Longrightarrow> rmp_Server s = pk_server k \<Longrightarrow> rmp_Location s = pk_location k \<Longrightarrow> rmp_ListId s = pk_list k \<Longrightarrow>
   \<exists>s'. sax_run rmp_sax (calls (concat (map track_tokens ts)) @ es) s = sax_run rmp_sax es s' \<and> rmp_path s' = ''/PACKAGE/TRACKLIST'' \<and>
     rmp_list s' = rmp_list s @ map (track_download k (rmp_Cookie s)) ts \<and> rmp_Cookie s' = rmp_Cookie s"
proof (induction ts arbitrary: s)
  case (Cons t ts)
  let ?s = "s\<lparr>rmp_TrackId := tr_id t, rmp_TrackDir := tr_dir t, rmp_FileName := tr_file t, rmp_MetaData := None,
    rmp_list := rmp_list s @ [track_download k (rmp_Cookie s) t]\<rparr>"
  have "sax_run rmp_sax (calls (track_tokens t) @ (calls (concat (map track_tokens ts)) @ es)) s = sax_run rmp_sax (calls (concat (map track_tokens ts)) @ es) ?s"
    using Cons.prems by (intro track_read) simp_all
  then show ?case using Cons.IH [of ?s] Cons.prems by auto
qed auto

lemma cookies_read:
  "rmp_path s = ''/PACKAGE'' \<Longrightarrow> \<exists>name val. sax_run rmp_sax (calls (concat (map cookie_tokens cs)) @ es) s =
     sax_run rmp_sax es (s\<lparr>rmp_Cookie := cookie_text (rmp_Cookie s) cs, rmp_CookieName := name, rmp_CookieValue := val\<rparr>)"
proof (induction cs arbitrary: s)
  case Nil
  then show ?case by (intro exI [of _ "rmp_CookieName s"] exI [of _ "rmp_CookieValue s"]) (simp add: cookie_text_def)
next
  case (Cons c cs)
  let ?s1 = "s\<lparr>rmp_path := ''/PACKAGE/COOKIE'', rmp_CookieName := [], rmp_CookieValue := []\<rparr>"
  let ?s2 = "s\<lparr>rmp_path := ''/PACKAGE/COOKIE'', rmp_CookieName := fst c, rmp_CookieValue := snd c\<rparr>"
  let ?s3 = "s\<lparr>rmp_Cookie := cookie_text (rmp_Cookie s) [c], rmp_CookieName := fst c, rmp_CookieValue := snd c\<rparr>"
  let ?es = "calls (concat (map cookie_tokens cs)) @ es"
  have "rmp_BeginElement ''COOKIE'' (attr_map []) s = Some (kError_NoErr, ?s1)" using Cons.prems by (simp add: rmp_BeginElement_def Let_def)
  then have a: "sax_run rmp_sax (calls (cookie_tokens c) @ ?es) s = sax_run rmp_sax (calls (tl (cookie_tokens c)) @ ?es) ?s1"
    by (simp add: cookie_tokens_def)
  have b: "sax_run rmp_sax (calls (tl (cookie_tokens c)) @ ?es) ?s1 = sax_run rmp_sax (End ''COOKIE'' # ?es) ?s2"
    by (simp add: cookie_tokens_def rmp_text_element [of _ "''/PACKAGE/COOKIE''"] rmp_store_package)
  have c: "rmp_EndElement ''COOKIE'' ?s2 = Some (kError_NoErr, ?s3)"
    using Cons.prems by (simp add: rmp_EndElement_def rmp_ups cookie_text_def Let_def)
  have "sax_run rmp_sax (calls (concat (map cookie_tokens (c # cs))) @ es) s = sax_run rmp_sax ?es ?s3"
    using a b by (simp add: c)
  then show ?case using Cons.IH [of ?s3] Cons.prems by (simp add: cookie_text_def)
qed

text \<open>
  C11. A package is read. When the file of a package holds its elements in the order of the format, with texts the parser can read, reading it appends
  one download for each track: the location with its patterns replaced, the name of the file, the metadata, the target as the playlist, and
  the cookies. The cookies of every package that was read before with the same object are sent along too. Afterwards
  the path is empty again, so that the next package can be read.
\<close>

theorem package_read:
  assumes path: "URLToFilePath url MAX_PATH = (err, Some path, len)" "files (c_str path) = Some (print_tokens ts)"
    and ts: "tokens_ok ts" "map fst ts = package_tokens k" and empty: "rmp_path (p_client p) = []"
    and numbers: "\<forall>t \<in> set (pk_tracks k). tr_size t < 2147483648 \<and> tr_year t < 2147483648"
  shows "\<exists>p'. rmp_ReadDownloadFile files url items p = Some (kError_NoErr,
      items @ map (track_download k (cookie_text (rmp_Cookie (p_client p)) (pk_cookies k))) (pk_tracks k), p') \<and> rmp_path (p_client p') = []"
proof -
  let ?s = "(p_client p)\<lparr>rmp_list := items\<rparr>"
  let ?c = "cookie_text (rmp_Cookie ?s) (pk_cookies k)"
  let ?up = "[TEnd ''TRACKLIST'', TEnd ''PACKAGE'']"
  let ?tracks = "concat (map track_tokens (pk_tracks k)) @ ?up"
  let ?lists = "[TBegin ''TRACKLIST'' []] @ text_element ''LISTID'' (pk_list k) @ ?tracks"
  let ?server = "[TBegin ''SERVER'' []] @ text_element ''NETNAME'' (pk_server k) @ text_element ''LOCATION'' (pk_location k) @ [TEnd ''SERVER''] @ ?lists"
  let ?cookies = "concat (map cookie_tokens (pk_cookies k)) @ ?server"
  let ?s1 = "?s\<lparr>rmp_path := ''/PACKAGE'', rmp_PackageId := pk_id k, rmp_Playlist := pk_target k\<rparr>"
  have a: "sax_run rmp_sax (calls (package_tokens k)) ?s = sax_run rmp_sax (calls ?cookies) ?s1"
    using empty by (simp add: package_tokens_def rmp_BeginElement_def Let_def rmp_text_element [of _ "''/PACKAGE''"] rmp_store_package)
  from cookies_read [of ?s1 "pk_cookies k" "calls ?server"] obtain name val where
    b: "sax_run rmp_sax (calls ?cookies) ?s1 = sax_run rmp_sax (calls ?server) (?s1\<lparr>rmp_Cookie := ?c, rmp_CookieName := name, rmp_CookieValue := val\<rparr>)"
    by auto
  let ?s2 = "?s1\<lparr>rmp_Cookie := ?c, rmp_CookieName := name, rmp_CookieValue := val\<rparr>"
  let ?s3 = "?s2\<lparr>rmp_path := ''/PACKAGE/TRACKLIST'', rmp_Server := pk_server k, rmp_Location := pk_location k, rmp_ListId := pk_list k\<rparr>"
  have c: "sax_run rmp_sax (calls ?server) ?s2 = sax_run rmp_sax (calls ?tracks) ?s3"
    by (cases "p_client p") (simp add: rmp_BeginElement_def rmp_EndElement_def Let_def rmp_ups rmp_store_package
        rmp_text_element [of _ "''/PACKAGE/SERVER''"] rmp_text_element [of _ "''/PACKAGE/TRACKLIST''"])
  from tracks_read [of ?s3 "pk_tracks k" k "calls ?up"] numbers obtain s' where
    d: "sax_run rmp_sax (calls ?tracks) ?s3 = sax_run rmp_sax (calls ?up) s'" "rmp_path s' = ''/PACKAGE/TRACKLIST''"
      "rmp_list s' = items @ map (track_download k ?c) (pk_tracks k)" by auto
  have e: "sax_run rmp_sax (calls ?up) s' = Some (kError_NoErr, s'\<lparr>rmp_path := []\<rparr>)"
    using d(2) by (simp add: rmp_EndElement_def rmp_ups Let_def)
  have run: "sax_run rmp_sax (calls (package_tokens k)) ?s = Some (kError_NoErr, s'\<lparr>rmp_path := []\<rparr>)"
    unfolding a b c d(1) e ..
  have "concat (map (token_calls \<circ> fst) ts) = calls (package_tokens k)" by (simp add: calls_def ts(2) [symmetric])
  then have "sax_run rmp_sax (concat (map (token_calls \<circ> fst) ts)) (p_client (p\<lparr>p_client := ?s\<rparr>)) = Some (kError_NoErr, s'\<lparr>rmp_path := []\<rparr>)"
    using run by simp
  from file_parsed [of ts files path, OF ts(1) path(2) this] obtain p' where
    "xml_ParseFile rmp_sax files path (p\<lparr>p_client := ?s\<rparr>) = Some (kError_NoErr, p')" "p_client p' = s'\<lparr>rmp_path := []\<rparr>" by blast
  then show ?thesis using path(1) d(3) by (intro exI [of _ p']) (simp add: rmp_ReadDownloadFile_def)
qed

definition demo_package :: rmp_package where
  "demo_package = \<lparr>pk_id = ''7'', pk_target = ''Hits'', pk_cookies = [(''id'', ''42'')], pk_server = ''example.com'', pk_location = ''/get/%pid/%f'',
     pk_list = ''3'', pk_tracks = [\<lparr>tr_id = ''1'', tr_dir = ''d'', tr_file = ''a.mp3'', tr_title = ''A'', tr_artist = ''B'', tr_album = ''C'',
       tr_genre = ''Rock'', tr_size = 1000, tr_year = 1999\<rparr>]\<rparr>"

theorem package_read_witness:
  "\<exists>item p'. rmp_ReadDownloadFile [''/p.rmp'' \<mapsto> print_tokens (map (\<lambda>t. (t, [])) (package_tokens demo_package))] ''file:///p.rmp'' [] (xml_new rmp_new) =
     Some (kError_NoErr, [item], p') \<and> di_src item = ''http://example.com/get/7/a.mp3'' \<and> di_cookie item = ''id=42'' \<and> di_total item = 1000"
proof -
  let ?ts = "map (\<lambda>t. (t, [])) (package_tokens demo_package)"
  have url: "URLToFilePath ''file:///p.rmp'' MAX_PATH = (kError_NoErr, Some ''/p.rmp'', 7)"
    by (simp add: URLToFilePath_def has_prefix_ci_def c_str_def lower_byte_def byte_of_def)
  have ok: "tokens_ok ?ts" by code_simp
  have fst: "map fst ?ts = package_tokens demo_package" by (simp add: comp_def)
  have "\<exists>p'. rmp_ReadDownloadFile [''/p.rmp'' \<mapsto> print_tokens ?ts] ''file:///p.rmp'' [] (xml_new rmp_new) = Some (kError_NoErr,
      [] @ map (track_download demo_package (cookie_text (rmp_Cookie (p_client (xml_new rmp_new))) (pk_cookies demo_package))) (pk_tracks demo_package), p') \<and>
      rmp_path (p_client p') = []"
    by (rule package_read [OF url _ ok fst]) (simp_all add: c_str_def demo_package_def xml_new_def rmp_new_def)
  moreover have "di_src (track_download demo_package c t) = ''http://example.com/get/7/a.mp3''" if "t \<in> set (pk_tracks demo_package)" for c t
    using that by (simp add: track_download_def demo_package_def new_download_def empty_download_def replace_first_def c_str_def)
  ultimately show ?thesis by (auto simp: demo_package_def xml_new_def rmp_new_def cookie_text_def track_download_def)
qed

subsection \<open>A directory of streams is read\<close>

record listed_stream =
  ls_url :: string
  ls_name :: string
  ls_desc :: string
  ls_genre :: string
  ls_web :: string
  ls_bitrate :: nat
  ls_users :: nat
  ls_max :: nat

text \<open>Services hold services and streams, as the comment of \<open>FreeAmpStreams.h\<close> shows.\<close>

datatype stream_dir =
    Service string "stream_dir list"
  | Stream listed_stream

definition stream_tokens :: "listed_stream \<Rightarrow> token list" where
  "stream_tokens r = [TBegin ''Stream'' []] @ text_element ''Url'' (ls_url r) @ text_element ''Name'' (ls_name r) @
     text_element ''Description'' (ls_desc r) @ text_element ''Genre'' (ls_genre r) @ text_element ''WebUrl'' (ls_web r) @
     text_element ''Bitrate'' (decimal (ls_bitrate r)) @ text_element ''Users'' (decimal (ls_users r)) @
     text_element ''MaxUsers'' (decimal (ls_max r)) @ [TEnd ''Stream'']"

fun dir_tokens :: "stream_dir \<Rightarrow> token list" where
  "dir_tokens (Service name ds) = [TBegin ''Service'' [(''Name'', name)]] @ concat (map dir_tokens ds) @ [TEnd ''Service'']"
| "dir_tokens (Stream r) = stream_tokens r"

definition directory_tokens :: "stream_dir list \<Rightarrow> token list" where
  "directory_tokens ds = [TBegin ''Directory'' []] @ concat (map dir_tokens ds) @ [TEnd ''Directory'']"

text \<open>The streams in their order, each with the path of the services around it.\<close>

fun dir_streams :: "string \<Rightarrow> stream_dir \<Rightarrow> stream_info list" where
  "dir_streams tree (Service name ds) = concat (map (dir_streams (path_down tree name)) ds)"
| "dir_streams tree (Stream r) = [\<lparr>si_treePath = tree, si_name = ls_name r, si_streamUrl = ls_url r, si_webUrl = ls_web r, si_desc = ls_desc r,
     si_genre = ls_genre r, si_bitrate = int (ls_bitrate r), si_numUsers = int (ls_users r), si_maxUsers = int (ls_max r)\<rparr>]"

fun dir_ok :: "stream_dir \<Rightarrow> bool" where
  "dir_ok (Service name ds) \<longleftrightarrow> plain_name name \<and> (\<forall>d \<in> set ds. dir_ok d)"
| "dir_ok (Stream r) \<longleftrightarrow> ls_bitrate r < 2147483648 \<and> ls_users r < 2147483648 \<and> ls_max r < 2147483648"

lemma fs_sax_simps [simp]:
  "sax_BeginElement fs_sax = fs_BeginElement" "sax_EndElement fs_sax = fs_EndElement" "sax_PCData fs_sax = fs_PCData"
  by (simp_all add: fs_sax_def)

lemma fs_text_element:
  assumes "fs_info s = Some i" and "CHR 0x00 \<notin> set (fs_path s)" and "plain_name name" and "name \<notin> {''Service'', ''Stream''}"
  shows "sax_run fs_sax (calls (text_element name v) @ es) s = sax_run fs_sax es (s\<lparr>fs_info := Some (fs_field name v i), fs_curElement := []\<rparr>)"
proof -
  have "path_up (path_down (fs_path s) name) = Some (fs_path s)" using assms(2,3) by (simp add: path_up_down plain_name_def)
  then show ?thesis
    using assms(1,4) by (cases s) (simp add: text_element_def fs_BeginElement_def fs_PCData_def fs_EndElement_def Let_def)
qed

lemma plain_stream_names [simp]:
  "plain_name ''Url''" "plain_name ''Name''" "plain_name ''Description''" "plain_name ''Genre''" "plain_name ''WebUrl''" "plain_name ''Bitrate''"
  "plain_name ''Users''" "plain_name ''MaxUsers''" "plain_name ''Stream''" "plain_name ''Service''" "plain_name ''Directory''"
  by (simp_all add: plain_name_def)

lemma stream_read:
  assumes "fs_info s = None" and "CHR 0x00 \<notin> set (fs_path s)" and "dir_ok (Stream r)"
  shows "sax_run fs_sax (calls (stream_tokens r) @ es) s =
    sax_run fs_sax es (s\<lparr>fs_curElement := [], fs_list := fs_list s @ dir_streams (fs_treePath s) (Stream r)\<rparr>)"
proof -
  have up: "path_up (path_down (fs_path s) ''Stream'') = Some (fs_path s)" using assms(2) by (simp add: path_up_down)
  have nul: "CHR 0x00 \<notin> set (path_down (fs_path s) ''Stream'')" using assms(2) by simp
  show ?thesis
    using assms(1,3) up nul
    by (cases s) (simp add: stream_tokens_def fs_BeginElement_def fs_EndElement_def fs_text_element fs_field_def new_stream_info_def atoi_decimal Let_def)
qed

lemma dir_read:
  "dir_ok d \<Longrightarrow> fs_info s = None \<Longrightarrow> CHR 0x00 \<notin> set (fs_path s) \<Longrightarrow> CHR 0x00 \<notin> set (fs_treePath s) \<Longrightarrow>
   \<exists>c. sax_run fs_sax (calls (dir_tokens d) @ es) s =
     sax_run fs_sax es (s\<lparr>fs_curElement := c, fs_list := fs_list s @ dir_streams (fs_treePath s) d\<rparr>)"
proof (induction d arbitrary: s es)
  case (Stream r)
  then show ?case using stream_read [of s r es] by auto
next
  case (Service name ds)
  have name: "CHR 0x00 \<notin> set name" "CHR ''/'' \<notin> set name" using Service.prems(1) by (simp_all add: plain_name_def)
  let ?s = "s\<lparr>fs_path := path_down (fs_path s) ''Service'', fs_curElement := ''Service'', fs_treePath := path_down (fs_treePath s) name\<rparr>"
  have inner: "\<forall>d \<in> set es'. d \<in> set ds \<Longrightarrow> fs_info q = None \<Longrightarrow> CHR 0x00 \<notin> set (fs_path q) \<Longrightarrow> CHR 0x00 \<notin> set (fs_treePath q) \<Longrightarrow>
      \<exists>c. sax_run fs_sax (calls (concat (map dir_tokens es')) @ es) q =
        sax_run fs_sax es (q\<lparr>fs_curElement := c, fs_list := fs_list q @ concat (map (dir_streams (fs_treePath q)) es')\<rparr>)" for es' q es
  proof (induction es' arbitrary: q)
    case Nil
    then show ?case by (intro exI [of _ "fs_curElement q"]) simp
  next
    case (Cons d es')
    have "dir_ok d" using Cons.prems(1) Service.prems(1) by simp
    from Service.IH [OF _ this Cons.prems(2-4), of "calls (concat (map dir_tokens es')) @ es"] Cons.prems(1) obtain c where
      "sax_run fs_sax (calls (concat (map dir_tokens (d # es'))) @ es) q =
        sax_run fs_sax (calls (concat (map dir_tokens es')) @ es) (q\<lparr>fs_curElement := c, fs_list := fs_list q @ dir_streams (fs_treePath q) d\<rparr>)" by auto
    then show ?case using Cons.IH [of "q\<lparr>fs_curElement := c, fs_list := fs_list q @ dir_streams (fs_treePath q) d\<rparr>"] Cons.prems by auto
  qed
  have opened: "fs_BeginElement ''Service'' (attr_map [(''Name'', name)]) s = Some (kError_NoErr, ?s)"
    by (cases s) (simp add: fs_BeginElement_def attr_map_def Let_def)
  from inner [of ds ?s "End ''Service'' # es"] Service.prems name obtain c where
    c: "sax_run fs_sax (calls (concat (map dir_tokens ds)) @ End ''Service'' # es) ?s = sax_run fs_sax (End ''Service'' # es)
      (?s\<lparr>fs_curElement := c, fs_list := fs_list s @ concat (map (dir_streams (path_down (fs_treePath s) name)) ds)\<rparr>)" by auto
  have up: "path_up (path_down (fs_path s) ''Service'') = Some (fs_path s)" "path_up (path_down (fs_treePath s) name) = Some (fs_treePath s)"
    using Service.prems(3,4) name by (simp_all add: path_up_down)
  have e: "sax_run fs_sax (End ''Service'' # es) (?s\<lparr>fs_curElement := c, fs_list := fs_list s @ concat (map (dir_streams (path_down (fs_treePath s) name)) ds)\<rparr>) =
      sax_run fs_sax es (s\<lparr>fs_curElement := c, fs_list := fs_list s @ dir_streams (fs_treePath s) (Service name ds)\<rparr>)"
    using up by (cases s) (simp add: fs_EndElement_def Let_def)
  have "sax_run fs_sax (calls (dir_tokens (Service name ds)) @ es) s = sax_run fs_sax (calls (concat (map dir_tokens ds)) @ End ''Service'' # es) ?s"
    using opened by simp
  then show ?case using c e by metis
qed

lemma dirs_read:
  "\<forall>d \<in> set ds. dir_ok d \<Longrightarrow> fs_info s = None \<Longrightarrow> CHR 0x00 \<notin> set (fs_path s) \<Longrightarrow> CHR 0x00 \<notin> set (fs_treePath s) \<Longrightarrow>
   \<exists>c. sax_run fs_sax (calls (concat (map dir_tokens ds)) @ es) s =
     sax_run fs_sax es (s\<lparr>fs_curElement := c, fs_list := fs_list s @ concat (map (dir_streams (fs_treePath s)) ds)\<rparr>)"
proof (induction ds arbitrary: s)
  case Nil
  then show ?case by (intro exI [of _ "fs_curElement s"]) simp
next
  case (Cons d ds)
  from dir_read [of d s "calls (concat (map dir_tokens ds)) @ es"] Cons.prems obtain c where
    "sax_run fs_sax (calls (concat (map dir_tokens (d # ds))) @ es) s =
      sax_run fs_sax (calls (concat (map dir_tokens ds)) @ es) (s\<lparr>fs_curElement := c, fs_list := fs_list s @ dir_streams (fs_treePath s) d\<rparr>)" by auto
  then show ?case using Cons.IH [of "s\<lparr>fs_curElement := c, fs_list := fs_list s @ dir_streams (fs_treePath s) d\<rparr>"] Cons.prems by auto
qed

text \<open>
  C30. A directory of streams is read. For a directory of nested services with streams, with names without slashes and
  texts the parser can read, parsing it appends exactly its streams in their order, each with its texts and numbers and the path of the services
  around it, and leaves the paths empty for the next directory.
\<close>

theorem directory_read:
  assumes ts: "tokens_ok ts" "map fst ts = directory_tokens ds" and ok: "\<forall>d \<in> set ds. dir_ok d"
    and start: "fs_path (p_client p) = []" "fs_treePath (p_client p) = []" "fs_info (p_client p) = None"
  shows "\<exists>p'. fs_ParseStreamXML (print_tokens ts) list p = Some (kError_NoErr, list @ concat (map (dir_streams []) ds), p') \<and>
    fs_path (p_client p') = [] \<and> fs_treePath (p_client p') = [] \<and> fs_info (p_client p') = None"
proof -
  let ?s = "(p_client p)\<lparr>fs_list := list\<rparr>"
  let ?s1 = "?s\<lparr>fs_path := ''/Directory'', fs_curElement := ''Directory''\<rparr>"
  have up: "path_up ''/Directory'' = Some []" by code_simp
  have a: "sax_run fs_sax (calls (directory_tokens ds)) ?s = sax_run fs_sax (calls (concat (map dir_tokens ds)) @ [End ''Directory'']) ?s1"
    using start by (simp add: directory_tokens_def fs_BeginElement_def Let_def)
  from dirs_read [OF ok, of ?s1 "[End ''Directory'']"] start obtain c where
    b: "sax_run fs_sax (calls (concat (map dir_tokens ds)) @ [End ''Directory'']) ?s1 =
      sax_run fs_sax [End ''Directory''] (?s1\<lparr>fs_curElement := c, fs_list := list @ concat (map (dir_streams []) ds)\<rparr>)" by auto
  let ?s' = "?s\<lparr>fs_curElement := c, fs_list := list @ concat (map (dir_streams []) ds)\<rparr>"
  have "sax_run fs_sax [End ''Directory''] (?s1\<lparr>fs_curElement := c, fs_list := list @ concat (map (dir_streams []) ds)\<rparr>) = Some (kError_NoErr, ?s')"
    using start(1) up by (cases "p_client p") (simp add: fs_EndElement_def Let_def)
  with a b have run: "sax_run fs_sax (calls (directory_tokens ds)) ?s = Some (kError_NoErr, ?s')" by (simp only:)
  have "concat (map (token_calls \<circ> fst) ts) = calls (directory_tokens ds)" by (simp add: calls_def ts(2) [symmetric])
  with run have "sax_run fs_sax (concat (map (token_calls \<circ> fst) ts)) (p_client (p\<lparr>p_client := ?s\<rparr>)) = Some (kError_NoErr, ?s')" by simp
  from string_parsed [OF ts(1) this] obtain p' where
    "xml_ParseString fs_sax (print_tokens ts) (p\<lparr>p_client := ?s\<rparr>) = Some (kError_NoErr, p')" "p_client p' = ?s'" by blast
  then show ?thesis using start by (intro exI [of _ p']) (simp add: fs_ParseStreamXML_def)
qed

definition demo_directory :: "stream_dir list" where
  "demo_directory = [Service ''Wired Planet'' [Service ''Fuss'' [Stream \<lparr>ls_url = ''http://icecast.server.com:8000/stream'', ls_name = ''Fuss stream'',
     ls_desc = ''This is some description'', ls_genre = ''fuss hop'', ls_web = ''http://www.icecast.org'', ls_bitrate = 64000, ls_users = 316,
     ls_max = 350\<rparr>]]]"

theorem directory_read_witness:
  "\<exists>i p'. fs_ParseStreamXML (print_tokens (map (\<lambda>t. (t, [CHR 0x0A] @ '' '')) (directory_tokens demo_directory))) [] (xml_new fs_new) = Some (kError_NoErr, [i], p') \<and>
     si_treePath i = ''/Wired Planet/Fuss'' \<and> si_numUsers i = 316"
proof -
  let ?ts = "map (\<lambda>t. (t, [CHR 0x0A] @ '' '')) (directory_tokens demo_directory)"
  have numbers: "decimal 64000 = ''64000''" "decimal 316 = ''316''" "decimal 350 = ''350''" by (simp_all add: decimal.simps digit_char_def char_of_def bit_simps)
  have ok: "tokens_ok ?ts"
    unfolding directory_tokens_def demo_directory_def dir_tokens.simps list.map concat.simps stream_tokens_def listed_stream.select_convs numbers
    by code_simp
  have fst: "map fst ?ts = directory_tokens demo_directory" by (simp add: comp_def)
  have dirs: "\<forall>d \<in> set demo_directory. dir_ok d" by (simp add: demo_directory_def plain_name_def)
  from directory_read [OF ok fst dirs, of "xml_new fs_new" "[]"] show ?thesis
    by (auto simp: demo_directory_def xml_new_def fs_new_def)
qed

end
